(* ===== verification/Rust_Prelude.thy ===== *)
theory Rust_Prelude
  imports Main "HOL-Library.Word" "HOL-Library.Sublist"
begin

text \<open>
  Shared vocabulary of the development: the Rust integer types and the arithmetic the code
  uses on them, the clock types, results, and the generic machinery of the component
  theories (a state machine with an invariant, a table with expiring entries).

  Integers keep their width where the code's overflow behaviour matters (\<open>u32\<close> budgets);
  time stamps that are only compared and subtracted with \<open>saturating_sub\<close> are \<open>nat\<close>,
  whose subtraction is exactly the saturating one.
\<close>

named_theorems policy_defs "definitions unfolded when a decision procedure is analysed"
named_theorems rstr_simps "rewriting rules for the UTF-8 string operations"

subsection \<open>Results and integers\<close>

type_synonym u8 = "8 word"
type_synonym u32 = "32 word"
type_synonym ('e, 'a) result = "'e + 'a"

abbreviation Err :: "'e \<Rightarrow> ('e, 'a) result" where "Err \<equiv> Inl"
abbreviation Ok :: "'a \<Rightarrow> ('e, 'a) result" where "Ok \<equiv> Inr"

definition is_ok :: "('e, 'a) result \<Rightarrow> bool" where
  "is_ok r = (case r of Inl _ \<Rightarrow> False | Inr _ \<Rightarrow> True)"

lemma is_ok_simps [simp]: "is_ok (Inr a)" "\<not> is_ok (Inl e)"
  by (simp_all add: is_ok_def)

lemma is_ok_iff: "is_ok r \<longleftrightarrow> (\<exists>a. r = Inr a)"
  by (cases r) simp_all

text \<open>\<open>u32::saturating_add\<close>.\<close>

definition saturating_add :: "'a::len word \<Rightarrow> 'a word \<Rightarrow> 'a word" where
  "saturating_add a b = (if unat a + unat b < 2 ^ LENGTH('a) then a + b else - 1)"

lemma unat_saturating_add:
  "unat (saturating_add a b) = min (unat a + unat b) (2 ^ LENGTH('a) - 1)"
  for a b :: "'a::len word"
proof (cases "unat a + unat b < 2 ^ LENGTH('a)")
  case True
  then show ?thesis by (simp add: saturating_add_def unat_word_ariths)
next
  case False
  have "unat (- 1 :: 'a word) = 2 ^ LENGTH('a) - 1"
    by (simp add: unsigned_minus_1_eq_mask mask_eq_exp_minus_1)
  with False show ?thesis by (simp add: saturating_add_def)
qed

lemma saturating_add_ge: "a \<le> saturating_add a b" for a b :: "'a::len word"
proof -
  have "unat a < 2 ^ LENGTH('a)" by (rule unsigned_less)
  then have "unat a \<le> unat (saturating_add a b)"
    by (simp add: unat_saturating_add le_diff_conv2 Suc_le_eq)
  then show ?thesis by (simp add: word_le_nat_alt)
qed

subsection \<open>Clocks\<close>

text \<open>
  \<open>Instant\<close>: nanoseconds since the earliest instant the platform can represent, so that
  \<open>checked_sub\<close> fails exactly when the result would lie before it. \<open>unix_secs\<close>: whole
  seconds of the wall clock.
\<close>

type_synonym instant = nat
type_synonym unix_secs = nat

definition nanos :: "nat \<Rightarrow> nat" where
  "nanos secs = secs * 1000000000"

definition instant_checked_sub :: "instant \<Rightarrow> nat \<Rightarrow> instant option" where
  "instant_checked_sub t d = (if d \<le> t then Some (t - d) else None)"

text \<open>\<open>Duration::as_secs\<close> of \<open>t0.elapsed()\<close> read at \<open>now\<close>.\<close>

definition elapsed_secs :: "instant \<Rightarrow> instant \<Rightarrow> nat" where
  "elapsed_secs now t0 = (now - t0) div 1000000000"

lemma elapsed_secs_mono: "now \<le> now' \<Longrightarrow> elapsed_secs now t0 \<le> elapsed_secs now' t0"
  unfolding elapsed_secs_def by (intro div_le_mono diff_le_mono)

lemma elapsed_secs_self [simp]: "elapsed_secs t t = 0"
  by (simp add: elapsed_secs_def)

subsection \<open>State machines\<close>

text \<open>
  A component whose operations run one at a time under its mutex is a step function from
  state and event to state and output. \<open>run_machine\<close> is a sequence of such calls.
\<close>

fun run_machine :: "('s \<Rightarrow> 'e \<Rightarrow> 's \<times> 'o) \<Rightarrow> 's \<Rightarrow> 'e list \<Rightarrow> 's \<times> 'o list" where
  "run_machine step s [] = (s, [])"
| "run_machine step s (e # es) =
     (let (s1, out) = step s e; (s2, outs) = run_machine step s1 es in (s2, out # outs))"

lemma run_machine_Cons [simp]:
  "fst (run_machine step s (e # es)) = fst (run_machine step (fst (step s e)) es)"
  "snd (run_machine step s (e # es)) = snd (step s e) # snd (run_machine step (fst (step s e)) es)"
  by (simp_all add: Let_def split: prod.splits)

lemma run_machine_append:
  "fst (run_machine step s (es @ fs)) = fst (run_machine step (fst (run_machine step s es)) fs)"
  by (induction es arbitrary: s) (simp_all del: run_machine.simps(2))

lemma length_run_machine [simp]: "length (snd (run_machine step s es)) = length es"
  by (induction es arbitrary: s) (simp_all del: run_machine.simps(2))

declare run_machine.simps(2) [simp del]

text \<open>Every event satisfies \<open>ok\<close> in the state in which it is handled.\<close>

fun events_ok :: "('s \<Rightarrow> 'e \<Rightarrow> 's \<times> 'o) \<Rightarrow> ('s \<Rightarrow> 'e \<Rightarrow> bool) \<Rightarrow> 's \<Rightarrow> 'e list \<Rightarrow> bool" where
  "events_ok step ok s [] = True"
| "events_ok step ok s (e # es) = (ok s e \<and> events_ok step ok (fst (step s e)) es)"

lemma events_ok_append:
  "events_ok step ok s (es @ fs) \<longleftrightarrow>
     events_ok step ok s es \<and> events_ok step ok (fst (run_machine step s es)) fs"
  by (induction es arbitrary: s) auto

lemma events_ok_trivial: "(\<And>s e. ok s e) \<Longrightarrow> events_ok step ok s es"
  by (induction es arbitrary: s) auto

locale guarded_machine =
  fixes step :: "'s \<Rightarrow> 'e \<Rightarrow> 's \<times> 'o"
    and ok :: "'s \<Rightarrow> 'e \<Rightarrow> bool"
    and inv :: "'s \<Rightarrow> bool"
  assumes step_inv: "inv s \<Longrightarrow> ok s e \<Longrightarrow> inv (fst (step s e))"
begin

lemma run_inv: "inv s \<Longrightarrow> events_ok step ok s es \<Longrightarrow> inv (fst (run_machine step s es))"
  by (induction es arbitrary: s) (simp_all add: step_inv)

text \<open>What holds of every output of a step from an invariant state holds of all outputs of a run.\<close>

lemma run_outputs:
  assumes out: "\<And>s e. inv s \<Longrightarrow> ok s e \<Longrightarrow> P (snd (step s e))"
  shows "inv s \<Longrightarrow> events_ok step ok s es \<Longrightarrow> list_all P (snd (run_machine step s es))"
  by (induction es arbitrary: s) (simp_all add: step_inv out)

end

subsection \<open>Tables of expiring entries\<close>

text \<open>
  Pairing tokens and replay nonces are both kept in a table from a hash to the second it was
  recorded at, and both are cleaned by \<open>retain\<close> with the same condition,
  \<open>now.saturating_sub(ts) < ttl\<close>. The interface says what a lookup returns after the clean-up.
\<close>

definition live_at :: "unix_secs \<Rightarrow> nat \<Rightarrow> unix_secs \<Rightarrow> bool" where
  "live_at now ttl ts \<longleftrightarrow> now - ts < ttl"

lemma live_at_antimono: "now \<le> now' \<Longrightarrow> live_at now' ttl ts \<Longrightarrow> live_at now ttl ts"
  by (auto simp: live_at_def)

locale expiring_table =
  fixes find_ts :: "'m \<Rightarrow> 'k \<Rightarrow> unix_secs option"
    and retain :: "unix_secs \<Rightarrow> nat \<Rightarrow> 'm \<Rightarrow> 'm"
    and wf :: "'m \<Rightarrow> bool"
  assumes find_retain:
    "wf m \<Longrightarrow> find_ts (retain now ttl m) k =
       (case find_ts m k of None \<Rightarrow> None
        | Some ts \<Rightarrow> if live_at now ttl ts then Some ts else None)"
    and wf_retain: "wf m \<Longrightarrow> wf (retain now ttl m)"
begin

lemma find_retain_Some:
  "wf m \<Longrightarrow> find_ts (retain now ttl m) k = Some ts \<longleftrightarrow> find_ts m k = Some ts \<and> live_at now ttl ts"
  by (auto simp: find_retain split: option.splits)

lemma retained_was_present:
  "wf m \<Longrightarrow> find_ts (retain now ttl m) k = Some ts \<Longrightarrow> find_ts m k = Some ts"
  by (simp add: find_retain_Some)

text \<open>Cleaning twice with a clock that did not run backwards is cleaning once at the later time.\<close>

lemma retain_twice:
  "wf m \<Longrightarrow> now \<le> now' \<Longrightarrow>
   find_ts (retain now' ttl (retain now ttl m)) k = find_ts (retain now' ttl m) k"
  by (auto simp: find_retain wf_retain split: option.splits dest: live_at_antimono)

end

end
