(* ===== verification/Rust_Strings.thy ===== *)
theory Rust_Strings
  imports Rust_Prelude
begin

text \<open>
  Rust strings as their UTF-8 bytes (\<open>rstr\<close>), with the operations of \<open>str\<close> the program
  uses. \<open>len\<close>, \<open>starts_with\<close>, \<open>contains\<close>, \<open>split\<close> and \<open>replace\<close> with the ASCII
  patterns of the program act on bytes and are exact, because no byte of a multi-byte
  character is an ASCII byte. White space is Unicode's \<open>White_Space\<close> property, recognised on
  its UTF-8 encodings. \<open>to_lowercase\<close> is exact on ASCII and on the two non-ASCII characters
  whose lower case contains an ASCII letter (the Kelvin sign and the dotted capital I); every
  other character keeps its bytes, which no search for an ASCII pattern can tell from the
  bytes of its real lower case.
\<close>

type_synonym rstr = string

abbreviation starts_with :: "rstr \<Rightarrow> rstr \<Rightarrow> bool" where
  "starts_with s p \<equiv> prefix p s"

abbreviation ends_with :: "rstr \<Rightarrow> rstr \<Rightarrow> bool" where
  "ends_with s p \<equiv> suffix p s"

abbreviation contains :: "rstr \<Rightarrow> rstr \<Rightarrow> bool" where
  "contains s p \<equiv> sublist p s"

subsection \<open>White space\<close>

definition is_ascii_ws :: "char \<Rightarrow> bool" where
  "is_ascii_ws c \<longleftrightarrow> c = CHR '' '' \<or> c = CHR 0x09 \<or> c = CHR 0x0A \<or> c = CHR 0x0B \<or>
     c = CHR 0x0C \<or> c = CHR 0x0D"

definition ws2 :: "char \<Rightarrow> char \<Rightarrow> bool" where
  "ws2 c d \<longleftrightarrow> c = CHR 0xC2 \<and> (d = CHR 0x85 \<or> d = CHR 0xA0)"

definition ws3 :: "char \<Rightarrow> char \<Rightarrow> char \<Rightarrow> bool" where
  "ws3 c d e \<longleftrightarrow>
     c = CHR 0xE1 \<and> d = CHR 0x9A \<and> e = CHR 0x80 \<or>
     c = CHR 0xE2 \<and> d = CHR 0x80 \<and>
       (e \<in> set [CHR 0x80, CHR 0x81, CHR 0x82, CHR 0x83, CHR 0x84, CHR 0x85, CHR 0x86,
                 CHR 0x87, CHR 0x88, CHR 0x89, CHR 0x8A, CHR 0xA8, CHR 0xA9, CHR 0xAF]) \<or>
     c = CHR 0xE2 \<and> d = CHR 0x81 \<and> e = CHR 0x9F \<or>
     c = CHR 0xE3 \<and> d = CHR 0x80 \<and> e = CHR 0x80"

text \<open>Bytes of the white-space character the string starts with, 0 if it starts with none.\<close>

fun ws_len :: "rstr \<Rightarrow> nat" where
  "ws_len s =
     (case s of [] \<Rightarrow> 0
      | c # r \<Rightarrow>
          if is_ascii_ws c then 1
          else (case r of [] \<Rightarrow> 0
                | d # r' \<Rightarrow>
                    if ws2 c d then 2
                    else (case r' of [] \<Rightarrow> 0 | e # _ \<Rightarrow> if ws3 c d e then 3 else 0)))"

declare ws_len.simps [simp del]

lemma ws_len_Nil [simp]: "ws_len [] = 0"
  by (simp add: ws_len.simps)

lemma ws_len_le: "ws_len s \<le> length s"
  by (auto simp: ws_len.simps [of s] split: list.splits)

function trim_start :: "rstr \<Rightarrow> rstr" where
  "trim_start s = (if ws_len s = 0 then s else trim_start (drop (ws_len s) s))"
  by pat_completeness auto
termination
proof (relation "measure length", simp)
  fix s :: rstr
  assume "ws_len s \<noteq> 0"
  then show "(drop (ws_len s) s, s) \<in> measure length"
    using ws_len_le [of s] by simp
qed

declare trim_start.simps [simp del]

fun trim_end :: "rstr \<Rightarrow> rstr" where
  "trim_end [] = []"
| "trim_end (c # s) = (if trim_start (c # s) = [] then [] else c # trim_end s)"

definition trim :: "rstr \<Rightarrow> rstr" where
  "trim s = trim_end (trim_start s)"

text \<open>The scan of \<open>split_whitespace\<close>: \<open>w\<close> is the current word, reversed.\<close>

function split_ws_from :: "rstr \<Rightarrow> rstr \<Rightarrow> rstr list" where
  "split_ws_from w s =
     (if s = [] then (if w = [] then [] else [rev w])
      else if ws_len s = 0 then split_ws_from (hd s # w) (tl s)
      else (if w = [] then [] else [rev w]) @ split_ws_from [] (drop (ws_len s) s))"
  by pat_completeness auto
termination
proof (relation "measure (\<lambda>(w, s). length s)", simp, simp)
  fix w s :: rstr
  assume "s \<noteq> []" "ws_len s \<noteq> 0"
  then show "(([], drop (ws_len s) s), w, s) \<in> measure (\<lambda>(w, s). length s)"
    using ws_len_le [of s] by simp
qed

declare split_ws_from.simps [simp del]

definition split_whitespace :: "rstr \<Rightarrow> rstr list" where
  "split_whitespace s = split_ws_from [] s"

text \<open>\<open>split_whitespace().next().unwrap_or("")\<close>.\<close>

definition first_word :: "rstr \<Rightarrow> rstr" where
  "first_word s = (case split_whitespace s of [] \<Rightarrow> [] | w # _ \<Rightarrow> w)"

subsection \<open>Cutting and replacing\<close>

fun strip_prefix :: "rstr \<Rightarrow> rstr \<Rightarrow> rstr option" where
  "strip_prefix [] s = Some s"
| "strip_prefix (p # ps) [] = None"
| "strip_prefix (p # ps) (c # s) = (if p = c then strip_prefix ps s else None)"

lemma strip_prefix_Some: "strip_prefix p s = Some r \<longleftrightarrow> s = p @ r"
  by (induction p s rule: strip_prefix.induct) auto

lemma strip_prefix_None: "strip_prefix p s = None \<longleftrightarrow> \<not> starts_with s p"
  by (induction p s rule: strip_prefix.induct) auto

definition strip_suffix :: "rstr \<Rightarrow> rstr \<Rightarrow> rstr option" where
  "strip_suffix p s = map_option rev (strip_prefix (rev p) (rev s))"

lemma strip_suffix_Some: "strip_suffix p s = Some r \<longleftrightarrow> s = r @ p"
proof -
  have "strip_suffix p s = Some r \<longleftrightarrow> strip_prefix (rev p) (rev s) = Some (rev r)"
    by (auto simp: strip_suffix_def)
  also have "\<dots> \<longleftrightarrow> rev s = rev (r @ p)" by (simp add: strip_prefix_Some)
  also have "\<dots> \<longleftrightarrow> s = r @ p" by (simp only: rev_is_rev_conv)
  finally show ?thesis .
qed

lemma strip_suffix_None: "strip_suffix p s = None \<longleftrightarrow> \<not> ends_with s p"
  by (simp add: strip_suffix_def strip_prefix_None suffix_to_prefix)

text \<open>\<open>split(c)\<close> and \<open>split_once(c)\<close> at an ASCII character.\<close>

fun split_on :: "char \<Rightarrow> rstr \<Rightarrow> rstr list" where
  "split_on c [] = [[]]"
| "split_on c (x # s) =
     (if x = c then [] # split_on c s
      else (case split_on c s of [] \<Rightarrow> [[x]] | w # ws \<Rightarrow> (x # w) # ws))"

lemma split_on_not_Nil [simp]: "split_on c s \<noteq> []"
  by (cases s) (auto split: list.splits)

lemma split_on_pieces: "w \<in> set (split_on c s) \<Longrightarrow> c \<notin> set w"
  by (induction s arbitrary: w) (auto split: list.splits if_splits)

lemma split_on_id: "c \<notin> set s \<Longrightarrow> split_on c s = [s]"
  by (induction s) auto

fun split_once :: "char \<Rightarrow> rstr \<Rightarrow> (rstr \<times> rstr) option" where
  "split_once c [] = None"
| "split_once c (x # s) =
     (if x = c then Some ([], s) else map_option (\<lambda>(a, b). (x # a, b)) (split_once c s))"

text \<open>\<open>replace(pat, rep)\<close> for a non-empty pattern: left to right, without overlaps.\<close>

function str_replace :: "rstr \<Rightarrow> rstr \<Rightarrow> rstr \<Rightarrow> rstr" where
  "str_replace pat rep s =
     (if s = [] then []
      else if pat \<noteq> [] \<and> starts_with s pat then rep @ str_replace pat rep (drop (length pat) s)
      else hd s # str_replace pat rep (tl s))"
  by pat_completeness auto
termination
  by (relation "measure (\<lambda>(pat, rep, s). length s)") auto

declare str_replace.simps [simp del]

text \<open>\<open>str::find\<close>: the text before the first occurrence of a pattern and the text from there on.\<close>

fun find_split :: "rstr \<Rightarrow> rstr \<Rightarrow> (rstr \<times> rstr) option" where
  "find_split pat [] = (if pat = [] then Some ([], []) else None)"
| "find_split pat (c # s) =
     (if starts_with (c # s) pat then Some ([], c # s)
      else map_option (\<lambda>(a, b). (c # a, b)) (find_split pat s))"

fun join :: "rstr \<Rightarrow> rstr list \<Rightarrow> rstr" where
  "join sep [] = []"
| "join sep [w] = w"
| "join sep (w # ws) = w @ sep @ join sep ws"

subsection \<open>ASCII classes and case\<close>

definition byte :: "char \<Rightarrow> nat" where
  "byte c = of_char c"

definition is_ascii_alphabetic :: "char \<Rightarrow> bool" where
  "is_ascii_alphabetic c \<longleftrightarrow> 65 \<le> byte c \<and> byte c \<le> 90 \<or> 97 \<le> byte c \<and> byte c \<le> 122"

definition is_ascii_digit :: "char \<Rightarrow> bool" where
  "is_ascii_digit c \<longleftrightarrow> 48 \<le> byte c \<and> byte c \<le> 57"

definition is_ascii_alphanumeric :: "char \<Rightarrow> bool" where
  "is_ascii_alphanumeric c \<longleftrightarrow> is_ascii_alphabetic c \<or> is_ascii_digit c"

definition is_ascii_hexdigit :: "char \<Rightarrow> bool" where
  "is_ascii_hexdigit c \<longleftrightarrow> is_ascii_digit c \<or> 65 \<le> byte c \<and> byte c \<le> 70 \<or>
     97 \<le> byte c \<and> byte c \<le> 102"

definition ascii_lower :: "char \<Rightarrow> char" where
  "ascii_lower c = (if 65 \<le> byte c \<and> byte c \<le> 90 then char_of (byte c + 32) else c)"

definition to_ascii_lowercase :: "rstr \<Rightarrow> rstr" where
  "to_ascii_lowercase s = map ascii_lower s"

definition eq_ignore_ascii_case :: "rstr \<Rightarrow> rstr \<Rightarrow> bool" where
  "eq_ignore_ascii_case a b \<longleftrightarrow> map ascii_lower a = map ascii_lower b"

text \<open>U+212A lowers to \<open>k\<close>, U+0130 to \<open>i\<close> followed by U+0307.\<close>

function to_lowercase :: "rstr \<Rightarrow> rstr" where
  "to_lowercase s =
     (if s = [] then []
      else if starts_with s [CHR 0xE2, CHR 0x84, CHR 0xAA] then CHR ''k'' # to_lowercase (drop 3 s)
      else if starts_with s [CHR 0xC4, CHR 0xB0]
        then CHR ''i'' # CHR 0xCC # CHR 0x87 # to_lowercase (drop 2 s)
      else ascii_lower (hd s) # to_lowercase (tl s))"
  by pat_completeness auto
termination
  by (relation "measure length") auto

declare to_lowercase.simps [simp del]

subsection \<open>Decimal numbers\<close>

fun decimal :: "nat \<Rightarrow> rstr" where
  "decimal n = (if n < 10 then [char_of (48 + n)] else decimal (n div 10) @ [char_of (48 + n mod 10)])"

declare decimal.simps [simp del]

subsection \<open>Words and trimming\<close>

lemma length_trim_start: "length (trim_start s) \<le> length s"
proof (induction s rule: trim_start.induct)
  case (1 s)
  then show ?case
    by (cases "ws_len s = 0") (simp_all add: trim_start.simps [of s])
qed

lemma length_trim_end: "length (trim_end s) \<le> length s"
  by (induction s) auto

lemma length_trim: "length (trim s) \<le> length s"
  unfolding trim_def using length_trim_end length_trim_start le_trans by blast

lemma trim_Nil [simp]: "trim [] = []"
  by code_simp

lemma trim_start_id: "ws_len s = 0 \<Longrightarrow> trim_start s = s"
  by (simp add: trim_start.simps)

lemma ws_len_trim_start: "ws_len (trim_start s) = 0"
proof (induction s rule: trim_start.induct)
  case (1 s)
  then show ?case
    by (cases "ws_len s = 0") (simp_all add: trim_start.simps [of s])
qed

lemma ascii_ws_ws_len: "is_ascii_ws c \<Longrightarrow> ws_len (c # s) = 1"
  by (simp add: ws_len.simps)

lemma ws_len_0_head: "ws_len (c # s) = 0 \<Longrightarrow> \<not> is_ascii_ws c"
  using ascii_ws_ws_len by fastforce

lemma split_ws_from_end [simp]: "split_ws_from w [] = (if w = [] then [] else [rev w])"
  by (simp add: split_ws_from.simps)

lemma split_ws_from_char: "ws_len (c # s) = 0 \<Longrightarrow> split_ws_from w (c # s) = split_ws_from (c # w) s"
  by (simp add: split_ws_from.simps [of w "c # s"])

lemma split_ws_from_ws:
  "ws_len s \<noteq> 0 \<Longrightarrow>
   split_ws_from w s = (if w = [] then [] else [rev w]) @ split_ws_from [] (drop (ws_len s) s)"
  by (subst split_ws_from.simps) auto

abbreviation words_size :: "rstr list \<Rightarrow> nat" where
  "words_size ws \<equiv> sum_list (map (\<lambda>w. Suc (length w)) ws)"

lemma words_size_split_ws_from: "words_size (split_ws_from w s) \<le> Suc (length w + length s)"
proof (induction w s rule: split_ws_from.induct)
  case (1 w s)
  show ?case
  proof (cases "s = [] \<or> ws_len s = 0")
    case True
    with "1.IH"(1) show ?thesis
      by (cases s) (auto simp: split_ws_from_char)
  next
    case False
    with "1.IH"(2) have "words_size (split_ws_from [] (drop (ws_len s) s)) \<le> Suc (length s - ws_len s)"
      by simp
    with False ws_len_le [of s] show ?thesis
      by (auto simp: split_ws_from_ws)
  qed
qed

lemma words_size_split_whitespace: "words_size (split_whitespace s) \<le> Suc (length s)"
  using words_size_split_ws_from [of "[]" s] by (simp add: split_whitespace_def)

lemma split_ws_from_words:
  "x \<in> set (split_ws_from w s) \<Longrightarrow> list_all (\<lambda>c. \<not> is_ascii_ws c) w \<Longrightarrow>
   x \<noteq> [] \<and> list_all (\<lambda>c. \<not> is_ascii_ws c) x"
proof (induction w s arbitrary: x rule: split_ws_from.induct)
  case (1 w s)
  show ?case
  proof (cases s)
    case Nil
    with "1.prems" show ?thesis
      by (auto simp: list_all_iff split: if_splits)
  next
    case (Cons c t)
    show ?thesis
    proof (cases "ws_len s = 0")
      case True
      with Cons have "\<not> is_ascii_ws c" using ws_len_0_head by simp
      with True Cons "1.prems" "1.IH"(1) [of x] show ?thesis
        by (simp add: split_ws_from_char)
    next
      case False
      with Cons "1.prems" "1.IH"(2) [of x] show ?thesis
        by (auto simp: split_ws_from_ws list_all_iff split: if_splits)
    qed
  qed
qed

lemma split_whitespace_words:
  "x \<in> set (split_whitespace s) \<Longrightarrow> x \<noteq> [] \<and> (\<forall>c \<in> set x. \<not> is_ascii_ws c)"
  using split_ws_from_words [of x "[]" s] by (simp add: split_whitespace_def list_all_iff)

lemma words_size_append: "words_size (xs @ ys) = words_size xs + words_size ys"
  by simp

lemma length_join_space: "length (join '' '' ws) \<le> words_size ws"
  by (induction "'' ''" ws rule: join.induct) auto

lemma Suc_length_join: "ws \<noteq> [] \<Longrightarrow> Suc (length (join [c] ws)) = words_size ws"
  by (induction "[c]" ws rule: join.induct) auto

subsection \<open>Trimming twice, and trimming around an ASCII separator\<close>

definition ws_byte :: "char \<Rightarrow> bool" where
  "ws_byte c \<longleftrightarrow> is_ascii_ws c \<or> 128 \<le> byte c"

lemma ws2_bytes: "ws2 c d \<Longrightarrow> ws_byte c \<and> ws_byte d"
  by (auto simp: ws2_def ws_byte_def byte_def)

lemma ws3_bytes: "ws3 c d e \<Longrightarrow> ws_byte c \<and> ws_byte d \<and> ws_byte e"
  by (auto simp: ws3_def ws_byte_def byte_def)

lemma ws_len_bytes: "c \<in> set (take (ws_len s) s) \<Longrightarrow> ws_byte c"
  by (auto simp: ws_len.simps [of s] numeral_2_eq_2 numeral_3_eq_3 ws_byte_def [of c]
      dest: ws2_bytes ws3_bytes split: list.splits if_splits)

lemma trim_start_Nil_bytes: "trim_start s = [] \<Longrightarrow> c \<in> set s \<Longrightarrow> ws_byte c"
proof (induction s rule: trim_start.induct)
  case (1 s)
  have "s = take (ws_len s) s @ drop (ws_len s) s" by simp
  then have "c \<in> set (take (ws_len s) s) \<or> c \<in> set (drop (ws_len s) s)"
    using "1.prems"(2) by (metis Un_iff set_append)
  with "1.IH" "1.prems" show ?case
    by (cases "ws_len s = 0") (auto simp: trim_start.simps [of s] dest: ws_len_bytes)
qed

lemma ws_len_append: "ws_len s \<noteq> 0 \<Longrightarrow> ws_len (s @ t) = ws_len s"
  by (auto simp: ws_len.simps [of s] ws_len.simps [of "s @ t"] split: list.splits if_splits)

lemma ws_len_append_ascii:
  assumes "ws_len s = 0" "s \<noteq> []" "\<not> ws_byte c"
  shows "ws_len (s @ c # t) = 0"
  using assms
  by (auto simp: ws_len.simps [of s] ws_len.simps [of "s @ c # t"] Cons_eq_append_conv
      dest: ws2_bytes ws3_bytes split: list.splits if_splits)

lemma trim_start_append: "trim_start s = [] \<Longrightarrow> trim_start (s @ t) = trim_start t"
proof (induction s rule: trim_start.induct)
  case (1 s)
  show ?case
  proof (cases "ws_len s = 0")
    case True
    with "1.prems" show ?thesis by (simp add: trim_start.simps [of s])
  next
    case False
    with "1.prems" have "trim_start (drop (ws_len s) s) = []" by (simp add: trim_start.simps [of s])
    then have "trim_start (drop (ws_len s) s @ t) = trim_start t" using "1.IH" False by blast
    with False ws_len_le [of s] show ?thesis
      by (simp add: trim_start.simps [of "s @ t"] ws_len_append)
  qed
qed

lemma trim_end_split: "\<exists>y. s = trim_end s @ y \<and> trim_start y = []"
proof (induction s)
  case Nil
  then show ?case by (simp add: trim_start_id)
next
  case (Cons c s)
  then show ?case by (cases "trim_start (c # s) = []") auto
qed

lemma trim_end_idem [simp]: "trim_end (trim_end s) = trim_end s"
proof (induction s)
  case Nil
  then show ?case by simp
next
  case (Cons c s)
  show ?case
  proof (cases "trim_start (c # s) = []")
    case True
    then show ?thesis by simp
  next
    case False
    obtain y where y: "s = trim_end s @ y" "trim_start y = []" using trim_end_split by blast
    have "trim_start (c # trim_end s) \<noteq> []"
    proof
      assume "trim_start (c # trim_end s) = []"
      then have "trim_start ((c # trim_end s) @ y) = []"
        using y(2) by (simp only: trim_start_append)
      with False y(1) show False by simp
    qed
    with False Cons.IH show ?thesis by simp
  qed
qed

lemma ws_len_trim: "ws_len (trim s) = 0"
proof -
  obtain y where y: "trim_start s = trim s @ y"
    using trim_end_split [of "trim_start s"] by (auto simp: trim_def)
  show ?thesis
  proof (rule ccontr)
    assume "ws_len (trim s) \<noteq> 0"
    then have "ws_len (trim_start s) \<noteq> 0" using y by (simp add: ws_len_append)
    then show False by (simp add: ws_len_trim_start)
  qed
qed

lemma trim_idem [simp]: "trim (trim s) = trim s"
  by (simp add: trim_def [of "trim s"] trim_start_id [OF ws_len_trim]) (simp add: trim_def)

lemma trim_end_around:
  assumes "\<not> ws_byte c"
  shows "trim_end (u @ c # v) = u @ c # trim_end v"
proof (induction u)
  case Nil
  have "trim_start (c # v) \<noteq> []" using assms trim_start_Nil_bytes by (metis list.set_intros(1))
  then show ?case by simp
next
  case (Cons x u)
  have "trim_start (x # u @ c # v) \<noteq> []"
    using assms trim_start_Nil_bytes by (metis in_set_conv_decomp append_Cons)
  with Cons show ?case by simp
qed

text \<open>A prefix that starts with no white space, an ASCII separator and a trimmed rest is trimmed.\<close>

lemma trim_scoped:
  assumes "u \<noteq> []" "ws_len u = 0" "\<not> ws_byte c" "trim v = v"
  shows "trim (u @ c # v) = u @ c # v"
proof -
  have "trim_end v = v" using assms(4) by (metis trim_def trim_end_idem)
  then show ?thesis
    using assms by (simp add: trim_def trim_start_id ws_len_append_ascii trim_end_around)
qed

subsection \<open>The words of a trimmed string\<close>

lemma split_ws_from_trim_start: "split_ws_from [] (trim_start s) = split_ws_from [] s"
proof (induction s rule: trim_start.induct)
  case (1 s)
  show ?case
  proof (cases "ws_len s = 0")
    case True
    then show ?thesis by (simp add: trim_start_id)
  next
    case False
    then have "trim_start s = trim_start (drop (ws_len s) s)" by (subst trim_start.simps) simp
    with 1 [OF False] split_ws_from_ws [OF False, of "[]"] show ?thesis by simp
  qed
qed

lemma split_ws_from_blank: "trim_start y = [] \<Longrightarrow> split_ws_from [] y = []"
  using split_ws_from_trim_start [of y] by simp

text \<open>The bytes a white-space character starts with, none of which continues one.\<close>

definition ws_lead :: "char \<Rightarrow> bool" where
  "ws_lead c \<longleftrightarrow> is_ascii_ws c \<or> c = CHR 0xC2 \<or> c = CHR 0xE1 \<or> c = CHR 0xE2 \<or> c = CHR 0xE3"

lemma ws2_lead: "ws2 c d \<Longrightarrow> ws_lead c"
  by (simp add: ws2_def ws_lead_def)

lemma ws3_lead: "ws3 c d e \<Longrightarrow> ws_lead c"
  unfolding ws3_def ws_lead_def by (elim disjE conjE) simp_all

lemma ws_lead_head: "ws_len (c # s) \<noteq> 0 \<Longrightarrow> ws_lead c"
  by (auto simp: ws_len.simps [of "c # s"] ws_lead_def [of c] dest: ws2_lead ws3_lead split: list.splits if_splits)

lemma ws_lead_byte: "ws_lead c \<Longrightarrow> byte c < 128 \<or> 192 \<le> byte c"
  by (auto simp: ws_lead_def is_ascii_ws_def byte_def)

lemma ws2_not_lead: "ws2 c d \<Longrightarrow> \<not> ws_lead d"
  by (auto simp: ws2_def byte_def dest!: ws_lead_byte)

lemma ws3_cont: "ws3 c d e \<Longrightarrow> 128 \<le> byte d \<and> byte d < 192 \<and> 128 \<le> byte e \<and> byte e < 192"
  by (auto simp: ws3_def byte_def)

lemma ws3_not_lead: "ws3 c d e \<Longrightarrow> \<not> ws_lead d \<and> \<not> ws_lead e"
  using ws3_cont ws_lead_byte by fastforce

lemma ws_len_append_lead:
  assumes "ws_len t = 0" "t \<noteq> []" "ws_lead x"
  shows "ws_len (t @ x # y) = 0"
  using assms
  by (auto simp: ws_len.simps [of t] ws_len.simps [of "t @ x # y"] Cons_eq_append_conv
      dest: ws2_not_lead ws3_not_lead split: list.splits if_splits)

lemma split_ws_from_append_blank:
  "trim_start y = [] \<Longrightarrow> split_ws_from w (t @ y) = split_ws_from w t"
proof (induction w t rule: split_ws_from.induct)
  case (1 w t)
  show ?case
  proof (cases y)
    case Nil
    then show ?thesis by simp
  next
    case (Cons x y')
    have lead: "ws_len y \<noteq> 0"
    proof
      assume "ws_len y = 0"
      with "1.prems" Cons show False by (simp add: trim_start_id)
    qed
    show ?thesis
    proof (cases t)
      case Nil
      have "split_ws_from [] (drop (ws_len y) y) = []"
        using "1.prems" lead by (intro split_ws_from_blank) (simp add: trim_start.simps [of y])
      with Nil lead show ?thesis by (simp add: split_ws_from_ws)
    next
      case (Cons c t')
      show ?thesis
      proof (cases "ws_len t = 0")
        case True
        have "ws_len (t @ y) = 0"
          using True lead Cons \<open>y = x # y'\<close> ws_lead_head by (simp only:) (rule ws_len_append_lead; simp)
        then show ?thesis
          using True Cons "1.IH"(1) "1.prems" by (simp add: split_ws_from_char)
      next
        case False
        then have "ws_len (t @ y) = ws_len t" by (rule ws_len_append)
        then have "split_ws_from w (t @ y) =
            (if w = [] then [] else [rev w]) @ split_ws_from [] (drop (ws_len t) (t @ y))"
          using False split_ws_from_ws [of "t @ y" w] by simp
        also have "drop (ws_len t) (t @ y) = drop (ws_len t) t @ y" using ws_len_le [of t] by simp
        also have "split_ws_from [] (drop (ws_len t) t @ y) = split_ws_from [] (drop (ws_len t) t)"
          using False Cons "1.IH"(2) "1.prems" by simp
        finally show ?thesis using False split_ws_from_ws [of t w] by simp
      qed
    qed
  qed
qed

lemma split_whitespace_trim_start: "split_whitespace (trim_start s) = split_whitespace s"
  by (simp add: split_whitespace_def split_ws_from_trim_start)

lemma split_whitespace_trim: "split_whitespace (trim s) = split_whitespace s"
proof -
  obtain y where y: "trim_start s = trim s @ y" "trim_start y = []"
    using trim_end_split [of "trim_start s"] by (auto simp: trim_def)
  have "split_whitespace (trim s) = split_whitespace (trim s @ y)"
    by (simp add: split_whitespace_def split_ws_from_append_blank y(2))
  then show ?thesis using y(1) by (metis split_whitespace_trim_start)
qed

lemma split_ws_from_first:
  "split_ws_from w s = x # xs \<Longrightarrow> w \<noteq> [] \<or> ws_len s = 0 \<Longrightarrow>
   \<exists>u r. s = u @ r \<and> x = rev w @ u \<and> xs = split_ws_from [] r"
proof (induction w s arbitrary: x rule: split_ws_from.induct)
  case (1 w s)
  show ?case
  proof (cases s)
    case Nil
    with "1.prems" show ?thesis by (auto split: if_splits)
  next
    case (Cons c t)
    show ?thesis
    proof (cases "ws_len s = 0")
      case True
      then have "split_ws_from (c # w) t = x # xs"
        using "1.prems" Cons by (simp add: split_ws_from_char)
      with "1.IH"(1) True Cons obtain u r where
        "t = u @ r" "x = rev (c # w) @ u" "xs = split_ws_from [] r" by auto
      then show ?thesis using Cons by (intro exI [of _ "c # u"] exI [of _ r]) simp
    next
      case False
      with "1.prems" have "x = rev w" "xs = split_ws_from [] (drop (ws_len s) s)"
        by (auto simp: split_ws_from_ws split: if_splits)
      then show ?thesis
        using False by (intro exI [of _ "[]"] exI [of _ s]) (simp add: split_ws_from_ws)
    qed
  qed
qed

text \<open>Stripping the first word of a trimmed string leaves the other words.\<close>

lemma split_whitespace_strip_first:
  assumes "split_whitespace s = w # ws"
  shows "\<exists>r. strip_prefix w (trim s) = Some r \<and> split_whitespace (trim_start r) = ws"
proof -
  have "split_ws_from [] (trim s) = w # ws"
    using assms split_whitespace_trim [of s] by (simp add: split_whitespace_def)
  from split_ws_from_first [OF this] obtain u r where
    "trim s = u @ r" "w = u" "ws = split_ws_from [] r" by (auto simp: ws_len_trim)
  then show ?thesis
    by (auto simp: strip_prefix_Some split_whitespace_def split_ws_from_trim_start)
qed

lemma split_whitespace_Nil [simp]: "split_whitespace [] = []"
  by (simp add: split_whitespace_def)

lemma str_replace_Nil [simp]: "str_replace pat rep [] = []"
  by (simp add: str_replace.simps)

lemma str_replace_char: "str_replace [c] rep s = concat (map (\<lambda>x. if x = c then rep else [x]) s)"
  by (induction s) (auto simp: str_replace.simps [of "[c]" rep "_ # _"])

lemma str_replace_set: "set (str_replace pat rep s) \<subseteq> set rep \<union> set s"
proof (induction pat rep s rule: str_replace.induct)
  case (1 pat rep s)
  show ?case
  proof (cases s)
    case (Cons c t)
    have "set (drop (length pat) s) \<subseteq> set s" by (rule set_drop_subset)
    moreover have "str_replace pat rep s =
        (if pat \<noteq> [] \<and> starts_with s pat then rep @ str_replace pat rep (drop (length pat) s)
         else c # str_replace pat rep t)"
      using Cons by (subst str_replace.simps) simp
    ultimately show ?thesis using 1 Cons by (auto split: if_splits)
  qed simp
qed

subsection \<open>Reading decimal numbers back\<close>

definition decode_digits :: "rstr \<Rightarrow> nat" where
  "decode_digits s = foldl (\<lambda>a c. 10 * a + (byte c - 48)) 0 s"

lemma decode_digits_snoc: "decode_digits (s @ [c]) = 10 * decode_digits s + (byte c - 48)"
  by (simp add: decode_digits_def)

lemma byte_digit: "n < 10 \<Longrightarrow> byte (char_of (48 + n)) = 48 + n"
  by (simp add: byte_def)

lemma decode_decimal: "decode_digits (decimal n) = n"
proof (induction n rule: decimal.induct)
  case (1 n)
  show ?case
  proof (cases "n < 10")
    case True
    then show ?thesis by (simp add: decimal.simps [of n] decode_digits_def byte_digit)
  next
    case False
    have "decode_digits (decimal n) = 10 * (n div 10) + (byte (char_of (48 + n mod 10)) - 48)"
      using False 1 by (simp add: decimal.simps [of n] decode_digits_snoc)
    then show ?thesis by (simp add: byte_digit)
  qed
qed

lemma decimal_inj: "decimal m = decimal n \<longleftrightarrow> m = n"
  by (metis decode_decimal)

subsection \<open>Finding\<close>

lemma find_split_first:
  "c \<notin> set a \<Longrightarrow> find_split (c # p) (a @ c # p @ r) = Some (a, c # p @ r)"
  by (induction a) auto


lemma find_split_None: "find_split p s = None \<longleftrightarrow> \<not> contains s p"
  by (induction s) (auto simp: sublist_Cons_right split: if_splits)

lemma find_split_Some: "find_split p s = Some (a, b) \<Longrightarrow> s = a @ b \<and> starts_with b p"
  by (induction s arbitrary: a b) (auto split: if_splits)

end
