(* ===== verification/Contracts.thy ===== *)
theory Contracts
  imports Rust_Strings
begin

text \<open>
  The contract types every security component shares (\<open>src/src/contracts/security.rs\<close>) and
  the tenant isolation policy of memory recall (\<open>src/src/contracts/tenant.rs\<close>).
\<close>

subsection \<open>Autonomy\<close>

datatype external_action_execution = ExtDisabled | ExtEnabled

datatype autonomy_level = ReadOnly | Supervised | Full

definition default_allowed_commands :: "rstr list" where
  "default_allowed_commands =
     [''git'', ''npm'', ''cargo'', ''ls'', ''cat'', ''grep'', ''find'', ''echo'', ''pwd'',
      ''wc'', ''head'', ''tail'']"

definition default_forbidden_paths :: "rstr list" where
  "default_forbidden_paths =
     [''/etc'', ''/root'', ''/home'', ''/usr'', ''/bin'', ''/sbin'', ''/lib'', ''/opt'',
      ''/boot'', ''/dev'', ''/proc'', ''/sys'', ''/var'', ''/tmp'', ''~/.ssh'', ''~/.gnupg'',
      ''~/.aws'', ''~/.config'']"

subsection \<open>Tenant isolation\<close>

record tenant_ctx =
  tenant_mode_enabled :: bool
  tenant_id :: "rstr option"

definition tenant_disabled :: tenant_ctx where
  "tenant_disabled = \<lparr>tenant_mode_enabled = False, tenant_id = None\<rparr>"

definition tenant_enabled :: "rstr \<Rightarrow> tenant_ctx" where
  "tenant_enabled tid = \<lparr>tenant_mode_enabled = True, tenant_id = Some tid\<rparr>"

datatype scope_error = TenantDefaultRecallForbidden | TenantRecallScopeMismatch

text \<open>\<open>requested == tenant_id || strip_prefix(tenant_id) starts with ':' or '/'\<close>.\<close>

definition in_tenant_scope :: "rstr \<Rightarrow> rstr \<Rightarrow> bool" where
  "in_tenant_scope tid requested \<longleftrightarrow>
     requested = tid \<or>
     (case strip_prefix tid requested of
        None \<Rightarrow> False
      | Some sfx \<Rightarrow> starts_with sfx '':'' \<or> starts_with sfx ''/'')"

definition scope_entity_id :: "tenant_ctx \<Rightarrow> rstr \<Rightarrow> rstr" where
  "scope_entity_id ctx entity_id =
     (let requested = trim entity_id in
      if \<not> tenant_mode_enabled ctx \<or> requested = [] then requested
      else (case tenant_id ctx of
              None \<Rightarrow> requested
            | Some tid \<Rightarrow>
                if tid = [] then requested
                else if in_tenant_scope tid requested then requested
                else tid @ '':'' @ requested))"

definition enforce_recall_scope :: "tenant_ctx \<Rightarrow> rstr \<Rightarrow> (scope_error, unit) result" where
  "enforce_recall_scope ctx entity_id =
     (if \<not> tenant_mode_enabled ctx then Ok ()
      else let requested = trim entity_id in
        if requested = [] \<or> requested = ''default'' then Err TenantDefaultRecallForbidden
        else (case tenant_id ctx of
                None \<Rightarrow> Err TenantRecallScopeMismatch
              | Some tid \<Rightarrow>
                  if tid = [] then Err TenantRecallScopeMismatch
                  else if in_tenant_scope tid requested then Ok ()
                  else Err TenantRecallScopeMismatch))"

lemma in_tenant_scope_iff:
  "in_tenant_scope tid r \<longleftrightarrow>
     r = tid \<or> starts_with r (tid @ '':'') \<or> starts_with r (tid @ ''/'')"
  by (auto simp: in_tenant_scope_def prefix_def strip_prefix_Some split: option.splits)
    (auto simp: strip_prefix_None prefix_def)

lemma enforce_recall_scope_Ok:
  "tenant_mode_enabled ctx \<Longrightarrow>
   enforce_recall_scope ctx e = Ok () \<longleftrightarrow>
     trim e \<noteq> [] \<and> trim e \<noteq> ''default'' \<and>
     (\<exists>tid. tenant_id ctx = Some tid \<and> tid \<noteq> [] \<and> in_tenant_scope tid (trim e))"
  by (auto simp: enforce_recall_scope_def Let_def split: option.splits)

lemma colon_not_ws: "\<not> ws_byte (CHR '':'')"
  by (simp add: ws_byte_def is_ascii_ws_def byte_def)

lemma trim_scope_entity_id:
  assumes "\<And>tid. tenant_id ctx = Some tid \<Longrightarrow> ws_len tid = 0"
  shows "trim (scope_entity_id ctx e) = scope_entity_id ctx e"
  using assms trim_scoped [OF _ _ colon_not_ws trim_idem]
  by (auto simp: scope_entity_id_def Let_def split: option.splits)

lemma scope_entity_id_in_scope:
  assumes "tenant_mode_enabled ctx" "tenant_id ctx = Some tid" "tid \<noteq> []" "trim e \<noteq> []"
  shows "in_tenant_scope tid (scope_entity_id ctx e)"
  using assms by (auto simp: scope_entity_id_def Let_def in_tenant_scope_iff)

text \<open>Two tenant ids claim one entity only when one lies in the hierarchy below the other.\<close>

lemma in_tenant_scope_common:
  assumes "in_tenant_scope t1 r" "in_tenant_scope t2 r" "length t1 \<le> length t2"
  shows "in_tenant_scope t1 t2"
proof -
  from assms(1,2) have "prefix t1 r" "prefix t2 r"
    by (auto simp: in_tenant_scope_iff dest: append_prefixD)
  then have p: "prefix t1 t2" using assms(3) by (rule prefix_length_prefix)
  show ?thesis
  proof (cases "t1 = t2")
    case False
    with p have len: "length t1 < length t2" by (metis prefix_length_less strict_prefix_def)
    from \<open>prefix t2 r\<close> len have "r \<noteq> t1" by (auto dest: prefix_length_le)
    with assms(1) consider "prefix (t1 @ '':'') r" | "prefix (t1 @ ''/'') r"
      by (auto simp: in_tenant_scope_iff)
    then show ?thesis
      using len \<open>prefix t2 r\<close> by cases (auto simp: in_tenant_scope_iff intro: prefix_length_prefix)
  qed (simp add: in_tenant_scope_def)
qed

text \<open>Two tenants never both pass the recall check for one entity, unless one tenant's id
  is hierarchically below the other's: with tenant mode on, acceptance by both contexts means
  that one id is the other or extends it with a colon or a slash.\<close>

theorem tenant_recall_isolation:
  assumes "tenant_mode_enabled c1" "tenant_mode_enabled c2"
    and "tenant_id c1 = Some t1" "tenant_id c2 = Some t2"
    and "enforce_recall_scope c1 e = Ok ()" "enforce_recall_scope c2 e = Ok ()"
  shows "in_tenant_scope t1 t2 \<or> in_tenant_scope t2 t1"
proof -
  from assms have "in_tenant_scope t1 (trim e)" "in_tenant_scope t2 (trim e)"
    by (auto simp: enforce_recall_scope_Ok)
  then show ?thesis
    by (metis in_tenant_scope_common nat_le_linear)
qed

theorem tenant_recall_isolation_witness:
  "enforce_recall_scope (tenant_enabled ''a'') ''a:b/x'' = Ok () \<and>
   enforce_recall_scope (tenant_enabled ''a:b'') ''a:b/x'' = Ok () \<and>
   (in_tenant_scope ''a'' ''a:b'' \<or> in_tenant_scope ''a:b'' ''a'')"
proof -
  have h: "enforce_recall_scope (tenant_enabled ''a'') ''a:b/x'' = Ok ()"
    "enforce_recall_scope (tenant_enabled ''a:b'') ''a:b/x'' = Ok ()" by code_simp+
  show ?thesis
    using h tenant_recall_isolation [of "tenant_enabled ''a''" "tenant_enabled ''a:b''" "''a''"
        "''a:b''" "''a:b/x''"]
    by (simp add: tenant_enabled_def)
qed

text \<open>An entity id that \<open>scope_entity_id\<close> has put under the active tenant always passes
  that tenant's recall check, and scoping it again changes nothing, when the tenant id starts
  with no white space and the scoped id is not the literal default scope.\<close>

theorem scoped_entity_passes_recall:
  assumes "tenant_mode_enabled ctx" "tenant_id ctx = Some tid" "tid \<noteq> []" "ws_len tid = 0"
    and "trim e \<noteq> []" "scope_entity_id ctx e \<noteq> ''default''"
  shows "enforce_recall_scope ctx (scope_entity_id ctx e) = Ok () \<and>
         scope_entity_id ctx (scope_entity_id ctx e) = scope_entity_id ctx e"
proof -
  let ?s = "scope_entity_id ctx e"
  have t: "trim ?s = ?s" using assms(2,4) by (intro trim_scope_entity_id) simp
  have i: "in_tenant_scope tid ?s" using assms by (intro scope_entity_id_in_scope)
  then have "?s \<noteq> []" using assms(3) by (auto simp: in_tenant_scope_iff)
  with i t assms show ?thesis
    by (auto simp: enforce_recall_scope_Ok) (simp add: scope_entity_id_def [of ctx ?s])
qed

theorem scoped_entity_passes_recall_witness:
  "scope_entity_id (tenant_enabled ''t1'') '' bob '' = ''t1:bob'' \<and>
   enforce_recall_scope (tenant_enabled ''t1'') ''t1:bob'' = Ok ()"
proof -
  have s: "scope_entity_id (tenant_enabled ''t1'') '' bob '' = ''t1:bob''" by code_simp
  have t: "trim '' bob '' \<noteq> []" "ws_len ''t1'' = 0" by code_simp+
  show ?thesis
    using s t scoped_entity_passes_recall [of "tenant_enabled ''t1''" "''t1''" "'' bob ''"]
    by (simp add: tenant_enabled_def)
qed

end
