(* ===== verification/Rate_Limits.thy ===== *)
theory Rate_Limits
  imports Rust_Prelude Rust_Strings
begin

text \<open>
  Rate limiting and cost tracking (\<open>src/src/security/policy/trackers.rs\<close>): the one-hour
  \<open>ActionTracker\<close>, the scoped \<open>EntityRateLimiter\<close> and the daily \<open>CostTracker\<close>. Each
  operation runs under its mutex, so it is a function from state to state; the clock readings
  it takes are arguments. The lemmas relate the pruned buckets to the full history of accepted
  requests and bound that history in every window of one hour.
\<close>

definition hour_nanos :: nat where
  "hour_nanos = nanos 3600"

text \<open>\<open>now.checked_sub(3600 s).unwrap_or(fallback)\<close>.\<close>

definition window_cutoff :: "instant \<Rightarrow> instant \<Rightarrow> nat \<Rightarrow> instant" where
  "window_cutoff now fallback width =
     (case instant_checked_sub now width of Some c \<Rightarrow> c | None \<Rightarrow> fallback)"

definition prune :: "instant \<Rightarrow> instant list \<Rightarrow> instant list" where
  "prune cutoff actions = filter (\<lambda>t. cutoff < t) actions"

subsection \<open>The action tracker\<close>

type_synonym action_tracker = "instant list"

definition action_tracker_new :: action_tracker where
  "action_tracker_new = []"

text \<open>\<open>t0\<close>, \<open>t1\<close>, \<open>t2\<close>: the readings of the clock for the cut-off, its fallback and the push.\<close>

definition tracker_record ::
  "instant \<Rightarrow> instant \<Rightarrow> instant \<Rightarrow> action_tracker \<Rightarrow> action_tracker \<times> nat" where
  "tracker_record t0 t1 t2 actions =
     (let actions = prune (window_cutoff t0 t1 hour_nanos) actions @ [t2]
      in (actions, length actions))"

definition tracker_count_active ::
  "instant \<Rightarrow> instant \<Rightarrow> action_tracker \<Rightarrow> action_tracker \<times> nat" where
  "tracker_count_active t0 t1 actions =
     (let actions = prune (window_cutoff t0 t1 hour_nanos) actions
      in (actions, length actions))"

subsection \<open>The scoped rate limiter\<close>

record limiter_state =
  global_actions :: "instant list"
  per_entity :: "rstr \<rightharpoonup> instant list"
  per_conversation :: "rstr \<rightharpoonup> instant list"
  per_workspace :: "rstr \<rightharpoonup> instant list"

record limiter_config =
  global_max :: u32
  per_entity_max :: u32
  per_conversation_max :: u32
  per_workspace_max :: u32
  burst_max :: u32
  burst_window_secs :: nat

datatype rate_limit_error =
    GlobalExhausted
  | EntityExhausted rstr
  | ConversationExhausted rstr
  | WorkspaceExhausted rstr
  | BurstExhausted rstr

definition limiter_new_with_scopes ::
  "u32 \<Rightarrow> u32 \<Rightarrow> u32 \<Rightarrow> u32 \<Rightarrow> u32 \<Rightarrow> nat \<Rightarrow> limiter_config \<times> limiter_state" where
  "limiter_new_with_scopes g e c w b bw =
     (\<lparr>global_max = g, per_entity_max = e, per_conversation_max = c, per_workspace_max = w,
       burst_max = b, burst_window_secs = bw\<rparr>,
      \<lparr>global_actions = [], per_entity = Map.empty, per_conversation = Map.empty,
       per_workspace = Map.empty\<rparr>)"

definition limiter_new :: "u32 \<Rightarrow> u32 \<Rightarrow> limiter_config \<times> limiter_state" where
  "limiter_new g e = limiter_new_with_scopes g e 0 0 0 0"

text \<open>\<open>entry(key).or_default()\<close>.\<close>

definition bucket :: "(rstr \<rightharpoonup> instant list) \<Rightarrow> rstr \<Rightarrow> instant list" where
  "bucket m k = (case m k of None \<Rightarrow> [] | Some ts \<Rightarrow> ts)"

definition push_bucket :: "rstr \<Rightarrow> instant \<Rightarrow> (rstr \<rightharpoonup> instant list) \<Rightarrow> (rstr \<rightharpoonup> instant list)" where
  "push_bucket k t m = m(k \<mapsto> bucket m k @ [t])"

text \<open>\<open>retain\<close> on one scope map: prune every bucket, drop the empty ones.\<close>

definition prune_scope :: "instant \<Rightarrow> (rstr \<rightharpoonup> instant list) \<Rightarrow> (rstr \<rightharpoonup> instant list)" where
  "prune_scope cutoff m =
     (\<lambda>k. case m k of None \<Rightarrow> None
          | Some ts \<Rightarrow> if prune cutoff ts = [] then None else Some (prune cutoff ts))"

definition prune_expired_scope_maps :: "instant \<Rightarrow> limiter_state \<Rightarrow> limiter_state" where
  "prune_expired_scope_maps cutoff st =
     st\<lparr>per_entity := prune_scope cutoff (per_entity st),
        per_conversation := prune_scope cutoff (per_conversation st),
        per_workspace := prune_scope cutoff (per_workspace st)\<rparr>"

definition check_workspace ::
  "limiter_config \<Rightarrow> instant \<Rightarrow> rstr option \<Rightarrow> limiter_state \<Rightarrow> limiter_state \<times> rate_limit_error option" where
  "check_workspace cfg cutoff workspace_id st =
     (case workspace_id of
        Some ws \<Rightarrow>
          if 0 < per_workspace_max cfg then
            let actions = prune cutoff (bucket (per_workspace st) ws);
                st = st\<lparr>per_workspace := (per_workspace st)(ws \<mapsto> actions)\<rparr>
            in if unat (per_workspace_max cfg) \<le> length actions
               then (st, Some (WorkspaceExhausted ws)) else (st, None)
          else (st, None)
      | None \<Rightarrow> (st, None))"

definition check_conversation ::
  "limiter_config \<Rightarrow> instant \<Rightarrow> rstr option \<Rightarrow> limiter_state \<Rightarrow> limiter_state \<times> rate_limit_error option" where
  "check_conversation cfg cutoff conversation_id st =
     (case conversation_id of
        Some cv \<Rightarrow>
          if 0 < per_conversation_max cfg then
            let actions = prune cutoff (bucket (per_conversation st) cv);
                st = st\<lparr>per_conversation := (per_conversation st)(cv \<mapsto> actions)\<rparr>
            in if unat (per_conversation_max cfg) \<le> length actions
               then (st, Some (ConversationExhausted cv)) else (st, None)
          else (st, None)
      | None \<Rightarrow> (st, None))"

text \<open>Burst window first, then the hourly budget of the entity.\<close>

definition check_entity ::
  "limiter_config \<Rightarrow> instant \<Rightarrow> instant \<Rightarrow> rstr \<Rightarrow> limiter_state \<Rightarrow> limiter_state \<times> rate_limit_error option" where
  "check_entity cfg now cutoff entity st =
     (let actions = prune cutoff (bucket (per_entity st) entity);
          st = st\<lparr>per_entity := (per_entity st)(entity \<mapsto> actions)\<rparr>;
          burst_cutoff = window_cutoff now now (nanos (burst_window_secs cfg))
      in if 0 < burst_max cfg \<and> 0 < burst_window_secs cfg \<and>
            unat (burst_max cfg) \<le> length (filter (\<lambda>t. burst_cutoff < t) actions)
         then (st, Some (BurstExhausted entity))
         else if unat (per_entity_max cfg) \<le> length actions
         then (st, Some (EntityExhausted entity))
         else (st, None))"

definition record_request ::
  "instant \<Rightarrow> rstr \<Rightarrow> rstr option \<Rightarrow> rstr option \<Rightarrow> limiter_state \<Rightarrow> limiter_state" where
  "record_request now entity conversation_id workspace_id st =
     st\<lparr>global_actions := global_actions st @ [now],
        per_entity := push_bucket entity now (per_entity st),
        per_conversation := (case conversation_id of None \<Rightarrow> per_conversation st
           | Some cv \<Rightarrow> push_bucket cv now (per_conversation st)),
        per_workspace := (case workspace_id of None \<Rightarrow> per_workspace st
           | Some ws \<Rightarrow> push_bucket ws now (per_workspace st))\<rparr>"

definition check_and_record_scoped ::
  "limiter_config \<Rightarrow> instant \<Rightarrow> rstr \<Rightarrow> rstr option \<Rightarrow> rstr option \<Rightarrow> limiter_state \<Rightarrow>
   limiter_state \<times> (rate_limit_error, unit) result" where
  "check_and_record_scoped cfg now entity conversation_id workspace_id st =
     (let cutoff = window_cutoff now now hour_nanos;
          st = prune_expired_scope_maps cutoff
                 (st\<lparr>global_actions := prune cutoff (global_actions st)\<rparr>)
      in if unat (global_max cfg) \<le> length (global_actions st) then (st, Err GlobalExhausted)
         else (case check_workspace cfg cutoff workspace_id st of
             (st, Some e) \<Rightarrow> (st, Err e)
           | (st, None) \<Rightarrow>
         (case check_conversation cfg cutoff conversation_id st of
             (st, Some e) \<Rightarrow> (st, Err e)
           | (st, None) \<Rightarrow>
         (case check_entity cfg now cutoff entity st of
             (st, Some e) \<Rightarrow> (st, Err e)
           | (st, None) \<Rightarrow>
               (record_request now entity conversation_id workspace_id st, Ok ())))))"

definition check_and_record ::
  "limiter_config \<Rightarrow> instant \<Rightarrow> rstr \<Rightarrow> limiter_state \<Rightarrow>
   limiter_state \<times> (rate_limit_error, unit) result" where
  "check_and_record cfg now entity st = check_and_record_scoped cfg now entity None None st"

subsection \<open>The daily cost tracker\<close>

record daily_cost =
  day_epoch :: nat
  spent_cents :: u32

text \<open>Seconds since the epoch, \<open>None\<close> for a clock before it.\<close>

definition current_day_epoch :: "unix_secs option \<Rightarrow> nat" where
  "current_day_epoch clock = (case clock of None \<Rightarrow> 0 | Some s \<Rightarrow> s) div 86400"

definition cost_tracker_new :: "unix_secs option \<Rightarrow> daily_cost" where
  "cost_tracker_new clock = \<lparr>day_epoch = current_day_epoch clock, spent_cents = 0\<rparr>"

definition rollover_day_if_needed :: "unix_secs option \<Rightarrow> daily_cost \<Rightarrow> daily_cost" where
  "rollover_day_if_needed clock st =
     (let today = current_day_epoch clock
      in if day_epoch st \<noteq> today then st\<lparr>day_epoch := today, spent_cents := 0\<rparr> else st)"

definition cost_record ::
  "unix_secs option \<Rightarrow> u32 \<Rightarrow> u32 \<Rightarrow> daily_cost \<Rightarrow> daily_cost \<times> bool" where
  "cost_record clock additional_cents max_cents_per_day st =
     (let st = rollover_day_if_needed clock st
      in if additional_cents = 0 then (st, spent_cents st \<le> max_cents_per_day)
         else if saturating_add (spent_cents st) additional_cents > max_cents_per_day
         then (st, False)
         else (st\<lparr>spent_cents := saturating_add (spent_cents st) additional_cents\<rparr>, True))"

definition spent_today :: "unix_secs option \<Rightarrow> daily_cost \<Rightarrow> daily_cost \<times> u32" where
  "spent_today clock st =
     (let st = rollover_day_if_needed clock st in (st, spent_cents st))"

subsection \<open>Histories with a budget per window\<close>

text \<open>
  \<open>rate_ok w n ts\<close>: when each time stamp was appended, fewer than \<open>n\<close> earlier ones lay in
  the window of width \<open>w\<close> that ends with it. It is what an admission check with a sliding
  window guarantees, and it bounds every window of that width.
\<close>

definition rate_ok :: "nat \<Rightarrow> nat \<Rightarrow> instant list \<Rightarrow> bool" where
  "rate_ok w n ts \<longleftrightarrow>
     (\<forall>i < length ts. length (filter (\<lambda>x. ts ! i - w < x) (take i ts)) < n)"

lemma rate_ok_Nil [simp]: "rate_ok w n []"
  by (simp add: rate_ok_def)

lemma rate_ok_snoc:
  "rate_ok w n (ts @ [t]) \<longleftrightarrow> rate_ok w n ts \<and> length (filter (\<lambda>x. t - w < x) ts) < n"
  by (auto simp: rate_ok_def less_Suc_eq nth_append)

lemma rate_ok_split: "rate_ok w n (xs @ t # ys) \<Longrightarrow> length (filter (\<lambda>x. t - w < x) xs) < n"
  unfolding rate_ok_def by (drule spec [of _ "length xs"]) simp

lemma rate_ok_window:
  assumes "rate_ok w n ts"
  shows "length (filter (\<lambda>x. a < x \<and> x \<le> a + w) ts) \<le> n"
proof (cases "filter (\<lambda>x. a < x \<and> x \<le> a + w) ts = []")
  case True
  then show ?thesis by simp
next
  case False
  let ?in = "\<lambda>x. a < x \<and> x \<le> a + w"
  from False have "\<exists>x \<in> set ts. ?in x" by (simp add: filter_empty_conv)
  from split_list_last_prop [OF this]
  obtain xs t ys where ts: "ts = xs @ t # ys" "?in t" "\<forall>y \<in> set ys. \<not> ?in y"
    by blast
  have "length (filter ?in ts) = Suc (length (filter ?in xs))"
    using ts by (auto simp: filter_empty_conv)
  also have "length (filter ?in xs) \<le> length (filter (\<lambda>x. t - w < x) xs)"
    using ts(2) by (induction xs) auto
  also have "\<dots> < n" using assms ts(1) by (simp add: rate_ok_split)
  finally show ?thesis by simp
qed

subsection \<open>The limiter with its history\<close>

record rl_request =
  rq_now :: instant
  rq_entity :: rstr
  rq_conversation :: "rstr option"
  rq_workspace :: "rstr option"

text \<open>The limiter's state beside the history of accepted requests and the last clock reading.\<close>

record limiter_trace =
  lt_state :: limiter_state
  lt_accepted :: "rl_request list"
  lt_clock :: instant

definition limiter_trace_init :: limiter_trace where
  "limiter_trace_init =
     \<lparr>lt_state = \<lparr>global_actions = [], per_entity = Map.empty, per_conversation = Map.empty,
                  per_workspace = Map.empty\<rparr>,
      lt_accepted = [], lt_clock = hour_nanos\<rparr>"

definition limiter_step ::
  "limiter_config \<Rightarrow> limiter_trace \<Rightarrow> rl_request \<Rightarrow> limiter_trace \<times> (rate_limit_error, unit) result" where
  "limiter_step cfg tr rq =
     (let (st, r) = check_and_record_scoped cfg (rq_now rq) (rq_entity rq) (rq_conversation rq)
                      (rq_workspace rq) (lt_state tr)
      in (\<lparr>lt_state = st,
           lt_accepted = (if is_ok r then lt_accepted tr @ [rq] else lt_accepted tr),
           lt_clock = rq_now rq\<rparr>, r))"

text \<open>The clock does not run backwards (\<open>Instant\<close> is monotonic), and has run for an hour.\<close>

definition clock_ok :: "limiter_trace \<Rightarrow> rl_request \<Rightarrow> bool" where
  "clock_ok tr rq \<longleftrightarrow> lt_clock tr \<le> rq_now rq"

definition times :: "(rl_request \<Rightarrow> bool) \<Rightarrow> rl_request list \<Rightarrow> instant list" where
  "times P hs = map rq_now (filter P hs)"

abbreviation of_entity :: "rstr \<Rightarrow> rl_request \<Rightarrow> bool" where
  "of_entity k \<equiv> (\<lambda>h. rq_entity h = k)"

abbreviation of_conversation :: "rstr \<Rightarrow> rl_request \<Rightarrow> bool" where
  "of_conversation k \<equiv> (\<lambda>h. rq_conversation h = Some k)"

abbreviation of_workspace :: "rstr \<Rightarrow> rl_request \<Rightarrow> bool" where
  "of_workspace k \<equiv> (\<lambda>h. rq_workspace h = Some k)"

text \<open>The buckets hold exactly the accepted requests of the last hour.\<close>

definition buckets_ok :: "instant \<Rightarrow> limiter_state \<Rightarrow> rl_request list \<Rightarrow> bool" where
  "buckets_ok cutoff st hs \<longleftrightarrow>
     global_actions st = prune cutoff (times (\<lambda>_. True) hs) \<and>
     (\<forall>k. bucket (per_entity st) k = prune cutoff (times (of_entity k) hs)) \<and>
     (\<forall>k. bucket (per_conversation st) k = prune cutoff (times (of_conversation k) hs)) \<and>
     (\<forall>k. bucket (per_workspace st) k = prune cutoff (times (of_workspace k) hs))"

definition budgets_ok :: "limiter_config \<Rightarrow> rl_request list \<Rightarrow> bool" where
  "budgets_ok cfg hs \<longleftrightarrow>
     rate_ok hour_nanos (unat (global_max cfg)) (times (\<lambda>_. True) hs) \<and>
     (\<forall>k. rate_ok hour_nanos (unat (per_entity_max cfg)) (times (of_entity k) hs)) \<and>
     (0 < burst_max cfg \<and> 0 < burst_window_secs cfg \<and> burst_window_secs cfg \<le> 3600 \<longrightarrow>
        (\<forall>k. rate_ok (nanos (burst_window_secs cfg)) (unat (burst_max cfg))
               (times (of_entity k) hs))) \<and>
     (0 < per_conversation_max cfg \<longrightarrow>
        (\<forall>k. rate_ok hour_nanos (unat (per_conversation_max cfg)) (times (of_conversation k) hs))) \<and>
     (0 < per_workspace_max cfg \<longrightarrow>
        (\<forall>k. rate_ok hour_nanos (unat (per_workspace_max cfg)) (times (of_workspace k) hs)))"

definition limiter_inv :: "limiter_config \<Rightarrow> limiter_trace \<Rightarrow> bool" where
  "limiter_inv cfg tr \<longleftrightarrow>
     hour_nanos \<le> lt_clock tr \<and>
     buckets_ok (lt_clock tr - hour_nanos) (lt_state tr) (lt_accepted tr) \<and>
     budgets_ok cfg (lt_accepted tr)"

lemma prune_prune: "c \<le> c' \<Longrightarrow> prune c' (prune c ts) = prune c' ts"
  by (auto simp: prune_def intro!: filter_cong)

lemma prune_Nil [simp]: "prune c [] = []"
  by (simp add: prune_def)

lemma window_cutoff_late: "width \<le> now \<Longrightarrow> window_cutoff now f width = now - width"
  by (simp add: window_cutoff_def instant_checked_sub_def)

lemma bucket_prune_scope: "bucket (prune_scope c m) k = prune c (bucket m k)"
  by (auto simp: bucket_def prune_scope_def prune_def split: option.splits)

lemma bucket_update: "bucket (m(k \<mapsto> ts)) j = (if j = k then ts else bucket m j)"
  by (simp add: bucket_def)

lemma bucket_push: "bucket (push_bucket k t m) j = (if j = k then bucket m k @ [t] else bucket m j)"
  by (simp add: bucket_def push_bucket_def)

lemma prune_snoc: "prune c (ts @ [t]) = prune c ts @ (if c < t then [t] else [])"
  by (simp add: prune_def)

lemma times_snoc: "times P (hs @ [h]) = times P hs @ (if P h then [rq_now h] else [])"
  by (simp add: times_def)

lemma buckets_ok_prune:
  assumes "buckets_ok c st hs" "c \<le> c'"
  shows "buckets_ok c' (prune_expired_scope_maps c' (st\<lparr>global_actions := prune c' (global_actions st)\<rparr>)) hs"
  using assms
  by (simp add: buckets_ok_def prune_expired_scope_maps_def bucket_prune_scope prune_prune)

text \<open>The scope checks prune buckets that are pruned already: they change no bucket.\<close>

lemma check_workspace_same:
  assumes "buckets_ok c st hs" "check_workspace cfg c ws st = (st', e)"
  shows "buckets_ok c st' hs"
    and "e = None \<Longrightarrow> 0 < per_workspace_max cfg \<Longrightarrow> ws = Some k \<Longrightarrow>
         length (prune c (times (of_workspace k) hs)) < unat (per_workspace_max cfg)"
  using assms
  by (auto simp: check_workspace_def buckets_ok_def bucket_update prune_prune Let_def
      split: option.splits if_splits)

lemma check_conversation_same:
  assumes "buckets_ok c st hs" "check_conversation cfg c cv st = (st', e)"
  shows "buckets_ok c st' hs"
    and "e = None \<Longrightarrow> 0 < per_conversation_max cfg \<Longrightarrow> cv = Some k \<Longrightarrow>
         length (prune c (times (of_conversation k) hs)) < unat (per_conversation_max cfg)"
  using assms
  by (auto simp: check_conversation_def buckets_ok_def bucket_update prune_prune Let_def
      split: option.splits if_splits)

lemma check_entity_same:
  assumes "buckets_ok c st hs" "check_entity cfg now c en st = (st', e)"
  shows "buckets_ok c st' hs"
    and "e = None \<Longrightarrow> length (prune c (times (of_entity en) hs)) < unat (per_entity_max cfg)"
    and "e = None \<Longrightarrow> 0 < burst_max cfg \<Longrightarrow> 0 < burst_window_secs cfg \<Longrightarrow>
         length (prune (window_cutoff now now (nanos (burst_window_secs cfg)))
                  (prune c (times (of_entity en) hs))) < unat (burst_max cfg)"
  using assms
  by (auto simp: check_entity_def buckets_ok_def bucket_update prune_prune Let_def prune_def [of "window_cutoff _ _ _"]
      split: if_splits)

lemma hour_nanos_pos: "0 < hour_nanos"
  by (simp add: hour_nanos_def nanos_def)

lemma buckets_ok_record:
  assumes "buckets_ok c st hs" "c < rq_now rq"
  shows "buckets_ok c (record_request (rq_now rq) (rq_entity rq) (rq_conversation rq)
           (rq_workspace rq) st) (hs @ [rq])"
  using assms
  by (auto simp: buckets_ok_def record_request_def bucket_push times_snoc prune_snoc
      split: option.splits)

text \<open>What an accepted request has been checked against.\<close>

lemma accepted_checks:
  assumes b: "buckets_ok c st hs" and c: "c = rq_now rq - hour_nanos" "hour_nanos \<le> rq_now rq"
    and r: "check_and_record_scoped cfg (rq_now rq) (rq_entity rq) (rq_conversation rq)
              (rq_workspace rq) st0 = (st', r)"
    and st: "st = prune_expired_scope_maps c (st0\<lparr>global_actions := prune c (global_actions st0)\<rparr>)"
  shows "if is_ok r then
      buckets_ok c st' (hs @ [rq]) \<and>
      length (prune c (times (\<lambda>_. True) hs)) < unat (global_max cfg) \<and>
      length (prune c (times (of_entity (rq_entity rq)) hs)) < unat (per_entity_max cfg) \<and>
      (0 < burst_max cfg \<longrightarrow> 0 < burst_window_secs cfg \<longrightarrow>
         length (prune (window_cutoff (rq_now rq) (rq_now rq) (nanos (burst_window_secs cfg)))
           (prune c (times (of_entity (rq_entity rq)) hs))) < unat (burst_max cfg)) \<and>
      (\<forall>k. 0 < per_conversation_max cfg \<longrightarrow> rq_conversation rq = Some k \<longrightarrow>
         length (prune c (times (of_conversation k) hs)) < unat (per_conversation_max cfg)) \<and>
      (\<forall>k. 0 < per_workspace_max cfg \<longrightarrow> rq_workspace rq = Some k \<longrightarrow>
         length (prune c (times (of_workspace k) hs)) < unat (per_workspace_max cfg))
    else buckets_ok c st' hs"
proof -
  have cut: "window_cutoff (rq_now rq) (rq_now rq) hour_nanos = c"
    using c by (simp add: window_cutoff_late)
  have lt: "c < rq_now rq" using c hour_nanos_pos by simp
  obtain s1 e1 where s1: "check_workspace cfg c (rq_workspace rq) st = (s1, e1)" by fastforce
  obtain s2 e2 where s2: "check_conversation cfg c (rq_conversation rq) s1 = (s2, e2)" by fastforce
  obtain s3 e3 where s3: "check_entity cfg (rq_now rq) c (rq_entity rq) s2 = (s3, e3)" by fastforce
  have b1: "buckets_ok c s1 hs" by (rule check_workspace_same(1) [OF b s1])
  have b2: "buckets_ok c s2 hs" by (rule check_conversation_same(1) [OF b1 s2])
  have b3: "buckets_ok c s3 hs" by (rule check_entity_same(1) [OF b2 s3])
  have g: "global_actions st = prune c (times (\<lambda>_. True) hs)" using b by (simp add: buckets_ok_def)
  have run: "(st', r) =
      (if unat (global_max cfg) \<le> length (global_actions st) then (st, Err GlobalExhausted)
       else case e1 of Some e \<Rightarrow> (s1, Err e) | None \<Rightarrow>
        (case e2 of Some e \<Rightarrow> (s2, Err e) | None \<Rightarrow>
        (case e3 of Some e \<Rightarrow> (s3, Err e) | None \<Rightarrow>
          (record_request (rq_now rq) (rq_entity rq) (rq_conversation rq) (rq_workspace rq) s3, Ok ()))))"
    using r by (simp add: check_and_record_scoped_def Let_def cut st [symmetric] s1 s2 s3
        split: option.splits if_splits)
  show ?thesis
  proof (cases "is_ok r")
    case True
    with run have n: "e1 = None" "e2 = None" "e3 = None" "\<not> unat (global_max cfg) \<le> length (global_actions st)"
      and st': "st' = record_request (rq_now rq) (rq_entity rq) (rq_conversation rq) (rq_workspace rq) s3"
      by (auto split: if_splits option.splits)
    have "buckets_ok c st' (hs @ [rq])" unfolding st' by (rule buckets_ok_record [OF b3 lt])
    then show ?thesis
      using True n g check_workspace_same(2) [OF b s1] check_conversation_same(2) [OF b1 s2]
        check_entity_same(2,3) [OF b2 s3]
      by simp
  next
    case False
    with run b b1 b2 b3 show ?thesis by (auto split: if_splits option.splits)
  qed
qed

lemma rate_ok_accept:
  assumes "rate_ok w n (times P hs)" "P rq \<Longrightarrow> length (prune (rq_now rq - w) (times P hs)) < n"
  shows "rate_ok w n (times P (hs @ [rq]))"
  using assms by (auto simp: times_snoc rate_ok_snoc prune_def)

lemma limiter_step_inv:
  assumes inv: "limiter_inv cfg tr" and ok: "clock_ok tr rq"
  shows "limiter_inv cfg (fst (limiter_step cfg tr rq))"
proof -
  let ?c = "rq_now rq - hour_nanos" and ?hs = "lt_accepted tr"
  let ?st = "prune_expired_scope_maps ?c
       ((lt_state tr)\<lparr>global_actions := prune ?c (global_actions (lt_state tr))\<rparr>)"
  obtain st' r where r: "check_and_record_scoped cfg (rq_now rq) (rq_entity rq)
      (rq_conversation rq) (rq_workspace rq) (lt_state tr) = (st', r)" by fastforce
  have hour: "hour_nanos \<le> rq_now rq" and le: "lt_clock tr - hour_nanos \<le> ?c"
    using inv ok by (auto simp: limiter_inv_def clock_ok_def)
  have b: "buckets_ok ?c ?st ?hs"
    using inv le by (intro buckets_ok_prune) (auto simp: limiter_inv_def)
  note chk = accepted_checks [OF b refl hour r refl]
  have B: "budgets_ok cfg ?hs" using inv by (simp add: limiter_inv_def)
  show ?thesis
  proof (cases "is_ok r")
    case False
    with chk B hour r show ?thesis by (simp add: limiter_inv_def limiter_step_def)
  next
    case True
    have burst: "prune (rq_now rq - nanos (burst_window_secs cfg)) (prune ?c ts) =
        prune (rq_now rq - nanos (burst_window_secs cfg)) ts"
      "window_cutoff (rq_now rq) (rq_now rq) (nanos (burst_window_secs cfg)) =
        rq_now rq - nanos (burst_window_secs cfg)"
      if "burst_window_secs cfg \<le> 3600" for ts
    proof -
      from that have "nanos (burst_window_secs cfg) \<le> hour_nanos"
        by (simp add: nanos_def hour_nanos_def)
      then show "prune (rq_now rq - nanos (burst_window_secs cfg)) (prune ?c ts) =
          prune (rq_now rq - nanos (burst_window_secs cfg)) ts"
        "window_cutoff (rq_now rq) (rq_now rq) (nanos (burst_window_secs cfg)) =
          rq_now rq - nanos (burst_window_secs cfg)"
        using hour by (auto intro: prune_prune window_cutoff_late)
    qed
    note C = chk [unfolded if_P [OF True]]
    have "rate_ok hour_nanos (unat (global_max cfg)) (times (\<lambda>_. True) (?hs @ [rq]))"
      using B C by (intro rate_ok_accept) (auto simp: budgets_ok_def)
    moreover have "rate_ok hour_nanos (unat (per_entity_max cfg)) (times (of_entity k) (?hs @ [rq]))" for k
      using B C by (intro rate_ok_accept) (auto simp: budgets_ok_def)
    moreover have "rate_ok (nanos (burst_window_secs cfg)) (unat (burst_max cfg))
        (times (of_entity k) (?hs @ [rq]))"
      if "0 < burst_max cfg" "0 < burst_window_secs cfg" "burst_window_secs cfg \<le> 3600" for k
      using B C that burst [OF that(3)] by (intro rate_ok_accept) (auto simp: budgets_ok_def)
    moreover have "rate_ok hour_nanos (unat (per_conversation_max cfg))
        (times (of_conversation k) (?hs @ [rq]))" if "0 < per_conversation_max cfg" for k
      using B C that by (intro rate_ok_accept) (auto simp: budgets_ok_def)
    moreover have "rate_ok hour_nanos (unat (per_workspace_max cfg))
        (times (of_workspace k) (?hs @ [rq]))" if "0 < per_workspace_max cfg" for k
      using B C that by (intro rate_ok_accept) (auto simp: budgets_ok_def)
    ultimately have "budgets_ok cfg (?hs @ [rq])" by (simp add: budgets_ok_def)
    with chk True hour r show ?thesis by (simp add: limiter_inv_def limiter_step_def)
  qed
qed

lemma limiter_inv_init: "limiter_inv cfg limiter_trace_init"
  by (simp add: limiter_inv_def limiter_trace_init_def buckets_ok_def budgets_ok_def bucket_def
      times_def prune_def)

interpretation limiter_run: guarded_machine "limiter_step cfg" clock_ok "limiter_inv cfg" for cfg
  by unfold_locales (rule limiter_step_inv)

definition accepted_requests :: "limiter_config \<Rightarrow> rl_request list \<Rightarrow> rl_request list" where
  "accepted_requests cfg rqs = lt_accepted (fst (run_machine (limiter_step cfg) limiter_trace_init rqs))"

definition in_span :: "instant \<Rightarrow> nat \<Rightarrow> rl_request \<Rightarrow> bool" where
  "in_span a width rq \<longleftrightarrow> a < rq_now rq \<and> rq_now rq \<le> a + width"

lemma rate_ok_requests:
  "rate_ok w n (times P hs) \<Longrightarrow> length (filter (\<lambda>h. P h \<and> in_span a w h) hs) \<le> n"
  using rate_ok_window [of w n "times P hs" a]
  by (simp add: times_def filter_map o_def in_span_def conj_commute)

lemma accepted_budgets:
  "events_ok (limiter_step cfg) clock_ok limiter_trace_init rqs \<Longrightarrow>
   budgets_ok cfg (accepted_requests cfg rqs)"
  using limiter_run.run_inv [OF limiter_inv_init, of cfg rqs]
  by (simp add: limiter_inv_def accepted_requests_def)

text \<open>C23: sliding-window safety of the limiter. In any run with a monotonic clock that starts at
  least an hour after the platform's earliest instant, no window of one hour contains more
  accepted requests than the global budget, none contains more requests of one entity than the
  entity budget, and none of the burst width more than the burst budget (for burst windows of
  at most an hour, when the burst check is on).\<close>

theorem limiter_windows_bounded:
  assumes "events_ok (limiter_step cfg) clock_ok limiter_trace_init rqs"
  shows "length (filter (in_span a hour_nanos) (accepted_requests cfg rqs)) \<le> unat (global_max cfg) \<and>
    length (filter (\<lambda>h. rq_entity h = k \<and> in_span a hour_nanos h) (accepted_requests cfg rqs))
      \<le> unat (per_entity_max cfg) \<and>
    (0 < burst_max cfg \<and> 0 < burst_window_secs cfg \<and> burst_window_secs cfg \<le> 3600 \<longrightarrow>
     length (filter (\<lambda>h. rq_entity h = k \<and> in_span a (nanos (burst_window_secs cfg)) h)
       (accepted_requests cfg rqs)) \<le> unat (burst_max cfg))"
proof -
  note b = accepted_budgets [OF assms, unfolded budgets_ok_def]
  from b have "rate_ok hour_nanos (unat (global_max cfg)) (times (\<lambda>_. True) (accepted_requests cfg rqs))"
    by blast
  from rate_ok_requests [OF this, of a]
  have "length (filter (in_span a hour_nanos) (accepted_requests cfg rqs)) \<le> unat (global_max cfg)"
    by simp
  with b show ?thesis by (auto intro: rate_ok_requests)
qed

definition demo_limits :: limiter_config where
  "demo_limits = fst (limiter_new_with_scopes 3 2 1 1 1 60)"

definition demo_requests :: "rl_request list" where
  "demo_requests =
     [\<lparr>rq_now = nanos 3600, rq_entity = ''a'', rq_conversation = None, rq_workspace = Some ''w''\<rparr>,
      \<lparr>rq_now = nanos 3700, rq_entity = ''b'', rq_conversation = None, rq_workspace = Some ''w''\<rparr>]"

lemmas limiter_eval =
  demo_limits_def demo_requests_def limiter_new_with_scopes_def limiter_step_def clock_ok_def
  limiter_trace_init_def check_and_record_scoped_def check_workspace_def check_conversation_def
  check_entity_def record_request_def prune_expired_scope_maps_def prune_scope_def bucket_def
  push_bucket_def prune_def window_cutoff_def instant_checked_sub_def hour_nanos_def nanos_def
  in_span_def accepted_requests_def run_machine.simps

lemma demo_clock: "events_ok (limiter_step demo_limits) clock_ok limiter_trace_init demo_requests"
  by (simp add: limiter_eval Let_def)

lemma demo_accepted: "map rq_entity (accepted_requests demo_limits demo_requests) = [''a'']"
  by (simp add: limiter_eval Let_def)

theorem limiter_windows_bounded_witness:
  "map rq_entity (accepted_requests demo_limits demo_requests) = [''a''] \<and>
   length (filter (in_span 0 hour_nanos) (accepted_requests demo_limits demo_requests)) \<le> 3"
proof -
  have "unat (global_max demo_limits) = 3"
    by (simp add: demo_limits_def limiter_new_with_scopes_def)
  then show ?thesis using limiter_windows_bounded [OF demo_clock, of 0 "[]"] demo_accepted by simp
qed

text \<open>The optional scopes are bounded in the same way: when the conversation (workspace)
  budget is not zero, no window of one hour contains more accepted requests naming one
  conversation (workspace) than that budget.\<close>

theorem limiter_scopes_bounded:
  assumes "events_ok (limiter_step cfg) clock_ok limiter_trace_init rqs"
  shows "(0 < per_conversation_max cfg \<longrightarrow>
     length (filter (\<lambda>h. rq_conversation h = Some k \<and> in_span a hour_nanos h)
       (accepted_requests cfg rqs)) \<le> unat (per_conversation_max cfg)) \<and>
    (0 < per_workspace_max cfg \<longrightarrow>
     length (filter (\<lambda>h. rq_workspace h = Some k \<and> in_span a hour_nanos h)
       (accepted_requests cfg rqs)) \<le> unat (per_workspace_max cfg))"
  using accepted_budgets [OF assms, unfolded budgets_ok_def] by (auto intro: rate_ok_requests)

theorem limiter_scopes_bounded_witness:
  "length (filter (\<lambda>h. rq_workspace h = Some ''w'' \<and> in_span 0 hour_nanos h)
     (accepted_requests demo_limits demo_requests)) \<le> 1"
proof -
  have "0 < per_workspace_max demo_limits" "unat (per_workspace_max demo_limits) = 1"
    by (simp_all add: demo_limits_def limiter_new_with_scopes_def)
  then show ?thesis using limiter_scopes_bounded [OF demo_clock, of "''w''" 0] by auto
qed

text \<open>The fallback of the cut-off fails open. Where the platform cannot represent an instant
  an hour before now, the cut-off is now itself, every bucket is emptied, and the request is
  accepted however full the buckets were, as long as the budgets are not zero.\<close>

theorem limiter_open_in_first_hour:
  assumes "now < hour_nanos" "0 < global_max cfg" "0 < per_entity_max cfg"
    and "\<And>t. t \<in> set (global_actions st) \<Longrightarrow> t \<le> now"
    and "\<And>k t. t \<in> set (bucket (per_entity st) k) \<Longrightarrow> t \<le> now"
    and "\<And>k t. t \<in> set (bucket (per_conversation st) k) \<Longrightarrow> t \<le> now"
    and "\<And>k t. t \<in> set (bucket (per_workspace st) k) \<Longrightarrow> t \<le> now"
  shows "snd (check_and_record_scoped cfg now e cv ws st) = Ok ()"
proof -
  have c: "window_cutoff now now hour_nanos = now"
    using assms(1) by (simp add: window_cutoff_def instant_checked_sub_def)
  have old: "prune now ts = []" if "\<And>t. t \<in> set ts \<Longrightarrow> t \<le> now" for ts
    using that by (force simp: prune_def filter_empty_conv)
  have g: "prune now (global_actions st) = []" by (rule old) (rule assms(4))
  have m: "prune now (bucket (per_entity st) k) = []" "prune now (bucket (per_conversation st) k) = []"
    "prune now (bucket (per_workspace st) k) = []" for k
    using assms(5-7) by (blast intro: old)+
  let ?st = "prune_expired_scope_maps now (st\<lparr>global_actions := prune now (global_actions st)\<rparr>)"
  have e: "global_actions ?st = []" "bucket (per_entity ?st) k = []"
    "bucket (per_conversation ?st) k = []" "bucket (per_workspace ?st) k = []" for k
    by (simp_all add: prune_expired_scope_maps_def bucket_prune_scope g m)
  have pos: "\<not> unat x \<le> 0" if "0 < x" for x :: u32
    using that by (simp add: unat_eq_0)
  obtain s1 e1 where s1: "check_workspace cfg now ws ?st = (s1, e1)" by fastforce
  have e1: "e1 = None" "bucket (per_entity s1) k = []" "bucket (per_conversation s1) k = []" for k
    using s1 e pos
    by (auto simp: check_workspace_def Let_def unat_eq_0 split: option.splits if_splits)
  obtain s2 e2 where s2: "check_conversation cfg now cv s1 = (s2, e2)" by fastforce
  have e2: "e2 = None" "bucket (per_entity s2) k = []" for k
    using s2 e1 pos
    by (auto simp: check_conversation_def Let_def unat_eq_0 split: option.splits if_splits)
  obtain s3 e3 where s3: "check_entity cfg now now e s2 = (s3, e3)" by fastforce
  have "e3 = None"
    using s3 e2 pos assms(3)
    by (auto simp: check_entity_def Let_def unat_eq_0 split: if_splits)
  then show ?thesis
    using pos [OF assms(2)] by (simp add: check_and_record_scoped_def c s1 s2 s3 e e1 e2)
qed

theorem limiter_open_in_first_hour_witness:
  "snd (check_and_record_scoped demo_limits 7 ''a'' None None
     \<lparr>global_actions = [1, 2, 3, 4, 5, 6], per_entity = [''a'' \<mapsto> [1, 2, 3, 4, 5, 6]],
      per_conversation = Map.empty, per_workspace = Map.empty\<rparr>) = Ok ()"
  by (rule limiter_open_in_first_hour)
    (auto simp: demo_limits_def limiter_new_with_scopes_def hour_nanos_def nanos_def bucket_def
      split: if_splits)

subsection \<open>The daily budget\<close>

definition cost_step ::
  "u32 \<Rightarrow> daily_cost \<Rightarrow> unix_secs option \<times> u32 \<Rightarrow> daily_cost \<times> bool" where
  "cost_step max_cents st ev = cost_record (fst ev) (snd ev) max_cents st"

definition accepted_cents :: "(unix_secs option \<times> u32) list \<Rightarrow> bool list \<Rightarrow> nat" where
  "accepted_cents evs outs =
     sum_list (map (\<lambda>(ev, b). if b then unat (snd ev) else 0) (zip evs outs))"

lemma cost_record_same_day:
  assumes "current_day_epoch clock = day_epoch st" "spent_cents st \<le> m" "m \<noteq> - 1"
  shows "day_epoch (fst (cost_record clock c m st)) = day_epoch st \<and>
    spent_cents (fst (cost_record clock c m st)) \<le> m \<and>
    unat (spent_cents (fst (cost_record clock c m st))) =
      unat (spent_cents st) + (if snd (cost_record clock c m st) then unat c else 0)"
proof -
  have "m < - 1" using assms(3) word_order.not_eq_extremum by blast
  then have lim: "unat m < 4294967295"
    by (simp add: word_less_nat_alt unsigned_minus_1_eq_mask mask_eq_exp_minus_1)
  have sat: "unat (saturating_add (spent_cents st) c) = min (unat (spent_cents st) + unat c) 4294967295"
    by (simp add: unat_saturating_add)
  show ?thesis
  proof (cases "c = 0 \<or> m < saturating_add (spent_cents st) c")
    case True
    then show ?thesis
      using assms by (auto simp: cost_record_def rollover_day_if_needed_def Let_def)
  next
    case False
    with lim sat have "unat (saturating_add (spent_cents st) c) = unat (spent_cents st) + unat c"
      by (simp add: word_less_nat_alt)
    with False assms show ?thesis
      by (simp add: cost_record_def rollover_day_if_needed_def Let_def linorder_not_less)
  qed
qed

lemma cost_run_same_day:
  assumes "m \<noteq> - 1"
  shows "spent_cents st \<le> m \<Longrightarrow> \<forall>ev \<in> set evs. current_day_epoch (fst ev) = day_epoch st \<Longrightarrow>
    (let (st', outs) = run_machine (cost_step m) st evs in
       spent_cents st' \<le> m \<and>
       unat (spent_cents st') = unat (spent_cents st) + accepted_cents evs outs)"
proof (induction evs arbitrary: st)
  case Nil
  then show ?case by (simp add: accepted_cents_def)
next
  case (Cons ev evs)
  let ?st = "fst (cost_step m st ev)"
  have d: "current_day_epoch (fst ev) = day_epoch st" using Cons.prems(2) by simp
  have s: "day_epoch ?st = day_epoch st" "spent_cents ?st \<le> m"
    "unat (spent_cents ?st) = unat (spent_cents st) + (if snd (cost_step m st ev) then unat (snd ev) else 0)"
    using cost_record_same_day [OF d Cons.prems(1) assms, of "snd ev"]
    by (simp_all add: cost_step_def)
  have IH: "let (st', outs) = run_machine (cost_step m) ?st evs in
       spent_cents st' \<le> m \<and> unat (spent_cents st') = unat (spent_cents ?st) + accepted_cents evs outs"
    using Cons.IH [OF s(2)] Cons.prems(2) s(1) by simp
  show ?case
    using IH s(3) by (simp add: case_prod_unfold accepted_cents_def Let_def)
qed

text \<open>The daily budget holds without overflow. Whatever sequence of costs is submitted on one
  day to a tracker that starts the day empty, the costs it accepts sum (as unbounded numbers) to
  exactly what it has recorded and never exceed the cap; the \<open>u32\<close> additions do not wrap. The cap
  \<open>u32::MAX\<close>, at which saturation would hide further spending, is excluded.\<close>

theorem cost_within_daily_budget:
  assumes "m \<noteq> - 1" "spent_cents st = 0" "\<forall>ev \<in> set evs. current_day_epoch (fst ev) = day_epoch st"
  shows "accepted_cents evs (snd (run_machine (cost_step m) st evs)) \<le> unat m \<and>
    unat (spent_cents (fst (run_machine (cost_step m) st evs))) =
      accepted_cents evs (snd (run_machine (cost_step m) st evs))"
  using cost_run_same_day [OF assms(1), of st evs] assms(2,3)
  by (auto simp: case_prod_unfold Let_def word_le_nat_alt)

theorem cost_within_daily_budget_witness:
  "snd (run_machine (cost_step 500) (cost_tracker_new (Some 0)) [(Some 5, 400), (Some 9, 200), (Some 10, 100)])
     = [True, False, True] \<and>
   accepted_cents [(Some 5, 400), (Some 9, 200), (Some 10, 100)] [True, False, True] \<le> unat (500 :: u32)"
proof -
  have run: "snd (run_machine (cost_step 500) (cost_tracker_new (Some 0))
      [(Some 5, 400), (Some 9, 200), (Some 10, 100)]) = [True, False, True]"
    by (simp add: cost_step_def cost_record_def rollover_day_if_needed_def cost_tracker_new_def
        current_day_epoch_def saturating_add_def Let_def)
  show ?thesis
    using cost_within_daily_budget [of 500 "cost_tracker_new (Some 0)"
        "[(Some 5, 400), (Some 9, 200), (Some 10, 100)]"] run
    by (simp add: cost_tracker_new_def current_day_epoch_def)
qed

end
