(* ===== verification/Security_Policy.thy ===== *)
theory Security_Policy
  imports Contracts Rate_Limits
begin

text \<open>
  The security policy object (\<open>src/src/security/policy/mod.rs\<close>) and the configuration it is
  built from (\<open>src/src/config/schema/autonomy.rs\<close>, \<open>src/src/config/schema/core/identity.rs\<close>):
  the effective autonomy level, the resolved workspace containment, and the action and cost
  budgets every tool execution is charged to.
\<close>

subsection \<open>The escalation order of autonomy levels\<close>

instantiation autonomy_level :: linorder
begin

definition less_eq_autonomy_level :: "autonomy_level \<Rightarrow> autonomy_level \<Rightarrow> bool" where
  "less_eq_autonomy_level a b \<longleftrightarrow>
     (case (a, b) of
        (ReadOnly, _) \<Rightarrow> True
      | (Supervised, ReadOnly) \<Rightarrow> False
      | (Supervised, _) \<Rightarrow> True
      | (Full, Full) \<Rightarrow> True
      | (Full, _) \<Rightarrow> False)"

definition less_autonomy_level :: "autonomy_level \<Rightarrow> autonomy_level \<Rightarrow> bool" where
  "less_autonomy_level a b \<longleftrightarrow> a \<le> b \<and> \<not> b \<le> (a :: autonomy_level)"

instance
  by intro_classes
    (auto simp: less_eq_autonomy_level_def less_autonomy_level_def split: autonomy_level.splits)

end

subsection \<open>Configuration\<close>

datatype rollout_stage = StageReadOnly | StageSupervised | StageFull

record rollout_config =
  rollout_enabled :: bool
  rollout_stage :: "rollout_stage option"
  read_only_days :: "nat option"
  supervised_days :: "nat option"

text \<open>\<open>AutonomyConfig\<close> without its temperature bands, which are floating point.\<close>

record autonomy_config =
  ac_level :: autonomy_level
  ac_external_action_execution :: external_action_execution
  ac_rollout :: rollout_config
  ac_workspace_only :: bool
  ac_allowed_commands :: "rstr list"
  ac_forbidden_paths :: "rstr list"
  ac_max_actions_per_hour :: u32
  ac_max_actions_per_entity_per_hour :: u32
  ac_max_actions_per_conversation_per_hour :: u32
  ac_max_actions_per_workspace_per_hour :: u32
  ac_burst_max_per_entity :: u32
  ac_burst_window_secs :: nat
  ac_max_cost_per_day_cents :: u32
  ac_verify_repair_max_attempts :: u32
  ac_verify_repair_max_repair_depth :: u32
  ac_max_tool_loop_iterations :: u32

definition rollout_stage_to_autonomy :: "rollout_stage \<Rightarrow> autonomy_level" where
  "rollout_stage_to_autonomy stage =
     (case stage of StageReadOnly \<Rightarrow> ReadOnly | StageSupervised \<Rightarrow> Supervised | StageFull \<Rightarrow> Full)"

definition min_autonomy :: "autonomy_level \<Rightarrow> autonomy_level \<Rightarrow> autonomy_level" where
  "min_autonomy global channel =
     (if global = ReadOnly \<or> channel = ReadOnly then ReadOnly
      else if global = Supervised \<or> channel = Supervised then Supervised
      else Full)"

definition effective_autonomy_lvl :: "autonomy_config \<Rightarrow> autonomy_level" where
  "effective_autonomy_lvl cfg =
     (if \<not> rollout_enabled (ac_rollout cfg) then ac_level cfg
      else (case rollout_stage (ac_rollout cfg) of
              None \<Rightarrow> ac_level cfg
            | Some stage \<Rightarrow> min_autonomy (ac_level cfg) (rollout_stage_to_autonomy stage)))"

datatype verify_repair_error = AttemptsZero | RepairDepthTooLarge

definition validate_verify_repair_caps :: "autonomy_config \<Rightarrow> (verify_repair_error, unit) result" where
  "validate_verify_repair_caps cfg =
     (if ac_verify_repair_max_attempts cfg = 0 then Err AttemptsZero
      else if ac_verify_repair_max_attempts cfg \<le> ac_verify_repair_max_repair_depth cfg
      then Err RepairDepthTooLarge else Ok ())"

datatype runtime_kind = RkAuto | RkNative | RkDocker | RkWasm
datatype sandbox_selector = SelFixed | SelAuto

record runtime_config =
  rc_kind :: runtime_kind
  rc_enable_docker_runtime :: bool
  rc_enable_live_settings_reload :: bool
  rc_sandbox_selector :: sandbox_selector

definition runtime_config_default :: runtime_config where
  "runtime_config_default =
     \<lparr>rc_kind = RkNative, rc_enable_docker_runtime = False,
      rc_enable_live_settings_reload = True, rc_sandbox_selector = SelFixed\<rparr>"

text \<open>\<open>target_wasm\<close>: whether the binary is built for \<open>wasm32\<close>.\<close>

definition resolved_runtime_kind :: "bool \<Rightarrow> runtime_config \<Rightarrow> runtime_kind" where
  "resolved_runtime_kind target_wasm rc =
     (if rc_kind rc \<noteq> RkAuto then rc_kind rc
      else if target_wasm then RkWasm
      else if rc_enable_docker_runtime rc then RkDocker
      else RkNative)"

definition resolved_workspace_only :: "bool \<Rightarrow> runtime_config \<Rightarrow> bool \<Rightarrow> bool" where
  "resolved_workspace_only target_wasm rc configured =
     (case rc_sandbox_selector rc of
        SelFixed \<Rightarrow> configured
      | SelAuto \<Rightarrow> resolved_runtime_kind target_wasm rc \<noteq> RkDocker)"

subsection \<open>The policy\<close>

record security_policy =
  autonomy :: autonomy_level
  external_action_execution :: external_action_execution
  workspace_dir :: rstr
  workspace_only :: bool
  allowed_commands :: "rstr list"
  forbidden_paths :: "rstr list"
  max_actions_per_hour :: u32
  max_cost_per_day_cents :: u32
  tracker :: action_tracker
  cost_tracker :: daily_cost

definition security_policy_default :: "unix_secs option \<Rightarrow> security_policy" where
  "security_policy_default clock =
     \<lparr>autonomy = Supervised, external_action_execution = ExtDisabled, workspace_dir = ''.'',
      workspace_only = True, allowed_commands = default_allowed_commands,
      forbidden_paths = default_forbidden_paths, max_actions_per_hour = 300,
      max_cost_per_day_cents = 500, tracker = action_tracker_new,
      cost_tracker = cost_tracker_new clock\<rparr>"

lemma security_policy_default_sel:
  "autonomy (security_policy_default clock) = Supervised"
  "workspace_dir (security_policy_default clock) = ''.''"
  "workspace_only (security_policy_default clock) = True"
  "allowed_commands (security_policy_default clock) = default_allowed_commands"
  "forbidden_paths (security_policy_default clock) = default_forbidden_paths"
  "external_action_execution (security_policy_default clock) = ExtDisabled"
  by (simp_all add: security_policy_default_def)

definition from_config_runtime ::
  "bool \<Rightarrow> unix_secs option \<Rightarrow> autonomy_config \<Rightarrow> runtime_config \<Rightarrow> rstr \<Rightarrow> security_policy" where
  "from_config_runtime target_wasm clock ac rc ws =
     \<lparr>autonomy = effective_autonomy_lvl ac,
      external_action_execution = ac_external_action_execution ac, workspace_dir = ws,
      workspace_only = resolved_workspace_only target_wasm rc (ac_workspace_only ac),
      allowed_commands = ac_allowed_commands ac, forbidden_paths = ac_forbidden_paths ac,
      max_actions_per_hour = ac_max_actions_per_hour ac,
      max_cost_per_day_cents = ac_max_cost_per_day_cents ac, tracker = action_tracker_new,
      cost_tracker = cost_tracker_new clock\<rparr>"

definition from_config ::
  "bool \<Rightarrow> unix_secs option \<Rightarrow> autonomy_config \<Rightarrow> rstr \<Rightarrow> security_policy" where
  "from_config target_wasm clock ac ws =
     from_config_runtime target_wasm clock ac runtime_config_default ws"

definition can_act :: "security_policy \<Rightarrow> bool" where
  "can_act p \<longleftrightarrow> autonomy p \<noteq> ReadOnly"

text \<open>The clock readings of one call: cut-off, fallback and push of the action tracker, and the
  wall clock of the cost tracker.\<close>

record clock_reads =
  cr_cutoff :: instant
  cr_fallback :: instant
  cr_push :: instant
  cr_wall :: "unix_secs option"

definition record_action :: "clock_reads \<Rightarrow> security_policy \<Rightarrow> security_policy \<times> bool" where
  "record_action c p =
     (let (tr, count) = tracker_record (cr_cutoff c) (cr_fallback c) (cr_push c) (tracker p)
      in (p\<lparr>tracker := tr\<rparr>, count \<le> unat (max_actions_per_hour p)))"

definition is_rate_limited :: "clock_reads \<Rightarrow> security_policy \<Rightarrow> security_policy \<times> bool" where
  "is_rate_limited c p =
     (let (tr, count) = tracker_count_active (cr_cutoff c) (cr_fallback c) (tracker p)
      in (p\<lparr>tracker := tr\<rparr>, unat (max_actions_per_hour p) \<le> count))"

datatype budget_error = ActionLimitExceeded | CostLimitExceeded

definition consume_action_cost ::
  "clock_reads \<Rightarrow> u32 \<Rightarrow> security_policy \<Rightarrow> security_policy \<times> (budget_error, unit) result" where
  "consume_action_cost c estimated_cost_cents p =
     (let (p, allowed) = record_action c p in
      if \<not> allowed then (p, Err ActionLimitExceeded)
      else let (ct, within) = cost_record (cr_wall c) estimated_cost_cents
                                (max_cost_per_day_cents p) (cost_tracker p);
               p = p\<lparr>cost_tracker := ct\<rparr>
           in if \<not> within then (p, Err CostLimitExceeded) else (p, Ok ()))"

subsection \<open>The effective autonomy level\<close>

lemma min_autonomy_min: "min_autonomy a b = min a b"
  by (cases a; cases b) (auto simp: min_autonomy_def min_def less_eq_autonomy_level_def)

lemma Full_top: "a \<le> Full" for a :: autonomy_level
  by (cases a) (auto simp: less_eq_autonomy_level_def)

lemma can_act_iff: "can_act p \<longleftrightarrow> Supervised \<le> autonomy p"
  by (cases "autonomy p") (auto simp: can_act_def less_eq_autonomy_level_def)

text \<open>A staged rollout can only lower autonomy. The policy built from a configuration never
  has a higher autonomy level than the configured one, and with the rollout active it has exactly
  the smaller of the configured level and the level of the stage.\<close>

theorem rollout_never_escalates:
  "autonomy (from_config_runtime w clock ac rc ws) \<le> ac_level ac \<and>
   (rollout_enabled (ac_rollout ac) \<and> rollout_stage (ac_rollout ac) = Some stage \<longrightarrow>
      autonomy (from_config_runtime w clock ac rc ws) =
        min (ac_level ac) (rollout_stage_to_autonomy stage))"
  by (auto simp: from_config_runtime_def effective_autonomy_lvl_def min_autonomy_min
      split: option.splits)

definition demo_autonomy :: autonomy_config where
  "demo_autonomy =
     \<lparr>ac_level = Full, ac_external_action_execution = ExtDisabled,
      ac_rollout = \<lparr>rollout_enabled = True, rollout_stage = Some StageReadOnly,
                    read_only_days = Some 14, supervised_days = Some 14\<rparr>,
      ac_workspace_only = True, ac_allowed_commands = [], ac_forbidden_paths = [],
      ac_max_actions_per_hour = 2, ac_max_actions_per_entity_per_hour = 20,
      ac_max_actions_per_conversation_per_hour = 60, ac_max_actions_per_workspace_per_hour = 200,
      ac_burst_max_per_entity = 10, ac_burst_window_secs = 60, ac_max_cost_per_day_cents = 5,
      ac_verify_repair_max_attempts = 3, ac_verify_repair_max_repair_depth = 2,
      ac_max_tool_loop_iterations = 10\<rparr>"

theorem rollout_never_escalates_witness:
  "autonomy (from_config_runtime False None demo_autonomy runtime_config_default ''.'') = ReadOnly"
proof -
  have "min Full (rollout_stage_to_autonomy StageReadOnly) = ReadOnly" by code_simp
  then show ?thesis
    using rollout_never_escalates [of False None demo_autonomy runtime_config_default "''.''" StageReadOnly]
    by (simp add: demo_autonomy_def)
qed

subsection \<open>The action budget\<close>

record action_trace =
  at_policy :: security_policy
  at_attempts :: "instant list"
  at_clock :: instant

definition action_step ::
  "action_trace \<Rightarrow> clock_reads \<Rightarrow> action_trace \<times> bool" where
  "action_step tr c =
     (let (p, allowed) = record_action c (at_policy tr)
      in (\<lparr>at_policy = p, at_attempts = at_attempts tr @ [cr_push c], at_clock = cr_cutoff c\<rparr>, allowed))"

definition reads_ok :: "action_trace \<Rightarrow> clock_reads \<Rightarrow> bool" where
  "reads_ok tr c \<longleftrightarrow> at_clock tr \<le> cr_cutoff c \<and> cr_cutoff c \<le> cr_push c"

definition action_inv :: "u32 \<Rightarrow> action_trace \<Rightarrow> bool" where
  "action_inv m tr \<longleftrightarrow>
     hour_nanos \<le> at_clock tr \<and> max_actions_per_hour (at_policy tr) = m \<and>
     tracker (at_policy tr) = prune (at_clock tr - hour_nanos) (at_attempts tr)"

definition action_trace_init :: "security_policy \<Rightarrow> action_trace" where
  "action_trace_init p = \<lparr>at_policy = p, at_attempts = [], at_clock = hour_nanos\<rparr>"

lemma action_step_inv:
  assumes "action_inv m tr" "reads_ok tr c"
  shows "action_inv m (fst (action_step tr c))"
    and "snd (action_step tr c) \<longleftrightarrow>
      length (prune (cr_cutoff c - hour_nanos) (at_attempts tr)) < unat m"
proof -
  have le: "hour_nanos \<le> cr_cutoff c" "at_clock tr - hour_nanos \<le> cr_cutoff c - hour_nanos"
    and push: "cr_cutoff c - hour_nanos < cr_push c"
    using assms hour_nanos_pos by (auto simp: action_inv_def reads_ok_def)
  have tr: "fst (tracker_record (cr_cutoff c) (cr_fallback c) (cr_push c) (tracker (at_policy tr))) =
      prune (cr_cutoff c - hour_nanos) (at_attempts tr @ [cr_push c])"
    using assms le push
    by (simp add: tracker_record_def window_cutoff_late action_inv_def prune_prune prune_snoc)
  then show "action_inv m (fst (action_step tr c))"
    using assms le by (simp add: action_inv_def action_step_def record_action_def case_prod_unfold)
  have "snd (tracker_record (cr_cutoff c) (cr_fallback c) (cr_push c) (tracker (at_policy tr))) =
      Suc (length (prune (cr_cutoff c - hour_nanos) (at_attempts tr)))"
    using assms le by (simp add: tracker_record_def window_cutoff_late action_inv_def prune_prune)
  then show "snd (action_step tr c) \<longleftrightarrow>
      length (prune (cr_cutoff c - hour_nanos) (at_attempts tr)) < unat m"
    using assms by (simp add: action_step_def record_action_def case_prod_unfold action_inv_def Suc_le_eq)
qed

interpretation action_run: guarded_machine action_step reads_ok "action_inv m" for m
  by unfold_locales (rule action_step_inv(1))

lemma attempts_run: "at_attempts (fst (run_machine action_step tr cs)) = at_attempts tr @ map cr_push cs"
  by (induction cs arbitrary: tr) (simp_all add: action_step_def case_prod_unfold Let_def)

text \<open>The hourly action budget counts every attempt. In any run on a monotonic clock that starts
  with an empty tracker, an action is allowed exactly when fewer than \<open>max_actions_per_hour\<close>
  attempts, the refused ones included, were recorded in the hour before it. So a caller that keeps
  retrying while it is limited stays limited.\<close>

theorem action_budget_counts_attempts:
  assumes "tracker p = []" "events_ok action_step reads_ok (action_trace_init p) (cs @ [c])"
  shows "snd (record_action c (at_policy (fst (run_machine action_step (action_trace_init p) cs)))) \<longleftrightarrow>
    length (filter (\<lambda>t. cr_cutoff c - hour_nanos < t) (map cr_push cs)) < unat (max_actions_per_hour p)"
proof -
  let ?tr = "fst (run_machine action_step (action_trace_init p) cs)"
  have "action_inv (max_actions_per_hour p) (action_trace_init p)"
    using assms(1) by (simp add: action_inv_def action_trace_init_def)
  then have inv: "action_inv (max_actions_per_hour p) ?tr"
    using assms(2) by (intro action_run.run_inv) (simp_all add: events_ok_append)
  have "reads_ok ?tr c" using assms(2) by (simp add: events_ok_append)
  from action_step_inv(2) [OF inv this] show ?thesis
    by (simp add: action_step_def case_prod_unfold Let_def attempts_run action_trace_init_def prune_def)
qed

definition demo_read :: "nat \<Rightarrow> clock_reads" where
  "demo_read s = \<lparr>cr_cutoff = nanos s, cr_fallback = nanos s, cr_push = nanos s, cr_wall = None\<rparr>"

theorem action_budget_counts_attempts_witness:
  "\<not> snd (record_action (demo_read 7201)
       (at_policy (fst (run_machine action_step
          (action_trace_init ((security_policy_default None)\<lparr>max_actions_per_hour := 1\<rparr>))
          [demo_read 3600, demo_read 3602]))))"
proof -
  let ?p = "(security_policy_default None)\<lparr>max_actions_per_hour := 1 :: u32\<rparr>"
  have h: "events_ok action_step reads_ok (action_trace_init ?p) ([demo_read 3600, demo_read 3602] @ [demo_read 7201])"
    by (simp add: reads_ok_def action_step_def action_trace_init_def demo_read_def nanos_def
        hour_nanos_def case_prod_unfold Let_def)
  show ?thesis
    using action_budget_counts_attempts [OF _ h]
    by (simp add: demo_read_def nanos_def hour_nanos_def security_policy_default_def action_tracker_new_def)
qed

text \<open>Charging an action. The call succeeds exactly when the action count and then the daily
  cost both allow it; a call refused for cost has still used up an action, and a call refused for
  the action count spends no cents.\<close>

theorem consume_action_cost_spec:
  "(snd (consume_action_cost c cents p) = Err ActionLimitExceeded \<longleftrightarrow> \<not> snd (record_action c p)) \<and>
   (snd (consume_action_cost c cents p) = Ok () \<longleftrightarrow>
      snd (record_action c p) \<and>
      snd (cost_record (cr_wall c) cents (max_cost_per_day_cents p) (cost_tracker p))) \<and>
   tracker (fst (consume_action_cost c cents p)) = tracker (fst (record_action c p)) \<and>
   cost_tracker (fst (consume_action_cost c cents p)) =
     (if snd (record_action c p)
      then fst (cost_record (cr_wall c) cents (max_cost_per_day_cents p) (cost_tracker p))
      else cost_tracker p)"
  by (auto simp: consume_action_cost_def record_action_def Let_def split: prod.splits)

end
