(* ===== verification/Path_Policy.thy ===== *)
theory Path_Policy
  imports Security_Policy
begin

text \<open>
  Unix paths as \<open>std::path\<close> sees them, and the two path guards of the program: the policy's
  check of a path argument (\<open>src/src/security/policy/path.rs\<close>) and the containment of a
  path in a root directory (\<open>src/src/security/path_boundary.rs\<close>). The file system is a
  parameter, the record \<open>fs_env\<close>; what the guards rely on of it is stated where it is used.
\<close>

subsection \<open>Paths\<close>

datatype component = RootDir | CurDir | ParentDir | Normal rstr

definition segment_component :: "rstr \<Rightarrow> component" where
  "segment_component s = (if s = ''..'' then ParentDir else Normal s)"

definition is_absolute :: "rstr \<Rightarrow> bool" where
  "is_absolute p \<longleftrightarrow> starts_with p ''/''"

text \<open>\<open>Path::components\<close>: empty and single-dot segments vanish, except a leading dot of a relative path.\<close>

definition path_components :: "rstr \<Rightarrow> component list" where
  "path_components p =
     (let segs = split_on (CHR ''/'') p in
      (if is_absolute p then [RootDir] else if hd segs = ''.'' then [CurDir] else []) @
      map segment_component (filter (\<lambda>s. s \<noteq> [] \<and> s \<noteq> ''.'') segs))"

definition path_starts_with :: "rstr \<Rightarrow> rstr \<Rightarrow> bool" where
  "path_starts_with p base \<longleftrightarrow> prefix (path_components base) (path_components p)"

definition path_join :: "rstr \<Rightarrow> rstr \<Rightarrow> rstr" where
  "path_join base p =
     (if is_absolute p then p
      else if base = [] \<or> ends_with base ''/'' then base @ p
      else base @ ''/'' @ p)"

text \<open>\<open>Path::parent\<close>: the shortest beginning of the path with all components but the last.\<close>

definition path_parent :: "rstr \<Rightarrow> rstr option" where
  "path_parent p =
     (let cs = path_components p in
      if cs = [] \<or> last cs = RootDir then None
      else List.find (\<lambda>q. path_components q = butlast cs) (map (\<lambda>n. take n p) [0..<Suc (length p)]))"

text \<open>The file system and the environment as the guards see them.\<close>

record fs_env =
  home_dir :: "rstr option"
  canonicalize :: "rstr \<Rightarrow> rstr option"
  path_exists :: "rstr \<Rightarrow> bool"
  is_file :: "rstr \<Rightarrow> bool"
  is_dir :: "rstr \<Rightarrow> bool"

subsection \<open>The policy's check of a path\<close>

definition expand_tilde :: "rstr \<Rightarrow> rstr option \<Rightarrow> rstr" where
  "expand_tilde path home =
     (case (strip_prefix ''~/'' path, home) of
        (Some stripped, Some h) \<Rightarrow> path_join h stripped
      | _ \<Rightarrow> path)"

definition is_path_allowed :: "fs_env \<Rightarrow> security_policy \<Rightarrow> rstr \<Rightarrow> bool" where
  "is_path_allowed env p path =
     (if contains path [CHR 0x00] then False
      else if list_ex (\<lambda>c. c = ParentDir) (path_components path) then False
      else let lower = to_lowercase path in
        if contains lower ''%2e%2e'' \<or> contains lower ''..%2f'' \<or> contains lower ''%2f..'' then False
        else let expanded = expand_tilde path (home_dir env) in
          if workspace_only p \<and> is_absolute expanded then False
          else \<not> list_ex (\<lambda>forbidden. path_starts_with expanded (expand_tilde forbidden (home_dir env)))
                   (forbidden_paths p))"

definition is_resolved_path_forbidden :: "fs_env \<Rightarrow> security_policy \<Rightarrow> rstr \<Rightarrow> bool" where
  "is_resolved_path_forbidden env p resolved =
     (case canonicalize env (workspace_dir p) of
        Some root \<Rightarrow>
          if path_starts_with resolved root then False
          else list_ex (\<lambda>forbidden. path_starts_with resolved (expand_tilde forbidden (home_dir env)))
                 (forbidden_paths p)
      | None \<Rightarrow>
          list_ex (\<lambda>forbidden. path_starts_with resolved (expand_tilde forbidden (home_dir env)))
            (forbidden_paths p))"

definition is_path_allowed_resolved :: "fs_env \<Rightarrow> security_policy \<Rightarrow> rstr \<Rightarrow> bool" where
  "is_path_allowed_resolved env p resolved =
     (if is_resolved_path_forbidden env p resolved then False
      else if \<not> workspace_only p then True
      else (case canonicalize env (workspace_dir p) of
              None \<Rightarrow> False
            | Some root \<Rightarrow> path_starts_with resolved root))"

subsection \<open>Containment in a root directory\<close>

datatype root_bound_path_kind = KindAny | KindFile | KindDirectory

datatype boundary_error =
  RootUnresolved | PathUnresolved | OutsideRoot | NotAFile | NotADirectory | NotRelative | Escapes

definition ensure_expected_kind ::
  "fs_env \<Rightarrow> rstr \<Rightarrow> root_bound_path_kind \<Rightarrow> (boundary_error, unit) result" where
  "ensure_expected_kind env path expected =
     (case expected of
        KindAny \<Rightarrow> Ok ()
      | KindFile \<Rightarrow> if is_file env path then Ok () else Err NotAFile
      | KindDirectory \<Rightarrow> if is_dir env path then Ok () else Err NotADirectory)"

definition canonicalize_path_within_root ::
  "fs_env \<Rightarrow> rstr \<Rightarrow> rstr \<Rightarrow> root_bound_path_kind \<Rightarrow> (boundary_error, rstr) result" where
  "canonicalize_path_within_root env path root expected =
     (case canonicalize env root of
        None \<Rightarrow> Err RootUnresolved
      | Some canonical_root \<Rightarrow>
     (case canonicalize env path of
        None \<Rightarrow> Err PathUnresolved
      | Some canonical_path \<Rightarrow>
          if \<not> path_starts_with canonical_path canonical_root then Err OutsideRoot
          else (case ensure_expected_kind env canonical_path expected of
                  Inl e \<Rightarrow> Err e
                | Inr _ \<Rightarrow> Ok canonical_path)))"

definition resolve_relative_path_within_root ::
  "fs_env \<Rightarrow> rstr \<Rightarrow> rstr \<Rightarrow> root_bound_path_kind \<Rightarrow> (boundary_error, rstr) result" where
  "resolve_relative_path_within_root env root declared_path expected =
     (if is_absolute declared_path then Err NotRelative
      else if list_ex (\<lambda>c. c = ParentDir \<or> c = RootDir) (path_components declared_path) then Err Escapes
      else canonicalize_path_within_root env (path_join root declared_path) root expected)"

subsection \<open>Components of joined paths\<close>

lemma split_on_append_sep: "split_on c (a @ c # b) = split_on c a @ split_on c b"
  by (induction a) (auto split: list.splits)

lemma filter_split_on_slash_end:
  "filter (\<lambda>s. s \<noteq> [] \<and> P s) (split_on c (a @ [c])) = filter (\<lambda>s. s \<noteq> [] \<and> P s) (split_on c a)"
  using split_on_append_sep [of c a "[]"] by simp

definition body_components :: "rstr \<Rightarrow> component list" where
  "body_components p = map segment_component (filter (\<lambda>s. s \<noteq> [] \<and> s \<noteq> ''.'') (split_on (CHR ''/'') p))"

lemma path_components_absolute:
  "is_absolute p \<Longrightarrow> path_components p = RootDir # body_components p"
  by (simp add: path_components_def body_components_def Let_def)

lemma path_components_relative:
  "\<not> is_absolute p \<Longrightarrow> path_components p =
     (if hd (split_on (CHR ''/'') p) = ''.'' then [CurDir] else []) @ body_components p"
  by (simp add: path_components_def body_components_def Let_def)

lemma body_components_join_sep: "body_components (a @ CHR ''/'' # b) = body_components a @ body_components b"
  by (simp add: body_components_def split_on_append_sep)

lemma body_components_trailing_slash: "body_components (a @ ''/'') = body_components a"
  using body_components_join_sep [of a "[]"] by (simp add: body_components_def)

lemma path_join_absolute:
  assumes "is_absolute base" "\<not> is_absolute p"
  shows "path_components (path_join base p) = path_components base @ body_components p"
proof (cases "ends_with base ''/''")
  case True
  then obtain b where b: "base = b @ ''/''" by (auto simp: suffix_def)
  have "is_absolute (base @ p)" using assms(1) by (auto simp: is_absolute_def)
  moreover have "body_components (base @ p) = body_components base @ body_components p"
    using body_components_join_sep [of b p] body_components_trailing_slash [of b] by (simp add: b)
  ultimately show ?thesis
    using assms True by (simp add: path_join_def path_components_absolute)
next
  case False
  have "is_absolute (base @ ''/'' @ p)" "base \<noteq> []" using assms(1) by (auto simp: is_absolute_def)
  then show ?thesis
    using assms False body_components_join_sep [of base p]
    by (simp add: path_join_def path_components_absolute)
qed

lemma path_starts_with_refl [simp]: "path_starts_with p p"
  by (simp add: path_starts_with_def)

lemma path_starts_with_trans:
  "path_starts_with p q \<Longrightarrow> path_starts_with q r \<Longrightarrow> path_starts_with p r"
  by (auto simp: path_starts_with_def)

lemma path_join_starts_with:
  "is_absolute base \<Longrightarrow> \<not> is_absolute p \<Longrightarrow> path_starts_with (path_join base p) base"
  by (simp add: path_starts_with_def path_join_absolute)

lemma ParentDir_body: "ParentDir \<in> set (body_components p) \<longleftrightarrow> ParentDir \<in> set (path_components p)"
  by (cases "is_absolute p") (auto simp: path_components_absolute path_components_relative)

lemma path_parent_components:
  assumes "path_parent p = Some q"
  shows "path_components q = butlast (path_components p)"
  using assms by (auto simp: path_parent_def Let_def find_Some_iff split: if_splits)

lemma path_parent_shorter: "path_parent p = Some q \<Longrightarrow> length (path_components q) < length (path_components p)"
  by (frule path_parent_components) (auto simp: path_parent_def Let_def split: if_splits)

subsection \<open>What the guards guarantee\<close>

lemma strip_tilde_absolute: "is_absolute p \<Longrightarrow> strip_prefix ''~/'' p = None"
  by (cases p) (auto simp: is_absolute_def strip_prefix_None)

lemma expand_tilde_absolute: "is_absolute p \<Longrightarrow> expand_tilde p h = p"
  by (simp add: expand_tilde_def strip_tilde_absolute split: option.splits)

lemma is_path_allowed_iff:
  "is_path_allowed env p path \<longleftrightarrow>
     CHR 0x00 \<notin> set path \<and> ParentDir \<notin> set (path_components path) \<and>
     \<not> contains (to_lowercase path) ''%2e%2e'' \<and> \<not> contains (to_lowercase path) ''..%2f'' \<and>
     \<not> contains (to_lowercase path) ''%2f..'' \<and>
     \<not> (workspace_only p \<and> is_absolute (expand_tilde path (home_dir env))) \<and>
     (\<forall>f \<in> set (forbidden_paths p).
        \<not> path_starts_with (expand_tilde path (home_dir env)) (expand_tilde f (home_dir env)))"
  by (auto simp: is_path_allowed_def Let_def list_ex_iff sublist_Cons_right in_set_conv_decomp sublist_def)

lemma allowed_relative:
  "is_path_allowed env p path \<Longrightarrow> workspace_only p \<Longrightarrow> \<not> is_absolute path"
  using expand_tilde_absolute by (auto simp: is_path_allowed_iff)

lemma is_path_allowed_resolved_iff:
  "is_path_allowed_resolved env p r \<longleftrightarrow>
     (\<exists>root. canonicalize env (workspace_dir p) = Some root \<and> path_starts_with r root) \<or>
     \<not> workspace_only p \<and>
     (\<forall>f \<in> set (forbidden_paths p). \<not> path_starts_with r (expand_tilde f (home_dir env)))"
  by (auto simp: is_path_allowed_resolved_def is_resolved_path_forbidden_def list_ex_iff
      split: option.splits)

lemma body_components_names: "c \<in> set (body_components p) \<Longrightarrow> c = ParentDir \<or> (\<exists>s. c = Normal s \<and> s \<notin> {[], ''.'', ''..''})"
  by (auto simp: body_components_def segment_component_def split: if_splits)

text \<open>C38: what an accepted path argument can reach. In a workspace-only policy, joining an accepted
  path to any absolute directory gives a path lexically below that directory: its components are
  those of the directory followed by the components of the argument without a leading dot, each of which
  is an ordinary name, neither a root nor a parent directory, and the argument has no NUL byte. (Links
  are the matter of the checks of resolved paths, and the forbidden paths, which are absolute by default,
  have no part in it: an absolute argument is not accepted in this mode at all.)\<close>

theorem allowed_path_stays_below:
  assumes "is_path_allowed env p path" "workspace_only p" "is_absolute dir"
  shows "(\<exists>below. path_components (path_join dir path) = path_components dir @ below \<and>
            below = filter (\<lambda>c. c \<noteq> CurDir) (path_components path) \<and>
            list_all (\<lambda>c. \<exists>name. c = Normal name \<and> name \<notin> {[], ''.'', ''..''}) below) \<and>
         CHR 0x00 \<notin> set path"
proof -
  have rel: "\<not> is_absolute path" by (rule allowed_relative [OF assms(1,2)])
  have up: "ParentDir \<notin> set (body_components path)" "CHR 0x00 \<notin> set path"
    using assms(1) by (auto simp: is_path_allowed_iff ParentDir_body)
  have names: "list_all (\<lambda>c. \<exists>name. c = Normal name \<and> name \<notin> {[], ''.'', ''..''}) (body_components path)"
    using body_components_names up(1) by (fastforce simp: list_all_iff)
  then have "filter (\<lambda>c. c \<noteq> CurDir) (body_components path) = body_components path"
    by (auto simp: list_all_iff intro!: filter_True)
  then have "filter (\<lambda>c. c \<noteq> CurDir) (path_components path) = body_components path"
    using rel by (simp add: path_components_relative)
  then show ?thesis using names up(2) path_join_absolute [OF assms(3) rel] by simp
qed

text \<open>Without that restriction an accepted absolute path is below no forbidden path that is absolute.\<close>

lemma allowed_path_not_forbidden:
  assumes "is_path_allowed env p path" "is_absolute path" "f \<in> set (forbidden_paths p)" "is_absolute f"
  shows "path_components path \<noteq> path_components f @ below"
  using assms by (auto simp: is_path_allowed_iff expand_tilde_absolute path_starts_with_def prefix_def)

definition demo_fs :: fs_env where
  "demo_fs = \<lparr>home_dir = Some ''/home/u'',
     canonicalize = (\<lambda>p. if p = ''/ws/a/..'' then Some ''/ws'' else if p = ''/ws/link'' then Some ''/etc''
        else Some p),
     path_exists = (\<lambda>p. p = ''/ws'' \<or> p = ''/ws/a''), is_file = (\<lambda>p. p = ''/ws/a''),
     is_dir = (\<lambda>p. p = ''/ws'')\<rparr>"

theorem allowed_path_stays_below_witness:
  "is_path_allowed demo_fs (security_policy_default None) ''src/./lib.rs'' \<and>
   (\<exists>below. path_components ''/ws/src/./lib.rs'' = path_components ''/ws'' @ below)"
proof -
  have a: "is_path_allowed demo_fs (security_policy_default None) ''src/./lib.rs''"
    by (simp only: is_path_allowed_def security_policy_default_sel) code_simp
  have j: "path_join ''/ws'' ''src/./lib.rs'' = ''/ws/src/./lib.rs''" by code_simp
  have "\<exists>below. path_components (path_join ''/ws'' ''src/./lib.rs'') = path_components ''/ws'' @ below"
    using allowed_path_stays_below [OF a, of "''/ws''"]
    by (auto simp: security_policy_default_sel is_absolute_def)
  with a j show ?thesis by simp
qed

text \<open>Resolving a declared path inside a root. The call succeeds with exactly the resolved
  target of the joined path, when the declared path is relative without parent components, both
  the root and the joined path resolve, the target lies under the resolved root and has the
  expected kind. So no symbolic link leads out of the root.\<close>

theorem resolve_relative_path_within_root_ok:
  "resolve_relative_path_within_root env root declared expected = Ok r \<longleftrightarrow>
     \<not> is_absolute declared \<and> ParentDir \<notin> set (path_components declared) \<and>
     canonicalize env (path_join root declared) = Some r \<and>
     (\<exists>croot. canonicalize env root = Some croot \<and> path_starts_with r croot) \<and>
     (case expected of KindAny \<Rightarrow> True | KindFile \<Rightarrow> is_file env r | KindDirectory \<Rightarrow> is_dir env r)"
proof -
  have rel: "RootDir \<notin> set (path_components declared)" if "\<not> is_absolute declared"
    using that by (auto simp: path_components_relative body_components_def segment_component_def)
  show ?thesis
    by (auto simp: resolve_relative_path_within_root_def canonicalize_path_within_root_def
        ensure_expected_kind_def list_ex_iff rel split: option.splits if_splits root_bound_path_kind.splits)
qed

text \<open>
  A forbidden path that is relative is compared with the argument as written, so a leading dot
  hides the argument from it.
\<close>

lemma relative_forbidden_path_missed:
  assumes "forbidden_paths p = [''secrets'']"
  shows "is_path_allowed env p ''./secrets/key'' \<and> \<not> is_path_allowed env p ''secrets/key''"
proof -
  have "strip_prefix ''~/'' ''./secrets/key'' = None" "strip_prefix ''~/'' ''secrets/key'' = None"
    "strip_prefix ''~/'' ''secrets'' = None" by code_simp+
  then have e: "expand_tilde ''./secrets/key'' h = ''./secrets/key''"
    "expand_tilde ''secrets/key'' h = ''secrets/key''" "expand_tilde ''secrets'' h = ''secrets''" for h
    by (simp_all add: expand_tilde_def)
  have "\<not> path_starts_with ''./secrets/key'' ''secrets''" "path_starts_with ''secrets/key'' ''secrets''"
    "\<not> list_ex (\<lambda>c. c = ParentDir) (path_components ''./secrets/key'')"
    "to_lowercase ''./secrets/key'' = ''./secrets/key''" "\<not> is_absolute ''./secrets/key''"
    by code_simp+
  then show ?thesis by (simp add: is_path_allowed_iff e assms list_ex_iff) code_simp
qed

end
