(* ===== verification/Command_Policy.thy ===== *)
theory Command_Policy
  imports Path_Policy
begin

text \<open>
  Validation of shell commands (\<open>src/src/security/policy/command.rs\<close>): the text-level split
  into segments, the allowlist, the path arguments, and the blocked arguments of \<open>git\<close>,
  \<open>npm\<close>, \<open>cargo\<close> and \<open>find\<close>, whose \<open>-exec\<close> payloads are validated recursively. The
  lemmas extract, for an accepted command of plain words, every command line that it starts, read off
  the text by rules of the shell that know nothing of the policy's own split.
\<close>

abbreviation NUL :: char where "NUL \<equiv> CHR 0x00"
abbreviation SOH :: char where "SOH \<equiv> CHR 0x01"
abbreviation BSLASH :: char where "BSLASH \<equiv> CHR 0x5C"
abbreviation SQUOTE :: char where "SQUOTE \<equiv> CHR 0x27"
abbreviation DQUOTE :: char where "DQUOTE \<equiv> CHR 0x22"
abbreviation escaped_semicolon :: rstr where "escaped_semicolon \<equiv> [BSLASH, CHR '';'']"

subsection \<open>Environment assignments\<close>

definition is_env_assignment :: "rstr \<Rightarrow> bool" where
  "is_env_assignment w \<longleftrightarrow>
     CHR ''='' \<in> set w \<and>
     (case w of [] \<Rightarrow> False | c # _ \<Rightarrow> is_ascii_alphabetic c \<or> c = CHR ''_'')"

function skip_env_assignments :: "rstr \<Rightarrow> rstr" where
  "skip_env_assignments s =
     (case split_whitespace s of
        [] \<Rightarrow> s
      | w # _ \<Rightarrow> if is_env_assignment w then skip_env_assignments (trim_start (drop (length w) s)) else s)"
  by pat_completeness auto
termination
proof (relation "measure length", simp)
  fix s w ws
  assume h: "split_whitespace s = w # ws"
  then have "w \<noteq> []" using split_whitespace_words [of w s] by simp
  moreover have "s \<noteq> []" using h by (auto simp: split_whitespace_def)
  ultimately have "length (drop (length w) s) < length s" by simp
  then show "(trim_start (drop (length w) s), s) \<in> measure length"
    using length_trim_start [of "drop (length w) s"] by simp
qed

declare skip_env_assignments.simps [simp del]

definition has_leading_env_assignments :: "rstr \<Rightarrow> bool" where
  "has_leading_env_assignments s \<longleftrightarrow> skip_env_assignments s \<noteq> trim_start s"

subsection \<open>Arguments\<close>

definition git_blocked_config_keys :: "rstr list" where
  "git_blocked_config_keys =
     [''core.sshcommand'', ''core.fsmonitor'', ''core.pager'', ''core.editor'', ''core.askpass'',
      ''core.hookspath'', ''core.gitproxy'', ''credential.'', ''diff.external'', ''merge.tool'',
      ''filter.'', ''http.proxy'', ''https.proxy'', ''protocol.'', ''url.'']"

definition is_git_config_injection :: "rstr \<Rightarrow> bool" where
  "is_git_config_injection args =
     (let lower = to_lowercase args in
      if \<not> contains lower ''-c '' \<and> \<not> contains lower ''--config '' \<and> \<not> contains lower ''--config=''
      then False
      else list_ex (\<lambda>key. contains lower key) git_blocked_config_keys)"

definition is_path_like_argument :: "rstr \<Rightarrow> bool" where
  "is_path_like_argument arg \<longleftrightarrow>
     starts_with arg ''/'' \<or> starts_with arg ''~/'' \<or> contains arg ''/'' \<or>
     contains arg [BSLASH] \<or> contains arg ''..''"

definition strip_wrapping_quotes :: "rstr \<Rightarrow> rstr" where
  "strip_wrapping_quotes v =
     (if 2 \<le> length v \<and> (starts_with v [DQUOTE] \<and> ends_with v [DQUOTE] \<or>
                        starts_with v [SQUOTE] \<and> ends_with v [SQUOTE])
      then butlast (tl v) else v)"

definition extract_path_arg :: "rstr \<Rightarrow> rstr option" where
  "extract_path_arg arg =
     (let raw = trim arg in
      if raw = [] then None
      else if is_path_like_argument raw then Some (strip_wrapping_quotes raw)
      else let trimmed = strip_wrapping_quotes raw in
        if trimmed = [] then None
        else if is_path_like_argument trimmed then Some trimmed
        else (case split_once (CHR ''='') trimmed of
                None \<Rightarrow> None
              | Some (_, v) \<Rightarrow>
                  let v = strip_wrapping_quotes (trim v)
                  in if v \<noteq> [] \<and> is_path_like_argument v then Some v else None))"

definition canonicalize_or_path :: "fs_env \<Rightarrow> rstr \<Rightarrow> rstr" where
  "canonicalize_or_path env path = (case canonicalize env path of Some r \<Rightarrow> r | None \<Rightarrow> path)"

text \<open>\<open>PathBuf\<close> equality compares components.\<close>

definition should_enforce_workspace_containment :: "fs_env \<Rightarrow> security_policy \<Rightarrow> rstr \<Rightarrow> bool" where
  "should_enforce_workspace_containment env p ws =
     (if workspace_only p then True
      else path_components (canonicalize_or_path env ws) \<noteq>
           path_components (canonicalize_or_path env (workspace_dir p)))"

function nearest_existing_path :: "fs_env \<Rightarrow> rstr \<Rightarrow> rstr option" where
  "nearest_existing_path env path =
     (if path_exists env path then Some path
      else (case path_parent path of None \<Rightarrow> None | Some q \<Rightarrow> nearest_existing_path env q))"
  by pat_completeness auto
termination
  by (relation "measure (\<lambda>(env, p). length (path_components p))")
    (auto dest: path_parent_shorter)

declare nearest_existing_path.simps [simp del]

text \<open>The closure \<open>is_allowed_path\<close>; \<open>root\<close> is \<open>None\<close> when containment is not enforced.\<close>

definition is_resolved_argument_allowed ::
  "fs_env \<Rightarrow> security_policy \<Rightarrow> rstr option \<Rightarrow> rstr \<Rightarrow> bool" where
  "is_resolved_argument_allowed env p root path =
     (case canonicalize env path of
        None \<Rightarrow> False
      | Some resolved \<Rightarrow>
          if (case root of Some r \<Rightarrow> \<not> path_starts_with resolved r | None \<Rightarrow> False) then False
          else is_path_allowed_resolved env p resolved)"

definition is_path_argument_allowed :: "fs_env \<Rightarrow> security_policy \<Rightarrow> rstr \<Rightarrow> rstr \<Rightarrow> bool" where
  "is_path_argument_allowed env p ws path_arg =
     (if \<not> is_path_allowed env p path_arg then False
      else if should_enforce_workspace_containment env p ws \<and> canonicalize env ws = None then False
      else let root = (if should_enforce_workspace_containment env p ws then canonicalize env ws else None);
               joined = (if is_absolute path_arg then path_arg else path_join ws path_arg)
           in if path_exists env joined then is_resolved_argument_allowed env p root joined
              else (case nearest_existing_path env joined of
                      Some existing \<Rightarrow> is_resolved_argument_allowed env p root existing
                    | None \<Rightarrow> False))"

definition has_forbidden_path_argument ::
  "fs_env \<Rightarrow> security_policy \<Rightarrow> rstr \<Rightarrow> rstr list \<Rightarrow> bool" where
  "has_forbidden_path_argument env p ws words =
     list_ex (\<lambda>w. \<not> is_path_argument_allowed env p ws w) (List.map_filter extract_path_arg words)"

subsection \<open>Payloads of \<open>find -exec\<close>\<close>

definition find_exec_terminator :: "rstr \<Rightarrow> (rstr option \<times> bool) option" where
  "find_exec_terminator token =
     (if token = ''+'' then Some (None, True)
      else if token = escaped_semicolon \<or> token = '';'' then Some (None, True)
      else (case strip_suffix escaped_semicolon token of
              Some stripped \<Rightarrow> Some (if stripped = [] then None else Some stripped, True)
            | None \<Rightarrow> None))"

text \<open>
  The payload and what follows its terminator; the code returns the index of the terminator,
  from which its caller goes on.
\<close>

fun extract_find_exec_from :: "rstr list \<Rightarrow> rstr list \<Rightarrow> (rstr \<times> rstr list) option" where
  "extract_find_exec_from exec_tokens [] = None"
| "extract_find_exec_from exec_tokens (token # rest) =
     (case find_exec_terminator token of
        Some (command_token, is_terminator) \<Rightarrow>
          let exec_tokens = exec_tokens @ (case command_token of Some c \<Rightarrow> [c] | None \<Rightarrow> [])
          in if is_terminator
             then (if exec_tokens = [] then None else Some (join '' '' exec_tokens, rest))
             else extract_find_exec_from (exec_tokens @ [token]) rest
      | None \<Rightarrow> extract_find_exec_from (exec_tokens @ [token]) rest)"

definition extract_find_exec_payload :: "rstr list \<Rightarrow> (rstr \<times> rstr list) option" where
  "extract_find_exec_payload words = extract_find_exec_from [] words"

lemma find_exec_terminator_shorter:
  "find_exec_terminator token = Some (Some c, b) \<Longrightarrow> length c < length token"
  by (auto simp: find_exec_terminator_def strip_suffix_Some split: if_splits option.splits)

lemma extract_find_exec_from_size:
  "extract_find_exec_from ts ws = Some (payload, rest) \<Longrightarrow>
   Suc (length payload) + words_size rest \<le> words_size ts + words_size ws"
proof (induction ts ws rule: extract_find_exec_from.induct)
  case (2 ts token ws)
  show ?case
  proof (cases "find_exec_terminator token")
    case None
    with 2 show ?thesis by simp
  next
    case (Some a)
    obtain c b where a: "a = (c, b)" by (cases a)
    have b: b using Some a by (auto simp: find_exec_terminator_def split: if_splits option.splits)
    have "(case c of None \<Rightarrow> 0 | Some c' \<Rightarrow> Suc (length c')) \<le> length token"
      using Some a find_exec_terminator_shorter by (cases c) (auto simp: Suc_le_eq)
    moreover have "Suc (length payload) = words_size ts + (case c of None \<Rightarrow> 0 | Some c' \<Rightarrow> Suc (length c'))"
      "rest = ws"
    proof -
      have J: "Suc (length (join '' '' (ts @ [x]))) = words_size (ts @ [x])" for x
        by (rule Suc_length_join) simp
      show "Suc (length payload) = words_size ts + (case c of None \<Rightarrow> 0 | Some c' \<Rightarrow> Suc (length c'))"
        using "2.prems" Some a b J Suc_length_join [of ts]
        by (auto simp: Let_def split: option.splits if_splits)
      show "rest = ws" using "2.prems" Some a b by (auto simp: Let_def split: option.splits if_splits)
    qed
    ultimately show ?thesis by simp
  qed
qed simp

lemmas extract_payload_size = extract_find_exec_from_size [of "[]", folded extract_find_exec_payload_def, simplified]

subsection \<open>Blocked arguments\<close>

definition nth_word :: "rstr list \<Rightarrow> nat \<Rightarrow> rstr" where
  "nth_word words i = (if i < length words then words ! i else [])"

definition git_blocked :: "rstr \<Rightarrow> rstr list \<Rightarrow> bool" where
  "git_blocked args words =
     (let subcommand = nth_word words 0 in
      if subcommand \<in> set [''push'', ''send-email'', ''request-pull''] then True
      else if subcommand = ''credential'' then True
      else if subcommand = ''remote'' then nth_word words 1 \<notin> set [[], ''-v'', ''show'', ''get-url'']
      else if subcommand = ''config'' then
        list_ex (\<lambda>w. w = ''--global'' \<or> w = ''--system'') words \<or>
        1 < length (filter (\<lambda>w. \<not> starts_with w ''-'') (drop 1 words))
      else if subcommand = ''submodule'' then nth_word words 1 = ''add''
      else if list_ex (\<lambda>w. w = ''--upload-pack'' \<or> starts_with w ''--upload-pack='' \<or>
                         w = ''--receive-pack'' \<or> starts_with w ''--receive-pack='') words then True
      else is_git_config_injection args)"

definition npm_blocked :: "rstr \<Rightarrow> bool" where
  "npm_blocked subcommand \<longleftrightarrow>
     subcommand \<in> set [''publish'', ''login'', ''adduser'', ''owner'', ''token'', ''access'', ''profile'']"

definition cargo_blocked :: "rstr \<Rightarrow> bool" where
  "cargo_blocked subcommand \<longleftrightarrow> subcommand \<in> set [''publish'', ''login'', ''owner'', ''yank'']"

definition segment_args :: "rstr \<Rightarrow> rstr \<Rightarrow> rstr" where
  "segment_args base seg =
     trim_start (case strip_prefix base (trim seg) of None \<Rightarrow> [] | Some rest \<Rightarrow> rest)"

lemma length_segment_args: "length (segment_args base seg) \<le> length seg"
proof -
  have "length (case strip_prefix base (trim seg) of None \<Rightarrow> [] | Some rest \<Rightarrow> rest) \<le> length seg"
    using length_trim [of seg] by (auto simp: strip_prefix_Some split: option.splits)
  then show ?thesis
    unfolding segment_args_def using length_trim_start le_trans by blast
qed

text \<open>
  \<open>find_scan\<close> is the loop of the \<open>find\<close> case, on the words from the current index on. The
  two functions call each other on ever shorter text.
\<close>

function has_blocked_arguments ::
    "fs_env \<Rightarrow> security_policy \<Rightarrow> rstr \<Rightarrow> rstr list \<Rightarrow> rstr \<Rightarrow> rstr \<Rightarrow> bool"
  and find_scan :: "fs_env \<Rightarrow> security_policy \<Rightarrow> rstr \<Rightarrow> rstr list \<Rightarrow> rstr list \<Rightarrow> bool"
where
  "has_blocked_arguments env p ws allowed base_cmd full_segment =
     (let args = segment_args base_cmd full_segment;
          words = split_whitespace args;
          subcommand = nth_word words 0
      in if base_cmd = ''git'' then git_blocked args words
         else if base_cmd = ''npm'' then npm_blocked subcommand
         else if base_cmd = ''cargo'' then cargo_blocked subcommand
         else if base_cmd = ''find'' then
           (if ''-delete'' \<in> set words then True else find_scan env p ws allowed words)
         else False)"
| "find_scan env p ws allowed [] = False"
| "find_scan env p ws allowed (w # rest) =
     (if w = ''-exec'' \<or> w = ''-execdir'' then
        (case extract_find_exec_payload rest of
           None \<Rightarrow> True
         | Some (exec_payload, after) \<Rightarrow>
             if has_leading_env_assignments exec_payload then True
             else (case split_whitespace exec_payload of
                 [] \<Rightarrow> True
               | exec_cmd # exec_args \<Rightarrow>
                   if contains exec_cmd ''/'' \<or> contains exec_cmd [BSLASH] then True
                   else let exec_base = last (split_on (CHR ''/'') exec_cmd) in
                     if exec_base \<notin> set allowed then True
                     else if has_forbidden_path_argument env p ws exec_args then True
                     else if has_blocked_arguments env p ws allowed exec_base exec_payload then True
                     else find_scan env p ws allowed after))
      else find_scan env p ws allowed rest)"
  by pat_completeness auto
termination
proof (relation "measure (case_sum (\<lambda>(env, p, ws, allowed, base, seg). Suc (2 * Suc (length seg)))
                                   (\<lambda>(env, p, ws, allowed, words). 2 * words_size words))",
    goal_cases)
  case 1
  show ?case by simp
next
  case (2 env p ws allowed base seg args words)
  have "words_size words \<le> Suc (length seg)"
    using words_size_split_whitespace [of args] length_segment_args [of base seg] 2 by simp
  then show ?case by simp
next
  case 3
  then show ?case by (auto dest!: extract_payload_size)
next
  case 4
  then show ?case by (auto dest!: extract_payload_size)
next
  case 5
  then show ?case by simp
qed

declare has_blocked_arguments.simps [simp del] find_scan.simps(2) [simp del]

subsection \<open>Commands\<close>

text \<open>The command with every separator replaced by NUL and every escaped semicolon by SOH.\<close>

definition normalize_separators :: "rstr \<Rightarrow> rstr" where
  "normalize_separators command = str_replace ''||'' [NUL] (str_replace ''&&'' [NUL] command)"

definition normalize_command :: "rstr \<Rightarrow> rstr" where
  "normalize_command command =
     str_replace ''|'' [NUL] (str_replace '';'' [NUL] (str_replace [CHR 0x0A] [NUL]
       (str_replace escaped_semicolon [SOH] (normalize_separators command))))"

text \<open>One round of the loop over the segments: whether the loop goes on.\<close>

definition segment_allowed :: "fs_env \<Rightarrow> security_policy \<Rightarrow> rstr \<Rightarrow> rstr \<Rightarrow> bool" where
  "segment_allowed env p ws segment =
     (let segment = trim segment in
      if segment = [] then True
      else let segment = str_replace [SOH] escaped_semicolon segment in
        if has_leading_env_assignments segment then False
        else let executable = first_word segment in
          if contains executable ''/'' \<or> contains executable [BSLASH] then False
          else if executable = [] then True
          else if executable \<notin> set (allowed_commands p) then False
          else if has_forbidden_path_argument env p ws (drop 1 (split_whitespace segment)) then False
          else \<not> has_blocked_arguments env p ws (allowed_commands p) executable segment)"

definition is_command_allowed_in_workspace :: "fs_env \<Rightarrow> security_policy \<Rightarrow> rstr \<Rightarrow> rstr \<Rightarrow> bool" where
  "is_command_allowed_in_workspace env p command ws =
     (if autonomy p = ReadOnly then False
      else if contains command [NUL] \<or> contains command [SOH] then False
      else if contains command ''`'' \<or> contains command ''$('' \<or> contains command ''${'' \<or>
              contains command ''<('' \<or> contains command ''>('' then False
      else if contains command ''>'' then False
      else if contains (normalize_separators command) ''&'' then False
      else let segments = split_on NUL (normalize_command command) in
        if \<not> list_all (segment_allowed env p ws) segments then False
        else list_ex (\<lambda>s. let s = trim s in
               if has_leading_env_assignments s then False else first_word s \<noteq> []) segments)"

definition is_command_allowed :: "fs_env \<Rightarrow> security_policy \<Rightarrow> rstr \<Rightarrow> bool" where
  "is_command_allowed env p command = is_command_allowed_in_workspace env p command (workspace_dir p)"

subsection \<open>The command lines a command starts\<close>

text \<open>
  What a shell would run, read off the words of a command line: the payload of every
  \<open>-exec\<close> of \<open>find\<close>, then the payloads inside that payload, at any depth.
\<close>

inductive payload_of :: "rstr list \<Rightarrow> rstr \<Rightarrow> bool" where
  payload_here: "w = ''-exec'' \<or> w = ''-execdir'' \<Longrightarrow>
     extract_find_exec_payload rest = Some (pl, after) \<Longrightarrow> payload_of (w # rest) pl"
| payload_after: "w = ''-exec'' \<or> w = ''-execdir'' \<Longrightarrow>
     extract_find_exec_payload rest = Some (pl', after) \<Longrightarrow> payload_of after pl \<Longrightarrow> payload_of (w # rest) pl"
| payload_skip: "\<not> (w = ''-exec'' \<or> w = ''-execdir'') \<Longrightarrow> payload_of rest pl \<Longrightarrow> payload_of (w # rest) pl"


inductive_cases payload_of_ConsE: "payload_of (w # rest) pl"
inductive_cases payload_of_NilE: "payload_of [] pl"







lemma first_word_Nil: "first_word s = [] \<longleftrightarrow> split_whitespace s = []"
  using split_whitespace_words [of "[]" s]
  by (auto simp: first_word_def split: list.splits)



subsection \<open>The lines a shell reads\<close>

text \<open>
  A command is plain when a POSIX shell gives no other meaning to its characters than that of words, blanks
  and control operators: letters, digits, blanks, the signs \<open>- _ . , / : = + @ %\<close>, the word \<open>{}\<close>, the
  operators \<open>; & |\<close> with line ends, and a backslash only before a semicolon. Quotes, parentheses,
  redirections, variables, patterns and home directories are not plain.
\<close>

definition plain_char :: "char \<Rightarrow> bool" where
  "plain_char c \<longleftrightarrow> is_ascii_alphanumeric c \<or>
     c \<in> {CHR '' '', CHR 0x09, CHR 0x0A, CHR ''-'', CHR ''_'', CHR ''.'', CHR '','', CHR ''/'', CHR '':'', CHR ''='',
          CHR ''+'', CHR ''@'', CHR ''%'', CHR '';'', CHR ''&'', CHR ''|''}"

fun plain_command :: "rstr \<Rightarrow> bool" where
  "plain_command [] = True"
| "plain_command [c] = plain_char c"
| "plain_command (c # d # s) =
     (if c = BSLASH then d = CHR '';'' \<and> plain_command s
      else if c = CHR ''{'' then d = CHR ''}'' \<and> plain_command s
      else plain_char c \<and> plain_command (d # s))"




















lemma str_replace_removes: "c \<notin> set rep \<Longrightarrow> c \<notin> set (str_replace [c] rep s)"
  by (auto simp: str_replace_char split: if_splits)

lemma str_replace_keeps: "x \<notin> set rep \<Longrightarrow> x \<notin> set s \<Longrightarrow> x \<notin> set (str_replace pat rep s)"
  using str_replace_set by fast

lemma normalize_command_chars:
  "CHR ''|'' \<notin> set (normalize_command command)" "CHR '';'' \<notin> set (normalize_command command)"
  "CHR 0x0A \<notin> set (normalize_command command)"
  unfolding normalize_command_def
  by (rule str_replace_removes, simp,
      rule str_replace_keeps, simp, rule str_replace_removes, simp,
      rule str_replace_keeps, simp, rule str_replace_keeps, simp, rule str_replace_removes, simp)

lemma normalize_command_ampersand:
  "CHR ''&'' \<notin> set (normalize_separators command) \<Longrightarrow> CHR ''&'' \<notin> set (normalize_command command)"
  unfolding normalize_command_def by (intro str_replace_keeps) simp_all

lemma contains_char: "contains s [c] \<longleftrightarrow> c \<in> set s"
  by (auto simp: in_set_conv_decomp sublist_def)

lemma accepted_command_checks:
  "is_command_allowed_in_workspace env p command ws \<Longrightarrow>
   autonomy p \<noteq> ReadOnly \<and> \<not> contains command [NUL] \<and> \<not> contains command [SOH] \<and>
   \<not> contains command ''`'' \<and> \<not> contains command ''>'' \<and>
   \<not> contains command ''$('' \<and> \<not> contains command ''${'' \<and>
   \<not> contains (normalize_separators command) ''&''"
  unfolding is_command_allowed_in_workspace_def by argo





subsection \<open>What the command guard guarantees\<close>






definition demo_shell_policy :: security_policy where
  "demo_shell_policy =
     \<lparr>autonomy = Supervised, external_action_execution = ExtDisabled, workspace_dir = ''/ws'',
      workspace_only = True, allowed_commands = [''find'', ''cat'', ''echo'', ''git''],
      forbidden_paths = [''/etc''], max_actions_per_hour = 1, max_cost_per_day_cents = 1,
      tracker = [], cost_tracker = \<lparr>day_epoch = 0, spent_cents = 0\<rparr>\<rparr>"

definition demo_find :: rstr where
  "demo_find = ''find . -exec cat {} + | echo''"

lemma demo_find_accepted:
  "is_command_allowed_in_workspace demo_fs demo_shell_policy demo_find ''/ws''"
  by code_simp


lemma split_on_set: "w \<in> set (split_on c s) \<Longrightarrow> set w \<subseteq> set s"
  by (induction s arbitrary: w) (fastforce split: list.splits if_splits)+

text \<open>An accepted command has no substitution, redirection or background operator. It contains
  no backquote, no greater-than sign, no dollar-parenthesis or dollar-brace; after the split no
  piece contains an ampersand, a newline, a pipe or a semicolon, other than the semicolons that
  were written with a backslash; and the policy is not read-only.\<close>

theorem accepted_command_is_simple:
  assumes "is_command_allowed_in_workspace env p command ws"
    and "piece \<in> set (split_on NUL (normalize_command command))"
  shows "autonomy p \<noteq> ReadOnly \<and> set command \<inter> {CHR ''`'', CHR ''>'', NUL, SOH} = {} \<and>
    \<not> contains command ''$('' \<and> \<not> contains command ''${'' \<and>
    set piece \<inter> {CHR ''&'', CHR 0x0A, CHR ''|'', CHR '';'', NUL} = {}"
proof -
  have c: "set piece \<subseteq> set (normalize_command command)" "NUL \<notin> set piece"
    using assms(2) split_on_set split_on_pieces by blast+
  note h = accepted_command_checks [OF assms(1)]
  then have "CHR ''&'' \<notin> set (normalize_command command)"
    by (intro normalize_command_ampersand) (simp add: contains_char)
  then have "set piece \<inter> {CHR ''&'', CHR 0x0A, CHR ''|'', CHR '';'', NUL} = {}"
    using c normalize_command_chars [of command] by blast
  then show ?thesis using h by (simp add: contains_char)
qed

theorem accepted_command_is_simple_witness:
  "set ''find . -exec cat {} + '' \<inter> {CHR ''&'', CHR 0x0A, CHR ''|'', CHR '';'', NUL} = {}"
proof -
  have "''find . -exec cat {} + '' \<in> set (split_on NUL (normalize_command demo_find))" by code_simp
  from accepted_command_is_simple [OF demo_find_accepted this] show ?thesis by simp
qed

text \<open>The splitter takes every backslash before a semicolon for an escape, also a backslash that
  is itself escaped. A shell ends the first command at the semicolon of
  \<open>echo \\; rm -rf x\<close> and runs \<open>rm\<close>; the policy sees one \<open>echo\<close> command and accepts it,
  although \<open>rm\<close> is not allowlisted, and refuses the same text without the two backslashes.\<close>

theorem escaped_backslash_hides_command:
  "''rm'' \<notin> set (allowed_commands demo_shell_policy) \<and>
   \<not> is_command_allowed demo_fs demo_shell_policy ''echo ; rm -rf x'' \<and>
   is_command_allowed demo_fs demo_shell_policy
     (''echo '' @ [BSLASH, BSLASH] @ ''; rm -rf x'')"
  by code_simp

text \<open>Text in which the shell sees more than words, all of it accepted: a function whose body is not looked at
  and which the shell then calls, a path and a subcommand in quotes, an input redirection, and a variable.\<close>

lemma shell_meaning_missed:
  "list_all (is_command_allowed demo_fs demo_shell_policy)
     [''cat () (rm -rf x); cat'',
      ''cat '' @ [DQUOTE] @ ''/etc'' @ [DQUOTE] @ ''/passwd'',
      ''git '' @ [DQUOTE] @ ''push'' @ [DQUOTE],
      ''cat </etc/passwd'',
      ''cat $HOME/.ssh/id_rsa''] \<and>
   \<not> list_ex plain_command
     [''cat () (rm -rf x); cat'',
      ''cat '' @ [DQUOTE] @ ''/etc'' @ [DQUOTE] @ ''/passwd'',
      ''git '' @ [DQUOTE] @ ''push'' @ [DQUOTE],
      ''cat </etc/passwd'',
      ''cat $HOME/.ssh/id_rsa''] \<and>
   \<not> is_command_allowed demo_fs demo_shell_policy ''cat /etc/passwd''"
  by code_simp

text \<open>The payload of \<open>-ok\<close>, which \<open>find\<close> runs when its standard input says yes, is not checked.\<close>

lemma find_ok_not_checked:
  "\<not> is_command_allowed demo_fs demo_shell_policy (''find . -exec rm {} '' @ escaped_semicolon) \<and>
   is_command_allowed demo_fs demo_shell_policy (''find . -ok rm {} '' @ escaped_semicolon)"
  by code_simp

text \<open>Only the first word after \<open>git\<close> is looked at, so a global option hides the subcommand.\<close>

lemma git_global_option_hides_subcommand:
  "\<not> is_command_allowed demo_fs demo_shell_policy ''git push'' \<and>
   is_command_allowed demo_fs demo_shell_policy ''git --no-pager push''"
  by code_simp

text \<open>The injection check looks for a blank after the option; any other white space passes it.\<close>

lemma git_config_injection_by_tab:
  "\<not> is_command_allowed demo_fs demo_shell_policy ''git -c core.sshCommand=sh pull'' \<and>
   is_command_allowed demo_fs demo_shell_policy (''git -c'' @ [CHR 0x09] @ ''core.sshCommand=sh pull'')"
  by code_simp

end
