(* ===== verification/Process_Spawn.thy ===== *)
theory Process_Spawn
  imports Command_Policy
begin

text \<open>
  The policy of child processes started outside the tool middleware
  (\<open>src/src/security/process_spawn.rs\<close>): an executable and a list of arguments are checked by
  building a command line and asking the command policy, which splits it at white space again.
\<close>

datatype process_spawn_class = ToolEquivalent | ExternalConnector | OperatorPlane

fun class_str :: "process_spawn_class \<Rightarrow> rstr" where
  "class_str ToolEquivalent = ''tool_equivalent''"
| "class_str ExternalConnector = ''external_connector''"
| "class_str OperatorPlane = ''operator_plane''"

datatype spawn_refusal =
  ReadOnlyForbids rstr rstr
| InvalidExecutable rstr
| NotAllowlisted rstr rstr rstr
| ArgumentNullByte rstr rstr
| ArgumentWhitespace rstr rstr
| ArgumentsDenied rstr rstr rstr

definition normalize_executable_name :: "rstr \<Rightarrow> rstr option" where
  "normalize_executable_name command =
     (let command = trim command in
      if command = [] then None
      else if contains command ''/'' \<or> contains command [BSLASH] then None
      else Some command)"

text \<open>\<open>chars().any(char::is_whitespace)\<close>.\<close>

fun has_whitespace :: "rstr \<Rightarrow> bool" where
  "has_whitespace [] = False"
| "has_whitespace (c # s) = (ws_len (c # s) \<noteq> 0 \<or> has_whitespace s)"

fun check_spawn_args :: "rstr \<Rightarrow> process_spawn_class \<Rightarrow> rstr list \<Rightarrow> (spawn_refusal, unit) result" where
  "check_spawn_args route cls [] = Ok ()"
| "check_spawn_args route cls (a # as) =
     (if contains a [NUL] then Err (ArgumentNullByte route (class_str cls))
      else if has_whitespace a then Err (ArgumentWhitespace route (class_str cls))
      else check_spawn_args route cls as)"

definition spawn_command_line :: "rstr \<Rightarrow> rstr list \<Rightarrow> rstr" where
  "spawn_command_line executable args = foldl (\<lambda>line a. line @ '' '' @ a) executable args"

definition enforce_process_spawn_policy_with_args ::
    "fs_env \<Rightarrow> security_policy \<Rightarrow> rstr \<Rightarrow> rstr list \<Rightarrow> rstr \<Rightarrow> process_spawn_class
       \<Rightarrow> (spawn_refusal, unit) result" where
  "enforce_process_spawn_policy_with_args env p command args route cls =
     (if \<not> can_act p then Err (ReadOnlyForbids route (class_str cls))
      else (case normalize_executable_name command of
        None \<Rightarrow> Err (InvalidExecutable route)
      | Some executable \<Rightarrow>
          if executable \<notin> set (allowed_commands p)
          then Err (NotAllowlisted executable route (class_str cls))
          else (case check_spawn_args route cls args of
            Err e \<Rightarrow> Err e
          | Ok _ \<Rightarrow>
              let line = spawn_command_line executable args in
              if \<not> is_command_allowed env p line
              then Err (ArgumentsDenied line route (class_str cls))
              else Ok ())))"

definition enforce_spawn_policy ::
    "fs_env \<Rightarrow> security_policy \<Rightarrow> rstr \<Rightarrow> rstr \<Rightarrow> process_spawn_class \<Rightarrow> (spawn_refusal, unit) result" where
  "enforce_spawn_policy env p command route cls =
     enforce_process_spawn_policy_with_args env p command [] route cls"

subsection \<open>The line that is checked has the words that are run\<close>

lemma space_ws: "ws_len (CHR '' '' # s) = 1"
  by (rule ascii_ws_ws_len) (simp add: is_ascii_ws_def)

lemma space_lead: "ws_lead (CHR '' '')"
  by (simp add: ws_lead_def is_ascii_ws_def)

lemma split_ws_word_space:
  "\<not> has_whitespace a \<Longrightarrow>
   split_ws_from w (a @ CHR '' '' # s) = (if w = [] \<and> a = [] then [] else [rev w @ a]) @ split_ws_from [] s"
proof (induction a arbitrary: w)
  case Nil
  then show ?case by (simp add: split_ws_from_ws space_ws)
next
  case (Cons c a)
  have "ws_len ((c # a) @ CHR '' '' # s) = 0"
    by (rule ws_len_append_lead) (use Cons.prems space_lead in simp_all)
  with Cons show ?case by (simp add: split_ws_from_char)
qed

lemma split_ws_word: "\<not> has_whitespace a \<Longrightarrow> split_ws_from w a = (if w = [] \<and> a = [] then [] else [rev w @ a])"
  by (induction a arbitrary: w) (auto simp: split_ws_from_char)

lemma spawn_command_line_Cons:
  "spawn_command_line x (a # as) = spawn_command_line (x @ '' '' @ a) as"
  by (simp add: spawn_command_line_def)

lemma spawn_command_line_join: "spawn_command_line x as = x @ concat (map (\<lambda>a. '' '' @ a) as)"
  by (induction as arbitrary: x) (simp_all add: spawn_command_line_def)

lemma words_of_joined:
  "\<not> has_whitespace x \<Longrightarrow> list_all (\<lambda>a. \<not> has_whitespace a) as \<Longrightarrow>
   split_ws_from [] (x @ concat (map (\<lambda>a. '' '' @ a) as)) = filter (\<lambda>a. a \<noteq> []) (x # as)"
proof (induction as arbitrary: x)
  case Nil
  then show ?case by (simp add: split_ws_word)
next
  case (Cons a as)
  then show ?case by (simp add: split_ws_word_space)
qed

lemma check_spawn_args_Ok:
  "check_spawn_args route cls as = Ok () \<longleftrightarrow>
     list_all (\<lambda>a. \<not> contains a [NUL] \<and> \<not> has_whitespace a) as"
  by (induction as) auto

text \<open>What a started child process went through. The policy is not read-only; the executable is
allowlisted and names no directory; and the command line the command policy accepted splits into
exactly the executable and the arguments of the process (empty arguments apart), so no argument can
pass as something else. Every path among those arguments is one the path policy allows.\<close>

theorem spawned_process_checked:
  assumes "enforce_process_spawn_policy_with_args env p command args route cls = Ok ()"
    and "\<not> has_whitespace (trim command)"
  shows "autonomy p \<noteq> ReadOnly \<and> trim command \<in> set (allowed_commands p) \<and>
    CHR ''/'' \<notin> set (trim command) \<and>
    split_whitespace (spawn_command_line (trim command) args) =
      trim command # filter (\<lambda>a. a \<noteq> []) args \<and>
    is_command_allowed env p (spawn_command_line (trim command) args)"
proof -
  have x: "trim command \<noteq> []" "\<not> contains (trim command) ''/''" "can_act p"
    "trim command \<in> set (allowed_commands p)" "check_spawn_args route cls args = Ok ()"
    "is_command_allowed env p (spawn_command_line (trim command) args)"
    using assms(1)
    by (auto simp: enforce_process_spawn_policy_with_args_def normalize_executable_name_def Let_def
        split: if_splits sum.splits)
  have "split_whitespace (spawn_command_line (trim command) args) =
      filter (\<lambda>a. a \<noteq> []) (trim command # args)"
    unfolding split_whitespace_def spawn_command_line_join
    by (rule words_of_joined) (use assms(2) x(5) in \<open>auto simp: check_spawn_args_Ok list_all_iff\<close>)
  then show ?thesis using x by (simp add: can_act_def contains_char)
qed

theorem spawned_process_checked_witness:
  "split_whitespace (spawn_command_line ''cat'' [''a'', ''b'']) = [''cat'', ''a'', ''b'']"
proof -
  have e: "enforce_process_spawn_policy_with_args demo_fs demo_shell_policy ''cat'' [''a'', ''b'']
      ''r'' ToolEquivalent = Ok ()" and w: "\<not> has_whitespace (trim ''cat'')" and t: "trim ''cat'' = ''cat''"
    by code_simp+
  from spawned_process_checked [OF e w] show ?thesis by (simp add: t)
qed

end
