(* ===== verification/Governance.thy ===== *)
theory Governance
  imports Contracts "HOL-Library.List_Lexorder" "HOL-Library.Char_ord"
begin

text \<open>
  The governance matrix (\<open>src/src/security/governance.rs\<close>), the risk classes of tools
  (\<open>src/src/security/approval/types.rs\<close>) and the taint lattice that feeds the matrix
  (\<open>src/src/security/taint\<close>).
\<close>

subsection \<open>Taint labels and their propagation\<close>

datatype taint_label = ExternalNetwork | UserInput | Pii | Secret | UntrustedAgent

definition taint_display :: "taint_label \<Rightarrow> rstr" where
  "taint_display l =
     (case l of ExternalNetwork \<Rightarrow> ''external_network'' | UserInput \<Rightarrow> ''user_input'' | Pii \<Rightarrow> ''pii''
      | Secret \<Rightarrow> ''secret'' | UntrustedAgent \<Rightarrow> ''untrusted_agent'')"

type_synonym taint_set = "taint_label set"

definition taint_from_labels :: "taint_label list \<Rightarrow> taint_set" where
  "taint_from_labels ls = set ls"

definition taint_merge :: "taint_set \<Rightarrow> taint_set \<Rightarrow> taint_set" where
  "taint_merge self other = self \<union> other"

definition taint_to_string_vec :: "taint_set \<Rightarrow> rstr list" where
  "taint_to_string_vec s = sorted_list_of_set (taint_display ` s)"

definition taint_set_display :: "taint_set \<Rightarrow> rstr" where
  "taint_set_display s =
     (let labels = taint_to_string_vec s in if labels = [] then ''(none)'' else join '', '' labels)"

record taint_rule =
  input_label :: taint_label
  output_label :: taint_label

definition network_tools :: "rstr list" where
  "network_tools =
     [''browser'', ''browser_open'', ''web_fetch'', ''web_search'', ''web_scrape'', ''websearch'',
      ''duckduckgo_search'', ''composio'']"

definition default_taint_rules :: "taint_rule list" where
  "default_taint_rules =
     [\<lparr>input_label = ExternalNetwork, output_label = ExternalNetwork\<rparr>,
      \<lparr>input_label = UserInput, output_label = UserInput\<rparr>,
      \<lparr>input_label = Pii, output_label = Pii\<rparr>,
      \<lparr>input_label = Secret, output_label = Secret\<rparr>,
      \<lparr>input_label = UntrustedAgent, output_label = UntrustedAgent\<rparr>]"

definition apply_taint_rule :: "taint_set \<Rightarrow> taint_rule \<Rightarrow> taint_set \<Rightarrow> taint_set" where
  "apply_taint_rule input rule output =
     (if input_label rule \<in> input then insert (output_label rule) output else output)"

definition is_network_tool :: "rstr \<Rightarrow> bool" where
  "is_network_tool tool \<longleftrightarrow> tool \<in> set network_tools \<or> starts_with tool ''mcp_''"

definition propagate :: "taint_set \<Rightarrow> rstr \<Rightarrow> taint_set" where
  "propagate input tool =
     (let output = fold (apply_taint_rule input) default_taint_rules {}
      in if is_network_tool tool then insert ExternalNetwork output else output)"

subsection \<open>Trust, risk and verdicts\<close>

datatype trust_level = FirstSeen | Sandboxed | Restricted | Trusted | Verified
datatype risk_level = Low | Medium | High
datatype autonomy_verdict = Allow | Warn | Deny

definition trust_label :: "trust_level \<Rightarrow> rstr" where
  "trust_label t =
     (case t of FirstSeen \<Rightarrow> ''first_seen'' | Sandboxed \<Rightarrow> ''sandboxed'' | Restricted \<Rightarrow> ''restricted''
      | Trusted \<Rightarrow> ''trusted'' | Verified \<Rightarrow> ''verified'')"

text \<open>The derived orders compare the positions of the variants in their declarations.\<close>

definition trust_rank :: "trust_level \<Rightarrow> nat" where
  "trust_rank t = (case t of FirstSeen \<Rightarrow> 0 | Sandboxed \<Rightarrow> 1 | Restricted \<Rightarrow> 2 | Trusted \<Rightarrow> 3 | Verified \<Rightarrow> 4)"

definition risk_rank :: "risk_level \<Rightarrow> nat" where
  "risk_rank r = (case r of Low \<Rightarrow> 0 | Medium \<Rightarrow> 1 | High \<Rightarrow> 2)"

definition verdict_rank :: "autonomy_verdict \<Rightarrow> nat" where
  "verdict_rank v = (case v of Allow \<Rightarrow> 0 | Warn \<Rightarrow> 1 | Deny \<Rightarrow> 2)"

lemma rank_inj: "trust_rank t = trust_rank t' \<Longrightarrow> t = t'" "risk_rank r = risk_rank r' \<Longrightarrow> r = r'"
  "verdict_rank v = verdict_rank v' \<Longrightarrow> v = v'"
  by (auto simp: trust_rank_def risk_rank_def verdict_rank_def
      split: trust_level.splits risk_level.splits autonomy_verdict.splits)

instantiation trust_level :: linorder
begin

definition less_eq_trust_level :: "trust_level \<Rightarrow> trust_level \<Rightarrow> bool" where
  "less_eq_trust_level a b \<longleftrightarrow> trust_rank a \<le> trust_rank b"

definition less_trust_level :: "trust_level \<Rightarrow> trust_level \<Rightarrow> bool" where
  "less_trust_level a b \<longleftrightarrow> trust_rank a < trust_rank b"

instance
  by intro_classes (auto simp: less_eq_trust_level_def less_trust_level_def intro: rank_inj)

end

instantiation risk_level :: linorder
begin

definition less_eq_risk_level :: "risk_level \<Rightarrow> risk_level \<Rightarrow> bool" where
  "less_eq_risk_level a b \<longleftrightarrow> risk_rank a \<le> risk_rank b"

definition less_risk_level :: "risk_level \<Rightarrow> risk_level \<Rightarrow> bool" where
  "less_risk_level a b \<longleftrightarrow> risk_rank a < risk_rank b"

instance
  by intro_classes (auto simp: less_eq_risk_level_def less_risk_level_def intro: rank_inj)

end

instantiation autonomy_verdict :: linorder
begin

definition less_eq_autonomy_verdict :: "autonomy_verdict \<Rightarrow> autonomy_verdict \<Rightarrow> bool" where
  "less_eq_autonomy_verdict a b \<longleftrightarrow> verdict_rank a \<le> verdict_rank b"

definition less_autonomy_verdict :: "autonomy_verdict \<Rightarrow> autonomy_verdict \<Rightarrow> bool" where
  "less_autonomy_verdict a b \<longleftrightarrow> verdict_rank a < verdict_rank b"

instance
  by intro_classes (auto simp: less_eq_autonomy_verdict_def less_autonomy_verdict_def intro: rank_inj)

end

record governance_trust_state =
  gs_trust_level :: trust_level
  gs_risk_level :: risk_level
  gs_taint_labels :: "taint_label list"

record governance_decision =
  verdict :: autonomy_verdict
  trust_state :: governance_trust_state
  rationale :: rstr
  decided_at :: rstr

definition base_verdict :: "trust_level \<Rightarrow> risk_level \<Rightarrow> autonomy_verdict" where
  "base_verdict t r =
     (case (t, r) of
        (FirstSeen, Medium) \<Rightarrow> Deny
      | (FirstSeen, High) \<Rightarrow> Deny
      | (Sandboxed, High) \<Rightarrow> Deny
      | (Restricted, High) \<Rightarrow> Deny
      | (FirstSeen, Low) \<Rightarrow> Warn
      | (Sandboxed, Low) \<Rightarrow> Warn
      | (Sandboxed, Medium) \<Rightarrow> Warn
      | (Restricted, Medium) \<Rightarrow> Warn
      | (Trusted, High) \<Rightarrow> Warn
      | (Restricted, Low) \<Rightarrow> Allow
      | (Trusted, Low) \<Rightarrow> Allow
      | (Trusted, Medium) \<Rightarrow> Allow
      | (Verified, _) \<Rightarrow> Allow)"

definition has_sensitive_taint :: "taint_label list \<Rightarrow> bool" where
  "has_sensitive_taint labels = list_ex (\<lambda>t. t = Secret \<or> t = UntrustedAgent \<or> t = Pii) labels"

definition trust_debug :: "trust_level \<Rightarrow> rstr" where
  "trust_debug t =
     (case t of FirstSeen \<Rightarrow> ''FirstSeen'' | Sandboxed \<Rightarrow> ''Sandboxed'' | Restricted \<Rightarrow> ''Restricted''
      | Trusted \<Rightarrow> ''Trusted'' | Verified \<Rightarrow> ''Verified'')"

definition risk_debug :: "risk_level \<Rightarrow> rstr" where
  "risk_debug r = (case r of Low \<Rightarrow> ''Low'' | Medium \<Rightarrow> ''Medium'' | High \<Rightarrow> ''High'')"

definition verdict_debug :: "autonomy_verdict \<Rightarrow> rstr" where
  "verdict_debug v = (case v of Allow \<Rightarrow> ''Allow'' | Warn \<Rightarrow> ''Warn'' | Deny \<Rightarrow> ''Deny'')"

text \<open>\<open>now\<close> is the time stamp put into the decision.\<close>

definition evaluate_governance :: "rstr \<Rightarrow> governance_trust_state \<Rightarrow> governance_decision" where
  "evaluate_governance now st =
     (let base = base_verdict (gs_trust_level st) (gs_risk_level st);
          sensitive = has_sensitive_taint (gs_taint_labels st);
          v = (if sensitive \<and> base = Allow then Warn else base);
          suffix_text = '' for trust '' @ trust_debug (gs_trust_level st) @ '' at risk '' @
                        risk_debug (gs_risk_level st);
          why = (if sensitive \<and> v \<noteq> base
                 then ''governance verdict '' @ verdict_debug v @ '' (escalated from '' @
                      verdict_debug base @ '' due to sensitive taint)'' @ suffix_text
                 else ''governance verdict '' @ verdict_debug v @ suffix_text)
      in \<lparr>verdict = v, trust_state = st, rationale = why, decided_at = now\<rparr>)"

subsection \<open>Risk classes of tools\<close>

definition classify_risk :: "rstr \<Rightarrow> risk_level" where
  "classify_risk tool =
     (if tool = ''shell'' \<or> tool = ''composio'' then High
      else if tool = ''codespace'' then Medium
      else if starts_with tool ''mcp_'' then High
      else if tool \<in> set [''file_write'', ''memory_forget'', ''memory_governance'', ''delegate'',
                         ''subagent_spawn'', ''subagent_output'', ''subagent_cancel''] then Medium
      else Low)"

definition sensitive_path_patterns :: "rstr list" where
  "sensitive_path_patterns =
     [''/etc/shadow'', ''/etc/passwd'', ''/etc/sudoers'', ''.env'', ''.ssh/'', ''id_rsa'', ''id_ed25519'',
      ''.gnupg/'', ''credentials'', ''.netrc'', ''.pgpass'', ''config.toml'']"

text \<open>\<open>path_arg\<close> is the string member \<open>path\<close> of the arguments, if there is one.\<close>

definition classify_risk_args :: "rstr \<Rightarrow> rstr option \<Rightarrow> risk_level" where
  "classify_risk_args tool path_arg =
     (let base = classify_risk tool in
      case path_arg of
        Some path \<Rightarrow>
          if tool = ''file_read'' \<and> base = Low \<and>
             list_ex (\<lambda>pat. contains (to_lowercase path) pat) sensitive_path_patterns
          then Medium else base
      | None \<Rightarrow> base)"

subsection \<open>Taint only grows\<close>

lemma taint_label_cases: "l \<in> {ExternalNetwork, UserInput, Pii, Secret, UntrustedAgent}"
  by (cases l) auto

lemma propagate_eq:
  "propagate input tool = input \<union> (if is_network_tool tool then {ExternalNetwork} else {})"
proof -
  have "l \<in> fold (apply_taint_rule input) default_taint_rules {} \<longleftrightarrow> l \<in> input" for l
    by (cases l) (auto simp: default_taint_rules_def apply_taint_rule_def)
  then show ?thesis by (auto simp: propagate_def Let_def)
qed

text \<open>No chain of tools launders taint. The labels of a result that went through any sequence of
  tools are exactly the labels of the initial data together with the external-network label when
  one of the tools crosses the network boundary.\<close>

theorem taint_never_laundered:
  "fold (\<lambda>tool taints. propagate taints tool) tools input =
     input \<union> (if list_ex is_network_tool tools then {ExternalNetwork} else {})"
  by (induction tools arbitrary: input) (auto simp: propagate_eq)

subsection \<open>The governance matrix\<close>

lemmas rank_defs = less_eq_trust_level_def less_eq_risk_level_def less_eq_autonomy_verdict_def
  less_trust_level_def less_risk_level_def less_autonomy_verdict_def trust_rank_def risk_rank_def
  verdict_rank_def

lemma base_verdict_mono: "t \<le> t' \<Longrightarrow> r' \<le> r \<Longrightarrow> base_verdict t' r' \<le> base_verdict t r"
  by (cases t; cases t'; cases r; cases r') (simp_all add: base_verdict_def rank_defs)

lemma verdict_eq:
  "verdict (evaluate_governance now st) =
     max (base_verdict (gs_trust_level st) (gs_risk_level st))
         (if has_sensitive_taint (gs_taint_labels st) then Warn else Allow)"
  by (cases "base_verdict (gs_trust_level st) (gs_risk_level st)")
    (auto simp: evaluate_governance_def Let_def max_def rank_defs)

text \<open>Governance is monotone. With at least as much trust, at most as much risk and no further
  taint labels, the verdict is at most as strict; taint can raise an allowed action to a warning
  and changes nothing else. In the derived order of the verdicts allowing is below warning and
  warning below denying.\<close>

theorem governance_monotone:
  assumes "gs_trust_level st \<le> gs_trust_level st'" "gs_risk_level st' \<le> gs_risk_level st"
    and "set (gs_taint_labels st') \<subseteq> set (gs_taint_labels st)"
  shows "verdict (evaluate_governance now st') \<le> verdict (evaluate_governance now' st) \<and>
    verdict (evaluate_governance now' st) =
      max (base_verdict (gs_trust_level st) (gs_risk_level st))
          (if has_sensitive_taint (gs_taint_labels st) then Warn else Allow) \<and>
    Allow < Warn \<and> Warn < Deny"
proof -
  have ord: "Allow \<le> Warn" "Allow < Warn" "Warn < Deny" by (simp_all add: rank_defs)
  have "has_sensitive_taint (gs_taint_labels st') \<Longrightarrow> has_sensitive_taint (gs_taint_labels st)"
    using assms(3) by (auto simp: has_sensitive_taint_def list_ex_iff)
  then have "(if has_sensitive_taint (gs_taint_labels st') then Warn else Allow)
      \<le> (if has_sensitive_taint (gs_taint_labels st) then Warn else Allow)"
    using ord by simp
  from max.mono [OF base_verdict_mono [OF assms(1,2)] this] ord show ?thesis
    by (simp only: verdict_eq)
qed

theorem governance_monotone_witness:
  "verdict (evaluate_governance [] \<lparr>gs_trust_level = Verified, gs_risk_level = Low, gs_taint_labels = []\<rparr>)
     \<le> verdict (evaluate_governance [] \<lparr>gs_trust_level = Trusted, gs_risk_level = Low, gs_taint_labels = [Pii]\<rparr>)"
proof -
  have "Trusted \<le> Verified" by (simp add: rank_defs)
  then show ?thesis by (intro governance_monotone [THEN conjunct1]) simp_all
qed

lemma classify_risk_args_ge: "classify_risk tool \<le> classify_risk_args tool path"
  by (auto simp: classify_risk_args_def Let_def rank_defs split: option.splits)

end
