(* ===== verification/Tool_Policy.thy ===== *)
theory Tool_Policy
  imports Contracts
begin

text \<open>
  Capabilities and effect classes of tools (\<open>src/src/security/capability.rs\<close>,
  \<open>src/src/contracts/tools.rs\<close>), and the rule engine that decides tool calls
  (\<open>src/src/security/tool_policy\<close>).
\<close>

subsection \<open>Capabilities\<close>

datatype capability =
  Filesystem | Network | Shell | MemoryWrite | ExternalAction | CognitiveRead | CognitiveWrite | Unrestricted

type_synonym capability_set = "capability set"

definition capability_display :: "capability \<Rightarrow> rstr" where
  "capability_display c =
     (case c of Filesystem \<Rightarrow> ''filesystem'' | Network \<Rightarrow> ''network'' | Shell \<Rightarrow> ''shell''
      | MemoryWrite \<Rightarrow> ''memory_write'' | ExternalAction \<Rightarrow> ''external_action''
      | CognitiveRead \<Rightarrow> ''cognitive_read'' | CognitiveWrite \<Rightarrow> ''cognitive_write''
      | Unrestricted \<Rightarrow> ''unrestricted'')"

definition capabilities_all :: capability_set where
  "capabilities_all =
     {Filesystem, Network, Shell, MemoryWrite, ExternalAction, CognitiveRead, CognitiveWrite, Unrestricted}"

definition capability_contains :: "capability_set \<Rightarrow> capability \<Rightarrow> bool" where
  "capability_contains granted cap \<longleftrightarrow> Unrestricted \<in> granted \<or> cap \<in> granted"

definition check_capabilities ::
  "capability list \<Rightarrow> capability_set \<Rightarrow> (capability list, unit) result" where
  "check_capabilities required granted =
     (let missing = filter (\<lambda>cap. \<not> capability_contains granted cap) required
      in if missing = [] then Ok () else Err missing)"

subsection \<open>Effects\<close>

datatype tool_effect = EffReadOnly | LocalMutation | Destructive | RemoteAction

definition classify_effect :: "rstr \<Rightarrow> tool_effect" where
  "classify_effect tool =
     (if tool \<in> set [''file_read'', ''memory_recall'', ''memory_lookup'', ''memory_search'',
          ''introspect_affect'', ''introspect_persona'', ''introspect_relationship'',
          ''introspect_self_model'', ''introspect_principles'', ''introspect_experience'',
          ''evaluate_consistency''] then EffReadOnly
      else if tool = ''shell'' then Destructive
      else if tool \<in> set [''web_fetch'', ''web_search'', ''web_scrape'', ''duckduckgo_search'',
          ''browser'', ''browser_open'', ''composio'', ''email_send'', ''channel_create_thread'',
          ''channel_add_reaction'', ''channel_send_rich'', ''channel_get_history'',
          ''channel_send_embed''] then RemoteAction
      else if starts_with tool ''mcp_'' then RemoteAction
      else LocalMutation)"

definition is_high_risk_effect :: "tool_effect \<Rightarrow> bool" where
  "is_high_risk_effect e \<longleftrightarrow> e = Destructive \<or> e = RemoteAction"

subsection \<open>Rules\<close>

datatype policy_decision_rule = RuleDeny | RuleAsk | RuleAllow

record policy_rule =
  rule_tool :: rstr
  rule_subject :: rstr
  rule_decision :: policy_decision_rule
  rule_reason :: rstr

record tool_pattern =
  pat_tool :: rstr
  pat_subject :: rstr

definition tool_pattern_new :: "rstr \<Rightarrow> rstr \<Rightarrow> tool_pattern" where
  "tool_pattern_new tool subject = \<lparr>pat_tool = tool, pat_subject = subject\<rparr>"

text \<open>The star alone, a prefix followed by a star, or the exact text.\<close>

definition glob_matches :: "rstr \<Rightarrow> rstr \<Rightarrow> bool" where
  "glob_matches pat s =
     (if pat = ''*'' then True
      else (case strip_suffix ''*'' pat of
              Some p \<Rightarrow> starts_with s p
            | None \<Rightarrow> pat = s))"

definition matches_tool :: "tool_pattern \<Rightarrow> rstr \<Rightarrow> bool" where
  "matches_tool p tool = glob_matches (pat_tool p) tool"

definition matches_subject :: "tool_pattern \<Rightarrow> rstr \<Rightarrow> bool" where
  "matches_subject p args_summary = glob_matches (pat_subject p) args_summary"

definition pattern_matches_call :: "tool_pattern \<Rightarrow> rstr \<Rightarrow> rstr \<Rightarrow> bool" where
  "pattern_matches_call p tool args_summary \<longleftrightarrow> matches_tool p tool \<and> matches_subject p args_summary"

definition rule_matches :: "policy_rule \<Rightarrow> rstr \<Rightarrow> rstr \<Rightarrow> bool" where
  "rule_matches r tool args_summary =
     pattern_matches_call (tool_pattern_new (rule_tool r) (rule_subject r)) tool args_summary"

definition ruleset_evaluate :: "policy_rule list \<Rightarrow> rstr \<Rightarrow> rstr \<Rightarrow> policy_rule option" where
  "ruleset_evaluate rules tool args_summary = List.find (\<lambda>r. rule_matches r tool args_summary) rules"

text \<open>\<open>file\<close>: the policy file, \<open>None\<close> if it does not exist, with \<open>parse\<close> the TOML decoder.\<close>

datatype 'e load_error = ReadFailed | ParseFailed 'e

definition load_from_file ::
  "(rstr \<Rightarrow> ('e, policy_rule list) result) \<Rightarrow> rstr option option \<Rightarrow> ('e load_error, policy_rule list) result" where
  "load_from_file parse file =
     (case file of
        None \<Rightarrow> Ok []
      | Some None \<Rightarrow> Err ReadFailed
      | Some (Some content) \<Rightarrow>
          (case parse content of Inl e \<Rightarrow> Err (ParseFailed e) | Inr rules \<Rightarrow> Ok rules))"

subsection \<open>The engine\<close>

definition read_only_tools :: "rstr list" where
  "read_only_tools =
     [''file_read'', ''memory_recall'', ''memory_lookup'', ''introspect_affect'',
      ''introspect_relationship'', ''introspect_self_model'', ''introspect_principles'',
      ''introspect_experience'', ''subagent_output'']"

definition is_read_only_tool :: "rstr \<Rightarrow> bool" where
  "is_read_only_tool tool \<longleftrightarrow> tool \<in> set read_only_tools"

definition supervised_fallback_approval_reason :: rstr where
  "supervised_fallback_approval_reason =
     ''approval required: supervised fallback (no matching policy rule or permission grant)''"

datatype policy_decision_kind = DecAllow | DecDeny | DecRequireApproval

datatype policy_source =
  FromDenyRule | FromAskRule | FromAllowRule | FromPermissionGrant | FromAutonomyFallback | FromDefaultDeny

record policy_evaluation =
  ev_decision :: policy_decision_kind
  ev_source :: policy_source
  ev_reason :: rstr

definition reason_or :: "policy_rule \<Rightarrow> rstr \<Rightarrow> rstr" where
  "reason_or r text_prefix = (if rule_reason r = [] then text_prefix @ rule_tool r else rule_reason r)"

definition engine_evaluate ::
  "policy_rule list \<Rightarrow> rstr \<Rightarrow> rstr \<Rightarrow> bool \<Rightarrow> autonomy_level \<Rightarrow> policy_evaluation" where
  "engine_evaluate rules tool args_summary has_grant level =
     (case ruleset_evaluate rules tool args_summary of
        Some r \<Rightarrow>
          (case rule_decision r of
             RuleDeny \<Rightarrow> \<lparr>ev_decision = DecDeny, ev_source = FromDenyRule,
                          ev_reason = reason_or r ''denied by policy rule: tool=''\<rparr>
           | RuleAsk \<Rightarrow> \<lparr>ev_decision = DecRequireApproval, ev_source = FromAskRule,
                         ev_reason = reason_or r ''approval required by policy rule: tool=''\<rparr>
           | RuleAllow \<Rightarrow> \<lparr>ev_decision = DecAllow, ev_source = FromAllowRule,
                           ev_reason = reason_or r ''allowed by policy rule: tool=''\<rparr>)
      | None \<Rightarrow>
          if has_grant
          then \<lparr>ev_decision = DecAllow, ev_source = FromPermissionGrant,
                ev_reason = ''allowed by permission grant''\<rparr>
          else (case level of
             ReadOnly \<Rightarrow> \<lparr>ev_decision = DecDeny, ev_source = FromAutonomyFallback,
                          ev_reason = ''read-only autonomy level''\<rparr>
           | Supervised \<Rightarrow> \<lparr>ev_decision = DecRequireApproval, ev_source = FromAutonomyFallback,
                            ev_reason = supervised_fallback_approval_reason\<rparr>
           | Full \<Rightarrow> \<lparr>ev_decision = DecAllow, ev_source = FromAutonomyFallback,
                      ev_reason = ''autonomous mode''\<rparr>))"

subsection \<open>Properties of capabilities\<close>

lemma check_capabilities_Ok:
  "check_capabilities required granted = Ok () \<longleftrightarrow> (\<forall>c \<in> set required. capability_contains granted c)"
  by (auto simp: check_capabilities_def Let_def filter_empty_conv)

text \<open>A capability check passes exactly when every required capability is covered by the grant,
  a failure lists exactly the uncovered requirements in their order, the full set covers every
  requirement, and a context that grants more never fails where one that grants less passes.\<close>

theorem check_capabilities_spec:
  "(check_capabilities required granted = Ok () \<longleftrightarrow> list_all (capability_contains granted) required) \<and>
   (check_capabilities required granted = Err missing \<longleftrightarrow>
      missing \<noteq> [] \<and> missing = filter (\<lambda>c. Unrestricted \<notin> granted \<and> c \<notin> granted) required) \<and>
   check_capabilities required capabilities_all = Ok () \<and>
   (check_capabilities required granted = Ok () \<longrightarrow> check_capabilities required (granted \<union> extra) = Ok ())"
proof -
  have "(\<lambda>c. \<not> capability_contains granted c) = (\<lambda>c. Unrestricted \<notin> granted \<and> c \<notin> granted)"
    by (auto simp: capability_contains_def)
  then have "check_capabilities required granted = Err missing \<longleftrightarrow>
      missing \<noteq> [] \<and> missing = filter (\<lambda>c. Unrestricted \<notin> granted \<and> c \<notin> granted) required"
    by (auto simp: check_capabilities_def Let_def)
  then show ?thesis
    by (auto simp: check_capabilities_Ok list_all_iff capability_contains_def capabilities_all_def)
qed

theorem check_capabilities_spec_witness:
  "check_capabilities [Shell, Network] ({Shell, Network} \<union> {Filesystem}) = Ok ()"
proof -
  have "check_capabilities [Shell, Network] {Shell, Network} = Ok ()" by code_simp
  then show ?thesis
    using check_capabilities_spec [of "[Shell, Network]" "{Shell, Network}" "[]" "{Filesystem}"] by blast
qed

subsection \<open>Properties of the engine\<close>

text \<open>
  The documented precedence: a matching deny rule, then a matching ask rule, then a matching allow
  rule, then a grant, then the autonomy level.
\<close>

definition some_rule :: "policy_decision_rule \<Rightarrow> policy_rule list \<Rightarrow> rstr \<Rightarrow> rstr \<Rightarrow> bool" where
  "some_rule d rules tool s = list_ex (\<lambda>r. rule_decision r = d \<and> rule_matches r tool s) rules"

definition documented_decision ::
  "policy_rule list \<Rightarrow> rstr \<Rightarrow> rstr \<Rightarrow> bool \<Rightarrow> autonomy_level \<Rightarrow> policy_decision_kind" where
  "documented_decision rules tool s has_grant level =
     (if some_rule RuleDeny rules tool s then DecDeny
      else if some_rule RuleAsk rules tool s then DecRequireApproval
      else if some_rule RuleAllow rules tool s then DecAllow
      else if has_grant then DecAllow
      else (case level of ReadOnly \<Rightarrow> DecDeny | Supervised \<Rightarrow> DecRequireApproval | Full \<Rightarrow> DecAllow))"

definition decision_rank :: "policy_decision_rule \<Rightarrow> nat" where
  "decision_rank d = (case d of RuleDeny \<Rightarrow> 0 | RuleAsk \<Rightarrow> 1 | RuleAllow \<Rightarrow> 2)"

lemma some_rule_Cons:
  "some_rule d (r # rules) tool s \<longleftrightarrow> rule_decision r = d \<and> rule_matches r tool s \<or> some_rule d rules tool s"
  by (simp add: some_rule_def)

lemma some_rule_rank:
  "some_rule d rules tool s \<Longrightarrow> \<exists>r \<in> set rules. rule_decision r = d"
  by (auto simp: some_rule_def list_ex_iff)

text \<open>C22: when a policy file lists its deny rules before its ask rules and those before its allow rules,
  the engine decides every call by the documented precedence: deny, ask, allow, grant, autonomy.\<close>

theorem engine_refines_documented_precedence:
  assumes "sorted (map (decision_rank \<circ> rule_decision) rules)"
  shows "ev_decision (engine_evaluate rules tool s has_grant level) =
         documented_decision rules tool s has_grant level"
  using assms
proof (induction rules)
  case Nil
  then show ?case
    by (simp add: engine_evaluate_def ruleset_evaluate_def documented_decision_def some_rule_def
        split: autonomy_level.splits)
next
  case (Cons r rules)
  have later: "decision_rank (rule_decision r) \<le> decision_rank d" if "some_rule d rules tool s" for d
    using Cons.prems some_rule_rank [OF that] by auto
  show ?case
  proof (cases "rule_matches r tool s")
    case True
    then show ?thesis
      using later [of RuleDeny] later [of RuleAsk]
      by (cases "rule_decision r")
        (auto simp: engine_evaluate_def ruleset_evaluate_def documented_decision_def some_rule_Cons
          decision_rank_def)
  next
    case False
    then show ?thesis
      using Cons by (simp add: engine_evaluate_def ruleset_evaluate_def documented_decision_def some_rule_Cons)
  qed
qed

definition demo_rules :: "policy_rule list" where
  "demo_rules =
     [\<lparr>rule_tool = ''shell'', rule_subject = ''rm *'', rule_decision = RuleDeny, rule_reason = []\<rparr>,
      \<lparr>rule_tool = ''*'', rule_subject = ''*'', rule_decision = RuleAllow, rule_reason = []\<rparr>]"

theorem engine_refines_documented_precedence_witness:
  "ev_decision (engine_evaluate demo_rules ''shell'' ''rm -rf x'' True Full) =
   documented_decision demo_rules ''shell'' ''rm -rf x'' True Full"
proof -
  have "sorted (map (decision_rank \<circ> rule_decision) demo_rules)"
    by (simp add: demo_rules_def decision_rank_def)
  then show ?thesis by (rule engine_refines_documented_precedence)
qed

text \<open>In file order the first matching rule decides, whatever rules follow it, so a matching allow
  rule that stands before a matching deny rule overrides it: the call is allowed although a deny
  rule matches.\<close>

theorem earlier_allow_overrides_deny:
  assumes "rule_matches a tool s" "rule_decision a = RuleAllow"
    and "rule_matches d tool s" "rule_decision d = RuleDeny"
  shows "some_rule RuleDeny (a # d # rules) tool s \<and>
    ev_decision (engine_evaluate (a # d # rules) tool s has_grant level) = DecAllow \<and>
    ev_decision (engine_evaluate (d # a # rules) tool s has_grant level) = DecDeny"
  using assms by (simp add: engine_evaluate_def ruleset_evaluate_def some_rule_def)

theorem earlier_allow_overrides_deny_witness:
  "ev_decision (engine_evaluate (rev demo_rules) ''shell'' ''rm -rf x'' False Supervised) = DecAllow"
proof -
  have m: "rule_matches (demo_rules ! 1) ''shell'' ''rm -rf x''" "rule_matches (demo_rules ! 0) ''shell'' ''rm -rf x''"
    "rule_decision (demo_rules ! 1) = RuleAllow" "rule_decision (demo_rules ! 0) = RuleDeny"
    by code_simp+
  have r: "rev demo_rules = [demo_rules ! 1, demo_rules ! 0]" by (simp add: demo_rules_def)
  show ?thesis
    unfolding r using earlier_allow_overrides_deny [OF m(1,3,2,4), of "[]" False Supervised] by blast
qed

text \<open>Without a matching rule and without a grant nothing runs unattended below full autonomy.\<close>

lemma engine_fallback:
  "ruleset_evaluate rules tool s = None \<Longrightarrow>
   ev_decision (engine_evaluate rules tool s False level) = DecAllow \<longleftrightarrow> level = Full"
  by (cases level) (simp_all add: engine_evaluate_def)

end
