(* ===== verification/Permissions.thy ===== *)
theory Permissions
  imports Governance
begin

text \<open>
  The permission store (\<open>src/src/security/permissions.rs\<close>): session and permanent grants with
  the entity and tenant they were given to, the entity allowlists, and the file the permanent
  grants are kept in. The TOML codec and the file system are parameters: what was read, and
  whether the write succeeded.
\<close>

subsection \<open>Grants\<close>

datatype grant_scope = ScopeSession | ScopePermanent

record permission_grant =
  grant_tool :: rstr
  grant_pattern :: rstr
  grant_scope :: grant_scope

record stored_grant =
  sg_tool :: rstr
  sg_pattern :: rstr
  sg_scope :: grant_scope
  sg_granted_at :: rstr
  sg_granted_by :: rstr
  sg_entity_id :: "rstr option"
  sg_tenant_mode_enabled :: "bool option"
  sg_tenant_id :: "rstr option"

record grant_subject =
  gsub_entity_id :: rstr
  gsub_tenant_mode_enabled :: bool
  gsub_tenant_id :: "rstr option"

definition normalize_tenant_id :: "rstr option \<Rightarrow> rstr option" where
  "normalize_tenant_id raw =
     (case raw of None \<Rightarrow> None | Some v \<Rightarrow> if trim v = [] then None else Some (trim v))"

definition subject_from_context :: "rstr \<Rightarrow> tenant_ctx \<Rightarrow> grant_subject" where
  "subject_from_context entity_id ctx =
     \<lparr>gsub_entity_id = trim entity_id, gsub_tenant_mode_enabled = tenant_mode_enabled ctx,
      gsub_tenant_id = normalize_tenant_id (tenant_id ctx)\<rparr>"

definition subject_from_stored :: "stored_grant \<Rightarrow> grant_subject option" where
  "subject_from_stored g =
     (case sg_entity_id g of
        None \<Rightarrow> None
      | Some e \<Rightarrow>
          if trim e = [] then None
          else let tid = normalize_tenant_id (sg_tenant_id g)
               in Some \<lparr>gsub_entity_id = trim e,
                        gsub_tenant_mode_enabled =
                          (case sg_tenant_mode_enabled g of Some b \<Rightarrow> b | None \<Rightarrow> tid \<noteq> None),
                        gsub_tenant_id = tid\<rparr>)"

definition matches_context :: "grant_subject \<Rightarrow> rstr \<Rightarrow> tenant_ctx \<Rightarrow> bool" where
  "matches_context s entity_id ctx \<longleftrightarrow> s = subject_from_context entity_id ctx"

record scoped_grant =
  sc_grant :: permission_grant
  sc_subject :: grant_subject

definition stored_to_scoped_grant :: "stored_grant \<Rightarrow> scoped_grant option" where
  "stored_to_scoped_grant g =
     map_option
       (\<lambda>subject. \<lparr>sc_grant = \<lparr>grant_tool = sg_tool g, grant_pattern = sg_pattern g, grant_scope = sg_scope g\<rparr>,
                   sc_subject = subject\<rparr>)
       (subject_from_stored g)"

text \<open>
  A star matches everything; a pattern ending in blank and star a longer text with the blank;
  otherwise a trailing star works only after a blank or a path separator.
\<close>

definition pattern_matches :: "rstr \<Rightarrow> rstr \<Rightarrow> bool" where
  "pattern_matches pat s =
     (if pat = ''*'' then True
      else (case strip_suffix '' *'' pat of
              Some p \<Rightarrow> starts_with s p \<and> length p < length s \<and> s ! length p = CHR '' ''
            | None \<Rightarrow>
                (case strip_suffix ''*'' pat of
                   Some p \<Rightarrow>
                     if p = [] \<or> ends_with p '' '' \<or> ends_with p ''/'' \<or> ends_with p [CHR 0x5C]
                     then starts_with s p else pat = s
                 | None \<Rightarrow> pat = s)))"

subsection \<open>The store\<close>

record permission_store =
  session_grants :: "scoped_grant list"
  permanent_grants :: "scoped_grant list"
  permanent_records :: "stored_grant list"
  entity_allowlists :: "rstr \<rightharpoonup> rstr set"

datatype file_read = ReadContent rstr | ReadNotFound | ReadError

text \<open>The grants read from the file, with \<open>parse\<close> the TOML decoder.\<close>

definition load_permission_file :: "(rstr \<Rightarrow> stored_grant list option) \<Rightarrow> file_read \<Rightarrow> stored_grant list" where
  "load_permission_file parse file =
     (case file of
        ReadContent content \<Rightarrow>
          if trim content = [] then []
          else (case parse content of Some grants \<Rightarrow> grants | None \<Rightarrow> [])
      | ReadNotFound \<Rightarrow> []
      | ReadError \<Rightarrow> [])"

definition store_load :: "(rstr \<Rightarrow> stored_grant list option) \<Rightarrow> file_read \<Rightarrow> permission_store" where
  "store_load parse file =
     (let grants = load_permission_file parse file
      in \<lparr>session_grants = [], permanent_grants = List.map_filter stored_to_scoped_grant grants,
          permanent_records = grants, entity_allowlists = Map.empty\<rparr>)"

definition set_entity_allowlist :: "rstr \<Rightarrow> rstr set option \<Rightarrow> permission_store \<Rightarrow> permission_store" where
  "set_entity_allowlist entity_id allowlist st =
     st\<lparr>entity_allowlists := (entity_allowlists st)(entity_id := allowlist)\<rparr>"

datatype grant_error =
  EmptyTool | EmptyPattern | EmptyEntity | WildcardHighRisk rstr | NotInAllowlist rstr rstr | PersistFailed

text \<open>\<open>now\<close> is the time stamp of the record, \<open>persist_ok\<close> whether writing the file succeeded.\<close>

definition add_grant ::
  "rstr \<Rightarrow> (stored_grant list \<Rightarrow> bool) \<Rightarrow> permission_grant \<Rightarrow> rstr \<Rightarrow> tenant_ctx \<Rightarrow> permission_store \<Rightarrow>
   permission_store \<times> (grant_error, unit) result" where
  "add_grant now persist_ok g entity_id ctx st =
     (if trim (grant_tool g) = [] then (st, Err EmptyTool)
      else if trim (grant_pattern g) = [] then (st, Err EmptyPattern)
      else let subject = subject_from_context entity_id ctx in
        if gsub_entity_id subject = [] then (st, Err EmptyEntity)
        else if grant_pattern g = ''*'' \<and> classify_risk (grant_tool g) = High
        then (st, Err (WildcardHighRisk (grant_tool g)))
        else if (case entity_allowlists st (gsub_entity_id subject) of
                   Some allowed \<Rightarrow> grant_tool g \<notin> allowed | None \<Rightarrow> False)
        then (st, Err (NotInAllowlist (grant_tool g) (gsub_entity_id subject)))
        else (case grant_scope g of
           ScopeSession \<Rightarrow>
             (st\<lparr>session_grants := session_grants st @ [\<lparr>sc_grant = g, sc_subject = subject\<rparr>]\<rparr>, Ok ())
         | ScopePermanent \<Rightarrow>
             let rec =
                   \<lparr>sg_tool = grant_tool g, sg_pattern = grant_pattern g, sg_scope = ScopePermanent,
                    sg_granted_at = now, sg_granted_by = gsub_entity_id subject,
                    sg_entity_id = Some (gsub_entity_id subject),
                    sg_tenant_mode_enabled = Some (gsub_tenant_mode_enabled subject),
                    sg_tenant_id = gsub_tenant_id subject\<rparr>;
                 next_records = permanent_records st @ [rec]
             in if \<not> persist_ok next_records then (st, Err PersistFailed)
                else (st\<lparr>permanent_records := next_records,
                        permanent_grants := permanent_grants st @ [\<lparr>sc_grant = g, sc_subject = subject\<rparr>]\<rparr>, Ok ())))"

definition grant_covers :: "rstr \<Rightarrow> rstr \<Rightarrow> rstr \<Rightarrow> tenant_ctx \<Rightarrow> scoped_grant \<Rightarrow> bool" where
  "grant_covers tool args_summary entity_id ctx sg \<longleftrightarrow>
     grant_tool (sc_grant sg) = tool \<and> pattern_matches (grant_pattern (sc_grant sg)) args_summary \<and>
     matches_context (sc_subject sg) entity_id ctx"

definition is_granted :: "rstr \<Rightarrow> rstr \<Rightarrow> rstr \<Rightarrow> tenant_ctx \<Rightarrow> permission_store \<Rightarrow> bool" where
  "is_granted tool args_summary entity_id ctx st =
     (if list_ex (grant_covers tool args_summary entity_id ctx) (session_grants st) then True
      else list_ex (grant_covers tool args_summary entity_id ctx) (permanent_grants st))"

definition active_grants :: "permission_store \<Rightarrow> permission_grant list" where
  "active_grants st = map sc_grant (session_grants st) @ map sc_grant (permanent_grants st)"

subsection \<open>Runs of the store\<close>

datatype permission_call =
    AddGrant rstr "stored_grant list \<Rightarrow> bool" permission_grant rstr tenant_ctx
  | SetAllowlist rstr "rstr set option"

definition store_step :: "permission_store \<Rightarrow> permission_call \<Rightarrow> permission_store \<times> (grant_error, unit) result" where
  "store_step st ev =
     (case ev of
        AddGrant now persist_ok g e ctx \<Rightarrow> add_grant now persist_ok g e ctx st
      | SetAllowlist e allowlist \<Rightarrow> (set_entity_allowlist e allowlist st, Ok ()))"

text \<open>A successful \<open>add_grant\<close> has checked the grant and appended it to one of the two lists.\<close>

lemma add_grant_Ok:
  assumes "snd (add_grant now persist_ok g e ctx st) = Ok ()"
  defines "sg \<equiv> \<lparr>sc_grant = g, sc_subject = subject_from_context e ctx\<rparr>"
  shows "trim e \<noteq> []" and "grant_pattern g = ''*'' \<Longrightarrow> classify_risk (grant_tool g) \<noteq> High"
    and "set (session_grants (fst (add_grant now persist_ok g e ctx st)) @
              permanent_grants (fst (add_grant now persist_ok g e ctx st))) =
         insert sg (set (session_grants st @ permanent_grants st))"
  using assms
  by (auto simp: add_grant_def Let_def subject_from_context_def
      split: if_splits grant_scope.splits option.splits)

lemma add_grant_Err: "snd (add_grant now persist_ok g e ctx st) = Err err \<Longrightarrow> fst (add_grant now persist_ok g e ctx st) = st"
  by (auto simp: add_grant_def Let_def split: if_splits grant_scope.splits option.splits)

definition all_grants :: "permission_store \<Rightarrow> scoped_grant set" where
  "all_grants st = set (session_grants st @ permanent_grants st)"

definition granted_by_event :: "scoped_grant \<Rightarrow> permission_call \<Rightarrow> bool" where
  "granted_by_event sg ev \<longleftrightarrow>
     (case ev of
        AddGrant _ _ g e ctx \<Rightarrow>
          sg = \<lparr>sc_grant = g, sc_subject = subject_from_context e ctx\<rparr> \<and>
          \<not> (grant_pattern g = ''*'' \<and> classify_risk (grant_tool g) = High)
      | SetAllowlist _ _ \<Rightarrow> False)"

lemma store_step_grants:
  "sg \<in> all_grants (fst (store_step st ev)) \<Longrightarrow> sg \<in> all_grants st \<or> granted_by_event sg ev"
proof (cases ev)
  case (AddGrant now persist_ok g e ctx)
  assume sg: "sg \<in> all_grants (fst (store_step st ev))"
  show ?thesis
  proof (cases "snd (add_grant now persist_ok g e ctx st)")
    case (Inl err)
    then show ?thesis using sg AddGrant by (simp add: store_step_def add_grant_Err)
  next
    case (Inr u)
    then have ok: "snd (add_grant now persist_ok g e ctx st) = Ok ()" by simp
    show ?thesis
      using sg AddGrant add_grant_Ok(2,3) [OF ok]
      by (auto simp: store_step_def all_grants_def granted_by_event_def)
  qed
qed (simp add: store_step_def set_entity_allowlist_def all_grants_def)

lemma run_grants:
  "sg \<in> all_grants (fst (run_machine store_step st evs)) \<Longrightarrow>
   sg \<in> all_grants st \<or> (\<exists>ev \<in> set evs. granted_by_event sg ev)"
  by (induction evs arbitrary: st) (auto dest: store_step_grants)

lemma is_granted_iff:
  "is_granted tool s e ctx st \<longleftrightarrow> (\<exists>sg \<in> all_grants st. grant_covers tool s e ctx sg)"
  by (auto simp: is_granted_def all_grants_def list_ex_iff)

text \<open>C18: no grant without a grantor. Whatever calls a store loaded from its file has served, a tool call
  counts as granted only when a record of the file or an earlier \<open>add_grant\<close> of this run covers it:
  for the same tool, with a pattern that matches, and given to the same trimmed entity, tenant mode
  and tenant; and no \<open>add_grant\<close> has given a bare wildcard for a high-risk tool.\<close>

theorem granted_calls_were_granted:
  assumes "is_granted tool s e ctx (fst (run_machine store_step (store_load parse file) evs))"
  shows "\<exists>sg. grant_tool (sc_grant sg) = tool \<and> pattern_matches (grant_pattern (sc_grant sg)) s \<and>
    sc_subject sg = subject_from_context e ctx \<and>
    (sg \<in> set (List.map_filter stored_to_scoped_grant (load_permission_file parse file)) \<or>
     list_ex (granted_by_event sg) evs)"
proof -
  obtain sg where c: "grant_covers tool s e ctx sg"
    and g: "sg \<in> all_grants (fst (run_machine store_step (store_load parse file) evs))"
    using assms by (auto simp: is_granted_iff)
  from run_grants [OF g] have
    "sg \<in> set (List.map_filter stored_to_scoped_grant (load_permission_file parse file)) \<or>
     list_ex (granted_by_event sg) evs"
    by (auto simp: all_grants_def store_load_def Let_def list_ex_iff)
  with c show ?thesis by (auto simp: grant_covers_def matches_context_def)
qed

definition demo_grant :: permission_grant where
  "demo_grant = \<lparr>grant_tool = ''shell'', grant_pattern = ''cargo *'', grant_scope = ScopeSession\<rparr>"

definition demo_grant_event :: permission_call where
  "demo_grant_event = AddGrant [] (\<lambda>_. True) demo_grant '' bob'' tenant_disabled"

lemma demo_granted:
  "is_granted ''shell'' ''cargo test'' ''bob'' tenant_disabled
     (fst (run_machine store_step (store_load (\<lambda>_. None) ReadNotFound) [demo_grant_event]))"
  by code_simp

theorem granted_calls_were_granted_witness:
  "\<exists>sg. sc_subject sg = subject_from_context ''bob'' tenant_disabled \<and>
     list_ex (granted_by_event sg) [demo_grant_event]"
proof -
  have "load_permission_file (\<lambda>_. None) ReadNotFound = []" by (simp add: load_permission_file_def)
  then show ?thesis
    using granted_calls_were_granted [OF demo_granted] by (auto simp: List.map_filter_def)
qed

subsection \<open>Restarts\<close>

definition records_agree :: "permission_store \<Rightarrow> bool" where
  "records_agree st \<longleftrightarrow> permanent_grants st = List.map_filter stored_to_scoped_grant (permanent_records st)"

lemma normalize_tenant_id_idem [simp]: "normalize_tenant_id (normalize_tenant_id t) = normalize_tenant_id t"
  by (auto simp: normalize_tenant_id_def split: option.splits)

lemma add_grant_records_agree:
  assumes "records_agree st"
  shows "records_agree (fst (add_grant now persist_ok g e ctx st))"
proof -
  have sub: "subject_from_stored
      \<lparr>sg_tool = t, sg_pattern = pat, sg_scope = sc, sg_granted_at = now, sg_granted_by = by,
       sg_entity_id = Some (trim e), sg_tenant_mode_enabled = Some (tenant_mode_enabled ctx),
       sg_tenant_id = normalize_tenant_id (tenant_id ctx)\<rparr> = Some (subject_from_context e ctx)"
    if "trim e \<noteq> []" for t pat sc "by"
    using that by (simp add: subject_from_stored_def subject_from_context_def Let_def)
  obtain t p s where g: "g = \<lparr>grant_tool = t, grant_pattern = p, grant_scope = s\<rparr>" by (cases g)
  show ?thesis
    using assms sub
    by (auto simp: g add_grant_def records_agree_def Let_def stored_to_scoped_grant_def
        subject_from_context_def [of e ctx] List.map_filter_def
        split: if_splits grant_scope.splits option.splits)
qed

lemma set_entity_allowlist_records_agree:
  "records_agree (set_entity_allowlist e a st) \<longleftrightarrow> records_agree st"
  by (simp add: records_agree_def set_entity_allowlist_def)

interpretation store_run: guarded_machine store_step "\<lambda>_ _. True" records_agree
proof
  fix st ev
  assume "records_agree st"
  then show "records_agree (fst (store_step st ev))"
    by (cases ev) (auto simp: store_step_def add_grant_records_agree set_entity_allowlist_records_agree)
qed

text \<open>Permanent grants survive a restart unchanged. After any calls, loading the store from a file
  that decodes to the records the store keeps gives exactly its permanent grants, each with its
  entity and tenant, and no session grant.\<close>

theorem permanent_grants_survive_restart:
  assumes "trim content \<noteq> []"
    and "parse' content = Some (permanent_records (fst (run_machine store_step (store_load parse file) evs)))"
  shows "permanent_grants (store_load parse' (ReadContent content)) =
           permanent_grants (fst (run_machine store_step (store_load parse file) evs)) \<and>
         session_grants (store_load parse' (ReadContent content)) = []"
proof -
  have "records_agree (store_load parse file)" by (simp add: records_agree_def store_load_def Let_def)
  then have "records_agree (fst (run_machine store_step (store_load parse file) evs))"
    by (rule store_run.run_inv) (rule events_ok_trivial, simp)
  then show ?thesis
    using assms by (simp add: store_load_def load_permission_file_def Let_def records_agree_def)
qed

theorem permanent_grants_survive_restart_witness:
  "permanent_grants (store_load (\<lambda>_. Some (permanent_records (fst (run_machine store_step
       (store_load (\<lambda>_. None) ReadNotFound)
       [AddGrant [] (\<lambda>_. True) (demo_grant\<lparr>grant_scope := ScopePermanent\<rparr>) ''bob'' tenant_disabled]))))
     (ReadContent ''x'')) \<noteq> []"
proof -
  let ?st = "fst (run_machine store_step (store_load (\<lambda>_. None) ReadNotFound)
       [AddGrant [] (\<lambda>_. True) (demo_grant\<lparr>grant_scope := ScopePermanent\<rparr>) ''bob'' tenant_disabled])"
  have t: "trim ''x'' \<noteq> []" and n: "permanent_grants ?st \<noteq> []" by code_simp+
  show ?thesis
    using permanent_grants_survive_restart [OF t, of "\<lambda>_. Some (permanent_records ?st)"
        "\<lambda>_. None" ReadNotFound, OF refl] n by simp
qed

text \<open>The allowlist is kept under the id as given, the check looks it up under the trimmed id.\<close>

lemma untrimmed_allowlist_is_ignored:
  assumes "trim e \<noteq> e" "trim e \<noteq> []" "entity_allowlists st (trim e) = None"
    and "trim (grant_tool g) \<noteq> []" "trim (grant_pattern g) \<noteq> []" "grant_pattern g \<noteq> ''*''"
    and "grant_scope g = ScopeSession"
  shows "snd (add_grant now persist_ok g e ctx (set_entity_allowlist e (Some {}) st)) = Ok ()"
  using assms by (simp add: add_grant_def set_entity_allowlist_def subject_from_context_def Let_def)

end
