(* ===== verification/Timed_Entries.thy ===== *)
theory Timed_Entries
  imports Rust_Strings "HOL-Library.AList"
begin

text \<open>
  The tables from a hash to the second it was recorded at that the pairing guard and the replay
  guard keep, as association lists with distinct keys (the order stands for the iteration order
  of the hash map), and the interpretation of the interface of expiring tables on them.
\<close>

type_synonym timed_table = "(rstr \<times> unix_secs) list"

definition keys_distinct :: "timed_table \<Rightarrow> bool" where
  "keys_distinct m \<longleftrightarrow> distinct (map fst m)"

definition retain_live :: "unix_secs \<Rightarrow> nat \<Rightarrow> timed_table \<Rightarrow> timed_table" where
  "retain_live now ttl m = filter (\<lambda>(k, ts). live_at now ttl ts) m"

definition table_insert :: "rstr \<Rightarrow> unix_secs \<Rightarrow> timed_table \<Rightarrow> timed_table" where
  "table_insert k ts m = AList.update k ts m"

definition table_remove :: "rstr \<Rightarrow> timed_table \<Rightarrow> timed_table" where
  "table_remove k m = AList.delete k m"

lemma map_of_filter_distinct:
  "distinct (map fst m) \<Longrightarrow>
   map_of (filter P m) k = (case map_of m k of None \<Rightarrow> None | Some v \<Rightarrow> if P (k, v) then Some v else None)"
  by (induction m) (auto split: option.splits dest: map_of_SomeD simp: image_iff)

lemma keys_distinct_filter: "keys_distinct m \<Longrightarrow> keys_distinct (filter P m)"
  by (induction m) (auto simp: keys_distinct_def)

interpretation timed: expiring_table map_of retain_live keys_distinct
proof
  fix m :: timed_table and now ttl k
  assume m: "keys_distinct m"
  then show "map_of (retain_live now ttl m) k =
      (case map_of m k of None \<Rightarrow> None | Some ts \<Rightarrow> if live_at now ttl ts then Some ts else None)"
    by (auto simp: retain_live_def map_of_filter_distinct keys_distinct_def split: option.splits)
  from m show "keys_distinct (retain_live now ttl m)"
    by (simp add: retain_live_def keys_distinct_filter)
qed

lemma keys_distinct_insert: "keys_distinct m \<Longrightarrow> keys_distinct (table_insert k ts m)"
  by (simp add: keys_distinct_def table_insert_def distinct_update)

lemma keys_distinct_remove: "keys_distinct m \<Longrightarrow> keys_distinct (table_remove k m)"
  by (simp add: keys_distinct_def table_remove_def distinct_delete)

lemma map_of_insert: "map_of (table_insert k ts m) = (map_of m)(k \<mapsto> ts)"
  by (simp add: table_insert_def update_conv')

lemma map_of_remove: "map_of (table_remove k m) = (map_of m)(k := None)"
  by (simp add: table_remove_def delete_conv')

lemma length_insert: "length (table_insert k ts m) \<le> Suc (length m)"
proof -
  have "length (AList.update k ts m) \<le> Suc (length m)" by (induction m) auto
  then show ?thesis by (simp add: table_insert_def)
qed

lemma length_retain_live: "length (retain_live now ttl m) \<le> length m"
  by (simp add: retain_live_def)

lemmas timed_wf = keys_distinct_insert keys_distinct_remove timed.wf_retain keys_distinct_filter

end
