(* ===== verification/Pairing.thy ===== *)
theory Pairing
  imports Timed_Entries
begin

text \<open>
  First-connect authentication of the gateway (\<open>src/src/security/pairing.rs\<close>): the one-time
  code with its brute-force lockout, the expiring bearer tokens, and the comparison and
  generation routines. The hash function, the random bytes, the clocks and the outcome of file
  operations are arguments.
\<close>

definition max_pair_attempts :: u32 where
  "max_pair_attempts = 5"

definition pair_lockout_secs :: nat where
  "pair_lockout_secs = 300"

definition default_token_ttl_secs :: nat where
  "default_token_ttl_secs = 2592000"

subsection \<open>Comparison, codes and tokens\<close>

definition get_or_0 :: "rstr \<Rightarrow> nat \<Rightarrow> u8" where
  "get_or_0 s i = (if i < length s then of_nat (byte (s ! i)) else 0)"

definition constant_time_eq :: "rstr \<Rightarrow> rstr \<Rightarrow> bool" where
  "constant_time_eq a b =
     (let acc = foldl (\<lambda>acc i. or acc (xor (get_or_0 a i) (get_or_0 b i))) 0
                  [0..<max (length a) (length b)]
      in length a = length b \<and> acc = 0)"

definition code_upper_bound :: nat where
  "code_upper_bound = 1000000"

definition code_reject_threshold :: nat where
  "code_reject_threshold = (4294967295 div code_upper_bound) * code_upper_bound"

text \<open>\<open>format!("{:06}", n)\<close>.\<close>

definition pad6 :: "nat \<Rightarrow> rstr" where
  "pad6 n = replicate (6 - length (decimal n)) (CHR ''0'') @ decimal n"

text \<open>The loop over the random draws; \<open>None\<close> if all the given draws are rejected.\<close>

fun generate_code :: "u32 list \<Rightarrow> rstr option" where
  "generate_code [] = None"
| "generate_code (raw # draws) =
     (if unat raw < code_reject_threshold then Some (pad6 (unat raw mod code_upper_bound))
      else generate_code draws)"

definition hex_digit :: "nat \<Rightarrow> char" where
  "hex_digit n = char_of (if n < 10 then 48 + n else 87 + n)"

definition hex_encode :: "u8 list \<Rightarrow> rstr" where
  "hex_encode bs = concat (map (\<lambda>b. [hex_digit (unat b div 16), hex_digit (unat b mod 16)]) bs)"

definition generate_token :: "u8 list \<Rightarrow> rstr" where
  "generate_token random_bytes = ''zc_'' @ hex_encode random_bytes"

text \<open>\<open>trim_start_matches\<close> and \<open>trim_end_matches\<close> of one character.\<close>

definition trim_matches :: "char \<Rightarrow> char \<Rightarrow> rstr \<Rightarrow> rstr" where
  "trim_matches l r s = rev (dropWhile (\<lambda>c. c = r) (rev (dropWhile (\<lambda>c. c = l) s)))"

definition is_public_bind :: "rstr \<Rightarrow> bool" where
  "is_public_bind host =
     (let trimmed = trim_matches (CHR ''['') (CHR '']'') host in
      if eq_ignore_ascii_case trimmed ''localhost'' then False
      else if trimmed = ''::1'' \<or> trimmed = ''0:0:0:0:0:0:0:1'' then False
      else if hd (split_on (CHR ''.'') trimmed) = ''127'' \<and> length (split_on (CHR ''.'') trimmed) = 4
      then False
      else True)"

subsection \<open>The guard\<close>

text \<open>\<open>disk\<close>: the contents of the token file, \<open>None\<close> for a guard without storage.\<close>

record pairing_guard =
  require_pairing :: bool
  pairing_code :: "rstr option"
  paired_tokens :: timed_table
  token_ttl_secs :: nat
  failed_count :: u32
  locked_at :: "instant option"
  disk :: "timed_table option"

definition retain_non_expired_tokens :: "timed_table \<Rightarrow> unix_secs \<Rightarrow> nat \<Rightarrow> timed_table" where
  "retain_non_expired_tokens tokens now ttl = retain_live now ttl tokens"

text \<open>Records whose hash is not 64 hexadecimal digits are dropped; a later record wins.\<close>

definition load_pairing_tokens :: "timed_table \<Rightarrow> timed_table" where
  "load_pairing_tokens records =
     fold (\<lambda>(k, ts) m. table_insert k ts m)
       (filter (\<lambda>(k, ts). length k = 64 \<and> list_all is_ascii_hexdigit k) records) []"

definition persist_tokens :: "bool \<Rightarrow> pairing_guard \<Rightarrow> pairing_guard" where
  "persist_tokens write_ok g =
     (case disk g of
        None \<Rightarrow> g
      | Some _ \<Rightarrow> if write_ok then g\<lparr>disk := Some (paired_tokens g)\<rparr> else g)"

text \<open>
  \<open>storage\<close>: \<open>None\<close> without a path, \<open>Some None\<close> if the file cannot be read, otherwise its
  records (none for a missing file).
\<close>

definition new_with_storage ::
  "bool \<Rightarrow> rstr list \<Rightarrow> nat option \<Rightarrow> timed_table option option \<Rightarrow> unix_secs \<Rightarrow> u32 list \<Rightarrow> bool \<Rightarrow>
   pairing_guard" where
  "new_with_storage req existing ttl_opt storage now draws write_ok =
     (let ttl = max (case ttl_opt of Some t \<Rightarrow> t | None \<Rightarrow> default_token_ttl_secs) 60;
          loaded = (case storage of Some (Some records) \<Rightarrow> load_pairing_tokens records | _ \<Rightarrow> []);
          tokens = fold (\<lambda>h m. if map_of m h = None then table_insert h now m else m) existing loaded;
          tokens = retain_non_expired_tokens tokens now ttl;
          code = (if req \<and> tokens = [] then generate_code draws else None)
      in persist_tokens write_ok
           \<lparr>require_pairing = req, pairing_code = code, paired_tokens = tokens, token_ttl_secs = ttl,
            failed_count = 0, locked_at = None,
            disk = (case storage of None \<Rightarrow> None | Some None \<Rightarrow> Some [] | Some (Some r) \<Rightarrow> Some r)\<rparr>)"

text \<open>
  The three critical sections of \<open>try_pair\<close>: the lockout check, the comparison, and the
  counting of a failure.
\<close>

definition check_lockout :: "instant \<Rightarrow> pairing_guard \<Rightarrow> pairing_guard \<times> (nat, unit) result" where
  "check_lockout now g =
     (case locked_at g of
        Some t \<Rightarrow>
          if max_pair_attempts \<le> failed_count g then
            (if elapsed_secs now t < pair_lockout_secs
             then (g, Err (pair_lockout_secs - elapsed_secs now t))
             else (g\<lparr>failed_count := 0, locked_at := None\<rparr>, Ok ()))
          else (g, Ok ())
      | None \<Rightarrow> (g, Ok ()))"

definition compare_code ::
  "(rstr \<Rightarrow> rstr) \<Rightarrow> u8 list \<Rightarrow> unix_secs \<Rightarrow> bool \<Rightarrow> rstr \<Rightarrow> pairing_guard \<Rightarrow> pairing_guard \<times> rstr option" where
  "compare_code hash random_bytes now write_ok code g =
     (case pairing_code g of
        Some expected \<Rightarrow>
          if constant_time_eq (trim code) (trim expected) then
            let token = generate_token random_bytes;
                g = g\<lparr>failed_count := 0, locked_at := None,
                      paired_tokens := table_insert (hash token) now (paired_tokens g)\<rparr>;
                g = persist_tokens write_ok g
            in (g\<lparr>pairing_code := None\<rparr>, Some token)
          else (g, None)
      | None \<Rightarrow> (g, None))"

definition count_failure :: "instant \<Rightarrow> pairing_guard \<Rightarrow> pairing_guard" where
  "count_failure now g =
     (let g = g\<lparr>failed_count := failed_count g + 1\<rparr>
      in if max_pair_attempts \<le> failed_count g then g\<lparr>locked_at := Some now\<rparr> else g)"

record pair_call =
  pc_code :: rstr
  pc_check :: instant
  pc_count :: instant
  pc_wall :: unix_secs
  pc_random :: "u8 list"
  pc_write_ok :: bool

definition try_pair ::
  "(rstr \<Rightarrow> rstr) \<Rightarrow> pairing_guard \<Rightarrow> pair_call \<Rightarrow> pairing_guard \<times> (nat, rstr option) result" where
  "try_pair hash g c =
     (case check_lockout (pc_check c) g of
        (g, Inl secs) \<Rightarrow> (g, Err secs)
      | (g, Inr _) \<Rightarrow>
          (case compare_code hash (pc_random c) (pc_wall c) (pc_write_ok c) (pc_code c) g of
             (g, Some token) \<Rightarrow> (g, Ok (Some token))
           | (g, None) \<Rightarrow> (count_failure (pc_count c) g, Ok None)))"

definition clean_tokens :: "unix_secs \<Rightarrow> bool \<Rightarrow> pairing_guard \<Rightarrow> pairing_guard" where
  "clean_tokens now write_ok g =
     (let tokens = retain_non_expired_tokens (paired_tokens g) now (token_ttl_secs g);
          changed = length tokens \<noteq> length (paired_tokens g);
          g = g\<lparr>paired_tokens := tokens\<rparr>
      in if changed then persist_tokens write_ok g else g)"

definition is_accepted_token ::
  "(rstr \<Rightarrow> rstr) \<Rightarrow> unix_secs \<Rightarrow> bool \<Rightarrow> rstr \<Rightarrow> pairing_guard \<Rightarrow> pairing_guard \<times> bool" where
  "is_accepted_token hash now write_ok token g =
     (if token = [] then (g, False)
      else let hashed = hash token;
               has_expired = list_ex (\<lambda>(k, ts). 0 < token_ttl_secs g \<and> token_ttl_secs g < now - ts)
                               (paired_tokens g)
           in if \<not> has_expired then (g, map_of (paired_tokens g) hashed \<noteq> None)
              else let g = clean_tokens now write_ok g
                   in (g, map_of (paired_tokens g) hashed \<noteq> None))"

definition is_authenticated ::
  "(rstr \<Rightarrow> rstr) \<Rightarrow> unix_secs \<Rightarrow> bool \<Rightarrow> rstr \<Rightarrow> pairing_guard \<Rightarrow> pairing_guard \<times> bool" where
  "is_authenticated hash now write_ok token g =
     (if \<not> require_pairing g then (g, True) else is_accepted_token hash now write_ok token g)"

definition is_paired :: "unix_secs \<Rightarrow> bool \<Rightarrow> pairing_guard \<Rightarrow> pairing_guard \<times> bool" where
  "is_paired now write_ok g =
     (let g = clean_tokens now write_ok g in (g, paired_tokens g \<noteq> []))"

definition tokens :: "unix_secs \<Rightarrow> bool \<Rightarrow> pairing_guard \<Rightarrow> pairing_guard \<times> rstr list" where
  "tokens now write_ok g =
     (let g = clean_tokens now write_ok g in (g, map fst (paired_tokens g)))"

definition revoke_all :: "bool \<Rightarrow> pairing_guard \<Rightarrow> pairing_guard" where
  "revoke_all write_ok g = persist_tokens write_ok (g\<lparr>paired_tokens := []\<rparr>)"

subsection \<open>The comparison is equality\<close>

lemma byte_less: "byte c < 256"
  by (simp add: byte_def)

lemma byte_inj: "byte c = byte d \<Longrightarrow> c = d"
  by (simp add: byte_def)

lemma of_nat_byte_inj: "(of_nat (byte c) :: u8) = of_nat (byte d) \<longleftrightarrow> c = d"
proof
  assume "(of_nat (byte c) :: u8) = of_nat (byte d)"
  then have "unat (of_nat (byte c) :: u8) = unat (of_nat (byte d) :: u8)" by simp
  then show "c = d" using byte_less [of c] byte_less [of d] byte_inj by (simp add: unat_of_nat)
qed simp

lemma xor_zero_iff: "xor a b = 0 \<longleftrightarrow> a = b" for a b :: u8
proof
  assume "xor a b = 0"
  then have "xor (xor a b) b = b" by simp
  then show "a = b" by (simp add: xor.assoc)
qed simp

lemma foldl_or_zero:
  "foldl (\<lambda>acc i. or acc (f i)) a xs = 0 \<longleftrightarrow> a = 0 \<and> (\<forall>i \<in> set xs. f i = 0)" for a :: u8
  by (induction xs arbitrary: a) (auto simp: or_eq_0_iff)

lemma constant_time_eq_equality: "constant_time_eq a b \<longleftrightarrow> a = b"
proof -
  have "a = b" if "length a = length b" "\<forall>i < length b. get_or_0 a i = get_or_0 b i"
    using that by (intro nth_equalityI) (auto simp: get_or_0_def of_nat_byte_inj)
  then show ?thesis
    by (auto simp: constant_time_eq_def Let_def foldl_or_zero xor_zero_iff)
qed

subsection \<open>The lockout bounds guessing\<close>

record pair_trace =
  pt_guard :: pairing_guard
  pt_guesses :: nat
  pt_clock :: instant

text \<open>A guess is a call that gets past the lockout and is compared with a live code.\<close>

definition pair_step ::
  "(rstr \<Rightarrow> rstr) \<Rightarrow> pair_trace \<Rightarrow> pair_call \<Rightarrow> pair_trace \<times> (nat, rstr option) result" where
  "pair_step hash tr c =
     (let (g, r) = try_pair hash (pt_guard tr) c;
          guess = (is_ok r \<and> pairing_code (pt_guard tr) \<noteq> None)
      in (\<lparr>pt_guard = g, pt_guesses = pt_guesses tr + (if guess then 1 else 0), pt_clock = pc_count c\<rparr>, r))"

definition pair_clock_ok :: "pair_trace \<Rightarrow> pair_call \<Rightarrow> bool" where
  "pair_clock_ok tr c \<longleftrightarrow> pt_clock tr \<le> pc_check c \<and> pc_check c \<le> pc_count c"

definition lockout_nanos :: nat where
  "lockout_nanos = nanos 300"

definition periods :: "instant \<Rightarrow> instant \<Rightarrow> nat" where
  "periods t0 t = (t - t0) div lockout_nanos"

definition lockout_inv :: "instant \<Rightarrow> pairing_guard \<Rightarrow> nat \<Rightarrow> instant \<Rightarrow> bool" where
  "lockout_inv t0 g n now \<longleftrightarrow>
     unat (failed_count g) \<le> 5 \<and>
     (case locked_at g of
        None \<Rightarrow> unat (failed_count g) < 5 \<and>
          (\<exists>k. t0 + lockout_nanos * k \<le> now \<and> n \<le> 5 * k + unat (failed_count g))
      | Some t \<Rightarrow> unat (failed_count g) = 5 \<and> t \<le> now \<and>
          (\<exists>k. t0 + lockout_nanos * k \<le> t \<and> n \<le> 5 * k + 5))"

definition pair_inv :: "instant \<Rightarrow> pair_trace \<Rightarrow> bool" where
  "pair_inv t0 tr \<longleftrightarrow>
     pt_guesses tr \<le> 5 + 5 * periods t0 (pt_clock tr) \<and>
     (pairing_code (pt_guard tr) \<noteq> None \<longrightarrow> lockout_inv t0 (pt_guard tr) (pt_guesses tr) (pt_clock tr))"

lemma lockout_nanos_pos: "0 < lockout_nanos"
  by (simp add: lockout_nanos_def nanos_def)

lemma periods_ge: "t0 + lockout_nanos * k \<le> t \<Longrightarrow> k \<le> periods t0 t"
  using lockout_nanos_pos by (simp add: periods_def less_eq_div_iff_mult_less_eq mult.commute)

lemma periods_mono: "t \<le> t' \<Longrightarrow> periods t0 t \<le> periods t0 t'"
  unfolding periods_def by (intro div_le_mono diff_le_mono)

lemma max_pair_attempts_le: "max_pair_attempts \<le> n \<longleftrightarrow> 5 \<le> unat n"
  by (simp add: max_pair_attempts_def word_le_nat_alt)

lemma lockout_over: "\<not> elapsed_secs now t < pair_lockout_secs \<Longrightarrow> t + lockout_nanos \<le> now"
proof -
  assume "\<not> elapsed_secs now t < pair_lockout_secs"
  then have "300 \<le> (now - t) div 1000000000" by (simp add: elapsed_secs_def pair_lockout_secs_def)
  then have "300 * 1000000000 \<le> now - t" by (subst (asm) less_eq_div_iff_mult_less_eq) simp_all
  then show ?thesis by (simp add: lockout_nanos_def nanos_def)
qed

lemma lockout_inv_bound: "lockout_inv t0 g n now \<Longrightarrow> n \<le> 5 + 5 * periods t0 now"
proof -
  assume inv: "lockout_inv t0 g n now"
  then obtain k where "t0 + lockout_nanos * k \<le> now" "n \<le> 5 * k + 5"
    by (force simp: lockout_inv_def split: option.splits)
  with periods_ge [of t0 k now] show ?thesis by simp
qed

lemma check_lockout_inv:
  assumes "lockout_inv t0 g n now" "now \<le> now'" "check_lockout now' g = (g', r)"
  shows "pairing_code g' = pairing_code g \<and> lockout_inv t0 g' n now' \<and>
         (r = Ok () \<longrightarrow> locked_at g' = None)"
proof (cases "locked_at g")
  case None
  with assms show ?thesis
    by (auto simp: check_lockout_def lockout_inv_def intro: le_trans)
next
  case (Some t)
  then obtain k where k: "t0 + lockout_nanos * k \<le> t" "n \<le> 5 * k + 5" "unat (failed_count g) = 5" "t \<le> now"
    using assms(1) by (auto simp: lockout_inv_def)
  show ?thesis
  proof (cases "elapsed_secs now' t < pair_lockout_secs")
    case True
    with Some k assms show ?thesis
      by (auto simp: check_lockout_def lockout_inv_def max_pair_attempts_le)
  next
    case False
    then have "t0 + lockout_nanos * Suc k \<le> now'" using lockout_over [OF False] k(1) by simp
    moreover have "g' = g\<lparr>failed_count := 0, locked_at := None\<rparr>"
      using False Some k assms(3) by (simp add: check_lockout_def max_pair_attempts_le)
    moreover have "n \<le> 5 * Suc k" using k(2) by simp
    ultimately show ?thesis
      by (auto simp: lockout_inv_def intro: exI [of _ "Suc k"])
  qed
qed

lemma count_failure_inv:
  assumes "lockout_inv t0 g n now" "locked_at g = None" "now \<le> now'"
  shows "lockout_inv t0 (count_failure now' g) (Suc n) now'"
proof -
  obtain k where k: "t0 + lockout_nanos * k \<le> now" "n \<le> 5 * k + unat (failed_count g)"
    and f: "unat (failed_count g) < 5"
    using assms by (auto simp: lockout_inv_def)
  have u: "unat (failed_count g + 1) = Suc (unat (failed_count g))"
    using f by (simp add: unat_word_ariths)
  show ?thesis
    using k f u assms(2,3)
    by (auto simp: count_failure_def lockout_inv_def max_pair_attempts_le Let_def intro!: exI [of _ k])
qed

lemma compare_code_cases:
  assumes "compare_code hash rnd wall ok code g = (g', r)"
  shows "pairing_code g = None \<Longrightarrow> g' = g \<and> r = None"
    and "r = None \<Longrightarrow> g' = g"
    and "r = Some token \<Longrightarrow> pairing_code g' = None \<and> token = generate_token rnd \<and>
           (\<exists>e. pairing_code g = Some e \<and> trim code = trim e) \<and>
           paired_tokens g' = table_insert (hash token) wall (paired_tokens g)"
  using assms
  by (auto simp: compare_code_def persist_tokens_def Let_def constant_time_eq_equality
      split: option.splits if_splits)

lemma try_pair_code: "pairing_code g = None \<Longrightarrow>
   pairing_code (fst (try_pair hash g c)) = None \<and> (\<forall>t. snd (try_pair hash g c) \<noteq> Ok (Some t))"
  by (auto simp: try_pair_def check_lockout_def count_failure_def compare_code_def Let_def
      split: prod.splits sum.splits option.splits)

lemma pair_step_inv:
  assumes inv: "pair_inv t0 tr" and ok: "pair_clock_ok tr c"
  shows "pair_inv t0 (fst (pair_step hash tr c))"
proof -
  let ?g = "pt_guard tr" and ?n = "pt_guesses tr"
  have mono: "pt_clock tr \<le> pc_check c" "pc_check c \<le> pc_count c"
    using ok by (simp_all add: pair_clock_ok_def)
  have old: "?n \<le> 5 + 5 * periods t0 (pc_count c)"
    using inv periods_mono [of "pt_clock tr" "pc_count c" t0] mono by (simp add: pair_inv_def)
  show ?thesis
  proof (cases "pairing_code ?g")
    case None
    then show ?thesis
      using old try_pair_code [OF None, of hash c]
      by (auto simp: pair_inv_def pair_step_def case_prod_unfold Let_def)
  next
    case (Some code)
    then have li: "lockout_inv t0 ?g ?n (pt_clock tr)" using inv by (simp add: pair_inv_def)
    obtain g1 r1 where c1: "check_lockout (pc_check c) ?g = (g1, r1)" by fastforce
    from check_lockout_inv [OF li mono(1) c1]
    have g1: "pairing_code g1 = Some code" "lockout_inv t0 g1 ?n (pc_check c)" "r1 = Ok () \<longrightarrow> locked_at g1 = None"
      using Some by simp_all
    show ?thesis
    proof (cases r1)
      case (Inl secs)
      have "lockout_inv t0 g1 ?n (pc_count c)"
        using g1(2) mono(2) by (auto simp: lockout_inv_def split: option.splits intro: le_trans)
      then show ?thesis
        using Inl c1 old by (simp add: pair_inv_def pair_step_def try_pair_def)
    next
      case (Inr u)
      then have unlocked: "locked_at g1 = None" using g1(3) by simp
      have f: "lockout_inv t0 (count_failure (pc_count c) g1) (Suc ?n) (pc_count c)"
        by (rule count_failure_inv [OF g1(2) unlocked mono(2)])
      then have bound: "Suc ?n \<le> 5 + 5 * periods t0 (pc_count c)" by (rule lockout_inv_bound)
      obtain g2 r2 where c2: "compare_code hash (pc_random c) (pc_wall c) (pc_write_ok c) (pc_code c) g1 = (g2, r2)"
        by fastforce
      show ?thesis
      proof (cases r2)
        case None
        then have "g2 = g1" using compare_code_cases(2) [OF c2] by simp
        then show ?thesis
          using f bound None Inr c1 c2 Some by (simp add: pair_inv_def pair_step_def try_pair_def)
      next
        case (Some token)
        then have "pairing_code g2 = None" using compare_code_cases(3) [OF c2] by simp
        then show ?thesis
          using bound Some Inr c1 c2 by (simp add: pair_inv_def pair_step_def try_pair_def)
      qed
    qed
  qed
qed

interpretation pair_run: guarded_machine "pair_step hash" pair_clock_ok "pair_inv t0" for hash t0
  by unfold_locales (rule pair_step_inv)

definition pair_trace_init :: "pairing_guard \<Rightarrow> instant \<Rightarrow> pair_trace" where
  "pair_trace_init g t0 = \<lparr>pt_guard = g, pt_guesses = 0, pt_clock = t0\<rparr>"

text \<open>C24: the lockout bounds brute force. Calls of \<open>try_pair\<close> that run one after the other on a
  monotonic clock compare at most five guesses with the live code, and five more for every full
  300 seconds that have passed since the guard was created.\<close>

theorem pairing_guesses_bounded:
  assumes "failed_count g = 0" "locked_at g = None"
    and "events_ok (pair_step hash) pair_clock_ok (pair_trace_init g t0) calls"
  shows "pt_guesses (fst (run_machine (pair_step hash) (pair_trace_init g t0) calls)) \<le>
    5 + 5 * periods t0 (pt_clock (fst (run_machine (pair_step hash) (pair_trace_init g t0) calls)))"
proof -
  have "pair_inv t0 (pair_trace_init g t0)"
    using assms by (auto simp: pair_inv_def pair_trace_init_def lockout_inv_def intro!: exI [of _ 0])
  then have "pair_inv t0 (fst (run_machine (pair_step hash) (pair_trace_init g t0) calls))"
    using assms(3) by (rule pair_run.run_inv)
  then show ?thesis by (simp add: pair_inv_def)
qed

definition demo_guard :: pairing_guard where
  "demo_guard = \<lparr>require_pairing = True, pairing_code = Some ''123456'', paired_tokens = [],
     token_ttl_secs = 60, failed_count = 0, locked_at = None, disk = None\<rparr>"

definition demo_call :: "rstr \<Rightarrow> pair_call" where
  "demo_call code = \<lparr>pc_code = code, pc_check = 0, pc_count = 0, pc_wall = 0, pc_random = [], pc_write_ok = True\<rparr>"

theorem pairing_guesses_bounded_witness:
  "pt_guesses (fst (run_machine (pair_step id) (pair_trace_init demo_guard 0)
     (replicate 4 (demo_call ''000000'') @ [demo_call ''123456'']))) \<le> 5"
proof -
  let ?cs = "replicate 4 (demo_call ''000000'') @ [demo_call ''123456'']"
  have e: "events_ok (pair_step id) pair_clock_ok (pair_trace_init demo_guard 0) ?cs"
    and z: "pt_clock (fst (run_machine (pair_step id) (pair_trace_init demo_guard 0) ?cs)) = 0"
    by code_simp+
  show ?thesis
    using pairing_guesses_bounded [OF _ _ e] z by (simp add: demo_guard_def periods_def)
qed

subsection \<open>The code is used once\<close>

definition paired_output :: "(nat, rstr option) result \<Rightarrow> bool" where
  "paired_output r = (case r of Inr (Some _) \<Rightarrow> True | _ \<Rightarrow> False)"

lemma check_lockout_keeps: "pairing_code (fst (check_lockout now g)) = pairing_code g"
  by (auto simp: check_lockout_def split: option.splits)

lemma try_pair_success:
  "snd (try_pair hash g c) = Ok (Some t) \<longleftrightarrow>
     snd (check_lockout (pc_check c) g) = Ok () \<and> t = generate_token (pc_random c) \<and>
     (\<exists>e. pairing_code g = Some e \<and> trim (pc_code c) = trim e)"
  using check_lockout_keeps [of "pc_check c" g]
  by (cases "pairing_code g") (auto simp: try_pair_def compare_code_def constant_time_eq_equality Let_def
      split: prod.splits sum.splits option.splits)

lemma try_pair_success_code: "paired_output (snd (try_pair hash g c)) \<Longrightarrow> pairing_code (fst (try_pair hash g c)) = None"
  by (auto simp: paired_output_def try_pair_def compare_code_def Let_def
      split: prod.splits sum.splits option.splits if_splits)

lemma no_code_no_success: "pairing_code g = None \<Longrightarrow> \<not> paired_output (snd (try_pair hash g c))"
  using try_pair_code [of g hash c] by (auto simp: paired_output_def split: sum.splits option.splits)

lemma no_code_run:
  "pairing_code g = None \<Longrightarrow> filter paired_output (snd (run_machine (try_pair hash) g calls)) = []"
  by (induction calls arbitrary: g) (simp_all add: no_code_no_success try_pair_code)

text \<open>The pairing code works once. A call succeeds exactly when it is not locked out and its trimmed code
  is the trimmed live code; and in any sequence of calls at most one succeeds.\<close>

theorem pairing_code_used_once:
  "(snd (try_pair hash g c) = Ok (Some t) \<longleftrightarrow>
      snd (check_lockout (pc_check c) g) = Ok () \<and> t = generate_token (pc_random c) \<and>
      (\<exists>e. pairing_code g = Some e \<and> trim (pc_code c) = trim e)) \<and>
   length (filter paired_output (snd (run_machine (try_pair hash) g calls))) \<le> 1"
proof -
  have "length (filter paired_output (snd (run_machine (try_pair hash) g calls))) \<le> 1"
  proof (induction calls arbitrary: g)
    case (Cons c calls)
    show ?case
      using Cons.IH [of "fst (try_pair hash g c)"] no_code_run [OF try_pair_success_code [of hash g c], of hash calls]
      by (cases "paired_output (snd (try_pair hash g c))") simp_all
  qed simp
  then show ?thesis by (simp add: try_pair_success)
qed

subsection \<open>Bearer tokens\<close>

text \<open>Which bearer tokens are accepted. A token whose hash was issued is accepted for less than the
  token lifetime and refused after it, whatever else happened; at exactly the lifetime the answer
  depends on the other tokens: it is accepted as long as no token of the table is older than the
  lifetime. The empty token and unknown tokens are refused.\<close>

theorem token_acceptance:
  assumes "keys_distinct (paired_tokens g)" "0 < token_ttl_secs g"
  shows "snd (is_accepted_token hash now write_ok token g) \<longleftrightarrow>
    token \<noteq> [] \<and>
    (\<exists>ts. map_of (paired_tokens g) (hash token) = Some ts \<and>
       (now - ts < token_ttl_secs g \<or>
        now - ts = token_ttl_secs g \<and>
        \<not> list_ex (\<lambda>(k, ts'). token_ttl_secs g < now - ts') (paired_tokens g)))"
proof -
  have clean: "paired_tokens (clean_tokens now write_ok g) = retain_live now (token_ttl_secs g) (paired_tokens g)"
    by (simp add: clean_tokens_def retain_non_expired_tokens_def persist_tokens_def Let_def split: option.splits)
  have old: "now - ts \<le> token_ttl_secs g"
    if "map_of (paired_tokens g) k = Some ts" "\<not> list_ex (\<lambda>(k, ts'). token_ttl_secs g < now - ts') (paired_tokens g)"
    for k ts
    using that by (auto simp: list_ex_iff dest!: map_of_SomeD)
  show ?thesis
  proof (cases "list_ex (\<lambda>(k, ts'). token_ttl_secs g < now - ts') (paired_tokens g)")
    case True
    then show ?thesis
      using assms
      by (auto simp: is_accepted_token_def Let_def clean timed.find_retain live_at_def split: option.splits)
  next
    case False
    then show ?thesis
      using assms old [OF _ False] by (auto simp: is_accepted_token_def Let_def le_less)
  qed
qed

definition demo_paired :: "nat list \<Rightarrow> pairing_guard" where
  "demo_paired ages = demo_guard\<lparr>pairing_code := None,
     paired_tokens := zip [''h1'', ''h2''] (map (\<lambda>a. 100 - a) ages)\<rparr>"

theorem token_acceptance_witness:
  "snd (is_accepted_token id 100 True ''h1'' (demo_paired [60])) \<and>
   \<not> snd (is_accepted_token id 100 True ''h1'' (demo_paired [60, 61]))"
proof -
  have w: "keys_distinct (paired_tokens (demo_paired [60]))" "keys_distinct (paired_tokens (demo_paired [60, 61]))"
    by (simp_all add: keys_distinct_def demo_paired_def)
  have t: "0 < token_ttl_secs (demo_paired [60])" "0 < token_ttl_secs (demo_paired [60, 61])"
    by (simp_all add: demo_paired_def demo_guard_def)
  show ?thesis
    using token_acceptance [OF w(1) t(1), of id 100 True "''h1''"]
      token_acceptance [OF w(2) t(2), of id 100 True "''h1''"]
    by (simp add: demo_paired_def demo_guard_def)
qed

subsection \<open>Codes are uniform\<close>

lemma decode_pad6: "decode_digits (pad6 n) = n"
proof -
  have "decode_digits (replicate k (CHR ''0'') @ s) = decode_digits s" for k s
    by (induction k) (simp_all add: decode_digits_def byte_def)
  then show ?thesis by (simp add: pad6_def decode_decimal)
qed

lemma pad6_inj: "pad6 m = pad6 n \<longleftrightarrow> m = n"
  by (metis decode_pad6)

lemma unat_draw:
  assumes "k < 4294" "n < 1000000"
  shows "unat (of_nat (1000000 * k + n) :: u32) = 1000000 * k + n"
  using assms by (subst unat_of_nat) simp

lemma draws_of_code:
  assumes "n < 1000000"
  shows "{raw :: u32. unat raw < 4294000000 \<and> unat raw mod 1000000 = n} =
         (\<lambda>k. of_nat (1000000 * k + n)) ` {..<4294}"
proof (intro set_eqI iffI)
  fix raw :: u32
  assume "raw \<in> {raw. unat raw < 4294000000 \<and> unat raw mod 1000000 = n}"
  then have h: "unat raw < 4294000000" "unat raw mod 1000000 = n" by simp_all
  have "raw = of_nat (1000000 * (unat raw div 1000000) + n)"
  proof -
    have "1000000 * (unat raw div 1000000) + n = unat raw" using h(2) mult_div_mod_eq by metis
    then show ?thesis by simp
  qed
  moreover have "unat raw div 1000000 < 4294" using h(1) by (simp add: less_mult_imp_div_less)
  ultimately show "raw \<in> (\<lambda>k. of_nat (1000000 * k + n)) ` {..<4294}" by blast
next
  fix raw :: u32
  assume "raw \<in> (\<lambda>k. of_nat (1000000 * k + n)) ` {..<4294}"
  then obtain k where k: "k < 4294" "raw = of_nat (1000000 * k + n)" by auto
  then have "unat raw = 1000000 * k + n" using assms unat_draw by metis
  then show "raw \<in> {raw. unat raw < 4294000000 \<and> unat raw mod 1000000 = n}"
    using k(1) assms by simp
qed

text \<open>Pairing codes are uniform. Every six-digit code is produced by exactly 4294 of the 32-bit draws;
  the other draws are rejected and drawn again.\<close>

theorem pairing_code_uniform:
  assumes "n < 1000000"
  shows "card {raw. generate_code [raw] = Some (pad6 n)} = 4294"
proof -
  have s: "{raw. generate_code [raw] = Some (pad6 n)} =
      {raw :: u32. unat raw < 4294000000 \<and> unat raw mod 1000000 = n}"
    by (auto simp: code_reject_threshold_def code_upper_bound_def pad6_inj)
  have "inj_on (\<lambda>k. of_nat (1000000 * k + n) :: u32) {..<4294}"
  proof (rule inj_onI)
    fix k l :: nat
    assume "k \<in> {..<4294}" "l \<in> {..<4294}" "(of_nat (1000000 * k + n) :: u32) = of_nat (1000000 * l + n)"
    then have "unat (of_nat (1000000 * k + n) :: u32) = unat (of_nat (1000000 * l + n) :: u32)"
      "k < 4294" "l < 4294" by (simp_all only: lessThan_iff)
    then show "k = l" using unat_draw [of k n] unat_draw [of l n] assms by linarith
  qed
  then show ?thesis
    unfolding s draws_of_code [OF assms] by (simp add: card_image)
qed

theorem pairing_code_uniform_witness: "card {raw. generate_code [raw] = Some (pad6 7)} = 4294"
  by (rule pairing_code_uniform) simp

text \<open>A host name of four labels that starts with 127 counts as a loopback address.\<close>

lemma loopback_shaped_host_is_private: "\<not> is_public_bind ''127.attacker.example.com''"
  by code_simp

text \<open>
  The lockout check and the counting of a failure are separate critical sections: any number of
  calls that check before the first failure is counted pass the check, and the guard is as before.
\<close>

lemma parallel_checks_pass:
  "locked_at g = None \<Longrightarrow>
   run_machine (\<lambda>g now. check_lockout now g) g nows = (g, replicate (length nows) (Ok ()))"
proof (induction nows)
  case (Cons t nows)
  then show ?case by (intro prod_eqI) (simp_all add: check_lockout_def)
qed simp

end
