(* ===== verification/Replay_Guard.thy ===== *)
theory Replay_Guard
  imports Timed_Entries "HOL-Library.Multiset"
begin

text \<open>
  Replay protection of the webhook endpoints (\<open>src/src/transport/gateway/replay_guard.rs\<close>): the
  table of recent nonces, its pruning by age and by size, and the flush to disk. The hash is a
  parameter; the background thread is a sequence of flushes.
\<close>

definition default_ttl_secs :: nat where
  "default_ttl_secs = 300"

definition max_entries :: nat where
  "max_entries = 10000"

definition default_prune_interval_ops :: nat where
  "default_prune_interval_ops = 64"

subsection \<open>Pruning\<close>

text \<open>
  A \<open>retain\<close> pass that drops entries satisfying \<open>P\<close> until \<open>overflow\<close> have been removed;
  \<open>n\<close> counts the removed ones.
\<close>

fun drop_counted :: "(unix_secs \<Rightarrow> bool) \<Rightarrow> nat \<Rightarrow> nat \<Rightarrow> timed_table \<Rightarrow> timed_table \<times> nat" where
  "drop_counted P overflow n [] = ([], n)"
| "drop_counted P overflow n ((k, ts) # m) =
     (if overflow \<le> n then (let (m', n') = drop_counted P overflow n m in ((k, ts) # m', n'))
      else if P ts then drop_counted P overflow (n + 1) m
      else (let (m', n') = drop_counted P overflow n m in ((k, ts) # m', n')))"

text \<open>\<open>select_nth_unstable(i)\<close> puts at \<open>i\<close> what sorting would put there.\<close>

definition prune_entries_to :: "nat \<Rightarrow> unix_secs \<Rightarrow> nat \<Rightarrow> timed_table \<Rightarrow> timed_table" where
  "prune_entries_to max_len now ttl seen =
     (let seen = retain_live now ttl seen in
      if length seen \<le> max_len then seen
      else let overflow = length seen - max_len in
        if overflow = 0 then seen
        else let threshold = sort (map snd seen) ! (overflow - 1);
                 (seen, removed) = drop_counted (\<lambda>ts. ts < threshold) overflow 0 seen
             in if removed < overflow
                then fst (drop_counted (\<lambda>ts. ts = threshold) overflow removed seen)
                else seen)"

definition prune_entries :: "unix_secs \<Rightarrow> nat \<Rightarrow> timed_table \<Rightarrow> timed_table" where
  "prune_entries now ttl seen = prune_entries_to max_entries now ttl seen"

subsection \<open>The guard\<close>

text \<open>The storage: sequence numbers of the last mutation and of the last one on disk, and the file.\<close>

record replay_storage =
  mutation_seq :: nat
  persisted_seq :: nat
  dirty_ops_threshold :: nat
  file_entries :: timed_table

record replay_guard =
  seen :: timed_table
  ttl_secs :: nat
  mutation_count :: nat
  storage :: "replay_storage option"

definition new_with_options :: "timed_table option option \<Rightarrow> nat \<Rightarrow> nat \<Rightarrow> unix_secs \<Rightarrow> replay_guard" where
  "new_with_options file ttl dirty_threshold now =
     (let loaded = (case file of Some (Some entries) \<Rightarrow> entries | _ \<Rightarrow> [])
      in \<lparr>seen = prune_entries now ttl loaded, ttl_secs = ttl, mutation_count = 0,
          storage = (case file of None \<Rightarrow> None
             | Some f \<Rightarrow> Some \<lparr>mutation_seq = 0, persisted_seq = 0,
                             dirty_ops_threshold = max dirty_threshold 1,
                             file_entries = (case f of Some e \<Rightarrow> e | None \<Rightarrow> [])\<rparr>)\<rparr>)"

definition build_nonce :: "(rstr \<Rightarrow> rstr) \<Rightarrow> rstr \<Rightarrow> rstr \<Rightarrow> rstr" where
  "build_nonce hash scope body = hash (scope @ '':'' @ body)"

text \<open>\<open>record_mutation\<close> wakes the flush thread (the second component) when enough is unsaved.\<close>

definition record_mutation :: "replay_guard \<Rightarrow> replay_guard \<times> bool" where
  "record_mutation g =
     (case storage g of
        None \<Rightarrow> (g, False)
      | Some s \<Rightarrow>
          let sequence = mutation_seq s + 1
          in (g\<lparr>storage := Some (s\<lparr>mutation_seq := sequence\<rparr>)\<rparr>,
              dirty_ops_threshold s \<le> sequence - persisted_seq s))"

definition check_and_record_hash ::
  "(rstr \<Rightarrow> rstr) \<Rightarrow> unix_secs \<Rightarrow> rstr \<Rightarrow> rstr \<Rightarrow> replay_guard \<Rightarrow> replay_guard \<times> bool" where
  "check_and_record_hash hash now scope body g =
     (let nonce = build_nonce hash scope body;
          mutation = mutation_count g + 1;
          g = g\<lparr>mutation_count := mutation\<rparr>
      in if (case map_of (seen g) nonce of Some ts \<Rightarrow> now - ts < ttl_secs g | None \<Rightarrow> False)
         then (g, False)
         else let entries = table_insert nonce now (seen g);
                  entries = (if max_entries < length entries \<or> mutation mod default_prune_interval_ops = 0
                             then prune_entries now (ttl_secs g) entries else entries)
              in (fst (record_mutation (g\<lparr>seen := entries\<rparr>)), True))"

definition forget_scoped :: "(rstr \<Rightarrow> rstr) \<Rightarrow> rstr \<Rightarrow> rstr \<Rightarrow> replay_guard \<Rightarrow> replay_guard" where
  "forget_scoped hash scope body g =
     (let nonce = build_nonce hash scope body;
          removed = (map_of (seen g) nonce \<noteq> None);
          g = g\<lparr>seen := table_remove nonce (seen g)\<rparr>
      in if removed then fst (record_mutation g) else g)"

definition flush_replay_state :: "unix_secs \<Rightarrow> bool \<Rightarrow> replay_guard \<Rightarrow> replay_guard" where
  "flush_replay_state now write_ok g =
     (case storage g of
        None \<Rightarrow> g
      | Some s \<Rightarrow>
          if mutation_seq s \<le> persisted_seq s then g
          else let entries = prune_entries now (ttl_secs g) (seen g);
                   g = g\<lparr>seen := entries\<rparr>
               in if \<not> write_ok then g
                  else g\<lparr>storage := Some (s\<lparr>persisted_seq := max (persisted_seq s) (mutation_seq s),
                                           file_entries := entries\<rparr>)\<rparr>)"

subsection \<open>What pruning keeps\<close>

lemma drop_counted_full: "overflow \<le> n \<Longrightarrow> drop_counted P overflow n m = (m, n)"
  by (induction m) auto

lemma drop_counted_count:
  "n \<le> overflow \<Longrightarrow>
   snd (drop_counted P overflow n m) = min overflow (n + length (filter (\<lambda>(k, ts). P ts) m)) \<and>
   length (fst (drop_counted P overflow n m)) + snd (drop_counted P overflow n m) = n + length m"
proof (induction m arbitrary: n)
  case (Cons a m)
  show ?case
  proof (cases "overflow \<le> n")
    case True
    then show ?thesis using Cons.prems by (simp add: drop_counted_full)
  next
    case False
    then show ?thesis
      using Cons.IH [of n] Cons.IH [of "n + 1"] Cons.prems by (cases a) (auto simp: case_prod_unfold Let_def)
  qed
qed auto

lemma drop_counted_subset: "set (fst (drop_counted P overflow n m)) \<subseteq> set m"
  by (induction P overflow n m rule: drop_counted.induct) (auto simp: case_prod_unfold Let_def)

lemma drop_counted_keeps: "e \<in> set m \<Longrightarrow> \<not> P (snd e) \<Longrightarrow> e \<in> set (fst (drop_counted P overflow n m))"
  by (induction P overflow n m rule: drop_counted.induct) (auto simp: case_prod_unfold Let_def)

lemma drop_counted_distinct: "keys_distinct m \<Longrightarrow> keys_distinct (fst (drop_counted P overflow n m))"
proof (induction P overflow n m rule: drop_counted.induct)
  case (2 P overflow n k ts m)
  have "k \<notin> fst ` set (fst (drop_counted P overflow l m))" for l
    using 2(4) drop_counted_subset [of P overflow l m] by (auto simp: keys_distinct_def)
  with 2 show ?case by (auto simp: case_prod_unfold Let_def keys_distinct_def)
qed simp

text \<open>When fewer entries than asked for satisfy \<open>P\<close>, all of them go.\<close>

lemma drop_counted_all:
  "snd (drop_counted P overflow n m) < overflow \<Longrightarrow> n \<le> overflow \<Longrightarrow>
   fst (drop_counted P overflow n m) = filter (\<lambda>e. \<not> P (snd e)) m"
proof (induction m arbitrary: n)
  case (Cons a m)
  then show ?case
    by (cases a) (auto simp: case_prod_unfold Let_def drop_counted_full split: if_splits)
qed simp

lemma count_below_sorted:
  fixes xs :: "nat list"
  assumes "i < length xs"
  shows "length (filter (\<lambda>x. x < sort xs ! i) xs) \<le> i" "i < length (filter (\<lambda>x. x \<le> sort xs ! i) xs)"
proof -
  let ?s = "sort xs"
  have perm: "length (filter P xs) = length (filter P ?s)" for P
    by (metis mset_filter mset_sort size_mset)
  have s: "sorted ?s" "i < length ?s" using assms by simp_all
  have "filter (\<lambda>x. x < ?s ! i) ?s = filter (\<lambda>x. x < ?s ! i) (take i ?s)"
  proof -
    have "filter (\<lambda>x. x < ?s ! i) (drop i ?s) = []"
      using s by (auto simp: filter_empty_conv in_set_conv_nth not_less intro!: sorted_nth_mono)
    then show ?thesis by (metis append_Nil2 append_take_drop_id filter_append)
  qed
  then show "length (filter (\<lambda>x. x < ?s ! i) xs) \<le> i"
    using perm [of "\<lambda>x. x < ?s ! i"] length_filter_le [of "\<lambda>x. x < ?s ! i" "take i ?s"] s by simp
  have "filter (\<lambda>x. x \<le> ?s ! i) (take (Suc i) ?s) = take (Suc i) ?s"
    using s by (auto simp: filter_id_conv in_set_conv_nth intro!: sorted_nth_mono)
  then have "length (take (Suc i) ?s) \<le> length (filter (\<lambda>x. x \<le> ?s ! i) ?s)"
    by (metis append_take_drop_id filter_append le_add1 length_append)
  then show "i < length (filter (\<lambda>x. x \<le> ?s ! i) xs)"
    using perm [of "\<lambda>x. x \<le> ?s ! i"] s by simp
qed

lemma prune_entries_to_over:
  fixes tab now ttl max_len
  defines "live \<equiv> retain_live now ttl tab"
  defines "overflow \<equiv> length live - max_len"
  defines "threshold \<equiv> sort (map snd live) ! (overflow - 1)"
  assumes over: "max_len < length live"
  shows "length (prune_entries_to max_len now ttl tab) = max_len"
    and "e \<in> set live \<Longrightarrow> threshold < snd e \<Longrightarrow> e \<in> set (prune_entries_to max_len now ttl tab)"
    and "e \<in> set (prune_entries_to max_len now ttl tab) \<Longrightarrow> e \<in> set live \<and> threshold \<le> snd e"
proof -
  define m1 n1 where "m1 = fst (drop_counted (\<lambda>ts. ts < threshold) overflow 0 live)"
    and "n1 = snd (drop_counted (\<lambda>ts. ts < threshold) overflow 0 live)"
  have pos: "0 < overflow" "overflow \<le> length live" using over by (auto simp: overflow_def)
  have i: "overflow - 1 < length (map snd live)" using pos by (simp add: overflow_def)
  have flt: "length (filter (\<lambda>(k, ts). P ts) xs) = length (filter P (map snd xs))" for P and xs :: timed_table
    by (simp add: filter_map comp_def case_prod_unfold)
  have n1: "n1 = length (filter (\<lambda>(k, ts). ts < threshold) live)" "n1 < overflow"
    using drop_counted_count [of 0 overflow "\<lambda>ts. ts < threshold" live]
      count_below_sorted(1) [OF i] pos
    by (auto simp: n1_def threshold_def flt)
  have m1: "m1 = filter (\<lambda>e. \<not> snd e < threshold) live"
    using drop_counted_all [of "\<lambda>ts. ts < threshold" overflow 0 live] n1(2) by (simp add: m1_def n1_def)
  have p: "prune_entries_to max_len now ttl tab = fst (drop_counted (\<lambda>ts. ts = threshold) overflow n1 m1)"
  proof -
    have "sort (map snd live) ! (overflow - Suc 0) = threshold" by (simp add: threshold_def)
    then show ?thesis
      using over pos n1(2)
      by (simp add: prune_entries_to_def Let_def live_def [symmetric] overflow_def [symmetric]
          case_prod_unfold n1_def m1_def)
  qed
  have len1: "length m1 + n1 = length live"
    using drop_counted_count [of 0 overflow "\<lambda>ts. ts < threshold" live] by (simp add: m1_def n1_def)
  have eq: "overflow \<le> n1 + length (filter (\<lambda>(k, ts). ts = threshold) m1)"
  proof -
    have le: "overflow \<le> length (filter (\<lambda>(k, ts). ts \<le> threshold) live)"
      using count_below_sorted(2) [OF i] pos by (simp add: threshold_def flt)
    have "filter (\<lambda>(k, ts). ts = threshold) m1 = filter (\<lambda>(k, ts). ts = threshold) live"
      by (auto simp: m1 case_prod_unfold intro!: filter_cong)
    moreover have "length (filter (\<lambda>(k, ts). ts \<le> threshold) xs) =
        length (filter (\<lambda>(k, ts). ts < threshold) xs) + length (filter (\<lambda>(k, ts). ts = threshold) xs)"
      for xs :: timed_table by (induction xs) auto
    ultimately show ?thesis using le n1(1) by simp
  qed
  have c2: "snd (drop_counted (\<lambda>ts. ts = threshold) overflow n1 m1) = overflow"
    "length (fst (drop_counted (\<lambda>ts. ts = threshold) overflow n1 m1)) + overflow = n1 + length m1"
    using drop_counted_count [of n1 overflow "\<lambda>ts. ts = threshold" m1] n1(2) eq by simp_all
  show "length (prune_entries_to max_len now ttl tab) = max_len"
    using c2(2) len1 over by (simp add: p overflow_def)
  show "e \<in> set (prune_entries_to max_len now ttl tab)" if "e \<in> set live" "threshold < snd e"
    unfolding p using that by (intro drop_counted_keeps) (auto simp: m1)
  show "e \<in> set live \<and> threshold \<le> snd e" if "e \<in> set (prune_entries_to max_len now ttl tab)"
    using that drop_counted_subset [of "\<lambda>ts. ts = threshold" overflow n1 m1] by (auto simp: p m1)
qed

lemma prune_entries_to_under:
  "length (retain_live now ttl tab) \<le> max_len \<Longrightarrow> prune_entries_to max_len now ttl tab = retain_live now ttl tab"
  by (simp add: prune_entries_to_def Let_def)

lemma prune_entries_distinct: "keys_distinct tab \<Longrightarrow> keys_distinct (prune_entries now ttl tab)"
  by (simp add: prune_entries_def prune_entries_to_def Let_def case_prod_unfold timed_wf drop_counted_distinct)

text \<open>Pruning keeps the newest entries. The table has at most the maximal number of entries
  afterwards, all of them live, all live entries if they fit and exactly the maximal number
  otherwise; and no dropped live entry is newer than a kept one.\<close>

theorem prune_keeps_newest:
  "length (prune_entries_to max_len now ttl tab) = min max_len (length (retain_live now ttl tab)) \<and>
   set (prune_entries_to max_len now ttl tab) \<subseteq> set (retain_live now ttl tab) \<and>
   (d \<in> set (retain_live now ttl tab) - set (prune_entries_to max_len now ttl tab) \<and>
    k \<in> set (prune_entries_to max_len now ttl tab) \<longrightarrow> snd d \<le> snd k)"
proof (cases "max_len < length (retain_live now ttl tab)")
  case True
  note over = prune_entries_to_over [OF True]
  show ?thesis
    using over(1) over(2) [of d] over(3) True by fastforce
next
  case False
  then show ?thesis by (simp add: prune_entries_to_under)
qed

theorem prune_keeps_newest_witness:
  "snd (''a'', 1 :: nat) \<le> snd (''b'', 2 :: nat)"
proof -
  have "prune_entries_to 1 2 10 [(''b'', 2), (''a'', 1)] = [(''b'', 2)]"
    "retain_live 2 10 [(''b'', 2), (''a'', 1)] = [(''b'', 2), (''a'', 1)]"
    by (simp_all add: prune_entries_to_def retain_live_def live_at_def)
  then show ?thesis
    using prune_keeps_newest [of 1 2 10 "[(''b'', 2), (''a'', 1)]" "(''a'', 1)" "(''b'', 2)"] by simp
qed

subsection \<open>Runs of the guard\<close>

datatype replay_event =
    Check unix_secs rstr rstr
  | Forget rstr rstr
  | Flush unix_secs bool

definition replay_step ::
  "(rstr \<Rightarrow> rstr) \<Rightarrow> replay_guard \<Rightarrow> replay_event \<Rightarrow> replay_guard \<times> bool option" where
  "replay_step hash g ev =
     (case ev of
        Check now scope body \<Rightarrow>
          (let (g, fresh) = check_and_record_hash hash now scope body g in (g, Some fresh))
      | Forget scope body \<Rightarrow> (forget_scoped hash scope body g, None)
      | Flush now ok \<Rightarrow> (flush_replay_state now ok g, None))"

lemma record_mutation_keeps [simp]:
  "seen (fst (record_mutation g)) = seen g" "ttl_secs (fst (record_mutation g)) = ttl_secs g"
  by (auto simp: record_mutation_def Let_def split: option.splits)

lemma check_seen:
  "seen (fst (check_and_record_hash hash now scope body g)) =
     (if snd (check_and_record_hash hash now scope body g)
      then (let entries = table_insert (build_nonce hash scope body) now (seen g)
            in if max_entries < length entries \<or> (mutation_count g + 1) mod default_prune_interval_ops = 0
               then prune_entries now (ttl_secs g) entries else entries)
      else seen g)"
  by (simp add: check_and_record_hash_def Let_def)

lemma check_fresh:
  "snd (check_and_record_hash hash now scope body g) \<longleftrightarrow>
     (case map_of (seen g) (build_nonce hash scope body) of None \<Rightarrow> True | Some ts \<Rightarrow> ttl_secs g \<le> now - ts)"
  by (auto simp: check_and_record_hash_def Let_def split: option.splits)

lemma step_ttl [simp]: "ttl_secs (fst (replay_step hash g ev)) = ttl_secs g"
  by (auto simp: replay_step_def check_and_record_hash_def forget_scoped_def flush_replay_state_def
      Let_def case_prod_unfold split: replay_event.splits option.splits)

lemma run_ttl [simp]: "ttl_secs (fst (run_machine (replay_step hash) g evs)) = ttl_secs g"
  by (induction evs arbitrary: g) simp_all

lemma length_prune_le: "length (prune_entries now ttl m) \<le> length m"
proof (cases "max_entries < length (retain_live now ttl m)")
  case True
  then show ?thesis
    using prune_entries_to_over(1) [OF True] length_retain_live [of now ttl m] by (simp add: prune_entries_def)
next
  case False
  then show ?thesis using length_retain_live by (simp add: prune_entries_def prune_entries_to_under)
qed

lemma length_prune_max: "length (prune_entries now ttl m) \<le> max_entries"
  by (cases "max_entries < length (retain_live now ttl m)")
    (simp_all add: prune_entries_def prune_entries_to_over(1) prune_entries_to_under)

lemma prune_under: "length m \<le> max_entries \<Longrightarrow> prune_entries now ttl m = retain_live now ttl m"
  using length_retain_live [of now ttl m] by (simp add: prune_entries_def prune_entries_to_under)

definition table_ok :: "replay_guard \<Rightarrow> bool" where
  "table_ok g \<longleftrightarrow> keys_distinct (seen g) \<and> length (seen g) \<le> max_entries"

lemma length_remove: "length (table_remove k m) \<le> length m"
  by (simp add: table_remove_def AList.delete_eq)

lemma flush_seen:
  "seen (flush_replay_state now ok g) = seen g \<or> seen (flush_replay_state now ok g) = prune_entries now (ttl_secs g) (seen g)"
  by (auto simp: flush_replay_state_def Let_def split: option.splits)

lemma table_ok_step: "table_ok g \<Longrightarrow> table_ok (fst (replay_step hash g ev))"
proof (cases ev)
  case (Check now scope body)
  assume ok: "table_ok g"
  then show ?thesis
    using Check keys_distinct_insert [of "seen g"] length_prune_max
    by (auto simp: table_ok_def replay_step_def case_prod_unfold Let_def check_seen prune_entries_distinct)
next
  case (Forget scope body)
  assume "table_ok g"
  then show ?thesis
    using Forget length_remove [of _ "seen g"]
    by (auto simp: table_ok_def replay_step_def forget_scoped_def Let_def keys_distinct_remove intro: le_trans)
next
  case (Flush now ok)
  assume "table_ok g"
  then show ?thesis
    using Flush flush_seen [of now ok g] length_prune_max
    by (auto simp: table_ok_def replay_step_def prune_entries_distinct)
qed

interpretation replay_run: guarded_machine "replay_step hash" "\<lambda>_ _. True" table_ok for hash
  by unfold_locales (rule table_ok_step)

lemma table_ok_new: "keys_distinct entries \<Longrightarrow> table_ok (new_with_options (Some (Some entries)) ttl thr t0)"
  by (simp add: table_ok_def new_with_options_def Let_def prune_entries_distinct length_prune_max)

text \<open>The table of nonces never exceeds 10000 entries, whatever the requests, and keeps one entry per
  nonce.\<close>

theorem replay_table_bounded:
  assumes "keys_distinct entries"
  shows "length (seen (fst (run_machine (replay_step hash) (new_with_options (Some (Some entries)) ttl thr t0) evs)))
           \<le> max_entries \<and>
         keys_distinct (seen (fst (run_machine (replay_step hash) (new_with_options (Some (Some entries)) ttl thr t0) evs)))"
proof -
  have "table_ok (fst (run_machine (replay_step hash) (new_with_options (Some (Some entries)) ttl thr t0) evs))"
    by (rule replay_run.run_inv [OF table_ok_new [OF assms]]) (rule events_ok_trivial, simp)
  then show ?thesis by (simp add: table_ok_def)
qed

theorem replay_table_bounded_witness:
  "length (seen (fst (run_machine (replay_step id) (new_with_options (Some (Some [])) 300 1 0) [Check 5 [] ''b''])))
     \<le> max_entries"
  using replay_table_bounded [of "[]" id 300 1 0 "[Check 5 [] ''b'']"] by (simp add: keys_distinct_def)

subsection \<open>Replays are rejected\<close>

definition event_time_ok :: "unix_secs \<Rightarrow> nat \<Rightarrow> replay_event \<Rightarrow> bool" where
  "event_time_ok t ttl ev = (case ev of Check now _ _ \<Rightarrow> now - t < ttl | Flush now _ \<Rightarrow> now - t < ttl | Forget _ _ \<Rightarrow> True)"

definition forgets :: "(rstr \<Rightarrow> rstr) \<Rightarrow> rstr \<Rightarrow> replay_event \<Rightarrow> bool" where
  "forgets hash nonce ev = (case ev of Forget scope body \<Rightarrow> build_nonce hash scope body = nonce | _ \<Rightarrow> False)"

definition remembers :: "rstr \<Rightarrow> unix_secs \<Rightarrow> nat \<Rightarrow> replay_guard \<Rightarrow> bool" where
  "remembers nonce t n g \<longleftrightarrow>
     keys_distinct (seen g) \<and> map_of (seen g) nonce = Some t \<and> length (seen g) \<le> n"

lemma remembers_prune:
  "keys_distinct m \<Longrightarrow> length m \<le> max_entries \<Longrightarrow> map_of m k = Some t \<Longrightarrow> live_at now ttl t \<Longrightarrow>
   map_of (prune_entries now ttl m) k = Some t"
  by (simp add: prune_under timed.find_retain_Some)

lemma remembers_step:
  assumes r: "remembers nonce t n g" and n: "n < max_entries"
    and ok: "event_time_ok t (ttl_secs g) ev" and nf: "\<not> forgets hash nonce ev"
  shows "remembers nonce t (Suc n) (fst (replay_step hash g ev))"
proof (cases ev)
  case (Check now scope body)
  let ?k = "build_nonce hash scope body" and ?m = "table_insert (build_nonce hash scope body) now (seen g)"
  have live: "live_at now (ttl_secs g) t" using ok Check by (simp add: event_time_ok_def live_at_def)
  show ?thesis
  proof (cases "snd (check_and_record_hash hash now scope body g)")
    case False
    then show ?thesis using r Check by (auto simp: remembers_def replay_step_def case_prod_unfold check_seen)
  next
    case True
    then have "?k \<noteq> nonce" using r live by (auto simp: check_fresh remembers_def live_at_def)
    then have m: "map_of ?m nonce = Some t" "keys_distinct ?m" "length ?m \<le> Suc n"
      using r length_insert [of ?k now "seen g"] by (auto simp: remembers_def map_of_insert keys_distinct_insert)
    then have "map_of (prune_entries now (ttl_secs g) ?m) nonce = Some t"
      using n live by (intro remembers_prune) simp_all
    then show ?thesis
      using m True Check length_prune_le [of now "ttl_secs g" ?m]
      by (auto simp: remembers_def replay_step_def case_prod_unfold check_seen Let_def prune_entries_distinct)
  qed
next
  case (Forget scope body)
  then show ?thesis
    using r nf length_remove [of "build_nonce hash scope body" "seen g"]
    by (auto simp: remembers_def replay_step_def forget_scoped_def forgets_def Let_def map_of_remove
        keys_distinct_remove)
next
  case (Flush now okf)
  have "map_of (prune_entries now (ttl_secs g) (seen g)) nonce = Some t"
    using r n ok Flush by (intro remembers_prune) (simp_all add: remembers_def event_time_ok_def live_at_def)
  then show ?thesis
    using r Flush flush_seen [of now okf g] length_prune_le [of now "ttl_secs g" "seen g"]
    by (auto simp: remembers_def replay_step_def prune_entries_distinct)
qed

lemma remembers_run:
  "remembers nonce t n g \<Longrightarrow> n + length evs \<le> max_entries \<Longrightarrow>
   list_all (\<lambda>ev. event_time_ok t (ttl_secs g) ev \<and> \<not> forgets hash nonce ev) evs \<Longrightarrow>
   remembers nonce t (n + length evs) (fst (run_machine (replay_step hash) g evs))"
proof (induction evs arbitrary: n g)
  case (Cons ev evs)
  then have "remembers nonce t (Suc n) (fst (replay_step hash g ev))" by (intro remembers_step) simp_all
  then have "remembers nonce t (Suc n + length evs)
      (fst (run_machine (replay_step hash) (fst (replay_step hash g ev)) evs))"
    using Cons.prems by (intro Cons.IH) simp_all
  then show ?case by simp
qed simp

text \<open>C25: a request is not processed twice within the time to live. Once a check has accepted a scope and body,
  every later check of them within the time to live is rejected, whatever other checks, flushes and
  forgets of other requests come between, as long as the table has room for them and the request
  itself is not forgotten.\<close>

theorem replay_rejected:
  assumes "keys_distinct (seen g)" "length (seen g) + length evs < max_entries"
    and "snd (check_and_record_hash hash t scope body g)" "0 < ttl_secs g"
    and "list_all (\<lambda>ev. event_time_ok t (ttl_secs g) ev \<and> \<not> forgets hash (build_nonce hash scope body) ev) evs"
    and "now - t < ttl_secs g"
  shows "\<not> snd (check_and_record_hash hash now scope body
           (fst (run_machine (replay_step hash) (fst (check_and_record_hash hash t scope body g)) evs)))"
proof -
  let ?k = "build_nonce hash scope body" and ?g = "fst (check_and_record_hash hash t scope body g)"
  let ?m = "table_insert ?k t (seen g)"
  have ttl: "ttl_secs ?g = ttl_secs g" by (simp add: check_and_record_hash_def Let_def)
  have m: "keys_distinct ?m" "map_of ?m ?k = Some t" "length ?m \<le> Suc (length (seen g))"
    using assms(1) length_insert [of ?k t "seen g"] by (simp_all add: keys_distinct_insert map_of_insert)
  then have "map_of (prune_entries t (ttl_secs g) ?m) ?k = Some t"
    using assms(2,4) by (intro remembers_prune) (simp_all add: live_at_def)
  then have "remembers ?k t (Suc (length (seen g))) ?g"
    using m assms(3) length_prune_le [of t "ttl_secs g" ?m]
    by (auto simp: remembers_def check_seen Let_def prune_entries_distinct)
  then have "remembers ?k t (Suc (length (seen g)) + length evs) (fst (run_machine (replay_step hash) ?g evs))"
    using assms by (intro remembers_run) (simp_all add: ttl)
  then show ?thesis using assms(6) ttl by (simp add: check_fresh remembers_def)
qed

definition demo_replay :: replay_guard where
  "demo_replay = \<lparr>seen = [], ttl_secs = 300, mutation_count = 0, storage = None\<rparr>"

theorem replay_rejected_witness:
  "\<not> snd (check_and_record_hash id 200 ''s'' ''b''
       (fst (run_machine (replay_step id) (fst (check_and_record_hash id 5 ''s'' ''b'' demo_replay))
          [Check 6 ''s'' ''c'', Forget ''s'' ''c'', Flush 9 True])))"
  by (rule replay_rejected)
    (simp_all add: demo_replay_def keys_distinct_def max_entries_def check_fresh event_time_ok_def forgets_def
      build_nonce_def)

subsection \<open>Restarts\<close>

definition disk_entries :: "replay_guard \<Rightarrow> timed_table" where
  "disk_entries g = (case storage g of Some s \<Rightarrow> file_entries s | None \<Rightarrow> [])"

text \<open>When nothing is unsaved, the file has every entry of the table.\<close>

definition disk_ok :: "replay_guard \<Rightarrow> bool" where
  "disk_ok g \<longleftrightarrow>
     table_ok g \<and>
     (case storage g of
        None \<Rightarrow> False
      | Some s \<Rightarrow>
          keys_distinct (file_entries s) \<and> length (file_entries s) \<le> max_entries \<and>
          (mutation_seq s \<le> persisted_seq s \<longrightarrow> map_of (seen g) \<subseteq>\<^sub>m map_of (file_entries s)))"

lemma prune_subset: "set (prune_entries now ttl m) \<subseteq> set (retain_live now ttl m)"
proof (cases "max_entries < length (retain_live now ttl m)")
  case True
  from prune_entries_to_over(3) [OF True] show ?thesis unfolding prune_entries_def by blast
next
  case False
  then show ?thesis by (simp add: prune_entries_def prune_entries_to_under)
qed

lemma prune_submap:
  assumes "keys_distinct m"
  shows "map_of (prune_entries now ttl m) \<subseteq>\<^sub>m map_of m"
proof -
  have sub: "set (prune_entries now ttl m) \<subseteq> set m"
    using prune_subset [of now ttl m] by (auto simp: retain_live_def)
  have "map_of m k = Some ts" if "map_of (prune_entries now ttl m) k = Some ts" for k ts
  proof -
    have "(k, ts) \<in> set m" using map_of_SomeD [OF that] sub by blast
    with assms show ?thesis unfolding keys_distinct_def by (rule map_of_is_SomeI)
  qed
  then show ?thesis unfolding map_le_def by (metis domD)
qed

lemma record_mutation_disk:
  "table_ok g \<Longrightarrow>
   (case storage g of None \<Rightarrow> False
    | Some s \<Rightarrow> keys_distinct (file_entries s) \<and> length (file_entries s) \<le> max_entries \<and>
        persisted_seq s \<le> mutation_seq s) \<Longrightarrow>
   disk_ok (fst (record_mutation g))"
  by (auto simp: record_mutation_def disk_ok_def table_ok_def Let_def split: option.splits)

text \<open>Saved mutations never outnumber the mutations.\<close>

definition seqs_ok :: "replay_guard \<Rightarrow> bool" where
  "seqs_ok g \<longleftrightarrow> (case storage g of None \<Rightarrow> False | Some s \<Rightarrow> persisted_seq s \<le> mutation_seq s)"

lemma record_mutation_seqs: "seqs_ok g \<Longrightarrow> seqs_ok (fst (record_mutation g))"
  by (auto simp: record_mutation_def seqs_ok_def Let_def split: option.splits)

lemma disk_ok_file: "disk_ok g \<Longrightarrow> seqs_ok g \<Longrightarrow>
   case storage g of None \<Rightarrow> False
   | Some s \<Rightarrow> keys_distinct (file_entries s) \<and> length (file_entries s) \<le> max_entries \<and>
        persisted_seq s \<le> mutation_seq s"
  by (auto simp: disk_ok_def seqs_ok_def split: option.splits)

lemma disk_step:
  assumes d: "disk_ok g" "seqs_ok g"
  shows "disk_ok (fst (replay_step hash g ev)) \<and> seqs_ok (fst (replay_step hash g ev))"
proof (cases ev)
  case (Check now scope body)
  have t: "table_ok (fst (check_and_record_hash hash now scope body g))"
    using d table_ok_step [of g hash "Check now scope body"]
    by (simp add: disk_ok_def replay_step_def case_prod_unfold Let_def)
  show ?thesis
  proof (cases "snd (check_and_record_hash hash now scope body g)")
    case False
    then have "fst (check_and_record_hash hash now scope body g) = g\<lparr>mutation_count := mutation_count g + 1\<rparr>"
      by (auto simp: check_and_record_hash_def Let_def)
    then show ?thesis
      using d Check
      by (auto simp: replay_step_def case_prod_unfold Let_def disk_ok_def seqs_ok_def table_ok_def
          split: option.splits)
  next
    case True
    then obtain g' where g': "fst (check_and_record_hash hash now scope body g) = fst (record_mutation g')"
      "storage g' = storage g"
      by (auto simp: check_and_record_hash_def Let_def split: if_splits)
    have "table_ok g'" using t g'(1) by (simp add: table_ok_def)
    then have "disk_ok (fst (record_mutation g'))"
      using disk_ok_file [OF d] g'(2) by (intro record_mutation_disk) simp_all
    moreover have "seqs_ok (fst (record_mutation g'))"
      using d(2) g'(2) by (intro record_mutation_seqs) (simp add: seqs_ok_def)
    ultimately show ?thesis using Check g'(1) by (simp add: replay_step_def case_prod_unfold Let_def)
  qed
next
  case (Forget scope body)
  let ?g = "g\<lparr>seen := table_remove (build_nonce hash scope body) (seen g)\<rparr>"
  have t: "table_ok ?g"
    using d length_remove [of "build_nonce hash scope body" "seen g"]
    by (auto simp: disk_ok_def table_ok_def keys_distinct_remove intro: le_trans)
  show ?thesis
  proof (cases "map_of (seen g) (build_nonce hash scope body)")
    case None
    then have "map_of (seen ?g) = map_of (seen g)" by (auto simp: map_of_remove)
    then show ?thesis
      using None d t Forget
      by (auto simp: replay_step_def forget_scoped_def Let_def disk_ok_def seqs_ok_def split: option.splits)
  next
    case (Some ts)
    have "disk_ok (fst (record_mutation ?g))"
      using t disk_ok_file [OF d] by (intro record_mutation_disk) simp_all
    moreover have "seqs_ok (fst (record_mutation ?g))"
      using d(2) by (intro record_mutation_seqs) (simp add: seqs_ok_def)
    ultimately show ?thesis
      using Some Forget by (simp add: replay_step_def forget_scoped_def Let_def)
  qed
next
  case (Flush now ok)
  then show ?thesis
    using d length_prune_max [of now "ttl_secs g" "seen g"] prune_entries_distinct [of "seen g" now "ttl_secs g"]
    by (auto simp: replay_step_def flush_replay_state_def disk_ok_def seqs_ok_def table_ok_def Let_def
        split: option.splits)
qed

lemma disk_run:
  "disk_ok g \<Longrightarrow> seqs_ok g \<Longrightarrow>
   disk_ok (fst (run_machine (replay_step hash) g evs)) \<and> seqs_ok (fst (run_machine (replay_step hash) g evs))"
  by (induction evs arbitrary: g) (simp_all add: disk_step)

lemma disk_ok_new:
  "keys_distinct entries \<Longrightarrow> length entries \<le> max_entries \<Longrightarrow>
   disk_ok (new_with_options (Some (Some entries)) ttl thr t0) \<and>
   seqs_ok (new_with_options (Some (Some entries)) ttl thr t0)"
  using table_ok_new [of entries ttl thr t0]
  by (simp add: disk_ok_def seqs_ok_def new_with_options_def Let_def prune_submap)

lemma flush_disk:
  assumes "disk_ok g" "map_of (seen g) n = Some ts" "live_at now (ttl_secs g) ts"
  shows "map_of (disk_entries (flush_replay_state now True g)) n = Some ts \<and>
         keys_distinct (disk_entries (flush_replay_state now True g)) \<and>
         length (disk_entries (flush_replay_state now True g)) \<le> max_entries"
proof -
  obtain s where s: "storage g = Some s" using assms(1) by (auto simp: disk_ok_def split: option.splits)
  have t: "keys_distinct (seen g)" "length (seen g) \<le> max_entries"
    using assms(1) by (simp_all add: disk_ok_def table_ok_def)
  have "map_of (prune_entries now (ttl_secs g) (seen g)) n = Some ts"
    using t assms(2,3) by (intro remembers_prune)
  moreover have "mutation_seq s \<le> persisted_seq s \<Longrightarrow> map_of (file_entries s) n = Some ts"
    using assms(1,2) s by (auto simp: disk_ok_def map_le_def dom_def)
  ultimately show ?thesis
    using s t assms(1) length_prune_max
    by (auto simp: disk_entries_def flush_replay_state_def Let_def prune_entries_distinct disk_ok_def)
qed

text \<open>C26: replay protection survives a restart. After any run of a guard with storage, a final flush that
  succeeds puts every live nonce into the file, so that a guard started from that file still knows
  it with its time stamp, as long as it is live.\<close>

theorem replay_survives_restart:
  assumes "keys_distinct entries" "length entries \<le> max_entries"
    and "map_of (seen (fst (run_machine (replay_step hash)
           (new_with_options (Some (Some entries)) ttl thr t0) evs))) n = Some ts"
    and "live_at now ttl ts" "live_at now2 ttl ts"
  shows "map_of (seen (new_with_options (Some (Some (disk_entries (flush_replay_state now True
           (fst (run_machine (replay_step hash) (new_with_options (Some (Some entries)) ttl thr t0) evs))))))
         ttl thr now2)) n = Some ts"
proof -
  let ?g = "fst (run_machine (replay_step hash) (new_with_options (Some (Some entries)) ttl thr t0) evs)"
  have "disk_ok ?g" using disk_ok_new [OF assms(1,2)] disk_run by blast
  moreover have "ttl_secs ?g = ttl" by (simp add: new_with_options_def Let_def)
  ultimately show ?thesis
    using flush_disk [of ?g n ts now] assms(3-5)
    by (simp add: new_with_options_def Let_def remembers_prune)
qed

theorem replay_survives_restart_witness:
  "map_of (seen (new_with_options (Some (Some (disk_entries (flush_replay_state 6 True
      (fst (run_machine (replay_step id) (new_with_options (Some (Some [])) 300 1 0) [Check 5 ''s'' ''b'']))))))
    300 1 200)) ''s:b'' = Some 5"
  by (rule replay_survives_restart)
    (simp_all add: keys_distinct_def live_at_def replay_step_def check_and_record_hash_def Let_def
      new_with_options_def prune_entries_def prune_entries_to_def retain_live_def build_nonce_def
      table_insert_def default_prune_interval_ops_def max_entries_def)

text \<open>Scope and body are joined without their lengths, so distinct pairs can share a nonce.\<close>

lemma nonce_ambiguous: "build_nonce hash ''a'' ''b:c'' = build_nonce hash ''a:b'' ''c''"
  by (simp add: build_nonce_def)

end
