(* ===== verification/Audit_Chain.thy ===== *)
theory Audit_Chain
  imports Rust_Strings
begin

text \<open>
  The audit hash chain (\<open>src/src/security/merkle.rs\<close>). The hash function is a parameter; what
  the tamper evidence needs of it, no collision on the texts at hand, is a hypothesis.
\<close>

record audit_entry =
  sequence :: nat
  timestamp :: rstr
  event_type :: rstr
  payload :: rstr
  prev_hash :: rstr
  entry_hash :: rstr

datatype audit_chain_error = EmptyChain | BrokenChain nat | InvalidHash nat

definition entry_text :: "nat \<Rightarrow> rstr \<Rightarrow> rstr \<Rightarrow> rstr \<Rightarrow> rstr \<Rightarrow> rstr" where
  "entry_text sq ts ty pl prev = decimal sq @ ''|'' @ ts @ ''|'' @ ty @ ''|'' @ pl @ ''|'' @ prev"

definition compute_entry_hash ::
  "(rstr \<Rightarrow> rstr) \<Rightarrow> nat \<Rightarrow> rstr \<Rightarrow> rstr \<Rightarrow> rstr \<Rightarrow> rstr \<Rightarrow> rstr" where
  "compute_entry_hash hash sq ts ty pl prev = hash (entry_text sq ts ty pl prev)"

record audit_chain =
  last_hash :: rstr
  next_sequence :: nat

definition genesis_prev_hash :: rstr where
  "genesis_prev_hash = replicate 64 (CHR ''0'')"

definition audit_chain_new :: audit_chain where
  "audit_chain_new = \<lparr>last_hash = genesis_prev_hash, next_sequence = 0\<rparr>"

definition audit_append ::
  "(rstr \<Rightarrow> rstr) \<Rightarrow> rstr \<Rightarrow> rstr \<Rightarrow> rstr \<Rightarrow> audit_chain \<Rightarrow> audit_chain \<times> audit_entry" where
  "audit_append hash now ty pl c =
     (let sq = next_sequence c;
          prev = last_hash c;
          h = compute_entry_hash hash sq now ty pl prev
      in (c\<lparr>last_hash := h, next_sequence := next_sequence c + 1\<rparr>,
          \<lparr>sequence = sq, timestamp = now, event_type = ty, payload = pl, prev_hash = prev,
           entry_hash = h\<rparr>))"

text \<open>The loop of \<open>verify\<close>; \<open>prev\<close> is the entry before, \<open>None\<close> at the first one.\<close>

fun verify_from :: "(rstr \<Rightarrow> rstr) \<Rightarrow> audit_entry option \<Rightarrow> audit_entry list \<Rightarrow> (audit_chain_error, unit) result" where
  "verify_from hash prev [] = Ok ()"
| "verify_from hash prev (e # es) =
     (let expected = compute_entry_hash hash (sequence e) (timestamp e) (event_type e) (payload e) (prev_hash e)
      in if entry_hash e \<noteq> expected then Err (InvalidHash (sequence e))
         else (case prev of
             Some p \<Rightarrow> if prev_hash e \<noteq> entry_hash p then Err (BrokenChain (sequence e))
                       else verify_from hash (Some e) es
           | None \<Rightarrow> verify_from hash (Some e) es))"

definition audit_verify :: "(rstr \<Rightarrow> rstr) \<Rightarrow> audit_entry list \<Rightarrow> (audit_chain_error, unit) result" where
  "audit_verify hash entries = (if entries = [] then Err EmptyChain else verify_from hash None entries)"

subsection \<open>Verified chains\<close>

definition text_of :: "audit_entry \<Rightarrow> rstr" where
  "text_of e = entry_text (sequence e) (timestamp e) (event_type e) (payload e) (prev_hash e)"

fun linked :: "audit_entry option \<Rightarrow> audit_entry list \<Rightarrow> bool" where
  "linked prev [] = True"
| "linked prev (e # es) \<longleftrightarrow> (case prev of Some p \<Rightarrow> prev_hash e = entry_hash p | None \<Rightarrow> True) \<and> linked (Some e) es"

lemma verify_from_Ok:
  "verify_from hash prev es = Ok () \<longleftrightarrow> (\<forall>e \<in> set es. entry_hash e = hash (text_of e)) \<and> linked prev es"
  by (induction hash prev es rule: verify_from.induct)
    (auto simp: compute_entry_hash_def text_of_def Let_def split: option.splits)

lemma audit_verify_Ok:
  "audit_verify hash es = Ok () \<longleftrightarrow> es \<noteq> [] \<and> (\<forall>e \<in> set es. entry_hash e = hash (text_of e)) \<and> linked None es"
  by (simp add: audit_verify_def verify_from_Ok)

text \<open>The entries recorded by a sequence of calls of \<open>append\<close>.\<close>

definition append_step ::
  "(rstr \<Rightarrow> rstr) \<Rightarrow> audit_chain \<Rightarrow> rstr \<times> rstr \<times> rstr \<Rightarrow> audit_chain \<times> audit_entry" where
  "append_step hash c ev = (case ev of (now, ty, pl) \<Rightarrow> audit_append hash now ty pl c)"

lemma appended_linked:
  "verify_from hash (Some p) (snd (run_machine (append_step hash) c evs)) = Ok ()" if "last_hash c = entry_hash p" for p
  using that
proof (induction evs arbitrary: c p)
  case (Cons ev evs)
  obtain now ty pl where ev: "ev = (now, ty, pl)" by (cases ev)
  show ?case
    using Cons.prems Cons.IH [of "fst (append_step hash c ev)" "snd (append_step hash c ev)"]
    by (simp add: ev append_step_def audit_append_def Let_def)
qed simp

text \<open>Whatever is appended verifies. The entries recorded by any non-empty sequence of appends to a new
  chain pass verification, and their sequence numbers count up from 0.\<close>

theorem appended_chain_verifies:
  assumes "evs \<noteq> []"
  shows "audit_verify hash (snd (run_machine (append_step hash) audit_chain_new evs)) = Ok () \<and>
         map sequence (snd (run_machine (append_step hash) audit_chain_new evs)) = [0..<length evs]"
proof -
  obtain ev evs' where e: "evs = ev # evs'" using assms by (cases evs) auto
  have "map sequence (snd (run_machine (append_step hash) c evs)) = [next_sequence c..<next_sequence c + length evs]" for c evs
  proof (induction evs arbitrary: c)
    case (Cons ev evs)
    have "next_sequence (fst (append_step hash c ev)) = Suc (next_sequence c)"
      "sequence (snd (append_step hash c ev)) = next_sequence c"
      by (cases ev, simp add: append_step_def audit_append_def Let_def)+
    then show ?case by (simp add: Cons.IH upt_conv_Cons del: upt_Suc)
  qed simp
  from this [of audit_chain_new evs]
  have "map sequence (snd (run_machine (append_step hash) audit_chain_new evs)) = [0..<length evs]"
    by (simp add: audit_chain_new_def)
  moreover have "verify_from hash None (snd (run_machine (append_step hash) audit_chain_new evs)) = Ok ()"
    using appended_linked [of "fst (append_step hash audit_chain_new ev)" "snd (append_step hash audit_chain_new ev)" hash evs']
    by (cases ev) (simp add: e append_step_def audit_append_def Let_def)
  ultimately show ?thesis by (simp add: audit_verify_def e)
qed

theorem appended_chain_verifies_witness:
  "audit_verify id (snd (run_machine (append_step id) audit_chain_new [(''t'', ''login'', ''u'')])) = Ok ()"
  using appended_chain_verifies [of "[(''t'', ''login'', ''u'')]" id] by simp

subsection \<open>Tamper evidence\<close>

definition bar_free :: "rstr \<Rightarrow> bool" where
  "bar_free s \<longleftrightarrow> CHR ''|'' \<notin> set s"

lemma bar_free_decimal: "bar_free (decimal n)"
proof (induction n rule: decimal.induct)
  case (1 n)
  have d: "char_of (48 + k) \<noteq> CHR ''|''" if "k < 10" for k :: nat
  proof
    assume "char_of (48 + k) = CHR ''|''"
    then have "(of_char (char_of (48 + k) :: char) :: nat) = of_char (CHR ''|'')" by simp
    then show False using that by simp
  qed
  show ?case
    using 1 d [of n] d [of "n mod 10"]
    by (cases "n < 10") (auto simp: decimal.simps [of n] bar_free_def)
qed

lemma bar_split:
  assumes "a @ ''|'' @ x = b @ ''|'' @ y" "bar_free a" "bar_free b"
  shows "a = b \<and> x = y"
  using assms
proof (induction a arbitrary: b)
  case Nil
  then show ?case by (cases b) (auto simp: bar_free_def)
next
  case (Cons c a)
  then show ?case by (cases b) (auto simp: bar_free_def)
qed

lemma bar_split_last:
  assumes "x @ ''|'' @ a = y @ ''|'' @ b" "bar_free a" "bar_free b"
  shows "x = y \<and> a = b"
proof -
  have "rev (x @ ''|'' @ a) = rev (y @ ''|'' @ b)" using assms(1) by simp
  then have "rev a @ ''|'' @ rev x = rev b @ ''|'' @ rev y" by simp
  then have "rev a = rev b \<and> rev x = rev y"
    using assms(2,3) by (intro bar_split) (simp_all add: bar_free_def)
  then show ?thesis by simp
qed

definition entry_plain :: "audit_entry \<Rightarrow> bool" where
  "entry_plain e \<longleftrightarrow> bar_free (timestamp e) \<and> bar_free (event_type e) \<and> bar_free (prev_hash e)"

lemma text_of_inj:
  assumes "text_of e = text_of f" "entry_plain e" "entry_plain f"
  shows "sequence e = sequence f \<and> timestamp e = timestamp f \<and> event_type e = event_type f \<and>
         payload e = payload f \<and> prev_hash e = prev_hash f"
proof -
  have 1: "decimal (sequence e) = decimal (sequence f) \<and>
      timestamp e @ ''|'' @ event_type e @ ''|'' @ payload e @ ''|'' @ prev_hash e =
      timestamp f @ ''|'' @ event_type f @ ''|'' @ payload f @ ''|'' @ prev_hash f"
    using assms(1) by (intro bar_split bar_free_decimal) (simp add: text_of_def entry_text_def)
  then have 2: "timestamp e = timestamp f \<and>
      event_type e @ ''|'' @ payload e @ ''|'' @ prev_hash e = event_type f @ ''|'' @ payload f @ ''|'' @ prev_hash f"
    using assms by (intro bar_split) (auto simp: entry_plain_def)
  then have 3: "event_type e = event_type f \<and> payload e @ ''|'' @ prev_hash e = payload f @ ''|'' @ prev_hash f"
    using assms by (intro bar_split) (auto simp: entry_plain_def)
  then have "payload e = payload f \<and> prev_hash e = prev_hash f"
    using assms by (intro bar_split_last) (auto simp: entry_plain_def)
  with 1 2 3 show ?thesis by (simp add: decimal_inj)
qed

lemma linked_append: "linked prev (es @ [e]) \<longleftrightarrow>
   linked prev es \<and> (case (if es = [] then prev else Some (last es)) of Some p \<Rightarrow> prev_hash e = entry_hash p | None \<Rightarrow> True)"
  by (induction prev es rule: linked.induct) (auto split: option.splits)

lemma entry_eq:
  assumes "text_of e = text_of f" "entry_plain e" "entry_plain f" "entry_hash e = entry_hash f"
  shows "e = (f :: audit_entry)"
  using text_of_inj [OF assms(1-3)] assms(4) by (cases e, cases f) simp

lemma tamper_evidence_ends:
  assumes "length es = length fs" "inj_on hash (text_of ` (set es \<union> set fs))"
    and "\<forall>e \<in> set es \<union> set fs. entry_plain e \<and> entry_hash e = hash (text_of e)"
    and "linked None es" "linked None fs" "map entry_hash (take 1 (rev es)) = map entry_hash (take 1 (rev fs))"
  shows "es = fs"
  using assms
proof (induction es arbitrary: fs rule: rev_induct)
  case (snoc e es)
  then obtain f fs' where fs: "fs = fs' @ [f]" by (cases fs rule: rev_cases) auto
  have h: "entry_hash e = entry_hash f" using snoc.prems(6) fs by simp
  then have "hash (text_of e) = hash (text_of f)" using snoc.prems(3) fs by auto
  then have "text_of e = text_of f"
    by (rule inj_onD [OF snoc.prems(2)]) (simp_all add: fs)
  then have ef: "e = f" using snoc.prems(3) fs h by (intro entry_eq) auto
  have "es = fs'"
  proof (cases "es = []")
    case True
    then show ?thesis using snoc.prems(1) fs by simp
  next
    case False
    then have ne: "fs' \<noteq> []" using snoc.prems(1) fs by auto
    have "entry_hash (last es) = entry_hash (last fs')"
      using snoc.prems(4,5) fs ef False ne by (simp add: linked_append)
    then have l: "map entry_hash (take 1 (rev es)) = map entry_hash (take 1 (rev fs'))"
      using False ne by (cases es rule: rev_cases; cases fs' rule: rev_cases) simp_all
    show ?thesis
      using snoc.prems fs l
      by (intro snoc.IH) (auto simp: linked_append elim: inj_on_subset)
  qed
  with ef fs show ?case by simp
qed simp

text \<open>C27: the chain is tamper evident. Two verified chains of the same length whose last entries have the same
  hash are equal, entry by entry and field by field, when the hash has no collision on the texts of
  their entries and no time stamp, event type or previous hash contains the separator.\<close>

theorem chain_tamper_evident:
  assumes "audit_verify hash es = Ok ()" "audit_verify hash fs = Ok ()"
    and "length es = length fs" "entry_hash (last es) = entry_hash (last fs)"
    and "inj_on hash (text_of ` (set es \<union> set fs))" "list_all entry_plain (es @ fs)"
  shows "es = fs"
proof (rule tamper_evidence_ends [OF assms(3,5)])
  have ne: "es \<noteq> []" "fs \<noteq> []" using assms(1,2) by (simp_all add: audit_verify_Ok)
  show "\<forall>e \<in> set es \<union> set fs. entry_plain e \<and> entry_hash e = hash (text_of e)"
    using assms(1,2,6) by (auto simp: audit_verify_Ok list_all_iff)
  show "linked None es" "linked None fs" using assms(1,2) by (simp_all add: audit_verify_Ok)
  show "map entry_hash (take 1 (rev es)) = map entry_hash (take 1 (rev fs))"
    using ne assms(4) by (cases es rule: rev_cases; cases fs rule: rev_cases) simp_all
qed

definition demo_entry :: audit_entry where
  "demo_entry = \<lparr>sequence = 0, timestamp = ''t'', event_type = ''login'', payload = ''u'',
     prev_hash = ''0'', entry_hash = ''0|t|login|u|0''\<rparr>"

theorem chain_tamper_evident_witness:
  "audit_verify id [demo_entry] = Ok () \<and> [demo_entry] = [demo_entry\<lparr>sequence := 0\<rparr>]"
proof -
  have v: "audit_verify id [demo_entry] = Ok ()" by code_simp
  have "list_all entry_plain ([demo_entry] @ [demo_entry\<lparr>sequence := 0\<rparr>])" by code_simp
  moreover have "audit_verify id [demo_entry\<lparr>sequence := 0\<rparr>] = Ok ()" by code_simp
  ultimately have "[demo_entry] = [demo_entry\<lparr>sequence := 0\<rparr>]"
    using v by (intro chain_tamper_evident [of id]) (simp_all add: demo_entry_def)
  with v show ?thesis by simp
qed

text \<open>
  Moving text across the separator between event type and payload leaves the hash unchanged.
\<close>

lemma separator_ambiguity:
  "compute_entry_hash hash sq ts (ty @ ''|'' @ x) pl prev = compute_entry_hash hash sq ts ty (x @ ''|'' @ pl) prev"
  by (simp add: compute_entry_hash_def entry_text_def)

text \<open>
  The first entry is not compared with the genesis hash and the sequence numbers are not checked,
  so cutting entries off the front of a verified chain goes unnoticed.
\<close>

lemma linked_drop_front: "linked prev (es @ fs) \<Longrightarrow> linked None fs"
proof (induction prev es rule: linked.induct)
  case (1 prev)
  then show ?case by (cases fs) auto
qed simp

lemma front_truncation_unnoticed:
  "audit_verify hash (es @ fs) = Ok () \<Longrightarrow> fs \<noteq> [] \<Longrightarrow> audit_verify hash fs = Ok ()"
  using linked_drop_front by (auto simp: audit_verify_Ok)

end
