(* ===== verification/Spawn_Limits.thy ===== *)
theory Spawn_Limits
  imports Rust_Strings
begin

text \<open>
  The limits on spawning subagents (\<open>src/src/core/subagents/spawn_limits.rs\<close>): the two graph
  loops over the lineage, proved to terminate and to compute the descendants and the cycles of the
  lineage relation, and the decision built on them.
\<close>

record spawn_limits =
  max_depth :: nat
  max_descendants :: nat

definition spawn_limits_default :: spawn_limits where
  "spawn_limits_default = \<lparr>max_depth = 3, max_descendants = 10\<rparr>"

record lineage_node =
  agent_id :: rstr
  parent_id :: "rstr option"
  depth :: nat

datatype spawn_error = ParentNotFound | CycleDetected | DepthExceeded nat nat | DescendantsExceeded nat nat

definition find_node :: "rstr \<Rightarrow> lineage_node list \<Rightarrow> lineage_node option" where
  "find_node i lineage = List.find (\<lambda>n. agent_id n = i) lineage"

subsection \<open>Counting descendants\<close>

text \<open>The body of the inner loop; the state is the visited set, the stack and the counter.\<close>

definition visit_node ::
  "rstr \<Rightarrow> lineage_node \<Rightarrow> rstr set \<times> rstr list \<times> nat \<Rightarrow> rstr set \<times> rstr list \<times> nat" where
  "visit_node current n st =
     (case st of (visited, queue, count) \<Rightarrow>
        if parent_id n = Some current \<and> agent_id n \<notin> visited
        then (insert (agent_id n) visited, agent_id n # queue, count + 1)
        else (visited, queue, count))"

definition visit_children ::
  "lineage_node list \<Rightarrow> rstr \<Rightarrow> rstr set \<times> rstr list \<times> nat \<Rightarrow> rstr set \<times> rstr list \<times> nat" where
  "visit_children lineage current st = fold (visit_node current) lineage st"

definition ids :: "lineage_node list \<Rightarrow> rstr set" where
  "ids lineage = agent_id ` set lineage"

definition unvisited :: "lineage_node list \<Rightarrow> rstr set \<Rightarrow> nat" where
  "unvisited lineage visited = card (ids lineage - visited)"

lemma unvisited_insert:
  assumes "a \<in> ids lineage" "a \<notin> visited"
  shows "Suc (unvisited lineage (insert a visited)) = unvisited lineage visited"
proof -
  have "ids lineage - insert a visited = (ids lineage - visited) - {a}" by auto
  moreover have "finite (ids lineage - visited)" by (simp add: ids_def)
  ultimately show ?thesis using assms card.remove [of "ids lineage - visited" a] by (simp add: unvisited_def)
qed

lemma visit_nodes_measure:
  "set ns \<subseteq> set lineage \<Longrightarrow> fold (visit_node current) ns (visited, queue, count) = (visited', queue', count') \<Longrightarrow>
   2 * unvisited lineage visited' + length queue' \<le> 2 * unvisited lineage visited + length queue"
proof (induction ns arbitrary: visited queue count)
  case (Cons n ns)
  show ?case
  proof (cases "parent_id n = Some current \<and> agent_id n \<notin> visited")
    case True
    then have "Suc (unvisited lineage (insert (agent_id n) visited)) = unvisited lineage visited"
      using Cons.prems(1) by (intro unvisited_insert) (auto simp: ids_def)
    moreover have "2 * unvisited lineage visited' + length queue'
        \<le> 2 * unvisited lineage (insert (agent_id n) visited) + length (agent_id n # queue)"
      using Cons.prems True by (intro Cons.IH) (auto simp: visit_node_def)
    ultimately show ?thesis by simp
  next
    case False
    then show ?thesis using Cons by (auto simp: visit_node_def)
  qed
qed simp

function count_loop :: "lineage_node list \<Rightarrow> rstr set \<Rightarrow> rstr list \<Rightarrow> nat \<Rightarrow> nat" where
  "count_loop lineage visited queue count =
     (case queue of
        [] \<Rightarrow> count
      | current # rest \<Rightarrow>
          (case visit_children lineage current (visited, rest, count) of
             (visited', queue', count') \<Rightarrow> count_loop lineage visited' queue' count'))"
  by pat_completeness auto
termination
proof (relation "measure (\<lambda>(lineage, visited, queue, count). 2 * unvisited lineage visited + length queue)", simp)
  fix lineage visited queue and count :: nat and current rest and p :: "rstr set \<times> rstr list \<times> nat" and visited' y queue' count'
  assume h: "queue = current # rest" "(visited', y) = visit_children lineage current (visited, rest, count)"
    "(queue', count') = y"
  have "2 * unvisited lineage visited' + length queue' \<le> 2 * unvisited lineage visited + length rest"
    by (rule visit_nodes_measure [of lineage lineage current visited rest count visited' queue' count'])
      (use h in \<open>simp_all add: visit_children_def\<close>)
  then show "((lineage, visited', queue', count'), lineage, visited, queue, count)
      \<in> measure (\<lambda>(lineage, visited, queue, count). 2 * unvisited lineage visited + length queue)"
    using h(1) by simp
qed

declare count_loop.simps [simp del]

lemma count_loop_simps [simp]:
  "count_loop lineage visited [] count = count"
  "visit_children lineage current (visited, rest, count) = (v, q, k) \<Longrightarrow>
   count_loop lineage visited (current # rest) count = count_loop lineage v q k"
  by (subst count_loop.simps, simp)+

definition count_descendants :: "rstr \<Rightarrow> lineage_node list \<Rightarrow> nat" where
  "count_descendants agent lineage = count_loop lineage {} [agent] 0"

subsection \<open>Following the parents\<close>

definition parent_of :: "lineage_node list \<Rightarrow> rstr \<Rightarrow> rstr option" where
  "parent_of lineage i = (case find_node i lineage of None \<Rightarrow> None | Some n \<Rightarrow> parent_id n)"

lemma parent_of_ids: "parent_of lineage i = Some p \<Longrightarrow> i \<in> ids lineage"
  by (auto simp: parent_of_def find_node_def find_Some_iff ids_def split: option.splits)

function cycle_loop :: "lineage_node list \<Rightarrow> rstr set \<Rightarrow> rstr option \<Rightarrow> bool" where
  "cycle_loop lineage visited current =
     (case current of
        None \<Rightarrow> False
      | Some i \<Rightarrow>
          if i \<in> visited then True
          else cycle_loop lineage (insert i visited) (parent_of lineage i))"
  by pat_completeness auto
termination
proof (relation "measure (\<lambda>(lineage, visited, current). case current of None \<Rightarrow> 0 | Some _ \<Rightarrow> Suc (unvisited lineage visited))", simp)
  fix lineage visited and current :: "rstr option" and i
  assume h: "current = Some i" "i \<notin> visited"
  show "((lineage, insert i visited, parent_of lineage i), lineage, visited, current)
      \<in> measure (\<lambda>(lineage, visited, current). case current of None \<Rightarrow> 0 | Some _ \<Rightarrow> Suc (unvisited lineage visited))"
  proof (cases "parent_of lineage i")
    case None
    then show ?thesis using h by simp
  next
    case (Some p)
    then show ?thesis using h unvisited_insert [OF parent_of_ids [OF Some] h(2)] by simp
  qed
qed

declare cycle_loop.simps [simp del]

lemma cycle_loop_simps [simp]:
  "cycle_loop lineage visited None = False"
  "cycle_loop lineage visited (Some i) =
     (i \<in> visited \<or> cycle_loop lineage (insert i visited) (parent_of lineage i))"
  by (subst cycle_loop.simps, simp)+

definition has_cycle :: "rstr \<Rightarrow> lineage_node list \<Rightarrow> bool" where
  "has_cycle start lineage = cycle_loop lineage {} (Some start)"

definition check_spawn_allowed ::
  "rstr \<Rightarrow> lineage_node list \<Rightarrow> spawn_limits \<Rightarrow> (spawn_error, nat) result" where
  "check_spawn_allowed parent lineage limits =
     (case find_node parent lineage of
        None \<Rightarrow> Err ParentNotFound
      | Some p \<Rightarrow>
          if has_cycle parent lineage then Err CycleDetected
          else let new_depth = depth p + 1 in
            if max_depth limits < new_depth then Err (DepthExceeded new_depth (max_depth limits))
            else let descendants = count_descendants parent lineage in
              if max_descendants limits \<le> descendants
              then Err (DescendantsExceeded descendants (max_descendants limits))
              else Ok new_depth)"

subsection \<open>What the loops compute\<close>

definition child_of :: "lineage_node list \<Rightarrow> (rstr \<times> rstr) set" where
  "child_of lineage = {(p, a). \<exists>n \<in> set lineage. parent_id n = Some p \<and> agent_id n = a}"

definition descendants :: "lineage_node list \<Rightarrow> rstr \<Rightarrow> rstr set" where
  "descendants lineage agent = (child_of lineage)\<^sup>+ `` {agent}"

lemma visit_nodes_result:
  "fold (visit_node current) ns (visited, queue, count) = (visited', queue', count') \<Longrightarrow>
   visited' = visited \<union> {agent_id n | n. n \<in> set ns \<and> parent_id n = Some current} \<and>
   set queue' = set queue \<union> (visited' - visited) \<and>
   (finite visited \<longrightarrow> finite visited' \<and> count' + card visited = count + card visited')"
proof (induction ns arbitrary: visited queue count)
  case (Cons n ns)
  show ?case
  proof (cases "parent_id n = Some current \<and> agent_id n \<notin> visited")
    case True
    then have "visit_node current n (visited, queue, count) = (insert (agent_id n) visited, agent_id n # queue, count + 1)"
      by (simp add: visit_node_def)
    with Cons.prems have
      "fold (visit_node current) ns (insert (agent_id n) visited, agent_id n # queue, count + 1) = (visited', queue', count')"
      by simp
    from Cons.IH [OF this] True show ?thesis by auto
  next
    case False
    then have "visit_node current n (visited, queue, count) = (visited, queue, count)"
      by (auto simp: visit_node_def)
    with Cons.prems have "fold (visit_node current) ns (visited, queue, count) = (visited', queue', count')"
      by simp
    from Cons.IH [OF this] False show ?thesis by auto
  qed
qed auto

definition search_inv :: "lineage_node list \<Rightarrow> rstr \<Rightarrow> rstr set \<Rightarrow> rstr list \<Rightarrow> nat \<Rightarrow> bool" where
  "search_inv lineage start visited queue count \<longleftrightarrow>
     finite visited \<and> count = card visited \<and> visited \<subseteq> descendants lineage start \<and>
     set queue \<subseteq> insert start visited \<and>
     (\<forall>x \<in> insert start visited - set queue. child_of lineage `` {x} \<subseteq> visited)"

lemma search_step:
  assumes inv: "search_inv lineage start visited (current # rest) count"
    and step: "visit_children lineage current (visited, rest, count) = (visited', queue', count')"
  shows "search_inv lineage start visited' queue' count'"
proof -
  have r: "visited' = visited \<union> child_of lineage `` {current}"
    "set queue' = set rest \<union> (visited' - visited)" "finite visited'" "count' = card visited'"
    using visit_nodes_result [of current lineage visited rest count visited' queue' count'] step inv
    by (auto simp: visit_children_def search_inv_def child_of_def)
  have cur: "current = start \<or> current \<in> descendants lineage start"
    using inv by (auto simp: search_inv_def)
  then have "child_of lineage `` {current} \<subseteq> descendants lineage start"
    by (auto simp: descendants_def intro: trancl.trancl_into_trancl)
  with r inv show ?thesis
    by (auto simp: search_inv_def)
qed

lemma count_loop_correct:
  "search_inv lineage start visited queue count \<Longrightarrow>
   count_loop lineage visited queue count = card (descendants lineage start)"
proof (induction lineage visited queue count rule: count_loop.induct)
  case (1 lineage visited queue count)
  show ?case
  proof (cases queue)
    case Nil
    have closed: "child_of lineage `` insert start visited \<subseteq> visited" "visited \<subseteq> descendants lineage start"
      "count = card visited"
      using "1.prems" Nil by (auto simp: search_inv_def)
    have "y \<in> visited" if "(start, y) \<in> (child_of lineage)\<^sup>+" for y
      using that by (induction rule: trancl_induct) (use closed(1) in auto)
    then have "descendants lineage start \<subseteq> visited" by (auto simp: descendants_def)
    with closed show ?thesis using Nil by (simp add: subset_antisym)
  next
    case (Cons current rest)
    obtain v q k where s: "visit_children lineage current (visited, rest, count) = (v, q, k)"
      by (metis prod_cases3)
    have "search_inv lineage start v q k" using "1.prems" Cons s search_step by blast
    then have "count_loop lineage v q k = card (descendants lineage start)"
      using "1.IH" [OF Cons s [symmetric] refl] by simp
    then show ?thesis using Cons s by simp
  qed
qed

lemma count_descendants_card: "count_descendants agent lineage = card (descendants lineage agent)"
  unfolding count_descendants_def by (rule count_loop_correct) (simp add: search_inv_def)

text \<open>The \<open>k\<close>-th ancestor, \<open>None\<close> above the root.\<close>

primrec ancestor :: "lineage_node list \<Rightarrow> rstr option \<Rightarrow> nat \<Rightarrow> rstr option" where
  "ancestor lineage i 0 = i"
| "ancestor lineage i (Suc k) = (case ancestor lineage i k of None \<Rightarrow> None | Some a \<Rightarrow> parent_of lineage a)"

lemma ancestor_shift: "ancestor lineage (Some i) (Suc k) = ancestor lineage (parent_of lineage i) k"
  by (induction k) auto

lemma ancestor_None [simp]: "ancestor lineage None k = None"
  by (induction k) auto

lemma cycle_loop_False: "\<not> cycle_loop lineage visited current \<Longrightarrow> \<exists>k. ancestor lineage current k = None"
proof (induction lineage visited current rule: cycle_loop.induct)
  case (1 lineage visited current)
  show ?case
  proof (cases current)
    case None
    then show ?thesis by simp
  next
    case (Some i)
    with 1 have "\<exists>k. ancestor lineage (parent_of lineage i) k = None"
      by auto
    then show ?thesis using Some ancestor_shift by metis
  qed
qed

lemma closed_no_root:
  assumes "\<forall>x \<in> S. \<exists>y \<in> S. parent_of lineage x = Some y" "i \<in> S"
  shows "\<exists>y \<in> S. ancestor lineage (Some i) k = Some y"
  using assms by (induction k) auto

text \<open>A visited set whose parents are visited, except the last one, whose parent is next.\<close>

lemma cycle_loop_True:
  "cycle_loop lineage visited current \<Longrightarrow>
   (\<forall>x \<in> visited. parent_of lineage x = current \<or> (\<exists>y \<in> visited. parent_of lineage x = Some y)) \<Longrightarrow>
   ancestor lineage current k \<noteq> None"
proof (induction lineage visited current arbitrary: k rule: cycle_loop.induct)
  case (1 lineage visited current)
  then obtain i where i: "current = Some i"
    by (cases current) auto
  show ?case
  proof (cases "i \<in> visited")
    case True
    have "\<exists>y \<in> visited. ancestor lineage (Some i) k = Some y"
      using True "1.prems"(2) i by (intro closed_no_root) auto
    then show ?thesis using i by auto
  next
    case False
    have "cycle_loop lineage (insert i visited) (parent_of lineage i)"
      using "1.prems"(1) i False by simp
    moreover have "\<forall>x \<in> insert i visited. parent_of lineage x = parent_of lineage i \<or>
        (\<exists>y \<in> insert i visited. parent_of lineage x = Some y)"
      using "1.prems"(2) i by auto
    ultimately have "ancestor lineage (parent_of lineage i) j \<noteq> None" for j
      using "1.IH" [OF i False] by blast
    then have "ancestor lineage (Some i) (Suc j) \<noteq> None" for j by (simp add: ancestor_shift del: ancestor.simps(2))
    then show ?thesis using i by (cases k) (auto simp del: ancestor.simps(2))
  qed
qed

lemma has_cycle_iff: "has_cycle start lineage \<longleftrightarrow> (\<forall>k. ancestor lineage (Some start) k \<noteq> None)"
  using cycle_loop_True [of lineage "{}" "Some start"] cycle_loop_False [of lineage "{}" "Some start"]
  unfolding has_cycle_def by blast

text \<open>When a spawn is allowed. It is allowed exactly when the parent is in the lineage, following its
  parents reaches a root, the new depth is within the limit, and the parent has fewer proper
  descendants than the limit, counted in the transitive closure of the lineage relation; the result is
  the depth of the new agent. Both loops terminate on every lineage, cyclic ones included.\<close>

theorem spawn_allowed_iff:
  "check_spawn_allowed parent lineage limits = Ok d \<longleftrightarrow>
     (\<exists>p. find_node parent lineage = Some p \<and> d = depth p + 1 \<and> d \<le> max_depth limits \<and>
       (\<exists>k. ancestor lineage (Some parent) k = None) \<and>
       card (descendants lineage parent) < max_descendants limits)"
  by (auto simp: check_spawn_allowed_def Let_def has_cycle_iff count_descendants_card split: option.splits)

text \<open>
  Only the subtree of the parent is counted: a leaf may spawn although the tree is already full.
\<close>

lemma limit_is_per_subtree:
  "check_spawn_allowed ''a''
     [\<lparr>agent_id = ''root'', parent_id = None, depth = 0\<rparr>, \<lparr>agent_id = ''a'', parent_id = Some ''root'', depth = 1\<rparr>]
     \<lparr>max_depth = 3, max_descendants = 1\<rparr> = Ok 2 \<and>
   check_spawn_allowed ''root''
     [\<lparr>agent_id = ''root'', parent_id = None, depth = 0\<rparr>, \<lparr>agent_id = ''a'', parent_id = Some ''root'', depth = 1\<rparr>]
     \<lparr>max_depth = 3, max_descendants = 1\<rparr> = Err (DescendantsExceeded 1 1)"
  by code_simp

end
