(* ===== verification/Circuit_Breaker.thy ===== *)
theory Circuit_Breaker
  imports Rust_Strings
begin

text \<open>
  The circuit breaker around a model provider (\<open>src/src/core/providers/circuit_breaker.rs\<close>) and
  the error values it classifies (\<open>src/src/core/providers/error.rs\<close>). Each lock of the state is
  one step; calls that are past the gate and have not returned are counted in the state of the
  step relation, so that concurrent calls interleave. Durations are nanoseconds.
\<close>

datatype provider_error =
    Auth rstr nat rstr
  | RateLimited rstr nat rstr
  | ClientError rstr nat rstr
  | ServerError rstr nat rstr
  | QuotaExhausted rstr rstr
  | MissingCredentials rstr rstr
  | NetworkError rstr rstr
  | ResponseParse rstr rstr
  | EmptyResponse rstr
  | AllProvidersFailed rstr

datatype provider_call_error = Provider provider_error | Other rstr

definition is_transient :: "provider_call_error \<Rightarrow> bool" where
  "is_transient err =
     (case err of
        Provider e \<Rightarrow>
          (case e of RateLimited _ _ _ \<Rightarrow> True | ServerError _ _ _ \<Rightarrow> True | NetworkError _ _ \<Rightarrow> True | _ \<Rightarrow> False)
      | Other _ \<Rightarrow> True)"

record breaker_config =
  failure_threshold :: u32
  recovery_timeout :: nat
  half_open_max_calls :: u32

definition breaker_config_default :: breaker_config where
  "breaker_config_default = \<lparr>failure_threshold = 5, recovery_timeout = nanos 30, half_open_max_calls = 2\<rparr>"

datatype circuit_state = Closed | Open | HalfOpen

record breaker_state =
  circuit :: circuit_state
  consecutive_failures :: u32
  opened_at :: "instant option"
  half_open_successes :: u32

definition breaker_new :: breaker_state where
  "breaker_new = \<lparr>circuit = Closed, consecutive_failures = 0, opened_at = None, half_open_successes = 0\<rparr>"

text \<open>The rejection carries the failures and the remaining nanoseconds its message reports.\<close>

definition check_allowed ::
  "breaker_config \<Rightarrow> instant \<Rightarrow> breaker_state \<Rightarrow> breaker_state \<times> (u32 \<times> nat, unit) result" where
  "check_allowed cfg now st =
     (case circuit st of
        Closed \<Rightarrow> (st, Ok ())
      | HalfOpen \<Rightarrow> (st, Ok ())
      | Open \<Rightarrow>
          (case opened_at st of
             Some t \<Rightarrow>
               if recovery_timeout cfg \<le> now - t
               then (st\<lparr>circuit := HalfOpen, half_open_successes := 0\<rparr>, Ok ())
               else (st, Err (consecutive_failures st, recovery_timeout cfg - (now - t)))
           | None \<Rightarrow> (st\<lparr>circuit := Closed\<rparr>, Ok ())))"

definition record_success :: "breaker_config \<Rightarrow> breaker_state \<Rightarrow> breaker_state" where
  "record_success cfg st =
     (case circuit st of
        Closed \<Rightarrow> st\<lparr>consecutive_failures := 0\<rparr>
      | HalfOpen \<Rightarrow>
          let st = st\<lparr>half_open_successes := half_open_successes st + 1\<rparr>
          in if half_open_max_calls cfg \<le> half_open_successes st
             then st\<lparr>circuit := Closed, consecutive_failures := 0, opened_at := None\<rparr>
             else st
      | Open \<Rightarrow> st\<lparr>circuit := Closed, consecutive_failures := 0, opened_at := None\<rparr>)"

definition record_failure ::
  "breaker_config \<Rightarrow> instant \<Rightarrow> provider_call_error \<Rightarrow> breaker_state \<Rightarrow> breaker_state" where
  "record_failure cfg now err st =
     (if \<not> is_transient err then st
      else (case circuit st of
        Closed \<Rightarrow>
          let st = st\<lparr>consecutive_failures := consecutive_failures st + 1\<rparr>
          in if failure_threshold cfg \<le> consecutive_failures st
             then st\<lparr>circuit := Open, opened_at := Some now\<rparr> else st
      | HalfOpen \<Rightarrow> st\<lparr>circuit := Open, opened_at := Some now, half_open_successes := 0\<rparr>
      | Open \<Rightarrow> st))"

text \<open>One call with nothing else running: the gate, the provider's answer, the recording.\<close>

definition guarded_call ::
  "breaker_config \<Rightarrow> instant \<Rightarrow> instant \<Rightarrow> (provider_call_error, 'a) result \<Rightarrow> breaker_state \<Rightarrow>
   breaker_state \<times> ((u32 \<times> nat) + provider_call_error, 'a) result" where
  "guarded_call cfg now done_at answer st =
     (case check_allowed cfg now st of
        (st, Inl e) \<Rightarrow> (st, Err (Inl e))
      | (st, Inr _) \<Rightarrow>
          (case answer of
             Inr resp \<Rightarrow> (record_success cfg st, Ok resp)
           | Inl err \<Rightarrow> (record_failure cfg done_at err st, Err (Inr err))))"

subsection \<open>Interleaved calls\<close>

record breaker_world =
  brk :: breaker_state
  in_flight :: nat
  clock :: instant

inductive breaker_step :: "breaker_config \<Rightarrow> breaker_world \<Rightarrow> breaker_world \<Rightarrow> bool" for cfg where
  call_begins: "check_allowed cfg (clock w) (brk w) = (b, Inr u) \<Longrightarrow>
     breaker_step cfg w (w\<lparr>brk := b, in_flight := in_flight w + 1\<rparr>)"
| call_rejected: "check_allowed cfg (clock w) (brk w) = (b, Inl e) \<Longrightarrow>
     breaker_step cfg w (w\<lparr>brk := b\<rparr>)"
| call_succeeds: "0 < in_flight w \<Longrightarrow>
     breaker_step cfg w (w\<lparr>brk := record_success cfg (brk w), in_flight := in_flight w - 1\<rparr>)"
| call_fails: "0 < in_flight w \<Longrightarrow>
     breaker_step cfg w (w\<lparr>brk := record_failure cfg (clock w) err (brk w), in_flight := in_flight w - 1\<rparr>)"
| time_passes: "breaker_step cfg w (w\<lparr>clock := clock w + d\<rparr>)"

inductive breaker_reachable :: "breaker_config \<Rightarrow> breaker_world \<Rightarrow> bool" for cfg where
  reach_init: "breaker_reachable cfg \<lparr>brk = breaker_new, in_flight = 0, clock = t\<rparr>"
| reach_step: "breaker_reachable cfg w \<Longrightarrow> breaker_step cfg w w' \<Longrightarrow> breaker_reachable cfg w'"

definition breaker_inv :: "breaker_config \<Rightarrow> breaker_world \<Rightarrow> bool" where
  "breaker_inv cfg w \<longleftrightarrow>
     (circuit (brk w) = Open \<longrightarrow> (\<exists>t \<le> clock w. opened_at (brk w) = Some t)) \<and>
     (circuit (brk w) = Closed \<longrightarrow>
        consecutive_failures (brk w) = 0 \<or> consecutive_failures (brk w) < failure_threshold cfg) \<and>
     (circuit (brk w) = HalfOpen \<longrightarrow>
        half_open_successes (brk w) = 0 \<or> half_open_successes (brk w) < half_open_max_calls cfg)"

lemmas breaker_defs = check_allowed_def record_success_def record_failure_def

lemma breaker_inv_step: "breaker_step cfg w w' \<Longrightarrow> breaker_inv cfg w \<Longrightarrow> breaker_inv cfg w'"
proof (induction rule: breaker_step.induct)
  case (call_begins w b u)
  then show ?case
    by (auto simp: breaker_inv_def check_allowed_def split: circuit_state.splits option.splits if_splits)
next
  case (call_rejected w b e)
  then show ?case
    by (auto simp: breaker_inv_def check_allowed_def split: circuit_state.splits option.splits if_splits)
next
  case (call_succeeds w)
  then show ?case
    by (cases "circuit (brk w)") (auto simp: breaker_inv_def record_success_def Let_def)
next
  case (call_fails w err)
  then show ?case
    by (cases "circuit (brk w)") (auto simp: breaker_inv_def record_failure_def Let_def)
next
  case (time_passes w d)
  then show ?case by (auto simp: breaker_inv_def intro: trans_le_add1)
qed

lemma breaker_reachable_inv: "breaker_reachable cfg w \<Longrightarrow> breaker_inv cfg w"
proof (induction rule: breaker_reachable.induct)
  case (reach_init t)
  then show ?case by (simp add: breaker_inv_def breaker_new_def)
next
  case (reach_step w w')
  then show ?case by (simp add: breaker_inv_step)
qed

text \<open>C28: the breaker keeps its state consistent under every interleaving of concurrent calls. An open
  breaker has an opening time that is not in the future, a closed one is below the failure threshold,
  a half-open one below the number of probes that closes it, so that neither counter can overflow; and
  while it is open and the recovery time has not passed, every call is rejected and changes nothing.\<close>

theorem breaker_consistent:
  assumes "breaker_reachable cfg w"
  shows "(circuit (brk w) = Closed \<and> consecutive_failures (brk w) \<noteq> 0 \<longrightarrow>
            consecutive_failures (brk w) < failure_threshold cfg) \<and>
         (circuit (brk w) = HalfOpen \<and> half_open_successes (brk w) \<noteq> 0 \<longrightarrow>
            half_open_successes (brk w) < half_open_max_calls cfg) \<and>
         (circuit (brk w) = Open \<longrightarrow>
            (\<exists>t. opened_at (brk w) = Some t \<and> t \<le> clock w \<and>
               (clock w - t < recovery_timeout cfg \<longrightarrow>
                  check_allowed cfg (clock w) (brk w) =
                    (brk w, Err (consecutive_failures (brk w), recovery_timeout cfg - (clock w - t))))))"
  using breaker_reachable_inv [OF assms] by (auto simp: breaker_inv_def check_allowed_def)

definition demo_breaker :: breaker_config where
  "demo_breaker = \<lparr>failure_threshold = 1, recovery_timeout = 10, half_open_max_calls = 1\<rparr>"

definition transient_error :: provider_call_error where
  "transient_error = Other ''timeout''"

definition opened_world :: "nat \<Rightarrow> breaker_world" where
  "opened_world n = \<lparr>brk = \<lparr>circuit = Open, consecutive_failures = 1, opened_at = Some 0, half_open_successes = 0\<rparr>,
     in_flight = n, clock = 0\<rparr>"

text \<open>Two calls start, one fails: the breaker is open with the other call still in flight.\<close>

lemma opened_world_reachable: "breaker_reachable demo_breaker (opened_world 1)"
proof -
  let ?w = "\<lambda>n. \<lparr>brk = breaker_new, in_flight = n, clock = 0\<rparr>"
  have r: "breaker_reachable demo_breaker (?w 0)" by (rule reach_init)
  have c: "check_allowed demo_breaker 0 breaker_new = (breaker_new, Inr ())"
    by (simp add: check_allowed_def breaker_new_def)
  have s: "breaker_step demo_breaker (?w n) (?w (n + 1))" for n
    using call_begins [of demo_breaker "?w n" breaker_new "()"] c by simp
  have "breaker_reachable demo_breaker (?w 2)"
    using reach_step [OF reach_step [OF r s] s] by (simp add: numeral_2_eq_2)
  moreover have "breaker_step demo_breaker (?w 2) (opened_world 1)"
    using call_fails [of "?w 2" demo_breaker transient_error]
    by (simp add: record_failure_def is_transient_def transient_error_def breaker_new_def demo_breaker_def
        opened_world_def)
  ultimately show ?thesis by (rule reach_step)
qed

theorem breaker_consistent_witness:
  "check_allowed demo_breaker 0 (brk (opened_world 1)) = (brk (opened_world 1), Err (1, 10))"
  using breaker_consistent [OF opened_world_reachable]
  by (simp add: opened_world_def demo_breaker_def)

text \<open>The branch the code calls unreachable is reachable. From a state in which the breaker has just opened
  while another call was in flight, the success of that call closes the breaker at once, and the next
  call is let through although none of the recovery time has passed.\<close>

theorem stale_success_closes_open_breaker:
  "breaker_reachable demo_breaker (opened_world 1) \<and>
   circuit (brk (opened_world 1)) = Open \<and> 0 < in_flight (opened_world 1) \<and>
   snd (check_allowed demo_breaker (clock (opened_world 1)) (brk (opened_world 1))) \<noteq> Ok () \<and>
   snd (check_allowed demo_breaker (clock (opened_world 1))
          (record_success demo_breaker (brk (opened_world 1)))) = Ok ()"
  using opened_world_reachable
  by (simp add: opened_world_def check_allowed_def record_success_def demo_breaker_def)

subsection \<open>One call at a time\<close>

text \<open>Without concurrent calls a success never meets an open breaker.\<close>

lemma sequential_success_not_open:
  "check_allowed cfg now st = (st', Ok ()) \<Longrightarrow> circuit st' \<noteq> Open"
  by (auto simp: check_allowed_def split: circuit_state.splits option.splits if_splits)

definition fails_at :: "breaker_config \<Rightarrow> breaker_state \<Rightarrow> instant \<times> provider_call_error \<Rightarrow> breaker_state \<times> unit" where
  "fails_at cfg st c = (fst (guarded_call cfg (fst c) (fst c) (Err (snd c) :: (provider_call_error, unit) result) st), ())"

definition transients :: "(instant \<times> provider_call_error) list \<Rightarrow> nat" where
  "transients cs = length (filter (is_transient \<circ> snd) cs)"

lemma closed_failure:
  assumes "circuit st = Closed"
  shows "fst (fails_at cfg st c) =
    (if is_transient (snd c) then
       (if failure_threshold cfg \<le> consecutive_failures st + 1
        then st\<lparr>consecutive_failures := consecutive_failures st + 1, circuit := Open, opened_at := Some (fst c)\<rparr>
        else st\<lparr>consecutive_failures := consecutive_failures st + 1\<rparr>)
     else st)"
  using assms by (simp add: fails_at_def guarded_call_def check_allowed_def record_failure_def Let_def)

text \<open>The breaker opens at exactly the configured number of consecutive transient failures. As long as fewer
  transient failures than the threshold have followed one another since it was new it is closed and
  counts them; errors that are not transient are not counted.\<close>

theorem breaker_counts_failures:
  assumes "transients cs < unat (failure_threshold cfg)"
  shows "circuit (fst (run_machine (fails_at cfg) breaker_new cs)) = Closed \<and>
    unat (consecutive_failures (fst (run_machine (fails_at cfg) breaker_new cs))) = transients cs \<and>
    (is_transient err \<longrightarrow>
       (circuit (fst (fails_at cfg (fst (run_machine (fails_at cfg) breaker_new cs)) (now, err))) = Open \<longleftrightarrow>
        transients cs + 1 = unat (failure_threshold cfg)))"
proof -
  have "unat (failure_threshold cfg) < 2 ^ LENGTH(32)" by (rule unsigned_less)
  then have thr: "unat (failure_threshold cfg) < 4294967296" by simp
  have run: "circuit st = Closed \<Longrightarrow> unat (consecutive_failures st) + transients cs < unat (failure_threshold cfg) \<Longrightarrow>
    circuit (fst (run_machine (fails_at cfg) st cs)) = Closed \<and>
    unat (consecutive_failures (fst (run_machine (fails_at cfg) st cs))) = unat (consecutive_failures st) + transients cs" for st cs
  proof (induction cs arbitrary: st)
    case (Cons c cs)
    show ?case
    proof (cases "is_transient (snd c)")
      case True
      then have lt: "unat (consecutive_failures st) + 1 + transients cs < unat (failure_threshold cfg)"
        using Cons.prems(2) by (simp add: transients_def)
      then have u: "unat (consecutive_failures st + 1) = unat (consecutive_failures st) + 1"
        using thr by (simp add: unat_word_ariths)
      have "fst (fails_at cfg st c) = st\<lparr>consecutive_failures := consecutive_failures st + 1\<rparr>"
        using True lt u by (simp add: closed_failure [OF Cons.prems(1)] word_le_nat_alt)
      then show ?thesis
        using Cons.IH [of "fst (fails_at cfg st c)"] Cons.prems(1) lt u True by (simp add: transients_def)
    next
      case False
      then show ?thesis
        using Cons by (simp add: closed_failure transients_def)
    qed
  qed (simp add: transients_def)
  let ?st = "fst (run_machine (fails_at cfg) breaker_new cs)"
  have st: "circuit ?st = Closed" "unat (consecutive_failures ?st) = transients cs"
    using run [of breaker_new cs] assms by (simp_all add: breaker_new_def)
  then have "unat (consecutive_failures ?st + 1) = transients cs + 1"
    using assms thr by (simp add: unat_word_ariths)
  then show ?thesis
    using st assms by (auto simp: closed_failure word_le_nat_alt)
qed

theorem breaker_counts_failures_witness:
  "circuit (fst (fails_at demo_breaker (fst (run_machine (fails_at demo_breaker) breaker_new
      [(0, Provider (EmptyResponse []))])) (1, transient_error))) = Open"
proof -
  have t: "transients [(0, Provider (EmptyResponse []))] = 0"
    by (simp add: transients_def is_transient_def)
  show ?thesis
    using breaker_counts_failures [of "[(0, Provider (EmptyResponse []))]" demo_breaker transient_error 1]
    by (simp add: t demo_breaker_def transient_error_def is_transient_def)
qed

subsection \<open>Recovery\<close>

definition succeeds_at :: "breaker_config \<Rightarrow> breaker_state \<Rightarrow> instant \<times> 'a \<Rightarrow>
    breaker_state \<times> ((u32 \<times> nat) + provider_call_error, 'a) result" where
  "succeeds_at cfg st c = guarded_call cfg (fst c) (fst c) (Ok (snd c)) st"

lemma half_open_success:
  assumes "circuit st = HalfOpen" "half_open_successes st < half_open_max_calls cfg"
  shows "snd (succeeds_at cfg st c) = Ok (snd c)"
    and "unat (half_open_successes st) + 1 < unat (half_open_max_calls cfg) \<Longrightarrow>
      circuit (fst (succeeds_at cfg st c)) = HalfOpen \<and>
      unat (half_open_successes (fst (succeeds_at cfg st c))) = unat (half_open_successes st) + 1"
    and "unat (half_open_successes st) + 1 = unat (half_open_max_calls cfg) \<Longrightarrow>
      circuit (fst (succeeds_at cfg st c)) = Closed \<and> consecutive_failures (fst (succeeds_at cfg st c)) = 0 \<and>
      opened_at (fst (succeeds_at cfg st c)) = None"
proof -
  have "unat (half_open_max_calls cfg) < 2 ^ LENGTH(32)" by (rule unsigned_less)
  then have "unat (half_open_max_calls cfg) < 4294967296" by simp
  moreover have lt: "unat (half_open_successes st) < unat (half_open_max_calls cfg)"
    using assms(2) by (simp add: word_less_nat_alt)
  ultimately have u: "unat (half_open_successes st + 1) = unat (half_open_successes st) + 1"
    by (simp add: unat_word_ariths)
  show "snd (succeeds_at cfg st c) = Ok (snd c)"
    using assms(1) by (simp add: succeeds_at_def guarded_call_def check_allowed_def)
  show "circuit (fst (succeeds_at cfg st c)) = HalfOpen \<and>
      unat (half_open_successes (fst (succeeds_at cfg st c))) = unat (half_open_successes st) + 1"
    if "unat (half_open_successes st) + 1 < unat (half_open_max_calls cfg)"
    using assms(1) that u
    by (simp add: succeeds_at_def guarded_call_def check_allowed_def record_success_def Let_def word_le_nat_alt)
  show "circuit (fst (succeeds_at cfg st c)) = Closed \<and> consecutive_failures (fst (succeeds_at cfg st c)) = 0 \<and>
      opened_at (fst (succeeds_at cfg st c)) = None"
    if "unat (half_open_successes st) + 1 = unat (half_open_max_calls cfg)"
    using assms(1) that u
    by (simp add: succeeds_at_def guarded_call_def check_allowed_def record_success_def Let_def word_le_nat_alt)
qed

lemma half_open_run:
  assumes "circuit st = HalfOpen" "unat (half_open_successes st) + length cs = unat (half_open_max_calls cfg)" "cs \<noteq> []"
  shows "snd (run_machine (succeeds_at cfg) st cs) = map (Ok \<circ> snd) cs \<and>
    circuit (fst (run_machine (succeeds_at cfg) st cs)) = Closed \<and>
    consecutive_failures (fst (run_machine (succeeds_at cfg) st cs)) = 0 \<and>
    (\<forall>k < length cs. circuit (fst (run_machine (succeeds_at cfg) st (take k cs))) = HalfOpen)"
  using assms
proof (induction cs arbitrary: st)
  case (Cons c cs)
  have lt: "half_open_successes st < half_open_max_calls cfg"
    using Cons.prems(2) by (simp add: word_less_nat_alt)
  note one = half_open_success [OF Cons.prems(1) lt, of c]
  show ?case
  proof (cases "cs = []")
    case True
    then show ?thesis using one(1,3) Cons.prems by simp
  next
    case False
    then have n: "unat (half_open_successes st) + 1 < unat (half_open_max_calls cfg)"
      using Cons.prems(2) by (cases cs) auto
    have "circuit (fst (run_machine (succeeds_at cfg) st (take k (c # cs)))) = HalfOpen" if "k < length (c # cs)" for k
      using that Cons.prems(1) Cons.IH [of "fst (succeeds_at cfg st c)"] one(2) [OF n] Cons.prems(2) False
      by (cases k) auto
    then show ?thesis
      using Cons.IH [of "fst (succeeds_at cfg st c)"] one(1) one(2) [OF n] Cons.prems(2) False by simp
  qed
qed simp

text \<open>C36: an open breaker recovers. Once the recovery time has passed and the provider answers again, the
  calls are let through, each caller gets the provider's answer, and after exactly
  \<open>half_open_max_calls\<close> successful calls, however they are spread over the time after, the breaker is
  closed with its failure count cleared; before that it stays half open.\<close>

theorem breaker_recovers:
  assumes "circuit st = Open" "opened_at st = Some t" "recovery_timeout cfg \<le> now - t"
    and "length cs + 1 = unat (half_open_max_calls cfg)"
  shows "snd (run_machine (succeeds_at cfg) st ((now, a) # cs)) = map (Ok \<circ> snd) ((now, a) # cs) \<and>
    circuit (fst (run_machine (succeeds_at cfg) st ((now, a) # cs))) = Closed \<and>
    consecutive_failures (fst (run_machine (succeeds_at cfg) st ((now, a) # cs))) = 0 \<and>
    (\<forall>k < length cs. circuit (fst (run_machine (succeeds_at cfg) st ((now, a) # take k cs))) = HalfOpen)"
proof -
  let ?st = "st\<lparr>circuit := HalfOpen, half_open_successes := 0\<rparr>"
  have "succeeds_at cfg st (now, a) = succeeds_at cfg ?st (now, a)"
    using assms(1-3) by (simp add: succeeds_at_def guarded_call_def check_allowed_def)
  then have same: "run_machine (succeeds_at cfg) st ((now, a) # ds) = run_machine (succeeds_at cfg) ?st ((now, a) # ds)" for ds
    by (simp only: run_machine.simps)
  have "\<forall>k < length cs. circuit (fst (run_machine (succeeds_at cfg) ?st (take (Suc k) ((now, a) # cs)))) = HalfOpen"
    using half_open_run [of ?st "(now, a) # cs" cfg] assms(4) by (auto simp del: take_Suc_Cons)
  then show ?thesis
    using half_open_run [of ?st "(now, a) # cs" cfg] assms(4) unfolding same by simp
qed

lemma breaker_recovers_witness:
  "circuit (fst (run_machine (succeeds_at demo_breaker) (brk (opened_world 0)) [(12, 7 :: nat)])) = Closed"
  using breaker_recovers [of "brk (opened_world 0)" 0 demo_breaker 12 "[]" "7 :: nat"]
  by (simp add: opened_world_def demo_breaker_def)

end
