(* ===== verification/Write_Policy.thy ===== *)
theory Write_Policy
  imports Complex_Main Contracts
begin

text \<open>
  The write policies of the memory event ledger (\<open>src/src/security/writeback_guard/policy.rs\<close>)
  and the event type they judge (\<open>src/src/contracts/memory.rs\<close>). Every path that appends an
  event has one policy; the errors are the code's message constants. Scores (confidence, importance,
  emotion) are rationals: the code only clamps and copies them.
\<close>

subsection \<open>Memory events\<close>

datatype memory_layer = LWorking | LEpisodic | LSemantic | LProcedural | LIdentity

datatype memory_source =
  ExplicitUser | ToolVerified | SystemSource | InferredSource | ExternalPrimary | ExternalSecondary

record memory_provenance =
  source_class :: memory_source
  prov_reference :: rstr
  evidence_uri :: "rstr option"

definition source_reference :: "memory_source \<Rightarrow> rstr \<Rightarrow> memory_provenance" where
  "source_reference c r = \<lparr>source_class = c, prov_reference = r, evidence_uri = None\<rparr>"

datatype privacy_level = Public | Private | SecretLevel

datatype signal_tier = TierRaw | TierBelief | TierInferred | TierGovernance

datatype source_kind =
  Conversation | Discord | Telegram | Slack | Api | News | Document | Manual

datatype memory_event_type =
  FactAdded | FactUpdated | ToolExecuted | IdentityObjectiveChanged | IdentityCommitmentAdded
| IdentityCommitmentCompleted | IdentityDriftDetected | PreferenceSet | PreferenceUnset
| InferredClaim | ContradictionMarked | SoftDeleted | HardDeleted | TombstoneWritten
| SummaryCompacted

record memory_event =
  event_entity :: rstr
  event_slot :: rstr
  event_layer :: memory_layer
  event_type :: memory_event_type
  event_value :: rstr
  event_source :: memory_source
  event_confidence :: rat
  event_importance :: rat
  event_provenance :: "memory_provenance option"
  event_signal_tier :: "signal_tier option"
  event_source_kind :: "source_kind option"
  event_source_ref :: "rstr option"
  event_privacy :: privacy_level
  event_occurred_at :: rstr
  emotion_label :: "rstr option"
  emotion_valence :: "rat option"
  emotion_arousal :: "rat option"
  emotion_confidence :: "rat option"

fun default_confidence :: "memory_source \<Rightarrow> rat" where
  "default_confidence ExplicitUser = 95 / 100"
| "default_confidence ToolVerified = 9 / 10"
| "default_confidence SystemSource = 8 / 10"
| "default_confidence InferredSource = 7 / 10"
| "default_confidence ExternalPrimary = 75 / 100"
| "default_confidence ExternalSecondary = 5 / 10"

text \<open>\<open>Confidence::new\<close> and \<open>Importance::new\<close>; JSON numbers are never NaN.\<close>

definition score_new :: "rat \<Rightarrow> rat" where
  "score_new v = max 0 (min 1 v)"

definition memory_event_new ::
    "rstr \<Rightarrow> rstr \<Rightarrow> rstr \<Rightarrow> memory_event_type \<Rightarrow> rstr \<Rightarrow> memory_source \<Rightarrow> privacy_level
       \<Rightarrow> memory_event" where
  "memory_event_new now entity slot ty v src privacy =
     \<lparr>event_entity = entity, event_slot = slot, event_layer = LWorking, event_type = ty,
      event_value = v, event_source = src, event_confidence = score_new (default_confidence src),
      event_importance = score_new (1 / 2), event_provenance = None, event_signal_tier = None,
      event_source_kind = None, event_source_ref = None, event_privacy = privacy,
      event_occurred_at = now, emotion_label = None, emotion_valence = None,
      emotion_arousal = None, emotion_confidence = None\<rparr>"

datatype memory_error =
  ValidationErr rstr | PolicyErr rstr | UnsupportedErr rstr | BackendUnavailableErr rstr
| QueryErr rstr | WriteErr rstr | IntegrityErr rstr | OtherErr rstr

fun memory_error_display :: "memory_error \<Rightarrow> rstr" where
  "memory_error_display (ValidationErr m) = ''memory validation failed: '' @ m"
| "memory_error_display (PolicyErr m) = ''memory policy violation: '' @ m"
| "memory_error_display (UnsupportedErr m) = ''memory capability unsupported: '' @ m"
| "memory_error_display (BackendUnavailableErr m) = ''memory backend unavailable: '' @ m"
| "memory_error_display (QueryErr m) = ''memory query failed: '' @ m"
| "memory_error_display (WriteErr m) = ''memory write failed: '' @ m"
| "memory_error_display (IntegrityErr m) = ''memory integrity check failed: '' @ m"
| "memory_error_display (OtherErr m) = m"

fun event_type_display :: "memory_event_type \<Rightarrow> rstr" where
  "event_type_display FactAdded = ''fact_added''"
| "event_type_display FactUpdated = ''fact_updated''"
| "event_type_display ToolExecuted = ''tool_executed''"
| "event_type_display IdentityObjectiveChanged = ''identity_objective_changed''"
| "event_type_display IdentityCommitmentAdded = ''identity_commitment_added''"
| "event_type_display IdentityCommitmentCompleted = ''identity_commitment_completed''"
| "event_type_display IdentityDriftDetected = ''identity_drift_detected''"
| "event_type_display PreferenceSet = ''preference_set''"
| "event_type_display PreferenceUnset = ''preference_unset''"
| "event_type_display InferredClaim = ''inferred_claim''"
| "event_type_display ContradictionMarked = ''contradiction_marked''"
| "event_type_display SoftDeleted = ''soft_deleted''"
| "event_type_display HardDeleted = ''hard_deleted''"
| "event_type_display TombstoneWritten = ''tombstone_written''"
| "event_type_display SummaryCompacted = ''summary_compacted''"

definition event_type_names :: "(rstr \<times> memory_event_type) list" where
  "event_type_names =
     [(''fact_added'', FactAdded), (''fact_updated'', FactUpdated), (''tool_executed'', ToolExecuted),
      (''identity_objective_changed'', IdentityObjectiveChanged),
      (''identity_commitment_added'', IdentityCommitmentAdded),
      (''identity_commitment_completed'', IdentityCommitmentCompleted),
      (''identity_drift_detected'', IdentityDriftDetected), (''preference_set'', PreferenceSet),
      (''preference_unset'', PreferenceUnset), (''inferred_claim'', InferredClaim),
      (''contradiction_marked'', ContradictionMarked), (''soft_deleted'', SoftDeleted),
      (''hard_deleted'', HardDeleted), (''tombstone_written'', TombstoneWritten),
      (''summary_compacted'', SummaryCompacted)]"

definition event_type_from_str :: "rstr \<Rightarrow> (memory_error, memory_event_type) result" where
  "event_type_from_str v =
     (case map_of event_type_names (to_lowercase (trim v)) of
        Some ty \<Rightarrow> Ok ty
      | None \<Rightarrow> Err (ValidationErr (''invalid memory event_type: '' @ v)))"

subsection \<open>Metadata every policy requires\<close>

definition expected_person_entity :: "rstr \<Rightarrow> rstr" where
  "expected_person_entity person = ''person:'' @ person"

definition require_common_write_metadata :: "memory_event \<Rightarrow> (rstr, unit) result" where
  "require_common_write_metadata e =
     (case event_source_ref e of
        None \<Rightarrow> Err ''write policy requires source_ref''
      | Some r \<Rightarrow>
          if trim r = [] then Err ''write policy source_ref must not be empty''
          else (case event_provenance e of
                  None \<Rightarrow> Err ''write policy requires provenance''
                | Some p \<Rightarrow>
                    if source_class p \<noteq> event_source e
                    then Err ''write policy requires provenance.source_class to match source''
                    else if trim (prov_reference p) = []
                    then Err ''write policy requires provenance.reference''
                    else Ok ()))"

definition traceable :: "memory_event \<Rightarrow> bool" where
  "traceable e \<longleftrightarrow>
     (case event_source_ref e of None \<Rightarrow> False | Some r \<Rightarrow> trim r \<noteq> []) \<and>
     (case event_provenance e of
        None \<Rightarrow> False
      | Some p \<Rightarrow> source_class p = event_source e \<and> trim (prov_reference p) \<noteq> [])"

lemma require_common_write_metadata_Ok:
  "require_common_write_metadata e = Ok () \<longleftrightarrow> traceable e"
  by (auto simp: require_common_write_metadata_def traceable_def split: option.splits)

text \<open>
  The contract the ledger relies on: whatever a policy accepts is traceable to a source. It is a
  locale because ten policies promise it.
\<close>

locale traceable_writes =
  fixes enforce :: "memory_event \<Rightarrow> (rstr, unit) result"
  assumes accepts_traceable: "enforce e = Ok () \<Longrightarrow> require_common_write_metadata e = Ok ()"
begin

lemma accepted_traceable: "enforce e = Ok () \<Longrightarrow> traceable e"
  by (simp add: accepts_traceable flip: require_common_write_metadata_Ok)

lemma accepted_source_ref:
  assumes "enforce e = Ok ()"
  obtains r where "event_source_ref e = Some r" "trim r \<noteq> []"
  using accepted_traceable [OF assms] by (auto simp: traceable_def split: option.splits)

lemma accepted_provenance:
  assumes "enforce e = Ok ()"
  obtains p where "event_provenance e = Some p" "source_class p = event_source e"
  using accepted_traceable [OF assms] by (auto simp: traceable_def split: option.splits)

lemma untraceable_rejected: "\<not> traceable e \<Longrightarrow> \<not> is_ok (enforce e)"
  using accepted_traceable by (auto simp: is_ok_iff)

end

subsection \<open>The policies\<close>

definition protected_prefixes :: "rstr \<Rightarrow> rstr list" where
  "protected_prefixes person =
     map (\<lambda>s. ''persona/'' @ person @ s)
       [''/character/'', ''/identity_contract/'', ''/self_contract/'', ''/motivational_core/'',
        ''/negative_identity/'', ''/affect_topology/'', ''/latent_bias/'']"

definition is_protected_self_edit_slot :: "rstr \<Rightarrow> rstr \<Rightarrow> bool" where
  "is_protected_self_edit_slot slot person \<longleftrightarrow>
     list_ex (\<lambda>p. starts_with slot p) (protected_prefixes person)"

text \<open>One branch of the persona policy per slot family: prefix, event type it needs, error.\<close>

definition persona_slot_families :: "rstr \<Rightarrow> (rstr \<times> memory_event_type \<times> rstr) list" where
  "persona_slot_families person =
     [(''persona.writeback.'', SummaryCompacted,
         ''persona writeback entries must use event_type=summary_compacted''),
      (''persona/'' @ person @ ''/state_header/'', FactUpdated,
         ''persona canonical state writes must use event_type=fact_updated''),
      (''persona/'' @ person @ ''/style_profile/'', FactUpdated,
         ''persona style profile writes must use event_type=fact_updated''),
      (''persona/'' @ person @ ''/big_five/'', FactUpdated,
         ''persona canonical state writes must use event_type=fact_updated''),
      (''persona/'' @ person @ ''/relationship/'', FactUpdated,
         ''persona relationship writes must use event_type=fact_updated''),
      (''persona/'' @ person @ ''/world_model/'', FactUpdated,
         ''persona world_model writes must use event_type=fact_updated''),
      (''persona/'' @ person @ ''/user_knowledge/'', FactUpdated,
         ''persona canonical state writes must use event_type=fact_updated''),
      (''persona/'' @ person @ ''/user_facts/'', FactUpdated,
         ''persona canonical state writes must use event_type=fact_updated''),
      (''inferred.'', InferredClaim,
         ''persona inferred writes must use event_type=inferred_claim'')]"

fun check_slot_families ::
    "(rstr \<times> memory_event_type \<times> rstr) list \<Rightarrow> memory_event \<Rightarrow> (rstr, unit) result" where
  "check_slot_families [] e = Err ''persona writeback policy rejected slot_key''"
| "check_slot_families ((pre, ty, msg) # fs) e =
     (if starts_with (event_slot e) pre
      then if event_type e \<noteq> ty then Err msg else Ok ()
      else check_slot_families fs e)"

definition enforce_persona_long_term_write_policy ::
    "memory_event \<Rightarrow> rstr \<Rightarrow> (rstr, unit) result" where
  "enforce_persona_long_term_write_policy e person =
     (if event_source e \<noteq> SystemSource
      then Err ''persona writeback policy requires source=system''
      else if event_privacy e \<noteq> Private
      then Err ''persona writeback policy requires privacy_level=private''
      else if event_source_kind e \<noteq> Some Manual
      then Err ''persona writeback policy requires source_kind=manual''
      else (case require_common_write_metadata e of
        Err x \<Rightarrow> Err x
      | Ok _ \<Rightarrow> (case event_provenance e of
          None \<Rightarrow> Err ''provenance missing after validation''
        | Some p \<Rightarrow>
            if source_class p \<noteq> SystemSource
            then Err ''persona writeback policy requires provenance.source_class=system''
            else if event_entity e \<noteq> expected_person_entity person
            then Err ''persona writeback policy entity_id mismatch''
            else if is_protected_self_edit_slot (event_slot e) person
            then Err ''persona writeback policy rejects protected self-edit slot''
            else check_slot_families (persona_slot_families person) e)))"

definition enforce_tool_memory_write_policy :: "memory_event \<Rightarrow> (rstr, unit) result" where
  "enforce_tool_memory_write_policy e =
     (if event_privacy e = SecretLevel
      then Err ''tool memory write policy rejects privacy_level=secret''
      else if event_source_kind e \<noteq> Some Manual
      then Err ''tool memory write policy requires source_kind=manual''
      else require_common_write_metadata e)"

definition enforce_external_autosave_write_policy :: "memory_event \<Rightarrow> (rstr, unit) result" where
  "enforce_external_autosave_write_policy e =
     (if event_source e \<noteq> ExplicitUser
      then Err ''external autosave policy requires source=explicit_user''
      else if event_privacy e \<noteq> Private
      then Err ''external autosave policy requires privacy_level=private''
      else (case event_source_kind e of
              None \<Rightarrow> Err ''external autosave policy requires source_kind''
            | Some k \<Rightarrow>
                if k \<in> {Api, Conversation, Discord, Telegram, Slack}
                then require_common_write_metadata e
                else Err ''external autosave policy rejected source_kind''))"

definition enforce_agent_autosave_write_policy :: "memory_event \<Rightarrow> (rstr, unit) result" where
  "enforce_agent_autosave_write_policy e =
     (if event_privacy e \<noteq> Private
      then Err ''agent autosave policy requires privacy_level=private''
      else if event_source_kind e \<noteq> Some Conversation
      then Err ''agent autosave policy requires source_kind=conversation''
      else if event_type e \<noteq> FactAdded
      then Err ''agent autosave policy requires event_type=fact_added''
      else if event_slot e \<noteq> ''conversation.user_msg'' \<and>
              event_slot e \<noteq> ''conversation.assistant_resp''
      then Err ''agent autosave policy rejected slot_key''
      else if event_source e \<notin> {ExplicitUser, SystemSource}
      then Err ''agent autosave policy rejected source''
      else require_common_write_metadata e)"

definition enforce_working_memory_write_policy ::
    "memory_event \<Rightarrow> tenant_ctx \<Rightarrow> (rstr, unit) result" where
  "enforce_working_memory_write_policy e ctx =
     (case enforce_recall_scope ctx (event_entity e) of
        Err _ \<Rightarrow> Err ''working memory entity outside tenant scope''
      | Ok _ \<Rightarrow>
          if event_layer e \<noteq> LWorking
          then Err ''working memory writes require working layer''
          else if event_source e \<noteq> SystemSource
          then Err ''working memory writes require system source''
          else if event_privacy e \<noteq> Private
          then Err ''working memory writes require private privacy''
          else if event_source_kind e \<noteq> Some Conversation
          then Err ''working memory writes require conversation source kind''
          else if event_type e \<noteq> FactAdded
          then Err ''working memory writes require fact_added event type''
          else require_common_write_metadata e)"

definition enforce_conversation_state_write_policy :: "memory_event \<Rightarrow> (rstr, unit) result" where
  "enforce_conversation_state_write_policy e =
     (if event_source e \<noteq> SystemSource
      then Err ''conversation state write policy requires source=system''
      else if event_privacy e \<noteq> Private
      then Err ''conversation state write policy requires privacy_level=private''
      else if event_source_kind e \<noteq> Some Conversation
      then Err ''conversation state write policy requires source_kind=conversation''
      else if event_type e \<noteq> FactUpdated
      then Err ''conversation state write policy requires event_type=fact_updated''
      else if event_slot e \<noteq> ''conversation.state.v1'' \<and>
              event_slot e \<noteq> ''conversation.ledger.v1''
      then Err ''conversation state write policy rejected slot_key''
      else require_common_write_metadata e)"

definition enforce_inference_write_policy :: "memory_event \<Rightarrow> (rstr, unit) result" where
  "enforce_inference_write_policy e =
     (if event_privacy e \<noteq> Private
      then Err ''inference write policy requires privacy_level=private''
      else if event_source_kind e \<noteq> Some Conversation
      then Err ''inference write policy requires source_kind=conversation''
      else if event_source e \<notin> {InferredSource, SystemSource}
      then Err ''inference write policy rejected source''
      else if event_type e \<notin> {InferredClaim, ContradictionMarked}
      then Err ''inference write policy rejected event_type''
      else require_common_write_metadata e)"

definition reserved_slot_prefixes :: "rstr list" where
  "reserved_slot_prefixes =
     [''conversation.'', ''autonomy.'', ''persona/'', ''system.'', ''security.'']"

definition slot_key_char :: "char \<Rightarrow> bool" where
  "slot_key_char c \<longleftrightarrow> is_ascii_alphanumeric c \<or> c \<in> {CHR ''.'', CHR ''_'', CHR ''-''}"

definition enforce_user_inference_write_policy ::
    "memory_event \<Rightarrow> rstr \<Rightarrow> (rstr, unit) result" where
  "enforce_user_inference_write_policy e person =
     (if event_source e \<noteq> SystemSource
      then Err ''user inference write policy requires source=system''
      else if event_privacy e \<noteq> Private
      then Err ''user inference write policy requires privacy_level=private''
      else if event_source_kind e \<noteq> Some Manual
      then Err ''user inference write policy requires source_kind=manual''
      else if event_type e \<noteq> InferredClaim
      then Err ''user inference write policy requires event_type=inferred_claim''
      else if event_entity e \<noteq> ''user:'' @ person
      then Err ''user inference write policy entity_id mismatch''
      else if \<not> starts_with (event_slot e) ''user.''
      then Err ''user inference write policy requires slot_key prefix user.''
      else if event_slot e = [] \<or> 128 < length (event_slot e) \<or> contains (event_slot e) ''..'' \<or>
              \<not> list_all slot_key_char (event_slot e)
      then Err ''user inference write policy rejected slot_key format''
      else if list_ex (\<lambda>p. starts_with (event_slot e) p) reserved_slot_prefixes
      then Err ''user inference write policy rejected reserved slot_key''
      else require_common_write_metadata e)"

definition enforce_verify_repair_write_policy :: "memory_event \<Rightarrow> (rstr, unit) result" where
  "enforce_verify_repair_write_policy e =
     (if event_source e \<noteq> SystemSource
      then Err ''verify-repair write policy requires source=system''
      else if event_privacy e \<noteq> Private
      then Err ''verify-repair write policy requires privacy_level=private''
      else if event_source_kind e \<noteq> Some Manual
      then Err ''verify-repair write policy requires source_kind=manual''
      else if event_slot e \<noteq> ''autonomy.verify_repair.escalation''
      then Err ''verify-repair write policy rejected slot_key''
      else if event_type e \<noteq> SummaryCompacted
      then Err ''verify-repair write policy requires event_type=summary_compacted''
      else require_common_write_metadata e)"

text \<open>The ingestion policy accepts every source kind, so its second \<open>match\<close> has one case here.\<close>

definition enforce_ingestion_write_policy :: "memory_event \<Rightarrow> (rstr, unit) result" where
  "enforce_ingestion_write_policy e =
     (if event_type e \<noteq> FactAdded
      then Err ''ingestion write policy requires event_type=fact_added''
      else if event_source e \<notin> {ExplicitUser, ExternalPrimary, ExternalSecondary}
      then Err ''ingestion write policy rejected source''
      else (case event_source_kind e of
              None \<Rightarrow> Err ''ingestion write policy requires source_kind''
            | Some _ \<Rightarrow>
                if \<not> starts_with (event_slot e) ''external.''
                then Err ''ingestion write policy requires external slot_key prefix''
                else require_common_write_metadata e))"

lemmas policy_defs =
  enforce_persona_long_term_write_policy_def enforce_tool_memory_write_policy_def
  enforce_external_autosave_write_policy_def enforce_agent_autosave_write_policy_def
  enforce_working_memory_write_policy_def enforce_conversation_state_write_policy_def
  enforce_inference_write_policy_def enforce_user_inference_write_policy_def
  enforce_verify_repair_write_policy_def enforce_ingestion_write_policy_def

interpretation persona_wp: traceable_writes "\<lambda>e. enforce_persona_long_term_write_policy e person"
  by unfold_locales (auto simp: enforce_persona_long_term_write_policy_def
      split: if_splits sum.splits)

interpretation tool_wp: traceable_writes enforce_tool_memory_write_policy
  by unfold_locales (auto simp: enforce_tool_memory_write_policy_def split: if_splits)

interpretation external_wp: traceable_writes enforce_external_autosave_write_policy
  by unfold_locales
    (auto simp: enforce_external_autosave_write_policy_def split: if_splits option.splits)

interpretation autosave_wp: traceable_writes enforce_agent_autosave_write_policy
  by unfold_locales (auto simp: enforce_agent_autosave_write_policy_def split: if_splits)

interpretation working_wp: traceable_writes "\<lambda>e. enforce_working_memory_write_policy e ctx"
  by unfold_locales
    (auto simp: enforce_working_memory_write_policy_def split: if_splits sum.splits)

interpretation state_wp: traceable_writes enforce_conversation_state_write_policy
  by unfold_locales (auto simp: enforce_conversation_state_write_policy_def split: if_splits)

interpretation inference_wp: traceable_writes enforce_inference_write_policy
  by unfold_locales (auto simp: enforce_inference_write_policy_def split: if_splits)

interpretation user_wp: traceable_writes "\<lambda>e. enforce_user_inference_write_policy e person"
  by unfold_locales (auto simp: enforce_user_inference_write_policy_def split: if_splits)

interpretation repair_wp: traceable_writes enforce_verify_repair_write_policy
  by unfold_locales (auto simp: enforce_verify_repair_write_policy_def split: if_splits)

interpretation ingestion_wp: traceable_writes enforce_ingestion_write_policy
  by unfold_locales
    (auto simp: enforce_ingestion_write_policy_def split: if_splits option.splits)

subsection \<open>Event type names\<close>

lemma event_type_round_trip: "event_type_from_str (event_type_display ty) = Ok ty"
  by (cases ty) (simp_all, code_simp+)

subsection \<open>Slot families\<close>

definition incomparable :: "rstr \<Rightarrow> rstr \<Rightarrow> bool" where
  "incomparable p q \<longleftrightarrow> \<not> prefix p q \<and> \<not> prefix q p"

lemma incomparable_disjoint: "incomparable p q \<Longrightarrow> prefix p s \<Longrightarrow> \<not> prefix q s"
  by (auto simp: incomparable_def dest: prefix_same_cases)

lemma incomparable_append: "incomparable (a @ p) (a @ q) \<longleftrightarrow> incomparable p q"
  by (simp add: incomparable_def)

lemma incomparable_Cons: "incomparable (c # p) (c # q) \<longleftrightarrow> incomparable p q"
  by (simp add: incomparable_def)

lemma check_slot_families_Ok:
  assumes "sorted_wrt (\<lambda>f g. incomparable (fst f) (fst g)) fs"
  shows "check_slot_families fs e = Ok () \<longleftrightarrow>
    list_ex (\<lambda>(pre, ty, msg). starts_with (event_slot e) pre \<and> event_type e = ty) fs"
  using assms
proof (induction fs)
  case (Cons f fs)
  obtain pre ty msg where f: "f = (pre, ty, msg)" by (cases f)
  have "\<not> list_ex (\<lambda>(pre, ty, msg). starts_with (event_slot e) pre \<and> event_type e = ty) fs"
    if "starts_with (event_slot e) pre"
    using Cons.prems that incomparable_disjoint by (fastforce simp: f list_ex_iff)
  with Cons show ?case by (auto simp: f)
qed simp

lemma persona_families_disjoint:
  "sorted_wrt (\<lambda>f g. incomparable (fst f) (fst g)) (persona_slot_families person)"
  by (simp add: persona_slot_families_def incomparable_append incomparable_Cons)
    (simp add: incomparable_def)

lemma protected_not_in_family:
  assumes "is_protected_self_edit_slot slot person" "(pre, ty, msg) \<in> set (persona_slot_families person)"
  shows "\<not> starts_with slot pre"
proof -
  from assms(1) obtain q where q: "q \<in> set (protected_prefixes person)" "prefix q slot"
    by (auto simp: is_protected_self_edit_slot_def list_ex_iff)
  from q(1) assms(2) have "incomparable q pre"
    by (simp add: protected_prefixes_def persona_slot_families_def, elim disjE)
      (simp_all add: incomparable_append incomparable_Cons incomparable_def)
  then show ?thesis using q(2) by (rule incomparable_disjoint)
qed

text \<open>Which writes the persona policy lets through. The event is accepted exactly when it is
traceable, comes from the system by hand of the operator path, is private, is about the person's own
entity, and its slot is in one of the nine slot families with the event type of that family. The
families do not overlap, so one event type is right for each slot, and the seven protected self-edit
prefixes lie outside all of them: they stay unwritable even without the explicit test.\<close>

theorem persona_write_policy_iff:
  "enforce_persona_long_term_write_policy e person = Ok () \<longleftrightarrow>
     traceable e \<and> event_source e = SystemSource \<and> event_privacy e = Private \<and>
     event_source_kind e = Some Manual \<and> event_entity e = expected_person_entity person \<and>
     list_ex (\<lambda>(pre, ty, msg). starts_with (event_slot e) pre \<and> event_type e = ty)
       (persona_slot_families person)"
  (is "?acc \<longleftrightarrow> ?meta \<and> ?fam")
proof
  assume ?acc
  then show "?meta \<and> ?fam"
    using persona_wp.accepted_traceable
    by (auto simp: enforce_persona_long_term_write_policy_def check_slot_families_Ok
        persona_families_disjoint split: if_splits sum.splits option.splits)
next
  assume r: "?meta \<and> ?fam"
  then have "\<not> is_protected_self_edit_slot (event_slot e) person"
    using protected_not_in_family by (fastforce simp: list_ex_iff)
  with r show ?acc
    by (auto simp: enforce_persona_long_term_write_policy_def check_slot_families_Ok
        persona_families_disjoint traceable_def require_common_write_metadata_def
        split: option.splits)
qed

end
