(* ===== verification/Memory_Tools.thy ===== *)
theory Memory_Tools
  imports Write_Policy "HOL-Library.List_Lexorder" "HOL-Library.Char_ord"
begin

text \<open>
  The memory tools the language model calls (\<open>src/src/core/tools/memory/\<close>): argument parsing, the
  tenant scope of each call, the write policy, and the audit trail of the governance tool. The
  memory backend (a trait with several implementations) is a record of functions over an arbitrary
  state; a call returns the new world and either an error or a tool result.
\<close>

subsection \<open>JSON arguments\<close>

datatype json =
  JNull | JBool bool | JInt int | JFloat rat | JString rstr | JArray "json list"
| JObject "(rstr \<times> json) list"

fun json_get :: "json \<Rightarrow> rstr \<Rightarrow> json option" where
  "json_get (JObject m) k = map_of m k"
| "json_get _ k = None"

fun as_str :: "json \<Rightarrow> rstr option" where
  "as_str (JString s) = Some s"
| "as_str _ = None"

fun as_bool :: "json \<Rightarrow> bool option" where
  "as_bool (JBool b) = Some b"
| "as_bool _ = None"

fun as_array :: "json \<Rightarrow> json list option" where
  "as_array (JArray xs) = Some xs"
| "as_array _ = None"

fun as_u64 :: "json \<Rightarrow> nat option" where
  "as_u64 (JInt n) = (if 0 \<le> n \<and> n < 2 ^ 64 then Some (nat n) else None)"
| "as_u64 _ = None"

fun as_f64 :: "json \<Rightarrow> rat option" where
  "as_f64 (JInt n) = Some (of_int n)"
| "as_f64 (JFloat q) = Some q"
| "as_f64 _ = None"

definition get_str :: "json \<Rightarrow> rstr \<Rightarrow> rstr option" where
  "get_str args k = Option.bind (json_get args k) as_str"

subsection \<open>Errors, backend and world\<close>

datatype tool_error = Anyhow rstr | MemErr memory_error

fun tool_error_display :: "tool_error \<Rightarrow> rstr" where
  "tool_error_display (Anyhow m) = m"
| "tool_error_display (MemErr e) = memory_error_display e"

datatype forget_mode = ForgetSoft | ForgetHard | ForgetTombstone

datatype capability_support = Supported | Degraded | Unsupported

record mem_cap_matrix =
  cap_backend :: rstr
  cap_soft :: capability_support
  cap_hard :: capability_support
  cap_tombstone :: capability_support

definition postgres_capability_matrix :: mem_cap_matrix where
  "postgres_capability_matrix =
     \<lparr>cap_backend = ''postgres'', cap_soft = Supported, cap_hard = Supported,
      cap_tombstone = Supported\<rparr>"

definition markdown_capability_matrix :: mem_cap_matrix where
  "markdown_capability_matrix =
     \<lparr>cap_backend = ''markdown'', cap_soft = Degraded, cap_hard = Unsupported,
      cap_tombstone = Degraded\<rparr>"

definition capability_matrix_for_backend :: "rstr \<Rightarrow> mem_cap_matrix option" where
  "capability_matrix_for_backend backend =
     find (\<lambda>c. cap_backend c = (if backend = ''none'' then ''markdown'' else backend))
       [postgres_capability_matrix, markdown_capability_matrix]"

definition capability_matrix_for_memory :: "rstr \<Rightarrow> mem_cap_matrix" where
  "capability_matrix_for_memory name =
     (case capability_matrix_for_backend name of Some c \<Rightarrow> c | None \<Rightarrow> markdown_capability_matrix)"

fun support_for_forget_mode :: "mem_cap_matrix \<Rightarrow> forget_mode \<Rightarrow> capability_support" where
  "support_for_forget_mode c ForgetSoft = cap_soft c"
| "support_for_forget_mode c ForgetHard = cap_hard c"
| "support_for_forget_mode c ForgetTombstone = cap_tombstone c"

fun forget_mode_name :: "forget_mode \<Rightarrow> rstr" where
  "forget_mode_name ForgetSoft = ''soft''"
| "forget_mode_name ForgetHard = ''hard''"
| "forget_mode_name ForgetTombstone = ''tombstone''"

definition require_forget_mode :: "mem_cap_matrix \<Rightarrow> forget_mode \<Rightarrow> (memory_error, unit) result" where
  "require_forget_mode c mode =
     (if support_for_forget_mode c mode = Unsupported
      then Err (UnsupportedErr (''memory backend '' @ [CHR 0x27] @ cap_backend c @ [CHR 0x27] @
             '' does not support forget mode '' @ [CHR 0x27] @ forget_mode_name mode @ [CHR 0x27]))
      else Ok ())"

record belief_slot =
  slot_entity :: rstr
  slot_key :: rstr
  slot_value :: rstr
  slot_confidence :: rat
  slot_importance :: rat
  slot_privacy :: privacy_level
  slot_updated_at :: rstr

text \<open>A recalled entry; \<open>entry_score\<close> is the score as printed (a rounded percentage).\<close>

record recall_entry =
  entry_entity :: rstr
  entry_slot :: rstr
  entry_value :: rstr
  entry_score :: rstr

record recall_query =
  rq_entity :: rstr
  rq_query :: rstr
  rq_limit :: nat
  rq_policy :: tenant_ctx
  rq_layer_filter :: "memory_layer option"

record forget_outcome =
  was_applied :: bool
  outcome_json :: json

record 'm backend =
  b_name :: rstr
  b_append :: "'m \<Rightarrow> memory_event \<Rightarrow> 'm \<times> (memory_error, rstr) result"
  b_resolve :: "'m \<Rightarrow> rstr \<Rightarrow> rstr \<Rightarrow> (memory_error, belief_slot option) result"
  b_forget :: "'m \<Rightarrow> rstr \<Rightarrow> rstr \<Rightarrow> forget_mode \<Rightarrow> rstr \<Rightarrow> 'm \<times> (memory_error, forget_outcome) result"
  b_recall :: "'m \<Rightarrow> recall_query \<Rightarrow> (memory_error, recall_entry list) result"
  b_count :: "'m \<Rightarrow> rstr \<Rightarrow> (memory_error, nat) result"
  b_verify :: "'m \<Rightarrow> (memory_error, json) result"

datatype access_type = AccessRead | AccessWrite | AccessDelete | AccessSearch

record audit_record =
  audit_actor :: rstr
  audit_action :: rstr
  audit_entity :: rstr
  audit_keys :: "rstr list"
  audit_outcome :: rstr
  audit_message :: rstr

text \<open>The log entries: an access, or the transition of a deleted slot.\<close>

datatype access_entry = Access rstr access_type "rstr option" | DeletedBy rstr

record 'm tool_world =
  w_mem :: 'm
  w_access :: "access_entry list option"
  w_audit :: "audit_record list"

text \<open>The context of a call: tenant, clock, and whether the audit file can be written.\<close>

record tool_env =
  env_tenant :: tenant_ctx
  env_caller :: rstr
  env_now :: rstr
  env_audit_path :: rstr
  env_audit_failure :: "rstr option"

record tool_result =
  tr_success :: bool
  tr_output :: json
  tr_error :: "rstr option"

definition tool_success :: "json \<Rightarrow> tool_result" where
  "tool_success out = \<lparr>tr_success = True, tr_output = out, tr_error = None\<rparr>"

definition tool_failure :: "rstr \<Rightarrow> tool_result" where
  "tool_failure msg = \<lparr>tr_success = False, tr_output = JString [], tr_error = Some msg\<rparr>"

text \<open>The \<open>?\<close> operator: an error ends the call with the world as it is.\<close>

definition try_res ::
    "'w \<Rightarrow> ('e, 'a) result \<Rightarrow> ('a \<Rightarrow> 'w \<times> ('e, 'b) result) \<Rightarrow> 'w \<times> ('e, 'b) result" where
  "try_res w r k = (case r of Err e \<Rightarrow> (w, Err e) | Ok a \<Rightarrow> k a)"

lemma try_res_simps [simp]: "try_res w (Inl e) k = (w, Inl e)" "try_res w (Inr a) k = k a"
  by (simp_all add: try_res_def)

text \<open>Simplification works on the first failing step only, not inside the continuation.\<close>

lemma try_res_cong [cong]: "r = r' \<Longrightarrow> try_res w r k = try_res w r' k"
  by simp

definition log_access :: "access_entry \<Rightarrow> 'm tool_world \<Rightarrow> 'm tool_world" where
  "log_access a w = w\<lparr>w_access := map_option (\<lambda>l. l @ [a]) (w_access w)\<rparr>"

definition missing :: "rstr \<Rightarrow> tool_error" where
  "missing name = Anyhow (''Missing '' @ [CHR 0x27] @ name @ [CHR 0x27] @ '' parameter'')"

definition invalid :: "rstr \<Rightarrow> rstr \<Rightarrow> tool_error" where
  "invalid name why = Anyhow (''Invalid '' @ [CHR 0x27] @ name @ [CHR 0x27] @ '' parameter: '' @ why)"

definition required_str :: "json \<Rightarrow> rstr \<Rightarrow> (tool_error, rstr) result" where
  "required_str args k = (case get_str args k of None \<Rightarrow> Err (missing k) | Some s \<Rightarrow> Ok s)"

subsection \<open>Tenant scope of a call\<close>

fun scope_error_text :: "scope_error \<Rightarrow> rstr" where
  "scope_error_text TenantDefaultRecallForbidden =
     ''blocked by security policy: tenant mode forbids default recall scope''"
| "scope_error_text TenantRecallScopeMismatch =
     ''blocked by security policy: tenant recall scope mismatch''"

definition normalized_tenant_id :: "rstr option \<Rightarrow> rstr option" where
  "normalized_tenant_id raw =
     (case raw of None \<Rightarrow> None | Some s \<Rightarrow> if trim s = [] then None else Some (trim s))"

definition merge_tenant_policy_context ::
    "tenant_ctx \<Rightarrow> tenant_ctx \<Rightarrow> (tool_error, tenant_ctx) result" where
  "merge_tenant_policy_context base requested =
     (if \<not> tenant_mode_enabled base then Ok requested
      else if \<not> tenant_mode_enabled requested then Ok base
      else let base_tenant = normalized_tenant_id (tenant_id base);
               requested_tenant = normalized_tenant_id (tenant_id requested) in
        if base_tenant \<noteq> None \<and> requested_tenant \<noteq> None \<and> base_tenant \<noteq> requested_tenant
        then Err (invalid ''policy_context'' ''tenant_id mismatch with execution context'')
        else Ok \<lparr>tenant_mode_enabled = True,
                 tenant_id = (case base_tenant of None \<Rightarrow> requested_tenant | Some t \<Rightarrow> Some t)\<rparr>)"

text \<open>
  Reading a context from JSON: an object whose \<open>tenant_id\<close> may be missing or null, or the two
  fields as an array. The text of the reader's error is the reader's.
\<close>

fun json_tenant_id :: "json option \<Rightarrow> rstr option option" where
  "json_tenant_id None = Some None"
| "json_tenant_id (Some JNull) = Some None"
| "json_tenant_id (Some (JString s)) = Some (Some s)"
| "json_tenant_id (Some _) = None"

definition tenant_ctx_from_json :: "json \<Rightarrow> tenant_ctx option" where
  "tenant_ctx_from_json j =
     (case j of
        JObject m \<Rightarrow>
          (case Option.bind (map_of m ''tenant_mode_enabled'') as_bool of
             None \<Rightarrow> None
           | Some b \<Rightarrow> map_option (\<lambda>t. \<lparr>tenant_mode_enabled = b, tenant_id = t\<rparr>)
                        (json_tenant_id (map_of m ''tenant_id'')))
      | JArray [JBool b, t] \<Rightarrow>
          map_option (\<lambda>t. \<lparr>tenant_mode_enabled = b, tenant_id = t\<rparr>) (json_tenant_id (Some t))
      | _ \<Rightarrow> None)"

definition effective_tenant_policy_context ::
    "json \<Rightarrow> tool_env \<Rightarrow> (tool_error, tenant_ctx) result" where
  "effective_tenant_policy_context args env =
     (case json_get args ''policy_context'' of
        None \<Rightarrow> Ok (env_tenant env)
      | Some raw \<Rightarrow>
          (case tenant_ctx_from_json raw of
             None \<Rightarrow> Err (invalid ''policy_context'' ''unreadable'')
           | Some requested \<Rightarrow> merge_tenant_policy_context (env_tenant env) requested))"

definition enforce_policy :: "recall_query \<Rightarrow> (memory_error, unit) result" where
  "enforce_policy q =
     (case enforce_recall_scope (rq_policy q) (rq_entity q) of
        Err e \<Rightarrow> Err (PolicyErr (scope_error_text e)) | Ok _ \<Rightarrow> Ok ())"

definition recall_query_new :: "rstr \<Rightarrow> rstr \<Rightarrow> nat \<Rightarrow> tenant_ctx \<Rightarrow> recall_query" where
  "recall_query_new entity q n ctx =
     \<lparr>rq_entity = entity, rq_query = q, rq_limit = n, rq_policy = ctx, rq_layer_filter = None\<rparr>"

definition enforce_entity_scope :: "rstr \<Rightarrow> tenant_ctx \<Rightarrow> (tool_error, unit) result" where
  "enforce_entity_scope entity ctx =
     (case enforce_policy (recall_query_new entity [] 1 ctx) of
        Err e \<Rightarrow> Err (MemErr e) | Ok _ \<Rightarrow> Ok ())"

subsection \<open>Looking up, storing and correcting a slot\<close>

definition lookup_execute ::
    "'m backend \<Rightarrow> tool_env \<Rightarrow> json \<Rightarrow> 'm tool_world \<Rightarrow> 'm tool_world \<times> (tool_error, tool_result) result" where
  "lookup_execute b env args w =
     try_res w (required_str args ''entity_id'') (\<lambda>entity.
     try_res w (required_str args ''slot_key'') (\<lambda>key.
     try_res w (enforce_entity_scope entity (env_tenant env)) (\<lambda>_.
       case b_resolve b (w_mem w) entity key of
         Ok (Some slot) \<Rightarrow>
           (log_access (Access entity AccessRead (Some key)) w,
            Ok (tool_success (JString (''Resolved slot ['' @ slot_entity slot @ '':'' @ slot_key slot @
                  ''] = '' @ slot_value slot))))
       | Ok None \<Rightarrow>
           (w, Ok (tool_success (JString (''No value found for slot ['' @ entity @ '':'' @ key @ '']''))))
       | Err e \<Rightarrow> (w, Ok (tool_failure (''Memory lookup failed: '' @ memory_error_display e))))))"

definition parse_layer :: "json \<Rightarrow> (tool_error, memory_layer) result" where
  "parse_layer args =
     (case json_get args ''layer'' of
        None \<Rightarrow> Ok LWorking
      | Some j \<Rightarrow>
          (case as_str j of
             None \<Rightarrow> Err (invalid ''layer'' ''expected string'')
           | Some l \<Rightarrow>
               (case map_of [(''working'', LWorking), (''episodic'', LEpisodic),
                             (''semantic'', LSemantic), (''procedural'', LProcedural),
                             (''identity'', LIdentity)] l of
                  Some layer \<Rightarrow> Ok layer
                | None \<Rightarrow> Err (invalid ''layer'' (''got '' @ [CHR 0x27] @ l @ [CHR 0x27] @
                    '', must be one of working, episodic, semantic, procedural, identity'')))))"

definition parse_source_class :: "json \<Rightarrow> (tool_error, memory_source) result" where
  "parse_source_class p =
     (case json_get p ''source_class'' of
        None \<Rightarrow> Err (invalid ''provenance.source_class'' ''missing required field'')
      | Some j \<Rightarrow>
          (case as_str j of
             None \<Rightarrow> Err (invalid ''provenance.source_class'' ''expected string'')
           | Some c \<Rightarrow>
               (case map_of [(''explicit_user'', ExplicitUser), (''tool_verified'', ToolVerified),
                             (''system'', SystemSource), (''inferred'', InferredSource)] c of
                  Some src \<Rightarrow> Ok src
                | None \<Rightarrow> Err (invalid ''provenance.source_class'' (''got '' @ [CHR 0x27] @ c @
                    [CHR 0x27] @ '', must be one of explicit_user, tool_verified, system, inferred'')))))"

definition parse_reference :: "json \<Rightarrow> (tool_error, rstr) result" where
  "parse_reference p =
     (case json_get p ''reference'' of
        None \<Rightarrow> Err (invalid ''provenance.reference'' ''missing required field'')
      | Some j \<Rightarrow>
          (case as_str j of
             None \<Rightarrow> Err (invalid ''provenance.reference'' ''expected string'')
           | Some r \<Rightarrow> if trim r = [] then Err (invalid ''provenance.reference'' ''must not be empty'')
                      else Ok r))"

definition parse_evidence_uri :: "json \<Rightarrow> (tool_error, rstr option) result" where
  "parse_evidence_uri p =
     (case json_get p ''evidence_uri'' of
        None \<Rightarrow> Ok None
      | Some JNull \<Rightarrow> Ok None
      | Some j \<Rightarrow>
          (case as_str j of
             None \<Rightarrow> Err (invalid ''provenance.evidence_uri'' ''expected string'')
           | Some u \<Rightarrow> if trim u = [] then Err (invalid ''provenance.evidence_uri'' ''must not be empty'')
                      else Ok (Some u)))"

definition parse_provenance :: "json \<Rightarrow> (tool_error, memory_provenance option) result" where
  "parse_provenance args =
     (case json_get args ''provenance'' of
        None \<Rightarrow> Ok None
      | Some (JObject m) \<Rightarrow>
          (case parse_source_class (JObject m) of
             Err e \<Rightarrow> Err e
           | Ok c \<Rightarrow>
               (case parse_reference (JObject m) of
                  Err e \<Rightarrow> Err e
                | Ok r \<Rightarrow>
                    (case parse_evidence_uri (JObject m) of
                       Err e \<Rightarrow> Err e
                     | Ok u \<Rightarrow> Ok (Some \<lparr>source_class = c, prov_reference = r, evidence_uri = u\<rparr>))))
      | Some _ \<Rightarrow> Err (invalid ''provenance'' ''expected object''))"

definition store_source :: "json \<Rightarrow> memory_source" where
  "store_source args =
     (case get_str args ''source'' of
        None \<Rightarrow> SystemSource
      | Some s \<Rightarrow> if s = ''explicit_user'' then ExplicitUser
                 else if s = ''tool_verified'' then ToolVerified
                 else if s = ''inferred'' then InferredSource
                 else SystemSource)"

definition store_privacy :: "json \<Rightarrow> privacy_level" where
  "store_privacy args =
     (case get_str args ''privacy_level'' of
        None \<Rightarrow> Private
      | Some s \<Rightarrow> if s = ''public'' then Public else if s = ''secret'' then SecretLevel else Private)"

text \<open>The event \<open>memory_store\<close> builds from its parsed arguments.\<close>

definition store_event ::
    "tool_env \<Rightarrow> json \<Rightarrow> rstr \<Rightarrow> rstr \<Rightarrow> rstr \<Rightarrow> memory_event_type \<Rightarrow> memory_layer \<Rightarrow>
     memory_provenance option \<Rightarrow> memory_event" where
  "store_event env args entity key v ty layer prov =
     (let src = store_source args;
          e = (memory_event_new (env_now env) entity key ty v src (store_privacy args))
                \<lparr>event_layer := layer,
                 event_importance := score_new
                   (case Option.bind (json_get args ''importance'') as_f64 of
                      None \<Rightarrow> score_new (1 / 2) | Some q \<Rightarrow> score_new q)\<rparr>;
          e = (case Option.bind (json_get args ''confidence'') as_f64 of
                 None \<Rightarrow> e | Some q \<Rightarrow> e\<lparr>event_confidence := score_new (score_new q)\<rparr>)
      in e\<lparr>event_source_kind := Some Manual,
           event_source_ref := Some (case get_str args ''source_ref'' of
                                 None \<Rightarrow> ''tool.memory_store'' | Some r \<Rightarrow> r),
           event_provenance := Some (case prov of
                                 Some p \<Rightarrow> p | None \<Rightarrow> source_reference src ''tool.memory_store'')\<rparr>)"

definition lift_str :: "(rstr, unit) result \<Rightarrow> (tool_error, unit) result" where
  "lift_str r = (case r of Err m \<Rightarrow> Err (Anyhow m) | Ok u \<Rightarrow> Ok u)"

definition lift_mem :: "(memory_error, 'a) result \<Rightarrow> (tool_error, 'a) result" where
  "lift_mem r = (case r of Err e \<Rightarrow> Err (MemErr e) | Ok a \<Rightarrow> Ok a)"

definition store_execute ::
    "'m backend \<Rightarrow> tool_env \<Rightarrow> json \<Rightarrow> 'm tool_world \<Rightarrow> 'm tool_world \<times> (tool_error, tool_result) result" where
  "store_execute b env args w =
     try_res w (required_str args ''entity_id'') (\<lambda>entity.
     try_res w (enforce_entity_scope entity (env_tenant env)) (\<lambda>_.
     try_res w (required_str args ''value'') (\<lambda>v.
     try_res w (required_str args ''slot_key'') (\<lambda>key.
     try_res w (lift_mem (event_type_from_str
         (case get_str args ''event_type'' of None \<Rightarrow> ''fact_added'' | Some t \<Rightarrow> t))) (\<lambda>ty.
     try_res w (parse_layer args) (\<lambda>layer.
     try_res w (parse_provenance args) (\<lambda>prov.
     let e = store_event env args entity key v ty layer prov in
     try_res w (lift_str (enforce_tool_memory_write_policy e)) (\<lambda>_.
       case b_append b (w_mem w) e of
         (m', Ok event_id) \<Rightarrow>
           (log_access (Access entity AccessWrite (Some key)) (w\<lparr>w_mem := m'\<rparr>),
            Ok (tool_success (JString (''Stored memory event: '' @ event_id))))
       | (m', Err x) \<Rightarrow>
           (w\<lparr>w_mem := m'\<rparr>,
            Ok (tool_failure (''Failed to store memory: '' @ memory_error_display x)))))))))))"

definition normalized_contains :: "rstr \<Rightarrow> rstr \<Rightarrow> bool" where
  "normalized_contains haystack needle =
     (let haystack = to_lowercase (trim haystack); needle = to_lowercase (trim needle) in
      needle \<noteq> [] \<and> contains haystack needle)"

definition correction_event :: "tool_env \<Rightarrow> rstr \<Rightarrow> rstr \<Rightarrow> rstr \<Rightarrow> rstr \<Rightarrow> memory_event" where
  "correction_event env entity key new_value reason =
     (memory_event_new (env_now env) entity key FactUpdated new_value SystemSource Private)
       \<lparr>event_source_kind := Some Manual, event_source_ref := Some ''tool.memory_correct'',
        event_provenance := Some (source_reference SystemSource (''tool.memory_correct:'' @ reason))\<rparr>"

definition correct_execute ::
    "'m backend \<Rightarrow> tool_env \<Rightarrow> json \<Rightarrow> 'm tool_world \<Rightarrow> 'm tool_world \<times> (tool_error, tool_result) result" where
  "correct_execute b env args w =
     try_res w (required_str args ''entity_id'') (\<lambda>entity.
     try_res w (required_str args ''slot_key'') (\<lambda>key.
     try_res w (required_str args ''old_value'') (\<lambda>old_value.
     try_res w (required_str args ''new_value'') (\<lambda>new_value.
     try_res w (required_str args ''reason'') (\<lambda>reason.
     try_res w (enforce_entity_scope entity (env_tenant env)) (\<lambda>_.
       let place = '' ['' @ entity @ '':'' @ key @ '']'' in
       case b_resolve b (w_mem w) entity key of
         Err x \<Rightarrow> (w, Ok (tool_failure (''Memory correction failed: '' @ memory_error_display x)))
       | Ok None \<Rightarrow>
           (w, Ok (tool_failure (''Memory correction failed: no current value found for'' @ place)))
       | Ok (Some slot) \<Rightarrow>
           if \<not> normalized_contains (slot_value slot) old_value
           then (w, Ok (tool_failure (''Memory correction failed: current value did not match '' @
                   [CHR 0x27] @ ''old_value'' @ [CHR 0x27] @ '' for'' @ place)))
           else let e = correction_event env entity key new_value reason in
             try_res w (lift_str (enforce_tool_memory_write_policy e)) (\<lambda>_.
               case b_append b (w_mem w) e of
                 (m', Ok event_id) \<Rightarrow>
                   (log_access (Access entity AccessWrite (Some key)) (w\<lparr>w_mem := m'\<rparr>),
                    Ok (tool_success (JString (''Corrected slot'' @ place @ '' and recorded event '' @
                          event_id))))
               | (m', Err x) \<Rightarrow>
                   (w\<lparr>w_mem := m'\<rparr>,
                    Ok (tool_failure (''Memory correction failed: '' @ memory_error_display x))))))))))"

subsection \<open>Forgetting and recalling\<close>

definition parse_mode :: "json \<Rightarrow> forget_mode" where
  "parse_mode args =
     (case get_str args ''mode'' of
        None \<Rightarrow> ForgetSoft
      | Some s \<Rightarrow> if s = ''hard'' then ForgetHard else if s = ''tombstone'' then ForgetTombstone
                 else ForgetSoft)"

definition ensure_forget_mode_supported ::
    "'m backend \<Rightarrow> forget_mode \<Rightarrow> (memory_error, unit) result" where
  "ensure_forget_mode_supported b mode =
     require_forget_mode (capability_matrix_for_memory (b_name b)) mode"

definition forget_failed :: "rstr \<Rightarrow> tool_result" where
  "forget_failed msg = tool_failure (''Failed to forget memory: '' @ msg)"

definition forget_execute ::
    "'m backend \<Rightarrow> tool_env \<Rightarrow> json \<Rightarrow> 'm tool_world \<Rightarrow> 'm tool_world \<times> (tool_error, tool_result) result" where
  "forget_execute b env args w =
     try_res w (required_str args ''slot_key'') (\<lambda>key.
     try_res w (required_str args ''entity_id'') (\<lambda>entity.
     let reason = (case get_str args ''reason'' of None \<Rightarrow> ''user_requested'' | Some r \<Rightarrow> r) in
     try_res w (effective_tenant_policy_context args env) (\<lambda>ctx.
     case enforce_recall_scope ctx entity of
       Err x \<Rightarrow> (w, Ok (forget_failed (scope_error_text x)))
     | Ok _ \<Rightarrow>
         let mode = parse_mode args in
         (case ensure_forget_mode_supported b mode of
            Err x \<Rightarrow> (w, Ok (forget_failed (memory_error_display x)))
          | Ok _ \<Rightarrow>
              (case b_forget b (w_mem w) entity key mode reason of
                 (m', Ok outcome) \<Rightarrow>
                   if was_applied outcome
                   then (log_access (DeletedBy entity)
                           (log_access (Access entity AccessDelete (Some key)) (w\<lparr>w_mem := m'\<rparr>)),
                         Ok (tool_success (JString (''Forgot slot: '' @ key))))
                   else (w\<lparr>w_mem := m'\<rparr>,
                         Ok (tool_success (JString (''No memory found with key: '' @ key))))
               | (m', Err x) \<Rightarrow> (w\<lparr>w_mem := m'\<rparr>, Ok (forget_failed (memory_error_display x))))))))"

definition default_recall_limit :: nat where
  "default_recall_limit = 5"

definition max_recall_limit :: nat where
  "max_recall_limit = 20"

definition parse_recall_limit :: "json \<Rightarrow> (tool_error, nat) result" where
  "parse_recall_limit args =
     (case json_get args ''limit'' of
        None \<Rightarrow> Ok default_recall_limit
      | Some j \<Rightarrow>
          (case as_u64 j of
             None \<Rightarrow> Err (invalid ''limit'' ''expected non-negative integer'')
           | Some n \<Rightarrow> if max_recall_limit < n
                      then Err (invalid ''limit'' (''must be '' @ decimal max_recall_limit @ '' or fewer''))
                      else Ok n))"

definition build_recall_request :: "json \<Rightarrow> tool_env \<Rightarrow> (tool_error, recall_query) result" where
  "build_recall_request args env =
     (case required_str args ''query'' of
        Err e \<Rightarrow> Err e
      | Ok q \<Rightarrow>
          (case parse_recall_limit args of
             Err e \<Rightarrow> Err e
           | Ok n \<Rightarrow>
               (case required_str args ''entity_id'' of
                  Err e \<Rightarrow> Err e
                | Ok entity \<Rightarrow>
                    (case effective_tenant_policy_context args env of
                       Err e \<Rightarrow> Err e
                     | Ok ctx \<Rightarrow>
                         let request = recall_query_new entity q n ctx in
                         (case enforce_policy request of
                            Err e \<Rightarrow> Err (MemErr e) | Ok _ \<Rightarrow> Ok request)))))"

fun memory_recall_error_text :: "tool_error \<Rightarrow> rstr" where
  "memory_recall_error_text (MemErr (PolicyErr m)) = m"
| "memory_recall_error_text e = tool_error_display e"

definition recall_line :: "recall_entry \<Rightarrow> rstr" where
  "recall_line x = ''- ['' @ entry_entity x @ '':'' @ entry_slot x @ ''] '' @ entry_value x @ '' ['' @
     entry_score x @ ''%]'' @ [CHR 0x0A]"

definition recall_execute ::
    "'m backend \<Rightarrow> tool_env \<Rightarrow> json \<Rightarrow> 'm tool_world \<Rightarrow> 'm tool_world \<times> (tool_error, tool_result) result" where
  "recall_execute b env args w =
     (case build_recall_request args env of
        Err e \<Rightarrow>
          if starts_with (memory_recall_error_text e) ''blocked by security policy:''
          then (w, Ok (tool_failure (''Memory recall failed: '' @ memory_recall_error_text e)))
          else (w, Err e)
      | Ok request \<Rightarrow>
          (case b_recall b (w_mem w) request of
             Ok entries \<Rightarrow>
               (log_access (Access (env_caller env) AccessSearch None) w,
                Ok (tool_success (JString
                  (if entries = [] then ''No memories found matching that query.''
                   else ''Found '' @ decimal (length entries) @ '' memories:'' @ [CHR 0x0A] @
                        concat (map recall_line entries)))))
           | Err e \<Rightarrow> (w, Ok (tool_failure (''Memory recall failed: '' @ memory_error_display e)))))"

subsection \<open>The governance tool\<close>

datatype governance_action = Inspect | Export | DeleteAction | VerifyIntegrity

fun action_str :: "governance_action \<Rightarrow> rstr" where
  "action_str Inspect = ''inspect''"
| "action_str Export = ''export''"
| "action_str DeleteAction = ''delete''"
| "action_str VerifyIntegrity = ''verify_integrity''"

definition parse_action :: "json \<Rightarrow> (tool_error, governance_action) result" where
  "parse_action args =
     (case required_str args ''action'' of
        Err e \<Rightarrow> Err e
      | Ok a \<Rightarrow>
          (case map_of [(''inspect'', Inspect), (''export'', Export), (''delete'', DeleteAction),
                        (''verify_integrity'', VerifyIntegrity)] a of
             Some x \<Rightarrow> Ok x
           | None \<Rightarrow> Err (invalid ''action'' (''got '' @ [CHR 0x27] @ a @ [CHR 0x27] @
               '', must be one of inspect, export, delete, verify_integrity''))))"

definition parse_actor :: "json \<Rightarrow> (tool_error, rstr) result" where
  "parse_actor args =
     (case required_str args ''actor'' of
        Err e \<Rightarrow> Err e
      | Ok a \<Rightarrow> if trim a = [] then Err (invalid ''actor'' ''must not be empty'') else Ok (trim a))"

definition parse_entity_id :: "json \<Rightarrow> (tool_error, rstr) result" where
  "parse_entity_id args =
     (case required_str args ''entity_id'' of
        Err e \<Rightarrow> Err e
      | Ok a \<Rightarrow> if trim a = [] then Err (invalid ''entity_id'' ''must not be empty'') else Ok (trim a))"

definition parse_entity_id_for_action ::
    "governance_action \<Rightarrow> json \<Rightarrow> (tool_error, rstr) result" where
  "parse_entity_id_for_action action args =
     (if action = VerifyIntegrity
      then Ok (case get_str args ''entity_id'' of
                 None \<Rightarrow> ''_integrity''
               | Some s \<Rightarrow> if trim s = [] then ''_integrity'' else trim s)
      else parse_entity_id args)"

fun collect_keys :: "json list \<Rightarrow> (tool_error, rstr list) result" where
  "collect_keys [] = Ok []"
| "collect_keys (j # js) =
     (case as_str j of
        None \<Rightarrow> Err (invalid ''slot_keys'' ''expected array of strings'')
      | Some s \<Rightarrow>
          if trim s = [] then Err (invalid ''slot_keys'' ''must not contain empty values'')
          else (case collect_keys js of Err e \<Rightarrow> Err e | Ok ks \<Rightarrow> Ok (trim s # ks)))"

definition parse_single_key :: "json \<Rightarrow> (tool_error, rstr list) result" where
  "parse_single_key args =
     (case json_get args ''slot_key'' of
        None \<Rightarrow> Ok []
      | Some j \<Rightarrow>
          (case as_str j of
             None \<Rightarrow> Err (invalid ''slot_key'' ''expected string'')
           | Some s \<Rightarrow> if trim s = [] then Err (invalid ''slot_key'' ''must not be empty'')
                      else Ok [trim s]))"

definition parse_scope_keys :: "json \<Rightarrow> (tool_error, rstr list) result" where
  "parse_scope_keys args =
     (case parse_single_key args of
        Err e \<Rightarrow> Err e
      | Ok ks \<Rightarrow>
          (case (case json_get args ''slot_keys'' of
                   None \<Rightarrow> Ok []
                 | Some j \<Rightarrow>
                     (case as_array j of
                        None \<Rightarrow> Err (invalid ''slot_keys'' ''expected array of strings'')
                      | Some js \<Rightarrow> collect_keys js)) of
             Err e \<Rightarrow> Err e
           | Ok ks' \<Rightarrow> Ok (remdups_adj (sort (ks @ ks')))))"

definition parse_include_sensitive :: "json \<Rightarrow> bool" where
  "parse_include_sensitive args =
     (case Option.bind (json_get args ''include_sensitive'') as_bool of None \<Rightarrow> False | Some b \<Rightarrow> b)"

fun privacy_json :: "privacy_level \<Rightarrow> json" where
  "privacy_json Public = JString ''public''"
| "privacy_json Private = JString ''private''"
| "privacy_json SecretLevel = JString ''secret''"

definition redact_slot :: "belief_slot \<Rightarrow> bool \<Rightarrow> json" where
  "redact_slot slot include_sensitive =
     JObject ([(''slot_key'', JString (slot_key slot)),
               (''privacy_level'', privacy_json (slot_privacy slot)),
               (if include_sensitive \<or> slot_privacy slot = Public
                then (''value'', JString (slot_value slot))
                else (''value_redacted'', JBool True)),
               (''confidence'', JFloat (slot_confidence slot)),
               (''importance'', JFloat (slot_importance slot)),
               (''updated_at'', JString (slot_updated_at slot))])"

definition keys_json :: "rstr list \<Rightarrow> json" where
  "keys_json ks = JArray (map JString ks)"

text \<open>The two loops over the scope keys; a failing read ends the action.\<close>

fun inspect_slots ::
    "'m backend \<Rightarrow> 'm \<Rightarrow> rstr \<Rightarrow> bool \<Rightarrow> rstr list \<Rightarrow> (tool_error, json list) result" where
  "inspect_slots b m entity inc [] = Ok []"
| "inspect_slots b m entity inc (k # ks) =
     (case b_resolve b m entity k of
        Err e \<Rightarrow> Err (MemErr e)
      | Ok found \<Rightarrow>
          (case inspect_slots b m entity inc ks of
             Err e \<Rightarrow> Err e
           | Ok js \<Rightarrow>
               Ok ((case found of
                      Some slot \<Rightarrow> redact_slot slot inc
                    | None \<Rightarrow> JObject [(''slot_key'', JString k), (''status'', JString ''not_found'')])
                   # js)))"

fun export_slots ::
    "'m backend \<Rightarrow> 'm \<Rightarrow> rstr \<Rightarrow> bool \<Rightarrow> rstr list \<Rightarrow> (tool_error, json list \<times> rstr list) result" where
  "export_slots b m entity inc [] = Ok ([], [])"
| "export_slots b m entity inc (k # ks) =
     (case b_resolve b m entity k of
        Err e \<Rightarrow> Err (MemErr e)
      | Ok found \<Rightarrow>
          (case export_slots b m entity inc ks of
             Err e \<Rightarrow> Err e
           | Ok (entries, absent) \<Rightarrow>
               (case found of
                  Some slot \<Rightarrow> Ok (redact_slot slot inc # entries, absent)
                | None \<Rightarrow> Ok (entries, k # absent))))"

definition run_inspect ::
    "'m backend \<Rightarrow> 'm \<Rightarrow> rstr \<Rightarrow> rstr list \<Rightarrow> bool \<Rightarrow> (tool_error, json) result" where
  "run_inspect b m entity keys inc =
     (case b_count b m entity of
        Err e \<Rightarrow> Err (MemErr e)
      | Ok n \<Rightarrow>
          (case inspect_slots b m entity inc keys of
             Err e \<Rightarrow> Err e
           | Ok js \<Rightarrow> Ok (JObject [(''entity_id'', JString entity), (''event_count'', JInt (int n)),
                                  (''inspected_slots'', JArray js)])))"

definition run_export ::
    "'m backend \<Rightarrow> 'm \<Rightarrow> rstr \<Rightarrow> rstr list \<Rightarrow> bool \<Rightarrow> (tool_error, json) result" where
  "run_export b m entity keys inc =
     (if keys = []
      then Err (Anyhow (''Missing scope for export: provide '' @ [CHR 0x27] @ ''slot_key'' @ [CHR 0x27] @
             '' or '' @ [CHR 0x27] @ ''slot_keys'' @ [CHR 0x27]))
      else (case export_slots b m entity inc keys of
              Err e \<Rightarrow> Err e
            | Ok (entries, absent) \<Rightarrow>
                Ok (JObject [(''entity_id'', JString entity),
                             (''scope'', JObject [(''slot_keys'', keys_json keys)]),
                             (''entry_count'', JInt (int (length entries))),
                             (''entries'', JArray entries),
                             (''missing_slot_keys'', keys_json absent),
                             (''sensitive_fields_included'', JBool inc)])))"

definition run_delete ::
    "'m backend \<Rightarrow> 'm \<Rightarrow> rstr \<Rightarrow> rstr list \<Rightarrow> forget_mode \<Rightarrow> rstr \<Rightarrow> 'm \<times> (tool_error, json) result" where
  "run_delete b m entity keys mode reason =
     (case keys of
        [] \<Rightarrow> (m, Err (Anyhow (''Missing scope for delete: provide '' @ [CHR 0x27] @ ''slot_key'' @
                       [CHR 0x27])))
      | key # _ \<Rightarrow>
          (case ensure_forget_mode_supported b mode of
             Err e \<Rightarrow> (m, Err (MemErr e))
           | Ok _ \<Rightarrow>
               (case b_forget b m entity key mode reason of
                  (m', Ok outcome) \<Rightarrow> (m', Ok (outcome_json outcome))
                | (m', Err e) \<Rightarrow> (m', Err (MemErr e)))))"

fun run_action_payload ::
    "'m backend \<Rightarrow> 'm \<Rightarrow> governance_action \<Rightarrow> json \<Rightarrow> rstr \<Rightarrow> rstr list \<Rightarrow> bool
       \<Rightarrow> 'm \<times> (tool_error, json) result" where
  "run_action_payload b m Inspect args entity keys inc = (m, run_inspect b m entity keys inc)"
| "run_action_payload b m Export args entity keys inc = (m, run_export b m entity keys inc)"
| "run_action_payload b m DeleteAction args entity keys inc =
     run_delete b m entity keys (parse_mode args)
       (case get_str args ''reason'' of None \<Rightarrow> ''governance_request'' | Some r \<Rightarrow> r)"
| "run_action_payload b m VerifyIntegrity args entity keys inc = (m, lift_mem (b_verify b m))"

text \<open>Appending the record may fail (\<open>env_audit_failure\<close>), which ends the call with that error.\<close>

definition append_audit_record ::
    "tool_env \<Rightarrow> rstr \<Rightarrow> governance_action \<Rightarrow> rstr \<Rightarrow> rstr list \<Rightarrow> rstr \<Rightarrow> rstr \<Rightarrow> 'm tool_world
       \<Rightarrow> 'm tool_world \<times> (tool_error, rstr) result" where
  "append_audit_record env actor action entity keys outcome msg w =
     (case env_audit_failure env of
        Some e \<Rightarrow> (w, Err (Anyhow e))
      | None \<Rightarrow>
          (w\<lparr>w_audit := w_audit w @
              [\<lparr>audit_actor = actor, audit_action = action_str action, audit_entity = entity,
                audit_keys = keys, audit_outcome = outcome, audit_message = msg\<rparr>]\<rparr>,
           Ok (env_audit_path env)))"

definition refusal_output :: "rstr \<Rightarrow> governance_action \<Rightarrow> rstr \<Rightarrow> rstr list \<Rightarrow> json" where
  "refusal_output path action entity keys =
     JObject [(''audit_record_path'', JString path), (''action'', JString (action_str action)),
              (''entity_id'', JString entity), (''scope'', JObject [(''slot_keys'', keys_json keys)])]"

definition refused ::
    "tool_env \<Rightarrow> rstr \<Rightarrow> governance_action \<Rightarrow> rstr \<Rightarrow> rstr list \<Rightarrow> rstr \<Rightarrow> rstr \<Rightarrow> 'm tool_world
       \<Rightarrow> 'm tool_world \<times> (tool_error, tool_result) result" where
  "refused env actor action entity keys outcome msg w =
     (let (w', r) = append_audit_record env actor action entity keys outcome msg w in
      try_res w' r (\<lambda>path.
        (w', Ok \<lparr>tr_success = False, tr_output = refusal_output path action entity keys,
                tr_error = Some msg\<rparr>)))"

definition run_governance ::
    "'m backend \<Rightarrow> tool_env \<Rightarrow> json \<Rightarrow> governance_action \<Rightarrow> rstr \<Rightarrow> rstr \<Rightarrow> rstr list \<Rightarrow> 'm tool_world
       \<Rightarrow> 'm tool_world \<times> (tool_error, tool_result) result" where
  "run_governance b env args action actor entity keys w =
     (let (m', payload) = run_action_payload b (w_mem w) action args entity keys
                            (parse_include_sensitive args);
          w = w\<lparr>w_mem := m'\<rparr> in
      case payload of
        Err e \<Rightarrow> refused env actor action entity keys ''failed'' (tool_error_display e) w
      | Ok p \<Rightarrow>
          (let (w', r) = append_audit_record env actor action entity keys ''allowed''
                           ''governance action completed'' w in
           try_res w' r (\<lambda>path.
             (w', Ok (tool_success (JObject
                [(''action'', JString (action_str action)), (''entity_id'', JString entity),
                 (''scope'', JObject [(''slot_keys'', keys_json keys)]), (''result'', p),
                 (''audit_record_path'', JString path)]))))))"

definition governance_execute ::
    "'m backend \<Rightarrow> tool_env \<Rightarrow> json \<Rightarrow> 'm tool_world \<Rightarrow> 'm tool_world \<times> (tool_error, tool_result) result" where
  "governance_execute b env args w =
     try_res w (parse_action args) (\<lambda>action.
     try_res w (parse_actor args) (\<lambda>actor.
     try_res w (parse_entity_id_for_action action args) (\<lambda>entity.
     try_res w (parse_scope_keys args) (\<lambda>keys.
     try_res w (effective_tenant_policy_context args env) (\<lambda>ctx.
       if action = VerifyIntegrity
       then run_governance b env args action actor entity keys w
       else (case enforce_recall_scope ctx entity of
               Err x \<Rightarrow> refused env actor action entity keys ''denied'' (scope_error_text x) w
             | Ok _ \<Rightarrow> run_governance b env args action actor entity keys w))))))"

subsection \<open>Every tool call, and the scope it stays in\<close>

datatype memory_tool = LookupTool | StoreTool | CorrectTool | ForgetTool | RecallTool | GovernanceTool

fun memory_tool_execute ::
    "memory_tool \<Rightarrow> 'm backend \<Rightarrow> tool_env \<Rightarrow> json \<Rightarrow> 'm tool_world
       \<Rightarrow> 'm tool_world \<times> (tool_error, tool_result) result" where
  "memory_tool_execute LookupTool = lookup_execute"
| "memory_tool_execute StoreTool = store_execute"
| "memory_tool_execute CorrectTool = correct_execute"
| "memory_tool_execute ForgetTool = forget_execute"
| "memory_tool_execute RecallTool = recall_execute"
| "memory_tool_execute GovernanceTool = governance_execute"

definition acts_for_tenant :: "tool_env \<Rightarrow> rstr \<Rightarrow> bool" where
  "acts_for_tenant env t \<longleftrightarrow>
     tenant_mode_enabled (env_tenant env) \<and> tenant_id (env_tenant env) = Some t \<and>
     t \<noteq> [] \<and> trim t = t"

text \<open>A declared context can be refused or narrow the call's tenant, but never widen it.\<close>

lemma merged_context_tenant:
  assumes "acts_for_tenant env t" "merge_tenant_policy_context (env_tenant env) requested = Ok ctx"
  shows "tenant_mode_enabled ctx \<and> tenant_id ctx = Some t"
  using assms
  by (auto simp: acts_for_tenant_def merge_tenant_policy_context_def normalized_tenant_id_def Let_def
      split: if_splits)

lemma effective_context_tenant:
  assumes "acts_for_tenant env t" "effective_tenant_policy_context args env = Ok ctx"
  shows "tenant_mode_enabled ctx \<and> tenant_id ctx = Some t"
proof (cases "json_get args ''policy_context''")
  case None
  with assms(2) have "ctx = env_tenant env" by (simp add: effective_tenant_policy_context_def)
  then show ?thesis using assms(1) by (simp add: acts_for_tenant_def)
next
  case raw: (Some raw)
  show ?thesis
  proof (cases "tenant_ctx_from_json raw")
    case None
    with raw assms(2) show ?thesis by (simp add: effective_tenant_policy_context_def)
  next
    case (Some requested)
    with raw assms(2) have "merge_tenant_policy_context (env_tenant env) requested = Ok ctx"
      by (simp add: effective_tenant_policy_context_def)
    with assms(1) show ?thesis by (rule merged_context_tenant)
  qed
qed

lemma foreign_entity_refused:
  assumes "tenant_mode_enabled ctx \<and> tenant_id ctx = Some t" "\<not> in_tenant_scope t (trim e)"
  shows "\<exists>x. enforce_recall_scope ctx e = Err x"
  using assms by (auto simp: enforce_recall_scope_def Let_def)

lemma foreign_entity_denied:
  assumes "acts_for_tenant env t" "\<not> in_tenant_scope t (trim e)"
  shows "\<exists>x. enforce_entity_scope e (env_tenant env) = Err x"
  using foreign_entity_refused [of "env_tenant env" t e] assms
  by (auto simp: acts_for_tenant_def enforce_entity_scope_def enforce_policy_def recall_query_new_def)

definition foreign_call :: "rstr \<Rightarrow> json \<Rightarrow> bool" where
  "foreign_call t args \<longleftrightarrow>
     (case get_str args ''entity_id'' of None \<Rightarrow> True | Some e \<Rightarrow> \<not> in_tenant_scope t (trim e))"

text \<open>
  What a call outside the scope looks like: the memory is as before, and the answer does not depend
  on the backend or on the world.
\<close>

definition refuses ::
    "tool_env \<Rightarrow> json \<Rightarrow> memory_tool \<Rightarrow> (tool_error, tool_result) result \<Rightarrow> 'm backend \<Rightarrow> 'm tool_world \<Rightarrow> bool"
  where "refuses env args tool r b w \<longleftrightarrow>
     snd (memory_tool_execute tool b env args w) = r \<and>
     w_mem (fst (memory_tool_execute tool b env args w)) = w_mem w \<and>
     w_access (fst (memory_tool_execute tool b env args w)) = w_access w"

lemma simple_tools_refuse:
  assumes "acts_for_tenant env t" "foreign_call t args" "tool \<in> {LookupTool, StoreTool, CorrectTool}"
  shows "\<exists>r. \<forall>b w. refuses env args tool r b w"
proof (cases "get_str args ''entity_id''")
  case None
  then have "required_str args ''entity_id'' = Err (missing ''entity_id'')"
    by (simp add: required_str_def)
  then show ?thesis using assms(3)
    by (auto simp: refuses_def lookup_execute_def store_execute_def correct_execute_def)
next
  case (Some e)
  then have r: "required_str args ''entity_id'' = Ok e" by (simp add: required_str_def)
  from Some assms(2) have "\<not> in_tenant_scope t (trim e)" by (simp add: foreign_call_def)
  with assms(1) obtain x where x: "enforce_entity_scope e (env_tenant env) = Err x"
    using foreign_entity_denied by blast
  show ?thesis
  proof (cases tool)
    case LookupTool
    then show ?thesis using r x
      by (cases "required_str args ''slot_key''") (simp_all add: refuses_def lookup_execute_def)
  next
    case StoreTool
    then show ?thesis using r x by (simp add: refuses_def store_execute_def)
  next
    case CorrectTool
    then show ?thesis using r x
      by (cases "required_str args ''slot_key''"; cases "required_str args ''old_value''";
          cases "required_str args ''new_value''"; cases "required_str args ''reason''";
          simp add: refuses_def correct_execute_def)
  qed (use assms(3) in simp_all)
qed

lemma forget_refuses:
  assumes "acts_for_tenant env t" "foreign_call t args"
  shows "\<exists>r. \<forall>b w. refuses env args ForgetTool r b w"
proof -
  consider (no_key) x where "required_str args ''slot_key'' = Err x"
    | (no_entity) k x where "required_str args ''slot_key'' = Ok k" "required_str args ''entity_id'' = Err x"
    | (both) k e where "required_str args ''slot_key'' = Ok k" "required_str args ''entity_id'' = Ok e"
    by (cases "required_str args ''slot_key''"; cases "required_str args ''entity_id''") auto
  then show ?thesis
  proof cases
    case both
    show ?thesis
    proof (cases "effective_tenant_policy_context args env")
      case (Inl x)
      with both show ?thesis by (simp add: refuses_def forget_execute_def Let_def)
    next
      case (Inr ctx)
      from both(2) assms(2) have "\<not> in_tenant_scope t (trim e)"
        by (auto simp: foreign_call_def required_str_def split: option.splits)
      with effective_context_tenant [OF assms(1) Inr] obtain x where "enforce_recall_scope ctx e = Err x"
        using foreign_entity_refused by blast
      with both Inr show ?thesis by (simp add: refuses_def forget_execute_def Let_def)
    qed
  qed (simp_all add: refuses_def forget_execute_def)
qed

lemma recall_request_refused:
  assumes "acts_for_tenant env t" "foreign_call t args"
  shows "\<exists>e. build_recall_request args env = Err e"
proof (cases "build_recall_request args env")
  case (Inr q)
  then obtain e ctx where e: "get_str args ''entity_id'' = Some e"
    "effective_tenant_policy_context args env = Ok ctx" "enforce_recall_scope ctx e = Ok ()"
    by (auto simp: build_recall_request_def required_str_def enforce_policy_def recall_query_new_def
        Let_def split: sum.splits option.splits)
  with assms foreign_entity_refused [OF effective_context_tenant] show ?thesis
    by (fastforce simp: foreign_call_def)
qed simp

lemma recall_refuses:
  assumes "acts_for_tenant env t" "foreign_call t args"
  shows "\<exists>r. \<forall>b w. refuses env args RecallTool r b w"
proof -
  obtain e where "build_recall_request args env = Err e" using recall_request_refused [OF assms] ..
  then show ?thesis
    by (cases "starts_with (memory_recall_error_text e) ''blocked by security policy:''")
      (simp_all add: refuses_def recall_execute_def)
qed

lemma foreign_call_trim: "foreign_call t args \<Longrightarrow> get_str args ''entity_id'' = Some e \<Longrightarrow>
  \<not> in_tenant_scope t (trim (trim e))"
  by (simp add: foreign_call_def)

lemma refused_result:
  "snd (refused env actor action entity keys outcome msg w) =
     (case env_audit_failure env of
        Some e \<Rightarrow> Err (Anyhow e)
      | None \<Rightarrow> Ok \<lparr>tr_success = False,
                   tr_output = refusal_output (env_audit_path env) action entity keys,
                   tr_error = Some msg\<rparr>)"
  "w_mem (fst (refused env actor action entity keys outcome msg w)) = w_mem w"
  "w_access (fst (refused env actor action entity keys outcome msg w)) = w_access w"
  by (simp_all add: refused_def append_audit_record_def Let_def split: option.splits)

lemma governance_refuses:
  assumes "acts_for_tenant env t" "foreign_call t args" "parse_action args \<noteq> Ok VerifyIntegrity"
  shows "\<exists>r. \<forall>(b :: 'm backend) w. refuses env args GovernanceTool r b w"
proof -
  consider (stop) x where "\<And>(b :: 'm backend) w. governance_execute b env args w = (w, Err x)"
    | (run) action actor e keys ctx where
        "parse_action args = Ok action" "parse_actor args = Ok actor"
        "parse_entity_id_for_action action args = Ok e" "parse_scope_keys args = Ok keys"
        "effective_tenant_policy_context args env = Ok ctx"
    by (cases "parse_action args"; cases "parse_actor args";
        cases "parse_entity_id_for_action (projr (parse_action args)) args";
        cases "parse_scope_keys args"; cases "effective_tenant_policy_context args env")
      (simp_all add: governance_execute_def)
  then show ?thesis
  proof cases
    case stop
    then show ?thesis by (simp add: refuses_def)
  next
    case run
    with assms(3) have na: "action \<noteq> VerifyIntegrity" by auto
    with run(3) obtain s where s: "get_str args ''entity_id'' = Some s" "e = trim s"
      by (auto simp: parse_entity_id_for_action_def parse_entity_id_def required_str_def
          split: option.splits if_splits)
    with foreign_call_trim [OF assms(2)] have "\<not> in_tenant_scope t (trim e)" by simp
    with effective_context_tenant [OF assms(1) run(5)] obtain x
      where x: "enforce_recall_scope ctx e = Err x" using foreign_entity_refused by blast
    have "governance_execute b env args w =
        refused env actor action e keys ''denied'' (scope_error_text x) w"
      for b :: "'m backend" and w
      by (simp add: governance_execute_def run na x)
    then show ?thesis by (simp add: refuses_def refused_result)
  qed
qed

lemma foreign_calls_refused:
  assumes "acts_for_tenant env t" "foreign_call t args"
    "tool \<noteq> GovernanceTool \<or> parse_action args \<noteq> Ok VerifyIntegrity"
  shows "\<exists>r. \<forall>b w. refuses env args tool r b w"
proof (cases tool)
  case ForgetTool
  show ?thesis unfolding ForgetTool using assms(1,2) by (rule forget_refuses)
next
  case RecallTool
  show ?thesis unfolding RecallTool using assms(1,2) by (rule recall_refuses)
next
  case GovernanceTool
  show ?thesis unfolding GovernanceTool
    by (rule governance_refuses [OF assms(1,2)]) (use assms(3) GovernanceTool in simp)
qed (simp_all add: simple_tools_refuse [OF assms(1,2)])

text \<open>C16: the memory tools keep tenants apart. In a session bound to tenant \<open>t\<close>, take any of the six
tools and any arguments whose entity lies outside \<open>t\<close> (a declared \<open>policy_context\<close> among the arguments
may claim any other tenant or none). The call leaves the memory and the access log as they were, and
its answer is the same for every two backends and memory states: nothing of another tenant can be read, written,
corrected, forgotten or counted. The one exception is the governance tool's integrity check, which
the code exempts.\<close>

theorem memory_tools_isolate_tenants:
  fixes b b' :: "'m backend"
  assumes "acts_for_tenant env t" "foreign_call t args"
    and "tool \<noteq> GovernanceTool \<or> parse_action args \<noteq> Ok VerifyIntegrity"
  shows "snd (memory_tool_execute tool b env args w) = snd (memory_tool_execute tool b' env args w') \<and>
    w_mem (fst (memory_tool_execute tool b env args w)) = w_mem w \<and>
    w_access (fst (memory_tool_execute tool b env args w)) = w_access w"
proof -
  obtain r where "\<forall>(b :: 'm backend) w. refuses env args tool r b w"
    using foreign_calls_refused [OF assms] by blast
  then show ?thesis by (simp add: refuses_def)
qed

text \<open>A toy backend whose state is the one slot it holds, and whose reads always find it.\<close>

definition demo_slot :: "rstr \<Rightarrow> belief_slot" where
  "demo_slot v = \<lparr>slot_entity = ''globex:bob'', slot_key = ''user.pin'', slot_value = v,
     slot_confidence = 1, slot_importance = 1, slot_privacy = SecretLevel, slot_updated_at = ''t''\<rparr>"

definition demo_backend :: "rstr backend" where
  "demo_backend = \<lparr>b_name = ''postgres'', b_append = (\<lambda>m e. (event_value e, Ok ''id'')),
     b_resolve = (\<lambda>m e k. Ok (Some (demo_slot m))),
     b_forget = (\<lambda>m e k mode why. ([], Ok \<lparr>was_applied = True, outcome_json = JNull\<rparr>)),
     b_recall = (\<lambda>m q. Ok []), b_count = (\<lambda>m e. Ok 1), b_verify = (\<lambda>m. Ok JNull)\<rparr>"

definition demo_world :: "rstr \<Rightarrow> rstr tool_world" where
  "demo_world v = \<lparr>w_mem = v, w_access = Some [], w_audit = []\<rparr>"

definition demo_tenant_env :: tool_env where
  "demo_tenant_env = \<lparr>env_tenant = tenant_enabled ''acme'', env_caller = ''acme:al'',
     env_now = ''now'', env_audit_path = ''audit'', env_audit_failure = None\<rparr>"

definition demo_foreign_args :: json where
  "demo_foreign_args = JObject
     [(''action'', JString ''export''), (''actor'', JString ''al''),
      (''entity_id'', JString ''globex:bob''), (''slot_key'', JString ''user.pin''),
      (''include_sensitive'', JBool True),
      (''policy_context'', JObject [(''tenant_mode_enabled'', JBool False)])]"

lemma demo_acts: "acts_for_tenant demo_tenant_env ''acme''"
  by code_simp

lemma demo_foreign: "foreign_call ''acme'' demo_foreign_args"
  by code_simp

lemma demo_export: "parse_action demo_foreign_args \<noteq> Ok VerifyIntegrity"
  by code_simp

theorem memory_tools_isolate_tenants_witness:
  "snd (memory_tool_execute GovernanceTool demo_backend demo_tenant_env demo_foreign_args (demo_world ''1234'')) =
   snd (memory_tool_execute GovernanceTool demo_backend demo_tenant_env demo_foreign_args (demo_world ''9876''))"
  by (rule memory_tools_isolate_tenants
        [THEN conjunct1, OF demo_acts demo_foreign disjI2 [OF demo_export]])

subsection \<open>What the governance tool records\<close>

definition outcome_of :: "tool_result \<Rightarrow> rstr set" where
  "outcome_of res = (if tr_success res then {''allowed''} else {''denied'', ''failed''})"

definition recorded ::
    "governance_action \<Rightarrow> 'm tool_world \<Rightarrow> 'm tool_world \<times> (tool_error, tool_result) result \<Rightarrow> bool" where
  "recorded action w x =
     (case snd x of
        Ok res \<Rightarrow> \<exists>rec. w_audit (fst x) = w_audit w @ [rec] \<and> audit_outcome rec \<in> outcome_of res \<and>
                   audit_action rec = action_str action
      | Err _ \<Rightarrow> w_audit (fst x) = w_audit w)"

lemma refused_recorded:
  "outcome \<in> {''denied'', ''failed''} \<Longrightarrow> w_audit w1 = w_audit w \<Longrightarrow>
   recorded action w (refused env actor action entity keys outcome msg w1)"
  by (cases "env_audit_failure env")
    (auto simp: recorded_def refused_def append_audit_record_def Let_def outcome_of_def)

lemma run_governance_recorded:
  "recorded action w (run_governance b env args action actor entity keys w)"
proof -
  obtain m' payload where p: "run_action_payload b (w_mem w) action args entity keys
      (parse_include_sensitive args) = (m', payload)" by force
  show ?thesis
  proof (cases payload)
    case (Inl e)
    then show ?thesis by (simp add: run_governance_def p refused_recorded)
  next
    case (Inr v)
    then show ?thesis
      by (cases "env_audit_failure env")
        (auto simp: run_governance_def p recorded_def append_audit_record_def Let_def
          outcome_of_def tool_success_def)
  qed
qed

lemma parsed_or_not:
  "(\<exists>a. parse_action args = Ok a) \<or> (\<exists>e. parse_action args = Err e)"
  by (cases "parse_action args") auto

text \<open>An answered governance call leaves exactly one audit record, with outcome \<open>allowed\<close> when the
answer is a success and \<open>denied\<close> or \<open>failed\<close> when it is not, and naming the action. A call that ends
with an error instead of an answer leaves none. Those are the calls with malformed arguments, the ones
whose declared tenant contradicts the session's, and the ones whose record could not be written.\<close>

theorem governance_audit_trail:
  "case snd (governance_execute b env args w) of
     Ok res \<Rightarrow>
       \<exists>rec. w_audit (fst (governance_execute b env args w)) = w_audit w @ [rec] \<and>
         audit_outcome rec \<in> (if tr_success res then {''allowed''} else {''denied'', ''failed''}) \<and>
         parse_action args \<in> Inr ` {a. audit_action rec = action_str a}
   | Err _ \<Rightarrow> w_audit (fst (governance_execute b env args w)) = w_audit w"
proof (cases "parse_action args")
  case (Inr action)
  consider (stop) x where "governance_execute b env args w = (w, Err x)"
    | (run) actor e keys ctx where
        "parse_actor args = Ok actor"
        "parse_entity_id_for_action action args = Ok e" "parse_scope_keys args = Ok keys"
        "effective_tenant_policy_context args env = Ok ctx"
    by (cases "parse_actor args"; cases "parse_entity_id_for_action action args";
        cases "parse_scope_keys args"; cases "effective_tenant_policy_context args env")
      (simp_all add: governance_execute_def Inr)
  then have "recorded action w (governance_execute b env args w)"
  proof cases
    case stop
    then show ?thesis by (simp add: recorded_def)
  next
    case run
    then show ?thesis
      by (cases "enforce_recall_scope ctx e")
        (simp_all add: governance_execute_def Inr run_governance_recorded refused_recorded)
  qed
  then show ?thesis
    by (auto simp: recorded_def outcome_of_def Inr split: sum.splits)
qed (simp add: governance_execute_def)

text \<open>
  The module documentation promises a record for every call, allowed or denied. Claiming a foreign
  tenant is refused without one, and a deletion whose record cannot be written has happened already.
\<close>

lemma claimed_tenant_not_audited:
  "governance_execute demo_backend demo_tenant_env
     (JObject [(''action'', JString ''export''), (''actor'', JString ''al''),
               (''entity_id'', JString ''globex:bob''),
               (''policy_context'', JObject [(''tenant_mode_enabled'', JBool True),
                                             (''tenant_id'', JString ''globex'')])])
     (demo_world ''1234'') =
   (demo_world ''1234'',
    Err (invalid ''policy_context'' ''tenant_id mismatch with execution context''))"
  by code_simp

lemma unaudited_deletion:
  "governance_execute demo_backend (demo_tenant_env\<lparr>env_audit_failure := Some ''disk full''\<rparr>)
     (JObject [(''action'', JString ''delete''), (''actor'', JString ''al''),
               (''entity_id'', JString ''acme:al''), (''slot_key'', JString ''user.pin'')])
     (demo_world ''1234'') = (demo_world [], Err (Anyhow ''disk full''))"
  by code_simp

text \<open>A deletion scoped to several keys forgets the first one only, and reports them all.\<close>

lemma delete_ignores_further_keys:
  "run_delete b m entity (k # ks) mode reason = run_delete b m entity [k] mode reason"
  by (simp add: run_delete_def)

subsection \<open>Redaction\<close>

definition blank_value :: "belief_slot \<Rightarrow> belief_slot" where
  "blank_value slot = (if slot_privacy slot = Public then slot else slot\<lparr>slot_value := []\<rparr>)"

definition blanked_backend :: "'m backend \<Rightarrow> 'm backend" where
  "blanked_backend b = b\<lparr>b_resolve := \<lambda>m e k. map_sum id (map_option blank_value) (b_resolve b m e k)\<rparr>"

lemma redact_blank: "redact_slot (blank_value slot) False = redact_slot slot False"
  by (simp add: redact_slot_def blank_value_def)

lemma count_blank: "b_count (blanked_backend b) = b_count b"
  by (simp add: blanked_backend_def)

lemma inspect_slots_blank:
  "inspect_slots (blanked_backend b) m entity False ks = inspect_slots b m entity False ks"
  by (induction ks)
    (simp_all add: blanked_backend_def redact_blank split: sum.split option.split)

lemma export_slots_blank:
  "export_slots (blanked_backend b) m entity False ks = export_slots b m entity False ks"
  by (induction ks)
    (simp_all add: blanked_backend_def redact_blank split: sum.split option.split)

text \<open>Without \<open>include_sensitive\<close> the answers to inspect and export carry nothing of a private or
secret value: they are the answers of a backend in which the value of every slot that is not public
has been erased, error cases included.\<close>

theorem governance_redacts:
  "run_inspect b m entity keys False = run_inspect (blanked_backend b) m entity keys False \<and>
   run_export b m entity keys False = run_export (blanked_backend b) m entity keys False"
  unfolding run_inspect_def run_export_def inspect_slots_blank export_slots_blank count_blank
  by (rule conjI refl)+

subsection \<open>Protected slots and the store tool\<close>

lemma store_fact_added: "event_type_from_str ''fact_added'' = Ok FactAdded"
  by code_simp

lemma store_tool_ref: "trim ''tool.memory_store'' \<noteq> []"
  by code_simp

text \<open>The event of a call that gives only an entity, a slot and a value.\<close>

definition bare_args :: "rstr \<Rightarrow> rstr \<Rightarrow> rstr \<Rightarrow> json" where
  "bare_args entity key v =
     JObject [(''entity_id'', JString entity), (''slot_key'', JString key), (''value'', JString v)]"

definition bare_event :: "tool_env \<Rightarrow> rstr \<Rightarrow> rstr \<Rightarrow> rstr \<Rightarrow> memory_event" where
  "bare_event env entity key v =
     store_event env (bare_args entity key v) entity key v FactAdded LWorking None"

lemma bare_event_simps:
  "event_slot (bare_event env entity key v) = key"
  "event_source (bare_event env entity key v) = SystemSource"
  "event_entity (bare_event env entity key v) = entity"
  "event_value (bare_event env entity key v) = v"
  "event_privacy (bare_event env entity key v) = Private"
  "event_source_kind (bare_event env entity key v) = Some Manual"
  "event_source_ref (bare_event env entity key v) = Some ''tool.memory_store''"
  "event_provenance (bare_event env entity key v) =
     Some (source_reference SystemSource ''tool.memory_store'')"
  by (simp_all add: bare_event_def bare_args_def store_event_def Let_def memory_event_new_def
      get_str_def store_source_def store_privacy_def)

lemma bare_event_accepted: "enforce_tool_memory_write_policy (bare_event env entity key v) = Ok ()"
  using store_tool_ref
  by (simp add: enforce_tool_memory_write_policy_def require_common_write_metadata_def
      bare_event_simps source_reference_def)

lemma bare_store_appends:
  assumes "\<not> tenant_mode_enabled (env_tenant env)"
  shows "w_mem (fst (store_execute b env (bare_args entity key v) w)) =
    fst (b_append b (w_mem w) (bare_event env entity key v))"
proof -
  have "enforce_entity_scope entity (env_tenant env) = Ok ()"
    using assms by (simp add: enforce_entity_scope_def enforce_policy_def recall_query_new_def
        enforce_recall_scope_def)
  then have "store_execute b env (bare_args entity key v) w =
      (case b_append b (w_mem w) (bare_event env entity key v) of
         (m', Ok event_id) \<Rightarrow>
           (log_access (Access entity AccessWrite (Some key)) (w\<lparr>w_mem := m'\<rparr>),
            Ok (tool_success (JString (''Stored memory event: '' @ event_id))))
       | (m', Err x) \<Rightarrow>
           (w\<lparr>w_mem := m'\<rparr>,
            Ok (tool_failure (''Failed to store memory: '' @ memory_error_display x))))"
    using bare_event_accepted [of env entity key v]
    by (simp add: store_execute_def bare_args_def required_str_def get_str_def store_fact_added
        lift_mem_def parse_layer_def parse_provenance_def lift_str_def Let_def bare_event_def
        split: prod.split sum.split)
  then show ?thesis
    by (simp add: log_access_def split: prod.split sum.split)
qed

text \<open>The seven protected self-edit slot prefixes bind the persona policy only. The
\<open>memory_store\<close> tool, called with nothing but an entity, a slot and a value, appends an event with
source \<open>system\<close> to a protected slot of any person: the tool policy does not look at the slot.\<close>

theorem memory_store_writes_protected_slots:
  "\<exists>e. is_protected_self_edit_slot (event_slot e) person \<and> event_source e = SystemSource \<and>
     event_entity e = expected_person_entity person \<and> event_value e = v \<and>
     w_mem (fst (store_execute b (env\<lparr>env_tenant := tenant_disabled\<rparr>)
       (JObject [(''entity_id'', JString (''person:'' @ person)),
                 (''slot_key'', JString (''persona/'' @ person @ ''/character/core'')),
                 (''value'', JString v)]) w)) = fst (b_append b (w_mem w) e)"
proof (intro exI conjI)
  let ?env = "env\<lparr>env_tenant := tenant_disabled\<rparr>"
  let ?e = "bare_event ?env (''person:'' @ person) (''persona/'' @ person @ ''/character/core'') v"
  show "is_protected_self_edit_slot (event_slot ?e) person"
    unfolding bare_event_simps
    by (simp add: is_protected_self_edit_slot_def protected_prefixes_def)
  show "event_source ?e = SystemSource" "event_value ?e = v" by (rule bare_event_simps)+
  show "event_entity ?e = expected_person_entity person"
    unfolding bare_event_simps expected_person_entity_def ..
  show "w_mem (fst (store_execute b ?env
       (JObject [(''entity_id'', JString (''person:'' @ person)),
                 (''slot_key'', JString (''persona/'' @ person @ ''/character/core'')),
                 (''value'', JString v)]) w)) = fst (b_append b (w_mem w) ?e)"
    unfolding bare_args_def [symmetric]
    by (rule bare_store_appends) (simp add: tenant_disabled_def)
qed

end
