(* ===== verification/Secrets.thy ===== *)
theory Secrets
  imports Rust_Strings
begin

text \<open>
  The encrypted secret store (\<open>src/src/security/secrets.rs\<close>) and the two helpers that keep optional
  secrets of an auth profile encrypted at rest (\<open>src/src/security/auth/resolution.rs\<close>). The cipher,
  the key derivation and the hex codec are third-party: they are a record of functions, with what
  their documentation promises as the predicate \<open>crypto_ok\<close>. Random bytes are inputs of a call. The
  key file is part of the state: the first encryption creates it.
\<close>

subsection \<open>UTF-8\<close>

definition cont_byte :: "char \<Rightarrow> bool" where
  "cont_byte c \<longleftrightarrow> 128 \<le> byte c \<and> byte c < 192"

text \<open>Well-formed UTF-8: no overlong forms, no surrogates, nothing above U+10FFFF.\<close>

fun utf8_valid :: "rstr \<Rightarrow> bool" where
  "utf8_valid [] = True"
| "utf8_valid (a # s) =
     (if byte a < 128 then utf8_valid s
      else if 194 \<le> byte a \<and> byte a < 224
      then (case s of b # t \<Rightarrow> cont_byte b \<and> utf8_valid t | _ \<Rightarrow> False)
      else if 224 \<le> byte a \<and> byte a < 240
      then (case s of b # c # t \<Rightarrow>
              cont_byte b \<and> cont_byte c \<and> (byte a = 224 \<longrightarrow> 160 \<le> byte b) \<and>
              (byte a = 237 \<longrightarrow> byte b < 160) \<and> utf8_valid t
            | _ \<Rightarrow> False)
      else if 240 \<le> byte a \<and> byte a < 245
      then (case s of b # c # d # t \<Rightarrow>
              cont_byte b \<and> cont_byte c \<and> cont_byte d \<and> (byte a = 240 \<longrightarrow> 144 \<le> byte b) \<and>
              (byte a = 244 \<longrightarrow> byte b < 144) \<and> utf8_valid t
            | _ \<Rightarrow> False)
      else False)"

subsection \<open>The cryptographic library\<close>

record crypto =
  hex_enc :: "rstr \<Rightarrow> rstr"
  hex_dec :: "rstr \<Rightarrow> rstr option"
  seal :: "rstr \<Rightarrow> rstr \<Rightarrow> rstr \<Rightarrow> rstr option"
  unseal :: "rstr \<Rightarrow> rstr \<Rightarrow> rstr \<Rightarrow> rstr option"
  derive_key :: "rstr \<Rightarrow> rstr \<Rightarrow> rstr option"
  utf8_lossy :: "rstr \<Rightarrow> rstr"

definition nonce_len :: nat where
  "nonce_len = 12"

definition salt_len :: nat where
  "salt_len = 16"

definition key_len :: nat where
  "key_len = 32"

text \<open>
  What the documentation promises: decoding what was encoded, opening what was sealed under the
  same key and nonce, a ciphertext that carries a 16-byte tag, keys of 32 bytes, and a hex text
  without white space.
\<close>

definition crypto_ok :: "crypto \<Rightarrow> bool" where
  "crypto_ok c \<longleftrightarrow>
     (\<forall>b. hex_dec c (hex_enc c b) = Some b \<and> trim (hex_enc c b) = hex_enc c b) \<and>
     (\<forall>k n p ct. seal c k n p = Some ct \<longrightarrow> unseal c k n ct = Some p \<and> length ct = length p + 16) \<and>
     (\<forall>pw s k. derive_key c pw s = Some k \<longrightarrow> length k = key_len)"

subsection \<open>The store\<close>

datatype key_file = KeyMissing | KeyUnreadable | KeyText rstr

record secret_store =
  key_path_file :: key_file
  enabled :: bool

datatype secret_error =
  KeyCorrupt | KeyReadFailed | KeyWriteFailed | KeyLength | EncryptionFailed | CorruptHex
| TooShort | DecryptionFailed | NotUtf8 | PasswordNeeded | NotEnc3 | KdfFailed

text \<open>\<open>fresh\<close> is the random key of a first use, \<open>write_ok\<close> whether the key file can be created.\<close>

definition load_or_create_key ::
    "crypto \<Rightarrow> rstr \<Rightarrow> bool \<Rightarrow> secret_store \<Rightarrow> secret_store \<times> (secret_error, rstr) result" where
  "load_or_create_key c fresh write_ok st =
     (case key_path_file st of
        KeyText t \<Rightarrow>
          (case hex_dec c (trim t) of
             Some k \<Rightarrow> (st, Ok k) | None \<Rightarrow> (st, Err KeyCorrupt))
      | KeyUnreadable \<Rightarrow> (st, Err KeyReadFailed)
      | KeyMissing \<Rightarrow>
          if write_ok then (st\<lparr>key_path_file := KeyText (hex_enc c fresh)\<rparr>, Ok fresh)
          else (st, Err KeyWriteFailed))"

definition encrypt ::
    "crypto \<Rightarrow> rstr \<Rightarrow> bool \<Rightarrow> rstr \<Rightarrow> rstr \<Rightarrow> secret_store \<Rightarrow> secret_store \<times> (secret_error, rstr) result" where
  "encrypt c fresh write_ok nonce plaintext st =
     (if plaintext = [] then (st, Ok [])
      else if \<not> enabled st
      then (st, Ok (if utf8_valid plaintext then plaintext else utf8_lossy c plaintext))
      else (case load_or_create_key c fresh write_ok st of
        (st, Err e) \<Rightarrow> (st, Err e)
      | (st, Ok key) \<Rightarrow>
          if length key \<noteq> key_len then (st, Err KeyLength)
          else (case seal c key nonce plaintext of
            None \<Rightarrow> (st, Err EncryptionFailed)
          | Some ct \<Rightarrow> (st, Ok (''enc2:'' @ hex_enc c (nonce @ ct))))))"

definition decrypt_chacha20 ::
    "crypto \<Rightarrow> rstr \<Rightarrow> bool \<Rightarrow> rstr \<Rightarrow> secret_store \<Rightarrow> secret_store \<times> (secret_error, rstr) result" where
  "decrypt_chacha20 c fresh write_ok hex_str st =
     (case hex_dec c hex_str of
        None \<Rightarrow> (st, Err CorruptHex)
      | Some blob \<Rightarrow>
          if length blob \<le> nonce_len then (st, Err TooShort)
          else (case load_or_create_key c fresh write_ok st of
            (st, Err e) \<Rightarrow> (st, Err e)
          | (st, Ok key) \<Rightarrow>
              if length key \<noteq> key_len then (st, Err KeyLength)
              else (case unseal c key (take nonce_len blob) (drop nonce_len blob) of
                None \<Rightarrow> (st, Err DecryptionFailed)
              | Some p \<Rightarrow> (st, if utf8_valid p then Ok p else Err NotUtf8))))"

definition decrypt ::
    "crypto \<Rightarrow> rstr \<Rightarrow> bool \<Rightarrow> rstr \<Rightarrow> secret_store \<Rightarrow> secret_store \<times> (secret_error, rstr) result" where
  "decrypt c fresh write_ok v st =
     (case strip_prefix ''enc2:'' v of
        Some hex_str \<Rightarrow> decrypt_chacha20 c fresh write_ok hex_str st
      | None \<Rightarrow> if starts_with v ''enc3:'' then (st, Err PasswordNeeded) else (st, Ok v))"

definition encrypt_with_password ::
    "crypto \<Rightarrow> rstr \<Rightarrow> rstr \<Rightarrow> rstr \<Rightarrow> rstr \<Rightarrow> (secret_error, rstr) result" where
  "encrypt_with_password c salt nonce plaintext password =
     (if plaintext = [] then Ok []
      else (case derive_key c password salt of
        None \<Rightarrow> Err KdfFailed
      | Some key \<Rightarrow>
          if length key \<noteq> key_len then Err KeyLength
          else (case seal c key nonce plaintext of
            None \<Rightarrow> Err EncryptionFailed
          | Some ct \<Rightarrow> Ok (''enc3:'' @ hex_enc c (salt @ nonce @ ct)))))"

definition decrypt_with_password :: "crypto \<Rightarrow> rstr \<Rightarrow> rstr \<Rightarrow> (secret_error, rstr) result" where
  "decrypt_with_password c v password =
     (case strip_prefix ''enc3:'' v of
        None \<Rightarrow> Err NotEnc3
      | Some hex_str \<Rightarrow>
          (case hex_dec c hex_str of
             None \<Rightarrow> Err CorruptHex
           | Some blob \<Rightarrow>
               if length blob < salt_len + nonce_len + 1 then Err TooShort
               else let salt = take salt_len blob; rest = drop salt_len blob;
                        nonce = take nonce_len rest; ct = drop nonce_len rest in
                 (case derive_key c password salt of
                    None \<Rightarrow> Err KdfFailed
                  | Some key \<Rightarrow>
                      if length key \<noteq> key_len then Err KeyLength
                      else (case unseal c key nonce ct of
                        None \<Rightarrow> Err DecryptionFailed
                      | Some p \<Rightarrow> if utf8_valid p then Ok p else Err NotUtf8))))"

definition is_encrypted :: "rstr \<Rightarrow> bool" where
  "is_encrypted v \<longleftrightarrow> starts_with v ''enc2:'' \<or> starts_with v ''enc3:''"

definition has_secret :: "rstr option \<Rightarrow> bool" where
  "has_secret s = (case s of None \<Rightarrow> False | Some v \<Rightarrow> trim v \<noteq> [])"

subsection \<open>Optional secrets of a profile\<close>

text \<open>The new value, and whether the plaintext has to be written back encrypted.\<close>

definition decrypt_opt_secret ::
    "crypto \<Rightarrow> rstr \<Rightarrow> bool \<Rightarrow> bool \<Rightarrow> rstr option \<Rightarrow> secret_store
       \<Rightarrow> secret_store \<times> (secret_error, rstr option \<times> bool) result" where
  "decrypt_opt_secret c fresh write_ok encrypt_enabled v st =
     (case v of
        None \<Rightarrow> (st, Ok (None, False))
      | Some current \<Rightarrow>
          let trimmed = trim current in
          if trimmed = [] then (st, Ok (v, False))
          else let needs = encrypt_enabled \<and> \<not> is_encrypted trimmed in
            (case decrypt c fresh write_ok trimmed st of
               (st, Err e) \<Rightarrow> (st, Err e)
             | (st, Ok p) \<Rightarrow> (st, Ok (Some p, needs))))"

definition encrypt_opt_secret ::
    "crypto \<Rightarrow> rstr \<Rightarrow> bool \<Rightarrow> rstr \<Rightarrow> rstr option \<Rightarrow> secret_store
       \<Rightarrow> secret_store \<times> (secret_error, rstr option) result" where
  "encrypt_opt_secret c fresh write_ok nonce v st =
     (case v of
        None \<Rightarrow> (st, Ok None)
      | Some current \<Rightarrow>
          let trimmed = trim current in
          if trimmed = [] \<or> is_encrypted trimmed then (st, Ok (Some trimmed))
          else (case encrypt c fresh write_ok nonce trimmed st of
                  (st, Err e) \<Rightarrow> (st, Err e)
                | (st, Ok x) \<Rightarrow> (st, Ok (Some x))))"

subsection \<open>Round trips\<close>

lemma crypto_okD:
  assumes "crypto_ok c"
  shows "hex_dec c (hex_enc c b) = Some b" "trim (hex_enc c b) = hex_enc c b"
    "seal c k n p = Some ct \<Longrightarrow> unseal c k n ct = Some p"
    "seal c k n p = Some ct \<Longrightarrow> length ct = length p + 16"
  using assms unfolding crypto_ok_def by auto

text \<open>After any call the key is there to be read again, unless the call failed to make one.\<close>

lemma key_stays:
  assumes "crypto_ok c" "load_or_create_key c fresh write_ok st = (st', Ok k)"
  shows "load_or_create_key c fresh' write_ok' st' = (st', Ok k) \<and> enabled st' = enabled st"
  using assms
  by (auto simp: load_or_create_key_def crypto_okD split: key_file.splits option.splits if_splits)

text \<open>The three ways an encryption can succeed.\<close>

lemma encrypt_cases:
  assumes "encrypt c fresh write_ok nonce p st = (st', Ok v)"
  obtains (empty) "p = []" "v = []" "st' = st"
    | (plain) "p \<noteq> []" "\<not> enabled st" "v = (if utf8_valid p then p else utf8_lossy c p)" "st' = st"
    | (sealed) key ct where "p \<noteq> []" "enabled st" "load_or_create_key c fresh write_ok st = (st', Ok key)"
        "length key = key_len" "seal c key nonce p = Some ct" "v = ''enc2:'' @ hex_enc c (nonce @ ct)"
proof (cases "p = [] \<or> \<not> enabled st")
  case True
  with assms show thesis by (auto simp: encrypt_def intro: empty plain split: if_splits)
next
  case False
  obtain s r where l: "load_or_create_key c fresh write_ok st = (s, r)" by force
  obtain key where r: "r = Ok key" "length key = key_len"
    using False assms by (cases r) (auto simp: encrypt_def l split: if_splits)
  obtain ct where "seal c key nonce p = Some ct"
    using False assms r by (cases "seal c key nonce p") (auto simp: encrypt_def l)
  with False assms r l show thesis by (intro sealed [of key ct]) (auto simp: encrypt_def)
qed

lemma decrypt_sealed:
  assumes "crypto_ok c" "load_or_create_key c fresh write_ok st = (st, Ok key)"
    "length key = key_len" "seal c key nonce p = Some ct" "length nonce = nonce_len" "utf8_valid p"
  shows "decrypt c fresh write_ok (''enc2:'' @ hex_enc c (nonce @ ct)) st = (st, Ok p)"
proof -
  have "strip_prefix ''enc2:'' (''enc2:'' @ hex_enc c (nonce @ ct)) = Some (hex_enc c (nonce @ ct))"
    by (simp add: strip_prefix_Some)
  then have "decrypt c fresh write_ok (''enc2:'' @ hex_enc c (nonce @ ct)) st =
      decrypt_chacha20 c fresh write_ok (hex_enc c (nonce @ ct)) st"
    unfolding decrypt_def by (simp only: option.case)
  moreover have "length ct = length p + 16" "unseal c key nonce ct = Some p"
    using crypto_okD(3,4) [OF assms(1,4)] by simp_all
  ultimately show ?thesis
    using assms(2,3,5,6) by (simp add: decrypt_chacha20_def crypto_okD(1) [OF assms(1)])
qed

text \<open>A secret survives storage. With encryption on, whatever the store encrypts it decrypts to the
same text again, in the state the encryption left behind (so also when that encryption created the
key file), with any later randomness; and a nonempty secret is stored under the \<open>enc2:\<close> mark,
never in the clear.\<close>

theorem secret_round_trip:
  assumes "crypto_ok c" "enabled st" "length nonce = nonce_len" "utf8_valid p"
    and "encrypt c fresh write_ok nonce p st = (st', Ok v)"
  shows "decrypt c fresh' write_ok' v st' = (st', Ok p) \<and> (p \<noteq> [] \<longrightarrow> starts_with v ''enc2:'')"
  using assms(5)
proof (cases rule: encrypt_cases)
  case empty
  moreover have "strip_prefix ''enc2:'' [] = None" by code_simp
  ultimately show ?thesis by (simp add: decrypt_def)
next
  case plain
  then show ?thesis using assms(2) by simp
next
  case (sealed key ct)
  have "load_or_create_key c fresh' write_ok' st' = (st', Ok key)"
    using key_stays [OF assms(1) sealed(3)] by simp
  with sealed show ?thesis
    using decrypt_sealed [OF assms(1) _ sealed(4,5) assms(3,4)] by simp
qed

text \<open>A toy cipher with the documented behaviour.\<close>

definition demo_crypto :: crypto where
  "demo_crypto = \<lparr>hex_enc = (\<lambda>b. CHR ''.'' # b @ ''.''), hex_dec = (\<lambda>s. Some (butlast (tl s))),
     seal = (\<lambda>k n p. Some (p @ replicate 16 (CHR ''#''))),
     unseal = (\<lambda>k n ct. Some (take (length ct - 16) ct)),
     derive_key = (\<lambda>pw s. Some (replicate 32 (CHR ''k''))), utf8_lossy = (\<lambda>s. s)\<rparr>"

lemma dot_not_ws: "ws_len (CHR ''.'' # s) = 0"
  by (auto simp: ws_len.simps [of "CHR ''.'' # s"] is_ascii_ws_def ws2_def ws3_def byte_def
      split: list.splits)

lemma trim_end_dot: "trim_end (s @ ''.'') = s @ ''.''"
proof (induction s)
  case Nil
  show ?case by code_simp
next
  case (Cons c s)
  have "CHR ''.'' \<in> set (c # s @ ''.'')" by simp
  then have "trim_start (c # s @ ''.'') \<noteq> []"
    using trim_start_Nil_bytes [of "c # s @ ''.''" "CHR ''.''"]
    by (auto simp: ws_byte_def is_ascii_ws_def byte_def)
  with Cons show ?case by simp
qed

lemma demo_crypto_ok: "crypto_ok demo_crypto"
proof -
  have "trim (CHR ''.'' # b @ ''.'') = CHR ''.'' # b @ ''.''" for b
    using trim_end_dot [of "CHR ''.'' # b"] by (simp add: trim_def trim_start_id dot_not_ws)
  then show ?thesis by (simp add: crypto_ok_def demo_crypto_def key_len_def)
qed

definition demo_store :: secret_store where
  "demo_store = \<lparr>key_path_file = KeyMissing, enabled = True\<rparr>"

theorem secret_round_trip_witness:
  "snd (decrypt demo_crypto [] False
     (projr (snd (encrypt demo_crypto (replicate 32 (CHR ''r'')) True ''abcdefghijkl'' ''s3cret'' demo_store)))
     (fst (encrypt demo_crypto (replicate 32 (CHR ''r'')) True ''abcdefghijkl'' ''s3cret'' demo_store))) =
   Ok ''s3cret''"
proof -
  let ?e = "encrypt demo_crypto (replicate 32 (CHR ''r'')) True ''abcdefghijkl'' ''s3cret'' demo_store"
  have e: "?e = (fst ?e, Ok (projr (snd ?e)))" and h: "enabled demo_store"
    "length ''abcdefghijkl'' = nonce_len" "utf8_valid ''s3cret''"
    by code_simp+
  show ?thesis
    using secret_round_trip [OF demo_crypto_ok h(1,2,3) e, of "[]" False] by simp
qed

text \<open>The password form decrypts to what was encrypted, with the same password and nothing else
kept: the salt and the nonce are read back from the text.\<close>

theorem password_round_trip:
  assumes "crypto_ok c" "length salt = salt_len" "length nonce = nonce_len" "utf8_valid p" "p \<noteq> []"
    and "encrypt_with_password c salt nonce p password = Ok v"
  shows "decrypt_with_password c v password = Ok p"
proof -
  obtain key where k: "derive_key c password salt = Some key" "length key = key_len"
    using assms(5,6) by (auto simp: encrypt_with_password_def split: option.splits if_splits)
  obtain ct where ct: "seal c key nonce p = Some ct" "v = ''enc3:'' @ hex_enc c (salt @ nonce @ ct)"
    using assms(5,6) k by (auto simp: encrypt_with_password_def split: option.splits if_splits)
  have "strip_prefix ''enc3:'' v = Some (hex_enc c (salt @ nonce @ ct))"
    unfolding ct(2) by (simp add: strip_prefix_Some)
  moreover have "length ct = length p + 16" using crypto_okD(4) [OF assms(1) ct(1)] .
  ultimately show ?thesis
    using assms(2,3,4) k crypto_okD(3) [OF assms(1) ct(1)]
    by (simp add: decrypt_with_password_def crypto_okD [OF assms(1)] Let_def)
qed

theorem password_round_trip_witness:
  "decrypt_with_password demo_crypto
     (projr (encrypt_with_password demo_crypto ''0123456789abcdef'' ''abcdefghijkl'' ''s3cret'' ''pw'')) ''pw'' =
   Ok ''s3cret''"
proof -
  let ?v = "encrypt_with_password demo_crypto ''0123456789abcdef'' ''abcdefghijkl'' ''s3cret'' ''pw''"
  have e: "?v = Ok (projr ?v)" and h: "length ''0123456789abcdef'' = salt_len"
    "length ''abcdefghijkl'' = nonce_len" "utf8_valid ''s3cret''" "''s3cret'' \<noteq> []"
    by code_simp+
  show ?thesis using password_round_trip [OF demo_crypto_ok h e] .
qed

text \<open>
  A secret that looks encrypted is the exception: with encryption off the store gives back the text
  it was given and then cannot read it, and a profile secret with such a prefix is written to disk as
  it is even with encryption on.
\<close>

lemma disabled_store_loses_marked_secret:
  "encrypt c fresh w nonce ''enc3:x'' (st\<lparr>enabled := False\<rparr>) = (st\<lparr>enabled := False\<rparr>, Ok ''enc3:x'') \<and>
   decrypt c fresh w ''enc3:x'' (st\<lparr>enabled := False\<rparr>) = (st\<lparr>enabled := False\<rparr>, Err PasswordNeeded)"
proof -
  have v: "utf8_valid ''enc3:x''" by code_simp
  have p: "strip_prefix ''enc2:'' ''enc3:x'' = None" by code_simp
  have s: "starts_with ''enc3:x'' ''enc3:''" by simp
  show ?thesis
    unfolding encrypt_def decrypt_def p option.case if_P [OF s] if_P [OF v] by simp
qed

lemma marked_secret_stays_clear:
  "encrypt_opt_secret c fresh w nonce (Some ''enc2:mine'') st = (st, Ok (Some ''enc2:mine''))"
proof -
  have "trim ''enc2:mine'' = ''enc2:mine''" "is_encrypted ''enc2:mine''" by code_simp+
  then show ?thesis by (simp add: encrypt_opt_secret_def)
qed

end
