(* ===== verification/Auth_Store.thy ===== *)
theory Auth_Store
  imports Secrets Rust_Prelude "HOL-Library.AList"
begin

text \<open>
  The auth profile store (\<open>src/src/security/auth/store.rs\<close>, \<open>resolution.rs\<close>, \<open>profile.rs\<close>) with
  the provider names it is keyed by (\<open>src/src/contracts/providers.rs\<close>, \<open>core/providers/catalog.rs\<close>):
  which profile is active for a provider, the bookkeeping that keeps defaults and orders consistent,
  and the file on disk. Hash maps are association lists in their iteration order, which is arbitrary;
  the clock is an input of each call.
\<close>

subsection \<open>Provider names\<close>

definition provider_aliases :: "(rstr \<times> rstr) list" where
  "provider_aliases =
     [(''openai-codex'', ''openai''), (''google'', ''gemini''), (''google-gemini'', ''gemini''),
      (''vertex-gemini'', ''gemini-vertex''), (''kimi'', ''moonshot''), (''grok'', ''xai''),
      (''z.ai'', ''zai''), (''zhipu'', ''glm''), (''baidu'', ''qianfan''), (''vercel-ai'', ''vercel''),
      (''cloudflare-ai'', ''cloudflare''), (''together-ai'', ''together''),
      (''fireworks-ai'', ''fireworks''), (''github-copilot'', ''copilot''),
      (''aws-bedrock'', ''bedrock''), (''opencode-zen'', ''opencode'')]"

definition normalize_provider_alias :: "rstr \<Rightarrow> rstr" where
  "normalize_provider_alias name =
     (let trimmed = trim name in
      if starts_with (to_ascii_lowercase trimmed) ''gemini-vertex:'' \<or>
         starts_with (to_ascii_lowercase trimmed) ''vertex-gemini:''
      then ''gemini-vertex''
      else (case find (\<lambda>(alias, canonical). eq_ignore_ascii_case trimmed alias) provider_aliases of
              Some (alias, canonical) \<Rightarrow> canonical
            | None \<Rightarrow> trimmed))"

definition canonical_provider_name :: "rstr \<Rightarrow> rstr" where
  "canonical_provider_name name =
     (let normalized = to_ascii_lowercase (trim name) in
      if starts_with normalized ''custom:'' then ''custom''
      else if starts_with normalized ''anthropic-custom:'' then ''anthropic-custom''
      else if starts_with normalized ''gemini-vertex:'' \<or> starts_with normalized ''vertex-gemini:''
      then ''gemini-vertex''
      else normalize_provider_alias normalized)"

definition requested_auth_route :: "rstr \<Rightarrow> rstr option" where
  "requested_auth_route name =
     (if eq_ignore_ascii_case (trim name) ''openai-codex'' then Some ''codex'' else None)"

text \<open>\<open>.map(str::trim).filter(non-empty).map(str::to_ascii_lowercase)\<close>.\<close>

definition trimmed_lower :: "rstr option \<Rightarrow> rstr option" where
  "trimmed_lower v =
     (case v of None \<Rightarrow> None
      | Some s \<Rightarrow> if trim s = [] then None else Some (to_ascii_lowercase (trim s)))"

definition trimmed :: "rstr option \<Rightarrow> rstr option" where
  "trimmed v = (case v of None \<Rightarrow> None | Some s \<Rightarrow> if trim s = [] then None else Some (trim s))"

definition canonical_auth_route ::
    "rstr \<Rightarrow> rstr option \<Rightarrow> rstr option \<Rightarrow> rstr option \<Rightarrow> rstr option" where
  "canonical_auth_route provider route scheme source =
     (case trimmed_lower route of
        Some r \<Rightarrow> Some r
      | None \<Rightarrow>
          (let source = trimmed_lower source in
           case trimmed_lower scheme of
             Some sch \<Rightarrow>
               if sch = ''oauth'' then (case source of Some s \<Rightarrow> Some s | None \<Rightarrow> Some ''oauth'')
               else if sch = ''api_key'' \<or> sch = ''api-key'' then Some ''api''
               else (case requested_auth_route provider of Some r \<Rightarrow> Some r | None \<Rightarrow> source)
           | None \<Rightarrow> (case requested_auth_route provider of Some r \<Rightarrow> Some r | None \<Rightarrow> source)))"

definition auth_target_key :: "rstr \<Rightarrow> rstr option \<Rightarrow> rstr" where
  "auth_target_key provider route =
     (case trimmed_lower route of
        Some r \<Rightarrow> canonical_provider_name provider @ ''@'' @ r
      | None \<Rightarrow> canonical_provider_name provider)"

definition is_valid_profile_id :: "rstr \<Rightarrow> bool" where
  "is_valid_profile_id s \<longleftrightarrow>
     list_all (\<lambda>c. is_ascii_alphanumeric c \<or> c \<in> {CHR ''-'', CHR ''_'', CHR ''.''}) s"

subsection \<open>Profiles and the store\<close>

record auth_profile =
  ap_id :: rstr
  ap_provider :: rstr
  ap_route :: "rstr option"
  ap_label :: "rstr option"
  ap_api_key :: "rstr option"
  ap_refresh :: "rstr option"
  ap_scheme :: "rstr option"
  ap_source :: "rstr option"
  ap_disabled :: bool

record usage_stats =
  last_used_at :: "int option"
  cooldown_until :: "int option"
  error_count :: u32
  disabled_reason :: "rstr option"

definition usage_default :: usage_stats where
  "usage_default = \<lparr>last_used_at = None, cooldown_until = None, error_count = 0, disabled_reason = None\<rparr>"

record auth_store =
  version :: nat
  defaults :: "(rstr \<times> rstr) list"
  order :: "(rstr \<times> rstr list) list"
  last_good :: "(rstr \<times> rstr) list"
  usage :: "(rstr \<times> usage_stats) list"
  profiles :: "auth_profile list"

definition auth_store_default :: auth_store where
  "auth_store_default = \<lparr>version = 1, defaults = [], order = [], last_good = [], usage = [], profiles = []\<rparr>"

definition profile_target_key :: "auth_profile \<Rightarrow> rstr" where
  "profile_target_key p =
     auth_target_key (ap_provider p)
       (canonical_auth_route (ap_provider p) (ap_route p) (ap_scheme p) (ap_source p))"

text \<open>The code also reports whether a field changed, that is, whether the profile changed.\<close>

definition normalize_profile :: "auth_profile \<Rightarrow> auth_profile" where
  "normalize_profile p =
     (let scheme = trimmed_lower (ap_scheme p); source = trimmed_lower (ap_source p) in
      p\<lparr>ap_provider := canonical_provider_name (ap_provider p),
        ap_route := canonical_auth_route (ap_provider p) (ap_route p) scheme source,
        ap_scheme := scheme, ap_source := source\<rparr>)"

definition profile_indexes_for_target_key :: "auth_store \<Rightarrow> rstr \<Rightarrow> nat list" where
  "profile_indexes_for_target_key st key =
     filter (\<lambda>i. \<not> ap_disabled (profiles st ! i) \<and> profile_target_key (profiles st ! i) = key)
       [0..<length (profiles st)]"

definition profile_indexes_for_backend :: "auth_store \<Rightarrow> rstr \<Rightarrow> nat list" where
  "profile_indexes_for_backend st provider =
     filter (\<lambda>i. \<not> ap_disabled (profiles st ! i) \<and>
                 canonical_provider_name (ap_provider (profiles st ! i)) = canonical_provider_name provider)
       [0..<length (profiles st)]"

definition target_key_has_profiles :: "auth_store \<Rightarrow> rstr \<Rightarrow> bool" where
  "target_key_has_profiles st key \<longleftrightarrow> profile_indexes_for_target_key st key \<noteq> []"

definition first_existing_backend_target_key :: "auth_store \<Rightarrow> rstr \<Rightarrow> rstr option" where
  "first_existing_backend_target_key st provider =
     (case profile_indexes_for_backend st provider of
        [] \<Rightarrow> None | i # _ \<Rightarrow> Some (profile_target_key (profiles st ! i)))"

subsection \<open>Choosing a profile\<close>

definition cooldown_active :: "usage_stats option \<Rightarrow> int \<Rightarrow> bool" where
  "cooldown_active stats now =
     (case stats of None \<Rightarrow> False
      | Some s \<Rightarrow> (case cooldown_until s of None \<Rightarrow> False | Some until \<Rightarrow> now < until))"

definition cooling :: "auth_store \<Rightarrow> int \<Rightarrow> nat \<Rightarrow> bool" where
  "cooling st now i = cooldown_active (map_of (usage st) (ap_id (profiles st ! i))) now"

text \<open>\<open>Iterator::min_by_key\<close>: the first of the least elements.\<close>

fun min_by_key :: "('a \<Rightarrow> int) \<Rightarrow> 'a list \<Rightarrow> 'a option" where
  "min_by_key f [] = None"
| "min_by_key f (x # xs) =
     (case min_by_key f xs of
        None \<Rightarrow> Some x | Some y \<Rightarrow> if f y < f x then Some y else Some x)"

definition last_used_key :: "auth_store \<Rightarrow> nat \<Rightarrow> int" where
  "last_used_key st i =
     (case map_of (usage st) (ap_id (profiles st ! i)) of
        None \<Rightarrow> 0
      | Some s \<Rightarrow> (case last_used_at s of None \<Rightarrow> 0 | Some t \<Rightarrow> t))"

definition is_candidate :: "auth_store \<Rightarrow> int \<Rightarrow> nat list \<Rightarrow> bool \<Rightarrow> rstr \<Rightarrow> nat option" where
  "is_candidate st now cands ignore pid =
     find (\<lambda>i. ap_id (profiles st ! i) = pid \<and> (ignore \<or> \<not> cooldown_active (map_of (usage st) pid) now))
       cands"

fun find_map :: "('a \<Rightarrow> 'b option) \<Rightarrow> 'a list \<Rightarrow> 'b option" where
  "find_map f [] = None"
| "find_map f (x # xs) = (case f x of Some y \<Rightarrow> Some y | None \<Rightarrow> find_map f xs)"

definition or_else :: "'a option \<Rightarrow> 'a option \<Rightarrow> 'a option" where
  "or_else a b = (case a of Some x \<Rightarrow> Some x | None \<Rightarrow> b)"

definition least_used :: "auth_store \<Rightarrow> int \<Rightarrow> nat list \<Rightarrow> bool \<Rightarrow> nat option" where
  "least_used st now cands ignore =
     min_by_key (last_used_key st) (filter (\<lambda>i. ignore \<or> \<not> cooling st now i) cands)"

definition pick_from_candidates :: "auth_store \<Rightarrow> int \<Rightarrow> rstr \<Rightarrow> nat list \<Rightarrow> bool \<Rightarrow> nat option" where
  "pick_from_candidates st now key cands ignore =
     (if cands = [] then None
      else or_else (Option.bind (map_of (defaults st) key) (is_candidate st now cands ignore))
          (or_else (Option.bind (map_of (order st) key) (find_map (is_candidate st now cands ignore)))
          (or_else (Option.bind (map_of (last_good st) key) (is_candidate st now cands ignore))
             (least_used st now cands ignore))))"

definition preferred_lookup_target_keys :: "rstr \<Rightarrow> rstr list" where
  "preferred_lookup_target_keys provider =
     (let canonical = canonical_provider_name provider;
          api = auth_target_key canonical (Some ''api'');
          requested = (case requested_auth_route provider of
                         None \<Rightarrow> [] | Some r \<Rightarrow> [auth_target_key canonical (Some r)])
      in if api \<in> set requested then requested else requested @ [api])"

definition default_target_key :: "rstr \<Rightarrow> rstr" where
  "default_target_key provider =
     (case requested_auth_route provider of
        Some r \<Rightarrow> auth_target_key (canonical_provider_name provider) (Some r)
      | None \<Rightarrow> auth_target_key (canonical_provider_name provider) (Some ''api''))"

definition pick_profile_index :: "auth_store \<Rightarrow> int \<Rightarrow> rstr \<Rightarrow> bool \<Rightarrow> nat option" where
  "pick_profile_index st now provider ignore =
     or_else
       (find_map (\<lambda>key. pick_from_candidates st now key (profile_indexes_for_target_key st key) ignore)
          (preferred_lookup_target_keys provider))
       (least_used st now (profile_indexes_for_backend st (canonical_provider_name provider)) ignore)"

definition active_profile_index :: "auth_store \<Rightarrow> int \<Rightarrow> rstr \<Rightarrow> nat option" where
  "active_profile_index st now provider =
     or_else (pick_profile_index st now provider False) (pick_profile_index st now provider True)"

definition active_api_key :: "auth_store \<Rightarrow> int \<Rightarrow> rstr \<Rightarrow> rstr option" where
  "active_api_key st now provider =
     Option.bind (active_profile_index st now provider) (\<lambda>i. trimmed (ap_api_key (profiles st ! i)))"

definition disabled_oauth_profile_exists :: "auth_store \<Rightarrow> rstr \<Rightarrow> bool" where
  "disabled_oauth_profile_exists st provider \<longleftrightarrow>
     list_ex (\<lambda>p. ap_disabled p \<and> ap_scheme p = Some ''oauth'' \<and>
        (profile_target_key p \<in> set (preferred_lookup_target_keys provider) \<or>
         canonical_provider_name (ap_provider p) = canonical_provider_name provider))
       (profiles st)"

definition target_key_for_profile_order :: "auth_store \<Rightarrow> rstr \<Rightarrow> rstr" where
  "target_key_for_profile_order st provider =
     (case find (target_key_has_profiles st) (preferred_lookup_target_keys provider) of
        Some key \<Rightarrow> key
      | None \<Rightarrow>
          (case first_existing_backend_target_key st (canonical_provider_name provider) of
             Some key \<Rightarrow> key
           | None \<Rightarrow> default_target_key provider))"

definition default_profile_id_for_provider :: "auth_store \<Rightarrow> rstr \<Rightarrow> rstr option" where
  "default_profile_id_for_provider st provider =
     map_of (defaults st) (target_key_for_profile_order st provider)"

subsection \<open>Keeping the maps consistent\<close>

text \<open>Equality of hash maps, whatever the order of their entries.\<close>

definition same_map :: "('a \<times> 'b) list \<Rightarrow> ('a \<times> 'b) list \<Rightarrow> bool" where
  "same_map a b \<longleftrightarrow>
     list_all (\<lambda>(k, v). map_of b k = map_of a k) a \<and> list_all (\<lambda>(k, v). map_of a k = map_of b k) b"

definition entry_ids :: "(rstr \<times> rstr list) list \<Rightarrow> rstr \<Rightarrow> rstr list" where
  "entry_ids m key = (case map_of m key of None \<Rightarrow> [] | Some l \<Rightarrow> l)"

text \<open>\<open>entry(key).or_default()\<close>, then a push; with and without looking for the id first.\<close>

definition push_id :: "rstr \<Rightarrow> rstr \<Rightarrow> (rstr \<times> rstr list) list \<Rightarrow> (rstr \<times> rstr list) list" where
  "push_id key pid m = AList.update key (entry_ids m key @ [pid]) m"

definition push_new_id :: "rstr \<Rightarrow> rstr \<Rightarrow> (rstr \<times> rstr list) list \<Rightarrow> (rstr \<times> rstr list) list" where
  "push_new_id key pid m =
     AList.update key (if pid \<in> set (entry_ids m key) then entry_ids m key else entry_ids m key @ [pid]) m"

definition target_ids :: "auth_profile list \<Rightarrow> (rstr \<times> rstr list) list" where
  "target_ids ps = fold (\<lambda>p. push_id (profile_target_key p) (ap_id p)) ps []"

definition target_by_profile_id :: "auth_profile list \<Rightarrow> (rstr \<times> rstr) list" where
  "target_by_profile_id ps = fold (\<lambda>p. AList.update (ap_id p) (profile_target_key p)) ps []"

text \<open>Defaults and last-good entries move to the target their profile has now, or go.\<close>

definition retarget :: "(rstr \<times> rstr) list \<Rightarrow> (rstr \<times> rstr) list \<Rightarrow> (rstr \<times> rstr) list" where
  "retarget targets m =
     fold (\<lambda>(k, pid) acc. case map_of targets pid of
             None \<Rightarrow> acc | Some key \<Rightarrow> AList.update key pid acc) m []"

definition normalized_order ::
    "(rstr \<times> rstr) list \<Rightarrow> (rstr \<times> rstr list) list \<Rightarrow> (rstr \<times> rstr list) list \<Rightarrow> (rstr \<times> rstr list) list" where
  "normalized_order targets ids m =
     (let kept = fold (\<lambda>pid acc. case map_of targets pid of
                         None \<Rightarrow> acc | Some key \<Rightarrow> push_new_id key pid acc)
                   (concat (map snd m)) [];
          full = fold (\<lambda>(key, pids) acc.
                         fold (push_new_id key) pids (AList.update key (entry_ids acc key) acc))
                   ids kept
      in full)"

definition normalize_metadata :: "auth_store \<Rightarrow> auth_store" where
  "normalize_metadata st =
     (let ps = map normalize_profile (profiles st);
          ids = target_ids ps;
          targets = target_by_profile_id ps;
          defs = retarget targets (defaults st);
          good = retarget targets (last_good st);
          ord = normalized_order targets ids (order st);
          ord' = (if same_map (order st) ord then order st else ord)
      in st\<lparr>profiles := ps,
            defaults := (if same_map (defaults st) defs then defaults st else defs),
            last_good := (if same_map (last_good st) good then last_good st else good),
            usage := filter (\<lambda>(pid, _). pid \<in> set (map ap_id ps)) (usage st),
            order := fold (\<lambda>(key, pids) acc.
                        if map_of acc key = None then AList.update key pids acc else acc) ids ord'\<rparr>)"

text \<open>Whether \<open>normalize_metadata\<close> reports a change.\<close>

definition metadata_changed :: "auth_store \<Rightarrow> bool" where
  "metadata_changed st \<longleftrightarrow>
     (let ps = map normalize_profile (profiles st); targets = target_by_profile_id ps;
          ord = normalized_order targets (target_ids ps) (order st)
      in ps \<noteq> profiles st \<or>
         list_ex (\<lambda>(k, pid). map_of targets pid = None) (defaults st) \<or>
         \<not> same_map (defaults st) (retarget targets (defaults st)) \<or>
         list_ex (\<lambda>(k, pid). map_of targets pid = None) (last_good st) \<or>
         \<not> same_map (last_good st) (retarget targets (last_good st)) \<or>
         list_ex (\<lambda>(pid, _). pid \<notin> set (map ap_id ps)) (usage st) \<or>
         list_ex (\<lambda>pid. map_of targets pid = None) (concat (map snd (order st))) \<or>
         \<not> same_map (order st) ord)"

subsection \<open>Updates\<close>

text \<open>\<open>set_profile_order\<close>: the given ids that belong to the target, then the others.\<close>

definition add_listed :: "auth_store \<Rightarrow> rstr \<Rightarrow> rstr \<Rightarrow> rstr list \<Rightarrow> rstr list" where
  "add_listed st key pid acc =
     (if list_ex (\<lambda>p. profile_target_key p = key \<and> ap_id p = pid) (profiles st) \<and> pid \<notin> set acc
      then acc @ [pid] else acc)"

definition add_unlisted :: "rstr \<Rightarrow> auth_profile \<Rightarrow> rstr list \<Rightarrow> rstr list" where
  "add_unlisted key p acc =
     (if profile_target_key p = key \<and> ap_id p \<notin> set acc then acc @ [ap_id p] else acc)"

definition set_profile_order :: "rstr \<Rightarrow> rstr list \<Rightarrow> auth_store \<Rightarrow> auth_store" where
  "set_profile_order provider ids st =
     (let key = target_key_for_profile_order st provider;
          listed = fold (add_listed st key) ids [];
          ordered = fold (add_unlisted key) (profiles st) listed
      in st\<lparr>order := AList.update key ordered (order st)\<rparr>)"

definition usage_entry :: "auth_store \<Rightarrow> rstr \<Rightarrow> usage_stats" where
  "usage_entry st pid = (case map_of (usage st) pid of None \<Rightarrow> usage_default | Some s \<Rightarrow> s)"

definition mark_profile_used :: "int \<Rightarrow> rstr \<Rightarrow> auth_store \<Rightarrow> auth_store" where
  "mark_profile_used now pid st =
     (let good = (case find (\<lambda>p. ap_id p = pid) (profiles st) of
                    None \<Rightarrow> last_good st
                  | Some p \<Rightarrow> AList.update (profile_target_key p) pid (last_good st))
      in st\<lparr>last_good := good,
            usage := AList.update pid
              ((usage_entry st pid)\<lparr>last_used_at := Some now, cooldown_until := None, error_count := 0,
                                   disabled_reason := None\<rparr>) (usage st)\<rparr>)"

definition i64_max :: int where
  "i64_max = 2 ^ 63 - 1"

definition mark_profile_failed :: "int \<Rightarrow> rstr \<Rightarrow> int option \<Rightarrow> auth_store \<Rightarrow> auth_store" where
  "mark_profile_failed now pid cooldown st =
     (let e = usage_entry st pid;
          e = e\<lparr>error_count := saturating_add (error_count e) 1\<rparr>;
          e = (case cooldown of
                 None \<Rightarrow> e
               | Some secs \<Rightarrow> if 0 < secs then e\<lparr>cooldown_until := Some (min i64_max (now + secs))\<rparr> else e)
      in st\<lparr>usage := AList.update pid e (usage st)\<rparr>)"

datatype profile_error =
  EmptyProfileId | InvalidProfileId rstr | EmptyProvider | ProfileIdTaken rstr rstr

text \<open>The first profile with the id, replaced by what \<open>f\<close> makes of it.\<close>

fun update_first :: "rstr \<Rightarrow> (auth_profile \<Rightarrow> auth_profile) \<Rightarrow> auth_profile list \<Rightarrow> auth_profile list" where
  "update_first pid f [] = []"
| "update_first pid f (p # ps) = (if ap_id p = pid then f p # ps else p # update_first pid f ps)"

definition upsert_profile ::
    "auth_profile \<Rightarrow> bool \<Rightarrow> auth_store \<Rightarrow> auth_store \<times> (profile_error, bool) result" where
  "upsert_profile profile set_default st =
     (let pid = trim (ap_id profile); canonical = canonical_provider_name (ap_provider profile);
          scheme = trimmed_lower (ap_scheme profile); source = trimmed_lower (ap_source profile);
          route = canonical_auth_route (ap_provider profile) (ap_route profile) scheme source;
          key = auth_target_key canonical route;
          normal = \<lparr>ap_id = pid, ap_provider = canonical, ap_route = route,
                    ap_label = trimmed (ap_label profile), ap_api_key = trimmed (ap_api_key profile),
                    ap_refresh = trimmed (ap_refresh profile), ap_scheme = scheme, ap_source = source,
                    ap_disabled = False\<rparr>
      in if pid = [] then (st, Err EmptyProfileId)
         else if \<not> is_valid_profile_id pid then (st, Err (InvalidProfileId pid))
         else if canonical = [] then (st, Err EmptyProvider)
         else (case find (\<lambda>p. ap_id p = pid) (profiles st) of
           Some existing \<Rightarrow>
             if canonical_provider_name (ap_provider existing) \<noteq> canonical
             then (st, Err (ProfileIdTaken pid (ap_provider existing)))
             else (normalize_metadata (st\<lparr>
                 profiles := update_first pid (\<lambda>_. normal) (profiles st),
                 usage := map (\<lambda>(k, s). (k, if k = pid then s\<lparr>cooldown_until := None, error_count := 0\<rparr>
                                             else s)) (usage st),
                 defaults := (if set_default then AList.update key pid (defaults st) else defaults st)\<rparr>),
               Ok False)
         | None \<Rightarrow>
             (normalize_metadata (st\<lparr>
                 profiles := profiles st @ [normal],
                 order := push_id key pid (order st),
                 usage := (if map_of (usage st) pid = None
                           then AList.update pid usage_default (usage st) else usage st),
                 defaults := (if set_default then AList.update key pid (defaults st) else defaults st),
                 last_good := (if set_default then AList.update key pid (last_good st) else last_good st)\<rparr>),
              Ok True)))"

subsection \<open>Which profile is active\<close>

lemma or_else_simps [simp]:
  "or_else None b = b" "or_else (Some x) b = Some x"
  by (simp_all add: or_else_def)

lemma or_else_None: "or_else a b = None \<longleftrightarrow> a = None \<and> b = None"
  by (cases a) simp_all

lemma or_else_Some: "or_else a b = Some x \<longleftrightarrow> a = Some x \<or> a = None \<and> b = Some x"
  by (cases a) simp_all

lemma min_by_key_None [simp]: "min_by_key f xs = None \<longleftrightarrow> xs = []"
  by (cases xs) (auto split: option.splits)

lemma min_by_key_in: "min_by_key f xs = Some x \<Longrightarrow> x \<in> set xs"
  by (induction xs arbitrary: x) (auto split: option.splits if_splits)

lemma min_by_key_least: "min_by_key f xs = Some x \<Longrightarrow> y \<in> set xs \<Longrightarrow> f x \<le> f y"
  by (induction xs arbitrary: x y) (fastforce split: option.splits if_splits)+

lemma find_map_Some: "find_map f xs = Some y \<Longrightarrow> \<exists>x \<in> set xs. f x = Some y"
  by (induction xs) (auto split: option.splits)

lemma find_map_None: "find_map f xs = None \<longleftrightarrow> (\<forall>x \<in> set xs. f x = None)"
  by (induction xs) (auto split: option.splits)

lemma is_candidate_in:
  "is_candidate st now cands ignore pid = Some i \<Longrightarrow>
   i \<in> set cands \<and> (ignore \<or> \<not> cooling st now i) \<and> ap_id (profiles st ! i) = pid"
  by (auto simp: is_candidate_def find_Some_iff cooling_def)

lemma least_used_in:
  "least_used st now cands ignore = Some i \<Longrightarrow> i \<in> set cands \<and> (ignore \<or> \<not> cooling st now i)"
  by (auto simp: least_used_def dest: min_by_key_in)

lemma pick_from_candidates_in:
  assumes "pick_from_candidates st now key cands ignore = Some i"
  shows "i \<in> set cands \<and> (ignore \<or> \<not> cooling st now i)"
proof -
  from assms consider d where "is_candidate st now cands ignore d = Some i"
    | l where "find_map (is_candidate st now cands ignore) l = Some i"
    | "least_used st now cands ignore = Some i"
    by (auto simp: pick_from_candidates_def or_else_Some bind_eq_Some_conv split: if_splits)
  then show ?thesis
    by cases (auto dest!: find_map_Some is_candidate_in least_used_in)
qed

lemma least_used_None:
  "least_used st now cands ignore = None \<longleftrightarrow> (\<forall>i \<in> set cands. \<not> ignore \<and> cooling st now i)"
  by (auto simp: least_used_def filter_empty_conv)

lemma pick_from_candidates_None:
  assumes "pick_from_candidates st now key cands ignore = None" "i \<in> set cands"
  shows "\<not> ignore \<and> cooling st now i"
proof -
  from assms have "least_used st now cands ignore = None"
    by (auto simp: pick_from_candidates_def or_else_None split: if_splits)
  with assms(2) show ?thesis by (simp add: least_used_None)
qed

text \<open>The profiles a provider name stands for: those of a preferred target, and those of its backend.\<close>

definition matches_provider :: "auth_store \<Rightarrow> rstr \<Rightarrow> nat \<Rightarrow> bool" where
  "matches_provider st provider i \<longleftrightarrow>
     i < length (profiles st) \<and> \<not> ap_disabled (profiles st ! i) \<and>
     (profile_target_key (profiles st ! i) \<in> set (preferred_lookup_target_keys provider) \<or>
      canonical_provider_name (ap_provider (profiles st ! i)) =
        canonical_provider_name (canonical_provider_name provider))"

lemma pick_profile_index_Some:
  assumes "pick_profile_index st now provider ignore = Some i"
  shows "matches_provider st provider i \<and> (ignore \<or> \<not> cooling st now i)"
proof -
  from assms consider k where "k \<in> set (preferred_lookup_target_keys provider)"
      "pick_from_candidates st now k (profile_indexes_for_target_key st k) ignore = Some i"
    | "least_used st now (profile_indexes_for_backend st (canonical_provider_name provider)) ignore = Some i"
    by (auto simp: pick_profile_index_def or_else_Some dest!: find_map_Some)
  then show ?thesis
    by cases (auto simp: matches_provider_def profile_indexes_for_target_key_def
        profile_indexes_for_backend_def dest!: pick_from_candidates_in least_used_in)
qed

lemma pick_profile_index_None:
  assumes "pick_profile_index st now provider ignore = None" "matches_provider st provider i"
  shows "\<not> ignore \<and> cooling st now i"
proof (cases "profile_target_key (profiles st ! i) \<in> set (preferred_lookup_target_keys provider)")
  case True
  let ?k = "profile_target_key (profiles st ! i)"
  have "pick_from_candidates st now ?k (profile_indexes_for_target_key st ?k) ignore = None"
    using assms(1) True by (auto simp: pick_profile_index_def or_else_None find_map_None)
  moreover have "i \<in> set (profile_indexes_for_target_key st ?k)"
    using assms(2) by (simp add: matches_provider_def profile_indexes_for_target_key_def)
  ultimately show ?thesis by (rule pick_from_candidates_None)
next
  case False
  then have "i \<in> set (profile_indexes_for_backend st (canonical_provider_name provider))"
    using assms(2) by (simp add: matches_provider_def profile_indexes_for_backend_def)
  then show ?thesis
    using assms(1) by (auto simp: pick_profile_index_def or_else_None least_used_None)
qed

definition usable :: "auth_store \<Rightarrow> rstr \<Rightarrow> nat set" where
  "usable st provider = {i. matches_provider st provider i}"

definition ready :: "auth_store \<Rightarrow> int \<Rightarrow> rstr \<Rightarrow> nat set" where
  "ready st now provider = {i \<in> usable st provider. \<not> cooling st now i}"

text \<open>The active profile. A provider has an active profile exactly when some enabled profile belongs
to one of its targets or to its backend. The profile chosen is such a profile, never a disabled one;
and it is one that is not in cooldown whenever the provider has one.\<close>

theorem active_profile_spec:
  "case active_profile_index st now provider of
     None \<Rightarrow> usable st provider = {}
   | Some i \<Rightarrow> i \<in> (if ready st now provider = {} then usable st provider else ready st now provider)"
proof (cases "active_profile_index st now provider")
  case None
  then have "pick_profile_index st now provider True = None"
    by (simp add: active_profile_index_def or_else_None)
  then show ?thesis using None pick_profile_index_None [of st now provider True]
    by (auto simp: usable_def)
next
  case (Some i)
  then consider "pick_profile_index st now provider False = Some i"
    | "pick_profile_index st now provider False = None" "pick_profile_index st now provider True = Some i"
    by (auto simp: active_profile_index_def or_else_Some)
  then show ?thesis
    using Some by cases (auto simp: usable_def ready_def
        dest: pick_profile_index_Some pick_profile_index_None)
qed

subsection \<open>Consistency of the store\<close>

definition ids_of_target :: "auth_profile list \<Rightarrow> rstr \<Rightarrow> rstr set" where
  "ids_of_target ps key = ap_id ` {p \<in> set ps. profile_target_key p = key}"

text \<open>
  Defaults and last-good entries name a profile of their target; the order of a target lists exactly
  the ids of its profiles, without repetition, and every target has one; statistics belong to
  profiles.
\<close>

definition store_consistent :: "auth_store \<Rightarrow> bool" where
  "store_consistent st \<longleftrightarrow>
     (\<forall>k pid. map_of (defaults st) k = Some pid \<longrightarrow> pid \<in> ids_of_target (profiles st) k) \<and>
     (\<forall>k pid. map_of (last_good st) k = Some pid \<longrightarrow> pid \<in> ids_of_target (profiles st) k) \<and>
     (\<forall>k ids. map_of (order st) k = Some ids \<longrightarrow> distinct ids \<and> set ids = ids_of_target (profiles st) k) \<and>
     (\<forall>p \<in> set (profiles st). map_of (order st) (profile_target_key p) \<noteq> None) \<and>
     fst ` set (usage st) \<subseteq> ap_id ` set (profiles st)"

lemma same_map_iff: "same_map a b \<longleftrightarrow> map_of a = map_of b"
proof
  assume s: "same_map a b"
  then have a: "\<And>k v. (k, v) \<in> set a \<Longrightarrow> map_of a k = map_of b k"
    and b: "\<And>k v. (k, v) \<in> set b \<Longrightarrow> map_of a k = map_of b k"
    by (auto simp: same_map_def list_all_iff)
  have "map_of a k = map_of b k" for k
  proof (cases "map_of a k")
    case None
    then show ?thesis using b [OF map_of_SomeD] by (cases "map_of b k") auto
  next
    case (Some v)
    then show ?thesis using a [OF map_of_SomeD [OF Some]] by simp
  qed
  then show "map_of a = map_of b" by blast
next
  assume "map_of a = map_of b"
  then show "same_map a b" by (simp add: same_map_def list_all_iff)
qed

lemma map_of_update: "map_of (AList.update k v m) = (map_of m)(k \<mapsto> v)"
  by (rule update_conv')

lemma entry_ids_update: "entry_ids (AList.update k v m) k' = (if k' = k then v else entry_ids m k')"
  by (simp add: entry_ids_def map_of_update)

lemma target_by_profile_id_in:
  assumes "map_of (target_by_profile_id ps) pid = Some key"
  shows "pid \<in> ids_of_target ps key"
proof -
  have "map_of (fold (\<lambda>p. AList.update (ap_id p) (profile_target_key p)) ps m) pid = Some key \<Longrightarrow>
      pid \<in> ids_of_target ps key \<or> map_of m pid = Some key" for m
    by (induction ps arbitrary: m) (fastforce simp: map_of_update ids_of_target_def split: if_splits)+
  from this [of "[]"] assms show ?thesis by (simp add: target_by_profile_id_def)
qed

lemma retarget_in:
  assumes "map_of (retarget targets m) key = Some pid"
  shows "map_of targets pid = Some key"
proof -
  have "map_of (fold (\<lambda>(k, pid) acc. case map_of targets pid of
             None \<Rightarrow> acc | Some key \<Rightarrow> AList.update key pid acc) m acc) key = Some pid \<Longrightarrow>
        (\<And>p. map_of acc key = Some p \<Longrightarrow> map_of targets p = Some key) \<Longrightarrow> map_of targets pid = Some key" for acc
  proof (induction m arbitrary: acc)
    case (Cons x m)
    show ?case
    proof (cases "map_of targets (snd x)")
      case None
      then show ?thesis using Cons.IH [of acc] Cons.prems by (simp add: case_prod_unfold)
    next
      case (Some t)
      have "map_of targets p = Some key" if "map_of (AList.update t (snd x) acc) key = Some p" for p
        using that Some Cons.prems(2) by (simp add: map_of_update split: if_splits)
      then show ?thesis using Cons.IH [of "AList.update t (snd x) acc"] Cons.prems(1) Some
        by (simp add: case_prod_unfold)
    qed
  qed simp
  from this [of "[]"] assms show ?thesis by (simp add: retarget_def)
qed

text \<open>Both passes over the orders keep: every list is distinct and within its target.\<close>

definition order_ok :: "auth_profile list \<Rightarrow> (rstr \<times> rstr list) list \<Rightarrow> bool" where
  "order_ok ps m \<longleftrightarrow> (\<forall>k. distinct (entry_ids m k) \<and> set (entry_ids m k) \<subseteq> ids_of_target ps k)"

lemma push_new_id_ok:
  "order_ok ps m \<Longrightarrow> pid \<in> ids_of_target ps key \<Longrightarrow> order_ok ps (push_new_id key pid m)"
  by (auto simp: order_ok_def push_new_id_def entry_ids_update)

lemma fold_push_new_id:
  "order_ok ps m \<Longrightarrow> set pids \<subseteq> ids_of_target ps key \<Longrightarrow>
   order_ok ps (fold (push_new_id key) pids m) \<and>
   (\<forall>k. set (entry_ids (fold (push_new_id key) pids m) k) =
        set (entry_ids m k) \<union> (if k = key then set pids else {})) \<and>
   dom (map_of (fold (push_new_id key) pids m)) = dom (map_of m) \<union> (if pids = [] then {} else {key})"
proof (induction pids arbitrary: m)
  case (Cons pid pids)
  have "order_ok ps (push_new_id key pid m)" using Cons.prems by (intro push_new_id_ok) auto
  moreover have "set (entry_ids (push_new_id key pid m) k) =
      set (entry_ids m k) \<union> (if k = key then {pid} else {})" for k
    by (auto simp: push_new_id_def entry_ids_update)
  moreover have "dom (map_of (push_new_id key pid m)) = insert key (dom (map_of m))"
    by (simp add: push_new_id_def map_of_update)
  ultimately show ?case using Cons.prems Cons.IH [of "push_new_id key pid m"] by auto
qed simp

lemma target_ids_spec:
  "set (entry_ids (target_ids ps) k) = ids_of_target ps k \<and>
   dom (map_of (target_ids ps)) = profile_target_key ` set ps"
proof -
  have "set (entry_ids (fold (\<lambda>p. push_id (profile_target_key p) (ap_id p)) ps m) k) =
          set (entry_ids m k) \<union> ids_of_target ps k \<and>
        dom (map_of (fold (\<lambda>p. push_id (profile_target_key p) (ap_id p)) ps m)) =
          dom (map_of m) \<union> profile_target_key ` set ps" for m
    by (induction ps arbitrary: m)
      (auto simp: push_id_def entry_ids_update map_of_update ids_of_target_def)
  from this [of "[]"] show ?thesis by (simp add: target_ids_def entry_ids_def)
qed

lemma fold_kept:
  assumes "\<And>pid key. map_of targets pid = Some key \<Longrightarrow> pid \<in> ids_of_target ps key"
    and "order_ok ps m" and "dom (map_of m) \<subseteq> profile_target_key ` set ps"
  shows "order_ok ps (fold (\<lambda>pid acc. case map_of targets pid of
                  None \<Rightarrow> acc | Some key \<Rightarrow> push_new_id key pid acc) pids m) \<and>
         dom (map_of (fold (\<lambda>pid acc. case map_of targets pid of
                  None \<Rightarrow> acc | Some key \<Rightarrow> push_new_id key pid acc) pids m)) \<subseteq> profile_target_key ` set ps"
  using assms(2,3)
proof (induction pids arbitrary: m)
  case (Cons pid pids)
  show ?case
  proof (cases "map_of targets pid")
    case None
    then show ?thesis using Cons by simp
  next
    case (Some key)
    then have in_key: "pid \<in> ids_of_target ps key" by (rule assms(1))
    then have "key \<in> profile_target_key ` set ps" by (auto simp: ids_of_target_def)
    then have "dom (map_of (push_new_id key pid m)) \<subseteq> profile_target_key ` set ps"
      using Cons.prems(2) by (simp add: push_new_id_def map_of_update)
    then show ?thesis using Cons.IH [OF push_new_id_ok [OF Cons.prems(1) in_key]] Some by simp
  qed
qed simp

lemma entry_ids_touch [simp]: "entry_ids (AList.update key (entry_ids m key) m) k = entry_ids m k"
  by (simp add: entry_ids_update)

lemma order_ok_touch [simp]: "order_ok ps (AList.update key (entry_ids m key) m) = order_ok ps m"
  by (simp add: order_ok_def)

lemma fold_full:
  assumes "order_ok ps m" and "\<And>key pids. (key, pids) \<in> set ids \<Longrightarrow> set pids \<subseteq> ids_of_target ps key"
  defines "full \<equiv> \<lambda>ids m. fold (\<lambda>(key, pids) acc.
                     fold (push_new_id key) pids (AList.update key (entry_ids acc key) acc)) ids m"
  shows "order_ok ps (full ids m) \<and> dom (map_of (full ids m)) = dom (map_of m) \<union> fst ` set ids \<and>
         (\<forall>k. set (entry_ids (full ids m) k) = set (entry_ids m k) \<union> \<Union> (set ` snd ` {x \<in> set ids. fst x = k}))"
  using assms(1,2)
proof (induction ids arbitrary: m)
  case Nil
  then show ?case by (simp add: full_def)
next
  case (Cons x ids)
  obtain key pids where x: "x = (key, pids)" by (cases x)
  define m' where "m' = fold (push_new_id key) pids (AList.update key (entry_ids m key) m)"
  have "set pids \<subseteq> ids_of_target ps key" using Cons.prems(2) x by auto
  from fold_push_new_id [OF _ this, of "AList.update key (entry_ids m key) m"] Cons.prems(1)
  have m': "order_ok ps m'" "dom (map_of m') = insert key (dom (map_of m))"
    "\<And>k. set (entry_ids m' k) = set (entry_ids m k) \<union> (if k = key then set pids else {})"
    by (auto simp: m'_def map_of_update)
  have split: "full (x # ids) m = full ids m'" by (simp add: full_def m'_def x)
  have "order_ok ps (full ids m') \<and> dom (map_of (full ids m')) = dom (map_of m') \<union> fst ` set ids \<and>
        (\<forall>k. set (entry_ids (full ids m') k) = set (entry_ids m' k) \<union> \<Union> (set ` snd ` {x \<in> set ids. fst x = k}))"
    using Cons.prems(2) by (intro Cons.IH m'(1)) auto
  then show ?case unfolding split m'(2,3) by (auto simp: x)
qed

lemma target_ids_distinct: "distinct (map fst (target_ids ps))"
proof -
  have "distinct (map fst m) \<Longrightarrow>
      distinct (map fst (fold (\<lambda>p. push_id (profile_target_key p) (ap_id p)) ps m))" for m
    by (induction ps arbitrary: m) (simp_all add: push_id_def distinct_update)
  then show ?thesis by (simp add: target_ids_def)
qed

lemma target_ids_entry:
  assumes "(key, pids) \<in> set (target_ids ps)"
  shows "set pids = ids_of_target ps key"
  using map_of_is_SomeI [OF target_ids_distinct assms] target_ids_spec [of ps key]
  by (simp add: entry_ids_def)

lemma normalized_order_ok:
  assumes "ord = normalized_order (target_by_profile_id ps) (target_ids ps) m"
  shows "order_ok ps ord" "dom (map_of ord) = profile_target_key ` set ps"
    "set (entry_ids ord k) = ids_of_target ps k"
proof -
  let ?kept = "fold (\<lambda>pid acc. case map_of (target_by_profile_id ps) pid of
                   None \<Rightarrow> acc | Some key \<Rightarrow> push_new_id key pid acc) (concat (map snd m)) []"
  have kept: "order_ok ps ?kept" "dom (map_of ?kept) \<subseteq> profile_target_key ` set ps"
    using fold_kept [of "target_by_profile_id ps" ps "[]" "concat (map snd m)"] target_by_profile_id_in
    by (auto simp: order_ok_def entry_ids_def)
  have fst_ids: "fst ` set (target_ids ps) = profile_target_key ` set ps"
    using target_ids_spec [of ps] by (metis dom_map_of_conv_image_fst)
  note full = fold_full [OF kept(1), of "target_ids ps"]
  then show ok: "order_ok ps ord" and d: "dom (map_of ord) = profile_target_key ` set ps"
    using kept(2) fst_ids by (auto simp: assms normalized_order_def Let_def target_ids_entry)
  have "ids_of_target ps k \<subseteq> set (entry_ids ord k)"
  proof (cases "k \<in> profile_target_key ` set ps")
    case True
    then obtain pids where "(k, pids) \<in> set (target_ids ps)" using fst_ids by force
    then show ?thesis using full target_ids_entry [of k pids ps]
      by (force simp: assms normalized_order_def Let_def target_ids_entry)
  next
    case False
    then show ?thesis by (auto simp: ids_of_target_def)
  qed
  then show "set (entry_ids ord k) = ids_of_target ps k" using ok by (auto simp: order_ok_def)
qed

lemma fold_missing_none:
  "fst ` set ids \<subseteq> dom (map_of m) \<Longrightarrow>
   fold (\<lambda>(key, pids) acc. if map_of acc key = None then AList.update key pids acc else acc) ids m = m"
  by (induction ids) (auto simp: domIff)

lemma keep_if_same: "map_of (if same_map a b then a else b) = map_of b"
  by (simp add: same_map_iff)

lemma normalize_metadata_profiles: "profiles (normalize_metadata st) = map normalize_profile (profiles st)"
  by (simp add: normalize_metadata_def Let_def)

lemma normalize_metadata_order:
  "map_of (order (normalize_metadata st)) =
   map_of (normalized_order (target_by_profile_id (map normalize_profile (profiles st)))
             (target_ids (map normalize_profile (profiles st))) (order st))"
proof -
  let ?ps = "map normalize_profile (profiles st)"
  let ?ord = "normalized_order (target_by_profile_id ?ps) (target_ids ?ps) (order st)"
  have "fst ` set (target_ids ?ps) = dom (map_of ?ord)"
    using target_ids_spec [of ?ps] normalized_order_ok(2) [OF refl]
    by (metis dom_map_of_conv_image_fst)
  then have "fst ` set (target_ids ?ps) \<subseteq> dom (map_of (if same_map (order st) ?ord then order st else ?ord))"
    by (simp only: keep_if_same)
  from fold_missing_none [OF this] show ?thesis
    by (simp add: normalize_metadata_def Let_def same_map_iff del: set_map)
qed

lemma normalize_metadata_keeps: "store_consistent (normalize_metadata st)"
proof -
  let ?ps = "map normalize_profile (profiles st)"
  let ?ord = "normalized_order (target_by_profile_id ?ps) (target_ids ?ps) (order st)"
  have in_target: "pid \<in> ids_of_target ?ps k" if "map_of (retarget (target_by_profile_id ?ps) m) k = Some pid" for k pid m
    using retarget_in [OF that] by (rule target_by_profile_id_in)
  have d: "map_of (defaults (normalize_metadata st)) = map_of (retarget (target_by_profile_id ?ps) (defaults st))"
    and l: "map_of (last_good (normalize_metadata st)) = map_of (retarget (target_by_profile_id ?ps) (last_good st))"
    by (simp_all add: normalize_metadata_def Let_def same_map_iff)
  have u: "fst ` set (usage (normalize_metadata st)) \<subseteq> ap_id ` set ?ps"
    by (auto simp: normalize_metadata_def Let_def)
  have o: "distinct ids \<and> set ids = ids_of_target ?ps k" if "map_of ?ord k = Some ids" for k ids
    using normalized_order_ok(1,3) [OF refl, of ?ps "order st"] that
    by (simp add: order_ok_def entry_ids_def) (metis option.simps(5) normalized_order_ok(3) entry_ids_def)
  have c: "map_of ?ord (profile_target_key p) \<noteq> None" if "p \<in> set ?ps" for p
    using normalized_order_ok(2) [OF refl, of ?ps "order st"] that by blast
  show ?thesis
    unfolding store_consistent_def normalize_metadata_profiles d l normalize_metadata_order
    using in_target u o c by blast
qed

text \<open>C21: whatever a store file holds (unknown ids, entries filed under the key of another target, stale
  statistics, duplicate ids), \<open>normalize_metadata\<close>, which every load runs, leaves a consistent store:
  each default and each last-good entry is a profile of its own target, every target with a profile
  has an order, that order lists exactly the ids of its profiles, each once, and statistics exist for
  stored profiles only.
\<close>

theorem normalize_metadata_consistent: "store_consistent (normalize_metadata st)"
  by (rule normalize_metadata_keeps)

end
