(* ===== verification/Auth_Persistence.thy ===== *)
theory Auth_Persistence
  imports Auth_Store
begin

text \<open>
  Loading and saving the auth profile store (\<open>load_from_disk\<close>, \<open>save_to_disk\<close> and
  \<open>load_or_init_at\<close> in \<open>src/src/security/auth/store.rs\<close>). The JSON codec is third-party: two
  functions, with decoding what was encoded as the only promise used. The file is part of the state,
  and each file-system call of a save can fail.
\<close>

record json_codec =
  to_json :: "auth_store \<Rightarrow> rstr option"
  from_json :: "rstr \<Rightarrow> auth_store option"

definition codec_ok :: "json_codec \<Rightarrow> bool" where
  "codec_ok j \<longleftrightarrow> (\<forall>s t. to_json j s = Some t \<longrightarrow> from_json j t = Some s)"

datatype auth_file = NoFile | Unreadable | Contents rstr

datatype save_fault = CreateDirFails | WriteFails | RestrictFails | RenameFails

datatype auth_error =
  SecretFailed secret_error | SaveFault save_fault | SerializeFailed | ReadFailed | ParseFailed

text \<open>What a call finds around it: the random bytes, whether the key file can be created, and whether
and where writing the profile file fails.\<close>

record outside =
  crypt :: crypto
  json :: json_codec
  fresh_key :: rstr
  key_writable :: bool
  nonce_of :: "nat \<Rightarrow> rstr"
  fault :: "save_fault option"

subsection \<open>Loading\<close>

definition decrypt_field ::
    "outside \<Rightarrow> bool \<Rightarrow> rstr option \<Rightarrow> secret_store \<Rightarrow> secret_store \<times> (secret_error, rstr option \<times> bool) result" where
  "decrypt_field w encrypt_enabled v st =
     decrypt_opt_secret (crypt w) (fresh_key w) (key_writable w) encrypt_enabled v st"

text \<open>One turn of the loop: the secrets of a profile, the reasons noted and whether to write back.\<close>

definition load_profile ::
    "outside \<Rightarrow> bool \<Rightarrow> auth_profile \<Rightarrow> secret_store
       \<Rightarrow> secret_store \<times> auth_profile \<times> (rstr \<times> rstr) list \<times> bool" where
  "load_profile w enc p st =
     (case decrypt_field w enc (ap_api_key p) st of (st1, r1) \<Rightarrow>
      (case (case r1 of
               Ok (v, changed) \<Rightarrow> (p\<lparr>ap_api_key := v\<rparr>, [], changed)
             | Err _ \<Rightarrow> (p\<lparr>ap_api_key := None, ap_disabled := True\<rparr>,
                         [(ap_id p, ''api_key decrypt failed; profile disabled'')], True))
       of (p1, reasons1, needs1) \<Rightarrow>
      (case decrypt_field w enc (ap_refresh p1) st1 of (st2, r2) \<Rightarrow>
      (case r2 of
         Ok (v, changed) \<Rightarrow> (st2, p1\<lparr>ap_refresh := v\<rparr>, reasons1, needs1 \<or> changed)
       | Err _ \<Rightarrow> (st2, p1\<lparr>ap_refresh := None\<rparr>,
                   reasons1 @ [(ap_id p, ''refresh_token decrypt failed; token cleared'')], True)))))"

fun load_profiles ::
    "outside \<Rightarrow> bool \<Rightarrow> auth_profile list \<Rightarrow> secret_store
       \<Rightarrow> secret_store \<times> auth_profile list \<times> (rstr \<times> rstr) list \<times> bool" where
  "load_profiles w enc [] st = (st, [], [], False)"
| "load_profiles w enc (p # ps) st =
     (case load_profile w enc p st of (st1, p', reasons1, needs1) \<Rightarrow>
      case load_profiles w enc ps st1 of (st2, ps', reasons2, needs2) \<Rightarrow>
        (st2, p' # ps', reasons1 @ reasons2, needs1 \<or> needs2))"

definition note_reason :: "rstr \<times> rstr \<Rightarrow> (rstr \<times> usage_stats) list \<Rightarrow> (rstr \<times> usage_stats) list" where
  "note_reason pr u =
     AList.update (fst pr)
       ((case map_of u (fst pr) of None \<Rightarrow> usage_default | Some s \<Rightarrow> s)\<lparr>disabled_reason := Some (snd pr)\<rparr>) u"

definition load_from_disk ::
    "outside \<Rightarrow> bool \<Rightarrow> auth_file \<Rightarrow> secret_store
       \<Rightarrow> secret_store \<times> (auth_error, auth_store \<times> bool) result" where
  "load_from_disk w enc file st =
     (case file of
        NoFile \<Rightarrow> (st, Ok (auth_store_default, False))
      | Unreadable \<Rightarrow> (st, Err ReadFailed)
      | Contents text \<Rightarrow>
          (case from_json (json w) text of
             None \<Rightarrow> (st, Err ParseFailed)
           | Some loaded \<Rightarrow>
               (case load_profiles w enc (profiles loaded) st of (st', ps, reasons, needs) \<Rightarrow>
                  (st', Ok (loaded\<lparr>profiles := ps, usage := fold note_reason reasons (usage loaded)\<rparr>,
                            needs)))))"

subsection \<open>Saving\<close>

definition encrypt_field ::
    "outside \<Rightarrow> nat \<Rightarrow> rstr option \<Rightarrow> secret_store \<Rightarrow> secret_store \<times> (secret_error, rstr option) result" where
  "encrypt_field w i v st =
     encrypt_opt_secret (crypt w) (fresh_key w) (key_writable w) (nonce_of w i) v st"

text \<open>The nonces are numbered by the profiles still to come.\<close>

fun encrypt_profiles ::
    "outside \<Rightarrow> auth_profile list \<Rightarrow> secret_store \<Rightarrow> secret_store \<times> (secret_error, auth_profile list) result" where
  "encrypt_profiles w [] st = (st, Ok [])"
| "encrypt_profiles w (p # ps) st =
     (case encrypt_field w (2 * length ps) (ap_api_key p) st of
        (st1, Err e) \<Rightarrow> (st1, Err e)
      | (st1, Ok k) \<Rightarrow>
          (case encrypt_field w (2 * length ps + 1) (ap_refresh p) st1 of
             (st2, Err e) \<Rightarrow> (st2, Err e)
           | (st2, Ok r) \<Rightarrow>
               (case encrypt_profiles w ps st2 of
                  (st3, Err e) \<Rightarrow> (st3, Err e)
                | (st3, Ok ps') \<Rightarrow> (st3, Ok (p\<lparr>ap_api_key := k, ap_refresh := r\<rparr> # ps')))))"

text \<open>The file changes with the final rename only.\<close>

definition save_to_disk ::
    "outside \<Rightarrow> bool \<Rightarrow> auth_store \<Rightarrow> auth_file \<times> secret_store
       \<Rightarrow> (auth_file \<times> secret_store) \<times> (auth_error, unit) result" where
  "save_to_disk w enc store fs =
     (case (if enc then encrypt_profiles w (profiles store) (snd fs) else (snd fs, Ok (profiles store))) of
        (st, Err e) \<Rightarrow> ((fst fs, st), Err (SecretFailed e))
      | (st, Ok ps) \<Rightarrow>
          if fault w = Some CreateDirFails then ((fst fs, st), Err (SaveFault CreateDirFails))
          else (case to_json (json w) (store\<lparr>profiles := ps\<rparr>) of
            None \<Rightarrow> ((fst fs, st), Err SerializeFailed)
          | Some text \<Rightarrow>
              (case fault w of
                 Some f \<Rightarrow> ((fst fs, st), Err (SaveFault f))
               | None \<Rightarrow> ((Contents text, st), Ok ()))))"

definition load_or_init_at ::
    "outside \<Rightarrow> bool \<Rightarrow> auth_file \<times> secret_store
       \<Rightarrow> (auth_file \<times> secret_store) \<times> (auth_error, auth_store) result" where
  "load_or_init_at w enc fs =
     (case load_from_disk w enc (fst fs) (snd fs) of
        (st, Err e) \<Rightarrow> ((fst fs, st), Err e)
      | (st, Ok (loaded, needs)) \<Rightarrow>
          let store = normalize_metadata loaded in
          if needs \<or> metadata_changed loaded
          then (case save_to_disk w enc store (fst fs, st) of
                  (fs', Err e) \<Rightarrow> (fs', Err e)
                | (fs', Ok _) \<Rightarrow> (fs', Ok store))
          else ((fst fs, st), Ok store))"

subsection \<open>No secret is written in the clear\<close>

definition concealed :: "rstr option \<Rightarrow> bool" where
  "concealed v \<longleftrightarrow> (case v of None \<Rightarrow> True | Some s \<Rightarrow> trim s = [] \<or> is_encrypted (trim s))"

definition profile_concealed :: "auth_profile \<Rightarrow> bool" where
  "profile_concealed p \<longleftrightarrow> concealed (ap_api_key p) \<and> concealed (ap_refresh p)"

definition store_concealed :: "json_codec \<Rightarrow> auth_file \<Rightarrow> bool" where
  "store_concealed j file \<longleftrightarrow>
     (case file of
        Contents t \<Rightarrow> (case from_json j t of Some s \<Rightarrow> list_all profile_concealed (profiles s) | None \<Rightarrow> True)
      | _ \<Rightarrow> True)"

lemma ws_byte_colon: "\<not> ws_byte (CHR '':'')"
  by code_simp

lemma trim_marked: "trim h = h \<Longrightarrow> trim (''enc2:'' @ h) = ''enc2:'' @ h"
proof -
  assume "trim h = h"
  moreover have "ws_len ''enc2'' = 0" by code_simp
  ultimately have "trim (''enc2'' @ CHR '':'' # h) = ''enc2'' @ CHR '':'' # h"
    by (intro trim_scoped ws_byte_colon) simp_all
  then show ?thesis by simp
qed

lemma load_key_enabled:
  "load_or_create_key c fresh w st = (st', r) \<Longrightarrow> enabled st' = enabled st"
  by (auto simp: load_or_create_key_def split: key_file.splits option.splits if_splits)

lemma encrypt_field_concealed:
  assumes "encrypt_field w i v st = (st', Ok x)" "enabled st" "crypto_ok (crypt w)"
  shows "concealed x \<and> enabled st'"
proof (cases v)
  case None
  then show ?thesis using assms by (auto simp: encrypt_field_def encrypt_opt_secret_def concealed_def)
next
  case (Some s)
  show ?thesis
  proof (cases "trim s = [] \<or> is_encrypted (trim s)")
    case True
    then show ?thesis using assms Some
      by (auto simp: encrypt_field_def encrypt_opt_secret_def concealed_def Let_def)
  next
    case False
    then obtain y where e: "encrypt (crypt w) (fresh_key w) (key_writable w) (nonce_of w i) (trim s) st = (st', Ok y)"
      and x: "x = Some y"
      using assms(1) Some
      by (auto simp: encrypt_field_def encrypt_opt_secret_def Let_def split: prod.splits sum.splits)
    from e show ?thesis
    proof (cases rule: encrypt_cases)
      case (sealed key ct)
      then have "trim y = y" using trim_marked crypto_okD(2) [OF assms(3)] by simp
      then show ?thesis using sealed x load_key_enabled [OF sealed(3)]
        by (simp add: concealed_def is_encrypted_def)
    qed (use False assms(2) in auto)
  qed
qed

lemma encrypt_profiles_concealed:
  "encrypt_profiles w ps st = (st', Ok ps') \<Longrightarrow> enabled st \<Longrightarrow> crypto_ok (crypt w) \<Longrightarrow>
   list_all profile_concealed ps'"
proof (induction ps arbitrary: st st' ps')
  case (Cons p ps)
  obtain st1 k where k: "encrypt_field w (2 * length ps) (ap_api_key p) st = (st1, Ok k)"
    using Cons.prems(1) by (auto split: prod.splits sum.splits)
  obtain st2 r where r: "encrypt_field w (2 * length ps + 1) (ap_refresh p) st1 = (st2, Ok r)"
    using Cons.prems(1) k by (auto split: prod.splits sum.splits)
  obtain st3 qs where q: "encrypt_profiles w ps st2 = (st3, Ok qs)"
    using Cons.prems(1) k r by (auto split: prod.splits sum.splits)
  note k' = encrypt_field_concealed [OF k Cons.prems(2,3)]
  note r' = encrypt_field_concealed [OF r conjunct2 [OF k'] Cons.prems(3)]
  have "list_all profile_concealed qs" using Cons.IH [OF q] r' Cons.prems(3) by simp
  moreover have "profile_concealed (p\<lparr>ap_api_key := k, ap_refresh := r\<rparr>)"
    using k' r' by (simp add: profile_concealed_def)
  ultimately show ?case using Cons.prems(1) k r q by auto
qed simp

lemma save_concealed_Ok:
  assumes "save_to_disk w True store (file, st) = ((file', st'), Ok ())"
    "enabled st" "crypto_ok (crypt w)" "codec_ok (json w)"
  shows "store_concealed (json w) file'"
proof -
  obtain st1 ps where e: "encrypt_profiles w (profiles store) st = (st1, Ok ps)"
    using assms(1) by (auto simp: save_to_disk_def split: prod.splits sum.splits)
  have "list_all profile_concealed ps" using encrypt_profiles_concealed [OF e assms(2,3)] .
  then show ?thesis using assms(1,4) e
    by (auto simp: save_to_disk_def store_concealed_def codec_ok_def split: if_splits option.splits)
qed

lemma decrypt_field_marks:
  "decrypt_field w True v st = (st', Ok (x, False)) \<Longrightarrow> concealed v"
  by (auto simp: decrypt_field_def decrypt_opt_secret_def concealed_def Let_def
      split: option.splits if_splits prod.splits sum.splits)

lemma load_profile_marks:
  assumes "load_profile w True p st = (st', p', rs, False)"
  shows "profile_concealed p"
proof -
  obtain st1 r1 where d1: "decrypt_field w True (ap_api_key p) st = (st1, r1)" by force
  with assms obtain v1 where v1: "r1 = Ok (v1, False)"
    by (auto simp: load_profile_def split: prod.splits sum.splits)
  obtain st2 r2 where d2: "decrypt_field w True (ap_refresh p) st1 = (st2, r2)" by force
  with assms d1 v1 obtain v2 where "r2 = Ok (v2, False)"
    by (auto simp: load_profile_def split: prod.splits sum.splits)
  with d1 d2 v1 show ?thesis by (auto simp: profile_concealed_def dest: decrypt_field_marks)
qed

lemma load_profiles_marks:
  "load_profiles w True ps st = (st', ps', rs, False) \<Longrightarrow> list_all profile_concealed ps"
  by (induction ps arbitrary: st ps' rs) (auto split: prod.splits dest: load_profile_marks)

lemma decrypt_enabled:
  "decrypt c f w v st = (st', r) \<Longrightarrow> enabled st' = enabled st"
  by (auto simp: decrypt_def decrypt_chacha20_def dest: load_key_enabled
      split: option.splits if_splits prod.splits sum.splits)

lemma decrypt_field_enabled:
  "decrypt_field w enc v st = (st', r) \<Longrightarrow> enabled st' = enabled st"
  by (auto simp: decrypt_field_def decrypt_opt_secret_def Let_def dest: decrypt_enabled
      split: option.splits if_splits prod.splits sum.splits)

lemma load_profile_enabled:
  assumes "load_profile w enc p st = (st', p', rs, n)"
  shows "enabled st' = enabled st"
proof -
  obtain st1 r1 where d1: "decrypt_field w enc (ap_api_key p) st = (st1, r1)" by force
  obtain st2 r2 where d2: "decrypt_field w enc (ap_refresh p) st1 = (st2, r2)" by force
  have "st' = st2" using assms d1 d2 by (auto simp: load_profile_def split: prod.splits sum.splits)
  then show ?thesis using d1 d2 by (auto dest: decrypt_field_enabled)
qed

lemma load_profiles_enabled:
  "load_profiles w enc ps st = (st', x) \<Longrightarrow> enabled st' = enabled st"
  by (induction ps arbitrary: st x) (auto split: prod.splits dest: load_profile_enabled)

lemma load_from_disk_Ok:
  assumes "load_from_disk w True file st = (st', Ok (loaded, needs))"
  shows "enabled st' = enabled st" "\<not> needs \<Longrightarrow> store_concealed (json w) file"
proof -
  consider "file = NoFile" "st' = st" |
    (contents) t s ps rs where "file = Contents t" "from_json (json w) t = Some s"
      "load_profiles w True (profiles s) st = (st', ps, rs, needs)"
    using assms by (auto simp: load_from_disk_def split: auth_file.splits option.splits prod.splits)
  then have "enabled st' = enabled st \<and> (\<not> needs \<longrightarrow> store_concealed (json w) file)"
    by cases (auto simp: store_concealed_def dest: load_profiles_enabled load_profiles_marks)
  then show "enabled st' = enabled st" "\<not> needs \<Longrightarrow> store_concealed (json w) file" by auto
qed

text \<open>Opening the profile store conceals it. With encryption on, after every successful
  \<open>load_or_init_at\<close> the file on disk holds no API key and no refresh token in the clear: each is
  absent, blank, or under an encryption mark, whatever the file held before; and the store handed
  out is consistent, also when nothing had to be written.
\<close>

theorem load_conceals_secrets:
  assumes "crypto_ok (crypt w)" "codec_ok (json w)" "enabled st"
    and "load_or_init_at w True (file, st) = ((file', st'), Ok store)"
  shows "store_concealed (json w) file' \<and> store_consistent store"
proof -
  obtain st1 loaded needs where l: "load_from_disk w True file st = (st1, Ok (loaded, needs))"
    using assms(4) by (auto simp: load_or_init_at_def split: prod.splits sum.splits)
  note on = load_from_disk_Ok [OF l]
  show ?thesis
  proof (cases "needs \<or> metadata_changed loaded")
    case True
    then obtain fs where s: "save_to_disk w True (normalize_metadata loaded) (file, st1) = (fs, Ok ())"
      and r: "fs = (file', st')" "store = normalize_metadata loaded"
      using assms(4) l by (auto simp: load_or_init_at_def Let_def split: prod.splits sum.splits)
    have "store_concealed (json w) file'"
      using save_concealed_Ok [OF s [unfolded r]] on(1) assms(1-3) by simp
    then show ?thesis using r(2) by (simp add: normalize_metadata_keeps)
  next
    case False
    then show ?thesis using assms(4) l on(2) by (auto simp: load_or_init_at_def normalize_metadata_keeps)
  qed
qed

text \<open>A file with a secret in the clear, and the file the load leaves.\<close>

definition demo_profile :: "rstr \<Rightarrow> auth_profile" where
  "demo_profile key = \<lparr>ap_id = ''main'', ap_provider = ''openai'', ap_route = None, ap_label = None,
     ap_api_key = Some key, ap_refresh = None, ap_scheme = None, ap_source = None, ap_disabled = False\<rparr>"

definition demo_plain :: auth_store where
  "demo_plain = \<lparr>version = 1, defaults = [], order = [], last_good = [], usage = [],
     profiles = [demo_profile ''s3cret'']\<rparr>"

definition demo_saved :: auth_store where
  "demo_saved = \<lparr>version = 1, defaults = [], order = [(''openai'', [''main''])], last_good = [], usage = [],
     profiles = [demo_profile ''enc2:.abcdefghijkls3cret################.'']\<rparr>"

definition demo_outside :: outside where
  "demo_outside = \<lparr>crypt = demo_crypto,
     json = \<lparr>to_json = (\<lambda>s. if s = demo_saved then Some ''new'' else None),
             from_json = (\<lambda>t. if t = ''new'' then Some demo_saved else if t = ''old'' then Some demo_plain
                              else None)\<rparr>,
     fresh_key = replicate 32 (CHR ''k''), key_writable = True, nonce_of = (\<lambda>_. ''abcdefghijkl''),
     fault = None\<rparr>"

definition demo_loaded :: auth_store where
  "demo_loaded = demo_saved\<lparr>profiles := [demo_profile ''s3cret'']\<rparr>"

definition demo_keyed :: secret_store where
  "demo_keyed = \<lparr>key_path_file = KeyText (CHR ''.'' # replicate 32 (CHR ''k'') @ ''.''), enabled = True\<rparr>"

lemma demo_load:
  "load_or_init_at demo_outside True (Contents ''old'', demo_store) = ((Contents ''new'', demo_keyed), Ok demo_loaded)"
proof -
  have l: "load_from_disk demo_outside True (Contents ''old'') demo_store = (demo_store, Ok (demo_plain, True))"
    by code_simp
  have n: "normalize_metadata demo_plain = demo_loaded" by code_simp
  have s: "save_to_disk demo_outside True demo_loaded (Contents ''old'', demo_store) =
      ((Contents ''new'', demo_keyed), Ok ())"
    by code_simp
  show ?thesis unfolding load_or_init_at_def by (simp add: l n s)
qed

theorem load_conceals_secrets_witness:
  "store_concealed (json demo_outside) (Contents ''new'') \<and> store_consistent demo_loaded \<and>
   \<not> store_concealed (json demo_outside) (Contents ''old'')"
proof -
  have "codec_ok (json demo_outside)" "crypto_ok (crypt demo_outside)" "enabled demo_store"
    using demo_crypto_ok by (auto simp: codec_ok_def demo_outside_def demo_store_def split: if_splits)
  moreover have "\<not> store_concealed (json demo_outside) (Contents ''old'')" by code_simp
  ultimately show ?thesis using load_conceals_secrets [OF _ _ _ demo_load] by simp
qed

subsection \<open>What is saved is loaded\<close>

text \<open>Once the key file holds a key, no call changes the secret store.\<close>

definition keyed :: "crypto \<Rightarrow> secret_store \<Rightarrow> rstr \<Rightarrow> bool" where
  "keyed c st k \<longleftrightarrow> (\<exists>t. key_path_file st = KeyText t \<and> hex_dec c (trim t) = Some k)"

definition settled :: "crypto \<Rightarrow> secret_store \<Rightarrow> secret_store \<Rightarrow> bool" where
  "settled c st st' \<longleftrightarrow> enabled st' = enabled st \<and> (\<forall>k. keyed c st k \<longrightarrow> st' = st)"

lemma settled_refl [simp]: "settled c st st"
  by (simp add: settled_def)

lemma settled_trans: "settled c a b \<Longrightarrow> settled c b d \<Longrightarrow> settled c a d"
  by (auto simp: settled_def)

lemma load_key_keyed: "keyed c st k \<Longrightarrow> load_or_create_key c f w st = (st, Ok k)"
  by (auto simp: keyed_def load_or_create_key_def)

lemma load_key_Ok:
  "crypto_ok c \<Longrightarrow> load_or_create_key c f w st = (st', Ok k) \<Longrightarrow> keyed c st' k \<and> settled c st st'"
  by (auto simp: load_or_create_key_def keyed_def settled_def crypto_okD
      split: key_file.splits option.splits if_splits)

text \<open>A secret as the operations of the store leave it: trimmed, and not itself marked as encrypted.\<close>

definition clean_secret :: "rstr option \<Rightarrow> bool" where
  "clean_secret v \<longleftrightarrow>
     (case v of None \<Rightarrow> True | Some s \<Rightarrow> trim s = s \<and> utf8_valid s \<and> \<not> is_encrypted s)"

definition clean_profile :: "auth_profile \<Rightarrow> bool" where
  "clean_profile p \<longleftrightarrow> clean_secret (ap_api_key p) \<and> clean_secret (ap_refresh p)"

lemma field_round_trip:
  assumes c: "crypto_ok (crypt w)" "length (nonce_of w i) = nonce_len" "enabled st" "clean_secret v"
    and e: "encrypt_field w i v st = (st1, Ok x)"
  shows "settled (crypt w) st st1 \<and>
         (settled (crypt w) st1 st2 \<longrightarrow> crypt w' = crypt w \<longrightarrow> decrypt_field w' True x st2 = (st2, Ok (v, False)))"
proof (cases v)
  case None
  then show ?thesis using e
    by (simp add: encrypt_field_def encrypt_opt_secret_def decrypt_field_def decrypt_opt_secret_def)
next
  case (Some s)
  then have s: "trim s = s" "utf8_valid s" "\<not> is_encrypted s" using c(4) by (auto simp: clean_secret_def)
  show ?thesis
  proof (cases "s = []")
    case True
    then show ?thesis using e Some
      by (auto simp: encrypt_field_def encrypt_opt_secret_def decrypt_field_def decrypt_opt_secret_def Let_def)
  next
    case False
    then obtain y where ey: "encrypt (crypt w) (fresh_key w) (key_writable w) (nonce_of w i) s st = (st1, Ok y)"
      and x: "x = Some y"
      using e Some s
      by (auto simp: encrypt_field_def encrypt_opt_secret_def Let_def split: prod.splits sum.splits)
    from ey show ?thesis
    proof (cases rule: encrypt_cases)
      case (sealed key ct)
      have k: "keyed (crypt w) st1 key" "settled (crypt w) st st1"
        using load_key_Ok [OF c(1) sealed(3)] by auto
      have "trim y = y" using trim_marked crypto_okD(2) [OF c(1)] sealed(6) by simp
      moreover have "is_encrypted y" using sealed(6) by (simp add: is_encrypted_def)
      moreover have "decrypt (crypt w) f wr y st1 = (st1, Ok s)" for f wr
        using decrypt_sealed [OF c(1) load_key_keyed [OF k(1)] sealed(4,5) c(2) s(2)] sealed(6) by simp
      moreover have "y \<noteq> []" using sealed(6) by simp
      ultimately show ?thesis using k Some x
        by (auto simp: settled_def decrypt_field_def decrypt_opt_secret_def Let_def)
    qed (use False c(3) in auto)
  qed
qed

lemma profiles_round_trip:
  assumes "crypto_ok (crypt w)" "\<And>i. length (nonce_of w i) = nonce_len" "crypt w' = crypt w"
  shows "encrypt_profiles w ps st = (st1, Ok qs) \<Longrightarrow> enabled st \<Longrightarrow> list_all clean_profile ps \<Longrightarrow>
    settled (crypt w) st st1 \<and>
    (\<forall>st2. settled (crypt w) st1 st2 \<longrightarrow> load_profiles w' True qs st2 = (st2, ps, [], False))"
proof (induction ps arbitrary: st st1 qs)
  case (Cons p ps)
  obtain sa k where k: "encrypt_field w (2 * length ps) (ap_api_key p) st = (sa, Ok k)"
    using Cons.prems(1) by (auto split: prod.splits sum.splits)
  obtain sb r where r: "encrypt_field w (2 * length ps + 1) (ap_refresh p) sa = (sb, Ok r)"
    using Cons.prems(1) k by (auto split: prod.splits sum.splits)
  obtain qs' where q: "encrypt_profiles w ps sb = (st1, Ok qs')"
    and qs: "qs = p\<lparr>ap_api_key := k, ap_refresh := r\<rparr> # qs'"
    using Cons.prems(1) k r by (auto split: prod.splits sum.splits)
  have clean: "clean_secret (ap_api_key p)" "clean_secret (ap_refresh p)" "list_all clean_profile ps"
    using Cons.prems(3) by (simp_all add: clean_profile_def [of p])
  have a: "settled (crypt w) st sa"
    "settled (crypt w) sa st2 \<Longrightarrow> decrypt_field w' True k st2 = (st2, Ok (ap_api_key p, False))" for st2
    using field_round_trip [OF assms(1,2) Cons.prems(2) clean(1) k] assms(3) by simp_all
  have on_a: "enabled sa" using a(1) Cons.prems(2) by (simp add: settled_def)
  have b: "settled (crypt w) sa sb"
    "settled (crypt w) sb st2 \<Longrightarrow> decrypt_field w' True r st2 = (st2, Ok (ap_refresh p, False))" for st2
    using field_round_trip [OF assms(1,2) on_a clean(2) r] assms(3) by simp_all
  have on_b: "enabled sb" using b(1) on_a by (simp add: settled_def)
  have rest: "settled (crypt w) sb st1"
    "settled (crypt w) st1 st2 \<Longrightarrow> load_profiles w' True qs' st2 = (st2, ps, [], False)" for st2
    using Cons.IH [OF q on_b clean(3)] by simp_all
  have "load_profiles w' True qs st2 = (st2, p # ps, [], False)" if s1: "settled (crypt w) st1 st2" for st2
  proof -
    have s2: "settled (crypt w) sb st2" using rest(1) s1 by (rule settled_trans)
    have s3: "settled (crypt w) sa st2" using b(1) s2 by (rule settled_trans)
    show ?thesis using a(2) [OF s3] b(2) [OF s2] rest(2) [OF s1] by (simp add: qs load_profile_def)
  qed
  moreover have "settled (crypt w) st st1"
    using settled_trans [OF settled_trans [OF a(1) b(1)] rest(1)] .
  ultimately show ?case by simp
qed simp

text \<open>C20: nothing is lost between a save and the next start. With encryption on, when a save of a store
  whose secrets are trimmed and unmarked succeeds, loading the file it wrote, at any later time and
  with other random bytes, gives the same store back, secrets included, and asks for nothing to be
  written; the key that the save may have created is the one the load finds.
\<close>

theorem save_load_round_trip:
  assumes "crypto_ok (crypt w)" "codec_ok (json w)" "\<And>i. length (nonce_of w i) = nonce_len" "enabled st"
    and "list_all clean_profile (profiles store)"
    and "save_to_disk w True store (old, st) = ((file', st'), Ok ())"
    and "crypt w' = crypt w" "json w' = json w"
  shows "load_from_disk w' True file' st' = (st', Ok (store, False))"
proof -
  obtain qs where e: "encrypt_profiles w (profiles store) st = (st', Ok qs)"
    using assms(6) by (auto simp: save_to_disk_def split: prod.splits sum.splits if_splits option.splits)
  obtain t where t: "to_json (json w) (store\<lparr>profiles := qs\<rparr>) = Some t" "file' = Contents t"
    using assms(6) e by (auto simp: save_to_disk_def split: if_splits option.splits)
  have "from_json (json w) t = Some (store\<lparr>profiles := qs\<rparr>)"
    using assms(2) t(1) by (simp add: codec_ok_def)
  moreover have "load_profiles w' True qs st' = (st', profiles store, [], False)"
    using profiles_round_trip [OF assms(1,3,7) e assms(4,5)] by simp
  ultimately show ?thesis by (simp add: load_from_disk_def t(2) assms(8))
qed

theorem save_load_round_trip_witness:
  "load_from_disk (demo_outside\<lparr>fresh_key := []\<rparr>) True (Contents ''new'') demo_keyed =
   (demo_keyed, Ok (demo_loaded, False))"
proof (rule save_load_round_trip [where w = demo_outside and st = demo_store and old = NoFile])
  show "crypto_ok (crypt demo_outside)" "codec_ok (json demo_outside)" "enabled demo_store"
    using demo_crypto_ok by (auto simp: codec_ok_def demo_outside_def demo_store_def split: if_splits)
  show "length (nonce_of demo_outside i) = nonce_len" for i by (simp add: demo_outside_def nonce_len_def)
  show "list_all clean_profile (profiles demo_loaded)" by code_simp
  show "save_to_disk demo_outside True demo_loaded (NoFile, demo_store) = ((Contents ''new'', demo_keyed), Ok ())"
    by code_simp
qed simp_all

text \<open>
  A key file that cannot be read is a different matter: the load drops every encrypted secret and
  reports that the file has to be rewritten, so \<open>load_or_init_at\<close> saves the store without them.
\<close>

lemma unreadable_key_drops_secret:
  assumes "key_path_file st = KeyUnreadable" "ap_api_key p = Some v" "trim v = ''enc2:'' @ h"
    "hex_dec (crypt w) h = Some blob" "length blob > nonce_len" "ap_refresh p = None"
  shows "load_profile w True p st =
     (st, p\<lparr>ap_api_key := None, ap_disabled := True\<rparr>,
      [(ap_id p, ''api_key decrypt failed; profile disabled'')], True)"
proof -
  have "strip_prefix ''enc2:'' (''enc2:'' @ h) = Some h" by (simp add: strip_prefix_Some)
  then have d: "decrypt (crypt w) f wr (''enc2:'' @ h) st = (st, Err KeyReadFailed)" for f wr
    unfolding decrypt_def using assms(1,4,5)
    by (simp only: option.case) (simp add: decrypt_chacha20_def load_or_create_key_def)
  have "''enc2:'' @ h \<noteq> []" by simp
  then show ?thesis using assms(2,3,6) d
    unfolding load_profile_def decrypt_field_def decrypt_opt_secret_def
    by (simp del: append.simps add: Let_def)
qed

text \<open>Re-onboarding a profile enables it and clears its cooldown, but keeps the reason it was disabled for.\<close>

definition demo_disabled :: auth_store where
  "demo_disabled = demo_loaded\<lparr>
     profiles := [(demo_profile ''x'')\<lparr>ap_api_key := None, ap_disabled := True\<rparr>],
     usage := [(''main'', usage_default\<lparr>cooldown_until := Some 9,
                                       disabled_reason := Some ''api_key decrypt failed''\<rparr>)]\<rparr>"

lemma upsert_keeps_disabled_reason:
  "upsert_profile (demo_profile ''s3cret'') False demo_disabled =
     (demo_loaded\<lparr>usage := [(''main'', usage_default\<lparr>disabled_reason := Some ''api_key decrypt failed''\<rparr>)]\<rparr>,
      Ok False)"
  by code_simp

end
