(* ===== verification/Text_Lines.thy ===== *)
theory Text_Lines
  imports Rust_Strings
begin

text \<open>
  Rust's \<open>str::lines\<close> and the facts about lines, trimming and appended text that the components
  reading line-based files share.
\<close>

abbreviation nl :: char where
  "nl \<equiv> CHR 0x0A"

definition strip_cr :: "rstr \<Rightarrow> rstr" where
  "strip_cr l = (if l \<noteq> [] \<and> last l = CHR 0x0D then butlast l else l)"

text \<open>A line ends with a newline, with an optional carriage return before it, or with the text.\<close>

function lines :: "rstr \<Rightarrow> rstr list" where
  "lines s =
     (let l = takeWhile (\<lambda>c. c \<noteq> nl) s; rest = dropWhile (\<lambda>c. c \<noteq> nl) s in
      if s = [] then [] else if rest = [] then [l] else strip_cr l # lines (tl rest))"
  by pat_completeness auto
termination
proof (relation "measure length")
  fix l rest s :: rstr
  assume r: "rest = dropWhile (\<lambda>c. c \<noteq> nl) s" "rest \<noteq> []"
  then have "length rest \<le> length s" by (simp add: length_dropWhile_le)
  moreover have "length (tl rest) < length rest" using r(2) by simp
  ultimately show "(tl rest, s) \<in> measure length" by simp
qed simp

declare lines.simps [simp del]

lemma lines_Nil [simp]: "lines [] = []"
  by (simp add: lines.simps)

lemma take_line: "nl \<notin> set l \<Longrightarrow> takeWhile (\<lambda>c. c \<noteq> nl) (l @ nl # r) = l"
  by (induction l) auto

lemma drop_line: "nl \<notin> set l \<Longrightarrow> dropWhile (\<lambda>c. c \<noteq> nl) (l @ nl # r) = nl # r"
  by (induction l) auto

lemma take_all_line: "nl \<notin> set l \<Longrightarrow> takeWhile (\<lambda>c. c \<noteq> nl) l = l"
  by (induction l) auto

lemma drop_all_line: "nl \<notin> set l \<Longrightarrow> dropWhile (\<lambda>c. c \<noteq> nl) l = []"
  by (induction l) auto

lemma lines_single: "nl \<notin> set l \<Longrightarrow> l \<noteq> [] \<Longrightarrow> lines l = [l]"
  by (simp add: lines.simps [of l] take_all_line drop_all_line)

lemma lines_cons: "nl \<notin> set l \<Longrightarrow> lines (l @ nl # r) = strip_cr l # lines r"
  by (simp add: lines.simps [of "l @ nl # r"] take_line drop_line)

lemma line_split: "nl \<in> set s \<Longrightarrow> \<exists>l r. s = l @ nl # r \<and> nl \<notin> set l"
  by (meson split_list_first)

text \<open>Text after a newline adds its own lines.\<close>

lemma lines_append: "lines (a @ nl # b) = lines (a @ [nl]) @ lines b"
proof (induction a rule: length_induct)
  case (1 a)
  show ?case
  proof (cases "nl \<in> set a")
    case True
    then obtain l r where a: "a = l @ nl # r" "nl \<notin> set l" using line_split by blast
    then have "lines (r @ nl # b) = lines (r @ [nl]) @ lines b" using "1.IH" by simp
    then show ?thesis using a lines_cons [of l "r @ nl # b"] lines_cons [of l "r @ [nl]"] by simp
  next
    case False
    then show ?thesis using lines_cons [of a b] lines_cons [of a "[]"] by simp
  qed
qed

lemma lines_no_nl: "l \<in> set (lines s) \<Longrightarrow> nl \<notin> set l"
proof (induction s rule: length_induct)
  case (1 s)
  show ?case
  proof (cases "nl \<in> set s")
    case True
    then obtain l' r where s: "s = l' @ nl # r" "nl \<notin> set l'" using line_split by blast
    have "nl \<notin> set (strip_cr l')" using s(2) by (auto simp: strip_cr_def dest: in_set_butlastD)
    then show ?thesis using 1 s lines_cons [of l' r] by auto
  next
    case False
    then show ?thesis using 1 by (cases "s = []") (auto simp: lines_single)
  qed
qed

subsection \<open>The first character of a UTF-8 text\<close>

definition char_len :: "char \<Rightarrow> nat" where
  "char_len c = (if byte c < 192 then 1 else if byte c < 224 then 2 else if byte c < 240 then 3 else 4)"

fun next_char :: "rstr \<Rightarrow> (rstr \<times> rstr) option" where
  "next_char [] = None"
| "next_char (c # s) = Some (take (char_len c) (c # s), drop (char_len c) (c # s))"

lemma next_char_shorter: "next_char s = Some (a, t) \<Longrightarrow> length t < length s"
  by (cases s) (auto simp: char_len_def)

subsection \<open>Trimming an appended blank\<close>

lemma split_ws_from_not_Nil: "w \<noteq> [] \<Longrightarrow> split_ws_from w s \<noteq> []"
proof (induction w s rule: split_ws_from.induct)
  case (1 w s)
  show ?case
  proof (cases s)
    case (Cons c t)
    then show ?thesis using 1
      by (cases "ws_len s = 0") (simp_all add: split_ws_from_char split_ws_from_ws)
  qed (simp add: 1)
qed

lemma split_ws_Nil_iff: "split_ws_from [] s = [] \<longleftrightarrow> trim_start s = []"
proof
  assume "split_ws_from [] s = []"
  then have e: "split_ws_from [] (trim_start s) = []" by (simp add: split_ws_from_trim_start)
  show "trim_start s = []"
  proof (cases "trim_start s")
    case (Cons c t)
    then have "split_ws_from [] (c # t) = split_ws_from [c] t"
      using ws_len_trim_start [of s] by (simp add: split_ws_from_char)
    then show ?thesis using e Cons by (simp add: split_ws_from_not_Nil)
  qed
qed (rule split_ws_from_blank)

lemma trim_start_append_blank:
  "trim_start y = [] \<Longrightarrow> trim_start (s @ y) = [] \<longleftrightarrow> trim_start s = []"
  by (simp flip: split_ws_Nil_iff add: split_ws_from_append_blank)

lemma trim_end_append_blank: "trim_start y = [] \<Longrightarrow> trim_end (s @ y) = trim_end s"
proof (induction s)
  case Nil
  then show ?case by (cases y) simp_all
next
  case (Cons c s)
  then show ?case using trim_start_append_blank [of y "c # s"] by simp
qed

lemma trim_start_append_rest:
  "trim_start s \<noteq> [] \<Longrightarrow> trim_start y = [] \<Longrightarrow> trim_start (s @ y) = trim_start s @ y"
proof (induction s rule: trim_start.induct)
  case (1 s)
  show ?case
  proof (cases "ws_len s = 0")
    case True
    then have s: "s \<noteq> []" using "1.prems"(1) by (auto simp: trim_start_id)
    have "ws_len (s @ y) = 0"
    proof (cases y)
      case (Cons x y')
      have "ws_len y \<noteq> 0" using "1.prems"(2) Cons trim_start_id [of y] by fastforce
      then have "ws_lead x" using Cons ws_lead_head by blast
      then show ?thesis using True s Cons ws_len_append_lead by simp
    qed (simp add: True)
    then show ?thesis using True by (simp add: trim_start_id)
  next
    case False
    then have "trim_start (s @ y) = trim_start (drop (ws_len s) s @ y)"
      using ws_len_le [of s] by (subst trim_start.simps) (simp add: ws_len_append)
    also have "\<dots> = trim_start (drop (ws_len s) s) @ y"
      using 1 False by (simp add: trim_start.simps [of s])
    finally show ?thesis using False by (simp add: trim_start.simps [of s])
  qed
qed

lemma trim_append_blank:
  assumes "trim_start y = []"
  shows "trim (s @ y) = trim s"
proof (cases "trim_start s = []")
  case True
  then show ?thesis using assms by (simp add: trim_def trim_start_append)
next
  case False
  then show ?thesis using assms by (simp add: trim_def trim_start_append_rest trim_end_append_blank)
qed

lemma trim_strip_cr [simp]: "trim (strip_cr l) = trim l"
proof (cases "l \<noteq> [] \<and> last l = CHR 0x0D")
  case True
  have "trim_start [CHR 0x0D] = []" by code_simp
  then have "trim (butlast l @ [CHR 0x0D]) = trim (butlast l)" by (rule trim_append_blank)
  then show ?thesis using True append_butlast_last_id [of l] by (simp add: strip_cr_def)
next
  case False
  then have "strip_cr l = l" by (simp only: strip_cr_def if_False)
  then show ?thesis by (rule arg_cong)
qed

text \<open>A final newline or carriage return changes no line but for the trimming.\<close>

lemma trim_lines_final: "filter (\<lambda>l. l \<noteq> []) (map trim (lines (a @ [nl]))) = filter (\<lambda>l. l \<noteq> []) (map trim (lines a))"
proof (induction a rule: length_induct)
  case (1 a)
  show ?case
  proof (cases "nl \<in> set a")
    case True
    then obtain l r where a: "a = l @ nl # r" "nl \<notin> set l" using line_split by blast
    then show ?thesis using "1.IH" lines_cons [of l r] lines_cons [of l "r @ [nl]"] by simp
  next
    case False
    have "trim [] = []" by code_simp
    then show ?thesis using False lines_cons [of a "[]"] by (cases "a = []") (simp_all add: lines_single)
  qed
qed

text \<open>Text without white space is trimmed.\<close>

lemma trim_plain: "list_all (\<lambda>c. \<not> ws_byte c) s \<Longrightarrow> trim s = s"
proof -
  assume p: "list_all (\<lambda>c. \<not> ws_byte c) s"
  have "ws_len s = 0"
  proof (rule ccontr)
    assume "ws_len s \<noteq> 0"
    then have "take (ws_len s) s \<noteq> []" using ws_len_le [of s] by auto
    then obtain c where "c \<in> set (take (ws_len s) s)" by (meson hd_in_set)
    then show False using ws_len_bytes p by (auto simp: list_all_iff dest: in_set_takeD)
  qed
  moreover have "trim_end s = s" using p
  proof (induction s)
    case (Cons c s)
    then have "trim_start (c # s) \<noteq> []" using trim_start_Nil_bytes [of "c # s" c] by auto
    then show ?case using Cons by simp
  qed simp
  ultimately show ?thesis by (simp add: trim_def trim_start_id)
qed

end
