(* ===== verification/Memory_Ingress.thy ===== *)
theory Memory_Ingress
  imports Write_Policy Text_Lines
begin

text \<open>
  What happens to a memory event before a backend stores it: \<open>normalize_for_ingress\<close> with the
  identifier rules (\<open>src/src/core/memory/identifier.rs\<close>,
  \<open>src/src/core/memory/memory_types/ingress.rs\<close>). Scores are rationals here, hence finite, and the
  score constructors have clamped them, so the two score checks cannot fail.
\<close>

definition identifier_char :: "bool \<Rightarrow> char \<Rightarrow> bool" where
  "identifier_char allow_slash c \<longleftrightarrow>
     is_ascii_alphanumeric c \<or> c \<in> {CHR ''.'', CHR ''_'', CHR ''-'', CHR '':''} \<or>
     (allow_slash \<and> c = CHR ''/'')"

text \<open>
  The loop over the characters; a character outside ASCII is several bytes here, none of them
  allowed, and a run of those becomes one underscore either way.
\<close>

fun collapse :: "bool \<Rightarrow> bool \<Rightarrow> rstr \<Rightarrow> rstr" where
  "collapse allow_slash last_underscore [] = []"
| "collapse allow_slash last_underscore (c # s) =
     (if identifier_char allow_slash c then c # collapse allow_slash False s
      else if \<not> last_underscore then CHR ''_'' # collapse allow_slash True s
      else collapse allow_slash last_underscore s)"

definition trim_char :: "char \<Rightarrow> rstr \<Rightarrow> rstr" where
  "trim_char c s = rev (dropWhile (\<lambda>x. x = c) (rev (dropWhile (\<lambda>x. x = c) s)))"

definition normalize_identifier :: "rstr \<Rightarrow> bool \<Rightarrow> rstr" where
  "normalize_identifier raw allow_slash = trim_char (CHR ''_'') (collapse allow_slash False (trim raw))"

definition normalize_entity_id :: "rstr \<Rightarrow> (memory_error, rstr) result" where
  "normalize_entity_id raw =
     (let n = normalize_identifier raw False in
      if n = [] then Err (ValidationErr ''memory_event_input.entity_id must not be empty'')
      else if length n > 128 then Err (ValidationErr ''memory_event_input.entity_id must be <= 128 chars'')
      else Ok n)"

fun is_valid_slot_key_pattern :: "rstr \<Rightarrow> bool" where
  "is_valid_slot_key_pattern [] = False"
| "is_valid_slot_key_pattern (c # s) \<longleftrightarrow> is_ascii_alphanumeric c \<and> list_all (identifier_char True) s"

definition normalize_slot_key :: "rstr \<Rightarrow> (memory_error, rstr) result" where
  "normalize_slot_key raw =
     (let n = normalize_identifier raw True in
      if n = [] then Err (ValidationErr ''memory_event_input.slot_key must not be empty'')
      else if length n > 256 then Err (ValidationErr ''memory_event_input.slot_key must be <= 256 chars'')
      else if \<not> is_valid_slot_key_pattern n
      then Err (ValidationErr ''memory_event_input.slot_key must match taxonomy pattern'')
      else Ok n)"

definition validate_provenance :: "memory_source \<Rightarrow> memory_provenance \<Rightarrow> (memory_error, unit) result" where
  "validate_provenance src p =
     (if source_class p \<noteq> src
      then Err (ValidationErr ''memory_event_input.provenance.source_class must match memory_event_input.source'')
      else if trim (prov_reference p) = []
      then Err (ValidationErr ''memory_event_input.provenance.reference must not be empty'')
      else if length (prov_reference p) > 256
      then Err (ValidationErr ''memory_event_input.provenance.reference must be <= 256 chars'')
      else (case evidence_uri p of
        Some u \<Rightarrow> if trim u = []
                  then Err (ValidationErr ''memory_event_input.provenance.evidence_uri must not be empty'')
                  else Ok ()
      | None \<Rightarrow> Ok ()))"

definition normalize_for_ingress :: "memory_event \<Rightarrow> (memory_error, memory_event) result" where
  "normalize_for_ingress e =
     (case normalize_entity_id (event_entity e) of
        Err x \<Rightarrow> Err x
      | Ok entity \<Rightarrow>
          (case normalize_slot_key (event_slot e) of
             Err x \<Rightarrow> Err x
           | Ok slot \<Rightarrow>
               let e' = e\<lparr>event_entity := entity, event_slot := slot,
                          event_confidence := score_new (event_confidence e),
                          event_importance := score_new (event_importance e)\<rparr> in
               (case event_provenance e of
                  None \<Rightarrow> Ok e'
                | Some p \<Rightarrow>
                    (case validate_provenance (event_source e) p of Err x \<Rightarrow> Err x | Ok _ \<Rightarrow> Ok e'))))"

subsection \<open>Identifiers\<close>

lemma identifier_char_underscore [simp]: "identifier_char b (CHR ''_'')"
  by (simp add: identifier_char_def)

lemma collapse_chars: "list_all (identifier_char b) (collapse b u s)"
  by (induction b u s rule: collapse.induct) auto

lemma collapse_id: "list_all (identifier_char b) s \<Longrightarrow> collapse b u s = s"
  by (induction s arbitrary: u) auto

lemma set_trim_char: "set (trim_char c s) \<subseteq> set s"
proof -
  have d: "set (dropWhile P xs) \<subseteq> set xs" for P and xs :: rstr by (auto dest: set_dropWhileD)
  have "set (trim_char c s) \<subseteq> set (dropWhile (\<lambda>x. x = c) s)"
    using d [of "\<lambda>x. x = c" "rev (dropWhile (\<lambda>x. x = c) s)"] by (simp add: trim_char_def)
  then show ?thesis using d by blast
qed

lemma list_all_subset: "list_all P s \<Longrightarrow> set t \<subseteq> set s \<Longrightarrow> list_all P t"
  by (auto simp: list_all_iff)

lemma normalize_identifier_chars: "list_all (identifier_char b) (normalize_identifier raw b)"
  unfolding normalize_identifier_def by (rule list_all_subset [OF collapse_chars set_trim_char])

lemma identifier_not_ws: "identifier_char b c \<Longrightarrow> \<not> ws_byte c"
  by (auto simp: identifier_char_def is_ascii_alphanumeric_def is_ascii_alphabetic_def is_ascii_digit_def
      ws_byte_def is_ascii_ws_def byte_def)

lemma trim_identifier: "list_all (identifier_char b) s \<Longrightarrow> trim s = s"
  by (rule trim_plain) (auto simp: list_all_iff dest: identifier_not_ws)

lemma dropWhile_twice [simp]: "dropWhile P (dropWhile P s) = dropWhile P s"
  by (induction s) auto

lemma rev_dropWhile_prefix: "\<exists>u. s = rev (dropWhile P (rev s)) @ u"
  by (metis rev_append rev_rev_ident takeWhile_dropWhile_id)

lemma trim_char_ends:
  assumes "trim_char c s \<noteq> []"
  shows "hd (trim_char c s) \<noteq> c \<and> last (trim_char c s) \<noteq> c"
proof -
  define a where "a = dropWhile (\<lambda>x. x = c) s"
  have t: "trim_char c s = rev (dropWhile (\<lambda>x. x = c) (rev a))" by (simp add: trim_char_def a_def)
  then have b: "dropWhile (\<lambda>x. x = c) (rev a) \<noteq> []" using assms by simp
  then have last: "last (trim_char c s) \<noteq> c"
    using hd_dropWhile [OF b] unfolding t by (simp add: last_rev)
  obtain u where u: "a = trim_char c s @ u" using rev_dropWhile_prefix t by metis
  then have "a \<noteq> []" and "hd (trim_char c s) = hd a" using assms by (auto simp: hd_append)
  then show ?thesis using last hd_dropWhile [of "\<lambda>x. x = c" s] by (simp add: a_def)
qed

lemma dropWhile_hd: "s = [] \<or> hd s \<noteq> c \<Longrightarrow> dropWhile (\<lambda>x. x = c) s = s"
  by (cases s) auto

lemma trim_char_id: "s = [] \<or> hd s \<noteq> c \<and> last s \<noteq> c \<Longrightarrow> trim_char c s = s"
  by (auto simp: trim_char_def dropWhile_hd hd_rev)

lemma normalize_identifier_idem [simp]:
  "normalize_identifier (normalize_identifier raw b) b = normalize_identifier raw b"
proof -
  let ?n = "normalize_identifier raw b"
  have "list_all (identifier_char b) ?n" by (rule normalize_identifier_chars)
  moreover have "trim_char (CHR ''_'') ?n = ?n"
    unfolding normalize_identifier_def using trim_char_ends by (intro trim_char_id) blast
  ultimately show ?thesis
    by (simp add: normalize_identifier_def [of ?n] trim_identifier collapse_id)
qed

subsection \<open>Normalized events\<close>

lemma normalize_entity_id_Ok:
  "normalize_entity_id raw = Ok n \<Longrightarrow>
   n = normalize_identifier raw False \<and> list_all (identifier_char False) n \<and> n \<noteq> [] \<and> length n \<le> 128"
  by (auto simp: normalize_entity_id_def Let_def normalize_identifier_chars split: if_splits)

lemma normalize_slot_key_Ok:
  "normalize_slot_key raw = Ok n \<Longrightarrow>
   n = normalize_identifier raw True \<and> list_all (identifier_char True) n \<and> n \<noteq> [] \<and> length n \<le> 256"
  by (auto simp: normalize_slot_key_def Let_def normalize_identifier_chars split: if_splits)

lemma score_new_idem [simp]: "score_new (score_new q) = score_new q"
  by (simp add: score_new_def)

lemma normalize_for_ingress_Ok:
  assumes "normalize_for_ingress e = Ok e'"
  shows "normalize_entity_id (event_entity e) = Ok (event_entity e')"
    "normalize_slot_key (event_slot e) = Ok (event_slot e')"
    "e' = e\<lparr>event_entity := event_entity e', event_slot := event_slot e',
            event_confidence := score_new (event_confidence e),
            event_importance := score_new (event_importance e)\<rparr>"
    "event_provenance e = Some p \<Longrightarrow> validate_provenance (event_source e) p = Ok ()"
  using assms
  by (auto simp: normalize_for_ingress_def Let_def split: sum.splits option.splits)

subsection \<open>What becomes of an identifier\<close>

text \<open>
  The identifier that a text stands for, said without the loop: its maximal runs of allowed characters, in
  their order, joined by one underscore, without the underscores at both ends.
\<close>

function allowed_runs :: "bool \<Rightarrow> rstr \<Rightarrow> rstr list" where
  "allowed_runs b s =
     (case dropWhile (\<lambda>c. \<not> identifier_char b c) s of
        [] \<Rightarrow> []
      | c # t \<Rightarrow> (c # takeWhile (identifier_char b) t) # allowed_runs b (dropWhile (identifier_char b) t))"
  by pat_completeness auto
termination
proof (relation "measure (\<lambda>(b, s). length s)", simp)
  fix b s c and t :: rstr
  assume "dropWhile (\<lambda>c. \<not> identifier_char b c) s = c # t"
  then have "length (c # t) \<le> length s" by (metis length_dropWhile_le)
  then show "((b, dropWhile (identifier_char b) t), b, s) \<in> measure (\<lambda>(b, s). length s)"
    using length_dropWhile_le [of "identifier_char b" t] by simp
qed

declare allowed_runs.simps [simp del]

definition spelled_identifier :: "bool \<Rightarrow> rstr \<Rightarrow> rstr" where
  "spelled_identifier b raw = trim_char (CHR ''_'') (join ''_'' (allowed_runs b raw))"

abbreviation barred :: "bool \<Rightarrow> rstr \<Rightarrow> bool" where
  "barred b s \<equiv> list_all (\<lambda>c. \<not> identifier_char b c) s"

lemma allowed_runs_barred: "barred b x \<Longrightarrow> allowed_runs b (x @ s) = allowed_runs b s"
  by (simp add: allowed_runs.simps [of b "x @ s"] allowed_runs.simps [of b s] dropWhile_append list_all_iff)

lemma allowed_runs_append: "barred b y \<Longrightarrow> allowed_runs b (s @ y) = allowed_runs b s"
proof (induction b s rule: allowed_runs.induct)
  case (1 b s)
  show ?case
  proof (cases "dropWhile (\<lambda>c. \<not> identifier_char b c) s")
    case Nil
    then have "barred b s" by (simp add: list_all_iff)
    then show ?thesis
      using "1.prems" allowed_runs_barred [of b "s @ y" "[]"] allowed_runs_barred [of b s "[]"] by simp
  next
    case (Cons c t)
    have drop: "dropWhile (\<lambda>c. \<not> identifier_char b c) (s @ y) = c # t @ y"
      using Cons by (metis append_Cons dropWhile_append dropWhile_eq_Nil_conv list.distinct(1))
    have "takeWhile (identifier_char b) (t @ y) = takeWhile (identifier_char b) t"
      using "1.prems" by (cases y) (auto simp: takeWhile_append takeWhile_eq_all_conv [THEN iffD2])
    moreover have "allowed_runs b (dropWhile (identifier_char b) (t @ y)) = allowed_runs b (dropWhile (identifier_char b) t)"
    proof (cases "list_all (identifier_char b) t")
      case True
      then have "dropWhile (identifier_char b) (t @ y) = y" "dropWhile (identifier_char b) t = []"
        using "1.prems" by (cases y; auto simp: dropWhile_append list_all_iff)+
      then show ?thesis using allowed_runs_barred [OF "1.prems", of "[]"] by (simp only: append_Nil2)
    next
      case False
      then have "dropWhile (identifier_char b) (t @ y) = dropWhile (identifier_char b) t @ y"
        by (auto simp: dropWhile_append list_all_iff)
      then show ?thesis using "1.IH" [OF Cons] "1.prems" by simp
    qed
    ultimately show ?thesis
      by (simp add: allowed_runs.simps [of b "s @ y"] allowed_runs.simps [of b s] drop Cons)
  qed
qed

lemma trim_start_split: "\<exists>x. s = x @ trim_start s \<and> list_all ws_byte x"
proof (induction s rule: trim_start.induct)
  case (1 s)
  show ?case
  proof (cases "ws_len s = 0")
    case False
    then obtain x where x: "drop (ws_len s) s = x @ trim_start (drop (ws_len s) s)" "list_all ws_byte x"
      using "1.IH" by blast
    have "s = (take (ws_len s) s @ x) @ trim_start s"
      using x(1) False by (metis append.assoc append_take_drop_id trim_start.simps)
    moreover have "list_all ws_byte (take (ws_len s) s)" by (auto simp: list_all_iff dest: ws_len_bytes)
    ultimately show ?thesis using x(2) by (metis list_all_append)
  qed (auto simp: trim_start_id intro!: exI [of _ "[]"])
qed

lemma allowed_runs_trim: "allowed_runs b (trim s) = allowed_runs b s"
proof -
  have ws: "list_all ws_byte x \<Longrightarrow> barred b x" for x
    by (auto simp: list_all_iff dest: identifier_not_ws)
  obtain x where x: "s = x @ trim_start s" "list_all ws_byte x" using trim_start_split by blast
  obtain y where y: "trim_start s = trim s @ y" "trim_start y = []"
    using trim_end_split [of "trim_start s"] by (auto simp: trim_def)
  have "list_all ws_byte y" using trim_start_Nil_bytes [OF y(2)] by (simp add: list_all_iff)
  then show ?thesis
    using x y(1) ws allowed_runs_barred [of b x "trim_start s"] allowed_runs_append [of b y "trim s"] by metis
qed

lemma collapse_barred: "barred b x \<Longrightarrow> collapse b u (x @ s) = (if x = [] \<or> u then [] else ''_'') @ collapse b (u \<or> x \<noteq> []) s"
  by (induction x arbitrary: u) auto

lemma collapse_run: "list_all (identifier_char b) w \<Longrightarrow> w \<noteq> [] \<Longrightarrow> collapse b u (w @ s) = w @ collapse b False s"
  by (induction w arbitrary: u) (auto, metis append_Nil)

text \<open>The loop writes the runs with one underscore between them, and at most one more at each end.\<close>

lemma collapse_runs:
  "\<exists>post. list_all (\<lambda>c. c = CHR ''_'') post \<and>
     collapse b u s =
       (if s = [] \<or> u \<or> identifier_char b (hd s) then [] else ''_'') @ join ''_'' (allowed_runs b s) @ post"
proof (induction b s arbitrary: u rule: allowed_runs.induct)
  case (1 b s)
  define x where "x = takeWhile (\<lambda>c. \<not> identifier_char b c) s"
  have x: "barred b x" using set_takeWhileD by (auto simp: x_def list_all_iff dest: set_takeWhileD)
  show ?case
  proof (cases "dropWhile (\<lambda>c. \<not> identifier_char b c) s")
    case Nil
    then have s: "s = x" using takeWhile_dropWhile_id [of "\<lambda>c. \<not> identifier_char b c" s] unfolding x_def by (metis append_Nil2)
    have "collapse b u s = (if s = [] \<or> u then [] else ''_'')" using collapse_barred [OF x, of u "[]"] s by simp
    moreover have "s \<noteq> [] \<Longrightarrow> \<not> identifier_char b (hd s)" using x s by (cases s) auto
    moreover have "allowed_runs b s = []" by (subst allowed_runs.simps) (simp only: Nil list.case)
    ultimately show ?thesis by auto
  next
    case (Cons c t)
    define w where "w = takeWhile (identifier_char b) t"
    define r where "r = dropWhile (identifier_char b) t"
    have c: "identifier_char b c" using Cons hd_dropWhile [of "\<lambda>c. \<not> identifier_char b c" s] by simp
    have w: "list_all (identifier_char b) (c # w)" using c by (auto simp: w_def list_all_iff dest: set_takeWhileD)
    have s: "s = x @ (c # w) @ r"
      using takeWhile_dropWhile_id [of "\<lambda>c. \<not> identifier_char b c" s] Cons by (simp add: x_def w_def r_def)
    obtain post where post: "list_all (\<lambda>c. c = CHR ''_'') post"
        "collapse b False r = (if r = [] \<or> identifier_char b (hd r) then [] else ''_'') @ join ''_'' (allowed_runs b r) @ post"
      using "1.IH" [OF Cons, of False] by (auto simp: r_def)
    have r: "r \<noteq> [] \<Longrightarrow> \<not> identifier_char b (hd r)" by (simp add: r_def hd_dropWhile)
    have runs: "allowed_runs b s = (c # w) # allowed_runs b r"
      by (simp add: allowed_runs.simps [of b s] Cons w_def r_def)
    have first: "collapse b u s = (if x = [] \<or> u then [] else ''_'') @ (c # w) @ collapse b False r"
      unfolding s using collapse_barred [OF x, of u "(c # w) @ r"] collapse_run [OF w, of "u \<or> x \<noteq> []" r] by simp
    have hd: "(s = [] \<or> u \<or> identifier_char b (hd s)) = (x = [] \<or> u)"
      using x c by (cases x) (auto simp: s)
    have "\<exists>post'. list_all (\<lambda>c. c = CHR ''_'') post' \<and>
        (c # w) @ collapse b False r = join ''_'' (allowed_runs b s) @ post'"
    proof (cases "allowed_runs b r")
      case Nil
      then show ?thesis using post r by (auto simp: runs)
    next
      case (Cons v vs)
      then have "r \<noteq> []" by (auto simp: allowed_runs.simps [of b r])
      with r Cons post show ?thesis by (auto simp: runs)
    qed
    then show ?thesis unfolding first hd by (metis append.assoc)
  qed
qed

lemma trim_char_around:
  assumes "list_all (\<lambda>x. x = c) p" "list_all (\<lambda>x. x = c) q"
  shows "trim_char c (p @ s @ q) = trim_char c s"
proof (cases "list_all (\<lambda>x. x = c) s")
  case True
  then have "trim_char c (p @ s @ q) = []" "trim_char c s = []"
    using assms by (auto simp: trim_char_def list_all_iff dest: set_dropWhileD)
  then show ?thesis by simp
next
  case False
  have "dropWhile (\<lambda>x. x = c) (p @ s @ q) = dropWhile (\<lambda>x. x = c) s @ q"
    using assms(1) False by (auto simp: dropWhile_append list_all_iff)
  moreover have "dropWhile (\<lambda>x. x = c) (rev q @ t) = dropWhile (\<lambda>x. x = c) t" for t
    using assms(2) by (auto simp: dropWhile_append list_all_iff)
  ultimately show ?thesis by (simp add: trim_char_def)
qed

lemma normalize_identifier_spelled: "normalize_identifier raw b = spelled_identifier b raw"
proof -
  let ?p = "if trim raw = [] \<or> identifier_char b (hd (trim raw)) then [] else ''_''"
  have "list_all (\<lambda>c. c = CHR ''_'') ?p" by simp
  moreover obtain post where "list_all (\<lambda>c. c = CHR ''_'') post"
      "collapse b False (trim raw) = ?p @ join ''_'' (allowed_runs b raw) @ post"
    using collapse_runs [of b False "trim raw"] unfolding allowed_runs_trim by auto
  ultimately show ?thesis
    unfolding normalize_identifier_def spelled_identifier_def by (metis trim_char_around)
qed

text \<open>C39: what enters the write path is normalized, and otherwise as it was sent. An accepted event is the
  event that was sent with four fields replaced: the entity id and the slot key by the identifiers that
  their texts spell, which are their maximal runs of allowed characters joined by single underscores,
  and the two scores by their clamped values; its type, value, source, privacy, layer, provenance and
  the rest are the ones sent. The entity id has 1 to 128 and the slot key 1 to 256 bytes over letters,
  digits and \<open>. _ - :\<close> (slot keys also \<open>/\<close>), so neither can hold a space, a newline or an asterisk, and a
  second pass accepts the result and changes nothing.
\<close>

theorem ingress_normalizes:
  assumes "normalize_for_ingress e = Ok e'"
  shows "e' = e\<lparr>event_entity := spelled_identifier False (event_entity e),
                event_slot := spelled_identifier True (event_slot e),
                event_confidence := max 0 (min 1 (event_confidence e)),
                event_importance := max 0 (min 1 (event_importance e))\<rparr> \<and>
     normalize_for_ingress e' = Ok e' \<and>
     list_all (identifier_char False) (event_entity e') \<and> event_entity e' \<noteq> [] \<and> length (event_entity e') \<le> 128 \<and>
     list_all (identifier_char True) (event_slot e') \<and> event_slot e' \<noteq> [] \<and> length (event_slot e') \<le> 256"
proof -
  note ok = normalize_for_ingress_Ok [OF assms]
  note n = normalize_entity_id_Ok [OF ok(1)] and k = normalize_slot_key_Ok [OF ok(2)]
  have same: "event_provenance e' = event_provenance e" "event_source e' = event_source e"
    "event_confidence e' = score_new (event_confidence e)"
    "event_importance e' = score_new (event_importance e)"
    by (subst ok(3), simp)+
  have "normalize_entity_id (event_entity e') = Ok (event_entity e')"
    using ok(1) n by (simp add: normalize_entity_id_def Let_def)
  moreover have "normalize_slot_key (event_slot e') = Ok (event_slot e')"
    using ok(2) k by (simp add: normalize_slot_key_def Let_def split: if_splits)
  moreover have "event_provenance e' = Some p \<Longrightarrow> validate_provenance (event_source e') p = Ok ()" for p
    using ok(4) same by simp
  ultimately have "normalize_for_ingress e' = Ok e'"
    using same by (auto simp: normalize_for_ingress_def Let_def split: option.splits)
  moreover have "e' = e\<lparr>event_entity := spelled_identifier False (event_entity e),
      event_slot := spelled_identifier True (event_slot e), event_confidence := max 0 (min 1 (event_confidence e)),
      event_importance := max 0 (min 1 (event_importance e))\<rparr>"
    using ok(3) n k by (simp add: normalize_identifier_spelled score_new_def)
  ultimately show ?thesis using n k by blast
qed

definition demo_event :: memory_event where
  "demo_event = memory_event_new ''2024-01-02'' '' person alice!'' ''profile name'' FactAdded ''Alice''
     ExplicitUser Private"

theorem ingress_normalizes_witness:
  "spelled_identifier False '' person alice!'' = ''person_alice'' \<and>
   normalize_for_ingress (demo_event\<lparr>event_entity := ''person_alice'', event_slot := ''profile_name''\<rparr>) =
     Ok (demo_event\<lparr>event_entity := ''person_alice'', event_slot := ''profile_name''\<rparr>)"
proof -
  have "normalize_for_ingress demo_event =
      Ok (demo_event\<lparr>event_entity := ''person_alice'', event_slot := ''profile_name''\<rparr>)"
    by code_simp
  note norm = ingress_normalizes [OF this]
  have "event_entity demo_event = '' person alice!''" by (simp add: demo_event_def memory_event_new_def)
  then have "''person_alice'' = spelled_identifier False '' person alice!''"
    using norm [THEN conjunct1, THEN arg_cong, of event_entity] by simp
  then show ?thesis using norm [THEN conjunct2, THEN conjunct1] by simp
qed

subsection \<open>Tenant scope and normalization\<close>

text \<open>
  The scope check of a call sees the entity id as it was sent, the backend stores it normalized. An
  id inside its tenant by the separator \<open>:\<close> stays inside; one that uses \<open>/\<close> does not.
\<close>

lemma collapse_append_id:
  "list_all (identifier_char b) s \<Longrightarrow> s \<noteq> [] \<Longrightarrow> collapse b u (s @ t) = s @ collapse b False t"
  by (induction s arbitrary: u) (auto, metis append_Nil)

lemma trim_char_prefix:
  assumes "p \<noteq> []" "hd p \<noteq> c" "last p \<noteq> c"
  shows "\<exists>r'. trim_char c (p @ r) = p @ r'"
proof -
  have "dropWhile (\<lambda>x. x = c) (p @ r) = p @ r" using assms(1,2) by (cases p) auto
  moreover have "dropWhile (\<lambda>x. x = c) (rev r @ rev p) =
      (if \<forall>x \<in> set r. x = c then rev p else dropWhile (\<lambda>x. x = c) (rev r) @ rev p)"
    using assms(1,3) dropWhile_hd [of "rev p" c] by (auto simp: dropWhile_append hd_rev)
  ultimately show ?thesis by (auto simp: trim_char_def)
qed

lemma normalized_stays_in_scope:
  assumes "list_all (identifier_char False) tid" "tid \<noteq> []" "hd tid \<noteq> CHR ''_''"
    and "trim raw = tid @ CHR '':'' # rest"
  shows "in_tenant_scope tid (normalize_identifier raw False)"
proof -
  have "list_all (identifier_char False) (tid @ '':'')"
    using assms(1) by (simp add: identifier_char_def)
  from collapse_append_id [OF this, of False rest]
  have "collapse False False (trim raw) = (tid @ '':'') @ collapse False False rest"
    using assms(4) by simp
  moreover obtain r' where "trim_char (CHR ''_'') ((tid @ '':'') @ collapse False False rest) = (tid @ '':'') @ r'"
    using trim_char_prefix [of "tid @ '':''" "CHR ''_''" "collapse False False rest"] assms(2,3) by auto
  ultimately have "normalize_identifier raw False = tid @ '':'' @ r'" by (simp add: normalize_identifier_def)
  then have "strip_prefix tid (normalize_identifier raw False) = Some ('':'' @ r')"
    by (simp add: strip_prefix_Some)
  then show ?thesis unfolding in_tenant_scope_def by simp
qed

lemma slash_leaves_scope:
  "in_tenant_scope ''acme'' ''acme/x'' \<and> normalize_identifier ''acme/x'' False = ''acme_x'' \<and>
   \<not> in_tenant_scope ''acme'' ''acme_x'' \<and> in_tenant_scope ''acme_x'' ''acme_x''"
  by code_simp

end
