(* ===== verification/Text_Utils.thy ===== *)
theory Text_Utils
  imports Text_Lines
begin

text \<open>
  The text helpers of \<open>src/src/utils/text.rs\<close> that stand between the model's output and the user:
  one-line prompt text, slugs, character boundaries, and the removal of reasoning, of leaked prompt
  blocks and of citation markers. Loops over characters run over bytes where they compare with ASCII
  only, since no byte of a longer character is an ASCII byte.
\<close>

subsection \<open>Truncation and boundaries\<close>

fun char_prefix :: "nat \<Rightarrow> rstr \<Rightarrow> rstr \<times> rstr" where
  "char_prefix 0 s = ([], s)"
| "char_prefix (Suc n) s =
     (case next_char s of
        None \<Rightarrow> ([], [])
      | Some (c, t) \<Rightarrow> (case char_prefix n t of (a, b) \<Rightarrow> (c @ a, b)))"

definition truncate_ellipsis :: "rstr \<Rightarrow> nat \<Rightarrow> rstr" where
  "truncate_ellipsis s max_chars =
     (case char_prefix max_chars s of (a, b) \<Rightarrow> if b = [] then s else trim_end a @ ''...'')"

definition is_char_boundary :: "rstr \<Rightarrow> nat \<Rightarrow> bool" where
  "is_char_boundary s i \<longleftrightarrow>
     i = 0 \<or> i = length s \<or> (i < length s \<and> (byte (s ! i) < 128 \<or> 192 \<le> byte (s ! i)))"

fun boundary_before :: "rstr \<Rightarrow> nat \<Rightarrow> nat" where
  "boundary_before s 0 = 0"
| "boundary_before s (Suc i) = (if is_char_boundary s (Suc i) then Suc i else boundary_before s i)"

definition floor_char_boundary :: "rstr \<Rightarrow> nat \<Rightarrow> nat" where
  "floor_char_boundary s index =
     (let capped = min index (length s) in
      if is_char_boundary s capped then capped else boundary_before s capped)"

subsection \<open>Lines for prompts, slugs\<close>

text \<open>Control characters: the ASCII ones, and U+0080 to U+009F as two bytes.\<close>

fun blank_controls :: "rstr \<Rightarrow> rstr" where
  "blank_controls [] = []"
| "blank_controls (c # s) =
     (if byte c < 32 \<or> byte c = 127 then CHR '' '' # blank_controls s
      else if c = CHR 0xC2
      then (case s of
              d # t \<Rightarrow> if 128 \<le> byte d \<and> byte d < 160 then CHR '' '' # blank_controls t
                      else c # blank_controls s
            | [] \<Rightarrow> [c])
      else c # blank_controls s)"

text \<open>\<open>while out.contains("  ") { out = out.replace("  ", " ") }\<close>.\<close>

partial_function (option) collapse_spaces :: "rstr \<Rightarrow> rstr option" where
  "collapse_spaces s =
     (if contains s ''  '' then collapse_spaces (str_replace ''  '' '' '' s) else Some s)"

definition sanitize_prompt_line :: "rstr \<Rightarrow> rstr option" where
  "sanitize_prompt_line v = map_option trim (collapse_spaces (blank_controls v))"

fun slug_from :: "bool \<Rightarrow> rstr \<Rightarrow> rstr" where
  "slug_from prev_dash [] = []"
| "slug_from prev_dash (c # s) =
     (if is_ascii_alphanumeric c then ascii_lower c # slug_from False s
      else if prev_dash then slug_from prev_dash s
      else CHR ''-'' # slug_from True s)"

definition trim_dashes :: "rstr \<Rightarrow> rstr" where
  "trim_dashes s = rev (dropWhile (\<lambda>c. c = CHR ''-'') (rev (dropWhile (\<lambda>c. c = CHR ''-'') s)))"

definition sanitize_slug :: "rstr \<Rightarrow> rstr \<Rightarrow> rstr" where
  "sanitize_slug raw fallback =
     (let t = trim_dashes (slug_from False (trim raw)) in if t = [] then fallback else t)"

subsection \<open>Leaked prompt blocks\<close>

definition internal_prompt_block_prefixes :: "rstr list" where
  "internal_prompt_block_prefixes =
     [''[Integrated Model]'', ''[Cognitive Scaffolding]'', ''[Attention Focus]'', ''[User Model]'',
      ''[Relationship Context]'', ''[User Profile]'', ''[User Knowledge]'', ''[Response Baseline]'',
      ''[Response Mode]'', ''[Decision Core]'', ''[Session Control]'', ''[Affect Topology]'',
      ''[Desire Objective]'', ''[Taste Contract]'', ''[Taste contract]'', ''[Value Guidance]'',
      ''[Style profile guidance]'', ''[Personality Guidance]'', ''[Pending Follow-ups]'',
      ''[Curiosity Signal]'', ''[Counterfactual]'', ''[Self-Contract]'', ''[Self-Model Shadow]'',
      ''[World Model]'', ''[Narrative Deltas]'', ''[Self-Narrative]'', ''[Memory context]'',
      ''[Untrusted content]'', ''[Detected Links]'', ''[History]'',
      ''## Companion State (restored after compaction)'', ''[Conversation state]'', ''[Fact ledger]'',
      ''[Runtime metadata]'', ''[A2A Provenance]'', ''[A2A Context]'', ''[Channel Style]'',
      ''[Surface Realization]'', ''[Past Experiences]'', ''[Distilled Principles]'',
      ''[Companion Memory Graph]'', ''[Behavior Selection]'', ''[Delegation Handoff]'',
      ''[Extension Contract]'', ''## Available Skills'', ''### Working Memory Focus'', ''[GPE Strategy]'',
      ''[Current Mood]'', ''[Affect Cause]'', ''[Affect Guidance'', ''[Reasoning:'']"

definition is_internal_prompt_block_header :: "rstr \<Rightarrow> bool" where
  "is_internal_prompt_block_header l \<longleftrightarrow> list_ex (starts_with l) internal_prompt_block_prefixes"

definition push_line :: "rstr \<Rightarrow> rstr \<Rightarrow> rstr" where
  "push_line out l = (if out = [] then l else out @ [nl] @ l)"

definition block_step :: "rstr \<Rightarrow> rstr \<times> bool \<times> bool \<Rightarrow> rstr \<times> bool \<times> bool" where
  "block_step l st =
     (case st of (out, skipping, content) \<Rightarrow>
        if is_internal_prompt_block_header (trim l) then (out, True, False)
        else if skipping
        then (if trim l = [] \<and> content then (out, False, False)
              else if trim l \<noteq> [] then (out, True, True) else (out, True, content))
        else (push_line out l, False, content))"

definition strip_internal_prompt_blocks :: "rstr \<Rightarrow> rstr" where
  "strip_internal_prompt_blocks t = fst (fold block_step (lines t) ([], False, False))"

subsection \<open>Reasoning\<close>

definition starts_with_ascii_ci :: "rstr \<Rightarrow> rstr \<Rightarrow> bool" where
  "starts_with_ascii_ci haystack needle \<longleftrightarrow>
     length needle \<le> length haystack \<and> eq_ignore_ascii_case (take (length needle) haystack) needle"

text \<open>The loop: the redaction depth, whether in a code fence, whether in an inline code span.\<close>

function strip_reasoning_from :: "nat \<Rightarrow> bool \<Rightarrow> bool \<Rightarrow> rstr \<Rightarrow> rstr" where
  "strip_reasoning_from depth fence inline s =
     (if s = [] then []
      else if \<not> inline \<and> starts_with s ''```''
      then (if depth = 0 then ''```'' else []) @ strip_reasoning_from depth (\<not> fence) inline (drop 3 s)
      else if \<not> fence \<and> starts_with s ''`''
      then (if depth = 0 then ''`'' else []) @ strip_reasoning_from depth fence (\<not> inline) (drop 1 s)
      else if \<not> fence \<and> \<not> inline \<and> (starts_with_ascii_ci s ''<think>'' \<or> starts_with_ascii_ci s ''<reasoning>'')
      then strip_reasoning_from (depth + 1) fence inline
             (drop (if starts_with_ascii_ci s ''<think>'' then 7 else 11) s)
      else if \<not> fence \<and> \<not> inline \<and> (starts_with_ascii_ci s ''</think>'' \<or> starts_with_ascii_ci s ''</reasoning>'')
      then strip_reasoning_from (depth - 1) fence inline
             (drop (if starts_with_ascii_ci s ''</think>'' then 8 else 12) s)
      else (if depth = 0 then [hd s] else []) @ strip_reasoning_from depth fence inline (tl s))"
  by pat_completeness auto
termination
  by (relation "measure (\<lambda>(_, _, _, s). length s)") auto

declare strip_reasoning_from.simps [simp del]

definition strip_reasoning :: "rstr \<Rightarrow> rstr" where
  "strip_reasoning s = strip_reasoning_from 0 False False s"

subsection \<open>Citation and inference markers\<close>

function drop_citations :: "rstr \<Rightarrow> rstr" where
  "drop_citations s =
     (if s = [] then []
      else let rest = dropWhile is_ascii_digit (drop 3 s) in
        if hd s = CHR ''['' \<and> 2 < length s \<and> s ! 1 \<in> {CHR ''F'', CHR ''H'', CHR ''C''} \<and>
           is_ascii_digit (s ! 2) \<and> starts_with rest '']''
        then drop_citations (tl rest)
        else hd s # drop_citations (tl s))"
  by pat_completeness auto
termination
proof (relation "measure length")
  fix s rest :: rstr
  assume r: "s \<noteq> []" "rest = dropWhile is_ascii_digit (drop 3 s)"
  have "length rest \<le> length (drop 3 s)" unfolding r(2) by (rule length_dropWhile_le)
  then show "(tl rest, s) \<in> measure length" using r(1) by (cases s) auto
qed auto

declare drop_citations.simps [simp del]

function collapse_ws :: "bool \<Rightarrow> rstr \<Rightarrow> rstr" where
  "collapse_ws prev_space s =
     (if s = [] then []
      else if ws_len s \<noteq> 0 \<and> hd s \<notin> {nl, CHR 0x0D}
      then (if prev_space then [] else '' '') @ collapse_ws True (drop (ws_len s) s)
      else hd s # collapse_ws False (tl s))"
  by pat_completeness auto
termination
  by (relation "measure (\<lambda>(_, s). length s)") auto

declare collapse_ws.simps [simp del]

definition tidy_punctuation :: "rstr \<Rightarrow> rstr" where
  "tidy_punctuation s =
     fold (\<lambda>p. str_replace (CHR '' '' # p) p)
       [''.'', '','', ''!'', ''?'', [CHR 0xE3, CHR 0x80, CHR 0x82], [CHR 0xE3, CHR 0x80, CHR 0x81]] s"

definition strip_citation_markers :: "rstr \<Rightarrow> rstr" where
  "strip_citation_markers t =
     trim (join [nl] (map trim_end (lines (tidy_punctuation (collapse_ws False (drop_citations t))))))"

definition strip_inference_markers :: "rstr \<Rightarrow> rstr" where
  "strip_inference_markers t =
     strip_citation_markers (strip_internal_prompt_blocks
       (fold (\<lambda>l out. if starts_with (trim l) ''INFERRED_CLAIM '' \<or> starts_with (trim l) ''CONTRADICTION_EVENT ''
                       then out else push_line out l) (lines t) []))"

subsection \<open>The loop over double spaces ends\<close>

text \<open>In one pass: every space after a space goes.\<close>

fun squeeze :: "bool \<Rightarrow> rstr \<Rightarrow> rstr" where
  "squeeze after_space [] = []"
| "squeeze after_space (c # s) =
     (if c = CHR '' '' then (if after_space then [] else '' '') @ squeeze True s else c # squeeze False s)"

lemma contains_Cons: "contains (c # s) p \<longleftrightarrow> starts_with (c # s) p \<or> contains s p"
  by (metis sublist_Cons_right)

lemma replace_double: "str_replace ''  '' '' '' (CHR '' '' # CHR '' '' # u) = CHR '' '' # str_replace ''  '' '' '' u"
  by (subst str_replace.simps) simp

lemma replace_other: "\<not> starts_with (c # s) ''  '' \<Longrightarrow> str_replace ''  '' '' '' (c # s) = c # str_replace ''  '' '' '' s"
  by (subst str_replace.simps) auto

lemma replace_facts:
  "squeeze p (str_replace ''  '' '' '' s) = squeeze p s \<and>
   length (str_replace ''  '' '' '' s) \<le> length s \<and>
   (contains s ''  '' \<longrightarrow> length (str_replace ''  '' '' '' s) < length s)"
proof (induction s arbitrary: p rule: length_induct)
  case (1 s)
  show ?case
  proof (cases s)
    case (Cons c t)
    show ?thesis
    proof (cases "starts_with s ''  ''")
      case True
      then obtain u where s: "s = CHR '' '' # CHR '' '' # u" by (auto simp: prefix_def)
      have "str_replace ''  '' '' '' s = CHR '' '' # str_replace ''  '' '' '' u"
        unfolding s by (rule replace_double)
      moreover have "length (str_replace ''  '' '' '' u) \<le> length u"
        "squeeze True (str_replace ''  '' '' '' u) = squeeze True u"
        using "1.IH" s by auto
      ultimately show ?thesis by (simp add: s)
    next
      case False
      then have r: "str_replace ''  '' '' '' (c # t) = c # str_replace ''  '' '' '' t"
        by (intro replace_other) (simp add: Cons)
      have IH: "squeeze q (str_replace ''  '' '' '' t) = squeeze q t"
        "length (str_replace ''  '' '' '' t) \<le> length t"
        "contains t ''  '' \<longrightarrow> length (str_replace ''  '' '' '' t) < length t" for q
        using "1.IH" Cons by auto
      have "contains s ''  '' \<longleftrightarrow> contains t ''  ''" using contains_Cons [of "''  ''" c t] False Cons by auto
      then show ?thesis using IH by (simp add: r Cons)
    qed
  qed (simp add: str_replace.simps)
qed

lemma squeeze_id: "\<not> contains s ''  '' \<Longrightarrow> squeeze False s = s"
proof (induction s)
  case (Cons c s)
  then have s: "squeeze False s = s" using contains_Cons by metis
  have "squeeze True s = s" if "c = CHR '' ''"
  proof (cases s)
    case (Cons d t)
    then have "d \<noteq> CHR '' ''" using Cons.prems that contains_Cons [of "''  ''" c s] by auto
    then show ?thesis using s Cons by simp
  qed simp
  then show ?case using s by simp
qed simp

lemma collapse_spaces_returns: "collapse_spaces s = Some (squeeze False s)"
proof (induction s rule: length_induct)
  case (1 s)
  then show ?case
    using replace_facts [of False s] squeeze_id [of s] by (subst collapse_spaces.simps) auto
qed

lemma squeeze_no_double:
  "\<not> contains (squeeze p s) ''  '' \<and> (p \<longrightarrow> \<not> starts_with (squeeze p s) '' '')"
proof (induction s arbitrary: p)
  case (Cons c s)
  have t: "\<not> contains (squeeze True s) ''  ''" "\<not> starts_with (squeeze True s) '' ''"
    and f: "\<not> contains (squeeze False s) ''  ''"
    using Cons by auto
  show ?case
  proof (cases "c = CHR '' ''")
    case True
    have "\<not> contains ('' '' @ squeeze True s) ''  ''"
      using t contains_Cons [of "''  ''" "CHR '' ''" "squeeze True s"] by simp
    then show ?thesis using True t by simp
  next
    case False
    then show ?thesis using f contains_Cons [of "''  ''" c "squeeze False s"] by simp
  qed
qed (simp add: sublist_Nil_right)

lemma squeeze_set: "set (squeeze p s) \<subseteq> set s"
  by (induction s arbitrary: p) auto

lemma blank_controls_clean: "c \<in> set (blank_controls s) \<Longrightarrow> 32 \<le> byte c \<and> byte c \<noteq> 127"
proof (induction s rule: blank_controls.induct)
  case (2 c' s)
  have sp: "byte (CHR '' '') = 32" by (simp add: byte_def)
  show ?case
  proof (cases "byte c' < 32 \<or> byte c' = 127")
    case True
    then show ?thesis using 2 sp by auto
  next
    case False
    show ?thesis
    proof (cases "c' = CHR 0xC2 \<and> s \<noteq> [] \<and> 128 \<le> byte (hd s) \<and> byte (hd s) < 160")
      case True
      then obtain d t where "s = d # t" by (cases s) auto
      then show ?thesis using 2 sp False True by auto
    next
      case no: False
      have "blank_controls (c' # s) = c' # blank_controls s" using False no by (cases s) auto
      then show ?thesis using 2 False no by (cases s) (auto split: if_splits)
    qed
  qed
qed simp

lemma set_trim: "set (trim s) \<subseteq> set s"
proof -
  have "set (trim_start s) \<subseteq> set s" for s
  proof (induction s rule: trim_start.induct)
    case (1 s)
    then show ?case using set_drop_subset [of "ws_len s" s]
      by (cases "ws_len s = 0") (auto simp: trim_start.simps [of s])
  qed
  moreover have "set (trim_end s) \<subseteq> set s" for s
    by (induction s) auto
  ultimately show ?thesis unfolding trim_def by (meson subset_trans)
qed

lemma trim_sublist: "sublist (trim s) s"
proof -
  obtain y where "trim_start s = trim s @ y"
    using trim_end_split [of "trim_start s"] by (auto simp: trim_def)
  moreover have "suffix (trim_start s) s" for s
  proof (induction s rule: trim_start.induct)
    case (1 s)
    then show ?case using suffix_drop [of "ws_len s" s]
      by (cases "ws_len s = 0") (auto simp: trim_start.simps [of s] intro: suffix_order.trans)
  qed
  ultimately show ?thesis by (metis sublist_def suffix_def append.assoc append_Nil)
qed

text \<open>Cleaning a prompt line always ends, whatever the text, with one line: no newline, tab or other
  control byte below 32, no two spaces in a row, nothing to trim. (The loop replaces double spaces
  until there are none; each round shortens the text, and the result is that of a single pass.)
\<close>

theorem sanitize_prompt_line_returns:
  "\<exists>r. sanitize_prompt_line v = Some r \<and> r = trim (squeeze False (blank_controls v)) \<and>
       list_all (\<lambda>c. 32 \<le> byte c \<and> byte c \<noteq> 127) r \<and> \<not> contains r ''  '' \<and> trim r = r"
proof (intro exI conjI)
  let ?r = "trim (squeeze False (blank_controls v))"
  show "sanitize_prompt_line v = Some ?r"
    by (simp add: sanitize_prompt_line_def collapse_spaces_returns)
  have "set ?r \<subseteq> set (blank_controls v)" using set_trim squeeze_set by (meson subset_trans)
  then show "list_all (\<lambda>c. 32 \<le> byte c \<and> byte c \<noteq> 127) ?r"
    using blank_controls_clean by (auto simp: list_all_iff)
  show "\<not> contains ?r ''  ''"
    using squeeze_no_double trim_sublist sublist_order.order.trans by blast
qed simp_all

subsection \<open>Slugs and boundaries\<close>

definition slug_char :: "char \<Rightarrow> bool" where
  "slug_char c \<longleftrightarrow> is_ascii_digit c \<or> 97 \<le> byte c \<and> byte c \<le> 122 \<or> c = CHR ''-''"

lemma byte_ascii_lower: "byte (ascii_lower c) = (if 65 \<le> byte c \<and> byte c \<le> 90 then byte c + 32 else byte c)"
  by (auto simp: ascii_lower_def byte_def)

lemma ascii_lower_slug: "is_ascii_alphanumeric c \<Longrightarrow> slug_char (ascii_lower c) \<and> ascii_lower c \<noteq> CHR ''-''"
proof -
  assume a: "is_ascii_alphanumeric c"
  then have b: "48 \<le> byte (ascii_lower c) \<and> byte (ascii_lower c) < 58 \<or> 97 \<le> byte (ascii_lower c) \<and> byte (ascii_lower c) \<le> 122"
    by (auto simp: is_ascii_alphanumeric_def is_ascii_alphabetic_def is_ascii_digit_def byte_ascii_lower)
  then have "ascii_lower c \<noteq> CHR ''-''" by (auto simp: byte_def)
  then show ?thesis using b by (auto simp: slug_char_def is_ascii_digit_def)
qed

lemma slug_from_facts:
  "list_all slug_char (slug_from p s) \<and> \<not> contains (slug_from p s) ''--'' \<and>
   (p \<longrightarrow> \<not> starts_with (slug_from p s) ''-'')"
proof (induction p s rule: slug_from.induct)
  case (2 p c s)
  have "slug_char (CHR ''-'')" by (simp add: slug_char_def)
  then show ?case
    using 2 ascii_lower_slug [of c] contains_Cons [of "''--''" "ascii_lower c" "slug_from False s"]
      contains_Cons [of "''--''" "CHR ''-''" "slug_from True s"]
    by (cases "is_ascii_alphanumeric c"; cases p) auto
qed simp

lemma trim_dashes_ends:
  "trim_dashes s \<noteq> [] \<Longrightarrow> hd (trim_dashes s) \<noteq> CHR ''-'' \<and> last (trim_dashes s) \<noteq> CHR ''-''"
proof -
  assume ne: "trim_dashes s \<noteq> []"
  define a where "a = dropWhile (\<lambda>c. c = CHR ''-'') s"
  have t: "trim_dashes s = rev (dropWhile (\<lambda>c. c = CHR ''-'') (rev a))" by (simp add: trim_dashes_def a_def)
  then have b: "dropWhile (\<lambda>c. c = CHR ''-'') (rev a) \<noteq> []" using ne by simp
  then have last: "last (trim_dashes s) \<noteq> CHR ''-''" using hd_dropWhile [OF b] unfolding t by (simp add: last_rev)
  obtain u where "rev a = u @ dropWhile (\<lambda>c. c = CHR ''-'') (rev a)" by (metis takeWhile_dropWhile_id)
  then have "a = trim_dashes s @ rev u" using t by (metis rev_append rev_rev_ident)
  then have "a \<noteq> []" "hd (trim_dashes s) = hd a" using ne by (auto simp: hd_append)
  then show ?thesis using last hd_dropWhile [of "\<lambda>c. c = CHR ''-''" s] by (simp add: a_def)
qed

lemma trim_dashes_sublist: "sublist (trim_dashes s) s"
proof -
  have "suffix (dropWhile P t) t" for P and t :: rstr by (rule suffix_dropWhile)
  then have 1: "suffix (dropWhile (\<lambda>c. c = CHR ''-'') s) s"
    and "suffix (dropWhile (\<lambda>c. c = CHR ''-'') (rev (dropWhile (\<lambda>c. c = CHR ''-'') s))) (rev (dropWhile (\<lambda>c. c = CHR ''-'') s))"
    by blast+
  then have "prefix (trim_dashes s) (dropWhile (\<lambda>c. c = CHR ''-'') s)"
    by (simp add: trim_dashes_def suffix_to_prefix)
  then show ?thesis using 1 by (metis prefix_imp_sublist suffix_imp_sublist sublist_order.order.trans)
qed

text \<open>A slug is the fallback, or a nonempty text of lower-case ASCII letters, digits and single
  hyphens that neither starts nor ends with a hyphen.
\<close>

theorem sanitize_slug_type:
  "let r = sanitize_slug raw fallback in
   r = fallback \<or> (r \<noteq> [] \<and> list_all slug_char r \<and> \<not> contains r ''--'' \<and> hd r \<noteq> CHR ''-'' \<and> last r \<noteq> CHR ''-'')"
proof (cases "trim_dashes (slug_from False (trim raw)) = []")
  case False
  have "set (trim_dashes (slug_from False (trim raw))) \<subseteq> set (slug_from False (trim raw))"
    using trim_dashes_sublist by (metis set_mono_sublist)
  then have "list_all slug_char (trim_dashes (slug_from False (trim raw)))"
    using slug_from_facts [of False "trim raw"] by (auto simp: list_all_iff)
  moreover have "\<not> contains (trim_dashes (slug_from False (trim raw))) ''--''"
    using slug_from_facts [of False "trim raw"] trim_dashes_sublist sublist_order.order.trans by blast
  ultimately show ?thesis using False trim_dashes_ends by (simp add: sanitize_slug_def Let_def)
qed (simp add: sanitize_slug_def)

lemma boundary_before_spec:
  "boundary_before s i \<le> i \<and> is_char_boundary s (boundary_before s i) \<and>
   (\<forall>j \<le> i. is_char_boundary s j \<longrightarrow> j \<le> boundary_before s i)"
  by (induction i) (auto simp: is_char_boundary_def le_Suc_eq)

text \<open>Cutting a text at \<open>floor_char_boundary\<close> cannot panic: the result is the greatest character
  boundary at or before the index and within the text.
\<close>

theorem floor_char_boundary_greatest:
  "floor_char_boundary s index = Max {j. j \<le> min index (length s) \<and> is_char_boundary s j}"
proof (rule Max_eqI [symmetric])
  let ?c = "min index (length s)"
  show "finite {j. j \<le> ?c \<and> is_char_boundary s j}" by simp
  show "j \<le> floor_char_boundary s index" if "j \<in> {j. j \<le> ?c \<and> is_char_boundary s j}" for j
    using that boundary_before_spec [of s ?c] by (simp add: floor_char_boundary_def Let_def)
  show "floor_char_boundary s index \<in> {j. j \<le> ?c \<and> is_char_boundary s j}"
    using boundary_before_spec [of s ?c] by (simp add: floor_char_boundary_def Let_def)
qed

subsection \<open>What is hidden\<close>

lemma starts_with_map: "starts_with (map f s) p \<longleftrightarrow> map f (take (length p) s) = p"
  by (metis append_take_drop_id map_append prefix_def take_map append_eq_conv_conj)

lemma ci_iff: "starts_with_ascii_ci s n \<longleftrightarrow> starts_with (map ascii_lower s) (map ascii_lower n)"
  by (auto simp: starts_with_ascii_ci_def eq_ignore_ascii_case_def starts_with_map
      dest: arg_cong [of _ _ length])

definition plain_text :: "rstr \<Rightarrow> bool" where
  "plain_text s \<longleftrightarrow> list_all (\<lambda>c. c \<noteq> CHR ''<'' \<and> c \<noteq> CHR 0x60) s"

lemma byte_eq: "c = d \<longleftrightarrow> byte c = byte d"
  by (simp add: byte_def)

lemma lower_eq: "byte d < 65 \<or> 90 < byte d \<and> byte d < 97 \<Longrightarrow> ascii_lower c = d \<longleftrightarrow> c = d"
  unfolding byte_eq by (auto simp: byte_ascii_lower)

lemma lower_eq_less: "ascii_lower c = CHR ''<'' \<longleftrightarrow> c = CHR ''<''"
  by (intro lower_eq) (simp add: byte_def)

lemma strip_plain:
  "plain_text a \<Longrightarrow>
   strip_reasoning_from d False False (a @ s) = (if d = 0 then a else []) @ strip_reasoning_from d False False s"
proof (induction a)
  case (Cons c a)
  have low: "map ascii_lower ''<think>'' = ''<think>''" "map ascii_lower ''</think>'' = ''</think>''"
    "map ascii_lower ''<reasoning>'' = ''<reasoning>''" "map ascii_lower ''</reasoning>'' = ''</reasoning>''"
    by code_simp+
  have c: "c \<noteq> CHR ''<''" "c \<noteq> CHR 0x60" using Cons.prems by (simp_all add: plain_text_def)
  then have "\<not> starts_with_ascii_ci ((c # a) @ s) (CHR ''<'' # n)" for n
    using lower_eq_less [of c] by (simp add: ci_iff) (metis lower_eq_less)
  moreover have "plain_text a" using Cons.prems by (simp add: plain_text_def)
  ultimately show ?case using Cons.IH c
    by (subst strip_reasoning_from.simps) simp
qed simp

lemma low_tags:
  "map ascii_lower ''<think>'' = ''<think>''" "map ascii_lower ''</think>'' = ''</think>''"
  "map ascii_lower ''<reasoning>'' = ''<reasoning>''" "map ascii_lower ''</reasoning>'' = ''</reasoning>''"
  by code_simp+

lemma ci_low: "map ascii_lower n = n \<Longrightarrow> starts_with_ascii_ci (t @ s) n \<longleftrightarrow> starts_with (map ascii_lower t @ map ascii_lower s) n"
  by (simp add: ci_iff)

lemmas ci_tags = low_tags [THEN ci_low]

text \<open>A tag in any mix of cases; its first byte is the bracket.\<close>

lemma tag_head: "map ascii_lower t = CHR ''<'' # u \<Longrightarrow> \<exists>t'. t = CHR ''<'' # t'"
  by (auto simp: map_eq_Cons_conv lower_eq_less)

lemma strip_open:
  assumes "eq_ignore_ascii_case t ''<think>'' \<or> eq_ignore_ascii_case t ''<reasoning>''"
  shows "strip_reasoning_from d False False (t @ s) = strip_reasoning_from (Suc d) False False s"
proof -
  have low: "map ascii_lower t = ''<think>'' \<or> map ascii_lower t = ''<reasoning>''"
    using assms unfolding eq_ignore_ascii_case_def low_tags .
  then have "\<exists>u. map ascii_lower t = CHR ''<'' # u" by (elim disjE) simp_all
  then obtain u where "map ascii_lower t = CHR ''<'' # u" by (elim exE)
  from tag_head [OF this] obtain t' where t: "t = CHR ''<'' # t'" by (elim exE)
  define L where "L = map ascii_lower t"
  have L: "L = ''<think>'' \<or> L = ''<reasoning>''" using low by (simp only: L_def)
  have len: "length t = (if L = ''<think>'' then 7 else 11)"
    using L length_map [of ascii_lower t] unfolding L_def [symmetric] by auto
  have ci: "starts_with_ascii_ci (t @ s) ''<think>'' \<longleftrightarrow> L = ''<think>''"
    "starts_with_ascii_ci (t @ s) ''<think>'' \<or> starts_with_ascii_ci (t @ s) ''<reasoning>''"
    using L unfolding ci_tags L_def [symmetric] by auto
  have "strip_reasoning_from d False False (t @ s) =
      strip_reasoning_from (d + 1) False False (drop (if starts_with_ascii_ci (t @ s) ''<think>'' then 7 else 11) (t @ s))"
    using ci(2) by (subst strip_reasoning_from.simps) (simp add: t)
  also have "drop (if starts_with_ascii_ci (t @ s) ''<think>'' then 7 else 11) (t @ s) = s"
    using len ci(1) by simp
  finally show ?thesis by simp
qed

lemma strip_close:
  assumes "eq_ignore_ascii_case t ''</think>'' \<or> eq_ignore_ascii_case t ''</reasoning>''"
  shows "strip_reasoning_from d False False (t @ s) = strip_reasoning_from (d - 1) False False s"
proof -
  have low: "map ascii_lower t = ''</think>'' \<or> map ascii_lower t = ''</reasoning>''"
    using assms unfolding eq_ignore_ascii_case_def low_tags .
  then have "\<exists>u. map ascii_lower t = CHR ''<'' # u" by (elim disjE) simp_all
  then obtain u where "map ascii_lower t = CHR ''<'' # u" by (elim exE)
  from tag_head [OF this] obtain t' where t: "t = CHR ''<'' # t'" by (elim exE)
  define L where "L = map ascii_lower t"
  have L: "L = ''</think>'' \<or> L = ''</reasoning>''" using low by (simp only: L_def)
  have len: "length t = (if L = ''</think>'' then 8 else 12)"
    using L length_map [of ascii_lower t] unfolding L_def [symmetric] by auto
  have ci: "starts_with_ascii_ci (t @ s) ''</think>'' \<longleftrightarrow> L = ''</think>''"
    "starts_with_ascii_ci (t @ s) ''</think>'' \<or> starts_with_ascii_ci (t @ s) ''</reasoning>''"
    "\<not> (starts_with_ascii_ci (t @ s) ''<think>'' \<or> starts_with_ascii_ci (t @ s) ''<reasoning>'')"
    using L unfolding ci_tags L_def [symmetric] by auto
  have "strip_reasoning_from d False False (t @ s) =
      strip_reasoning_from (d - 1) False False (drop (if starts_with_ascii_ci (t @ s) ''</think>'' then 8 else 12) (t @ s))"
    using ci(2,3) by (subst strip_reasoning_from.simps) (simp add: t)
  also have "drop (if starts_with_ascii_ci (t @ s) ''</think>'' then 8 else 12) (t @ s) = s"
    using len ci(1) by simp
  finally show ?thesis .
qed

text \<open>Reasoning stays hidden. In text without backticks and without other angle brackets, everything
  from an opening tag (either tag, in any case) to a closing one is removed and nothing else is; a
  block that is never closed hides the rest of the text.
\<close>

theorem strip_reasoning_hides:
  assumes "plain_text a" "plain_text b" "plain_text c"
    and "eq_ignore_ascii_case opening ''<think>'' \<or> eq_ignore_ascii_case opening ''<reasoning>''"
    and "eq_ignore_ascii_case closing ''</think>'' \<or> eq_ignore_ascii_case closing ''</reasoning>''"
  shows "strip_reasoning (a @ opening @ b @ closing @ c) = a @ c \<and> strip_reasoning (a @ opening @ b) = a"
proof -
  have n: "strip_reasoning_from d False False [] = []" for d by (simp add: strip_reasoning_from.simps)
  have c: "strip_reasoning_from 0 False False c = c" using strip_plain [OF assms(3), of 0 "[]"] by (simp add: n)
  have b: "strip_reasoning_from 1 False False b = []" using strip_plain [OF assms(2), of 1 "[]"] by (simp add: n)
  show ?thesis
    by (simp add: strip_reasoning_def strip_plain [OF assms(1)] strip_open [OF assms(4)] strip_plain [OF assms(2)]
        strip_close [OF assms(5)] c b [simplified])
qed

theorem strip_reasoning_hides_witness:
  "strip_reasoning (''Hi '' @ ''<Think>'' @ ''he is angry'' @ ''</reasoning>'' @ ''there'') = ''Hi there''"
proof -
  have "plain_text ''Hi ''" "plain_text ''he is angry''" "plain_text ''there''"
    "eq_ignore_ascii_case ''<Think>'' ''<think>'' \<or> eq_ignore_ascii_case ''<Think>'' ''<reasoning>''"
    "eq_ignore_ascii_case ''</reasoning>'' ''</think>'' \<or> eq_ignore_ascii_case ''</reasoning>'' ''</reasoning>''"
    by code_simp+
  from strip_reasoning_hides [OF this] show ?thesis by simp
qed

text \<open>
  Outside that text it is not so: one backtick that is never closed turns the filter off for the rest
  of the reply, and an inner block leaves the two halves of an outer tag behind.
\<close>

lemma strip_reasoning_gaps:
  "strip_reasoning (CHR 0x60 # ''x <think>he is angry</think>'') = CHR 0x60 # ''x <think>he is angry</think>'' \<and>
   strip_reasoning ''<th<think>x</think>ink>he is angry</think>'' = ''<think>he is angry''"
  by code_simp

subsection \<open>Prompt blocks\<close>

lemma push_line_lines:
  assumes "nl \<notin> set l"
  shows "set (map trim (lines (push_line out l))) \<subseteq> insert [] (insert (trim l) (set (map trim (lines out))))"
proof (cases "out = []")
  case True
  then show ?thesis using assms by (cases "l = []") (simp_all add: push_line_def lines_single)
next
  case False
  have "set (map trim (lines (out @ [nl]))) \<subseteq> insert [] (set (map trim (lines out)))"
    using arg_cong [OF trim_lines_final [of out], of set] by auto
  moreover have "set (map trim (lines l)) \<subseteq> {trim l}"
    using assms by (cases "l = []") (simp_all add: lines_single)
  ultimately show ?thesis using False lines_append [of out l] by (auto simp: push_line_def)
qed

lemma header_not_Nil: "\<not> is_internal_prompt_block_header []"
  by code_simp

text \<open>No line of a stripped reply opens an internal prompt block: whatever the model produced, in the
  result of \<open>strip_internal_prompt_blocks\<close> no line, trimmed, starts with one of the block headers.
\<close>

theorem strip_internal_prompt_blocks_clean:
  "list_all (\<lambda>l. \<not> is_internal_prompt_block_header (trim l)) (lines (strip_internal_prompt_blocks t))"
proof -
  define ok where "ok = (\<lambda>out. \<forall>l \<in> set (map trim (lines out)). \<not> is_internal_prompt_block_header l)"
  have push: "ok (push_line out l)" if "ok out" "nl \<notin> set l" "\<not> is_internal_prompt_block_header (trim l)" for out l
    using push_line_lines [OF that(2), of out] that(1,3) header_not_Nil unfolding ok_def by blast
  have step: "ok (fst (block_step l st))" if "ok (fst st)" "nl \<notin> set l" for l st
    using that push [of "fst st" l] by (cases st) (auto simp: block_step_def)
  have "ok (fst st) \<Longrightarrow> \<forall>l \<in> set ls. nl \<notin> set l \<Longrightarrow> ok (fst (fold block_step ls st))" for ls st
    by (induction ls arbitrary: st) (simp_all add: step)
  from this [of "([], False, False)" "lines t"] have "ok (strip_internal_prompt_blocks t)"
    using lines_no_nl by (auto simp: strip_internal_prompt_blocks_def ok_def)
  then show ?thesis by (simp add: ok_def list_all_iff)
qed

text \<open>
  The composition does not keep it: \<open>strip_inference_markers\<close> removes citation markers afterwards,
  and a header, an inference line or a citation marker with a citation marker inside comes out whole.
\<close>

lemma citation_uncovers:
  "strip_inference_markers ''[Hist[F1]ory]'' = ''[History]'' \<and>
   strip_inference_markers ''INFERRED[H2]_CLAIM x'' = ''INFERRED_CLAIM x'' \<and>
   strip_inference_markers ''so [F[F1]2]'' = ''so [F2]''"
  by code_simp

end
