(* ===== verification/Unicode_Text.thy ===== *)
theory Unicode_Text
  imports Text_Utils
begin

text \<open>
  The characters of a UTF-8 text. Code points are integers (\<open>utext\<close>), so that the tables of the
  detection code are compared and computed with as the code does with \<open>char as u32\<close>.
\<close>

subsection \<open>Lossy decoding\<close>

text \<open>
  \<open>String::from_utf8_lossy\<close>: each maximal piece that is not the prefix of a character becomes one
  U+FFFD. \<open>utf8_step\<close> is the length of the first piece and whether it is a whole character.
\<close>

fun cont_at :: "nat \<Rightarrow> nat \<Rightarrow> rstr \<Rightarrow> nat \<Rightarrow> bool" where
  "cont_at lo hi s i \<longleftrightarrow> i < length s \<and> lo \<le> byte (s ! i) \<and> byte (s ! i) < hi"

fun utf8_step :: "rstr \<Rightarrow> nat \<times> bool" where
  "utf8_step [] = (0, True)"
| "utf8_step (c # s) =
     (let b = byte c; next_lo = (if b = 224 then 160 else if b = 240 then 144 else 128);
          next_hi = (if b = 237 then 160 else if b = 244 then 144 else 192) in
      if b < 128 then (1, True)
      else if 194 \<le> b \<and> b < 224 then (if cont_at 128 192 s 0 then (2, True) else (1, False))
      else if 224 \<le> b \<and> b < 240
      then (if \<not> cont_at next_lo next_hi s 0 then (1, False)
            else if \<not> cont_at 128 192 s 1 then (2, False) else (3, True))
      else if 240 \<le> b \<and> b < 245
      then (if \<not> cont_at next_lo next_hi s 0 then (1, False)
            else if \<not> cont_at 128 192 s 1 then (2, False)
            else if \<not> cont_at 128 192 s 2 then (3, False) else (4, True))
      else (1, False))"

lemma utf8_step_pos: "s \<noteq> [] \<Longrightarrow> 0 < fst (utf8_step s)"
  by (cases s) (auto simp: Let_def)

function from_utf8_lossy :: "rstr \<Rightarrow> rstr" where
  "from_utf8_lossy s =
     (if s = [] then []
      else (if snd (utf8_step s) then take (fst (utf8_step s)) s else [CHR 0xEF, CHR 0xBF, CHR 0xBD]) @
           from_utf8_lossy (drop (fst (utf8_step s)) s))"
  by pat_completeness auto
termination
  by (relation "measure length") (auto simp: utf8_step_pos simp del: utf8_step.simps)

declare from_utf8_lossy.simps [simp del]

lemma from_utf8_lossy_ascii: "list_all (\<lambda>c. byte c < 128) s \<Longrightarrow> from_utf8_lossy s = s"
  by (induction s) (simp_all add: from_utf8_lossy.simps)

definition hex_value :: "char \<Rightarrow> nat option" where
  "hex_value c =
     (let b = byte c in
      if 48 \<le> b \<and> b < 58 then Some (b - 48)
      else if 65 \<le> b \<and> b < 71 then Some (b - 55)
      else if 97 \<le> b \<and> b < 103 then Some (b - 87) else None)"

subsection \<open>Code points\<close>

type_synonym utext = "int list"

fun code_point :: "rstr \<Rightarrow> int" where
  "code_point [a] = of_char a"
| "code_point [a, b] = (of_char a - 192) * 64 + (of_char b - 128)"
| "code_point [a, b, c] = ((of_char a - 224) * 64 + (of_char b - 128)) * 64 + (of_char c - 128)"
| "code_point [a, b, c, d] =
     (((of_char a - 240) * 64 + (of_char b - 128)) * 64 + (of_char c - 128)) * 64 + (of_char d - 128)"
| "code_point _ = 0xFFFD"

text \<open>\<open>chars\<close> of a text, and of \<open>String::from_utf8_lossy\<close> of bytes that are not one.\<close>

function chars :: "rstr \<Rightarrow> utext" where
  "chars s =
     (if s = [] then []
      else (if snd (utf8_step s) then code_point (take (fst (utf8_step s)) s) else 0xFFFD) #
           chars (drop (fst (utf8_step s)) s))"
  by pat_completeness auto
termination
  by (relation "measure length") (auto simp: utf8_step_pos simp del: utf8_step.simps)

declare chars.simps [simp del]

lemma chars_Nil [simp]: "chars [] = []"
  by (simp add: chars.simps)

lemma chars_ascii: "byte c < 128 \<Longrightarrow> chars (c # s) = of_char c # chars s"
  by (subst chars.simps) (simp add: Let_def)

abbreviation utf8 :: "string \<Rightarrow> utext" where
  "utf8 s \<equiv> map of_char s"

lemma chars_of_ascii: "list_all (\<lambda>c. byte c < 128) s \<Longrightarrow> chars s = utf8 s"
  by (induction s) (simp_all add: chars_ascii)

definition is_valid_utf8 :: "rstr \<Rightarrow> bool" where
  "is_valid_utf8 s \<longleftrightarrow> from_utf8_lossy s = s"

text \<open>\<open>char::is_whitespace\<close>, \<open>char::to_ascii_lowercase\<close> and \<open>char::from_u32\<close>.\<close>

definition is_whitespace :: "int \<Rightarrow> bool" where
  "is_whitespace c \<longleftrightarrow> 9 \<le> c \<and> c \<le> 13 \<or> c = 32 \<or> c = 0x85 \<or> c = 0xA0 \<or> c = 0x1680 \<or>
     0x2000 \<le> c \<and> c \<le> 0x200A \<or> c = 0x2028 \<or> c = 0x2029 \<or> c = 0x202F \<or> c = 0x205F \<or> c = 0x3000"

definition lower :: "int \<Rightarrow> int" where
  "lower c = (if 65 \<le> c \<and> c \<le> 90 then c + 32 else c)"

definition from_u32 :: "int \<Rightarrow> int option" where
  "from_u32 c = (if 0 \<le> c \<and> c < 0xD800 \<or> 0xE000 \<le> c \<and> c \<le> 0x10FFFF then Some c else None)"

subsection \<open>Words and numbers\<close>

text \<open>\<open>parse\<close> of an unsigned integer below a bound: one plus sign is allowed before the digits.\<close>

definition parse_unsigned :: "nat \<Rightarrow> rstr \<Rightarrow> nat option" where
  "parse_unsigned bound s =
     (let digits = (case s of c # r \<Rightarrow> if c = CHR ''+'' then r else s | [] \<Rightarrow> [])
      in if digits \<noteq> [] \<and> list_all is_ascii_digit digits \<and> decode_digits digits < bound
         then Some (decode_digits digits) else None)"

definition plain_word :: "rstr \<Rightarrow> bool" where
  "plain_word w \<longleftrightarrow> w \<noteq> [] \<and> list_all (\<lambda>c. \<not> ws_lead c) w"

lemma split_ws_from_plain:
  assumes "list_all (\<lambda>c. \<not> ws_lead c) w"
  shows "split_ws_from a (w @ s) = split_ws_from (rev w @ a) s"
  using assms
proof (induction w arbitrary: a)
  case (Cons c w)
  have "ws_len (c # w @ s) = 0" using Cons.prems ws_lead_head by auto
  then show ?case using Cons by (simp add: split_ws_from_char)
qed simp

lemma split_ws_from_space: "split_ws_from a (CHR '' '' # s) = (if a = [] then split_ws_from [] s else rev a # split_ws_from [] s)"
proof -
  have "ws_len (CHR '' '' # s) = 1" by (intro ascii_ws_ws_len) (simp add: is_ascii_ws_def)
  then show ?thesis by (simp add: split_ws_from_ws)
qed

lemma split_whitespace_word: "plain_word w \<Longrightarrow> split_whitespace (w @ CHR '' '' # s) = w # split_whitespace s"
  by (auto simp: plain_word_def split_whitespace_def split_ws_from_plain split_ws_from_space)

lemma split_whitespace_last: "plain_word w \<Longrightarrow> split_whitespace w = [w]"
  using split_ws_from_plain [of w "[]" "[]"] by (simp add: plain_word_def split_whitespace_def)

lemma plain_decimal: "plain_word (decimal n)"
proof (induction n rule: decimal.induct)
  case (1 n)
  have digit: "\<not> ws_lead (char_of (48 + d))" if "d < 10" for d :: nat
  proof -
    have "byte c \<le> 32 \<or> 192 \<le> byte c" if "ws_lead c" for c
      using that by (auto simp: ws_lead_def is_ascii_ws_def byte_def)
    then show ?thesis using byte_digit [OF that] that by fastforce
  qed
  show ?case
    using 1 digit [of "n mod 10"] by (subst decimal.simps) (auto simp: plain_word_def)
qed

end
