(* ===== verification/Markdown_Format.thy ===== *)
theory Markdown_Format
  imports Memory_Ingress Unicode_Text
begin

text \<open>
  The line format of the markdown memory backend (\<open>src/src/core/memory/markdown.rs\<close>): the encoding
  of tag values, \<open>format_tagged_line\<close> and \<open>parse_markdown_entry_line\<close>, and the round trip between
  them. The decoder works on characters, so the first character of a byte string is taken by its
  length in UTF-8.
\<close>

subsection \<open>Tag values\<close>

definition tag_specials :: "(char \<times> rstr) list" where
  "tag_specials = [(CHR ''%'', ''%25''), (CHR '';'', ''%3B''), (CHR ''='', ''%3D''), (CHR ''&'', ''%26''),
     (CHR 0x5C, ''%5C''), (CHR ''['', ''%5B''), (CHR '']'', ''%5D'')]"

definition encode_tag_char :: "char \<Rightarrow> rstr" where
  "encode_tag_char c = (case map_of tag_specials c of Some e \<Rightarrow> e | None \<Rightarrow> [c])"

definition encode_tag_value :: "rstr \<Rightarrow> rstr" where
  "encode_tag_value v = concat (map encode_tag_char v)"

text \<open>\<open>u8::from_str_radix(_, 16)\<close> on two characters: a plus sign may take the place of a digit.\<close>

fun hex_byte :: "rstr \<Rightarrow> nat option" where
  "hex_byte [a, b] =
     (case hex_value b of
        None \<Rightarrow> None
      | Some y \<Rightarrow> if a = CHR ''+'' then Some y
                  else (case hex_value a of None \<Rightarrow> None | Some x \<Rightarrow> Some (16 * x + y)))"
| "hex_byte _ = None"

declare hex_byte.simps [simp del]

text \<open>
  Both loops of the decoder: \<open>None\<close> is the outer loop, \<open>Some bytes\<close> the inner one that gathers
  consecutive encoded bytes. The inner loop pushes a truncated sequence before the bytes it holds.
\<close>

function decode_from :: "rstr option \<Rightarrow> rstr \<Rightarrow> rstr" where
  "decode_from None [] = []"
| "decode_from None (c # t) =
     (if c \<noteq> CHR ''%'' then c # decode_from None t
      else (case next_char t of
        None \<Rightarrow> ''%''
      | Some (a, t1) \<Rightarrow>
          (case next_char t1 of
             None \<Rightarrow> ''%'' @ a
           | Some (b, t2) \<Rightarrow>
               (case hex_byte (a @ b) of
                  None \<Rightarrow> ''%'' @ a @ b @ decode_from None t2
                | Some v \<Rightarrow> decode_from (Some [char_of v]) t2))))"
| "decode_from (Some buf) s =
     (if \<not> starts_with s ''%'' then from_utf8_lossy buf @ decode_from None s
      else (case next_char (tl s) of
        None \<Rightarrow> from_utf8_lossy buf
      | Some (a, t1) \<Rightarrow>
          (case next_char t1 of
             None \<Rightarrow> ''%'' @ a @ from_utf8_lossy buf
           | Some (b, t2) \<Rightarrow>
               (case hex_byte (a @ b) of
                  None \<Rightarrow> from_utf8_lossy buf @ ''%'' @ a @ b @ decode_from None t2
                | Some v \<Rightarrow> decode_from (Some (buf @ [char_of v])) t2))))"
  by pat_completeness auto

termination
proof (relation "measure (\<lambda>(m, s). 2 * length s + (if m = None then 0 else 1))", goal_cases)
  case (3 c t x a t1 y b t2)
  then show ?case using next_char_shorter [of t] next_char_shorter [of t1] by fastforce
next
  case (4 c t x a t1 y b t2 v)
  then show ?case using next_char_shorter [of t] next_char_shorter [of t1] by fastforce
next
  case (6 buf s x a t1 y b t2)
  then show ?case using next_char_shorter [of "tl s" a t1] next_char_shorter [of t1 b t2] by fastforce
next
  case (7 buf s x a t1 y b t2 v)
  then show ?case using next_char_shorter [of "tl s" a t1] next_char_shorter [of t1 b t2] by fastforce
qed auto

definition decode_tag_value :: "rstr \<Rightarrow> rstr" where
  "decode_tag_value v = decode_from None v"

lemma encode_tag_value_Cons: "encode_tag_value (c # s) = encode_tag_char c @ encode_tag_value s"
  by (simp add: encode_tag_value_def)

text \<open>An encoded character is itself, not a percent sign, or a sequence the decoder reads back.\<close>

definition coded_ok :: "char \<times> rstr \<Rightarrow> bool" where
  "coded_ok ce =
     (case snd ce of
        [p, a, b] \<Rightarrow> p = CHR ''%'' \<and> char_len a = 1 \<and> char_len b = 1 \<and>
          hex_byte [a, b] = Some (byte (fst ce)) \<and> byte (fst ce) < 128
      | _ \<Rightarrow> False)"

lemma tag_specials_coded: "list_all coded_ok tag_specials"
  by code_simp

lemma encode_tag_char_cases:
  obtains (plain) "encode_tag_char c = [c]" "c \<noteq> CHR ''%''"
    | (coded) a b where "encode_tag_char c = ''%'' @ [a, b]" "char_len a = 1" "char_len b = 1"
        "hex_byte [a, b] = Some (byte c)" "byte c < 128"
proof (cases "map_of tag_specials c")
  case None
  then have "c \<noteq> CHR ''%''" by (auto simp: tag_specials_def)
  with None show thesis by (intro plain) (simp_all add: encode_tag_char_def)
next
  case (Some e)
  then have "coded_ok (c, e)" using tag_specials_coded map_of_SomeD by (fastforce simp: list_all_iff)
  then obtain a b where "e = ''%'' @ [a, b]" and "char_len a = 1" "char_len b = 1"
      "hex_byte [a, b] = Some (byte c)" "byte c < 128"
    by (auto simp: coded_ok_def split: list.splits)
  then show thesis using Some by (intro coded [of a b]) (simp_all add: encode_tag_char_def)
qed

lemma char_of_byte [simp]: "char_of (byte c) = c"
  by (simp add: byte_def)

lemma decode_encoded:
  "decode_from None (encode_tag_value s) = s \<and>
   (\<forall>buf. list_all (\<lambda>c. byte c < 128) buf \<longrightarrow> decode_from (Some buf) (encode_tag_value s) = buf @ s)"
proof (induction s)
  case Nil
  then show ?case by (simp add: encode_tag_value_def from_utf8_lossy_ascii)
next
  case (Cons c s)
  show ?case
  proof (cases c rule: encode_tag_char_cases)
    case plain
    then show ?thesis using Cons by (simp add: encode_tag_value_Cons from_utf8_lossy_ascii)
  next
    case (coded a b)
    then show ?thesis using Cons by (simp add: encode_tag_value_Cons)
  qed
qed

lemma decode_encode [simp]: "decode_tag_value (encode_tag_value s) = s"
  using decode_encoded by (simp add: decode_tag_value_def)

text \<open>A sequence cut short after a whole one: the decoder swaps the two.\<close>

lemma truncated_sequence_swapped:
  "decode_tag_value ''%41%4'' = ''%4A'' \<and> decode_tag_value ''x%41%'' = ''xA''"
  by code_simp

lemma encode_tag_value_clean:
  "c \<in> set (encode_tag_value s) \<Longrightarrow> c \<notin> {CHR '';'', CHR ''='', CHR '']'', CHR ''[''}"
proof -
  have "c \<in> set (encode_tag_char x) \<Longrightarrow> c \<notin> {CHR '';'', CHR ''='', CHR '']'', CHR ''[''}" for x
    by (auto simp: encode_tag_char_def tag_specials_def split: if_splits)
  then show "c \<in> set (encode_tag_value s) \<Longrightarrow> c \<notin> {CHR '';'', CHR ''='', CHR '']'', CHR ''[''}"
    by (auto simp: encode_tag_value_def)
qed

lemma encode_tag_value_no_nl: "nl \<in> set (encode_tag_value s) \<Longrightarrow> nl \<in> set s"
proof -
  have "nl \<in> set (encode_tag_char x) \<Longrightarrow> x = nl" for x
    by (auto simp: encode_tag_char_def tag_specials_def split: if_splits)
  then show "nl \<in> set (encode_tag_value s) \<Longrightarrow> nl \<in> set s" by (auto simp: encode_tag_value_def)
qed

lemma encode_tag_value_Nil_iff [simp]: "encode_tag_value s = [] \<longleftrightarrow> s = []"
proof (cases s)
  case (Cons c t)
  then show ?thesis by (cases c rule: encode_tag_char_cases) (simp_all add: encode_tag_value_Cons)
qed (simp add: encode_tag_value_def)

subsection \<open>Lines\<close>

definition layer_names :: "(rstr \<times> memory_layer) list" where
  "layer_names = [(''working'', LWorking), (''episodic'', LEpisodic), (''semantic'', LSemantic),
     (''procedural'', LProcedural), (''identity'', LIdentity)]"

fun memory_layer_to_str :: "memory_layer \<Rightarrow> rstr" where
  "memory_layer_to_str LWorking = ''working''"
| "memory_layer_to_str LEpisodic = ''episodic''"
| "memory_layer_to_str LSemantic = ''semantic''"
| "memory_layer_to_str LProcedural = ''procedural''"
| "memory_layer_to_str LIdentity = ''identity''"

definition parse_memory_layer :: "rstr \<Rightarrow> memory_layer option" where
  "parse_memory_layer raw = map_of layer_names raw"

fun memory_source_to_str :: "memory_source \<Rightarrow> rstr" where
  "memory_source_to_str ExplicitUser = ''explicit_user''"
| "memory_source_to_str ToolVerified = ''tool_verified''"
| "memory_source_to_str SystemSource = ''system''"
| "memory_source_to_str InferredSource = ''inferred''"
| "memory_source_to_str ExternalPrimary = ''external_primary''"
| "memory_source_to_str ExternalSecondary = ''external_secondary''"

definition parse_memory_source :: "rstr \<Rightarrow> memory_source option" where
  "parse_memory_source raw =
     map_of [(''explicit_user'', ExplicitUser), (''tool_verified'', ToolVerified), (''system'', SystemSource),
       (''inferred'', InferredSource), (''external_primary'', ExternalPrimary),
       (''external_secondary'', ExternalSecondary)] raw"

definition tag_fields :: "memory_layer \<Rightarrow> memory_provenance option \<Rightarrow> rstr list" where
  "tag_fields layer prov =
     (''layer='' @ memory_layer_to_str layer) #
     (case prov of
        None \<Rightarrow> []
      | Some p \<Rightarrow>
          [''provenance_source_class='' @ memory_source_to_str (source_class p),
           ''provenance_reference='' @ encode_tag_value (prov_reference p)] @
          (case evidence_uri p of
             None \<Rightarrow> [] | Some u \<Rightarrow> [''provenance_evidence_uri='' @ encode_tag_value u]))"

definition format_tagged_line ::
    "rstr \<Rightarrow> rstr \<Rightarrow> memory_layer \<Rightarrow> memory_provenance option \<Rightarrow> rstr" where
  "format_tagged_line key v layer prov =
     ''- **'' @ key @ ''** [md:'' @ join '';'' (tag_fields layer prov) @ '']: '' @ v"

text \<open>\<open>split(';')\<close>, then each piece at its first equals sign; of equal keys the last one counts.\<close>

definition parse_tag :: "rstr \<Rightarrow> (rstr \<times> rstr) option" where
  "parse_tag chunk =
     (case split_once (CHR ''='') chunk of
        None \<Rightarrow> None
      | Some (k, v) \<Rightarrow> if k = [] \<or> v = [] then None else Some (k, decode_tag_value v))"

definition parse_markdown_tags :: "rstr \<Rightarrow> (rstr \<times> rstr) list" where
  "parse_markdown_tags raw = rev (List.map_filter parse_tag (split_on (CHR '';'') raw))"

record parsed_line =
  pl_key :: rstr
  pl_content :: rstr
  pl_layer :: "memory_layer option"
  pl_provenance :: "memory_provenance option"

definition parse_provenance_tags :: "(rstr \<times> rstr) list \<Rightarrow> memory_provenance option" where
  "parse_provenance_tags tags =
     (case Option.bind (map_of tags ''provenance_source_class'') parse_memory_source of
        None \<Rightarrow> None
      | Some src \<Rightarrow>
          map_option (\<lambda>r. \<lparr>source_class = src, prov_reference = r,
                            evidence_uri = map_of tags ''provenance_evidence_uri''\<rparr>)
            (map_of tags ''provenance_reference''))"

text \<open>The part after \<open>**key\<close>: the closing asterisks are stripped when they are there.\<close>

definition parse_line_rest :: "rstr \<Rightarrow> rstr \<Rightarrow> parsed_line option" where
  "parse_line_rest key rest0 =
     (let rest = trim_start (case strip_prefix ''**'' rest0 of Some r \<Rightarrow> r | None \<Rightarrow> []) in
      (case strip_prefix '': '' rest of
         Some content \<Rightarrow> Some \<lparr>pl_key = key, pl_content = content, pl_layer = None, pl_provenance = None\<rparr>
       | None \<Rightarrow>
           (case strip_prefix ''[md:'' rest of
              None \<Rightarrow> None
            | Some marked \<Rightarrow>
                (case find_split '']: '' marked of
                   None \<Rightarrow> Some \<lparr>pl_key = key, pl_content = ''[md:'' @ marked, pl_layer = None,
                                 pl_provenance = None\<rparr>
                 | Some (raw, after) \<Rightarrow>
                     let tags = parse_markdown_tags raw in
                     Some \<lparr>pl_key = key, pl_content = drop 3 after,
                           pl_layer = Some (case Option.bind (map_of tags ''layer'') parse_memory_layer of
                                              Some l \<Rightarrow> l | None \<Rightarrow> LWorking),
                           pl_provenance = parse_provenance_tags tags\<rparr>))))"

definition parse_markdown_entry_line :: "rstr \<Rightarrow> parsed_line option" where
  "parse_markdown_entry_line l =
     (case strip_prefix ''- '' (trim l) of
        None \<Rightarrow> None
      | Some without_bullet \<Rightarrow>
          (case strip_prefix ''**'' without_bullet of
             None \<Rightarrow> None
           | Some without_key \<Rightarrow>
               (case find_split ''**'' without_key of
                  None \<Rightarrow> None | Some (key, rest) \<Rightarrow> parse_line_rest key rest)))"

subsection \<open>A written line reads back\<close>

lemma split_on_append: "c \<notin> set a \<Longrightarrow> split_on c (a @ c # r) = a # split_on c r"
  by (induction a) auto

lemma split_on_join:
  "xs \<noteq> [] \<Longrightarrow> (\<And>x. x \<in> set xs \<Longrightarrow> c \<notin> set x) \<Longrightarrow> split_on c (join [c] xs) = xs"
  by (induction "[c]" xs rule: join.induct) (auto simp: split_on_id split_on_append)

lemma split_once_append: "c \<notin> set a \<Longrightarrow> split_once c (a @ c # r) = Some (a, r)"
  by (induction a) auto

lemma parse_tag_field:
  "k \<noteq> [] \<Longrightarrow> CHR ''='' \<notin> set k \<Longrightarrow> w \<noteq> [] \<Longrightarrow> decode_tag_value w = v \<Longrightarrow>
   parse_tag (k @ CHR ''='' # w) = Some (k, v)"
  by (simp add: parse_tag_def split_once_append)

lemma layer_round_trip [simp]: "parse_memory_layer (memory_layer_to_str l) = Some l"
  by (cases l) (simp_all add: parse_memory_layer_def layer_names_def)

lemma source_round_trip [simp]: "parse_memory_source (memory_source_to_str c) = Some c"
  by (cases c) (simp_all add: parse_memory_source_def)

lemma names_decode:
  "map decode_tag_value (map memory_layer_to_str [LWorking, LEpisodic, LSemantic, LProcedural, LIdentity]) =
   map memory_layer_to_str [LWorking, LEpisodic, LSemantic, LProcedural, LIdentity]"
  "map decode_tag_value (map memory_source_to_str [ExplicitUser, ToolVerified, SystemSource, InferredSource,
     ExternalPrimary, ExternalSecondary]) =
   map memory_source_to_str [ExplicitUser, ToolVerified, SystemSource, InferredSource, ExternalPrimary,
     ExternalSecondary]"
  by code_simp+

lemma layer_name_plain:
  "decode_tag_value (memory_layer_to_str l) = memory_layer_to_str l \<and> memory_layer_to_str l \<noteq> []"
  using names_decode(1) by (cases l) simp_all

lemma source_name_plain:
  "decode_tag_value (memory_source_to_str c) = memory_source_to_str c \<and> memory_source_to_str c \<noteq> []"
  using names_decode(2) by (cases c) simp_all

lemmas names_plain = layer_name_plain source_name_plain

text \<open>A provenance whose fields are not empty; what \<open>validate_provenance\<close> accepts is one.\<close>

definition provenance_filled :: "memory_provenance option \<Rightarrow> bool" where
  "provenance_filled prov \<longleftrightarrow>
     (case prov of None \<Rightarrow> True | Some p \<Rightarrow> prov_reference p \<noteq> [] \<and> evidence_uri p \<noteq> Some [])"

lemma parse_tag_fields:
  assumes "provenance_filled prov"
  shows "map parse_tag (tag_fields layer prov) =
    map Some ((''layer'', memory_layer_to_str layer) #
      (case prov of None \<Rightarrow> []
       | Some p \<Rightarrow> [(''provenance_source_class'', memory_source_to_str (source_class p)),
                    (''provenance_reference'', prov_reference p)] @
                   (case evidence_uri p of None \<Rightarrow> [] | Some u \<Rightarrow> [(''provenance_evidence_uri'', u)])))"
proof -
  have l: "parse_tag (''layer='' @ memory_layer_to_str layer) = Some (''layer'', memory_layer_to_str layer)"
    using parse_tag_field [of "''layer''" "memory_layer_to_str layer"] names_plain by simp
  have c: "parse_tag (''provenance_source_class='' @ memory_source_to_str x) =
      Some (''provenance_source_class'', memory_source_to_str x)" for x
    using parse_tag_field [of "''provenance_source_class''" "memory_source_to_str x"] names_plain by simp
  have r: "v \<noteq> [] \<Longrightarrow> parse_tag (''provenance_reference='' @ encode_tag_value v) =
      Some (''provenance_reference'', v)" for v
    using parse_tag_field [of "''provenance_reference''" "encode_tag_value v"] by simp
  have u: "v \<noteq> [] \<Longrightarrow> parse_tag (''provenance_evidence_uri='' @ encode_tag_value v) =
      Some (''provenance_evidence_uri'', v)" for v
    using parse_tag_field [of "''provenance_evidence_uri''" "encode_tag_value v"] by simp
  show ?thesis using assms unfolding tag_fields_def provenance_filled_def
    by (auto simp: l [simplified] c [simplified] r [simplified] u [simplified] split: option.splits)
qed

lemma map_filter_Some: "map f xs = map Some ys \<Longrightarrow> List.map_filter f xs = ys"
  by (induction xs arbitrary: ys) (auto simp: List.map_filter_def map_eq_Cons_conv Cons_eq_map_conv)

lemma tag_fields_clean:
  "x \<in> set (tag_fields layer prov) \<Longrightarrow> CHR '';'' \<notin> set x \<and> CHR '']'' \<notin> set x"
proof -
  have "CHR '';'' \<notin> set (memory_layer_to_str layer) \<and> CHR '']'' \<notin> set (memory_layer_to_str layer)"
    by (cases layer) auto
  moreover have "CHR '';'' \<notin> set (memory_source_to_str c) \<and> CHR '']'' \<notin> set (memory_source_to_str c)" for c
    by (cases c) auto
  ultimately show "x \<in> set (tag_fields layer prov) \<Longrightarrow> CHR '';'' \<notin> set x \<and> CHR '']'' \<notin> set x"
    by (auto simp: tag_fields_def dest: encode_tag_value_clean split: option.splits)
qed

lemma set_join: "set (join [c] xs) \<subseteq> insert c (\<Union> (set ` set xs))"
  by (induction "[c]" xs rule: join.induct) auto

lemma tags_round_trip:
  fixes layer :: memory_layer
  assumes "provenance_filled prov"
  defines "tags \<equiv> parse_markdown_tags (join '';'' (tag_fields layer prov))"
  shows "map_of tags ''layer'' = Some (memory_layer_to_str layer)" "parse_provenance_tags tags = prov"
proof -
  have "split_on (CHR '';'') (join '';'' (tag_fields layer prov)) = tag_fields layer prov"
    using tag_fields_clean by (intro split_on_join) (auto simp: tag_fields_def)
  then have t: "tags = rev ((''layer'', memory_layer_to_str layer) #
      (case prov of None \<Rightarrow> []
       | Some p \<Rightarrow> [(''provenance_source_class'', memory_source_to_str (source_class p)),
                    (''provenance_reference'', prov_reference p)] @
                   (case evidence_uri p of None \<Rightarrow> [] | Some u \<Rightarrow> [(''provenance_evidence_uri'', u)])))"
    using map_filter_Some [OF parse_tag_fields [OF assms(1), of layer]]
    by (simp add: tags_def parse_markdown_tags_def)
  show "map_of tags ''layer'' = Some (memory_layer_to_str layer)"
    unfolding t by (simp split: option.splits)
  show "parse_provenance_tags tags = prov"
    unfolding t by (auto simp: parse_provenance_tags_def split: option.splits)
qed

text \<open>A key as the backend builds it: identifier characters only, hence no asterisk and no newline.\<close>

definition key_clean :: "rstr \<Rightarrow> bool" where
  "key_clean key \<longleftrightarrow> list_all (identifier_char True) key"

lemma key_clean_no: "key_clean key \<Longrightarrow> CHR ''*'' \<notin> set key \<and> nl \<notin> set key"
  by (auto simp: key_clean_def list_all_iff identifier_char_def is_ascii_alphanumeric_def
      is_ascii_alphabetic_def is_ascii_digit_def byte_def)

lemma ws_len_not_lead: "\<not> ws_lead c \<Longrightarrow> ws_len (c # s) = 0"
  using ws_lead_head by blast

lemma trim_tagged:
  assumes "trim_start v \<noteq> []" "ws_len u = 0" "u \<noteq> []"
  shows "trim (u @ '']: '' @ v) = u @ '']: '' @ trim_end v"
proof -
  have "trim_start ('' '' @ v) \<noteq> []"
    using assms(1) by (simp add: trim_start.simps [of "CHR '' '' # v"] ascii_ws_ws_len is_ascii_ws_def)
  then have sp: "trim_end ('' '' @ v) = '' '' @ trim_end v" by simp
  have c: "\<not> ws_byte (CHR '':'')" "\<not> ws_byte (CHR '']'')" by code_simp+
  have "trim_start (u @ '']: '' @ v) = u @ '']: '' @ v"
    using assms(2,3) c(2) by (intro trim_start_id) (simp add: ws_len_append_ascii)
  then have "trim (u @ '']: '' @ v) = trim_end ((u @ '']'') @ CHR '':'' # '' '' @ v)"
    by (simp add: trim_def)
  also have "\<dots> = (u @ '']'') @ CHR '':'' # trim_end ('' '' @ v)" by (rule trim_end_around [OF c(1)])
  finally show ?thesis unfolding sp by simp
qed

lemma strip_prefix_append [simp]: "strip_prefix p (p @ s) = Some s"
  by (simp add: strip_prefix_Some)

lemma parse_rest_tagged:
  assumes "provenance_filled prov"
  shows "parse_line_rest key (''** [md:'' @ join '';'' (tag_fields layer prov) @ '']: '' @ v) =
    Some \<lparr>pl_key = key, pl_content = v, pl_layer = Some layer, pl_provenance = prov\<rparr>"
proof -
  let ?T = "join '';'' (tag_fields layer prov)"
  have "ws_len ('' '' @ s) = 1" "ws_len (''['' @ s) = 0" for s
    by (simp_all add: ascii_ws_ws_len is_ascii_ws_def ws_len_not_lead ws_lead_def)
  then have t: "trim_start ('' '' @ ''[md:'' @ s) = ''[md:'' @ s" for s
    by (subst trim_start.simps) (simp add: trim_start_id)
  have "CHR '']'' \<notin> set ?T"
    using set_join [of "CHR '';''" "tag_fields layer prov"] tag_fields_clean by fastforce
  then have f: "find_split '']: '' (?T @ '']: '' @ v) = Some (?T, '']: '' @ v)"
    using find_split_first [of "CHR '']''" ?T "'': ''" v] by simp
  have "strip_prefix '': '' (''[md:'' @ s) = None" for s by (simp add: strip_prefix_None)
  moreover have "strip_prefix ''**'' (''** [md:'' @ s) = Some ('' '' @ ''[md:'' @ s)" for s
    by (simp add: strip_prefix_Some)
  ultimately show ?thesis
    unfolding parse_line_rest_def
    by (simp only: Let_def option.case t strip_prefix_append f prod.case tags_round_trip [OF assms]
        bind.bind_lunit layer_round_trip) simp
qed

lemma parse_format:
  assumes "key_clean key" "trim_start v \<noteq> []" "provenance_filled prov"
  shows "parse_markdown_entry_line (format_tagged_line key v layer prov) =
    Some \<lparr>pl_key = key, pl_content = trim_end v, pl_layer = Some layer, pl_provenance = prov\<rparr>"
proof -
  let ?u = "''- **'' @ key @ ''** [md:'' @ join '';'' (tag_fields layer prov)"
  have "ws_len (''- **'' @ s) = 0" for s by (simp add: ws_len_not_lead ws_lead_def is_ascii_ws_def)
  then have "trim (?u @ '']: '' @ v) = ?u @ '']: '' @ trim_end v"
    using trim_tagged [OF assms(2), of ?u] by simp
  then have t: "trim (format_tagged_line key v layer prov) =
      ''- '' @ ''**'' @ key @ ''** [md:'' @ join '';'' (tag_fields layer prov) @ '']: '' @ trim_end v"
    by (simp add: format_tagged_line_def)
  have f: "find_split ''**'' (key @ ''** [md:'' @ s) = Some (key, ''** [md:'' @ s)" for s
    using key_clean_no [OF assms(1)] find_split_first [of "CHR ''*''" key "''*''" "'' [md:'' @ s"] by simp
  show ?thesis
    unfolding parse_markdown_entry_line_def t
    by (simp only: strip_prefix_append option.case f prod.case parse_rest_tagged [OF assms(3)])
qed

text \<open>A projection line reads back as it was written. For a key of identifier characters, a value that
  is not blank and a provenance without empty fields, parsing the formatted line gives the key, the
  layer, the provenance (with every character of its reference and URI, percent signs, brackets,
  semicolons and non-ASCII text included) and the value without its trailing white space.
\<close>

theorem tagged_line_round_trip:
  assumes "key_clean key" "trim_start v \<noteq> []" "provenance_filled prov"
  shows "parse_markdown_entry_line (format_tagged_line key v layer prov) =
    Some \<lparr>pl_key = key, pl_content = trim_end v, pl_layer = Some layer, pl_provenance = prov\<rparr>"
  using parse_format [OF assms] .

theorem tagged_line_round_trip_witness:
  "parse_markdown_entry_line (format_tagged_line ''person:alice:name'' ''Alice [md: '' LIdentity
     (Some \<lparr>source_class = ToolVerified, prov_reference = ''a;b=100%'', evidence_uri = Some ''x]: y''\<rparr>)) =
   Some \<lparr>pl_key = ''person:alice:name'', pl_content = ''Alice [md:'', pl_layer = Some LIdentity,
     pl_provenance = Some \<lparr>source_class = ToolVerified, prov_reference = ''a;b=100%'',
                           evidence_uri = Some ''x]: y''\<rparr>\<rparr>"
proof -
  have "key_clean ''person:alice:name''" "trim_start ''Alice [md: '' \<noteq> []"
    "provenance_filled (Some \<lparr>source_class = ToolVerified, prov_reference = ''a;b=100%'',
                             evidence_uri = Some ''x]: y''\<rparr>)"
    "trim_end ''Alice [md: '' = ''Alice [md:''"
    by code_simp+
  then show ?thesis using tagged_line_round_trip by simp
qed

text \<open>An empty value is read back as the closing of its own tags, without a layer.\<close>

lemma empty_value_reads_as_tags:
  "parse_markdown_entry_line (format_tagged_line ''a:b'' [] LSemantic None) =
   Some \<lparr>pl_key = ''a:b'', pl_content = ''[md:layer=semantic]:'', pl_layer = None, pl_provenance = None\<rparr>"
  by code_simp

definition provenance_one_line :: "memory_provenance option \<Rightarrow> bool" where
  "provenance_one_line prov \<longleftrightarrow>
     (case prov of
        None \<Rightarrow> True
      | Some p \<Rightarrow> nl \<notin> set (prov_reference p) \<and>
          (case evidence_uri p of None \<Rightarrow> True | Some u \<Rightarrow> nl \<notin> set u))"

lemma format_no_nl:
  assumes "key_clean key" "nl \<notin> set v" "provenance_one_line prov"
  shows "nl \<notin> set (format_tagged_line key v layer prov)"
proof -
  have n: "nl \<notin> set (memory_layer_to_str layer)" "nl \<notin> set (memory_source_to_str c)" for c
    by (cases layer; simp) (cases c; simp)
  have "nl \<notin> set x" if "x \<in> set (tag_fields layer prov)" for x
    using that n assms(3)
    by (auto simp: tag_fields_def provenance_one_line_def dest: encode_tag_value_no_nl split: option.splits)
  then have "nl \<notin> set (join '';'' (tag_fields layer prov))"
    using set_join [of "CHR '';''" "tag_fields layer prov"] by fastforce
  then show ?thesis using key_clean_no [OF assms(1)] assms(2) by (simp add: format_tagged_line_def)
qed

end
