(* ===== verification/Forget_Contract.thy ===== *)
theory Forget_Contract
  imports Memory_Tools
begin

text \<open>
  What forgetting means (\<open>src/src/contracts/memory_forget.rs\<close>): the requirement each mode puts on each
  stored artifact, when an observation meets it, and the outcome built from the checks.
\<close>

datatype forget_status = ForgetComplete | ForgetIncomplete | DegradedNonComplete | NotApplied

datatype forget_artifact = ArtSlot | RetrievalUnits | RetrievalDocs | Caches | Ledger

datatype forget_requirement = NotGoverned | MustExist | MustBeAbsent | MustBeNonRetrievable

datatype forget_observation = Absent | PresentNonRetrievable | PresentRetrievable

fun is_satisfied_by :: "forget_requirement \<Rightarrow> forget_observation \<Rightarrow> bool" where
  "is_satisfied_by NotGoverned _ = True"
| "is_satisfied_by MustExist obs = (obs \<noteq> Absent)"
| "is_satisfied_by MustBeAbsent obs = (obs = Absent)"
| "is_satisfied_by MustBeNonRetrievable obs = (obs \<noteq> PresentRetrievable)"

record artifact_check =
  ac_artifact :: forget_artifact
  ac_requirement :: forget_requirement
  ac_observed :: forget_observation
  ac_satisfied :: bool

definition check_new :: "forget_artifact \<Rightarrow> forget_requirement \<Rightarrow> forget_observation \<Rightarrow> artifact_check" where
  "check_new a r obs = \<lparr>ac_artifact = a, ac_requirement = r, ac_observed = obs,
     ac_satisfied = is_satisfied_by r obs\<rparr>"

fun artifact_requirement :: "forget_mode \<Rightarrow> forget_artifact \<Rightarrow> forget_requirement" where
  "artifact_requirement ForgetSoft ArtSlot = MustBeNonRetrievable"
| "artifact_requirement ForgetSoft RetrievalUnits = MustBeNonRetrievable"
| "artifact_requirement ForgetSoft RetrievalDocs = MustBeNonRetrievable"
| "artifact_requirement ForgetTombstone ArtSlot = MustBeNonRetrievable"
| "artifact_requirement ForgetSoft Caches = NotGoverned"
| "artifact_requirement _ Ledger = MustExist"
| "artifact_requirement ForgetHard _ = MustBeAbsent"
| "artifact_requirement ForgetTombstone _ = MustBeAbsent"

record outcome_full =
  of_entity :: rstr
  of_slot :: rstr
  of_mode :: forget_mode
  of_applied :: bool
  of_complete :: bool
  of_degraded :: bool
  of_status :: forget_status
  of_checks :: "artifact_check list"

definition from_checks ::
    "rstr \<Rightarrow> rstr \<Rightarrow> forget_mode \<Rightarrow> bool \<Rightarrow> bool \<Rightarrow> artifact_check list \<Rightarrow> outcome_full" where
  "from_checks entity slot mode applied degraded checks =
     (let complete = applied \<and> list_all ac_satisfied checks in
      \<lparr>of_entity = entity, of_slot = slot, of_mode = mode, of_applied = applied, of_complete = complete,
       of_degraded = degraded,
       of_status = (if complete then ForgetComplete else if degraded then DegradedNonComplete
                    else if \<not> applied then NotApplied else ForgetIncomplete),
       of_checks = checks\<rparr>)"

subsection \<open>As JSON\<close>

fun status_name :: "forget_status \<Rightarrow> rstr" where
  "status_name ForgetComplete = ''complete''"
| "status_name ForgetIncomplete = ''incomplete''"
| "status_name DegradedNonComplete = ''degraded_non_complete''"
| "status_name NotApplied = ''not_applied''"

fun artifact_name :: "forget_artifact \<Rightarrow> rstr" where
  "artifact_name ArtSlot = ''slot''"
| "artifact_name RetrievalUnits = ''retrieval_units''"
| "artifact_name RetrievalDocs = ''retrieval_docs''"
| "artifact_name Caches = ''caches''"
| "artifact_name Ledger = ''ledger''"

fun requirement_name :: "forget_requirement \<Rightarrow> rstr" where
  "requirement_name NotGoverned = ''not_governed''"
| "requirement_name MustExist = ''must_exist''"
| "requirement_name MustBeAbsent = ''must_be_absent''"
| "requirement_name MustBeNonRetrievable = ''must_be_non_retrievable''"

fun observation_name :: "forget_observation \<Rightarrow> rstr" where
  "observation_name Absent = ''absent''"
| "observation_name PresentNonRetrievable = ''present_non_retrievable''"
| "observation_name PresentRetrievable = ''present_retrievable''"

definition check_json :: "artifact_check \<Rightarrow> json" where
  "check_json c = JObject [(''artifact'', JString (artifact_name (ac_artifact c))),
     (''requirement'', JString (requirement_name (ac_requirement c))),
     (''observed'', JString (observation_name (ac_observed c))), (''is_satisfied'', JBool (ac_satisfied c))]"

definition outcome_to_json :: "outcome_full \<Rightarrow> json" where
  "outcome_to_json x = JObject [(''entity_id'', JString (of_entity x)), (''slot_key'', JString (of_slot x)),
     (''mode'', JString (forget_mode_name (of_mode x))), (''was_applied'', JBool (of_applied x)),
     (''is_complete'', JBool (of_complete x)), (''is_degraded'', JBool (of_degraded x)),
     (''status'', JString (status_name (of_status x))),
     (''artifact_checks'', JArray (map check_json (of_checks x)))]"

definition forget_outcome_of :: "outcome_full \<Rightarrow> forget_outcome" where
  "forget_outcome_of x = \<lparr>was_applied = of_applied x, outcome_json = outcome_to_json x\<rparr>"

subsection \<open>Strength of the modes\<close>

text \<open>A requirement is stronger when every observation that meets it meets the other too.\<close>

definition stronger :: "forget_requirement \<Rightarrow> forget_requirement \<Rightarrow> bool" where
  "stronger r r' \<longleftrightarrow> (\<forall>obs. is_satisfied_by r obs \<longrightarrow> is_satisfied_by r' obs)"

lemma modes_ordered:
  "stronger (artifact_requirement ForgetHard a) (artifact_requirement ForgetTombstone a) \<and>
   stronger (artifact_requirement ForgetTombstone a) (artifact_requirement ForgetSoft a)"
  unfolding stronger_def by (cases a) auto

text \<open>The status is complete exactly for an applied deletion whose checks all hold.\<close>

lemma from_checks_status:
  "of_status (from_checks e s m applied degraded checks) = ForgetComplete \<longleftrightarrow>
   applied \<and> list_all ac_satisfied checks"
  by (simp add: from_checks_def Let_def)

end
