(* ===== verification/Markdown_Memory.thy ===== *)
theory Markdown_Memory
  imports Markdown_Format Forget_Contract "HOL-Library.Option_ord"
begin

text \<open>
  The markdown memory backend (\<open>src/src/core/memory/markdown.rs\<close>): \<open>MEMORY.md\<close> and the daily logs as
  text, every operation as reading and appending that text. A call holds the append lock for the
  whole of its write, so appends happen one after the other. The clock, the new event id, a failing
  read or write and the Unicode lower-casing of the standard library are inputs of a call.
\<close>

subsection \<open>Files and entries\<close>

record md_files =
  md_core :: "rstr option"
  md_logs :: "(rstr \<times> rstr) list"

record md_env =
  md_today :: rstr
  md_uuid :: rstr
  md_read_failure :: "rstr option"
  md_append_failure :: "rstr option"
  md_lower :: "rstr \<Rightarrow> rstr"
  md_show_score :: "rat \<Rightarrow> rstr"

datatype memory_category = CatCore | CatDaily | CatConversation | CatCustom rstr

record md_entry =
  me_id :: rstr
  me_key :: rstr
  me_content :: rstr
  me_category :: memory_category
  me_timestamp :: rstr
  me_source :: "memory_source option"
  me_layer :: "memory_layer option"
  me_score :: "rat option"

fun layer_score :: "memory_layer \<Rightarrow> rat" where
  "layer_score LIdentity = 95 / 100"
| "layer_score LProcedural = 85 / 100"
| "layer_score LSemantic = 75 / 100"
| "layer_score LEpisodic = 65 / 100"
| "layer_score LWorking = 55 / 100"

definition entry_line :: "rstr \<Rightarrow> bool" where
  "entry_line l \<longleftrightarrow> trim l \<noteq> [] \<and> \<not> starts_with (trim l) ''#''"

definition make_entry :: "rstr \<Rightarrow> memory_category \<Rightarrow> nat \<Rightarrow> parsed_line \<Rightarrow> md_entry" where
  "make_entry filename category i p =
     \<lparr>me_id = filename @ '':'' @ decimal i, me_key = pl_key p, me_content = pl_content p,
      me_category = category, me_timestamp = filename,
      me_source = (case pl_provenance p of
                     Some pr \<Rightarrow> Some (source_class pr)
                   | None \<Rightarrow> map_option (\<lambda>_. SystemSource) (pl_layer p)),
      me_layer = pl_layer p, me_score = map_option layer_score (pl_layer p)\<rparr>"

definition parse_entries_from_file :: "rstr \<Rightarrow> rstr \<Rightarrow> memory_category \<Rightarrow> md_entry list" where
  "parse_entries_from_file filename content category =
     List.map_filter (\<lambda>(i, l). map_option (make_entry filename category i) (parse_markdown_entry_line l))
       (List.enumerate 0 (filter entry_line (lines content)))"

text \<open>
  Stable sorting, newest first: an element stays before a later one unless it is older. \<open>older\<close> is
  the comparison of time stamps.
\<close>

fun insert_newest :: "('b \<Rightarrow> 'b \<Rightarrow> bool) \<Rightarrow> ('a \<Rightarrow> 'b) \<Rightarrow> 'a \<Rightarrow> 'a list \<Rightarrow> 'a list" where
  "insert_newest older ts x [] = [x]"
| "insert_newest older ts x (y # ys) =
     (if older (ts x) (ts y) then y # insert_newest older ts x ys else x # y # ys)"

definition sort_newest :: "('b \<Rightarrow> 'b \<Rightarrow> bool) \<Rightarrow> ('a \<Rightarrow> 'b) \<Rightarrow> 'a list \<Rightarrow> 'a list" where
  "sort_newest older ts xs = foldr (insert_newest older ts) xs []"

text \<open>The undated core file is older than every dated log.\<close>

definition projection_older :: "rstr \<Rightarrow> rstr \<Rightarrow> bool" where
  "projection_older l r \<longleftrightarrow>
     (if l = ''MEMORY'' \<and> r = ''MEMORY'' then False
      else if l = ''MEMORY'' then True
      else if r = ''MEMORY'' then False
      else l < r)"

definition read_all_entries :: "md_env \<Rightarrow> md_files \<Rightarrow> (rstr, md_entry list) result" where
  "read_all_entries env m =
     (case md_read_failure env of
        Some msg \<Rightarrow> Err msg
      | None \<Rightarrow>
          Ok (sort_newest projection_older me_timestamp
            ((case md_core m of None \<Rightarrow> [] | Some c \<Rightarrow> parse_entries_from_file ''MEMORY'' c CatCore) @
             concat (map (\<lambda>(stem, c). parse_entries_from_file stem c CatDaily) (md_logs m)))))"

text \<open>The parsed lines with the stem of their file, compared as plain strings.\<close>

definition parsed_lines_from_file :: "rstr \<Rightarrow> rstr \<Rightarrow> (rstr \<times> parsed_line) list" where
  "parsed_lines_from_file stem content =
     map (Pair stem) (List.map_filter parse_markdown_entry_line (filter entry_line (lines content)))"

definition read_all_parsed_lines :: "md_env \<Rightarrow> md_files \<Rightarrow> (rstr, (rstr \<times> parsed_line) list) result" where
  "read_all_parsed_lines env m =
     (case md_read_failure env of
        Some msg \<Rightarrow> Err msg
      | None \<Rightarrow>
          Ok (sort_newest (<) fst
            ((case md_core m of None \<Rightarrow> [] | Some c \<Rightarrow> parsed_lines_from_file ''MEMORY'' c) @
             concat (map (\<lambda>(stem, c). parsed_lines_from_file stem c) (md_logs m)))))"

text \<open>The fold that keeps the current entry only when it is strictly newer.\<close>

definition newest :: "('b \<Rightarrow> 'b \<Rightarrow> bool) \<Rightarrow> ('a \<Rightarrow> 'b) \<Rightarrow> 'a list \<Rightarrow> 'a option" where
  "newest older ts xs =
     fold (\<lambda>e latest. case latest of
             Some current \<Rightarrow> if older (ts e) (ts current) then Some current else Some e
           | None \<Rightarrow> Some e) xs None"

subsection \<open>Reading\<close>

definition fetch_projection_entry :: "md_env \<Rightarrow> md_files \<Rightarrow> rstr \<Rightarrow> (rstr, md_entry option) result" where
  "fetch_projection_entry env m key =
     (case read_all_entries env m of
        Err msg \<Rightarrow> Err msg
      | Ok es \<Rightarrow> Ok (newest projection_older me_timestamp (filter (\<lambda>e. me_key e = key) es)))"

definition slot_name :: "rstr \<Rightarrow> rstr \<Rightarrow> rstr" where
  "slot_name entity slot = entity @ '':'' @ slot"

definition entry_slot_of :: "rstr \<Rightarrow> rstr \<Rightarrow> md_entry \<Rightarrow> belief_slot" where
  "entry_slot_of entity slot e =
     \<lparr>slot_entity = entity, slot_key = slot, slot_value = me_content e, slot_confidence = 1 / 2,
      slot_importance = 1 / 2, slot_privacy = Private, slot_updated_at = me_timestamp e\<rparr>"

definition md_resolve_slot :: "md_env \<Rightarrow> md_files \<Rightarrow> rstr \<Rightarrow> rstr \<Rightarrow> (memory_error, belief_slot option) result" where
  "md_resolve_slot env m entity slot =
     (case fetch_projection_entry env m (slot_name entity slot) of
        Err msg \<Rightarrow> Err (QueryErr msg)
      | Ok e \<Rightarrow> Ok (map_option (entry_slot_of entity slot) e))"

definition current_slot_provenance ::
    "md_env \<Rightarrow> md_files \<Rightarrow> rstr \<Rightarrow> rstr \<Rightarrow> (memory_error, memory_provenance option) result" where
  "current_slot_provenance env m entity slot =
     (case read_all_parsed_lines env m of
        Err msg \<Rightarrow> Err (QueryErr msg)
      | Ok es \<Rightarrow>
          Ok (Option.bind (newest (<) fst (filter (\<lambda>e. pl_key (snd e) = slot_name entity slot) es))
                (pl_provenance \<circ> snd)))"

definition bounded_count :: "nat \<Rightarrow> rat" where
  "bounded_count n = min (of_nat n) 4294967295"

text \<open>A single token that looks like a slot prefix is also looked for in the key.\<close>

definition is_slot_prefix_lookup :: "rstr list \<Rightarrow> bool" where
  "is_slot_prefix_lookup keywords =
     (case keywords of
        [k] \<Rightarrow> contains k ''/'' \<or> contains k '':'' \<or> contains k ''.'' \<or> ends_with k ''_''
      | _ \<Rightarrow> False)"

definition matched :: "md_env \<Rightarrow> rstr list \<Rightarrow> md_entry \<Rightarrow> nat" where
  "matched env keywords e =
     length (filter (\<lambda>k. (is_slot_prefix_lookup keywords \<and> contains (md_lower env (me_key e)) k) \<or>
                         contains (md_lower env (me_content e)) k) keywords)"

definition rescored :: "md_env \<Rightarrow> rstr list \<Rightarrow> md_entry \<Rightarrow> md_entry" where
  "rescored env keywords e =
     e\<lparr>me_score := Some (bounded_count (matched env keywords e) / bounded_count (length keywords))\<rparr>"

definition search_projection ::
    "md_env \<Rightarrow> md_files \<Rightarrow> rstr \<Rightarrow> nat \<Rightarrow> memory_layer option \<Rightarrow> rstr option \<Rightarrow> (rstr, md_entry list) result" where
  "search_projection env m query limit layer_filter key_prefix =
     (case read_all_entries env m of
        Err msg \<Rightarrow> Err msg
      | Ok es \<Rightarrow>
          let keywords = split_whitespace (md_lower env query);
              scored = map (rescored env keywords)
                 (filter (\<lambda>e. 0 < matched env keywords e)
                   (filter (\<lambda>e. layer_filter = None \<or> me_layer e = layer_filter)
                     (filter (\<lambda>e. case key_prefix of None \<Rightarrow> True | Some p \<Rightarrow> starts_with (me_key e) p) es)))
          in Ok (take limit (sort_newest (<) (\<lambda>e. the (me_score e)) scored)))"

definition md_recall_scoped :: "md_env \<Rightarrow> md_files \<Rightarrow> recall_query \<Rightarrow> (memory_error, recall_entry list) result" where
  "md_recall_scoped env m q =
     (case enforce_policy q of
        Err e \<Rightarrow> Err e
      | Ok _ \<Rightarrow>
          let prefix = rq_entity q @ '':'' in
          (case search_projection env m (rq_query q) (rq_limit q) (rq_layer_filter q) (Some prefix) of
             Err msg \<Rightarrow> Err (QueryErr msg)
           | Ok es \<Rightarrow>
               Ok (map (\<lambda>e. \<lparr>entry_entity = rq_entity q,
                              entry_slot = (case strip_prefix prefix (me_key e) of
                                              Some s \<Rightarrow> s | None \<Rightarrow> me_key e),
                              entry_value = me_content e,
                              entry_score = md_show_score env (case me_score e of Some s \<Rightarrow> s | None \<Rightarrow> 0)\<rparr>)
                     es)))"

definition md_count_events :: "md_env \<Rightarrow> md_files \<Rightarrow> rstr option \<Rightarrow> (memory_error, nat) result" where
  "md_count_events env m entity =
     (case read_all_entries env m of Err msg \<Rightarrow> Err (QueryErr msg) | Ok es \<Rightarrow> Ok (length es))"

text \<open>\<open>rsplit_once(':')\<close>, and the entities and slots in the order of the B-tree maps.\<close>

definition rsplit_once :: "char \<Rightarrow> rstr \<Rightarrow> (rstr \<times> rstr) option" where
  "rsplit_once c s = map_option (\<lambda>(a, b). (rev b, rev a)) (split_once c (rev s))"

definition md_list_entities :: "md_env \<Rightarrow> md_files \<Rightarrow> (memory_error, rstr list) result" where
  "md_list_entities env m =
     (case read_all_entries env m of
        Err msg \<Rightarrow> Err (QueryErr msg)
      | Ok es \<Rightarrow> Ok (sort (remdups (List.map_filter (\<lambda>e. map_option fst (rsplit_once (CHR '':'') (me_key e))) es))))"

definition md_list_slots :: "md_env \<Rightarrow> md_files \<Rightarrow> rstr \<Rightarrow> (memory_error, belief_slot list) result" where
  "md_list_slots env m entity =
     (case read_all_entries env m of
        Err msg \<Rightarrow> Err (QueryErr msg)
      | Ok es \<Rightarrow>
          let own = filter (\<lambda>e. starts_with (me_key e) (entity @ '':'')) es;
              keys = sort (remdups (map (\<lambda>e. drop (length entity + 1) (me_key e)) own)) in
          Ok (map (\<lambda>k. entry_slot_of entity k
                 (the (newest projection_older me_timestamp (filter (\<lambda>e. me_key e = slot_name entity k) own))))
               keys))"

subsection \<open>Writing\<close>

definition file_header :: "bool \<Rightarrow> rstr \<Rightarrow> rstr" where
  "file_header core today =
     (if core then ''# Long-Term Memory'' @ [nl, nl]
      else ''# Daily Log '' @ [CHR 0xE2, CHR 0x80, CHR 0x94] @ '' '' @ today @ [nl, nl])"

text \<open>The new content of a file; a missing file is read as empty.\<close>

definition appended :: "rstr \<Rightarrow> rstr \<Rightarrow> rstr \<Rightarrow> rstr" where
  "appended header existing content =
     (if existing = [] then header @ content @ [nl] else existing @ [nl] @ content @ [nl])"

fun update_log :: "rstr \<Rightarrow> (rstr \<Rightarrow> rstr) \<Rightarrow> (rstr \<times> rstr) list \<Rightarrow> (rstr \<times> rstr) list" where
  "update_log stem f [] = [(stem, f [])]"
| "update_log stem f ((s, c) # logs) = (if s = stem then (s, f c) # logs else (s, c) # update_log stem f logs)"

definition append_to_file :: "md_env \<Rightarrow> bool \<Rightarrow> rstr \<Rightarrow> md_files \<Rightarrow> md_files \<times> (rstr, unit) result" where
  "append_to_file env core content m =
     (case md_append_failure env of
        Some msg \<Rightarrow> (m, Err msg)
      | None \<Rightarrow>
          let f = (\<lambda>existing. appended (file_header core (md_today env)) existing content) in
          (if core then m\<lparr>md_core := Some (f (case md_core m of None \<Rightarrow> [] | Some c \<Rightarrow> c))\<rparr>
           else m\<lparr>md_logs := update_log (md_today env) f (md_logs m)\<rparr>,
           Ok ()))"

definition upsert_projection ::
    "md_env \<Rightarrow> rstr \<Rightarrow> rstr \<Rightarrow> memory_category \<Rightarrow> memory_layer \<Rightarrow> memory_provenance option \<Rightarrow>
     md_files \<Rightarrow> md_files \<times> (rstr, unit) result" where
  "upsert_projection env key content category layer prov m =
     append_to_file env (category = CatCore) (format_tagged_line key content layer prov) m"

fun default_category :: "memory_source \<Rightarrow> memory_category" where
  "default_category ExplicitUser = CatCore"
| "default_category ToolVerified = CatCore"
| "default_category ExternalPrimary = CatCore"
| "default_category SystemSource = CatDaily"
| "default_category InferredSource = CatConversation"
| "default_category ExternalSecondary = CatConversation"

definition projection_category_for_event ::
    "md_env \<Rightarrow> md_files \<Rightarrow> rstr \<Rightarrow> memory_event \<Rightarrow> (rstr, memory_category) result" where
  "projection_category_for_event env m key e =
     (if event_type e = FactUpdated
      then (case fetch_projection_entry env m key of
              Err msg \<Rightarrow> Err msg
            | Ok (Some current) \<Rightarrow> Ok (me_category current)
            | Ok None \<Rightarrow> Ok (default_category (event_source e)))
      else Ok (default_category (event_source e)))"

definition md_append_event :: "md_env \<Rightarrow> md_files \<Rightarrow> memory_event \<Rightarrow> md_files \<times> (memory_error, rstr) result" where
  "md_append_event env m input =
     (case normalize_for_ingress input of
        Err x \<Rightarrow> (m, Err x)
      | Ok e \<Rightarrow>
          let key = slot_name (event_entity e) (event_slot e) in
          (case projection_category_for_event env m key e of
             Err msg \<Rightarrow> (m, Err (WriteErr msg))
           | Ok category \<Rightarrow>
               (case upsert_projection env key (event_value e) category (event_layer e) (event_provenance e) m of
                  (m', Err msg) \<Rightarrow> (m', Err (WriteErr msg))
                | (m', Ok _) \<Rightarrow> (m', Ok (md_uuid env)))))"

text \<open>Append-only: nothing is ever deleted, and the outcome says so.\<close>

definition observe :: "'a option \<Rightarrow> forget_observation" where
  "observe x = (if x = None then Absent else PresentRetrievable)"

definition md_slot_requirement :: "forget_mode \<Rightarrow> forget_requirement" where
  "md_slot_requirement mode = (if mode = ForgetHard then MustBeAbsent else MustBeNonRetrievable)"

definition md_forget_full ::
    "md_env \<Rightarrow> md_files \<Rightarrow> rstr \<Rightarrow> rstr \<Rightarrow> forget_mode \<Rightarrow> (memory_error, outcome_full) result" where
  "md_forget_full env m entity slot mode =
     (case fetch_projection_entry env m (slot_name entity slot) of
        Err msg \<Rightarrow> Err (WriteErr msg)
      | Ok e \<Rightarrow>
          Ok (from_checks entity slot mode False True
            [check_new ArtSlot (md_slot_requirement mode) (observe (map_option (entry_slot_of entity slot) e)),
             check_new RetrievalDocs (md_slot_requirement mode) (observe e),
             check_new Caches NotGoverned Absent,
             check_new Ledger NotGoverned Absent]))"

definition md_forget_slot ::
    "md_env \<Rightarrow> md_files \<Rightarrow> rstr \<Rightarrow> rstr \<Rightarrow> forget_mode \<Rightarrow> rstr \<Rightarrow> md_files \<times> (memory_error, forget_outcome) result" where
  "md_forget_slot env m entity slot mode reason =
     (m, case md_forget_full env m entity slot mode of
           Err e \<Rightarrow> Err e | Ok x \<Rightarrow> Ok (forget_outcome_of x))"

definition markdown_backend :: "md_env \<Rightarrow> md_files backend" where
  "markdown_backend env =
     \<lparr>b_name = ''markdown'', b_append = md_append_event env, b_resolve = md_resolve_slot env,
      b_forget = md_forget_slot env, b_recall = md_recall_scoped env,
      b_count = (\<lambda>m entity. md_count_events env m (Some entity)),
      b_verify = (\<lambda>m. Err (UnsupportedErr (''memory backend '' @ [CHR 0x27] @ ''markdown'' @ [CHR 0x27] @
                    '' does not support integrity verification'')))\<rparr>"

subsection \<open>Sorting does not change what is newest\<close>

text \<open>Both comparisons are the order of a linearly ordered rank.\<close>

definition stem_rank :: "rstr \<Rightarrow> rstr option" where
  "stem_rank s = (if s = ''MEMORY'' then None else Some s)"

lemma projection_older_rank: "projection_older l r \<longleftrightarrow> stem_rank l < stem_rank r"
  unfolding projection_older_def stem_rank_def by (cases "l = ''MEMORY''"; cases "r = ''MEMORY''") simp_all

text \<open>The newest element, the last one among equals, by recursion from the front.\<close>

fun newest_rec :: "('a \<Rightarrow> 'b::linorder) \<Rightarrow> 'a list \<Rightarrow> 'a option" where
  "newest_rec ts [] = None"
| "newest_rec ts (x # xs) =
     (case newest_rec ts xs of None \<Rightarrow> Some x | Some y \<Rightarrow> if ts y < ts x then Some x else Some y)"

lemma newest_fold:
  "fold (\<lambda>e latest. case latest of
             Some current \<Rightarrow> if ts e < ts current then Some current else Some e
           | None \<Rightarrow> Some e) xs (Some a) =
     (case newest_rec ts xs of None \<Rightarrow> Some a | Some y \<Rightarrow> if ts y < ts a then Some a else Some y)"
proof (induction xs arbitrary: a)
  case (Cons x xs)
  show ?case by (cases "newest_rec ts xs") (auto simp: Cons)
qed simp

lemma newest_eq: "newest (<) ts xs = newest_rec ts xs"
  by (cases xs) (simp_all add: newest_def newest_fold)

lemma newest_swap:
  "ts x < ts y \<Longrightarrow> newest_rec ts (y # x # zs) = newest_rec ts (x # y # zs)"
  by (cases "newest_rec ts zs") auto

lemma newest_insert:
  "newest_rec ts (filter P (insert_newest (<) ts x ys)) = newest_rec ts (filter P (x # ys))"
proof (induction ys)
  case (Cons y ys)
  show ?case
  proof (cases "ts x < ts y")
    case True
    then show ?thesis using Cons newest_swap [of ts x y "filter P ys"] by auto
  qed simp
qed simp

lemma newest_sort: "newest_rec ts (filter P (sort_newest (<) ts xs)) = newest_rec ts (filter P xs)"
proof (induction xs)
  case (Cons x xs)
  have "newest_rec ts (filter P (sort_newest (<) ts (x # xs))) =
      newest_rec ts (filter P (x # sort_newest (<) ts xs))"
    by (simp only: sort_newest_def foldr.simps o_apply newest_insert)
  then show ?case using Cons by simp
qed (simp add: sort_newest_def)

lemma insert_newest_map: "(\<And>a b. older a b \<longleftrightarrow> f a < f b) \<Longrightarrow>
    insert_newest older ts x xs = insert_newest (<) (f \<circ> ts) x xs"
  by (induction xs) auto

lemma sort_newest_map: "(\<And>a b. older a b \<longleftrightarrow> f a < f b) \<Longrightarrow>
    sort_newest older ts xs = sort_newest (<) (f \<circ> ts) xs"
  by (induction xs) (simp_all add: sort_newest_def insert_newest_map [of older f])

lemma newest_map: "(\<And>a b. older a b \<longleftrightarrow> f a < f b) \<Longrightarrow> newest older ts xs = newest (<) (f \<circ> ts) xs"
proof -
  assume "\<And>a b. older a b \<longleftrightarrow> f a < f b"
  then have "older = (\<lambda>a b. f a < f b)" by (intro ext) simp
  then show ?thesis unfolding newest_def comp_def by (simp only:)
qed

lemma set_insert_newest: "set (insert_newest older ts x xs) = insert x (set xs)"
  by (induction xs) auto

lemma set_sort_newest [simp]: "set (sort_newest older ts xs) = set xs"
  by (induction xs) (simp_all add: sort_newest_def set_insert_newest)

lemma length_insert_newest: "length (insert_newest older ts x xs) = Suc (length xs)"
  by (induction xs) auto

lemma length_sort_newest [simp]: "length (sort_newest older ts xs) = length xs"
  by (induction xs) (simp_all add: sort_newest_def length_insert_newest)

subsection \<open>What a fetch finds\<close>

definition all_entries :: "md_files \<Rightarrow> md_entry list" where
  "all_entries m =
     (case md_core m of None \<Rightarrow> [] | Some c \<Rightarrow> parse_entries_from_file ''MEMORY'' c CatCore) @
     concat (map (\<lambda>(stem, c). parse_entries_from_file stem c CatDaily) (md_logs m))"

definition current :: "md_files \<Rightarrow> rstr \<Rightarrow> md_entry option" where
  "current m key = newest_rec (stem_rank \<circ> me_timestamp) (filter (\<lambda>e. me_key e = key) (all_entries m))"

lemma fetch_current:
  "fetch_projection_entry env m key =
     (case md_read_failure env of Some msg \<Rightarrow> Err msg | None \<Rightarrow> Ok (current m key))"
  by (simp add: fetch_projection_entry_def read_all_entries_def current_def all_entries_def newest_eq newest_sort
      newest_map [OF projection_older_rank] sort_newest_map [OF projection_older_rank] split: option.split)

subsection \<open>Entries of an appended file\<close>

definition entry_lines :: "rstr \<Rightarrow> rstr list" where
  "entry_lines c = filter (\<lambda>l. \<not> starts_with l ''#'') (filter (\<lambda>l. l \<noteq> []) (map trim (lines c)))"

lemma parse_trim [simp]: "parse_markdown_entry_line (trim l) = parse_markdown_entry_line l"
  by (simp add: parse_markdown_entry_line_def)

lemma filter_entry_line: "map trim (filter entry_line ls) = filter (\<lambda>l. \<not> starts_with l ''#'') (filter (\<lambda>l. l \<noteq> []) (map trim ls))"
  by (induction ls) (auto simp: entry_line_def)

lemma map_filter_enumerate_map:
  "(\<And>i l. f (i, g l) = f (i, l)) \<Longrightarrow>
   List.map_filter f (List.enumerate n (map g ls)) = List.map_filter f (List.enumerate n ls)"
  by (induction ls arbitrary: n) (auto simp: List.map_filter_def)

lemma parse_entries_entry_lines:
  "parse_entries_from_file f c cat =
   List.map_filter (\<lambda>(i, l). map_option (make_entry f cat i) (parse_markdown_entry_line l))
     (List.enumerate 0 (entry_lines c))"
  unfolding parse_entries_from_file_def entry_lines_def filter_entry_line [symmetric]
  by (subst map_filter_enumerate_map) auto

lemma entry_lines_append: "entry_lines (a @ nl # b) = entry_lines a @ entry_lines b"
  using trim_lines_final [of a] by (simp add: entry_lines_def lines_append [of a b])

lemma entry_lines_header: "entry_lines (file_header core today @ c) = entry_lines c"
  if "nl \<notin> set today"
proof -
  have h: "entry_lines (h @ nl # nl # c) = entry_lines c"
    if no_nl: "nl \<notin> set h" and sharp: "starts_with h ''# ''" for h
  proof -
    have "trim h = [] \<or> starts_with (trim h) ''#''"
    proof -
      obtain t where t: "h = ''#'' @ t" using sharp by (cases h) (auto split: if_splits)
      have "trim_start h = h" by (intro trim_start_id) (simp add: t ws_len_not_lead ws_lead_def is_ascii_ws_def)
      then show ?thesis by (simp add: trim_def t)
    qed
    moreover have "h \<noteq> []" using sharp by auto
    ultimately have "entry_lines h = []"
      using no_nl by (auto simp: entry_lines_def lines_single)
    moreover have "entry_lines (nl # c) = entry_lines c" using entry_lines_append [of "[]" c]
      by (simp add: entry_lines_def)
    ultimately show ?thesis by (simp add: entry_lines_append [of h "nl # c"])
  qed
  show ?thesis
  proof (cases core)
    case True
    then show ?thesis using h [of "''# Long-Term Memory''"] by (simp add: file_header_def)
  next
    case False
    then show ?thesis
      using h [of "''# Daily Log '' @ [CHR 0xE2, CHR 0x80, CHR 0x94] @ '' '' @ today"] that
      by (simp add: file_header_def)
  qed
qed

lemma map_filter_append: "List.map_filter f (xs @ ys) = List.map_filter f xs @ List.map_filter f ys"
  by (simp add: List.map_filter_def)

lemma enumerate_snoc: "List.enumerate n (xs @ [x]) = List.enumerate n xs @ [(n + length xs, x)]"
  by (simp add: enumerate_append_eq)

text \<open>One line appended is one entry more, at the end; the entries before it keep their numbers.\<close>

lemma parse_entries_appended:
  assumes "nl \<notin> set today" "nl \<notin> set content" "parse_markdown_entry_line content = Some p"
  shows "parse_entries_from_file f (appended (file_header core today) existing content) cat =
     parse_entries_from_file f existing cat @ [make_entry f cat (length (entry_lines existing)) p]"
proof -
  have t: "trim content \<noteq> []" "\<not> starts_with (trim content) ''#''"
    using assms(3) by (auto simp: parse_markdown_entry_line_def strip_prefix_Some split: option.splits)
  then have ne: "content \<noteq> []" by auto
  have one: "entry_lines (content @ [nl]) = [trim content]"
    using t ne assms(2) entry_lines_append [of content "[]"] by (simp add: entry_lines_def lines_single)
  have "entry_lines (appended (file_header core today) existing content) = entry_lines existing @ [trim content]"
  proof (cases "existing = []")
    case True
    then show ?thesis using entry_lines_header [OF assms(1), of core "content @ [nl]"] one
      by (simp add: appended_def entry_lines_def [of "[]"])
  next
    case False
    then show ?thesis using entry_lines_append [of existing "content @ [nl]"] one by (simp add: appended_def)
  qed
  then show ?thesis
    using assms(3) by (simp add: parse_entries_entry_lines enumerate_snoc map_filter_append List.map_filter_def)
qed

subsection \<open>A write and the reads after it\<close>

lemma newest_rec_None [simp]: "newest_rec ts xs = None \<longleftrightarrow> xs = []"
  by (cases xs) (auto split: option.splits)

lemma newest_rec_in: "newest_rec ts xs = Some y \<Longrightarrow> y \<in> set xs \<and> (\<forall>x \<in> set xs. ts x \<le> ts y)"
  by (induction xs arbitrary: y) (force split: option.splits if_splits)+

lemma newest_at:
  assumes "\<And>x. x \<in> set xs \<Longrightarrow> ts x \<le> ts e" "\<And>y. y \<in> set ys \<Longrightarrow> ts y < ts e"
  shows "newest_rec ts (xs @ e # ys) = Some e"
  using assms(1)
proof (induction xs)
  case Nil
  then show ?case using assms(2) newest_rec_in [of ts ys] by (fastforce split: option.splits)
next
  case (Cons x xs)
  then show ?case by (simp add: leD)
qed

lemma newest_split:
  "newest_rec ts xs = Some y \<Longrightarrow>
   \<exists>a b. xs = a @ y # b \<and> (\<forall>x \<in> set a. ts x \<le> ts y) \<and> (\<forall>x \<in> set b. ts x < ts y)"
proof (induction xs)
  case (Cons x xs)
  show ?case
  proof (cases "newest_rec ts xs")
    case None
    then show ?thesis using Cons.prems by (intro exI [of _ "[]"]) auto
  next
    case (Some z)
    show ?thesis
    proof (cases "ts z < ts x")
      case True
      then have "y = x" using Cons.prems Some by simp
      then show ?thesis using True newest_rec_in [OF Some] by (intro exI [of _ "[]"] exI [of _ xs]) auto
    next
      case False
      then have z: "newest_rec ts xs = Some y" using Cons.prems Some by simp
      from Cons.IH [OF z] obtain a b where ab: "xs = a @ y # b" "\<forall>x \<in> set a. ts x \<le> ts y"
        "\<forall>x \<in> set b. ts x < ts y" by blast
      have "ts x \<le> ts y" using False z Some by simp
      with ab show ?thesis by (intro exI [of _ "x # a"] exI [of _ b]) auto
    qed
  qed
qed simp

lemma newest_skip:
  assumes "z \<in> set (xs @ ys)" "ts e < ts z"
  shows "newest_rec ts (xs @ e # ys) = newest_rec ts (xs @ ys)"
proof -
  obtain w where w: "newest_rec ts (xs @ ys) = Some w"
    using assms(1) by (cases "newest_rec ts (xs @ ys)") auto
  then have e: "ts e < ts w" using assms newest_rec_in by fastforce
  obtain a b where ab: "xs @ ys = a @ w # b" "\<forall>x \<in> set a. ts x \<le> ts w" "\<forall>x \<in> set b. ts x < ts w"
    using newest_split [OF w] by blast
  from ab(1) obtain us where "xs = a @ us \<and> us @ ys = w # b \<or> xs @ us = a \<and> ys = us @ w # b"
    by (auto simp: append_eq_append_conv2)
  then consider (before) "a = xs @ us" "ys = us @ w # b" | (within) vs where "xs = a @ w # vs" "b = vs @ ys"
    | (at) "xs = a" "ys = w # b"
    by (cases us) auto
  then have "newest_rec ts (xs @ e # ys) = Some w"
  proof cases
    case before
    then have "newest_rec ts ((xs @ e # us) @ w # b) = Some w"
      using ab(2,3) e by (intro newest_at) (auto intro: less_imp_le)
    then show ?thesis using before by simp
  next
    case within
    then show ?thesis using newest_at [of a ts w "vs @ e # ys"] ab(2,3) e by auto
  next
    case at
    then have "newest_rec ts ((xs @ [e]) @ w # b) = Some w"
      using ab(2,3) e by (intro newest_at) (auto intro: less_imp_le)
    then show ?thesis using at by simp
  qed
  then show ?thesis using w by simp
qed

lemma entries_stem: "e \<in> set (parse_entries_from_file f c cat) \<Longrightarrow> me_timestamp e = f \<and> me_category e = cat"
  by (auto simp: parse_entries_from_file_def List.map_filter_def make_entry_def split: option.splits)

definition log_entries :: "(rstr \<times> rstr) list \<Rightarrow> md_entry list" where
  "log_entries logs = concat (map (\<lambda>(stem, c). parse_entries_from_file stem c CatDaily) logs)"

lemma log_entries_stem: "e \<in> set (log_entries logs) \<Longrightarrow> me_timestamp e \<in> fst ` set logs \<and> me_category e = CatDaily"
  by (force simp: log_entries_def dest: entries_stem)

lemma update_log_entries:
  assumes "distinct (map fst logs)"
    and "\<And>c. \<exists>e. parse_entries_from_file stem (f c) CatDaily = parse_entries_from_file stem c CatDaily @ [e] \<and> P e"
  shows "\<exists>a b e. P e \<and> log_entries (update_log stem f logs) = a @ e # b \<and> log_entries logs = a @ b \<and>
    (\<forall>x \<in> set b. me_timestamp x \<noteq> stem)"
  using assms(1)
proof (induction logs)
  case Nil
  obtain e where "parse_entries_from_file stem (f []) CatDaily = parse_entries_from_file stem [] CatDaily @ [e]" "P e"
    using assms(2) by blast
  then show ?case
    by (intro exI [of _ "[]"] exI [of _ "[]"] exI [of _ e])
       (simp add: log_entries_def parse_entries_entry_lines [of _ "[]"] entry_lines_def List.map_filter_def)
next
  case (Cons l logs)
  obtain s c where l: "l = (s, c)" by (cases l)
  show ?case
  proof (cases "s = stem")
    case True
    obtain e where "parse_entries_from_file stem (f c) CatDaily = parse_entries_from_file stem c CatDaily @ [e]" "P e"
      using assms(2) by blast
    moreover have "\<forall>x \<in> set (log_entries logs). me_timestamp x \<noteq> stem"
      using log_entries_stem Cons.prems True l by fastforce
    ultimately show ?thesis using True l
      by (intro exI [of _ "parse_entries_from_file stem c CatDaily"] exI [of _ "log_entries logs"] exI [of _ e])
         (simp add: log_entries_def)
  next
    case False
    have "distinct (map fst logs)" using Cons.prems by simp
    from Cons.IH [OF this] obtain a b e where ih: "P e" "log_entries (update_log stem f logs) = a @ e # b"
      "log_entries logs = a @ b" "\<forall>x \<in> set b. me_timestamp x \<noteq> stem" by blast
    then show ?thesis using False l
      by (intro exI [of _ "parse_entries_from_file s c CatDaily @ a"] exI [of _ b] exI [of _ e])
         (simp add: log_entries_def)
  qed
qed

text \<open>The directory as the backend leaves it: one log a day, none from the future, no other name.\<close>

definition logs_ok :: "md_env \<Rightarrow> md_files \<Rightarrow> bool" where
  "logs_ok env m \<longleftrightarrow>
     distinct (map fst (md_logs m)) \<and> nl \<notin> set (md_today env) \<and> md_today env \<noteq> ''MEMORY'' \<and>
     list_all (\<lambda>l. fst l \<noteq> ''MEMORY'' \<and> \<not> md_today env < fst l) (md_logs m)"

definition clean_event :: "memory_event \<Rightarrow> bool" where
  "clean_event e \<longleftrightarrow>
     nl \<notin> set (event_value e) \<and> trim_start (event_value e) \<noteq> [] \<and> provenance_one_line (event_provenance e)"

text \<open>A core entry is hidden when a dated log has the same key.\<close>

definition dated :: "md_files \<Rightarrow> rstr \<Rightarrow> bool" where
  "dated m key \<longleftrightarrow> list_ex (\<lambda>e. me_key e = key) (log_entries (md_logs m))"

lemma all_entries_split:
  "all_entries m = parse_entries_from_file ''MEMORY'' (case md_core m of None \<Rightarrow> [] | Some c \<Rightarrow> c) CatCore @
     log_entries (md_logs m)"
  by (simp add: all_entries_def log_entries_def parse_entries_entry_lines [of _ "[]"] entry_lines_def
      List.map_filter_def split: option.split)

lemma slot_name_clean:
  "list_all (identifier_char False) entity \<Longrightarrow> list_all (identifier_char True) slot \<Longrightarrow> key_clean (slot_name entity slot)"
  by (auto simp: key_clean_def slot_name_def list_all_iff identifier_char_def)

lemma validated_filled: "validate_provenance src p = Ok () \<Longrightarrow> provenance_filled (Some p)"
  by (auto simp: validate_provenance_def provenance_filled_def split: if_splits option.splits)

text \<open>What a successful append adds: one entry, in the place its category chooses.\<close>

definition entry_of_event :: "memory_event \<Rightarrow> rstr \<Rightarrow> md_entry \<Rightarrow> bool" where
  "entry_of_event e key x \<longleftrightarrow> me_key x = key \<and> me_content x = trim_end (event_value e)"

lemma upsert_entries:
  assumes "logs_ok env m" "key_clean key" "clean_event e" "provenance_filled (event_provenance e)"
    and "upsert_projection env key (event_value e) category (event_layer e) (event_provenance e) m = (m', Ok ())"
  shows "\<exists>a x b. entry_of_event e key x \<and> all_entries m' = a @ x # b \<and> all_entries m = a @ b \<and>
     me_timestamp x = (if category = CatCore then ''MEMORY'' else md_today env) \<and>
     (\<forall>y \<in> set a. stem_rank (me_timestamp y) \<le> stem_rank (me_timestamp x)) \<and>
     (if category = CatCore then b = log_entries (md_logs m)
      else \<forall>y \<in> set b. stem_rank (me_timestamp y) < stem_rank (me_timestamp x))"
proof -
  let ?line = "format_tagged_line key (event_value e) (event_layer e) (event_provenance e)"
  let ?p = "\<lparr>pl_key = key, pl_content = trim_end (event_value e), pl_layer = Some (event_layer e),
             pl_provenance = event_provenance e\<rparr>"
  let ?core = "case md_core m of None \<Rightarrow> [] | Some c \<Rightarrow> c"
  have line: "parse_markdown_entry_line ?line = Some ?p" "nl \<notin> set ?line"
    using assms(2-4) format_no_nl [OF assms(2)] by (auto simp: clean_event_def parse_format)
  have today: "nl \<notin> set (md_today env)" using assms(1) by (simp add: logs_ok_def)
  note app = parse_entries_appended [OF today line(2,1)]
  have ok: "entry_of_event e key (make_entry f cat i ?p)" "me_timestamp (make_entry f cat i ?p) = f" for f cat i
    by (simp_all add: entry_of_event_def make_entry_def)
  show ?thesis
  proof (cases "category = CatCore")
    case True
    then have m': "md_core m' = Some (appended (file_header True (md_today env)) ?core ?line)" "md_logs m' = md_logs m"
      using assms(5) by (auto simp: upsert_projection_def append_to_file_def Let_def split: option.splits)
    show ?thesis
      by (intro exI [of _ "parse_entries_from_file ''MEMORY'' ?core CatCore"]
          exI [of _ "make_entry ''MEMORY'' CatCore (length (entry_lines ?core)) ?p"] exI [of _ "log_entries (md_logs m)"])
        (use True ok entries_stem in \<open>auto simp: all_entries_split m' app\<close>)
  next
    case False
    let ?P = "\<lambda>x. entry_of_event e key x \<and> me_timestamp x = md_today env"
    let ?f = "\<lambda>c. appended (file_header False (md_today env)) c ?line"
    have m': "md_core m' = md_core m" "md_logs m' = update_log (md_today env) ?f (md_logs m)"
      using False assms(5) by (auto simp: upsert_projection_def append_to_file_def Let_def split: option.splits)
    have "distinct (map fst (md_logs m))" using assms(1) by (simp add: logs_ok_def)
    from update_log_entries [OF this, of "md_today env" ?f ?P] app ok obtain a b x where
      x: "?P x" "log_entries (md_logs m') = a @ x # b" "log_entries (md_logs m) = a @ b"
      "\<forall>y \<in> set b. me_timestamp y \<noteq> md_today env" unfolding m' by blast
    have rank: "stem_rank (me_timestamp y) \<le> stem_rank (md_today env)" "me_timestamp y \<noteq> ''MEMORY''"
      if "y \<in> set (log_entries (md_logs m))" for y
      using log_entries_stem [OF that] assms(1) by (auto simp: logs_ok_def stem_rank_def list_all_iff)
    have strict: "stem_rank (me_timestamp y) < stem_rank (md_today env)" if "y \<in> set b" for y
      using rank [of y] that x(3,4) assms(1) by (auto simp: stem_rank_def logs_ok_def order_le_less)
    show ?thesis
      by (intro exI [of _ "parse_entries_from_file ''MEMORY'' ?core CatCore @ a"] exI [of _ x] exI [of _ b])
        (use False x rank strict entries_stem in \<open>auto simp: all_entries_split m' stem_rank_def [of "''MEMORY''"]\<close>)
  qed
qed

definition hidden :: "md_files \<Rightarrow> rstr \<Rightarrow> memory_event \<Rightarrow> bool" where
  "hidden m key e \<longleftrightarrow> event_type e \<noteq> FactUpdated \<and> default_category (event_source e) = CatCore \<and> dated m key"

lemma current_after:
  assumes ok: "logs_ok env m" and a: "all_entries m' = a @ x # b" "all_entries m = a @ b"
    and x: "me_key x = key"
    and rank: "\<forall>y \<in> set a. stem_rank (me_timestamp y) \<le> stem_rank (me_timestamp x)"
    and later: "if core then b = log_entries (md_logs m) \<and> me_timestamp x = ''MEMORY''
                else \<forall>y \<in> set b. stem_rank (me_timestamp y) < stem_rank (me_timestamp x)"
  shows "current m' k = (if k \<noteq> key \<or> core \<and> dated m key then current m k else Some x)"
proof -
  let ?ts = "stem_rank \<circ> me_timestamp"
  let ?own = "filter (\<lambda>e. me_key e = key)"
  have split: "?own (all_entries m') = ?own a @ x # ?own b" "?own (all_entries m) = ?own (a @ b)"
    using a x by simp_all
  consider (other) "k \<noteq> key" | (skip) "k = key" "core" "dated m key" | (take) "k = key" "\<not> (core \<and> dated m key)"
    by blast
  then show ?thesis
  proof cases
    case other
    then have "filter (\<lambda>e. me_key e = k) (all_entries m') = filter (\<lambda>e. me_key e = k) (all_entries m)"
      using a x by simp
    then show ?thesis using other by (simp add: current_def)
  next
    case skip
    then obtain z where z: "z \<in> set (log_entries (md_logs m))" "me_key z = key"
      by (auto simp: dated_def list_ex_iff)
    then have "stem_rank (me_timestamp x) < stem_rank (me_timestamp z)"
      using skip(2) later log_entries_stem ok by (fastforce simp: stem_rank_def logs_ok_def list_all_iff)
    then have "newest_rec ?ts (?own a @ x # ?own b) = newest_rec ?ts (?own a @ ?own b)"
      using z skip(2) later by (intro newest_skip [of z]) auto
    then show ?thesis using skip by (simp add: current_def split)
  next
    case take
    have "newest_rec ?ts (?own a @ x # ?own b) = Some x"
    proof (rule newest_at)
      show "y \<in> set (?own a) \<Longrightarrow> ?ts y \<le> ?ts x" for y using rank by auto
      show "y \<in> set (?own b) \<Longrightarrow> ?ts y < ?ts x" for y
        using later take(2) by (cases core) (auto simp: dated_def list_ex_iff)
    qed
    then show ?thesis using take by (auto simp: current_def split)
  qed
qed

text \<open>An update follows the category of the current entry, so it goes to the core only when no log has the key.\<close>

lemma dated_current:
  assumes "logs_ok env m" "dated m key"
  shows "\<exists>w. current m key = Some w \<and> me_category w = CatDaily"
proof -
  obtain z where z: "z \<in> set (log_entries (md_logs m))" "me_key z = key"
    using assms(2) by (auto simp: dated_def list_ex_iff)
  then have own: "z \<in> set (filter (\<lambda>e. me_key e = key) (all_entries m))" by (simp add: all_entries_split)
  then have "filter (\<lambda>e. me_key e = key) (all_entries m) \<noteq> []" by (metis empty_iff empty_set)
  then obtain w where w: "current m key = Some w" unfolding current_def by (meson newest_rec_None not_None_eq)
  have "w \<in> set (all_entries m)" "stem_rank (me_timestamp z) \<le> stem_rank (me_timestamp w)"
    using newest_rec_in [OF w [unfolded current_def]] own by auto
  moreover have "me_timestamp z \<noteq> ''MEMORY''"
    using log_entries_stem [OF z(1)] assms(1) by (auto simp: logs_ok_def list_all_iff)
  ultimately have "w \<in> set (log_entries (md_logs m))"
    using entries_stem by (auto simp: all_entries_split stem_rank_def)
  then show ?thesis using w log_entries_stem by blast
qed

lemma category_hidden:
  assumes "logs_ok env m" "md_read_failure env = None" "projection_category_for_event env m key e = Ok category"
  shows "category = CatCore \<and> dated m key \<longleftrightarrow> hidden m key e"
proof (cases "event_type e = FactUpdated")
  case True
  have "category \<noteq> CatCore" if "dated m key"
    using dated_current [OF assms(1) that] assms(2,3) True
    by (auto simp: projection_category_for_event_def fetch_current)
  then show ?thesis using True by (auto simp: hidden_def)
next
  case False
  then show ?thesis using assms(3) by (auto simp: projection_category_for_event_def hidden_def)
qed

text \<open>C19: reading back what was written. In a directory with no log from the future, for an event whose
  value is one nonblank line and whose provenance, if it has one, holds no line break in its reference
  and evidence URI, a successful append makes the normalized entity and slot resolve to exactly that
  value (without trailing white space), and every other key resolves as before. Under these conditions
  there is one exception: an event that is not an update, whose source files it under the core memory,
  while some daily log holds the same key, changes nothing that a lookup can see. The condition on the
  provenance is one that the checks before the store do not make: with a line break in its reference
  the value is lost (lemma \<open>broken_reference_loses_value\<close>).
\<close>

theorem append_then_resolve:
  assumes "md_append_event env m input = (m', Ok event_id)" "normalize_for_ingress input = Ok e"
    and "logs_ok env m" "clean_event input" "md_read_failure env = None"
  shows "map_option slot_value (projr (md_resolve_slot env m' entity slot)) =
    (if slot_name entity slot \<noteq> slot_name (event_entity e) (event_slot e) \<or>
        hidden m (slot_name (event_entity e) (event_slot e)) e
     then map_option slot_value (projr (md_resolve_slot env m entity slot))
     else Some (trim_end (event_value input)))"
proof -
  let ?key = "slot_name (event_entity e) (event_slot e)"
  note n = normalize_for_ingress_Ok [OF assms(2)]
  have same: "event_value e = event_value input" "event_provenance e = event_provenance input"
    "event_source e = event_source input"
    by (subst n(3), simp)+
  have key: "key_clean ?key"
    using normalize_entity_id_Ok [OF n(1)] normalize_slot_key_Ok [OF n(2)] by (intro slot_name_clean) blast+
  have filled: "provenance_filled (event_provenance e)"
  proof (cases "event_provenance e")
    case (Some p)
    then show ?thesis using n(4) validated_filled same(2) by metis
  qed (simp add: provenance_filled_def)
  have clean: "clean_event e" using assms(4) same by (simp add: clean_event_def)
  obtain category where c: "projection_category_for_event env m ?key e = Ok category"
    and u: "upsert_projection env ?key (event_value e) category (event_layer e) (event_provenance e) m = (m', Ok ())"
    using assms(1,2) by (auto simp: md_append_event_def Let_def split: prod.splits sum.splits)
  from upsert_entries [OF assms(3) key clean filled u] obtain a x b where x:
    "entry_of_event e ?key x" "all_entries m' = a @ x # b" "all_entries m = a @ b"
    "me_timestamp x = (if category = CatCore then ''MEMORY'' else md_today env)"
    "\<forall>y \<in> set a. stem_rank (me_timestamp y) \<le> stem_rank (me_timestamp x)"
    "if category = CatCore then b = log_entries (md_logs m)
      else \<forall>y \<in> set b. stem_rank (me_timestamp y) < stem_rank (me_timestamp x)" by blast
  have cur: "current m' k = (if k \<noteq> ?key \<or> category = CatCore \<and> dated m ?key then current m k else Some x)" for k
    using x by (intro current_after [OF assms(3) x(2,3) _ x(5)]) (auto simp: entry_of_event_def)
  note core = category_hidden [OF assms(3,5) c]
  have r: "map_option slot_value (projr (md_resolve_slot env w entity slot)) =
      map_option me_content (current w (slot_name entity slot))" for w
    using assms(5) by (simp add: md_resolve_slot_def fetch_current option.map_comp comp_def entry_slot_of_def)
  show ?thesis unfolding r cur core using x(1) same(1) by (simp add: entry_of_event_def)
qed

definition demo_md_env :: md_env where
  "demo_md_env = \<lparr>md_today = ''2024-01-02'', md_uuid = ''id-1'', md_read_failure = None,
     md_append_failure = None, md_lower = to_lowercase, md_show_score = (\<lambda>_. ''50'')\<rparr>"

definition demo_files :: md_files where
  "demo_files = \<lparr>md_core = None,
     md_logs = [(''2024-01-01'', ''# Daily Log'' @ [nl, nl] @ ''- **p:al:name** [md:layer=semantic]: Al'' @ [nl])]\<rparr>"

definition demo_input :: memory_event where
  "demo_input = memory_event_new ''now'' ''p:al'' ''name'' FactAdded ''Alice'' InferredSource Private"

lemma demo_input_normal: "normalize_for_ingress demo_input = Ok demo_input"
  by code_simp

lemma demo_logs_ok: "logs_ok demo_md_env demo_files"
  by code_simp

theorem append_then_resolve_witness:
  "map_option slot_value (projr (md_resolve_slot demo_md_env (fst (md_append_event demo_md_env demo_files demo_input))
     ''p:al'' ''name'')) = Some ''Alice'' \<and>
   map_option slot_value (projr (md_resolve_slot demo_md_env demo_files ''p:al'' ''name'')) = Some ''Al''"
proof -
  have a: "md_append_event demo_md_env demo_files demo_input =
      (fst (md_append_event demo_md_env demo_files demo_input), Ok ''id-1'')"
    by code_simp
  have h: "clean_event demo_input" "md_read_failure demo_md_env = None" by code_simp+
  have v: "\<not> hidden demo_files (slot_name (event_entity demo_input) (event_slot demo_input)) demo_input"
    "trim_end (event_value demo_input) = ''Alice''" "event_entity demo_input = ''p:al''" "event_slot demo_input = ''name''"
    by code_simp+
  have "map_option slot_value (projr (md_resolve_slot demo_md_env demo_files ''p:al'' ''name'')) = Some ''Al''"
    by code_simp
  then show ?thesis
    using append_then_resolve [OF a demo_input_normal demo_logs_ok h, of "''p:al''" "''name''"] v by simp
qed

text \<open>The exception: a fact the user states explicitly stays behind an older daily entry.\<close>

lemma explicit_fact_hidden:
  "md_resolve_slot demo_md_env
     (fst (md_append_event demo_md_env demo_files (demo_input\<lparr>event_source := ExplicitUser\<rparr>))) ''p:al'' ''name'' =
   md_resolve_slot demo_md_env demo_files ''p:al'' ''name''"
  by code_simp

text \<open>The condition on the provenance: the checks accept a reference with a line break, which is written as
  it is and cuts the entry in two, so that the first half of its own tags is read as the value.\<close>

lemma broken_reference_loses_value:
  defines "input \<equiv> demo_input\<lparr>event_provenance := Some (source_reference InferredSource (''ref'' @ [nl] @ ''1''))\<rparr>"
  shows "normalize_for_ingress input = Ok input \<and> snd (md_append_event demo_md_env demo_files input) = Ok ''id-1'' \<and>
     map_option slot_value (projr (md_resolve_slot demo_md_env
       (fst (md_append_event demo_md_env demo_files input)) ''p:al'' ''name'')) =
     Some ''[md:layer=working;provenance_source_class=inferred;provenance_reference=ref''"
  unfolding input_def by code_simp

text \<open>The provenance of a slot is looked up by another order, in which the core file is the newest.\<close>

definition demo_two_files :: md_files where
  "demo_two_files = \<lparr>
     md_core = Some (format_tagged_line ''p:al:name'' ''Old'' LSemantic (Some (source_reference ExplicitUser ''ref-old''))),
     md_logs = [(''2024-01-01'',
       format_tagged_line ''p:al:name'' ''New'' LSemantic (Some (source_reference InferredSource ''ref-new'')))]\<rparr>"

lemma provenance_of_another_value:
  "map_option slot_value (projr (md_resolve_slot demo_md_env demo_two_files ''p:al'' ''name'')) = Some ''New'' \<and>
   current_slot_provenance demo_md_env demo_two_files ''p:al'' ''name'' =
     Ok (Some (source_reference ExplicitUser ''ref-old''))"
  by code_simp

subsection \<open>A line break in a value\<close>

lemma entry_lines_appended:
  assumes "nl \<notin> set today"
  shows "entry_lines (appended (file_header core today) existing content) = entry_lines existing @ entry_lines (content @ [nl])"
  using entry_lines_header [OF assms, of core "content @ [nl]"] entry_lines_append [of existing "content @ [nl]"]
  by (cases "existing = []") (simp_all add: appended_def entry_lines_def [of "[]"])

lemma two_lines_appended:
  fixes core :: bool
  assumes "nl \<notin> set today"
  defines "h \<equiv> file_header core today"
  shows "parse_entries_from_file f (appended h existing (l1 @ nl # l2)) cat =
         parse_entries_from_file f (appended h (appended h existing l1) l2) cat"
proof -
  have "entry_lines (l1 @ nl # l2 @ [nl]) = entry_lines (l1 @ [nl]) @ entry_lines (l2 @ [nl])"
    using entry_lines_append [of l1 "l2 @ [nl]"] entry_lines_append [of l1 "[]"]
    by (simp add: entry_lines_def [of "[]"])
  then show ?thesis
    by (simp add: parse_entries_entry_lines h_def entry_lines_appended [OF assms(1)])
qed

lemma two_lines_logs:
  "(\<And>c. parse_entries_from_file stem (f c) CatDaily = parse_entries_from_file stem (g (h c)) CatDaily) \<Longrightarrow>
   log_entries (update_log stem f logs) = log_entries (update_log stem g (update_log stem h logs))"
  by (induction logs) (auto simp: log_entries_def)

lemma append_two_lines:
  assumes "nl \<notin> set (md_today env)" "md_append_failure env = None"
  shows "all_entries (fst (append_to_file env core (l1 @ nl # l2) m)) =
         all_entries (fst (append_to_file env core l2 (fst (append_to_file env core l1 m))))"
proof (cases core)
  case True
  then show ?thesis
    using assms(2) two_lines_appended [OF assms(1), of "''MEMORY''" True]
    by (simp add: append_to_file_def Let_def all_entries_split)
next
  case False
  let ?put = "\<lambda>l c. appended (file_header False (md_today env)) c l"
  have "log_entries (update_log (md_today env) (?put (l1 @ nl # l2)) (md_logs m)) =
      log_entries (update_log (md_today env) (?put l2) (update_log (md_today env) (?put l1) (md_logs m)))"
    by (rule two_lines_logs) (rule two_lines_appended [OF assms(1)])
  then show ?thesis using assms(2) False by (simp add: append_to_file_def Let_def all_entries_split)
qed

lemma normalize_other_value:
  "normalize_for_ingress e = Ok e' \<Longrightarrow>
   normalize_for_ingress (e\<lparr>event_value := v\<rparr>) = Ok (e'\<lparr>event_value := v\<rparr>)"
  by (auto simp: normalize_for_ingress_def Let_def split: sum.splits option.splits)

text \<open>One value, two records. The backend writes values as they are, so a value that continues after
  a line break with the text of an entry line is stored as two records: the memory is the same as
  after storing the first part and then writing the second record directly, under any key at all,
  with any layer and any provenance, none of which the ingress checks, the write policy or the
  tenant scope of the call has seen.
\<close>

theorem line_break_writes_second_record:
  assumes "normalize_for_ingress input = Ok e" "nl \<notin> set (md_today env)"
    "md_append_failure env = None" "md_read_failure env = None"
    and "event_value input = v @ nl # format_tagged_line key w layer prov"
    and "projection_category_for_event env m (slot_name (event_entity e) (event_slot e)) e = Ok category"
  shows "all_entries (fst (md_append_event env m input)) =
    all_entries (fst (upsert_projection env key w category layer prov
      (fst (md_append_event env m (input\<lparr>event_value := v\<rparr>)))))"
proof -
  have v: "event_value e = v @ nl # format_tagged_line key w layer prov"
    unfolding assms(5) [symmetric] by (subst normalize_for_ingress_Ok(3) [OF assms(1)]) simp
  have c: "projection_category_for_event env m (slot_name (event_entity e) (event_slot e)) (e\<lparr>event_value := v\<rparr>) = Ok category"
    using assms(6) by (simp add: projection_category_for_event_def split: sum.splits option.splits if_splits)
  let ?l = "\<lambda>x. format_tagged_line (slot_name (event_entity e) (event_slot e)) x (event_layer e) (event_provenance e)"
  have l: "?l (v @ nl # format_tagged_line key w layer prov) = ?l v @ nl # format_tagged_line key w layer prov"
    by (simp add: format_tagged_line_def)
  show ?thesis
    unfolding md_append_event_def assms(1) normalize_other_value [OF assms(1)] sum.case Let_def
    using append_two_lines [OF assms(2,3), of "category = CatCore" "?l v" "format_tagged_line key w layer prov" m] c assms(3,6)
    by (simp add: v l upsert_projection_def append_to_file_def Let_def)
qed

definition demo_forged :: memory_event where
  "demo_forged = demo_input\<lparr>event_value := ''x'' @ nl # format_tagged_line ''q:bob:pin'' ''0000'' LIdentity
     (Some (source_reference ExplicitUser ''bob''))\<rparr>"

theorem line_break_writes_second_record_witness:
  "all_entries (fst (md_append_event demo_md_env demo_files demo_forged)) =
   all_entries (fst (upsert_projection demo_md_env ''q:bob:pin'' ''0000'' CatConversation LIdentity
     (Some (source_reference ExplicitUser ''bob''))
     (fst (md_append_event demo_md_env demo_files (demo_forged\<lparr>event_value := ''x''\<rparr>)))))"
proof -
  have "normalize_for_ingress demo_forged = Ok demo_forged" by code_simp
  moreover have "nl \<notin> set (md_today demo_md_env)" "md_append_failure demo_md_env = None"
    "md_read_failure demo_md_env = None" by code_simp+
  moreover have "event_value demo_forged = ''x'' @ nl # format_tagged_line ''q:bob:pin'' ''0000'' LIdentity
     (Some (source_reference ExplicitUser ''bob''))" by (simp add: demo_forged_def)
  moreover have "projection_category_for_event demo_md_env demo_files
      (slot_name (event_entity demo_forged) (event_slot demo_forged)) demo_forged = Ok CatConversation" by code_simp
  ultimately show ?thesis by (rule line_break_writes_second_record)
qed

end
