(* ===== verification/Markdown_Tools.thy ===== *)
theory Markdown_Tools
  imports Markdown_Memory
begin

text \<open>
  The memory tools on the markdown backend: what a recall may return, what forgetting does, and two
  ways a call of one tenant reaches the memory of another although every scope check passes.
\<close>

subsection \<open>Recall\<close>

lemma search_projection_in:
  assumes "search_projection env m query limit layer (Some p) = Ok es" "x \<in> set es"
  shows "\<exists>y \<in> set (all_entries m). starts_with (me_key y) p \<and> (layer = None \<or> me_layer y = layer) \<and>
     me_key x = me_key y \<and> me_content x = me_content y"
proof -
  have r: "read_all_entries env m = Ok (sort_newest projection_older me_timestamp (all_entries m))"
    using assms(1) by (auto simp: search_projection_def read_all_entries_def all_entries_def split: option.splits)
  from assms obtain y where "y \<in> set (all_entries m)" "starts_with (me_key y) p"
    "layer = None \<or> me_layer y = layer" "x = rescored env (split_whitespace (md_lower env query)) y"
    by (auto simp: search_projection_def r Let_def dest!: in_set_takeD)
  then show ?thesis by (intro bexI [of _ y]) (simp_all add: rescored_def)
qed

lemma search_projection_length:
  "search_projection env m query limit layer p = Ok es \<Longrightarrow> length es \<le> limit"
  by (auto simp: search_projection_def read_all_entries_def Let_def split: option.splits)

text \<open>A recall stays inside its entity. It answers only when the tenant scope allows the entity; it
  returns at most \<open>limit\<close> items; and each item is the content of a stored entry whose key is the
  entity, a colon and the slot it is reported under, in the layer that was asked for.
\<close>

theorem recall_within_entity:
  assumes "md_recall_scoped env m q = Ok rs"
  shows "enforce_policy q = Ok () \<and> length rs \<le> rq_limit q \<and>
    list_all (\<lambda>r. entry_entity r = rq_entity q \<and>
      list_ex (\<lambda>y. me_key y = slot_name (rq_entity q) (entry_slot r) \<and> me_content y = entry_value r \<and>
                   (rq_layer_filter q = None \<or> me_layer y = rq_layer_filter q)) (all_entries m)) rs"
proof -
  let ?p = "rq_entity q @ '':''"
  let ?item = "\<lambda>e. \<lparr>entry_entity = rq_entity q,
      entry_slot = (case strip_prefix ?p (me_key e) of Some s \<Rightarrow> s | None \<Rightarrow> me_key e),
      entry_value = me_content e,
      entry_score = md_show_score env (case me_score e of Some s \<Rightarrow> s | None \<Rightarrow> 0)\<rparr>"
  obtain es where es: "enforce_policy q = Ok ()"
      "search_projection env m (rq_query q) (rq_limit q) (rq_layer_filter q) (Some ?p) = Ok es"
      "rs = map ?item es"
    using assms by (auto simp: md_recall_scoped_def Let_def split: sum.splits)
  have "\<exists>y \<in> set (all_entries m). me_key y = slot_name (rq_entity q) (entry_slot (?item e)) \<and>
      me_content y = entry_value (?item e) \<and> (rq_layer_filter q = None \<or> me_layer y = rq_layer_filter q)"
    if e: "e \<in> set es" for e
  proof -
    from search_projection_in [OF es(2) e] obtain y where y: "y \<in> set (all_entries m)"
      "starts_with (me_key y) ?p" "rq_layer_filter q = None \<or> me_layer y = rq_layer_filter q"
      "me_key e = me_key y" "me_content e = me_content y" by blast
    then obtain s where s: "me_key e = ?p @ s" by (auto simp: prefix_def)
    then have "strip_prefix ?p (me_key e) = Some s" by (simp only: strip_prefix_append)
    then have "entry_slot (?item e) = s" by (simp only: recall_entry.select_convs option.case)
    then show ?thesis using y s by (intro bexI [of _ y]) (simp_all add: slot_name_def)
  qed
  then show ?thesis using es(1,3) search_projection_length [OF es(2)] by (auto simp: list_all_iff list_ex_iff)
qed

theorem recall_within_entity_witness:
  "list_all (\<lambda>r. list_ex (\<lambda>y. me_key y = slot_name ''p:al'' (entry_slot r) \<and> me_content y = entry_value r)
      (all_entries demo_files))
     [\<lparr>entry_entity = ''p:al'', entry_slot = ''name'', entry_value = ''Al'', entry_score = ''50''\<rparr>]"
proof -
  have r: "md_recall_scoped demo_md_env demo_files (recall_query_new ''p:al'' ''al'' 5 tenant_disabled) =
      Ok [\<lparr>entry_entity = ''p:al'', entry_slot = ''name'', entry_value = ''Al'', entry_score = ''50''\<rparr>]"
    by code_simp
  show ?thesis using recall_within_entity [OF r] by (auto simp: recall_query_new_def list_ex_iff)
qed

text \<open>
  Entity and slot share one string, so an entity sees the slots of every entity whose id continues
  its own after a colon.
\<close>

lemma recall_sees_longer_entity:
  "md_recall_scoped demo_md_env demo_files (recall_query_new ''p'' ''al'' 5 tenant_disabled) =
   Ok [\<lparr>entry_entity = ''p'', entry_slot = ''al:name'', entry_value = ''Al'', entry_score = ''50''\<rparr>]"
  by code_simp

subsection \<open>Forgetting\<close>

lemma md_forget_outcome:
  assumes "md_read_failure env = None"
  shows "\<exists>x. md_forget_full env m entity slot mode = Ok x \<and>
    \<not> of_applied x \<and> \<not> of_complete x \<and> of_status x = DegradedNonComplete \<and>
    ac_satisfied (hd (of_checks x)) = (current m (slot_name entity slot) = None)"
  using assms
  by (auto simp: md_forget_full_def fetch_current from_checks_def check_new_def observe_def
      md_slot_requirement_def split: option.splits if_splits)

lemma md_forget_slot_outcome:
  assumes "md_read_failure env = None"
  shows "\<exists>out. b_forget (markdown_backend env) m entity slot mode reason = (m, Ok out) \<and> \<not> was_applied out"
  using md_forget_outcome [OF assms, of m entity slot mode]
  by (auto simp: markdown_backend_def md_forget_slot_def forget_outcome_of_def)

lemma markdown_forget_modes:
  "ensure_forget_mode_supported (markdown_backend env) ForgetSoft = Ok ()"
  "ensure_forget_mode_supported (markdown_backend env) ForgetTombstone = Ok ()"
  "ensure_forget_mode_supported (markdown_backend env) ForgetHard =
     Err (UnsupportedErr (''memory backend '' @ [CHR 0x27] @ ''markdown'' @ [CHR 0x27] @
       '' does not support forget mode '' @ [CHR 0x27] @ ''hard'' @ [CHR 0x27]))"
proof -
  have "b_name (markdown_backend env) = ''markdown''" by (simp add: markdown_backend_def)
  moreover have "require_forget_mode (capability_matrix_for_memory ''markdown'') ForgetSoft = Ok ()"
    "require_forget_mode (capability_matrix_for_memory ''markdown'') ForgetTombstone = Ok ()"
    "require_forget_mode (capability_matrix_for_memory ''markdown'') ForgetHard =
     Err (UnsupportedErr (''memory backend '' @ [CHR 0x27] @ ''markdown'' @ [CHR 0x27] @
       '' does not support forget mode '' @ [CHR 0x27] @ ''hard'' @ [CHR 0x27]))"
    by code_simp+
  ultimately show "ensure_forget_mode_supported (markdown_backend env) ForgetSoft = Ok ()"
      "ensure_forget_mode_supported (markdown_backend env) ForgetTombstone = Ok ()"
      "ensure_forget_mode_supported (markdown_backend env) ForgetHard =
         Err (UnsupportedErr (''memory backend '' @ [CHR 0x27] @ ''markdown'' @ [CHR 0x27] @
           '' does not support forget mode '' @ [CHR 0x27] @ ''hard'' @ [CHR 0x27]))"
    by (simp_all add: ensure_forget_mode_supported_def)
qed

text \<open>C40: the markdown backend forgets nothing, and the tool does not say so. A call of the \<open>memory_forget\<close>
  tool with a slot key and an entity that its tenant context admits, when the files can be read, leaves
  the whole world as it is and writes no line of the access log. Without the mode \<open>hard\<close> it is always
  answered by a success, that no memory with the key was found, for a slot that exists and for one that
  does not alike; with the mode \<open>hard\<close> it is answered by a failure, that the mode is not supported. Only the outcome of the
  backend tells the two slots apart: it is never applied, never complete and degraded, and its slot
  check holds exactly when there was no such slot.
\<close>

theorem markdown_forgets_nothing:
  assumes "get_str args ''slot_key'' = Some key" "get_str args ''entity_id'' = Some entity"
    and "effective_tenant_policy_context args tenv = Ok ctx" "enforce_recall_scope ctx entity = Ok ()"
    and "md_read_failure env = None"
  shows "forget_execute (markdown_backend env) tenv args w =
      (w, Ok (if get_str args ''mode'' = Some ''hard''
              then \<lparr>tr_success = False, tr_output = JString [],
                    tr_error = Some (''Failed to forget memory: '' @ memory_error_display (UnsupportedErr
                      (''memory backend '' @ [CHR 0x27] @ ''markdown'' @ [CHR 0x27] @
                       '' does not support forget mode '' @ [CHR 0x27] @ ''hard'' @ [CHR 0x27])))\<rparr>
              else \<lparr>tr_success = True, tr_output = JString (''No memory found with key: '' @ key),
                    tr_error = None\<rparr>)) \<and>
    (\<exists>x. md_forget_full env (w_mem w) entity key mode = Ok x \<and>
       \<not> of_applied x \<and> \<not> of_complete x \<and> of_status x = DegradedNonComplete \<and>
       ac_satisfied (hd (of_checks x)) = (current (w_mem w) (slot_name entity key) = None))"
proof -
  let ?mode = "parse_mode args"
  have same: "w\<lparr>w_mem := w_mem w\<rparr> = w" by simp
  have hard: "?mode = ForgetHard \<longleftrightarrow> get_str args ''mode'' = Some ''hard''"
    by (auto simp: parse_mode_def split: option.splits)
  have soft: "ensure_forget_mode_supported (markdown_backend env) ?mode = Ok ()" if "?mode \<noteq> ForgetHard"
    using that markdown_forget_modes(1,2) by (cases ?mode) auto
  obtain out where out: "b_forget (markdown_backend env) (w_mem w) entity key ?mode
      (case get_str args ''reason'' of None \<Rightarrow> ''user_requested'' | Some r \<Rightarrow> r) = (w_mem w, Ok out)" "\<not> was_applied out"
    using md_forget_slot_outcome [OF assms(5)] by blast
  have "forget_execute (markdown_backend env) tenv args w =
      (w, Ok (if ?mode = ForgetHard
              then forget_failed (memory_error_display (UnsupportedErr
                (''memory backend '' @ [CHR 0x27] @ ''markdown'' @ [CHR 0x27] @
                 '' does not support forget mode '' @ [CHR 0x27] @ ''hard'' @ [CHR 0x27])))
              else tool_success (JString (''No memory found with key: '' @ key))))"
    using assms(1-4) soft out markdown_forget_modes(3) same
    by (cases "?mode = ForgetHard") (simp_all add: forget_execute_def required_str_def Let_def)
  then show ?thesis
    using md_forget_outcome [OF assms(5)] unfolding hard tool_success_def forget_failed_def tool_failure_def by blast
qed

lemma markdown_forgets_nothing_witness:
  "\<exists>args w. current (w_mem w) (slot_name ''p:al'' ''name'') \<noteq> None \<and>
     forget_execute (markdown_backend demo_md_env)
       \<lparr>env_tenant = tenant_disabled, env_caller = [], env_now = [], env_audit_path = [], env_audit_failure = None\<rparr> args w =
     (w, Ok \<lparr>tr_success = True, tr_output = JString ''No memory found with key: name'', tr_error = None\<rparr>)"
proof -
  let ?args = "JObject [(''slot_key'', JString ''name''), (''entity_id'', JString ''p:al'')]"
  let ?env = "\<lparr>env_tenant = tenant_disabled, env_caller = [], env_now = [], env_audit_path = [], env_audit_failure = None\<rparr>"
  let ?w = "\<lparr>w_mem = demo_files, w_access = None, w_audit = []\<rparr> :: md_files tool_world"
  have args: "get_str ?args ''slot_key'' = Some ''name''" "get_str ?args ''entity_id'' = Some ''p:al''"
      "get_str ?args ''mode'' = None" "effective_tenant_policy_context ?args ?env = Ok tenant_disabled"
      "enforce_recall_scope tenant_disabled ''p:al'' = Ok ()" "md_read_failure demo_md_env = None"
    by code_simp+
  have there: "current demo_files (slot_name ''p:al'' ''name'') \<noteq> None" by code_simp
  show ?thesis
    using markdown_forgets_nothing [OF args(1,2,4-6), of ?w ForgetSoft] args(3) there
    by (intro exI [of _ ?args] exI [of _ ?w]) simp
qed

subsection \<open>Across tenants\<close>

definition tenant_env :: "rstr \<Rightarrow> tool_env" where
  "tenant_env t = \<lparr>env_tenant = tenant_enabled t, env_caller = t, env_now = ''now'',
     env_audit_path = ''audit'', env_audit_failure = None\<rparr>"

definition slot_args :: "rstr \<Rightarrow> rstr \<Rightarrow> rstr \<Rightarrow> json" where
  "slot_args entity slot v = JObject [(''entity_id'', JString entity), (''slot_key'', JString slot), (''value'', JString v)]"

definition empty_world :: "md_files tool_world" where
  "empty_world = \<lparr>w_mem = \<lparr>md_core = None, md_logs = []\<rparr>, w_access = Some [], w_audit = []\<rparr>"

text \<open>What one tenant looks up after another one has stored a value.\<close>

definition looked_up_after :: "rstr \<Rightarrow> json \<Rightarrow> rstr \<Rightarrow> json \<Rightarrow> (tool_error, tool_result) result" where
  "looked_up_after writer store reader look =
     snd (lookup_execute (markdown_backend demo_md_env) (tenant_env reader) look
       (fst (store_execute (markdown_backend demo_md_env) (tenant_env writer) store empty_world)))"

text \<open>Two ways out of a tenant. The scope check of \<open>memory_store\<close> sees the entity id and nothing of
  the value, and the backend normalizes the id afterwards. So tenant \<open>acme\<close> plants a memory that
  tenant \<open>globex\<close> reads as its own by storing, in its own entity, a value with a line break; and a
  memory of the tenant \<open>acme_x\<close> by naming the entity \<open>acme/x\<close>. Without either, the other
  tenant finds nothing.
\<close>

theorem tenant_writes_escape:
  "looked_up_after ''acme'' (slot_args ''acme:al'' ''note'' (''hi'' @ nl # format_tagged_line ''globex:bob:pin'' ''0000'' LSemantic None))
     ''globex'' (slot_args ''globex:bob'' ''pin'' []) =
     Ok (tool_success (JString ''Resolved slot [globex:bob:pin] = 0000'')) \<and>
   looked_up_after ''acme'' (slot_args ''acme/x'' ''pin'' ''0000'') ''acme_x'' (slot_args ''acme_x'' ''pin'' []) =
     Ok (tool_success (JString ''Resolved slot [acme_x:pin] = 0000'')) \<and>
   looked_up_after ''acme'' (slot_args ''acme:al'' ''note'' ''hi'') ''globex'' (slot_args ''globex:bob'' ''pin'' []) =
     Ok (tool_success (JString ''No value found for slot [globex:bob:pin]''))"
  by (intro conjI) code_simp+

end
