(* ===== verification/Chunker.thy ===== *)
theory Chunker
  imports Text_Lines "HOL-Library.Sublist"
begin

text \<open>
  Splitting markdown into chunks for the memory index (\<open>src/src/core/memory/chunker.rs\<close>). A chunk is
  numbered when the list is complete, as the last loop of the code does. The limit is small enough
  for its multiple of four to fit a machine word.
\<close>

record chunk =
  ck_index :: nat
  ck_content :: rstr
  ck_heading :: "rstr option"

definition is_heading :: "rstr \<Rightarrow> bool" where
  "is_heading l \<longleftrightarrow> starts_with l ''# '' \<or> starts_with l ''## '' \<or> starts_with l ''### ''"

subsection \<open>Sections, paragraphs and lines\<close>

definition heading_step ::
    "rstr \<Rightarrow> (rstr option \<times> rstr) list \<times> rstr option \<times> rstr \<Rightarrow> (rstr option \<times> rstr) list \<times> rstr option \<times> rstr" where
  "heading_step l st =
     (case st of (sections, heading, body) \<Rightarrow>
        if is_heading l
        then (if trim body \<noteq> [] \<or> heading \<noteq> None then (sections @ [(heading, body)], Some l, [])
              else (sections, Some l, body))
        else (sections, heading, body @ l @ [nl]))"

definition split_on_headings :: "rstr \<Rightarrow> (rstr option \<times> rstr) list" where
  "split_on_headings t =
     (case fold heading_step (lines t) ([], None, []) of (sections, heading, body) \<Rightarrow>
        if trim body \<noteq> [] \<or> heading \<noteq> None then sections @ [(heading, body)] else sections)"

definition paragraph_step :: "rstr \<Rightarrow> rstr list \<times> rstr \<Rightarrow> rstr list \<times> rstr" where
  "paragraph_step l st =
     (case st of (paragraphs, current) \<Rightarrow>
        if trim l = [] then (if trim current \<noteq> [] then (paragraphs @ [current], []) else (paragraphs, current))
        else (paragraphs, current @ l @ [nl]))"

definition split_on_blank_lines :: "rstr \<Rightarrow> rstr list" where
  "split_on_blank_lines t =
     (case fold paragraph_step (lines t) ([], []) of (paragraphs, current) \<Rightarrow>
        if trim current \<noteq> [] then paragraphs @ [current] else paragraphs)"

definition line_step :: "nat \<Rightarrow> rstr \<Rightarrow> rstr list \<times> rstr \<Rightarrow> rstr list \<times> rstr" where
  "line_step max_chars l st =
     (case st of (chunks, current) \<Rightarrow>
        if max_chars < length current + length l + 1 \<and> current \<noteq> []
        then (chunks @ [current], l @ [nl]) else (chunks, current @ l @ [nl]))"

definition split_on_lines :: "rstr \<Rightarrow> nat \<Rightarrow> rstr list" where
  "split_on_lines t max_chars =
     (case fold (line_step max_chars) (lines t) ([], []) of (chunks, current) \<Rightarrow>
        if current \<noteq> [] then chunks @ [current] else chunks)"

subsection \<open>Chunks\<close>

definition heading_prefix :: "rstr option \<Rightarrow> rstr" where
  "heading_prefix h = (case h of None \<Rightarrow> [] | Some h \<Rightarrow> h @ [nl])"

text \<open>Pushing the current chunk unless it is blank; the next one starts with the heading.\<close>

definition flush :: "rstr option \<Rightarrow> rstr list \<times> rstr \<Rightarrow> rstr list \<times> rstr" where
  "flush h st = (if trim (snd st) \<noteq> [] then (fst st @ [trim (snd st)], heading_prefix h) else st)"

text \<open>One paragraph of a section that is too large: the contents so far and the current chunk.\<close>

definition paragraph_chunks :: "nat \<Rightarrow> rstr option \<Rightarrow> rstr \<Rightarrow> rstr list \<times> rstr \<Rightarrow> rstr list \<times> rstr" where
  "paragraph_chunks max_chars h para st =
     (let st = (if max_chars < length (snd st) + length para then flush h st else st) in
      if max_chars < length para
      then let st = flush h st in (fst st @ map trim (split_on_lines para max_chars), snd st)
      else (fst st, snd st @ para @ [nl]))"

definition section_chunks :: "nat \<Rightarrow> rstr option \<times> rstr \<Rightarrow> rstr list" where
  "section_chunks max_chars sec =
     (case sec of (h, body) \<Rightarrow>
        let full_len = (case h of None \<Rightarrow> length body | Some h \<Rightarrow> length h + 1 + length body) in
        if full_len \<le> max_chars
        then [trim (case h of None \<Rightarrow> body | Some h \<Rightarrow> h @ [nl] @ body)]
        else fst (flush h (fold (paragraph_chunks max_chars h) (split_on_blank_lines body) ([], heading_prefix h))))"

definition chunk_markdown :: "rstr \<Rightarrow> nat \<Rightarrow> chunk list" where
  "chunk_markdown t max_tokens =
     (if trim t = [] then []
      else let max_chars = max_tokens * 4;
               chunks = concat (map (\<lambda>s. map (Pair (fst s)) (section_chunks max_chars s)) (split_on_headings t));
               kept = filter (\<lambda>c. snd c \<noteq> []) chunks
           in map (\<lambda>(i, h, c). \<lparr>ck_index = i, ck_content = c, ck_heading = h\<rparr>) (List.enumerate 0 kept))"

subsection \<open>Words across ASCII white space\<close>

lemma split_ws_from_ascii:
  assumes "is_ascii_ws c"
  shows "split_ws_from w (s @ c # t) = split_ws_from w s @ split_ws_from [] t"
proof (induction w s rule: split_ws_from.induct)
  case (1 w s)
  show ?case
  proof (cases s)
    case Nil
    then show ?thesis using assms by (simp add: split_ws_from_ws ascii_ws_ws_len)
  next
    case (Cons a s')
    show ?thesis
    proof (cases "ws_len s = 0")
      case True
      have "ws_lead c" using assms by (simp add: ws_lead_def)
      then have "ws_len (s @ c # t) = 0" using True Cons by (intro ws_len_append_lead) auto
      then show ?thesis using 1 True Cons by (simp add: split_ws_from_char)
    next
      case False
      then have "ws_len (s @ c # t) = ws_len s" by (rule ws_len_append)
      moreover have "drop (ws_len s) (s @ c # t) = drop (ws_len s) s @ c # t" using ws_len_le [of s] by simp
      moreover have "split_ws_from [] (drop (ws_len s) s @ c # t) =
          split_ws_from [] (drop (ws_len s) s) @ split_ws_from [] t"
        using "1.IH"(2) False Cons by simp
      ultimately show ?thesis
        using False split_ws_from_ws [of "s @ c # t" w] split_ws_from_ws [of s w] by simp
    qed
  qed
qed

lemma ascii_ws_nl [simp]: "is_ascii_ws nl"
  by code_simp

lemma words_nl: "split_whitespace (s @ nl # t) = split_whitespace s @ split_whitespace t"
  by (simp add: split_whitespace_def split_ws_from_ascii)

lemma words_line [simp]: "split_whitespace (s @ l @ [nl]) = split_whitespace (s @ l)"
  using words_nl [of "s @ l" "[]"] by simp

lemma words_blank: "trim s = [] \<longleftrightarrow> split_whitespace s = []"
proof
  assume "trim s = []"
  then show "split_whitespace s = []" by (metis split_whitespace_trim split_whitespace_Nil)
next
  assume "split_whitespace s = []"
  then have "trim_start s = []" by (simp add: split_whitespace_def split_ws_Nil_iff)
  then show "trim s = []" by (simp add: trim_def)
qed

abbreviation words :: "rstr list \<Rightarrow> rstr list" where
  "words ts \<equiv> concat (map split_whitespace ts)"

lemma words_lines: "words (lines t) = split_whitespace t"
proof (induction t rule: length_induct)
  case (1 t)
  show ?case
  proof (cases "nl \<in> set t")
    case True
    then obtain l r where t: "t = l @ nl # r" "nl \<notin> set l" using line_split by blast
    have "split_whitespace (strip_cr l) = split_whitespace l"
      using split_whitespace_trim [of "strip_cr l"] split_whitespace_trim [of l] by simp
    then show ?thesis using 1 t by (simp add: lines_cons words_nl)
  next
    case False
    then show ?thesis by (cases "t = []") (simp_all add: lines_single)
  qed
qed

text \<open>Bodies, paragraphs and chunks are empty or end with a newline, so that words add up.\<close>

definition closed :: "rstr \<Rightarrow> bool" where
  "closed s \<longleftrightarrow> s = [] \<or> (\<exists>u. s = u @ [nl])"

lemma closed_Nil [simp]: "closed []"
  by (simp add: closed_def)

lemma closed_add [simp]: "closed (s @ l @ [nl])"
  by (auto simp: closed_def intro: exI [of _ "s @ l"])

lemma closed_line [simp]: "closed (l @ [nl])"
  by (simp add: closed_def)

lemma words_closed: "closed s \<Longrightarrow> split_whitespace (s @ t) = split_whitespace s @ split_whitespace t"
  using words_nl [of _ t] words_nl [of _ "[]"] by (auto simp: closed_def)

definition heading_words :: "rstr option \<Rightarrow> rstr list" where
  "heading_words h = (case h of None \<Rightarrow> [] | Some l \<Rightarrow> split_whitespace l)"

definition section_words :: "(rstr option \<times> rstr) list \<Rightarrow> rstr list" where
  "section_words secs = concat (map (\<lambda>(h, b). heading_words h @ split_whitespace b) secs)"

lemma headings_words: "section_words (split_on_headings t) = split_whitespace t"
proof -
  define tot where "tot = (\<lambda>st :: (rstr option \<times> rstr) list \<times> rstr option \<times> rstr.
    section_words (fst st) @ heading_words (fst (snd st)) @ split_whitespace (snd (snd st)))"
  have step: "closed (snd (snd (heading_step l st))) \<and> tot (heading_step l st) = tot st @ split_whitespace l"
    if "closed (snd (snd st))" for l st
    using that by (auto simp: heading_step_def tot_def section_words_def heading_words_def words_closed
        words_blank split: prod.splits)
  have "closed (snd (snd st)) \<Longrightarrow> tot (fold heading_step ls st) = tot st @ words ls" for ls st
    by (induction ls arbitrary: st) (simp_all add: step)
  from this [of "([], None, [])" "lines t"] have "tot (fold heading_step (lines t) ([], None, [])) = split_whitespace t"
    by (simp add: words_lines tot_def section_words_def heading_words_def)
  then show ?thesis
    by (auto simp: split_on_headings_def tot_def section_words_def heading_words_def words_blank split: prod.splits)
qed

lemma paragraphs_words:
  "words (split_on_blank_lines t) = split_whitespace t \<and> list_all closed (split_on_blank_lines t)"
proof -
  define ok where "ok = (\<lambda>st :: rstr list \<times> rstr. list_all closed (fst st) \<and> closed (snd st))"
  define tot where "tot = (\<lambda>st :: rstr list \<times> rstr. words (fst st) @ split_whitespace (snd st))"
  have step: "ok (paragraph_step l st) \<and> tot (paragraph_step l st) = tot st @ split_whitespace l" if "ok st" for l st
    using that by (auto simp: paragraph_step_def ok_def tot_def words_closed words_blank split: prod.splits)
  have "ok st \<Longrightarrow> ok (fold paragraph_step ls st) \<and> tot (fold paragraph_step ls st) = tot st @ words ls" for ls st
    by (induction ls arbitrary: st) (simp_all add: step)
  from this [of "([], [])" "lines t"] have "ok (fold paragraph_step (lines t) ([], []))"
    "tot (fold paragraph_step (lines t) ([], [])) = split_whitespace t"
    by (simp_all add: words_lines tot_def ok_def)
  then show ?thesis
    by (auto simp: split_on_blank_lines_def tot_def ok_def words_blank split: prod.splits)
qed

lemma lines_words: "words (split_on_lines t n) = split_whitespace t"
proof -
  define tot where "tot = (\<lambda>st :: rstr list \<times> rstr. words (fst st) @ split_whitespace (snd st))"
  have step: "closed (snd (line_step n l st)) \<and> tot (line_step n l st) = tot st @ split_whitespace l"
    if "closed (snd st)" for l st
    using that words_line [of "[]" l] by (auto simp: line_step_def tot_def words_closed split: prod.splits)
  have "closed (snd st) \<Longrightarrow> tot (fold (line_step n) ls st) = tot st @ words ls" for ls st
    by (induction ls arbitrary: st) (simp_all add: step)
  from this [of "([], [])" "lines t"] have "tot (fold (line_step n) (lines t) ([], [])) = split_whitespace t"
    by (simp add: words_lines tot_def)
  then show ?thesis by (auto simp: split_on_lines_def tot_def split: prod.splits)
qed

subsection \<open>Nothing is lost\<close>

lemma words_prefix [simp]: "split_whitespace (heading_prefix h) = heading_words h"
  using words_nl [of _ "[]"] by (simp add: heading_prefix_def heading_words_def split: option.splits)

lemma closed_prefix [simp]: "closed (heading_prefix h)"
  by (simp add: heading_prefix_def split: option.splits)

text \<open>The words of the chunks so far and of the current one hold those of the section so far.\<close>

definition holds :: "rstr list \<Rightarrow> rstr list \<times> rstr \<Rightarrow> bool" where
  "holds ws st \<longleftrightarrow> closed (snd st) \<and> subseq ws (words (fst st) @ split_whitespace (snd st))"

lemma words_flush: "words (fst (flush h st)) @ split_whitespace (snd (flush h st)) =
    (words (fst st) @ split_whitespace (snd st)) @ (if trim (snd st) \<noteq> [] then heading_words h else [])"
  by (simp add: flush_def split_whitespace_trim)

lemma holds_flush: "holds ws st \<Longrightarrow> holds ws (flush h st) \<and> subseq ws (words (fst (flush h st)))"
proof -
  assume h: "holds ws st"
  then have "subseq ws (words (fst (flush h st)) @ split_whitespace (snd (flush h st)))"
    unfolding words_flush holds_def by (blast intro: list_emb_prefix)
  moreover have "closed (snd (flush h st))" using h by (simp add: flush_def holds_def)
  moreover have "subseq ws (words (fst (flush h st)))"
    using h by (cases "trim (snd st) = []") (auto simp: flush_def holds_def split_whitespace_trim words_blank)
  ultimately show ?thesis by (simp add: holds_def)
qed

lemma words_map_trim [simp]: "concat (map (split_whitespace \<circ> trim) ts) = words ts"
  by (simp add: comp_def split_whitespace_trim)

lemma paragraph_chunks_holds:
  assumes "holds ws st" "closed para"
  shows "holds (ws @ split_whitespace para) (paragraph_chunks n h para st)"
proof -
  define st1 where "st1 = (if n < length (snd st) + length para then flush h st else st)"
  have h1: "holds ws st1" using assms(1) holds_flush by (simp add: st1_def)
  show ?thesis
  proof (cases "n < length para")
    case True
    have "subseq (ws @ split_whitespace para)
        ((words (fst (flush h st1)) @ split_whitespace para) @ split_whitespace (snd (flush h st1)))"
      using holds_flush [OF h1] by (intro list_emb_prefix list_emb_append_mono) auto
    moreover have "paragraph_chunks n h para st =
        (fst (flush h st1) @ map trim (split_on_lines para n), snd (flush h st1))"
      unfolding paragraph_chunks_def st1_def [symmetric] Let_def using True by simp
    ultimately show ?thesis using holds_flush [OF h1, of h] by (simp add: holds_def lines_words)
  next
    case False
    have "subseq (ws @ split_whitespace para)
        ((words (fst st1) @ split_whitespace (snd st1)) @ split_whitespace para)"
      using h1 by (intro list_emb_append_mono) (auto simp: holds_def)
    then show ?thesis using h1 False
      by (simp add: paragraph_chunks_def st1_def [symmetric] holds_def words_closed)
  qed
qed

lemma section_chunks_words:
  "subseq (heading_words h @ split_whitespace body) (words (section_chunks n (h, body)))"
proof (cases "(case h of None \<Rightarrow> length body | Some h \<Rightarrow> length h + 1 + length body) \<le> n")
  case True
  then show ?thesis
    by (auto simp: section_chunks_def Let_def split_whitespace_trim heading_words_def words_nl split: option.splits)
next
  case False
  have fold_holds: "holds ws st \<Longrightarrow> list_all closed ps \<Longrightarrow> holds (ws @ words ps) (fold (paragraph_chunks n h) ps st)" for ws ps st
  proof (induction ps arbitrary: ws st)
    case (Cons p ps)
    then show ?case using paragraph_chunks_holds Cons.IH [of "ws @ split_whitespace p"] by simp
  qed simp
  have "holds (heading_words h) ([], heading_prefix h)" by (simp add: holds_def)
  from fold_holds [OF this conjunct2 [OF paragraphs_words]]
  have "holds (heading_words h @ split_whitespace body)
      (fold (paragraph_chunks n h) (split_on_blank_lines body) ([], heading_prefix h))"
    by (simp add: paragraphs_words)
  then show ?thesis using False holds_flush by (simp add: section_chunks_def Let_def)
qed

lemma words_filter: "words (filter (\<lambda>c. c \<noteq> []) cs) = words cs"
  by (induction cs) auto

lemma sections_subseq: "subseq (section_words secs) (words (concat (map (section_chunks n) secs)))"
proof (induction secs)
  case (Cons sec secs)
  obtain h b where "sec = (h, b)" by (cases sec)
  with Cons list_emb_append_mono [OF section_chunks_words] show ?case by (simp add: section_words_def)
qed (simp add: section_words_def)

lemma chunk_contents:
  "map ck_content (chunk_markdown t m) =
   (if trim t = [] then [] else filter (\<lambda>c. c \<noteq> []) (concat (map (section_chunks (m * 4)) (split_on_headings t))))"
proof -
  have e: "map (\<lambda>x. snd (snd x)) (List.enumerate k xs) = map snd xs" for k and xs :: "(rstr option \<times> rstr) list"
    by (induction xs arbitrary: k) auto
  have f: "map snd (filter (\<lambda>c. snd c \<noteq> []) xs) = filter (\<lambda>c. c \<noteq> []) (map snd xs)" for xs :: "(rstr option \<times> rstr) list"
    by (induction xs) auto
  show ?thesis
    by (simp add: chunk_markdown_def Let_def comp_def case_prod_unfold map_concat e f)
qed

text \<open>Chunking loses no text. The words of the document, in their order, are a subsequence of the
  words of its chunks in theirs: only headings are repeated, whatever the limit is, zero included.
\<close>

theorem chunks_keep_words: "subseq (split_whitespace t) (words (map ck_content (chunk_markdown t max_tokens)))"
proof (cases "trim t = []")
  case True
  then show ?thesis by (simp add: words_blank)
next
  case False
  then show ?thesis
    using sections_subseq [of "split_on_headings t" "max_tokens * 4"]
    by (simp only: chunk_contents if_False words_filter headings_words)
qed

subsection \<open>How large a chunk can be\<close>

definition heading_len :: "rstr option \<Rightarrow> nat" where
  "heading_len h = (case h of None \<Rightarrow> 0 | Some l \<Rightarrow> length l)"

lemma trim_nl [simp]: "trim (s @ [nl]) = trim s"
proof -
  have "trim_start [nl] = []" by code_simp
  then show ?thesis by (rule trim_append_blank)
qed

lemma length_trim_nl: "length (trim (s @ [nl])) \<le> length s"
  by (simp add: length_trim)

lemma length_trim_prefix: "length (trim (heading_prefix h)) \<le> heading_len h"
  by (cases h) (simp_all add: heading_prefix_def heading_len_def length_trim)

text \<open>A chunk is within the limit and its heading, or it is one line of the text.\<close>

definition fits :: "nat \<Rightarrow> rstr list \<Rightarrow> rstr option \<Rightarrow> rstr \<Rightarrow> bool" where
  "fits n ls h c \<longleftrightarrow> length c \<le> n + heading_len h \<or> c \<in> trim ` set ls"

lemma split_on_lines_fits:
  assumes "c \<in> set (split_on_lines t n)"
  shows "length (trim c) \<le> n \<or> trim c \<in> trim ` set (lines t)"
proof -
  define ok where "ok = (\<lambda>st :: rstr list \<times> rstr.
    \<forall>c \<in> set (fst st) \<union> {snd st}. length c \<le> n \<or> c = [] \<or> (\<exists>l \<in> set (lines t). c = l @ [nl]))"
  have step: "ok (line_step n l st)" if "ok st" "l \<in> set (lines t)" for l st
    using that by (auto simp: ok_def line_step_def split: prod.splits)
  have "ok st \<Longrightarrow> set ls \<subseteq> set (lines t) \<Longrightarrow> ok (fold (line_step n) ls st)" for ls st
    by (induction ls arbitrary: st) (simp_all add: step)
  from this [of "([], [])" "lines t"] have "ok (fold (line_step n) (lines t) ([], []))" by (simp add: ok_def)
  then have "length c \<le> n \<or> c = [] \<or> (\<exists>l \<in> set (lines t). c = l @ [nl])"
  proof (cases "fold (line_step n) (lines t) ([], [])")
    case (Pair cs u)
    then have "c \<in> set cs \<union> {u}" using assms by (auto simp: split_on_lines_def split: if_splits)
    then show ?thesis using \<open>ok _\<close> Pair by (auto simp: ok_def)
  qed
  then show ?thesis using length_trim [of c] by auto
qed

text \<open>The current chunk, whose last paragraph ends with two newlines.\<close>

definition current_fits :: "nat \<Rightarrow> rstr option \<Rightarrow> rstr \<Rightarrow> bool" where
  "current_fits n h u \<longleftrightarrow> length (trim u) \<le> n + heading_len h"

lemma flush_fits:
  assumes "list_all (fits n ls h) (fst st)" "current_fits n h (snd st)"
  shows "list_all (fits n ls h) (fst (flush h st)) \<and> current_fits n h (snd (flush h st))"
  using assms length_trim_prefix [of h] by (auto simp: flush_def fits_def current_fits_def)

text \<open>After the first test the current chunk leaves room for the paragraph, or is the bare prefix.\<close>

lemma paragraph_chunks_fits:
  assumes "list_all (fits n ls h) (fst st)" "current_fits n h (snd st)"
    and "para = p @ [nl]" "trim ` set (lines para) \<subseteq> trim ` set ls"
  shows "list_all (fits n ls h) (fst (paragraph_chunks n h para st)) \<and>
         current_fits n h (snd (paragraph_chunks n h para st))"
proof -
  define st1 where "st1 = (if n < length (snd st) + length para then flush h st else st)"
  have 1: "list_all (fits n ls h) (fst st1) \<and> current_fits n h (snd st1)"
    using assms(1,2) flush_fits by (simp add: st1_def)
  show ?thesis
  proof (cases "n < length para")
    case True
    have "fits n ls h (trim c)" if "c \<in> set (split_on_lines para n)" for c
      using split_on_lines_fits [OF that] assms(4) by (auto simp: fits_def)
    then have "list_all (fits n ls h) (map trim (split_on_lines para n))" by (auto simp: list_all_iff)
    moreover have "paragraph_chunks n h para st =
        (fst (flush h st1) @ map trim (split_on_lines para n), snd (flush h st1))"
      unfolding paragraph_chunks_def st1_def [symmetric] Let_def using True by simp
    ultimately show ?thesis using flush_fits [of n ls h st1] 1 by simp
  next
    case False
    have p: "paragraph_chunks n h para st = (fst st1, snd st1 @ para @ [nl])"
      unfolding paragraph_chunks_def st1_def [symmetric] Let_def using False by simp
    have t: "trim (snd st1 @ para @ [nl]) = trim (snd st1 @ p)"
      using trim_nl [of "snd st1 @ para"] trim_nl [of "snd st1 @ p"] assms(3) by simp
    consider (room) "length (snd st1) + length para \<le> n" | (reset) "snd st1 = heading_prefix h"
      | (blank) "st1 = st" "trim (snd st) = []"
      by (cases "n < length (snd st) + length para"; cases "trim (snd st) = []") (auto simp: st1_def flush_def)
    then have "length (trim (snd st1 @ p)) \<le> n + heading_len h"
    proof cases
      case room
      then show ?thesis using length_trim [of "snd st1 @ p"] assms(3) by simp
    next
      case reset
      then show ?thesis using length_trim [of "snd st1 @ p"] assms(3) False
        by (cases h) (simp_all add: heading_prefix_def heading_len_def)
    next
      case blank
      then have "trim_start (snd st) = []" by (metis split_whitespace_trim split_whitespace_Nil split_whitespace_def split_ws_Nil_iff)
      then have "trim (snd st1 @ p) = trim p" using blank(1) by (simp add: trim_def trim_start_append)
      then show ?thesis using length_trim [of p] assms(3) False by simp
    qed
    then show ?thesis using 1 by (simp add: p current_fits_def t)
  qed
qed

text \<open>The lines of bodies and paragraphs are lines of the text, up to trimming.\<close>

definition lines_within :: "rstr list \<Rightarrow> rstr \<Rightarrow> bool" where
  "lines_within ls s \<longleftrightarrow> closed s \<and> trim ` set (lines s) \<subseteq> trim ` set ls"

lemma lines_within_Nil [simp]: "lines_within ls []"
  by (simp add: lines_within_def)

lemma lines_within_add:
  assumes "lines_within ls s" "l \<in> set ls" "nl \<notin> set l"
  shows "lines_within ls (s @ l @ [nl])"
proof -
  have l: "lines (l @ [nl]) = [strip_cr l]" using assms(3) lines_cons [of l "[]"] by simp
  have "lines (s @ l @ [nl]) = lines s @ [strip_cr l]"
  proof (cases "s = []")
    case False
    then obtain u where "s = u @ [nl]" using assms(1) by (auto simp: lines_within_def closed_def)
    then show ?thesis using l lines_append [of u "l @ [nl]"] by simp
  qed (simp add: l)
  then show ?thesis using assms by (auto simp: lines_within_def)
qed

lemma headings_within:
  assumes "(h, body) \<in> set (split_on_headings t)"
  shows "lines_within (lines t) body"
proof -
  define ok where "ok = (\<lambda>st :: (rstr option \<times> rstr) list \<times> rstr option \<times> rstr.
    \<forall>b \<in> snd ` set (fst st) \<union> {snd (snd st)}. lines_within (lines t) b)"
  have step: "ok (heading_step l st)" if "ok st" "l \<in> set (lines t)" for l st
    using that lines_no_nl [OF that(2)]
    by (auto simp: ok_def heading_step_def lines_within_add split: prod.splits)
  have "ok st \<Longrightarrow> set ls \<subseteq> set (lines t) \<Longrightarrow> ok (fold heading_step ls st)" for ls st
    by (induction ls arbitrary: st) (simp_all add: step)
  from this [of "([], None, [])" "lines t"] have ok: "ok (fold heading_step (lines t) ([], None, []))"
    by (simp add: ok_def)
  obtain secs h' b where f: "fold heading_step (lines t) ([], None, []) = (secs, h', b)"
    by (cases "fold heading_step (lines t) ([], None, [])")
  have "(h, body) \<in> set secs \<or> body = b"
    using assms f by (auto simp: split_on_headings_def split: if_splits)
  then show ?thesis using ok f by (force simp: ok_def)
qed

lemma paragraphs_within:
  assumes "lines_within ls body" "para \<in> set (split_on_blank_lines body)"
  shows "\<exists>p. para = p @ [nl] \<and> trim ` set (lines para) \<subseteq> trim ` set ls"
proof -
  define ok where "ok = (\<lambda>st :: rstr list \<times> rstr.
    (\<forall>p \<in> set (fst st). lines_within (lines body) p \<and> p \<noteq> []) \<and> lines_within (lines body) (snd st))"
  have step: "ok (paragraph_step l (ps, u))" if o: "ok (ps, u)" and l: "l \<in> set (lines body)" for l ps u
  proof (cases "trim l = []")
    case True
    have "u \<noteq> []" if "trim u \<noteq> []" using that by auto
    then show ?thesis using o True by (auto simp: ok_def paragraph_step_def)
  next
    case False
    then show ?thesis using o lines_within_add [OF _ l lines_no_nl [OF l]]
      by (simp add: ok_def paragraph_step_def)
  qed
  have "ok st \<Longrightarrow> set ks \<subseteq> set (lines body) \<Longrightarrow> ok (fold paragraph_step ks st)" for ks st
  proof (induction ks arbitrary: st)
    case (Cons l ks)
    then show ?case using step [of "fst st" "snd st" l] by simp
  qed simp
  from this [of "([], [])" "lines body"] have ok: "ok (fold paragraph_step (lines body) ([], []))"
    by (simp add: ok_def)
  obtain ps u where f: "fold paragraph_step (lines body) ([], []) = (ps, u)" by force
  have "para \<in> set ps \<or> para = u \<and> u \<noteq> []"
    using assms(2) f by (auto simp: split_on_blank_lines_def split: if_splits)
  then have "lines_within (lines body) para" "para \<noteq> []" using ok f by (auto simp: ok_def)
  then show ?thesis using assms(1) by (auto simp: lines_within_def closed_def)
qed

lemma section_chunks_fits:
  assumes "lines_within ls body"
  shows "list_all (fits n ls h) (section_chunks n (h, body))"
proof (cases "(case h of None \<Rightarrow> length body | Some h \<Rightarrow> length h + 1 + length body) \<le> n")
  case True
  then have "length (trim (case h of None \<Rightarrow> body | Some h \<Rightarrow> h @ [nl] @ body)) \<le> n"
    by (cases h) (auto intro: order_trans [OF length_trim])
  then show ?thesis using True by (simp add: section_chunks_def fits_def)
next
  case False
  have fold_fits: "list_all (fits n ls h) (fst st) \<Longrightarrow> current_fits n h (snd st) \<Longrightarrow>
      set ps \<subseteq> set (split_on_blank_lines body) \<Longrightarrow>
      list_all (fits n ls h) (fst (fold (paragraph_chunks n h) ps st)) \<and>
      current_fits n h (snd (fold (paragraph_chunks n h) ps st))" for ps st
  proof (induction ps arbitrary: st)
    case (Cons p ps)
    obtain q where "p = q @ [nl]" "trim ` set (lines p) \<subseteq> trim ` set ls"
      using paragraphs_within [OF assms, of p] Cons.prems(3) by auto
    from paragraph_chunks_fits [OF Cons.prems(1,2) this] Cons.IH Cons.prems(3) show ?case by simp
  qed simp
  have "current_fits n h (heading_prefix h)"
    using length_trim_prefix [of h] by (simp add: current_fits_def)
  then show ?thesis using False fold_fits [of "([], heading_prefix h)"] flush_fits
    by (simp add: section_chunks_def)
qed

text \<open>How large a chunk can be. Chunks are numbered from zero without a gap, none is empty, and a
  chunk is at most four bytes per token plus the length of its heading, unless it is a single line
  of the document.
\<close>

theorem chunks_bounded:
  "map ck_index (chunk_markdown t max_tokens) = [0..<length (chunk_markdown t max_tokens)] \<and>
   list_all (\<lambda>c. ck_content c \<noteq> [] \<and>
     (length (ck_content c) \<le> 4 * max_tokens + heading_len (ck_heading c) \<or> ck_content c \<in> trim ` set (lines t)))
     (chunk_markdown t max_tokens)"
proof (cases "trim t = []")
  case False
  define kept where "kept = filter (\<lambda>c. snd c \<noteq> [])
    (concat (map (\<lambda>s. map (Pair (fst s)) (section_chunks (max_tokens * 4) s)) (split_on_headings t)))"
  have c: "chunk_markdown t max_tokens =
      map (\<lambda>(i, h, c). \<lparr>ck_index = i, ck_content = c, ck_heading = h\<rparr>) (List.enumerate 0 kept)"
    using False by (simp add: chunk_markdown_def kept_def Let_def)
  have "fits (4 * max_tokens) (lines t) h x \<and> x \<noteq> []" if "(h, x) \<in> set kept" for h x
    using that section_chunks_fits [OF headings_within] by (fastforce simp: kept_def list_all_iff mult.commute)
  then have k: "fits (4 * max_tokens) (lines t) (fst p) (snd p) \<and> snd p \<noteq> []" if "p \<in> set kept" for p
    using that by (cases p) simp
  have "map fst (List.enumerate 0 kept) = [0..<length kept]" by simp
  moreover have "(i, p) \<in> set (List.enumerate 0 kept) \<Longrightarrow> p \<in> set kept" for i p
    by (auto simp: in_set_enumerate_eq)
  ultimately show ?thesis using k unfolding c
    by (fastforce simp: list_all_iff fits_def comp_def case_prod_unfold)
qed (simp add: chunk_markdown_def)

text \<open>The limit itself can be exceeded: by a heading, and by a line.\<close>

lemma limit_exceeded:
  "map (length \<circ> ck_content) (chunk_markdown (''## Title'' @ nl # ''body text'' @ nl # nl # ''more'') 3) = [8, 18, 13] \<and>
   map (length \<circ> ck_content) (chunk_markdown ''a line without a break'' 1) = [22]"
  by code_simp

text \<open>A heading before a large paragraph becomes a chunk of its own, twice before it and once after it.\<close>

lemma heading_repeated_alone:
  "map ck_content (chunk_markdown (''# T'' @ nl # ''a long line'') 1) = [''# T'', ''# T'', ''a long line'', ''# T'']"
  by code_simp

end
