(* ===== verification/Scrub.thy ===== *)
theory Scrub
  imports Text_Utils
begin

text \<open>
  Removal of secrets from logs, errors and replies (\<open>src/src/security/scrub.rs\<close>): tokens after known
  prefixes and markers, and PEM blocks. The positions of the code's search are suffixes here: the text
  before \<open>search_from\<close> never changes again.
\<close>

definition max_api_error_chars :: nat where
  "max_api_error_chars = 200"

definition is_secret_char :: "char \<Rightarrow> bool" where
  "is_secret_char c \<longleftrightarrow>
     is_ascii_alphanumeric c \<or>
     c \<in> {CHR ''-'', CHR ''_'', CHR ''.'', CHR '':'', CHR ''+'', CHR ''/'', CHR ''=''}"

definition redacted :: rstr where "redacted = ''[REDACTED]''"

definition redacted_pem :: rstr where "redacted_pem = ''[REDACTED-PEM]''"

text \<open>A bare marker stays; otherwise the marker goes with its token.\<close>

function scrub_after_marker :: "rstr \<Rightarrow> rstr \<Rightarrow> rstr" where
  "scrub_after_marker marker s =
     (if s = [] then []
      else if marker \<noteq> [] \<and> starts_with s marker
      then (let content = drop (length marker) s; rest = dropWhile is_secret_char content in
            if rest = content then marker @ scrub_after_marker marker content
            else redacted @ scrub_after_marker marker rest)
      else hd s # scrub_after_marker marker (tl s))"
  by pat_completeness auto
termination
proof (relation "measure (\<lambda>(_, s). length s)")
  fix marker s content rest :: rstr
  assume *: "s \<noteq> []" "marker \<noteq> [] \<and> starts_with s marker" "content = drop (length marker) s"
    "rest = dropWhile is_secret_char content"
  then have "length content < length s" by auto
  moreover have "length rest \<le> length content" by (simp add: *(4) length_dropWhile_le)
  ultimately show "((marker, content), marker, s) \<in> measure (\<lambda>(_, s). length s)"
    "((marker, rest), marker, s) \<in> measure (\<lambda>(_, s). length s)" by auto
qed auto

declare scrub_after_marker.simps [simp del]

definition pem_begin :: rstr where "pem_begin = ''-----BEGIN ''"

text \<open>What is left after the block whose kind and body start the text, if there is a whole block.\<close>

definition pem_block_rest :: "rstr \<Rightarrow> rstr option" where
  "pem_block_rest r =
     (case find_split ''-----'' r of
        None \<Rightarrow> None
      | Some (kind, dashes) \<Rightarrow>
          if kind = [] then None
          else (let end_marker = ''-----END '' @ kind @ ''-----'' in
            case find_split end_marker (drop 5 dashes) of
              None \<Rightarrow> None
            | Some (body, e) \<Rightarrow>
                (let rest = drop (length end_marker) e in
                 if starts_with rest [CHR 0x0D, nl] then Some (drop 2 rest)
                 else if starts_with rest [nl] then Some (drop 1 rest)
                 else Some rest)))"

lemma find_split_length: "find_split p s = Some (a, b) \<Longrightarrow> length b \<le> length s"
  using find_split_Some by fastforce

lemma pem_block_rest_shorter:
  assumes "pem_block_rest r = Some t"
  shows "length t \<le> length r"
proof -
  obtain kind dashes body e where f: "find_split ''-----'' r = Some (kind, dashes)"
    "find_split (''-----END '' @ kind @ ''-----'') (drop 5 dashes) = Some (body, e)" "length t \<le> length e"
    using assms unfolding pem_block_rest_def Let_def
    by (fastforce split: option.splits prod.splits if_splits)
  then show ?thesis using find_split_length [OF f(1)] find_split_length [OF f(2)] by simp
qed

function scrub_pem_blocks :: "rstr \<Rightarrow> rstr" where
  "scrub_pem_blocks s =
     (if s = [] then []
      else if starts_with s pem_begin
      then (case pem_block_rest (drop (length pem_begin) s) of
              None \<Rightarrow> pem_begin @ scrub_pem_blocks (drop (length pem_begin) s)
            | Some rest \<Rightarrow> redacted_pem @ scrub_pem_blocks rest)
      else hd s # scrub_pem_blocks (tl s))"
  by pat_completeness auto
termination
proof (relation "measure length")
  fix s rest :: rstr
  assume "s \<noteq> []" "starts_with s pem_begin" "pem_block_rest (drop (length pem_begin) s) = Some rest"
  then show "(rest, s) \<in> measure length"
    using pem_block_rest_shorter [of "drop (length pem_begin) s" rest] prefix_length_le [of pem_begin s]
    by (simp add: pem_begin_def)
qed (auto simp: pem_begin_def)

declare scrub_pem_blocks.simps [simp del]

definition prefix_patterns :: "rstr list" where
  "prefix_patterns =
     [''sk-'', ''xoxb-'', ''xoxp-'', ''xoxs-'', ''xoxa-'', ''xoxe-'', ''xapp-'', ''ghp_'', ''github_pat_'',
      ''hf_'', ''glpat-'', ''ya29.'', ''AIza'', ''AKIA'', ''ASIA'', ''eyJ'', ''-----BEGIN '', ''GOCSPX-'',
      ''gho_'', ''ghu_'', ''ghs_'', ''sshpass-'', ''AGE-SECRET-KEY-'']"

definition marker_patterns :: "rstr list" where
  "marker_patterns =
     [''Authorization: Bearer '', ''authorization: bearer '', ''\"authorization\":\"Bearer '',
      ''\"authorization\":\"bearer '', ''api_key='', ''access_token='', ''refresh_token='', ''id_token='',
      ''\"api_key\":\"'', ''\"access_token\":\"'', ''\"refresh_token\":\"'', ''\"id_token\":\"'',
      ''\"token\":\"'', ''\"secret\":\"'', ''\"password\":\"'', ''\"private_key\":\"'',
      ''\"client_secret\":\"'', ''\"database_url\":\"'', ''password='', ''secret='', ''DATABASE_URL='',
      ''PRIVATE_KEY='', ''SECRET_KEY='']"

definition needs_scrubbing :: "rstr \<Rightarrow> bool" where
  "needs_scrubbing s \<longleftrightarrow> list_ex (\<lambda>p. contains s p) (prefix_patterns @ marker_patterns)"

definition scrub_secrets :: "rstr \<Rightarrow> rstr" where
  "scrub_secrets s =
     (if \<not> needs_scrubbing s then s
      else scrub_pem_blocks
        (fold scrub_after_marker marker_patterns
          (fold scrub_after_marker (filter (\<lambda>p. p \<noteq> pem_begin) prefix_patterns) s)))"

fun char_count :: "rstr \<Rightarrow> nat" where
  "char_count [] = 0"
| "char_count (c # s) = (if 128 \<le> byte c \<and> byte c < 192 then 0 else 1) + char_count s"

definition sanitize_api_error :: "rstr \<Rightarrow> rstr" where
  "sanitize_api_error s =
     (let t = scrub_secrets s in
      if length t \<le> max_api_error_chars \<or> char_count t \<le> max_api_error_chars then t
      else take (boundary_before t max_api_error_chars) t @ ''...'')"

subsection \<open>Masking\<close>

text \<open>
  What a pass may do to a text: keep characters and put a mask in the place of a piece. A mask stands
  in brackets, and no marker has a bracket in it.
\<close>

definition masks :: "rstr set" where
  "masks = {redacted, redacted_pem}"

inductive masked :: "rstr \<Rightarrow> rstr \<Rightarrow> bool" where
  masked_Nil: "masked [] []"
| masked_keep: "masked s t \<Longrightarrow> masked (c # s) (c # t)"
| masked_mask: "masked s t \<Longrightarrow> m \<in> masks \<Longrightarrow> masked (x @ s) (m @ t)"

lemma masked_append: "masked s t \<Longrightarrow> masked (p @ s) (p @ t)"
  by (induction p) (auto intro: masked_keep)

lemma masked_refl: "masked s s"
  by (induction s) (auto intro: masked.intros)

text \<open>A marker is exposed where a character of a token follows it.\<close>

definition exposed_here :: "rstr \<Rightarrow> rstr \<Rightarrow> bool" where
  "exposed_here p s = (case strip_prefix p s of Some (c # _) \<Rightarrow> is_secret_char c | _ \<Rightarrow> False)"

fun exposes :: "rstr \<Rightarrow> rstr \<Rightarrow> bool" where
  "exposes p [] = False"
| "exposes p (c # s) = (exposed_here p (c # s) \<or> exposes p s)"

lemma exposed_here_iff: "exposed_here p s \<longleftrightarrow> (\<exists>c. is_secret_char c \<and> starts_with s (p @ [c]))"
  by (auto simp: exposed_here_def strip_prefix_Some strip_prefix_None prefix_def split: option.splits list.splits)

lemma exposes_iff: "exposes p s \<longleftrightarrow> (\<exists>u v. s = u @ v \<and> exposed_here p v)"
proof (induction s)
  case Nil
  then show ?case by (simp add: exposed_here_iff)
next
  case (Cons c s)
  then show ?case
    by (auto simp: Cons_eq_append_conv)
qed

lemma exposes_append:
  assumes "exposes p (u @ s)"
  shows "(\<exists>x y. u = x @ y \<and> y \<noteq> [] \<and> exposed_here p (y @ s)) \<or> exposes p s"
  using assms
proof (induction u)
  case (Cons c u)
  show ?case
  proof (cases "exposed_here p (c # u @ s)")
    case True
    then show ?thesis by (intro disjI1 exI [of _ "[]"] exI [of _ "c # u"]) simp
  next
    case False
    then have "exposes p (u @ s)" using Cons.prems by simp
    from Cons.IH [OF this] show ?thesis by (metis append_Cons)
  qed
qed simp

lemma exposes_later: "exposes p s \<Longrightarrow> exposes p (u @ s)"
  by (induction u) auto

definition bracket_free :: "rstr \<Rightarrow> bool" where
  "bracket_free p \<longleftrightarrow> CHR ''['' \<notin> set p \<and> CHR '']'' \<notin> set p"

lemma secret_no_bracket: "is_secret_char c \<Longrightarrow> c \<noteq> CHR ''['' \<and> c \<noteq> CHR '']''"
  by (auto simp: is_secret_char_def is_ascii_alphanumeric_def is_ascii_alphabetic_def is_ascii_digit_def byte_def)

text \<open>A text without brackets at the front of the masked text was there before.\<close>

lemma masked_prefix:
  "masked s t \<Longrightarrow> starts_with t q \<Longrightarrow> CHR ''['' \<notin> set q \<Longrightarrow> starts_with s q"
proof (induction arbitrary: q rule: masked.induct)
  case (masked_keep s t c)
  then show ?case by (cases q) auto
next
  case (masked_mask s t m x)
  then have "hd m = CHR ''[''" "m \<noteq> []" by (auto simp: masks_def redacted_def redacted_pem_def)
  then show ?case using masked_mask.prems by (cases q; cases m) auto
qed simp

lemma masked_exposed_here:
  assumes "masked s t" "exposed_here p t" "bracket_free p"
  shows "exposed_here p s"
  using assms masked_prefix [OF assms(1)] secret_no_bracket
  unfolding exposed_here_iff bracket_free_def by fastforce

text \<open>Inside a mask nothing is exposed.\<close>

lemma mask_hides:
  assumes "m \<in> masks" "m = x @ y" "y \<noteq> []" "exposed_here p (y @ t)" "bracket_free p" "p \<noteq> []"
    "\<not> exposes p ''REDACTED''" "\<not> exposes p ''REDACTED-PEM''"
  shows False
proof -
  obtain w where w: "m = CHR ''['' # w @ '']''" "w = ''REDACTED'' \<or> w = ''REDACTED-PEM''"
    using assms(1) by (auto simp: masks_def redacted_def redacted_pem_def)
  obtain c r where c: "is_secret_char c" "y @ t = p @ c # r"
    using assms(4) by (auto simp: exposed_here_iff prefix_def)
  have "x \<noteq> []"
  proof
    assume "x = []"
    then have "hd p = CHR ''[''" using c(2) w(1) assms(2,6) by (cases p) auto
    then show False using assms(5,6) by (cases p) (auto simp: bracket_free_def)
  qed
  then obtain x' where "x = CHR ''['' # x'" using assms(2) w(1) by (cases x) auto
  then have "x' @ y = w @ '']''" using assms(2) w(1) by simp
  then obtain y' where y: "y = y' @ '']''" "w = x' @ y'"
    using assms(3) by (cases y rule: rev_cases) auto
  have "length (p @ [c]) \<le> length y'"
  proof (rule ccontr)
    assume "\<not> ?thesis"
    then have l: "length (y' @ '']'') \<le> length (p @ [c])" by simp
    have e: "(y' @ '']'') @ t = (p @ [c]) @ r" using c(2) y(1) by simp
    have "starts_with (p @ [c]) (y' @ '']'')"
      by (rule prefix_length_prefix [OF _ _ l]) (rule prefixI [OF e [symmetric]], simp)
    from set_mono_prefix [OF this] have "CHR '']'' \<in> set (p @ [c])" by simp
    then show False using assms(5) secret_no_bracket [OF c(1)] by (auto simp: bracket_free_def)
  qed
  moreover have "starts_with (y' @ '']'' @ t) (p @ [c])" using c(2) y(1) by (simp add: prefix_def)
  moreover have "starts_with (y' @ '']'' @ t) y'" by simp
  ultimately have "starts_with y' (p @ [c])" by (blast intro: prefix_length_prefix)
  then have "exposed_here p y'" using c(1) by (auto simp: exposed_here_iff)
  then have "exposes p w" using y(2) exposes_iff by blast
  then show False using w(2) assms(7,8) by auto
qed

lemma masked_exposes:
  assumes "bracket_free p" "p \<noteq> []" "\<not> exposes p ''REDACTED''" "\<not> exposes p ''REDACTED-PEM''"
  shows "masked s t \<Longrightarrow> exposes p t \<Longrightarrow> exposes p s"
proof (induction rule: masked.induct)
  case (masked_keep s t c)
  show ?case
  proof (cases "exposed_here p (c # t)")
    case True
    then show ?thesis
      using masked_exposed_here [OF masked.masked_keep [OF masked_keep.hyps] _ assms(1)] by simp
  qed (use masked_keep in simp)
next
  case (masked_mask s t m x)
  then have "exposes p t" using exposes_append [of p m t] mask_hides [OF masked_mask.hyps(2) _ _ _ assms] by blast
  then show ?case using masked_mask.IH exposes_later by blast
qed simp

subsection \<open>What scrubbing hides\<close>

text \<open>
  What the proof needs of a marker: no brackets, nothing of it in a mask, and where it overlaps itself
  the next character is one of a token.
\<close>

fun overlaps_ok :: "rstr \<Rightarrow> rstr \<Rightarrow> bool" where
  "overlaps_ok p [] = True"
| "overlaps_ok p (c # q) =
     ((case strip_prefix (c # q) p of Some (d # _) \<Rightarrow> is_secret_char d | _ \<Rightarrow> True) \<and> overlaps_ok p q)"

lemma overlaps_ok_suffix:
  "overlaps_ok p q \<Longrightarrow> q = x @ y \<Longrightarrow> y \<noteq> [] \<Longrightarrow> p = y @ d # r \<Longrightarrow> is_secret_char d"
proof (induction q arbitrary: x)
  case (Cons c q)
  show ?case
  proof (cases x)
    case Nil
    then have "strip_prefix (c # q) p = Some (d # r)" using Cons.prems by (simp add: strip_prefix_Some)
    then show ?thesis using Cons.prems(1) by simp
  next
    case (Cons a x')
    then show ?thesis using Cons.IH [of x'] Cons.prems by auto
  qed
qed simp

definition good_marker :: "rstr \<Rightarrow> bool" where
  "good_marker p \<longleftrightarrow>
     p \<noteq> [] \<and> bracket_free p \<and> \<not> exposes p ''REDACTED'' \<and> \<not> exposes p ''REDACTED-PEM'' \<and>
     overlaps_ok p (tl p)"

lemma all_markers_good:
  "list_all good_marker (filter (\<lambda>p. p \<noteq> pem_begin) prefix_patterns @ marker_patterns)"
  by code_simp

lemma scrub_marker_masked: "masked s (scrub_after_marker p s)"
proof (induction p s rule: scrub_after_marker.induct)
  case (1 p s)
  show ?case
  proof (cases "s = []")
    case False
    let ?content = "drop (length p) s"
    show ?thesis
    proof (cases "p \<noteq> [] \<and> starts_with s p")
      case True
      then have s: "s = p @ ?content" by (metis append_eq_conv_conj prefix_def)
      let ?rest = "dropWhile is_secret_char ?content"
      have r: "?content = takeWhile is_secret_char ?content @ ?rest" by simp
      show ?thesis
      proof (cases "?rest = ?content")
        case bare: True
        then have "scrub_after_marker p s = p @ scrub_after_marker p ?content"
          using False True by (subst scrub_after_marker.simps) (simp add: Let_def)
        then show ?thesis
          using masked_append [OF "1.IH"(1) [OF False True refl refl bare], of p] s by metis
      next
        case token: False
        then have e: "scrub_after_marker p s = redacted @ scrub_after_marker p ?rest"
          using False True by (subst scrub_after_marker.simps) (simp add: Let_def)
        have "s = (p @ takeWhile is_secret_char ?content) @ ?rest" using s r by simp
        then show ?thesis unfolding e
          using masked_mask [OF "1.IH"(2) [OF False True refl refl token], of redacted] by (metis insertI1 masks_def)
      qed
    next
      case none: False
      then have "scrub_after_marker p s = hd s # scrub_after_marker p (tl s)"
        using False by (subst scrub_after_marker.simps) auto
      then show ?thesis using masked_keep [OF "1.IH"(3) [OF False none], of "hd s"] False by simp
    qed
  qed (simp add: scrub_after_marker.simps masked_Nil)
qed

text \<open>Nothing is exposed inside a marker that no token follows.\<close>

lemma bare_not_exposed:
  assumes "good_marker p" "content = [] \<or> \<not> is_secret_char (hd content)" "p = x @ y" "y \<noteq> []"
  shows "\<not> exposed_here p (y @ content)"
proof
  assume "exposed_here p (y @ content)"
  then obtain c where c: "is_secret_char c" "starts_with (y @ content) (p @ [c])" by (auto simp: exposed_here_iff)
  show False
  proof (cases "x = []")
    case True
    then have "starts_with content [c]" using c(2) assms(3) by simp
    then show False using assms(2) c(1) by (cases content) auto
  next
    case x: False
    have "length y < length p" using x assms(3) by (cases x) simp_all
    moreover obtain zs where "y @ content = p @ c # zs" using c(2) by (auto simp: prefix_def)
    ultimately obtain us where us: "us \<noteq> []" "p = y @ us" "content = us @ c # zs"
      by (auto simp: append_eq_append_conv2)
    then obtain d r where d: "p = y @ d # r" "content = d # r @ c # zs" by (cases us) auto
    have "tl p = tl x @ y" using x assms(3) by (cases x) simp_all
    then have "is_secret_char d"
      using overlaps_ok_suffix [OF _ _ assms(4) d(1)] assms(1) unfolding good_marker_def by blast
    then show False using assms(2) d(2) by simp
  qed
qed

lemma scrub_marker_clean:
  assumes "good_marker p"
  shows "\<not> exposes p (scrub_after_marker p s)"
proof (induction s rule: length_induct)
  case (1 s)
  have free: "bracket_free p" "p \<noteq> []" "\<not> exposes p ''REDACTED''" "\<not> exposes p ''REDACTED-PEM''"
    using assms by (auto simp: good_marker_def)
  have here: "exposed_here p (u @ scrub_after_marker p t) \<Longrightarrow> exposed_here p (u @ t)" for u t
    using masked_exposed_here [OF masked_append [OF scrub_marker_masked]] free(1) by blast
  show ?case
  proof (cases "s = []")
    case False
    let ?content = "drop (length p) s"
    let ?rest = "dropWhile is_secret_char ?content"
    show ?thesis
    proof (cases "starts_with s p")
      case True
      then have s: "s = p @ ?content" by (metis append_eq_conv_conj prefix_def)
      have shorter: "length ?content < length s" "length ?rest < length s"
        using False free(2) length_dropWhile_le [of is_secret_char ?content] by (cases s; cases p; auto)+
      show ?thesis
      proof (cases "?rest = ?content")
        case bare: True
        then have e: "scrub_after_marker p s = p @ scrub_after_marker p ?content"
          using False True free(2) by (subst scrub_after_marker.simps) (simp add: Let_def)
        have no: "\<not> is_secret_char (hd ?content)" if "?content \<noteq> []"
          using bare that by (metis hd_dropWhile)
        have "\<not> exposed_here p (y @ scrub_after_marker p ?content)" if "p = x @ y" "y \<noteq> []" for x y
          using here bare_not_exposed [OF assms _ that, of ?content] no by blast
        then show ?thesis
          using exposes_append [of p p "scrub_after_marker p ?content"] e "1.IH" shorter(1) by metis
      next
        case token: False
        then have e: "scrub_after_marker p s = redacted @ scrub_after_marker p ?rest"
          using False True free(2) by (subst scrub_after_marker.simps) (simp add: Let_def)
        have "\<not> exposes p (redacted @ scrub_after_marker p ?rest)"
          using exposes_append [of p redacted] mask_hides [OF _ _ _ _ free, of redacted] "1.IH" shorter(2)
          by (metis insertI1 masks_def)
        then show ?thesis by (simp add: e)
      qed
    next
      case none: False
      then have e: "scrub_after_marker p s = hd s # scrub_after_marker p (tl s)"
        using False by (subst scrub_after_marker.simps) auto
      have "\<not> exposed_here p s" using none by (auto simp: exposed_here_iff prefix_def)
      then have "\<not> exposed_here p (hd s # scrub_after_marker p (tl s))"
        using here [of "[hd s]" "tl s"] False by auto
      then show ?thesis using "1.IH" False e by simp
    qed
  qed (simp add: scrub_after_marker.simps)
qed

lemma pem_block_rest_suffix: "pem_block_rest r = Some t \<Longrightarrow> suffix t r"
proof -
  assume "pem_block_rest r = Some t"
  then obtain kind dashes body e where f: "find_split ''-----'' r = Some (kind, dashes)"
    "find_split (''-----END '' @ kind @ ''-----'') (drop 5 dashes) = Some (body, e)" "suffix t e"
    unfolding pem_block_rest_def Let_def
    by (fastforce split: option.splits prod.splits if_splits intro: suffix_order.trans [OF suffix_drop suffix_drop] suffix_drop)
  have "suffix e (drop 5 dashes)" "suffix dashes r"
    using find_split_Some [OF f(2)] find_split_Some [OF f(1)] by (auto intro: suffixI)
  then show "suffix t r" using f(3) suffix_drop suffix_order.trans by metis
qed

lemma scrub_pem_masked: "masked s (scrub_pem_blocks s)"
proof (induction s rule: scrub_pem_blocks.induct)
  case (1 s)
  show ?case
  proof (cases "s = []")
    case False
    let ?r = "drop (length pem_begin) s"
    show ?thesis
    proof (cases "starts_with s pem_begin")
      case True
      then have s: "s = pem_begin @ ?r" by (metis append_eq_conv_conj prefix_def)
      show ?thesis
      proof (cases "pem_block_rest ?r")
        case None
        then have "scrub_pem_blocks s = pem_begin @ scrub_pem_blocks ?r"
          using False True by (subst scrub_pem_blocks.simps) simp
        then show ?thesis using masked_append [OF "1.IH"(1) [OF False True None], of pem_begin] s by metis
      next
        case (Some rest)
        then have e: "scrub_pem_blocks s = redacted_pem @ scrub_pem_blocks rest"
          using False True by (subst scrub_pem_blocks.simps) simp
        obtain x where "?r = x @ rest" using pem_block_rest_suffix [OF Some] by (auto simp: suffix_def)
        then have "s = (pem_begin @ x) @ rest" using s by simp
        then show ?thesis unfolding e
          using masked_mask [OF "1.IH"(2) [OF False True Some], of redacted_pem] by (metis insertI1 insertI2 masks_def)
      qed
    next
      case none: False
      then have "scrub_pem_blocks s = hd s # scrub_pem_blocks (tl s)"
        using False by (subst scrub_pem_blocks.simps) auto
      then show ?thesis using masked_keep [OF "1.IH"(3) [OF False none], of "hd s"] False by simp
    qed
  qed (simp add: scrub_pem_blocks.simps masked_Nil)
qed

text \<open>The passes keep what earlier passes have reached.\<close>

lemma passes_keep:
  assumes "good_marker p" "\<not> exposes p s"
  shows "\<not> exposes p (fold scrub_after_marker ps s)"
  using assms(2)
proof (induction ps arbitrary: s)
  case (Cons q ps)
  have "\<not> exposes p (scrub_after_marker q s)"
    using masked_exposes [OF _ _ _ _ scrub_marker_masked] Cons.prems assms(1) unfolding good_marker_def by blast
  then show ?case using Cons.IH by simp
qed simp

lemma passes_clean:
  assumes "good_marker p" "p \<in> set ps"
  shows "\<not> exposes p (fold scrub_after_marker ps s)"
  using assms(2)
proof (induction ps arbitrary: s)
  case (Cons q ps)
  then show ?case
    using passes_keep [OF assms(1) scrub_marker_clean [OF assms(1)]] by (cases "p = q") auto
qed simp

lemma exposes_contains: "exposes p s \<Longrightarrow> contains s p"
  by (auto simp: exposes_iff exposed_here_iff prefix_def sublist_def)

definition scrubbed_markers :: "rstr list" where
  "scrubbed_markers = filter (\<lambda>p. p \<noteq> pem_begin) prefix_patterns @ marker_patterns"

lemma scrub_secrets_clean:
  assumes p: "p \<in> set scrubbed_markers"
  shows "\<not> exposes p (scrub_secrets s)"
proof (cases "needs_scrubbing s")
  case True
  let ?prefixes = "filter (\<lambda>p. p \<noteq> pem_begin) prefix_patterns"
  have good: "good_marker p" using all_markers_good p by (auto simp: list_all_iff scrubbed_markers_def)
  have "\<not> exposes p (fold scrub_after_marker marker_patterns (fold scrub_after_marker ?prefixes s))"
    using p passes_clean [OF good] passes_keep [OF good] by (auto simp: scrubbed_markers_def)
  then have "\<not> exposes p (scrub_pem_blocks (fold scrub_after_marker marker_patterns (fold scrub_after_marker ?prefixes s)))"
    using masked_exposes [OF _ _ _ _ scrub_pem_masked] good unfolding good_marker_def by blast
  then show ?thesis using True by (simp add: scrub_secrets_def)
next
  case False
  then show ?thesis
    using p exposes_contains [of p s] by (auto simp: scrub_secrets_def needs_scrubbing_def list_ex_iff scrubbed_markers_def)
qed

subsection \<open>What a pass does exactly\<close>

text \<open>
  One pass for a marker, said by what it keeps and what it masks: going from left to right, a marker that a
  token follows is masked together with the whole token, up to the first character that is not one of a
  token, and every other character is kept.
\<close>

inductive redacts :: "rstr \<Rightarrow> rstr \<Rightarrow> rstr \<Rightarrow> bool" for p where
  redacts_end: "redacts p [] []"
| redacts_keep: "\<not> exposed_here p (c # s) \<Longrightarrow> redacts p s t \<Longrightarrow> redacts p (c # s) (c # t)"
| redacts_token: "token \<noteq> [] \<Longrightarrow> list_all is_secret_char token \<Longrightarrow> rest = [] \<or> \<not> is_secret_char (hd rest) \<Longrightarrow>
    redacts p rest t \<Longrightarrow> redacts p (p @ token @ rest) (''[REDACTED]'' @ t)"

text \<open>One pass for each marker of a list.\<close>

fun redacts_all :: "rstr list \<Rightarrow> rstr \<Rightarrow> rstr \<Rightarrow> bool" where
  "redacts_all [] s t \<longleftrightarrow> t = s"
| "redacts_all (p # ps) s t \<longleftrightarrow> (\<exists>u. redacts p s u \<and> redacts_all ps u t)"

text \<open>A whole PEM block: a first line with a kind, a body, and the first last line of the same kind after it.\<close>

definition pem_block :: "rstr \<Rightarrow> bool" where
  "pem_block b \<longleftrightarrow>
     (\<exists>kind body. b = ''-----BEGIN '' @ kind @ ''-----'' @ body @ ''-----END '' @ kind @ ''-----'' \<and> kind \<noteq> [] \<and>
        \<not> contains (kind @ ''----'') ''-----'' \<and>
        \<not> contains (body @ ''-----END '' @ kind @ ''----'') (''-----END '' @ kind @ ''-----''))"

text \<open>The pass for the blocks: each is masked with the line end after it, every other character is kept.\<close>

definition without_line_end :: "rstr \<Rightarrow> rstr" where
  "without_line_end r =
     (if starts_with r [CHR 0x0D, nl] then drop 2 r else if starts_with r [nl] then drop 1 r else r)"

inductive redacts_pem :: "rstr \<Rightarrow> rstr \<Rightarrow> bool" where
  pem_end: "redacts_pem [] []"
| pem_keep: "(\<And>b r. pem_block b \<Longrightarrow> c # s \<noteq> b @ r) \<Longrightarrow> redacts_pem s t \<Longrightarrow> redacts_pem (c # s) (c # t)"
| pem_mask: "pem_block b \<Longrightarrow> redacts_pem (without_line_end r) t \<Longrightarrow> redacts_pem (b @ r) (''[REDACTED-PEM]'' @ t)"

lemma redacts_unexposed:
  "(\<And>x z. y = x @ z \<Longrightarrow> z \<noteq> [] \<Longrightarrow> \<not> exposed_here p (z @ s)) \<Longrightarrow> redacts p s t \<Longrightarrow> redacts p (y @ s) (y @ t)"
proof (induction y)
  case (Cons c y)
  have "\<not> exposed_here p (c # y @ s)" using Cons.prems(1) [of "[]" "c # y"] by simp
  moreover have "redacts p (y @ s) (y @ t)"
    using Cons.IH Cons.prems(1) [of "c # _"] Cons.prems(2) by simp
  ultimately show ?case by (simp add: redacts_keep)
qed simp

lemma scrub_marker_redacts: "good_marker p \<Longrightarrow> redacts p s (scrub_after_marker p s)"
proof (induction p s rule: scrub_after_marker.induct)
  case (1 p s)
  show ?case
  proof (cases "s = []")
    case False
    let ?content = "drop (length p) s"
    let ?rest = "dropWhile is_secret_char ?content"
    show ?thesis
    proof (cases "p \<noteq> [] \<and> starts_with s p")
      case True
      then have s: "s = p @ ?content" by (metis append_eq_conv_conj prefix_def)
      have stop: "?rest = [] \<or> \<not> is_secret_char (hd ?rest)" using hd_dropWhile by blast
      show ?thesis
      proof (cases "?rest = ?content")
        case bare: True
        then have e: "scrub_after_marker p s = p @ scrub_after_marker p ?content"
          using False True by (subst scrub_after_marker.simps) (simp add: Let_def)
        have bare_stop: "?content = [] \<or> \<not> is_secret_char (hd ?content)" using stop bare by metis
        have "redacts p (p @ ?content) (p @ scrub_after_marker p ?content)"
          by (rule redacts_unexposed [OF _ "1.IH"(1) [OF False True refl refl bare "1.prems"]])
            (rule bare_not_exposed [OF "1.prems" bare_stop])
        then show ?thesis using s e by simp
      next
        case token: False
        then have e: "scrub_after_marker p s = redacted @ scrub_after_marker p ?rest"
          using False True by (subst scrub_after_marker.simps) (simp add: Let_def)
        let ?token = "takeWhile is_secret_char ?content"
        have "?token \<noteq> []" using token by (metis append_Nil takeWhile_dropWhile_id)
        moreover have "list_all is_secret_char ?token" by (auto simp: list_all_iff dest: set_takeWhileD)
        ultimately have "redacts p (p @ ?token @ ?rest) (''[REDACTED]'' @ scrub_after_marker p ?rest)"
          using stop "1.IH"(2) [OF False True refl refl token "1.prems"] by (rule redacts_token)
        then show ?thesis using s e by (simp add: redacted_def)
      qed
    next
      case none: False
      then have e: "scrub_after_marker p s = hd s # scrub_after_marker p (tl s)"
        using False by (subst scrub_after_marker.simps) auto
      have "\<not> exposed_here p s" using none "1.prems" by (auto simp: exposed_here_iff prefix_def good_marker_def)
      then have "redacts p (hd s # tl s) (hd s # scrub_after_marker p (tl s))"
        using False by (intro redacts_keep "1.IH"(3) [OF False none "1.prems"]) simp
      then show ?thesis using False e by simp
    qed
  qed (simp add: scrub_after_marker.simps redacts_end)
qed

lemma redacts_all_fold: "list_all good_marker ps \<Longrightarrow> redacts_all ps s (fold scrub_after_marker ps s)"
  by (induction ps arbitrary: s) (auto intro: scrub_marker_redacts)

text \<open>The search finds the first place.\<close>

lemma find_split_at:
  assumes "p \<noteq> []"
  shows "find_split p (a @ p @ r) = Some (a, p @ r) \<longleftrightarrow> \<not> contains (a @ butlast p) p"
proof (induction a)
  case Nil
  have "\<not> contains (butlast p) p"
    using assms sublist_length_le [of p "butlast p"] by (cases p) auto
  moreover have "find_split p (p @ r) = Some ([], p @ r)" using assms prefixI [of "p @ r" p r] by (cases "p @ r") auto
  ultimately show ?case by simp
next
  case (Cons c a)
  have split: "c # a @ p @ r = (c # a @ butlast p) @ last p # r"
    using assms by (metis append.assoc append_Cons append_Nil append_butlast_last_id)
  have "length p \<le> length (c # a @ butlast p)" using assms by simp
  then have "starts_with (c # a @ p @ r) p \<longleftrightarrow> starts_with (c # a @ butlast p) p"
    unfolding split by (metis prefix_length_prefix prefix_prefix prefixI)
  then show ?case using Cons by (auto simp: sublist_Cons_right)
qed

lemma pem_block_rest_Some:
  assumes "pem_block_rest r = Some t"
  shows "\<exists>b u. pem_block b \<and> pem_begin @ r = b @ u \<and> t = without_line_end u"
proof -
  obtain kind dashes body e where f: "find_split ''-----'' r = Some (kind, dashes)" "kind \<noteq> []"
      "find_split (''-----END '' @ kind @ ''-----'') (drop 5 dashes) = Some (body, e)"
      "t = without_line_end (drop (length (''-----END '' @ kind @ ''-----'')) e)"
    using assms unfolding pem_block_rest_def Let_def without_line_end_def
    by (auto split: option.splits prod.splits if_splits)
  let ?mark = "''-----END '' @ kind @ ''-----''"
  obtain d where d: "r = kind @ ''-----'' @ d" "dashes = ''-----'' @ d"
    using find_split_Some [OF f(1)] by (auto simp: prefix_def)
  then have "drop 5 dashes = d" by simp
  with f(3) obtain u where u: "d = body @ ?mark @ u" "e = ?mark @ u"
    using find_split_Some [of ?mark d body e] by (auto simp: prefix_def)
  have "\<not> contains (kind @ ''----'') ''-----''" using f(1) d find_split_at [of "''-----''" kind d] by simp
  moreover have "\<not> contains (body @ ''-----END '' @ kind @ ''----'') ?mark"
    using f(3) u \<open>drop 5 dashes = d\<close> find_split_at [of ?mark body u] by (simp add: butlast_append)
  ultimately have "pem_block (''-----BEGIN '' @ kind @ ''-----'' @ body @ ?mark)"
    using f(2) unfolding pem_block_def by blast
  moreover have "t = without_line_end u" using f(4) u(2) by simp
  moreover have "pem_begin @ r = (''-----BEGIN '' @ kind @ ''-----'' @ body @ ?mark) @ u"
    using d(1) u(1) by (simp add: pem_begin_def)
  ultimately show ?thesis by blast
qed

lemma pem_block_rest_None:
  assumes "pem_block_rest r = None" "pem_block b"
  shows "pem_begin @ r \<noteq> b @ u"
proof
  assume e: "pem_begin @ r = b @ u"
  obtain kind body where b: "b = ''-----BEGIN '' @ kind @ ''-----'' @ body @ ''-----END '' @ kind @ ''-----''" "kind \<noteq> []"
      "\<not> contains (kind @ ''----'') ''-----''"
      "\<not> contains (body @ ''-----END '' @ kind @ ''----'') (''-----END '' @ kind @ ''-----'')"
    using assms(2) unfolding pem_block_def by blast
  let ?mark = "''-----END '' @ kind @ ''-----''"
  have r: "r = kind @ ''-----'' @ body @ ?mark @ u" using e b(1) by (simp add: pem_begin_def)
  have "find_split ''-----'' r = Some (kind, ''-----'' @ body @ ?mark @ u)"
    using find_split_at [of "''-----''" kind "body @ ?mark @ u"] b(3) unfolding r by simp
  moreover have "find_split ?mark (body @ ?mark @ u) = Some (body, ?mark @ u)"
    using find_split_at [of ?mark body u] b(4) by (simp add: butlast_append)
  ultimately have "pem_block_rest r \<noteq> None" using b(2) by (simp add: pem_block_rest_def Let_def)
  then show False using assms(1) by simp
qed

lemma pem_block_begins: "pem_block b \<Longrightarrow> starts_with (b @ r) ''-----BEGIN ''"
  by (auto simp: pem_block_def)

lemma redacts_pem_begin:
  assumes "pem_block_rest r = None" "redacts_pem r t"
  shows "redacts_pem (pem_begin @ r) (pem_begin @ t)"
proof -
  have step: "redacts_pem (c # s) (c # t)" if "redacts_pem s t" "\<not> starts_with (c # s) ''-----BEGIN ''" for c s t
    using that pem_block_begins by (intro pem_keep) force+
  have "redacts_pem (''----BEGIN '' @ r) (''----BEGIN '' @ t)"
    using assms(2) by (auto intro!: step)
  then have "redacts_pem (CHR ''-'' # ''----BEGIN '' @ r) (CHR ''-'' # ''----BEGIN '' @ t)"
    using pem_block_rest_None [OF assms(1)] by (intro pem_keep) (simp_all add: pem_begin_def)
  then show ?thesis by (simp add: pem_begin_def)
qed

lemma scrub_pem_redacts: "redacts_pem s (scrub_pem_blocks s)"
proof (induction s rule: scrub_pem_blocks.induct)
  case (1 s)
  show ?case
  proof (cases "s = []")
    case False
    let ?r = "drop (length pem_begin) s"
    show ?thesis
    proof (cases "starts_with s pem_begin")
      case True
      then have s: "s = pem_begin @ ?r" by (metis append_eq_conv_conj prefix_def)
      show ?thesis
      proof (cases "pem_block_rest ?r")
        case None
        then have "scrub_pem_blocks s = pem_begin @ scrub_pem_blocks ?r"
          using False True by (subst scrub_pem_blocks.simps) simp
        then show ?thesis using redacts_pem_begin [OF None "1.IH"(1) [OF False True None]] s by metis
      next
        case (Some rest)
        then have e: "scrub_pem_blocks s = ''[REDACTED-PEM]'' @ scrub_pem_blocks rest"
          using False True by (subst scrub_pem_blocks.simps) (simp add: redacted_pem_def)
        obtain b u where b: "pem_block b" "pem_begin @ ?r = b @ u" "rest = without_line_end u"
          using pem_block_rest_Some [OF Some] by blast
        then have "redacts_pem (b @ u) (''[REDACTED-PEM]'' @ scrub_pem_blocks rest)"
          using "1.IH"(2) [OF False True Some] by (intro pem_mask) simp_all
        then show ?thesis using s b(2) e by metis
      qed
    next
      case none: False
      then have e: "scrub_pem_blocks s = hd s # scrub_pem_blocks (tl s)"
        using False by (subst scrub_pem_blocks.simps) auto
      have "redacts_pem (hd s # tl s) (hd s # scrub_pem_blocks (tl s))"
        using pem_block_begins none False
        by (intro pem_keep "1.IH"(3) [OF False none]) (force simp: pem_begin_def)
      then show ?thesis using False e by simp
    qed
  qed (simp add: scrub_pem_blocks.simps pem_end)
qed

text \<open>A text without any of the patterns is what its passes leave.\<close>

lemma redacts_none: "\<not> contains s p \<Longrightarrow> redacts p s s"
proof (induction s)
  case (Cons c s)
  then have "\<not> exposed_here p (c # s)" "\<not> contains s p"
    using exposes_contains [of p "c # s"] by (auto simp: sublist_Cons_right)
  then show ?case using Cons.IH redacts_keep by blast
qed (rule redacts_end)

lemma redacts_pem_none: "\<not> contains s pem_begin \<Longrightarrow> redacts_pem s s"
proof (induction s)
  case (Cons c s)
  have "c # s \<noteq> b @ r" if "pem_block b" for b r
    using pem_block_begins [OF that, of r] Cons.prems by (auto simp: pem_begin_def)
  then show ?case using Cons pem_keep by (simp add: sublist_Cons_right)
qed (rule pem_end)

lemma scrub_secrets_redacts:
  "\<exists>u. redacts_all (filter (\<lambda>p. p \<noteq> pem_begin) prefix_patterns @ marker_patterns) s u \<and> redacts_pem u (scrub_secrets s)"
proof (cases "needs_scrubbing s")
  case True
  show ?thesis
    using redacts_all_fold [OF all_markers_good, of s] scrub_pem_redacts True
    by (auto simp: scrub_secrets_def intro!: exI)
next
  case False
  have "redacts_all ps s s" if "list_all (\<lambda>p. \<not> contains s p) ps" for ps
    using that by (induction ps) (auto intro: redacts_none)
  moreover have "\<not> contains s pem_begin" "list_all (\<lambda>p. \<not> contains s p) (filter (\<lambda>p. p \<noteq> pem_begin) prefix_patterns @ marker_patterns)"
    using False by (auto simp: needs_scrubbing_def list_ex_iff list_all_iff prefix_patterns_def pem_begin_def)
  ultimately have "redacts_all (filter (\<lambda>p. p \<noteq> pem_begin) prefix_patterns @ marker_patterns) s s \<and>
      redacts_pem s (scrub_secrets s)"
    using False redacts_pem_none by (simp add: scrub_secrets_def)
  then show ?thesis by blast
qed

text \<open>C37: what scrubbing hides. \<open>scrub_secrets\<close> is one pass for each of the forty-five prefixes and markers
  and one for the PEM blocks: going from left to right, a pass masks every marker that a token follows
  together with the whole token, up to the first character that is not one of a token, and a whole PEM
  block with its line end, and keeps everything else. In the result none of the prefixes and markers
  is followed by a character of a token, whatever the text was and however often and in which order
  they occur in it: a later pass does not bring back what an earlier one hid. This says nothing of a
  secret behind anything else than its marker, such as a blank or the mask of another one (lemma
  \<open>scrub_gaps\<close>).\<close>

theorem scrub_secrets_hides:
  "(\<exists>u. redacts_all (filter (\<lambda>p. p \<noteq> pem_begin) prefix_patterns @ marker_patterns) s u \<and> redacts_pem u (scrub_secrets s)) \<and>
   list_all (\<lambda>p. \<not> exposes p (scrub_secrets s)) (filter (\<lambda>p. p \<noteq> pem_begin) prefix_patterns @ marker_patterns)"
  using scrub_secrets_redacts scrub_secrets_clean unfolding scrubbed_markers_def by (simp add: list_all_iff)

text \<open>
  What it does not hide: the value of a pretty-printed JSON field (a blank after the colon), the rest of
  a password after its first character that is not one of a token, a header in capitals, and a token
  whose marker was masked as the token of another one before its own pass.
\<close>

lemma scrub_gaps:
  "scrub_secrets ''\"password\": \"hunter2\"'' = ''\"password\": \"hunter2\"'' \<and>
   scrub_secrets ''password=hun!ter2'' = ''[REDACTED]!ter2'' \<and>
   scrub_secrets ''AUTHORIZATION: BEARER abc'' = ''AUTHORIZATION: BEARER abc'' \<and>
   scrub_secrets ''api_key=abc&x=1'' = ''[REDACTED]&x=1'' \<and>
   scrub_secrets ''sk-Authorization: Bearer abc'' = ''[REDACTED] Bearer abc''"
  by code_simp

text \<open>The length of an API error: at most 200 characters, or at most 200 bytes and three dots.\<close>

lemma sanitize_api_error_length:
  "char_count (sanitize_api_error s) \<le> max_api_error_chars \<or> length (sanitize_api_error s) \<le> max_api_error_chars + 3"
proof -
  have "boundary_before t n \<le> n" for t n by (induction n) auto
  then show ?thesis
    unfolding sanitize_api_error_def Let_def by (auto intro: le_trans [OF min.cobounded2])
qed

end
