(* ===== verification/Stream_Redactor.thy ===== *)
theory Stream_Redactor
  imports Text_Utils
begin

text \<open>
  Hiding reasoning and internal prompt blocks in streamed replies
  (\<open>src/src/core/providers/streaming/redactor.rs\<close>) and the sinks that pass the visible text on
  (\<open>sink.rs\<close>). The cursor of the code is the text still to process, with the distance to the safe
  limit; as in \<open>Text_Utils\<close>, a step over a character outside ASCII is several steps over its bytes.
\<close>

subsection \<open>State\<close>

definition open_tags :: "rstr list" where "open_tags = [''<think>'', ''<reasoning>'']"

definition close_tags :: "rstr list" where "close_tags = [''</think>'', ''</reasoning>'']"

definition control_tokens :: "rstr list" where
  "control_tokens = [''```'', ''<think>'', ''</think>'', ''<reasoning>'', ''</reasoning>'']"

datatype code_context = PlainText | CodeFence | InlineCode

definition toggle_code_fence :: "code_context \<Rightarrow> code_context" where
  "toggle_code_fence ctx = (if ctx = CodeFence then PlainText else CodeFence)"

definition toggle_inline_code :: "code_context \<Rightarrow> code_context" where
  "toggle_inline_code ctx = (if ctx = InlineCode then PlainText else InlineCode)"

record redactor =
  show_reasoning :: bool
  pending :: rstr
  redaction_depth :: nat
  code_context :: code_context
  internal_block_active :: bool
  internal_line_candidate :: rstr
  buffering_internal_header :: bool

definition redactor_new :: "bool \<Rightarrow> redactor" where
  "redactor_new show_it =
     \<lparr>show_reasoning = show_it, pending = [], redaction_depth = 0, code_context = PlainText,
      internal_block_active = False, internal_line_candidate = [], buffering_internal_header = False\<rparr>"

subsection \<open>Tags\<close>

datatype tag_match = TagOpen nat | TagClose nat | TagIncomplete | TagNone

definition has_incomplete_control_suffix :: "rstr \<Rightarrow> rstr \<Rightarrow> bool" where
  "has_incomplete_control_suffix control sfx \<longleftrightarrow>
     sfx \<noteq> [] \<and> length sfx < length control \<and>
     eq_ignore_ascii_case (take (length sfx) control) sfx"

text \<open>One of the two loops of \<open>match_reasoning_tag\<close>.\<close>

fun match_tags :: "(nat \<Rightarrow> tag_match) \<Rightarrow> bool \<Rightarrow> rstr list \<Rightarrow> rstr \<Rightarrow> tag_match" where
  "match_tags found flush_all [] rest = TagNone"
| "match_tags found flush_all (tag # tags) rest =
     (if starts_with_ascii_ci rest tag then found (length tag)
      else if \<not> flush_all \<and> length rest < length tag \<and> eq_ignore_ascii_case (take (length rest) tag) rest
      then TagIncomplete
      else match_tags found flush_all tags rest)"

definition match_reasoning_tag :: "rstr \<Rightarrow> bool \<Rightarrow> tag_match" where
  "match_reasoning_tag rest flush_all =
     (case match_tags TagOpen flush_all open_tags rest of
        TagNone \<Rightarrow> match_tags TagClose flush_all close_tags rest | m \<Rightarrow> m)"

definition pending_safe_limit :: "rstr \<Rightarrow> nat" where
  "pending_safe_limit s =
     (let max_tail_bytes = fold max (map (\<lambda>t. length t - 1) control_tokens) 0;
          search_start = floor_char_boundary s (length s - max_tail_bytes)
      in fold (\<lambda>start hold_from.
                 if is_char_boundary s start \<and> search_start \<le> start \<and>
                    list_ex (\<lambda>t. has_incomplete_control_suffix t (drop start s)) control_tokens
                 then min hold_from start else hold_from)
           [0..<length s] (length s))"

subsection \<open>The pending text\<close>

lemma match_reasoning_tag_pos:
  "match_reasoning_tag rest f = TagOpen n \<or> match_reasoning_tag rest f = TagClose n \<Longrightarrow> 0 < n"
  by (auto simp: match_reasoning_tag_def open_tags_def close_tags_def split: if_splits tag_match.splits)

text \<open>
  The loop of \<open>process_pending\<close>: the new depth and context, the visible text and what stays pending;
  \<open>lim\<close> is the distance to the safe limit.
\<close>

function process_from ::
    "bool \<Rightarrow> nat \<Rightarrow> nat \<Rightarrow> code_context \<Rightarrow> rstr \<Rightarrow> nat \<times> code_context \<times> rstr \<times> rstr" where
  "process_from flush_all lim depth ctx s =
     (let visible = (\<lambda>t. if depth = 0 then t else []);
          after = (\<lambda>t (d, c, out, rest). (d, c, visible t @ out, rest)) in
      if lim = 0 \<or> s = [] then (depth, ctx, [], s)
      else if ctx \<noteq> InlineCode \<and> starts_with s ''```'' \<and> lim < 3 \<and> \<not> flush_all then (depth, ctx, [], s)
      else if ctx \<noteq> InlineCode \<and> starts_with s ''```''
      then after ''```'' (process_from flush_all (lim - 3) depth (toggle_code_fence ctx) (drop 3 s))
      else if ctx \<noteq> CodeFence \<and> starts_with s ''`''
      then after ''`'' (process_from flush_all (lim - 1) depth (toggle_inline_code ctx) (drop 1 s))
      else (case (if ctx = PlainText then match_reasoning_tag s flush_all else TagNone) of
              TagOpen n \<Rightarrow> process_from flush_all (lim - n) (depth + 1) ctx (drop n s)
            | TagClose n \<Rightarrow> process_from flush_all (lim - n) (depth - 1) ctx (drop n s)
            | TagIncomplete \<Rightarrow> (depth, ctx, [], s)
            | TagNone \<Rightarrow> after [hd s] (process_from flush_all (lim - 1) depth ctx (tl s))))"
  by pat_completeness auto
termination
  by (relation "measure (\<lambda>(_, lim, _). lim)")
    (auto split: if_splits dest: match_reasoning_tag_pos [OF disjI1] match_reasoning_tag_pos [OF disjI2])

declare process_from.simps [simp del]

definition process_pending :: "bool \<Rightarrow> redactor \<Rightarrow> redactor \<times> rstr" where
  "process_pending flush_all r =
     (let lim = (if flush_all then length (pending r) else pending_safe_limit (pending r)) in
      case process_from flush_all lim (redaction_depth r) (code_context r) (pending r) of
        (d, c, out, rest) \<Rightarrow> (r\<lparr>redaction_depth := d, code_context := c, pending := rest\<rparr>, out))"

subsection \<open>Internal prompt blocks\<close>

definition block_char :: "char \<Rightarrow> redactor \<times> rstr \<Rightarrow> redactor \<times> rstr" where
  "block_char ch st =
     (case st of (r, out) \<Rightarrow>
        let candidate = internal_line_candidate r @ [ch] in
        if internal_block_active r then
          (if ch = nl
           then (r\<lparr>internal_line_candidate := [], internal_block_active := trim candidate \<noteq> []\<rparr>, out)
           else (r\<lparr>internal_line_candidate := candidate\<rparr>, out))
        else if buffering_internal_header r then
          (if ch = nl
           then (if is_internal_prompt_block_header (trim candidate)
                 then (r\<lparr>internal_line_candidate := [], buffering_internal_header := False,
                         internal_block_active := True\<rparr>, out)
                 else (r\<lparr>internal_line_candidate := [], buffering_internal_header := False\<rparr>, out @ candidate))
           else (r\<lparr>internal_line_candidate := candidate\<rparr>, out))
        else if ch = CHR ''[''
        then (r\<lparr>buffering_internal_header := True, internal_line_candidate := candidate\<rparr>, out)
        else (r, out @ [ch]))"

definition redact_internal_prompt_blocks :: "bool \<Rightarrow> rstr \<Rightarrow> redactor \<Rightarrow> redactor \<times> rstr" where
  "redact_internal_prompt_blocks flush_all inp r =
     (case fold block_char inp (r, []) of (r, out) \<Rightarrow>
        let (r, out) =
          (if flush_all \<and> buffering_internal_header r
           then (r\<lparr>internal_line_candidate := [], buffering_internal_header := False\<rparr>,
                 if is_internal_prompt_block_header (trim (internal_line_candidate r)) then out
                 else out @ internal_line_candidate r)
           else (r, out)) in
        if flush_all \<and> internal_block_active r
        then (r\<lparr>internal_line_candidate := [], internal_block_active := False\<rparr>, out) else (r, out))"

subsection \<open>Deltas\<close>

definition visible_delta :: "rstr \<Rightarrow> redactor \<Rightarrow> redactor \<times> rstr" where
  "visible_delta incoming r =
     (let (r, visible) =
        (if show_reasoning r then (r, incoming)
         else process_pending False (r\<lparr>pending := pending r @ incoming\<rparr>)) in
      redact_internal_prompt_blocks False visible r)"

definition finish_visible :: "redactor \<Rightarrow> redactor \<times> rstr" where
  "finish_visible r =
     (let (r, tail) = (if show_reasoning r then (r, []) else process_pending True r) in
      redact_internal_prompt_blocks True tail r)"

definition should_hold_output :: "redactor \<Rightarrow> bool" where
  "should_hold_output r \<longleftrightarrow>
     \<not> show_reasoning r \<and> (0 < redaction_depth r \<or> pending r \<noteq> []) \<or>
     internal_block_active r \<or> buffering_internal_header r"

subsection \<open>The channel sink\<close>

record channel_sink =
  buffer :: rstr
  sink_redactor :: redactor

definition at_flush_boundary :: "rstr \<Rightarrow> bool" where
  "at_flush_boundary t \<longleftrightarrow>
     trim_end t \<noteq> t \<or> ends_with t ''.'' \<or> ends_with t ''!'' \<or> ends_with t ''?''"

definition should_flush :: "rstr \<Rightarrow> nat \<Rightarrow> bool" where
  "should_flush buf threshold \<longleftrightarrow>
     threshold \<le> length buf \<and> (at_flush_boundary buf \<or> threshold * 2 \<le> length buf)"

definition push_delta :: "nat \<Rightarrow> rstr \<Rightarrow> channel_sink \<Rightarrow> channel_sink \<times> rstr option" where
  "push_delta threshold delta st =
     (case visible_delta delta (sink_redactor st) of (r, visible) \<Rightarrow>
        if visible = [] then (st\<lparr>sink_redactor := r\<rparr>, None)
        else let buf = buffer st @ visible in
          if should_hold_output r then (st\<lparr>sink_redactor := r, buffer := buf\<rparr>, None)
          else if should_flush buf threshold then (st\<lparr>sink_redactor := r, buffer := []\<rparr>, Some buf)
          else (st\<lparr>sink_redactor := r, buffer := buf\<rparr>, None))"

definition flush_sink :: "channel_sink \<Rightarrow> channel_sink \<times> rstr option" where
  "flush_sink st =
     (case finish_visible (sink_redactor st) of (r, tail) \<Rightarrow>
        let buf = buffer st @ tail in
        (st\<lparr>sink_redactor := r, buffer := []\<rparr>, if buf \<noteq> [] then Some buf else None))"

definition sink_new :: "bool \<Rightarrow> channel_sink" where
  "sink_new show_it = \<lparr>buffer = [], sink_redactor = redactor_new show_it\<rparr>"

text \<open>The events of a reply: its deltas, then \<open>Done\<close>; the sink after it and what goes to the channel.\<close>

fun sink_payloads :: "nat \<Rightarrow> rstr list \<Rightarrow> channel_sink \<Rightarrow> channel_sink \<times> rstr list" where
  "sink_payloads threshold [] st =
     (case flush_sink st of (st, p) \<Rightarrow> (st, case p of None \<Rightarrow> [] | Some p \<Rightarrow> [p]))"
| "sink_payloads threshold (d # ds) st =
     (case push_delta threshold d st of (st, p) \<Rightarrow>
        (case sink_payloads threshold ds st of (st, ps) \<Rightarrow> (st, (case p of None \<Rightarrow> [] | Some p \<Rightarrow> [p]) @ ps)))"

text \<open>One sink serves the replies of a turn one after the other; the payloads of each.\<close>

fun sink_replies :: "nat \<Rightarrow> rstr list list \<Rightarrow> channel_sink \<Rightarrow> rstr list list" where
  "sink_replies threshold [] st = []"
| "sink_replies threshold (ds # replies) st =
     (case sink_payloads threshold ds st of (st, ps) \<Rightarrow> ps # sink_replies threshold replies st)"

definition channel_replies :: "nat \<Rightarrow> bool \<Rightarrow> rstr list list \<Rightarrow> rstr list list" where
  "channel_replies flush_threshold show_it replies = sink_replies (max flush_threshold 1) replies (sink_new show_it)"

text \<open>The terminal sink writes every nonempty piece at once.\<close>

fun cli_writes :: "rstr list \<Rightarrow> redactor \<Rightarrow> redactor \<times> rstr list" where
  "cli_writes [] r = (case finish_visible r of (r, tail) \<Rightarrow> (r, if tail = [] then [] else [tail]))"
| "cli_writes (d # ds) r =
     (case visible_delta d r of (r, v) \<Rightarrow>
        (case cli_writes ds r of (r, vs) \<Rightarrow> (r, (if v = [] then [] else [v]) @ vs)))"

fun cli_replies :: "rstr list list \<Rightarrow> redactor \<Rightarrow> rstr list list" where
  "cli_replies [] r = []"
| "cli_replies (ds # replies) r = (case cli_writes ds r of (r, vs) \<Rightarrow> vs # cli_replies replies r)"

subsection \<open>What is to be seen\<close>

text \<open>
  The filter of reasoning on a whole text (\<open>strip_reasoning\<close> in \<open>src/src/utils/text.rs\<close>), with the depth and
  the context of code in which the text begins, and those in which it ends.
\<close>

definition kept_text :: "nat \<Rightarrow> rstr \<Rightarrow> rstr \<times> nat \<times> code_context \<Rightarrow> rstr \<times> nat \<times> code_context" where
  "kept_text depth t r = (case r of (out, e) \<Rightarrow> ((if depth = 0 then t else []) @ out, e))"

function scan :: "nat \<Rightarrow> code_context \<Rightarrow> rstr \<Rightarrow> rstr \<times> nat \<times> code_context" where
  "scan depth ctx s =
     (if s = [] then ([], depth, ctx)
      else if ctx \<noteq> InlineCode \<and> starts_with s ''```'' then kept_text depth ''```'' (scan depth (toggle_code_fence ctx) (drop 3 s))
      else if ctx \<noteq> CodeFence \<and> starts_with s ''`'' then kept_text depth ''`'' (scan depth (toggle_inline_code ctx) (drop 1 s))
      else if ctx = PlainText \<and> starts_with_ascii_ci s ''<think>'' then scan (depth + 1) ctx (drop 7 s)
      else if ctx = PlainText \<and> starts_with_ascii_ci s ''<reasoning>'' then scan (depth + 1) ctx (drop 11 s)
      else if ctx = PlainText \<and> starts_with_ascii_ci s ''</think>'' then scan (depth - 1) ctx (drop 8 s)
      else if ctx = PlainText \<and> starts_with_ascii_ci s ''</reasoning>'' then scan (depth - 1) ctx (drop 12 s)
      else kept_text depth [hd s] (scan depth ctx (tl s)))"
  by pat_completeness auto
termination by (relation "measure (\<lambda>(_, _, s). length s)") auto

declare scan.simps [simp del]

text \<open>
  The removal of prompt blocks from a whole text: a bracket opens a line up to the next line end, wherever it
  stands; when that is the header of a block, it goes with all lines up to and including the first blank
  one, and otherwise it stays.
\<close>

abbreviation first_line :: "rstr \<Rightarrow> rstr" where
  "first_line s \<equiv> takeWhile (\<lambda>c. c \<noteq> nl) s"

abbreviation later_lines :: "rstr \<Rightarrow> rstr" where
  "later_lines s \<equiv> drop 1 (dropWhile (\<lambda>c. c \<noteq> nl) s)"

lemma later_lines_shorter: "nl \<in> set s \<Longrightarrow> length (later_lines s) < length s"
  using length_dropWhile_le [of "\<lambda>c. c \<noteq> nl" s] by (cases s) auto

function after_block :: "rstr \<Rightarrow> rstr" where
  "after_block s =
     (if nl \<notin> set s then []
      else if trim (first_line s) = [] then later_lines s else after_block (later_lines s))"
  by pat_completeness auto
termination by (relation "measure length") (use later_lines_shorter in \<open>simp_all del: length_drop\<close>)

declare after_block.simps [simp del]

lemma after_block_length: "length (after_block s) \<le> length s"
proof (induction s rule: after_block.induct)
  case (1 s)
  then show ?case using later_lines_shorter [of s] by (subst after_block.simps) (auto simp del: length_drop)
qed

function blocks_removed :: "rstr \<Rightarrow> rstr" where
  "blocks_removed s =
     (let before = takeWhile (\<lambda>c. c \<noteq> CHR ''['') s; line = dropWhile (\<lambda>c. c \<noteq> CHR ''['') s in
      if line = [] then before
      else if is_internal_prompt_block_header (trim (first_line line))
      then before @ blocks_removed (after_block (later_lines line))
      else if nl \<in> set line then before @ first_line line @ [nl] @ blocks_removed (later_lines line)
      else before @ line)"
  by pat_completeness auto
termination
proof (relation "measure length", simp)
  fix s line :: rstr
  assume line: "line = dropWhile (\<lambda>c. c \<noteq> CHR ''['') s" "line \<noteq> []"
  have "hd line \<noteq> nl" using line hd_dropWhile [of "\<lambda>c. c \<noteq> CHR ''[''" s] by auto
  then have "length (later_lines line) < length line"
    using line(2) length_dropWhile_le [of "\<lambda>c. c \<noteq> nl" "tl line"] by (cases line) auto
  moreover have "length line \<le> length s" using line(1) length_dropWhile_le by blast
  ultimately have "length (later_lines line) < length s" by linarith
  then show "(after_block (later_lines line), s) \<in> measure length" "(later_lines line, s) \<in> measure length"
    using after_block_length [of "later_lines line"] by (simp_all del: length_drop)
qed

declare blocks_removed.simps [simp del]

text \<open>The replies of a turn as they are to be seen, each from the depth and the context the last one left.\<close>

fun seen_replies :: "bool \<Rightarrow> nat \<Rightarrow> code_context \<Rightarrow> rstr list \<Rightarrow> rstr list" where
  "seen_replies show_it depth ctx [] = []"
| "seen_replies show_it depth ctx (t # ts) =
     (if show_it then blocks_removed t # seen_replies show_it depth ctx ts
      else (case scan depth ctx t of (out, depth, ctx) \<Rightarrow> blocks_removed out # seen_replies show_it depth ctx ts))"

subsection \<open>Chunks against the whole text\<close>

lemma ci_prefix: "starts_with_ascii_ci s p \<longleftrightarrow> prefix (map ascii_lower p) (map ascii_lower s)"
  unfolding starts_with_ascii_ci_def eq_ignore_ascii_case_def prefix_def
  by (metis (no_types, lifting) append_eq_conv_conj append_take_drop_id length_map map_append le_iff_add length_append
      take_map)

lemma incomplete_prefix:
  "has_incomplete_control_suffix p s \<longleftrightarrow> s \<noteq> [] \<and> strict_prefix (map ascii_lower s) (map ascii_lower p)"
proof -
  have "eq_ignore_ascii_case (take (length s) p) s \<longleftrightarrow> prefix (map ascii_lower s) (map ascii_lower p)" if "length s < length p"
    using ci_prefix [of p s] that unfolding starts_with_ascii_ci_def by auto
  then show ?thesis
    unfolding has_incomplete_control_suffix_def using prefix_length_less strict_prefix_def
    by (metis length_map less_irrefl)
qed

lemma ci_append:
  "s \<noteq> [] \<Longrightarrow> \<not> has_incomplete_control_suffix p s \<Longrightarrow> starts_with_ascii_ci (s @ t) p = starts_with_ascii_ci s p"
  unfolding ci_prefix incomplete_prefix by (auto simp: prefix_append strict_prefix_def) (metis append_Nil2)?

lemma lower_tick: "ascii_lower c = CHR 0x60 \<longleftrightarrow> c = CHR 0x60"
proof
  assume e: "ascii_lower c = CHR 0x60"
  show "c = CHR 0x60"
  proof (rule ccontr)
    assume "c \<noteq> CHR 0x60"
    then have u: "65 \<le> byte c" "byte c \<le> 90" "char_of (byte c + 32) = CHR 0x60"
      using e by (auto simp: ascii_lower_def split: if_splits)
    have "(of_char (char_of (byte c + 32) :: char) :: nat) = byte c + 32"
      using u(2) by (simp add: take_bit_eq_mod)
    then show False using u by simp
  qed
qed (simp add: ascii_lower_def byte_def)

text \<open>Where the text before a position holds back nothing, what is decided there is decided for good.\<close>

definition settled_until :: "nat \<Rightarrow> rstr \<Rightarrow> bool" where
  "settled_until lim s \<longleftrightarrow>
     lim \<le> length s \<and> (\<forall>i < lim. \<forall>t \<in> set control_tokens. \<not> has_incomplete_control_suffix t (drop i s))"

lemma settled_drop: "settled_until lim s \<Longrightarrow> settled_until (lim - n) (drop n s)"
  by (auto simp: settled_until_def add.commute)

lemma settled_now: "settled_until lim s \<Longrightarrow> lim \<noteq> 0 \<Longrightarrow> t \<in> set control_tokens \<Longrightarrow> \<not> has_incomplete_control_suffix t s"
  by (auto simp: settled_until_def dest: spec [of _ 0])

lemma fence_ci: "starts_with s ''```'' \<longleftrightarrow> starts_with_ascii_ci s ''```''"
proof -
  have l: "map ascii_lower ''```'' = ''```''" by code_simp
  show ?thesis unfolding ci_prefix l
    by (cases s; cases "tl s"; cases "tl (tl s)") (auto simp: lower_tick eq_commute [of "CHR 0x60"])
qed

lemma tokens_are: "set control_tokens = {''```''} \<union> set open_tags \<union> set close_tags"
  by (auto simp: control_tokens_def open_tags_def close_tags_def)

text \<open>The tag at a settled position: what the whole text has there.\<close>

lemma match_tags_settled:
  assumes "s \<noteq> []" "\<forall>t \<in> set tags. \<not> has_incomplete_control_suffix t s"
  shows "match_tags found False tags s = match_tags found True tags (s @ t)"
  using assms(2)
proof (induction tags)
  case (Cons p ps)
  then have "starts_with_ascii_ci (s @ t) p = starts_with_ascii_ci s p" by (simp add: ci_append [OF assms(1)])
  moreover have "\<not> (length s < length p \<and> eq_ignore_ascii_case (take (length s) p) s)"
    using Cons.prems assms(1) by (auto simp: has_incomplete_control_suffix_def)
  ultimately show ?case using Cons by auto
qed simp

lemma match_reasoning_settled:
  assumes "s \<noteq> []" "\<forall>t \<in> set control_tokens. \<not> has_incomplete_control_suffix t s"
  shows "match_reasoning_tag s False = match_reasoning_tag (s @ t) True"
proof -
  have "\<forall>t \<in> set open_tags. \<not> has_incomplete_control_suffix t s"
    "\<forall>t \<in> set close_tags. \<not> has_incomplete_control_suffix t s"
    using assms(2) by (simp_all add: tokens_are)
  then have e: "match_tags TagOpen False open_tags s = match_tags TagOpen True open_tags (s @ t)"
    "match_tags TagClose False close_tags s = match_tags TagClose True close_tags (s @ t)"
    using match_tags_settled [OF assms(1)] by blast+
  show ?thesis unfolding match_reasoning_tag_def e ..
qed

lemma no_incomplete: "match_reasoning_tag s True \<noteq> TagIncomplete"
  by (auto simp: match_reasoning_tag_def open_tags_def close_tags_def split: tag_match.splits)

lemma match_tag_length:
  "match_reasoning_tag s f = TagOpen n \<or> match_reasoning_tag s f = TagClose n \<Longrightarrow> n \<le> length s"
  by (auto simp: match_reasoning_tag_def open_tags_def close_tags_def starts_with_ascii_ci_def
      split: if_splits tag_match.splits)

text \<open>The filter of whole texts, by the context of the stream.\<close>

lemma match_whole:
  "match_reasoning_tag s True =
     (if starts_with_ascii_ci s ''<think>'' then TagOpen 7
      else if starts_with_ascii_ci s ''<reasoning>'' then TagOpen 11
      else if starts_with_ascii_ci s ''</think>'' then TagClose 8
      else if starts_with_ascii_ci s ''</reasoning>'' then TagClose 12
      else TagNone)"
  by (simp add: match_reasoning_tag_def open_tags_def close_tags_def)

lemma scan_Nil [simp]: "scan depth ctx [] = ([], depth, ctx)"
  by (simp add: scan.simps)

lemma scan_step:
  assumes "s \<noteq> []"
  shows "scan depth ctx s =
    (if ctx \<noteq> InlineCode \<and> starts_with s ''```'' then kept_text depth ''```'' (scan depth (toggle_code_fence ctx) (drop 3 s))
     else if ctx \<noteq> CodeFence \<and> starts_with s ''`'' then kept_text depth ''`'' (scan depth (toggle_inline_code ctx) (drop 1 s))
     else (case (if ctx = PlainText then match_reasoning_tag s True else TagNone) of
             TagOpen n \<Rightarrow> scan (depth + 1) ctx (drop n s)
           | TagClose n \<Rightarrow> scan (depth - 1) ctx (drop n s)
           | _ \<Rightarrow> kept_text depth [hd s] (scan depth ctx (tl s))))"
  using assms by (subst scan.simps) (simp add: match_whole)

lemma fst_kept_text: "fst (kept_text depth t r) = (if depth = 0 then t else []) @ fst r"
  by (simp add: kept_text_def split: prod.split)

lemma scan_strips: "fst (scan depth ctx s) = strip_reasoning_from depth (ctx = CodeFence) (ctx = InlineCode) s"
proof (induction depth ctx s rule: scan.induct)
  case (1 depth ctx s)
  show ?case
  proof (cases "s = []")
    case False
    show ?thesis
      using 1 False
      by (subst scan.simps, subst strip_reasoning_from.simps, cases ctx)
        (simp_all add: fst_kept_text toggle_code_fence_def toggle_inline_code_def)
  qed (simp add: strip_reasoning_from.simps)
qed

definition decided :: "bool \<Rightarrow> nat \<Rightarrow> rstr \<Rightarrow> rstr \<Rightarrow> bool" where
  "decided flush_all lim s t \<longleftrightarrow>
     flush_all \<and> t = [] \<and> length s \<le> lim \<or> \<not> flush_all \<and> settled_until lim s"

lemma process_settled:
  assumes "decided flush_all lim s t"
  shows "case process_from flush_all lim depth ctx s of
     (d, c, out, rest) \<Rightarrow> scan depth ctx (s @ t) = (case scan d c (rest @ t) of (o', e) \<Rightarrow> (out @ o', e))"
  using assms
proof (induction flush_all lim depth ctx s rule: process_from.induct)
  case (1 flush_all lim depth ctx s)
  note process = process_from.simps [of flush_all lim depth ctx s, unfolded Let_def]
  show ?case
  proof (cases "lim = 0 \<or> s = []")
    case True
    then show ?thesis by (simp add: process)
  next
    case False
    then have s: "s \<noteq> []" "lim \<noteq> 0" by auto
    have tokens: "flush_all \<and> t = [] \<or> \<not> flush_all \<and> (\<forall>t \<in> set control_tokens. \<not> has_incomplete_control_suffix t s)"
      using "1.prems" settled_now [OF _ s(2)] unfolding decided_def by blast
    have fence: "starts_with (s @ t) ''```'' = starts_with s ''```''"
      unfolding fence_ci using ci_append s(1) tokens by (auto simp: tokens_are)
    have tick: "starts_with (s @ t) ''`'' = starts_with s ''`''" using s(1) by (cases s) auto
    have tag: "match_reasoning_tag (s @ t) True = match_reasoning_tag s flush_all"
      using match_reasoning_settled [OF s(1)] tokens by (cases flush_all) auto
    have dropped: "drop n (s @ t) = drop n s @ t" if "n \<le> length s" for n using that by simp
    note step = scan_step [of "s @ t" depth ctx, unfolded fence tick tag]
    have prems: "decided flush_all (lim - n) (drop n s) t" for n
      using "1.prems" settled_drop [of lim s n] by (auto simp: decided_def)
    show ?thesis
    proof (cases "ctx \<noteq> InlineCode \<and> starts_with s ''```''")
      case fence: True
      then have l: "3 \<le> length s" using prefix_length_le [of "''```''" s] by simp
      show ?thesis
      proof (cases "lim < 3 \<and> \<not> flush_all")
        case True
        then show ?thesis using False fence unfolding process by simp
      next
        case lim: False
        then have "\<not> (ctx \<noteq> InlineCode \<and> starts_with s ''```'' \<and> lim < 3 \<and> \<not> flush_all)" by blast
        from "1.IH"(1) [OF refl refl False this fence prems]
        moreover have "process_from flush_all lim depth ctx s =
          (case process_from flush_all (lim - 3) depth (toggle_code_fence ctx) (drop 3 s) of
             (d, c, out, rest) \<Rightarrow> (d, c, (if depth = 0 then ''```'' else []) @ out, rest))"
          unfolding process using False fence lim by (cases "lim < 3") simp_all
        moreover have "scan depth ctx (s @ t) = kept_text depth ''```'' (scan depth (toggle_code_fence ctx) (drop 3 s @ t))"
          using step fence s(1) dropped [OF l] by simp
        ultimately show ?thesis by (auto simp: kept_text_def split: prod.splits)
      qed
    next
      case nofence: False
      then have nohold: "\<not> (ctx \<noteq> InlineCode \<and> starts_with s ''```'' \<and> lim < 3 \<and> \<not> flush_all)" by blast
      show ?thesis
      proof (cases "ctx \<noteq> CodeFence \<and> starts_with s ''`''")
        case True
        have l: "1 \<le> length s" using s(1) by (cases s) auto
        from "1.IH"(2) [OF refl refl False nohold nofence True prems]
        moreover have "process_from flush_all lim depth ctx s =
          (case process_from flush_all (lim - 1) depth (toggle_inline_code ctx) (drop 1 s) of
             (d, c, out, rest) \<Rightarrow> (d, c, (if depth = 0 then ''`'' else []) @ out, rest))"
          unfolding process using False True nofence by (cases "ctx = InlineCode") simp_all
        moreover have "scan depth ctx (s @ t) = kept_text depth ''`'' (scan depth (toggle_inline_code ctx) (drop 1 s @ t))"
          using step True nofence s(1) dropped [OF l] by (cases "ctx = InlineCode") simp_all
        ultimately show ?thesis by (auto simp: kept_text_def split: prod.splits)
      next
        case notick: False
        let ?m = "if ctx = PlainText then match_reasoning_tag s flush_all else TagNone"
        have l: "n \<le> length s" if "?m = TagOpen n \<or> ?m = TagClose n" for n
          using that match_tag_length by (auto split: if_splits)
        have p: "process_from flush_all lim depth ctx s =
          (case ?m of
              TagOpen n \<Rightarrow> process_from flush_all (lim - n) (depth + 1) ctx (drop n s)
            | TagClose n \<Rightarrow> process_from flush_all (lim - n) (depth - 1) ctx (drop n s)
            | TagIncomplete \<Rightarrow> (depth, ctx, [], s)
            | TagNone \<Rightarrow> (case process_from flush_all (lim - 1) depth ctx (tl s) of
                (d, c, out, rest) \<Rightarrow> (d, c, (if depth = 0 then [hd s] else []) @ out, rest)))"
          unfolding process using False nohold nofence notick by (simp only: if_False)
        have q: "scan depth ctx (s @ t) = (case ?m of
             TagOpen n \<Rightarrow> scan (depth + 1) ctx (drop n (s @ t))
           | TagClose n \<Rightarrow> scan (depth - 1) ctx (drop n (s @ t))
           | _ \<Rightarrow> kept_text depth [hd s] (scan depth ctx (tl s @ t)))"
        proof -
          have "s @ t \<noteq> []" "hd (s @ t) = hd s" "tl (s @ t) = tl s @ t" using s(1) by simp_all
          then show ?thesis using step nofence notick by (simp only: if_False simp_thms)
        qed
        show ?thesis
        proof (cases ?m)
          case (TagOpen n)
          from "1.IH"(3) [OF refl refl False nohold nofence notick TagOpen prems]
          show ?thesis unfolding p q TagOpen by (simp add: dropped l TagOpen)
        next
          case (TagClose n)
          from "1.IH"(4) [OF refl refl False nohold nofence notick TagClose prems]
          show ?thesis unfolding p q TagClose by (simp add: dropped l TagClose)
        next
          case TagIncomplete
          then show ?thesis unfolding p by simp
        next
          case TagNone
          from "1.IH"(5) [OF refl refl False nohold nofence notick TagNone] prems [of 1]
          show ?thesis unfolding p q TagNone by (auto simp: drop_Suc kept_text_def split: prod.splits)
        qed
      qed
    qed
  qed
qed

lemma process_flush_rest: "length s \<le> lim \<Longrightarrow> snd (snd (snd (process_from True lim depth ctx s))) = []"
proof (induction True lim depth ctx s rule: process_from.induct)
  case (1 lim depth ctx s)
  note process = process_from.simps [of True lim depth ctx s, unfolded Let_def]
  show ?case
  proof (cases "lim = 0 \<or> s = []")
    case True
    then show ?thesis using "1.prems" by (auto simp: process)
  next
    case False
    have l: "length (drop n s) \<le> lim - n" for n using "1.prems" by simp
    show ?thesis
    proof (cases "ctx \<noteq> InlineCode \<and> starts_with s ''```''")
      case True
      from "1.hyps"(1) [OF refl refl False _ True l] show ?thesis
        unfolding process using False True by (cases "depth = 0") (auto split: prod.splits)
    next
      case nofence: False
      show ?thesis
      proof (cases "ctx \<noteq> CodeFence \<and> starts_with s ''`''")
        case True
        from "1.hyps"(2) [OF refl refl False _ nofence True l] show ?thesis
          unfolding process using False True nofence
          by (cases "ctx = InlineCode"; cases "depth = 0") (auto split: prod.splits)
      next
        case notick: False
        let ?m = "if ctx = PlainText then match_reasoning_tag s True else TagNone"
        have p: "process_from True lim depth ctx s =
          (case ?m of
              TagOpen n \<Rightarrow> process_from True (lim - n) (depth + 1) ctx (drop n s)
            | TagClose n \<Rightarrow> process_from True (lim - n) (depth - 1) ctx (drop n s)
            | TagIncomplete \<Rightarrow> (depth, ctx, [], s)
            | TagNone \<Rightarrow> (case process_from True (lim - 1) depth ctx (tl s) of
                (d, c, out, rest) \<Rightarrow> (d, c, (if depth = 0 then [hd s] else []) @ out, rest)))"
          unfolding process using False nofence notick by (simp only: if_False simp_thms)
        show ?thesis
        proof (cases ?m)
          case (TagOpen n)
          from "1.hyps"(3) [OF refl refl False _ nofence notick TagOpen l] show ?thesis unfolding p TagOpen by simp
        next
          case (TagClose n)
          from "1.hyps"(4) [OF refl refl False _ nofence notick TagClose l] show ?thesis unfolding p TagClose by simp
        next
          case TagIncomplete
          then show ?thesis using no_incomplete [of s] by (simp split: if_splits)
        next
          case TagNone
          from "1.hyps"(5) [OF refl refl False _ nofence notick TagNone] l [of 1] show ?thesis
            unfolding p TagNone by (cases "depth = 0") (auto simp: drop_Suc split: prod.splits)
        qed
      qed
    qed
  qed
qed

text \<open>The safe limit holds back the start of every token that may still become whole.\<close>

lemma control_lower: "t \<in> set control_tokens \<Longrightarrow> c \<in> set (map ascii_lower t) \<Longrightarrow> byte c < 128"
  by (auto simp: control_tokens_def ascii_lower_def byte_def)

lemma ascii_lower_below: "byte c < 128 \<longleftrightarrow> byte (ascii_lower c) < 128"
  by (auto simp: ascii_lower_def byte_def take_bit_eq_mod)

lemma incomplete_boundary:
  assumes "t \<in> set control_tokens" "has_incomplete_control_suffix t (drop i s)"
  shows "i < length s \<and> is_char_boundary s i"
proof -
  have i: "i < length s" using assms(2) by (simp add: has_incomplete_control_suffix_def)
  then obtain c r where d: "drop i s = c # r" by (cases "drop i s") auto
  then have "ascii_lower c \<in> set (map ascii_lower t)"
    using assms(2) unfolding incomplete_prefix by (auto simp: strict_prefix_def prefix_def intro: list.set_intros)
  then have "byte (ascii_lower c) < 128" by (rule control_lower [OF assms(1)])
  then have "byte c < 128" by (simp add: ascii_lower_below [of c])
  moreover have "s ! i = c" using d i by (metis hd_drop_conv_nth list.sel(1))
  ultimately show ?thesis using i by (simp add: is_char_boundary_def)
qed

lemma fold_min:
  "fold (\<lambda>i h. if P i then min h i else h) xs (h::nat) \<le> h \<and>
   (\<forall>i \<in> set xs. P i \<longrightarrow> fold (\<lambda>i h. if P i then min h i else h) xs h \<le> i)"
proof (induction xs arbitrary: h)
  case (Cons x xs)
  show ?case using Cons [of "if P x then min h x else h"] by (auto split: if_splits)
qed simp

lemma boundary_before_le: "boundary_before s n \<le> n"
  by (induction n) auto

lemma safe_limit_settled: "settled_until (pending_safe_limit s) s"
proof -
  define P where "P i \<longleftrightarrow> is_char_boundary s i \<and> floor_char_boundary s (length s - 11) \<le> i \<and>
    list_ex (\<lambda>t. has_incomplete_control_suffix t (drop i s)) control_tokens" for i
  have "fold max (map (\<lambda>t. length t - 1) control_tokens) 0 = (11::nat)" by code_simp
  then have lim: "pending_safe_limit s = fold (\<lambda>i h. if P i then min h i else h) [0..<length s] (length s)"
    by (simp add: pending_safe_limit_def P_def Let_def)
  have "\<not> has_incomplete_control_suffix t (drop i s)"
    if i: "i < pending_safe_limit s" and t: "t \<in> set control_tokens" for i t
  proof
    assume h: "has_incomplete_control_suffix t (drop i s)"
    have b: "i < length s \<and> is_char_boundary s i" by (rule incomplete_boundary [OF t h])
    have "length t \<le> 12" using t by (auto simp: control_tokens_def)
    then have "length s - i < 12" using h by (simp add: has_incomplete_control_suffix_def)
    moreover have "floor_char_boundary s (length s - 11) \<le> length s - 11"
      using boundary_before_le by (auto simp: floor_char_boundary_def Let_def min_def)
    ultimately have "P i" using b h t by (auto simp: P_def list_ex_iff)
    then have "pending_safe_limit s \<le> i" using fold_min [of P "[0..<length s]"] b by (simp add: lim)
    then show False using i by simp
  qed
  then show ?thesis using fold_min [of P "[0..<length s]" "length s"] by (auto simp: settled_until_def lim)
qed

subsection \<open>Blocks, character by character\<close>

lemma block_char_out: "block_char ch (r, out) = (fst (block_char ch (r, [])), out @ snd (block_char ch (r, [])))"
  by (simp add: block_char_def Let_def)

lemma block_fold_out:
  "fold block_char xs (r, out) = (fst (fold block_char xs (r, [])), out @ snd (fold block_char xs (r, [])))"
proof (induction xs arbitrary: r out)
  case (Cons x xs)
  obtain r' o' where b: "block_char x (r, []) = (r', o')" by (cases "block_char x (r, [])")
  then have b': "block_char x (r, out) = (r', out @ o')" using block_char_out [of x r out] by simp
  show ?case using Cons [of r' o'] Cons [of r' "out @ o'"] by (simp add: b b')
qed simp

text \<open>The part of the state that \<open>process_pending\<close> keeps does not matter to the blocks.\<close>

definition set_process :: "nat \<Rightarrow> code_context \<Rightarrow> rstr \<Rightarrow> redactor \<Rightarrow> redactor" where
  "set_process d c p r = r\<lparr>redaction_depth := d, code_context := c, pending := p\<rparr>"

lemma block_char_process:
  "block_char ch (set_process d c p r, out) =
     (set_process d c p (fst (block_char ch (r, out))), snd (block_char ch (r, out)))"
  by (simp add: block_char_def set_process_def Let_def)

lemma block_fold_process:
  "fold block_char xs (set_process d c p r, out) =
     (set_process d c p (fst (fold block_char xs (r, out))), snd (fold block_char xs (r, out)))"
proof (induction xs arbitrary: r out)
  case (Cons x xs)
  obtain r' o' where b: "block_char x (r, out) = (r', o')" by (cases "block_char x (r, out)")
  show ?case using Cons [of r' o'] by (simp add: b block_char_process)
qed simp

lemma block_fold_frame:
  "show_reasoning (fst (fold block_char xs (r, out))) = show_reasoning r \<and>
   pending (fst (fold block_char xs (r, out))) = pending r \<and>
   redaction_depth (fst (fold block_char xs (r, out))) = redaction_depth r \<and>
   code_context (fst (fold block_char xs (r, out))) = code_context r"
proof (induction xs arbitrary: r out)
  case (Cons x xs)
  obtain r' o' where b: "block_char x (r, out) = (r', o')" by (cases "block_char x (r, out)")
  have "show_reasoning r' = show_reasoning r \<and> pending r' = pending r \<and>
    redaction_depth r' = redaction_depth r \<and> code_context r' = code_context r"
    using b by (auto simp: block_char_def Let_def split: if_splits)
  then show ?case using Cons [of r' o'] by (simp add: b)
qed simp

definition blocks_out :: "redactor \<Rightarrow> rstr \<Rightarrow> rstr" where
  "blocks_out r t = snd (redact_internal_prompt_blocks True t r)"

lemma redact_False: "redact_internal_prompt_blocks False t r = fold block_char t (r, [])"
  by (simp add: redact_internal_prompt_blocks_def split: prod.splits)

lemma redact_True_out:
  "snd (redact_internal_prompt_blocks True t r) =
     (case fold block_char t (r, []) of (r, out) \<Rightarrow>
        if buffering_internal_header r \<and> \<not> is_internal_prompt_block_header (trim (internal_line_candidate r))
        then out @ internal_line_candidate r else out)"
  by (simp add: redact_internal_prompt_blocks_def Let_def split: prod.splits)

lemma blocks_out_append:
  "blocks_out r (a @ b) = snd (fold block_char a (r, [])) @ blocks_out (fst (fold block_char a (r, []))) b"
proof -
  obtain r1 o1 where a: "fold block_char a (r, []) = (r1, o1)" by (cases "fold block_char a (r, [])")
  obtain r2 o2 where b: "fold block_char b (r1, []) = (r2, o2)" by (cases "fold block_char b (r1, [])")
  have "fold block_char b (r1, o1) = (r2, o1 @ o2)" using block_fold_out [of b r1 o1] b by simp
  then show ?thesis by (simp add: blocks_out_def redact_True_out a b)
qed

lemma blocks_out_process: "blocks_out (set_process d c p r) t = blocks_out r t"
proof -
  obtain r' out where f: "fold block_char t (r, []) = (r', out)" by (cases "fold block_char t (r, [])")
  then have "fold block_char t (set_process d c p r, []) = (set_process d c p r', out)"
    using block_fold_process [of t d c p r "[]"] by simp
  with f show ?thesis by (simp add: blocks_out_def redact_True_out set_process_def)
qed

text \<open>The removal by lines agrees with the one by characters.\<close>

definition idle :: "redactor \<Rightarrow> bool" where
  "idle r \<longleftrightarrow> \<not> internal_block_active r \<and> \<not> buffering_internal_header r \<and> internal_line_candidate r = []"

lemma block_plain:
  "idle r \<Longrightarrow> CHR ''['' \<notin> set t \<Longrightarrow> fold block_char t (r, out) = (r, out @ t)"
  by (induction t arbitrary: out) (auto simp: block_char_def idle_def Let_def)

lemma block_candidate:
  "nl \<notin> set t \<Longrightarrow> internal_block_active r \<or> buffering_internal_header r \<Longrightarrow>
     fold block_char t (r, out) = (r\<lparr>internal_line_candidate := internal_line_candidate r @ t\<rparr>, out)"
proof (induction t arbitrary: r)
  case (Cons c t)
  have "block_char c (r, out) = (r\<lparr>internal_line_candidate := internal_line_candidate r @ [c]\<rparr>, out)"
    using Cons.prems by (auto simp: block_char_def Let_def)
  then show ?case using Cons by simp
qed simp

lemma first_line_split: "nl \<in> set s \<Longrightarrow> s = first_line s @ nl # later_lines s"
  using takeWhile_dropWhile_id [of "\<lambda>c. c \<noteq> nl" s] hd_dropWhile [of "\<lambda>c. c \<noteq> nl" s]
  by (cases "dropWhile (\<lambda>c. c \<noteq> nl) s") (auto simp: dropWhile_eq_Nil_conv)

lemma first_line_all: "nl \<notin> set s \<Longrightarrow> first_line s = s"
  by (auto intro: takeWhile_eq_all_conv [THEN iffD2])

lemma no_nl_first_line: "nl \<notin> set (first_line s)"
  by (auto dest: set_takeWhileD)

lemma trim_final_nl: "trim (s @ [nl]) = trim s"
proof -
  have "trim_start [nl] = []" by code_simp
  then show ?thesis by (rule trim_append_blank)
qed

lemma blocks_out_fold: "fold block_char a (r, []) = (r', out) \<Longrightarrow> blocks_out r (a @ b) = out @ blocks_out r' b"
  by (simp add: blocks_out_append)

lemma blocks_removed_Nil [simp]: "blocks_removed [] = []"
  by (simp add: blocks_removed.simps)

lemma block_skipped:
  assumes "internal_block_active r" "internal_line_candidate r = []" "\<not> buffering_internal_header r"
    and "\<And>r t. idle r \<Longrightarrow> length t \<le> length s \<Longrightarrow> blocks_out r t = blocks_removed t"
  shows "blocks_out r s = blocks_removed (after_block s)"
  using assms
proof (induction s arbitrary: r rule: after_block.induct)
  case (1 s)
  show ?case
  proof (cases "nl \<in> set s")
    case False
    then have "fold block_char s (r, []) = (r\<lparr>internal_line_candidate := s\<rparr>, [])"
      using block_candidate [of s r "[]"] "1.prems"(1,2) by simp
    then show ?thesis
      using False "1.prems"(3) by (simp add: blocks_out_def redact_True_out after_block.simps [of s])
  next
    case True
    let ?l = "first_line s" and ?r = "r\<lparr>internal_block_active := trim (first_line s) \<noteq> []\<rparr>"
    have s: "s = (?l @ [nl]) @ later_lines s" using first_line_split [OF True] by simp
    have "fold block_char ?l (r, []) = (r\<lparr>internal_line_candidate := ?l\<rparr>, [])"
      using block_candidate [OF no_nl_first_line, of r s "[]"] "1.prems"(1,2) by simp
    then have "fold block_char (?l @ [nl]) (r, []) = (?r, [])"
      using "1.prems"(1,2) by (simp add: block_char_def Let_def trim_final_nl)
    then have out: "blocks_out r s = blocks_out ?r (later_lines s)" using blocks_out_fold s by (metis append_Nil)
    have short: "length (later_lines s) \<le> length s" using later_lines_shorter [OF True] by simp
    show ?thesis
    proof (cases "trim ?l = []")
      case blank: True
      then have "idle ?r" using "1.prems"(2,3) by (simp add: idle_def)
      from "1.prems"(4) [OF this short] show ?thesis
        using out True blank by (simp add: after_block.simps [of s])
    next
      case False
      have "blocks_out ?r (later_lines s) = blocks_removed (after_block (later_lines s))"
        using "1.prems" False short True by (intro "1.IH") (auto intro: le_trans)
      then show ?thesis using out True False by (simp add: after_block.simps [of s])
    qed
  qed
qed

lemma blocks_out_removed: "idle r \<Longrightarrow> blocks_out r s = blocks_removed s"
proof (induction s arbitrary: r rule: length_induct)
  case (1 s)
  let ?before = "takeWhile (\<lambda>c. c \<noteq> CHR ''['') s"
  let ?line = "dropWhile (\<lambda>c. c \<noteq> CHR ''['') s"
  note removed = blocks_removed.simps [of s, unfolded Let_def]
  have "CHR ''['' \<notin> set ?before" by (auto dest: set_takeWhileD)
  from block_plain [OF "1.prems" this, of "[]"] have "fold block_char ?before (r, []) = (r, ?before)" by simp
  then have before: "blocks_out r s = ?before @ blocks_out r ?line"
    using blocks_out_fold [of ?before r r ?before ?line] by simp
  show ?case
  proof (cases ?line)
    case Nil
    have "blocks_out r [] = []" using "1.prems" by (simp add: blocks_out_def redact_True_out idle_def)
    then show ?thesis using before Nil by (simp add: removed)
  next
    case (Cons c t)
    then have c: "c = CHR ''[''" using hd_dropWhile [of "\<lambda>c. c \<noteq> CHR ''[''" s] by simp
    let ?b = "r\<lparr>buffering_internal_header := True, internal_line_candidate := ''[''\<rparr>"
    have open_line: "fold block_char [CHR ''[''] (r, []) = (?b, [])"
      using "1.prems" by (simp add: block_char_def idle_def Let_def)
    have len: "length ?line \<le> length s" by (rule length_dropWhile_le)
    show ?thesis
    proof (cases "nl \<in> set t")
      case False
      then have l: "first_line ?line = ?line" using Cons c by (intro first_line_all) simp
      have "fold block_char ?line (r, []) = (?b\<lparr>internal_line_candidate := ?line\<rparr>, [])"
        using open_line block_candidate [OF False, of ?b "[]"] Cons c by simp
      then have out: "blocks_out r ?line = (if is_internal_prompt_block_header (trim ?line) then [] else ?line)"
        using "1.prems" by (simp add: blocks_out_def redact_True_out idle_def)
      have "dropWhile (\<lambda>c. c \<noteq> nl) ?line = []" using False unfolding Cons c by (auto simp: dropWhile_eq_Nil_conv)
      then have "later_lines ?line = []" by (simp only: drop_Nil)
      moreover have "after_block [] = []" by (simp add: after_block.simps)
      ultimately show ?thesis
        unfolding before out removed l using False Cons c by simp
    next
      case True
      let ?l = "first_line t" and ?rest = "later_lines t"
      have lines: "first_line ?line = CHR ''['' # ?l" "later_lines ?line = ?rest" "nl \<in> set ?line"
        using Cons c True by simp_all
      have line: "?line = (CHR ''['' # ?l @ [nl]) @ ?rest" using first_line_split [OF True] Cons c by simp
      have "length ?rest < length t" by (rule later_lines_shorter [OF True])
      moreover have "Suc (length t) \<le> length s" using len Cons by simp
      ultimately have short: "length ?rest < length s" by linarith
      have f: "fold block_char ?l (?b, []) = (?b\<lparr>internal_line_candidate := CHR ''['' # ?l\<rparr>, [])"
        using block_candidate [OF no_nl_first_line, of ?b t "[]"] by simp
      have head: "trim (CHR ''['' # ?l @ [nl]) = trim (CHR ''['' # ?l)" using trim_final_nl [of "CHR ''['' # ?l"] by simp
      show ?thesis
      proof (cases "is_internal_prompt_block_header (trim (CHR ''['' # ?l))")
        case header: True
        let ?r = "r\<lparr>internal_block_active := True, internal_line_candidate := [], buffering_internal_header := False\<rparr>"
        have "fold block_char (CHR ''['' # ?l @ [nl]) (r, []) = (?r, [])"
          using open_line f header head "1.prems" by (simp add: block_char_def idle_def Let_def)
        then have "blocks_out r ?line = blocks_out ?r ?rest" using blocks_out_fold line by (metis append_Nil)
        also have "\<dots> = blocks_removed (after_block ?rest)"
        proof (rule block_skipped)
          show "blocks_out r t = blocks_removed t" if "idle r" "length t \<le> length ?rest" for r t
            using "1.IH" that short by (meson le_less_trans)
        qed simp_all
        finally show ?thesis unfolding before removed lines using header Cons by simp
      next
        case False
        have idle: "r\<lparr>internal_line_candidate := [], buffering_internal_header := False\<rparr> = r"
          using "1.prems" by (simp add: idle_def)
        have "fold block_char (CHR ''['' # ?l @ [nl]) (r, []) = (r, CHR ''['' # ?l @ [nl])"
          using open_line f False head "1.prems" idle by (simp add: block_char_def idle_def Let_def)
        then have "blocks_out r ?line = (CHR ''['' # ?l @ [nl]) @ blocks_out r ?rest" using blocks_out_fold line by metis
        moreover have "blocks_out r ?rest = blocks_removed ?rest" using "1.IH" short "1.prems" by blast
        ultimately show ?thesis unfolding before removed lines using False Cons c True by simp
      qed
    qed
  qed
qed

subsection \<open>Streams of deltas\<close>

lemma process_pending_result:
  "process_pending f r =
     (case process_from f (if f then length (pending r) else pending_safe_limit (pending r))
             (redaction_depth r) (code_context r) (pending r) of
        (d, c, out, rest) \<Rightarrow> (set_process d c rest r, out))"
  by (simp add: process_pending_def set_process_def split: prod.splits)

text \<open>What a redactor will still show of a text, and the depth and context it will end in.\<close>

definition to_come :: "redactor \<Rightarrow> rstr \<Rightarrow> rstr \<times> nat \<times> code_context" where
  "to_come r t =
     (if show_reasoning r then (t, redaction_depth r, code_context r)
      else scan (redaction_depth r) (code_context r) (pending r @ t))"

definition still_visible :: "redactor \<Rightarrow> rstr \<Rightarrow> rstr" where
  "still_visible r t = blocks_out r (fst (to_come r t))"

lemma visible_delta_step:
  assumes "visible_delta d r = (r', v)"
  shows "show_reasoning r' = show_reasoning r \<and> still_visible r (d @ t) = v @ still_visible r' t \<and>
    snd (to_come r (d @ t)) = snd (to_come r' t)"
proof (cases "show_reasoning r")
  case True
  then show ?thesis
    using assms block_fold_frame [of d r "[]"]
    by (auto simp: visible_delta_def redact_False still_visible_def to_come_def blocks_out_append)
next
  case False
  let ?p = "pending r @ d"
  obtain e c out rest where p: "process_from False (pending_safe_limit ?p) (redaction_depth r) (code_context r) ?p = (e, c, out, rest)"
    by (metis surj_pair)
  have s: "scan (redaction_depth r) (code_context r) (?p @ t) = (case scan e c (rest @ t) of (o', e) \<Rightarrow> (out @ o', e))"
    using process_settled [of False "pending_safe_limit ?p" ?p t "redaction_depth r" "code_context r"] p
    by (simp add: decided_def safe_limit_settled)
  let ?f = "fold block_char out (r, [])"
  have "set_process e c rest (r\<lparr>pending := ?p\<rparr>) = set_process e c rest r" by (simp add: set_process_def)
  then have v: "r' = set_process e c rest (fst ?f)" "v = snd ?f"
    using assms False by (auto simp: visible_delta_def process_pending_result p redact_False block_fold_process)
  have r': "show_reasoning r' = show_reasoning r" "to_come r' t = scan e c (rest @ t)"
    using False block_fold_frame [of out r "[]"] by (simp_all add: v to_come_def set_process_def)
  have "to_come r (d @ t) = (case scan e c (rest @ t) of (o', e) \<Rightarrow> (out @ o', e))" using False s by (simp add: to_come_def)
  moreover have "blocks_out r' x = blocks_out (fst ?f) x" for x unfolding v(1) by (rule blocks_out_process)
  ultimately show ?thesis
    using r' v(2) by (simp add: still_visible_def blocks_out_append split: prod.split)
qed

text \<open>A redactor between two replies: nothing is pending, no block is open, but the depth and the context are
  those in which the last reply ended.\<close>

definition between :: "bool \<Rightarrow> nat \<Rightarrow> code_context \<Rightarrow> redactor" where
  "between show_it d c = (redactor_new show_it)\<lparr>redaction_depth := d, code_context := c\<rparr>"

definition tidy :: "redactor \<Rightarrow> bool" where
  "tidy r \<longleftrightarrow> (internal_block_active r \<or> buffering_internal_header r \<or> internal_line_candidate r = []) \<and>
     (show_reasoning r \<longrightarrow> pending r = [])"

lemma tidy_block_char: "tidy r \<Longrightarrow> tidy (fst (block_char c (r, out)))"
  by (auto simp: tidy_def block_char_def Let_def)

lemma tidy_blocks: "tidy r \<Longrightarrow> tidy (fst (fold block_char t (r, out)))"
proof (induction t arbitrary: r out)
  case (Cons c t)
  then show ?case using tidy_block_char [of r c out] by (cases "block_char c (r, out)") simp
qed simp

lemma tidy_delta: "tidy r \<Longrightarrow> visible_delta d r = (r', v) \<Longrightarrow> tidy r'"
proof -
  assume r: "tidy r" and d: "visible_delta d r = (r', v)"
  obtain r1 out where r1: "r' = fst (fold block_char out (r1, []))"
      "(r1, out) = (if show_reasoning r then (r, d) else process_pending False (r\<lparr>pending := pending r @ d\<rparr>))"
    using d by (auto simp: visible_delta_def redact_False split: prod.splits)
  have "tidy r1"
    using r r1(2) by (auto simp: tidy_def process_pending_def split: if_splits prod.splits)
  then show "tidy r'" unfolding r1(1) by (rule tidy_blocks)
qed

lemma finish_visible_rest:
  assumes "tidy r"
  shows "finish_visible r = (case to_come r [] of (out, d, c) \<Rightarrow> (between (show_reasoning r) d c, blocks_out r out))"
proof -
  obtain r1 out where r1: "(if show_reasoning r then (r, []) else process_pending True r) = (r1, out)" by (rule prod.exhaust)
  obtain d c where come: "to_come r [] = (out, d, c)" and r1_is: "r1 = set_process d c [] r"
  proof (cases "show_reasoning r")
    case True
    then show ?thesis
      using that [of "redaction_depth r" "code_context r"] r1 assms by (simp add: to_come_def set_process_def tidy_def)
  next
    case False
    obtain e c out' rest where p: "process_from True (length (pending r)) (redaction_depth r) (code_context r) (pending r) = (e, c, out', rest)"
      by (metis surj_pair)
    have rest: "rest = []"
      using process_flush_rest [of "pending r" "length (pending r)" "redaction_depth r" "code_context r"] p by simp
    then have "scan (redaction_depth r) (code_context r) (pending r) = (out', e, c)"
      using process_settled [of True "length (pending r)" "pending r" "[]" "redaction_depth r" "code_context r"] p
      by (simp add: decided_def)
    then show ?thesis using that [of e c] r1 False p rest by (simp add: to_come_def process_pending_result)
  qed
  obtain r2 o2 where f: "fold block_char out (r, []) = (r2, o2)" by (rule prod.exhaust)
  have f1: "fold block_char out (r1, []) = (set_process d c [] r2, o2)"
    unfolding r1_is using block_fold_process [of out d c "[]" r "[]"] f by simp
  have "tidy r2" using tidy_blocks [OF assms, of out "[]"] f by simp
  moreover have "show_reasoning r2 = show_reasoning r" using block_fold_frame [of out r "[]"] f by simp
  ultimately have "finish_visible r = (between (show_reasoning r) d c, snd (redact_internal_prompt_blocks True out r))"
    using r1 f f1
    by (cases r2) (auto simp: finish_visible_def redact_internal_prompt_blocks_def Let_def set_process_def between_def
        redactor_new_def tidy_def split: prod.splits)
  then show ?thesis by (simp add: come blocks_out_def)
qed

text \<open>A reply through either sink.\<close>

lemma cli_writes_all:
  "tidy r \<Longrightarrow> cli_writes ds r = (r', vs) \<Longrightarrow>
     concat vs = still_visible r (concat ds) \<and> r' = (case to_come r (concat ds) of (_, d, c) \<Rightarrow> between (show_reasoning r) d c)"
proof (induction ds arbitrary: r vs)
  case Nil
  then show ?case using finish_visible_rest [of r] by (auto simp: still_visible_def split: prod.splits)
next
  case (Cons d ds)
  obtain r1 v where v: "visible_delta d r = (r1, v)" by (rule prod.exhaust)
  obtain vs' where rest: "cli_writes ds r1 = (r', vs')" "vs = (if v = [] then [] else [v]) @ vs'"
    using Cons.prems(2) v by (auto split: prod.splits)
  note step = visible_delta_step [OF v, of "concat ds"]
  show ?case
    using Cons.IH [OF tidy_delta [OF Cons.prems(1) v] rest(1)] rest(2) step by (auto split: prod.splits)
qed

lemma sink_payloads_all:
  "tidy (sink_redactor st) \<Longrightarrow> sink_payloads threshold ds st = (st', ps) \<Longrightarrow>
     concat ps = buffer st @ still_visible (sink_redactor st) (concat ds) \<and> buffer st' = [] \<and>
     sink_redactor st' = (case to_come (sink_redactor st) (concat ds) of (_, d, c) \<Rightarrow> between (show_reasoning (sink_redactor st)) d c)"
proof (induction ds arbitrary: st ps)
  case Nil
  then show ?case
    using finish_visible_rest [of "sink_redactor st"]
    by (auto simp: flush_sink_def Let_def still_visible_def split: prod.splits if_splits)
next
  case (Cons d ds)
  obtain r1 v where v: "visible_delta d (sink_redactor st) = (r1, v)" by (rule prod.exhaust)
  obtain st1 p where p: "push_delta threshold d st = (st1, p)" by (rule prod.exhaust)
  have st1: "sink_redactor st1 = r1" "(case p of None \<Rightarrow> [] | Some p \<Rightarrow> p) @ buffer st1 = buffer st @ v"
    using p v by (auto simp: push_delta_def Let_def split: if_splits)
  obtain ps' where rest: "sink_payloads threshold ds st1 = (st', ps')" "ps = (case p of None \<Rightarrow> [] | Some p \<Rightarrow> [p]) @ ps'"
    using Cons.prems(2) p by (auto split: prod.splits)
  have "tidy (sink_redactor st1)" unfolding st1(1) by (rule tidy_delta [OF Cons.prems(1) v])
  note IH = Cons.IH [OF this rest(1)] and step = visible_delta_step [OF v, of "concat ds"]
  have "concat ps = (case p of None \<Rightarrow> [] | Some p \<Rightarrow> p) @ concat ps'" using rest(2) by (cases p) auto
  then have "concat ps = (buffer st @ v) @ still_visible r1 (concat ds)" using IH st1 by (metis append.assoc)
  then show ?case using IH step st1(1) by (auto split: prod.splits)
qed

lemma tidy_between [simp]: "tidy (between show_it d c)"
  by (simp add: tidy_def between_def redactor_new_def)

lemma between_sel [simp]: "show_reasoning (between show_it d c) = show_it"
  by (simp add: between_def redactor_new_def)

lemma between_visible: "still_visible (between show_it d c) t = blocks_removed (fst (to_come (between show_it d c) t))"
  unfolding still_visible_def by (rule blocks_out_removed) (simp add: idle_def between_def redactor_new_def)

lemma between_to_come:
  "to_come (between show_it d c) t = (if show_it then (t, d, c) else scan d c t)"
  by (simp add: to_come_def between_def redactor_new_def)

lemma sink_replies_seen:
  "buffer st = [] \<Longrightarrow> sink_redactor st = between show_it d c \<Longrightarrow>
     map concat (sink_replies threshold replies st) = seen_replies show_it d c (map concat replies)"
proof (induction replies arbitrary: st d c)
  case (Cons ds replies)
  obtain st1 ps where p: "sink_payloads threshold ds st = (st1, ps)" by (rule prod.exhaust)
  note all = sink_payloads_all [OF _ p]
  show ?case
    using all Cons.prems Cons.IH [of st1]
    by (cases "to_come (between show_it d c) (concat ds)")
      (auto simp: p between_visible between_to_come split: prod.splits if_splits)
qed simp

lemma cli_replies_seen: "map concat (cli_replies replies (between show_it d c)) = seen_replies show_it d c (map concat replies)"
proof (induction replies arbitrary: d c)
  case (Cons ds replies)
  obtain r1 vs where p: "cli_writes ds (between show_it d c) = (r1, vs)" by (rule prod.exhaust)
  show ?case
    using cli_writes_all [OF _ p] Cons.IH
    by (cases "to_come (between show_it d c) (concat ds)")
      (auto simp: p between_visible between_to_come split: prod.splits if_splits)
qed simp

lemma channel_replies_seen:
  "map concat (channel_replies threshold show_it replies) = seen_replies show_it 0 PlainText (map concat replies)"
proof -
  have "sink_redactor (sink_new show_it) = between show_it 0 PlainText" "buffer (sink_new show_it) = []"
    by (simp_all add: sink_new_def between_def redactor_new_def)
  then show ?thesis by (simp add: channel_replies_def sink_replies_seen)
qed

text \<open>The reference for one reply: its whole text without reasoning, and then without prompt blocks.\<close>

definition visible_reply :: "bool \<Rightarrow> rstr \<Rightarrow> rstr" where
  "visible_reply show_it t = blocks_removed (if show_it then t else strip_reasoning t)"

lemma seen_reply: "seen_replies show_it 0 PlainText [t] = [visible_reply show_it t]"
  using scan_strips [of 0 PlainText t]
  by (cases "scan 0 PlainText t") (simp add: visible_reply_def strip_reasoning_def)

text \<open>C32: streaming shows what there is to see of the whole replies. However the provider cuts the replies of
  a turn into deltas, between the bytes of a tag or of a character too, and whatever the flush threshold,
  the payloads that a channel sink sends for each reply, put together, and the writes of a terminal sink,
  are the whole text of that reply with its reasoning removed and then its prompt blocks: nothing hidden
  slips through a boundary between two deltas, and nothing visible is lost. For the first reply the
  reasoning is removed as \<open>strip_reasoning\<close> does it; every later one is read from the depth and the
  context of code in which the one before it ended (lemma \<open>open_tag_hides_next_reply\<close>). The prompt blocks
  are those that begin with a bracket, up to their first blank line, which differs from the filter of
  whole texts (lemma \<open>stream_and_whole_differ\<close>).\<close>

theorem stream_shows_filtered_reply:
  "map concat (channel_replies threshold show_it replies) = seen_replies show_it 0 PlainText (map concat replies) \<and>
   map concat (cli_replies replies (redactor_new show_it)) = seen_replies show_it 0 PlainText (map concat replies) \<and>
   map concat (channel_replies threshold show_it [deltas]) =
     [blocks_removed (if show_it then concat deltas else strip_reasoning (concat deltas))]"
proof -
  have new: "between show_it 0 PlainText = redactor_new show_it" by (simp add: between_def redactor_new_def)
  show ?thesis
    using cli_replies_seen [of replies show_it 0 PlainText] new seen_reply [of show_it "concat deltas"]
    by (simp add: channel_replies_seen visible_reply_def del: seen_replies.simps)
qed

text \<open>What a sink keeps from one reply to the next: a tag that a reply leaves open hides the whole next reply,
  which a new sink shows.\<close>

lemma open_tag_hides_next_reply:
  "map concat (channel_replies 80 False [[''Well <think>hm''], [''The answer is 4.'']]) = [''Well '', []] \<and>
   map concat (channel_replies 80 False [[''The answer is 4.'']]) = [''The answer is 4.'']"
proof -
  have "seen_replies False 0 PlainText [''Well <think>hm'', ''The answer is 4.''] = [''Well '', []]"
    "seen_replies False 0 PlainText [''The answer is 4.''] = [''The answer is 4.'']"
    by code_simp+
  then show ?thesis by (simp add: channel_replies_seen del: seen_replies.simps)
qed

text \<open>
  Streamed and whole replies differ in what counts as a prompt block: the stream looks for headers that
  start with a bracket, anywhere in a line, and ends a block at its first blank line; the filter of
  whole texts looks at line starts, knows headers that start with \<open>#\<close>, and skips blank lines before
  the content of a block.
\<close>

definition both_filters :: "rstr \<Rightarrow> rstr \<times> rstr" where
  "both_filters t = (visible_reply True t, strip_internal_prompt_blocks t)"

lemma stream_and_whole_differ:
  "both_filters (''[History]'' @ nl # nl # ''internal'') = (''internal'', []) \<and>
   both_filters (''## Available Skills'' @ nl # ''internal'') = (''## Available Skills'' @ nl # ''internal'', []) \<and>
   both_filters (''see [History] first'' @ nl # ''then this'') = (''see '', ''see [History] first'' @ nl # ''then this'')"
  by code_simp

text \<open>Without a bracket the two agree on reasoning alone.\<close>

lemma plain_reply_visible:
  assumes "CHR ''['' \<notin> set (strip_reasoning t)"
  shows "visible_reply False t = strip_reasoning t"
proof -
  have "dropWhile (\<lambda>c. c \<noteq> CHR ''['') (strip_reasoning t) = []" using assms by (auto simp: dropWhile_eq_Nil_conv)
  moreover have "takeWhile (\<lambda>c. c \<noteq> CHR ''['') (strip_reasoning t) = strip_reasoning t"
    using assms by (intro takeWhile_eq_all_conv [THEN iffD2]) auto
  ultimately show ?thesis by (simp add: visible_reply_def blocks_removed.simps [of "strip_reasoning t"])
qed

end
