(* ===== verification/Reliable_Provider.thy ===== *)
theory Reliable_Provider
  imports Circuit_Breaker Scrub
begin

text \<open>
  Retry and fallback over a list of providers (\<open>src/src/core/providers/reliable.rs\<close>) and the error
  classification it uses (\<open>src/src/core/providers/error.rs\<close>). A provider is any function on the state
  of the world; the pauses between attempts are part of the result. Counters are natural numbers: the
  code adds one to \<open>max_retries\<close>, so it wants that below the largest \<open>u32\<close>.
\<close>

subsection \<open>Error classes\<close>

definition is_quota_message :: "rstr \<Rightarrow> bool" where
  "is_quota_message body =
     (let lower = to_ascii_lowercase body in
      contains lower ''insufficient_quota'' \<or> contains lower ''exceeded your current quota'' \<or>
      contains lower ''billing'')"

definition provider_error_non_retryable :: "provider_error \<Rightarrow> bool" where
  "provider_error_non_retryable e =
     (case e of Auth _ _ _ \<Rightarrow> True | ClientError _ _ _ \<Rightarrow> True | QuotaExhausted _ _ \<Rightarrow> True
      | MissingCredentials _ _ \<Rightarrow> True | ResponseParse _ _ \<Rightarrow> True | EmptyResponse _ \<Rightarrow> True | _ \<Rightarrow> False)"

definition is_auth_error :: "provider_error \<Rightarrow> bool" where
  "is_auth_error e = (case e of Auth _ _ _ \<Rightarrow> True | _ \<Rightarrow> False)"

text \<open>The messages that \<open>thiserror\<close> derives.\<close>

definition with_status :: "rstr \<Rightarrow> rstr \<Rightarrow> nat \<Rightarrow> rstr \<Rightarrow> rstr" where
  "with_status provider what status message = provider @ what @ decimal status @ ''): '' @ message"

definition provider_error_text :: "provider_error \<Rightarrow> rstr" where
  "provider_error_text e =
     (case e of
        Auth p s m \<Rightarrow> with_status p '' authentication failed ('' s m
      | RateLimited p s m \<Rightarrow> with_status p '' rate limited ('' s m
      | ClientError p s m \<Rightarrow> with_status p '' client error ('' s m
      | ServerError p s m \<Rightarrow> with_status p '' server error ('' s m
      | QuotaExhausted p m \<Rightarrow> p @ '' quota exhausted: '' @ m
      | MissingCredentials p m \<Rightarrow> p @ '' credentials not configured: '' @ m
      | NetworkError p m \<Rightarrow> p @ '' network error: '' @ m
      | ResponseParse p m \<Rightarrow> p @ '' response parse error: '' @ m
      | EmptyResponse p \<Rightarrow> p @ '' returned no content''
      | AllProvidersFailed m \<Rightarrow> ''All providers failed. Attempts:'' @ nl # m)"

definition call_error_text :: "provider_call_error \<Rightarrow> rstr" where
  "call_error_text e = (case e of Provider e \<Rightarrow> provider_error_text e | Other m \<Rightarrow> m)"

text \<open>\<open>body\<close> is \<open>None\<close> when reading the response failed.\<close>

definition from_http_response :: "rstr \<Rightarrow> nat \<Rightarrow> rstr option \<Rightarrow> provider_error" where
  "from_http_response provider status body =
     (let body = (case body of Some b \<Rightarrow> b | None \<Rightarrow> ''<failed to read provider error body>'');
          message = sanitize_api_error body in
      if is_quota_message body then QuotaExhausted provider message
      else if status = 401 \<or> status = 403 then Auth provider status message
      else if status = 429 then RateLimited provider status message
      else if 400 \<le> status \<and> status < 500 \<and> status \<noteq> 408 then ClientError provider status message
      else ServerError provider status message)"

text \<open>The pieces between characters that are not digits, and the first one that is a client error code.\<close>

fun digit_words :: "rstr \<Rightarrow> rstr list" where
  "digit_words [] = [[]]"
| "digit_words (c # s) =
     (if is_ascii_digit c then (c # hd (digit_words s)) # tl (digit_words s) else [] # digit_words s)"

definition parse_u16 :: "rstr \<Rightarrow> nat option" where
  "parse_u16 w = (if w = [] \<or> 65535 < decode_digits w then None else Some (decode_digits w))"

fun client_code :: "rstr list \<Rightarrow> nat option" where
  "client_code [] = None"
| "client_code (w # ws) =
     (case parse_u16 w of
        Some code \<Rightarrow> if 400 \<le> code \<and> code < 500 then Some code else client_code ws
      | None \<Rightarrow> client_code ws)"

definition is_non_retryable :: "provider_call_error \<Rightarrow> bool" where
  "is_non_retryable err =
     (case err of
        Provider e \<Rightarrow> provider_error_non_retryable e
      | Other msg \<Rightarrow>
          if is_quota_message msg then True
          else (case client_code (digit_words msg) of
                  Some code \<Rightarrow> code \<noteq> 429 \<and> code \<noteq> 408 | None \<Rightarrow> False))"

subsection \<open>Retries and fallback\<close>

record reliable =
  max_retries :: nat
  base_backoff_ms :: nat

definition reliable_new :: "nat \<Rightarrow> nat \<Rightarrow> reliable" where
  "reliable_new retries backoff = \<lparr>max_retries = retries, base_backoff_ms = max backoff 50\<rparr>"

type_synonym ('w, 'a) provider = "'w \<Rightarrow> 'w \<times> (provider_call_error, 'a) result"

definition note_failure :: "reliable \<Rightarrow> rstr \<Rightarrow> nat \<Rightarrow> provider_call_error \<Rightarrow> rstr \<Rightarrow> rstr" where
  "note_failure cfg name attempt err failures =
     (if failures = [] then [] else failures @ [nl]) @ name @ '' attempt '' @ decimal (attempt + 1) @ ''/'' @
     decimal (max_retries cfg + 1) @ '': '' @ sanitize_api_error (call_error_text err)"

text \<open>
  The loop over the attempts, by the retries that are left: the world, the failures noted, the pauses
  in milliseconds and the answer.
\<close>

fun retry_loop ::
    "reliable \<Rightarrow> rstr \<Rightarrow> ('w, 'a) provider \<Rightarrow> nat \<Rightarrow> nat \<Rightarrow> rstr \<Rightarrow> 'w
       \<Rightarrow> 'w \<times> rstr \<times> nat list \<times> 'a option" where
  "retry_loop cfg name call left backoff failures w =
     (case call w of
        (w, Inr resp) \<Rightarrow> (w, failures, [], Some resp)
      | (w, Inl err) \<Rightarrow>
          let failures = note_failure cfg name (max_retries cfg - left) err failures in
          if is_non_retryable err then (w, failures, [], None)
          else (case left of
                  0 \<Rightarrow> (w, failures, [], None)
                | Suc left \<Rightarrow>
                    (case retry_loop cfg name call left (min (backoff * 2) 10000) failures w of
                       (w, failures, pauses, r) \<Rightarrow> (w, failures, backoff # pauses, r))))"

declare retry_loop.simps [simp del]

definition call_provider_with_retries ::
    "reliable \<Rightarrow> rstr \<Rightarrow> ('w, 'a) provider \<Rightarrow> rstr \<Rightarrow> 'w \<Rightarrow> 'w \<times> rstr \<times> nat list \<times> 'a option" where
  "call_provider_with_retries cfg name call failures w =
     retry_loop cfg name call (max_retries cfg) (base_backoff_ms cfg) failures w"

fun try_providers ::
    "reliable \<Rightarrow> (rstr \<times> ('w, 'a) provider) list \<Rightarrow> rstr \<Rightarrow> 'w
       \<Rightarrow> 'w \<times> nat list \<times> (provider_call_error, 'a) result" where
  "try_providers cfg [] failures w = (w, [], Err (Provider (AllProvidersFailed failures)))"
| "try_providers cfg ((name, call) # ps) failures w =
     (case call_provider_with_retries cfg name call failures w of
        (w, failures, pauses, Some resp) \<Rightarrow> (w, pauses, Ok resp)
      | (w, failures, pauses, None) \<Rightarrow>
          (case try_providers cfg ps failures w of (w, later, r) \<Rightarrow> (w, pauses @ later, r)))"

definition execute_with_fallback ::
    "reliable \<Rightarrow> (rstr \<times> ('w, 'a) provider) list \<Rightarrow> 'w \<Rightarrow> 'w \<times> nat list \<times> (provider_call_error, 'a) result" where
  "execute_with_fallback cfg ps w = try_providers cfg ps [] w"

subsection \<open>Attempts\<close>

text \<open>A provider whose answers are written down.\<close>

definition watched :: "rstr \<Rightarrow> ('w, 'a) provider \<Rightarrow> ('w \<times> (rstr \<times> (provider_call_error, 'a) result) list, 'a) provider" where
  "watched name call = (\<lambda>(w, log). case call w of (w, r) \<Rightarrow> ((w, log @ [(name, r)]), r))"

definition attempts_of :: "rstr \<Rightarrow> (rstr \<times> 'b) list \<Rightarrow> 'b list" where
  "attempts_of name log = map snd (filter (\<lambda>(n, _). n = name) log)"

text \<open>
  A provider was given up for a reason: every attempt failed, there was at least one and at most one
  more than the retries, all but the last could be retried, and the last could not or was the last one
  allowed.
\<close>

definition exhausted :: "reliable \<Rightarrow> (provider_call_error, 'a) result list \<Rightarrow> bool" where
  "exhausted cfg rs \<longleftrightarrow>
     rs \<noteq> [] \<and> length rs \<le> max_retries cfg + 1 \<and>
     list_all (\<lambda>r. case r of Inl err \<Rightarrow> \<not> is_non_retryable err | Inr _ \<Rightarrow> False) (butlast rs) \<and>
     (case last rs of Inl err \<Rightarrow> is_non_retryable err \<or> length rs = max_retries cfg + 1 | Inr _ \<Rightarrow> False)"

text \<open>The answers of one provider: \<open>k\<close> failures to retry, then a success or the reason to give up.\<close>

definition retried :: "nat \<Rightarrow> (provider_call_error, 'a) result list \<Rightarrow> 'a option \<Rightarrow> bool" where
  "retried left rs res \<longleftrightarrow>
     rs \<noteq> [] \<and> length rs \<le> left + 1 \<and>
     list_all (\<lambda>r. case r of Inl err \<Rightarrow> \<not> is_non_retryable err | Inr _ \<Rightarrow> False) (butlast rs) \<and>
     (case last rs of
        Inl err \<Rightarrow> res = None \<and> (is_non_retryable err \<or> length rs = left + 1)
      | Inr resp \<Rightarrow> res = Some resp)"

lemma retry_loop_retried:
  "retry_loop cfg name (watched name call) left backoff failures (w, log) = ((w', log'), failures', pauses, res) \<Longrightarrow>
     \<exists>rs. log' = log @ map (Pair name) rs \<and> retried left rs res \<and> length pauses = length rs - 1 \<and>
       list_all (\<lambda>p. p \<le> max backoff 10000) (take 1 pauses) \<and> list_all (\<lambda>p. p \<le> 10000) (tl pauses)"
proof (induction left arbitrary: backoff failures w log pauses)
  case 0
  obtain w2 r where c: "call w = (w2, r)" by (cases "call w")
  show ?case
    using 0 by (intro exI [of _ "[r]"], cases r)
      (auto simp: retry_loop.simps watched_def c retried_def Let_def split: if_splits)
next
  case (Suc left)
  obtain w2 r where c: "call w = (w2, r)" by (cases "call w")
  show ?case
  proof (cases "\<exists>err. r = Inl err \<and> \<not> is_non_retryable err")
    case False
    then show ?thesis
      using Suc.prems by (intro exI [of _ "[r]"], cases r)
        (auto simp: retry_loop.simps watched_def c retried_def Let_def split: if_splits)
  next
    case True
    then obtain err where r: "r = Inl err" "\<not> is_non_retryable err" by blast
    let ?f = "note_failure cfg name (max_retries cfg - Suc left) err failures"
    obtain p2 where rec:
      "retry_loop cfg name (watched name call) left (min (backoff * 2) 10000) ?f (w2, log @ [(name, r)]) =
         ((w', log'), failures', p2, res)" "pauses = backoff # p2"
      using Suc.prems r by (subst (asm) retry_loop.simps) (auto simp: watched_def c Let_def split: prod.splits)
    from Suc.IH [OF rec(1)] obtain rs where *: "log' = (log @ [(name, r)]) @ map (Pair name) rs"
      "retried left rs res" "length p2 = length rs - 1"
      "list_all (\<lambda>p. p \<le> max (min (backoff * 2) 10000) 10000) (take 1 p2)" "list_all (\<lambda>p. p \<le> 10000) (tl p2)"
      by blast
    have "retried (Suc left) (r # rs) res" "rs \<noteq> []"
      using *(2) r by (auto simp: retried_def split: sum.splits)
    moreover have "list_all (\<lambda>p. p \<le> 10000) p2" using *(4,5) by (cases p2) auto
    ultimately show ?thesis
      using *(1,3) rec(2) by (intro exI [of _ "r # rs"]) (auto simp: Suc_diff_le intro: Suc_pred)
  qed
qed

lemma attempts_of_append: "attempts_of n (a @ b) = attempts_of n a @ attempts_of n b"
  by (simp add: attempts_of_def)

lemma attempts_of_pair: "attempts_of n (map (Pair m) rs) = (if m = n then rs else [])"
  by (auto simp: attempts_of_def comp_def)

lemma attempts_of_other: "n \<notin> fst ` set log \<Longrightarrow> attempts_of n log = []"
  by (force simp: attempts_of_def filter_empty_conv)

definition watch :: "(rstr \<times> ('w, 'a) provider) list \<Rightarrow> (rstr \<times> ('w \<times> (rstr \<times> (provider_call_error, 'a) result) list, 'a) provider) list" where
  "watch ps = map (\<lambda>(name, call). (name, watched name call)) ps"

lemma remdups_adj_block: "x \<notin> set ys \<Longrightarrow> rs \<noteq> [] \<Longrightarrow> remdups_adj (map fst (map (Pair x) rs) @ ys) = x # remdups_adj ys"
proof (induction rs)
  case (Cons r rs)
  show ?case
  proof (cases rs)
    case Nil
    with Cons.prems(1) show ?thesis by (cases ys) auto
  qed (use Cons in simp)
qed simp

text \<open>The providers called are the first ones of the list, in its order, each given up before the next one.\<close>

definition called_in_order ::
    "reliable \<Rightarrow> (rstr \<times> 'b) list \<Rightarrow> (rstr \<times> (provider_call_error, 'a) result) list \<Rightarrow> bool" where
  "called_in_order cfg ps log \<longleftrightarrow>
     (let called = remdups_adj (map fst log) in
      prefix called (map fst ps) \<and> list_all (\<lambda>n. exhausted cfg (attempts_of n log)) (butlast called))"

lemma try_providers_log:
  assumes "distinct (map fst ps)"
    and "try_providers cfg (watch ps) failures (w, log) = ((w', log'), pauses, res)"
  shows "\<exists>new. log' = log @ new \<and> fst ` set new \<subseteq> fst ` set ps \<and>
       length new \<le> length ps * (max_retries cfg + 1) \<and>
       (\<forall>n. length (attempts_of n new) \<le> max_retries cfg + 1) \<and> called_in_order cfg ps new \<and>
       length pauses \<le> length ps * max_retries cfg \<and>
       list_all (\<lambda>p. p \<le> max (base_backoff_ms cfg) 10000) pauses \<and>
       (case res of
          Ok a \<Rightarrow> new \<noteq> [] \<and> snd (last new) = Ok a \<and> list_all (\<lambda>(n, r). \<not> is_ok r) (butlast new)
        | Err e \<Rightarrow> (\<exists>s. e = Provider (AllProvidersFailed s)) \<and> list_all (\<lambda>(n, r). \<not> is_ok r) new \<and>
            (\<forall>n \<in> fst ` set ps. exhausted cfg (attempts_of n new)))"
  using assms
proof (induction ps arbitrary: failures w log pauses)
  case (Cons p ps)
  obtain name call where p: "p = (name, call)" by (cases p)
  obtain w1 log1 f1 p1 res1 where run1:
    "retry_loop cfg name (watched name call) (max_retries cfg) (base_backoff_ms cfg) failures (w, log) = ((w1, log1), f1, p1, res1)"
    by (metis prod.exhaust)
  from retry_loop_retried [OF run1] obtain rs where rs:
    "log1 = log @ map (Pair name) rs" "retried (max_retries cfg) rs res1" "length p1 = length rs - 1"
    "list_all (\<lambda>p. p \<le> max (base_backoff_ms cfg) 10000) (take 1 p1)" "list_all (\<lambda>p. p \<le> 10000) (tl p1)"
    by blast
  have bounds: "length rs \<le> max_retries cfg + 1" "length p1 \<le> max_retries cfg"
    "list_all (\<lambda>p. p \<le> max (base_backoff_ms cfg) 10000) p1"
    using rs(2-5) by (auto simp: retried_def) (cases p1; auto simp: list_all_iff le_max_iff_disj)
  have failed: "list_all (\<lambda>(n, r). \<not> is_ok r) (map (Pair name) (butlast rs))"
    using rs(2) by (auto simp: retried_def list_all_iff is_ok_def split: sum.splits)
  note unf = p watch_def call_provider_with_retries_def run1
  show ?case
  proof (cases res1)
    case (Some a)
    have "rs \<noteq> []" "last rs = Ok a" using rs(2) Some by (auto simp: retried_def split: sum.splits)
    moreover have "log' = log1" "pauses = p1" "res = Ok a" using Cons.prems(2) Some by (auto simp: unf)
    moreover have "called_in_order cfg (p # ps) (map (Pair name) rs)"
      using remdups_adj_block [of name "[]" rs] \<open>rs \<noteq> []\<close> by (simp add: called_in_order_def Let_def p)
    ultimately show ?thesis
      using bounds failed rs(1)
      by (intro exI [of _ "map (Pair name) rs"]) (auto simp: p last_map map_butlast attempts_of_pair)
  next
    case None
    obtain p2 where run2: "try_providers cfg (watch ps) f1 (w1, log1) = ((w', log'), p2, res)" "pauses = p1 @ p2"
      using Cons.prems(2) None by (auto simp: unf split: prod.splits)
    from Cons.IH [OF _ run2(1)] Cons.prems(1) obtain new where new:
      "log' = log1 @ new" "fst ` set new \<subseteq> fst ` set ps" "length new \<le> length ps * (max_retries cfg + 1)"
      "length p2 \<le> length ps * max_retries cfg" "list_all (\<lambda>p. p \<le> max (base_backoff_ms cfg) 10000) p2"
      "\<forall>n. length (attempts_of n new) \<le> max_retries cfg + 1" "called_in_order cfg ps new"
      "case res of
          Ok a \<Rightarrow> new \<noteq> [] \<and> snd (last new) = Ok a \<and> list_all (\<lambda>(n, r). \<not> is_ok r) (butlast new)
        | Err e \<Rightarrow> (\<exists>s. e = Provider (AllProvidersFailed s)) \<and> list_all (\<lambda>(n, r). \<not> is_ok r) new \<and>
            (\<forall>n \<in> fst ` set ps. exhausted cfg (attempts_of n new))"
      by (auto simp: p)
    obtain err where last: "rs \<noteq> []" "last rs = Err err"
      using rs(2) None by (auto simp: retried_def split: sum.splits)
    have all_failed: "list_all (\<lambda>(n, r). \<not> is_ok r) (map (Pair name) rs)"
      using failed last by (cases rs rule: rev_cases) auto
    have ex: "exhausted cfg rs"
      using rs(2) None by (auto simp: retried_def exhausted_def split: sum.splits)
    have name: "name \<notin> fst ` set new" using new(2) Cons.prems by (auto simp: p)
    have at: "attempts_of n (map (Pair name) rs @ new) = (if n = name then rs else attempts_of n new)" for n
      using attempts_of_other [OF name] by (simp add: attempts_of_append attempts_of_pair)
    have each: "\<forall>n. length (attempts_of n (map (Pair name) rs @ new)) \<le> max_retries cfg + 1"
      using new(6) bounds(1) by (simp add: at)
    have called: "remdups_adj (map fst (map (Pair name) rs @ new)) = name # remdups_adj (map fst new)"
      using remdups_adj_block [of name "map fst new" rs] name last(1) by simp
    have "exhausted cfg (attempts_of n (map (Pair name) rs @ new))"
      if "n = name \<or> n \<in> set (butlast (remdups_adj (map fst new)))" for n
    proof (cases "n = name")
      case False
      then show ?thesis using that new(7) by (auto simp: at called_in_order_def Let_def list_all_iff)
    qed (simp add: at ex)
    then have order: "called_in_order cfg (p # ps) (map (Pair name) rs @ new)"
      using new(7) unfolding called_in_order_def called Let_def list_all_iff by (auto simp: p)
    have "case res of
          Ok a \<Rightarrow> map (Pair name) rs @ new \<noteq> [] \<and> snd (last (map (Pair name) rs @ new)) = Ok a \<and>
            list_all (\<lambda>(n, r). \<not> is_ok r) (butlast (map (Pair name) rs @ new))
        | Err e \<Rightarrow> (\<exists>s. e = Provider (AllProvidersFailed s)) \<and>
            list_all (\<lambda>(n, r). \<not> is_ok r) (map (Pair name) rs @ new) \<and>
            (\<forall>n \<in> fst ` set (p # ps). exhausted cfg (attempts_of n (map (Pair name) rs @ new)))"
      using new(8) all_failed ex by (auto simp: at p butlast_append split: sum.splits)
    then show ?thesis
      using rs(1) new(1-5) run2(2) bounds each order by (intro exI [of _ "map (Pair name) rs @ new"]) (auto simp: p)
  qed
qed (auto simp: watch_def called_in_order_def attempts_of_def)

text \<open>C35: with providers of different names, \<open>execute_with_fallback\<close> answers an error only when every
  provider was called and given up for a reason: all its attempts failed, and the last failure is one that
  cannot be retried or the attempts are used up. It answers a success only when the last call of all gave
  that answer and all calls before it failed, so nothing is called after a success. In both cases the
  providers that were called are the first ones of the configured list, in its order, and each but the
  last was given up for a reason before the next was tried; no provider is called more than once plus
  the retries; and no pause is longer than ten seconds or the configured base, whichever is more.\<close>

theorem fallback_tries_everything:
  assumes "distinct (map fst ps)"
    and "execute_with_fallback cfg (watch ps) (w, []) = ((w', log), pauses, res)"
  shows "(case res of
       Ok a \<Rightarrow> log \<noteq> [] \<and> snd (last log) = Ok a \<and> list_all (\<lambda>(n, r). \<not> is_ok r) (butlast log)
     | Err e \<Rightarrow> (\<exists>s. e = Provider (AllProvidersFailed s)) \<and> list_all (\<lambda>(n, r). \<not> is_ok r) log \<and>
         (\<forall>n \<in> fst ` set ps. exhausted cfg (attempts_of n log))) \<and>
     called_in_order cfg ps log \<and>
     length (attempts_of name log) \<le> max_retries cfg + 1 \<and>
     length log \<le> length ps * (max_retries cfg + 1) \<and>
     length pauses \<le> length ps * max_retries cfg \<and>
     list_all (\<lambda>p. p \<le> max (base_backoff_ms cfg) 10000) pauses"
  using try_providers_log [OF assms(1), of cfg "[]" w "[]"] assms(2)
  by (auto simp: execute_with_fallback_def)

definition flaky :: "rstr \<Rightarrow> (nat, nat) provider" where
  "flaky msg n = (case n of 0 \<Rightarrow> (0, Ok 7) | Suc m \<Rightarrow> (m, Err (Other msg)))"

lemma fallback_tries_everything_witness:
  "fst (snd (execute_with_fallback \<lparr>max_retries = 1, base_backoff_ms = 50\<rparr>
     (watch [(''a'', flaky ''reset''), (''b'', flaky ''HTTP 404'')]) (3, []))) = [50] \<and>
   snd (snd (execute_with_fallback \<lparr>max_retries = 1, base_backoff_ms = 50\<rparr>
     (watch [(''a'', flaky ''reset''), (''b'', flaky ''HTTP 404'')]) (3, []))) =
     Err (Provider (AllProvidersFailed
       (''a attempt 1/2: reset'' @ nl # ''a attempt 2/2: reset'' @ nl # ''b attempt 1/2: HTTP 404''))) \<and>
   exhausted \<lparr>max_retries = 1, base_backoff_ms = 50\<rparr> [Err (Other ''HTTP 404'') :: (provider_call_error, nat) result]"
proof -
  let ?cfg = "\<lparr>max_retries = 1, base_backoff_ms = 50\<rparr>"
  let ?ps = "[(''a'', flaky ''reset''), (''b'', flaky ''HTTP 404'')]"
  let ?log = "[(''a'', Err (Other ''reset'')), (''a'', Err (Other ''reset'')), (''b'', Err (Other ''HTTP 404''))] ::
    (rstr \<times> (provider_call_error, nat) result) list"
  let ?msg = "''a attempt 1/2: reset'' @ nl # ''a attempt 2/2: reset'' @ nl # ''b attempt 1/2: HTTP 404''"
  have s1: "sanitize_api_error ''reset'' = ''reset''" by code_simp
  have s2: "sanitize_api_error ''HTTP 404'' = ''HTTP 404''" by code_simp
  have n1: "is_non_retryable (Other ''reset'') = False" by code_simp
  have q: "is_quota_message ''HTTP 404'' = False" by code_simp
  have w: "digit_words ''HTTP 404'' = [[], [], [], [], [], ''404'']" by code_simp
  have v: "decode_digits ''404'' = 404" by (simp add: decode_digits_def byte_def)
  have n2: "is_non_retryable (Other ''HTTP 404'') = True"
    by (simp add: is_non_retryable_def q w parse_u16_def v del: digit_words.simps)
  have d: "decimal 1 = ''1''" "decimal 2 = ''2''" by code_simp+
  have run: "execute_with_fallback ?cfg (watch ?ps) (3, []) =
      ((0, ?log), [50], Err (Provider (AllProvidersFailed ?msg)))"
    using d by (simp add: execute_with_fallback_def call_provider_with_retries_def retry_loop.simps watch_def watched_def
        flaky_def note_failure_def call_error_text_def s1 s2 n1 n2 Let_def numeral_2_eq_2 numeral_3_eq_3)
  have "distinct (map fst ?ps)" by simp
  from fallback_tries_everything [OF this run]
  have "exhausted ?cfg (attempts_of ''b'' ?log)" by simp
  then show ?thesis unfolding run by (simp add: attempts_of_def)
qed

text \<open>
  The cap of ten seconds is applied when the pause is doubled, so a configured base above it is used as
  it is for the first pause of every provider.
\<close>

lemma first_pause_not_capped:
  "retry_loop \<lparr>max_retries = 1, base_backoff_ms = 60000\<rparr> name (\<lambda>w. (w, Err (Other ''reset'') :: (provider_call_error, nat) result))
     1 60000 failures w = (w', failures', pauses, r) \<Longrightarrow> pauses = [60000]"
proof -
  have r: "is_non_retryable (Other ''reset'') = False" by code_simp
  assume "retry_loop \<lparr>max_retries = 1, base_backoff_ms = 60000\<rparr> name (\<lambda>w. (w, Err (Other ''reset'') :: (provider_call_error, nat) result))
     1 60000 failures w = (w', failures', pauses, r)"
  then show ?thesis by (simp add: retry_loop.simps Let_def r split: nat.splits prod.splits)
qed

end
