(* ===== verification/Channel_Events.thy ===== *)
theory Channel_Events
  imports Text_Utils
begin

text \<open>
  What the channels deliver (\<open>src/src/transport/channels/traits.rs\<close>): messages with their
  attachments and the other events of a platform, with the readings the routing uses.
\<close>

datatype media_content = Url rstr | Bytes "u8 list"

record media_attachment =
  mime_type :: rstr
  media :: media_content
  filename :: "rstr option"

record channel_message =
  msg_id :: rstr
  msg_sender :: rstr
  content :: rstr
  channel :: rstr
  context_hint :: "rstr option"
  msg_conversation :: "rstr option"
  thread_id :: "rstr option"
  reply_to :: "rstr option"
  platform_id :: "rstr option"
  timestamp :: nat
  attachments :: "media_attachment list"

text \<open>The identifiers of channels, messages and users are the strings their newtypes wrap.\<close>

datatype channel_event =
    Message channel_message
  | ReactionAdd (ev_channel: rstr) (ev_channel_id: rstr) (ev_message: rstr) (ev_user: rstr) (emoji: rstr)
  | ReactionRemove (ev_channel: rstr) (ev_channel_id: rstr) (ev_message: rstr) (ev_user: rstr) (emoji: rstr)
  | MessageEdit (ev_channel: rstr) (ev_channel_id: rstr) (ev_message: rstr) (new_content: rstr) (ev_user: rstr)
  | MessageDelete (ev_channel: rstr) (ev_channel_id: rstr) (ev_message: rstr)
  | TypingStart (ev_channel: rstr) (ev_channel_id: rstr) (ev_user: rstr)

definition channel_name :: "channel_event \<Rightarrow> rstr" where
  "channel_name e = (case e of Message m \<Rightarrow> channel m | _ \<Rightarrow> ev_channel e)"

definition event_sender :: "channel_event \<Rightarrow> rstr option" where
  "event_sender e =
     (case e of Message m \<Rightarrow> Some (msg_sender m) | MessageDelete _ _ _ \<Rightarrow> None | _ \<Rightarrow> Some (ev_user e))"

definition event_conversation :: "channel_event \<Rightarrow> rstr option" where
  "event_conversation e = (case e of Message m \<Rightarrow> msg_conversation m | _ \<Rightarrow> Some (ev_channel_id e))"

end
