(* ===== verification/Coalescer.thy ===== *)
theory Coalescer
  imports Channel_Events
begin

text \<open>
  The message coalescer (\<open>src/src/transport/channels/coalescer.rs\<close>), which joins messages that
  arrive close together. The receiver is the list of the events that will still arrive before its
  senders are gone. How each timed wait ends is an input: an arrival (or the closed channel), the
  end of the window, or the caller dropping the call, as the listener loop does when its other
  branch is ready first (\<open>src/src/transport/channels/startup/listener.rs\<close>).
\<close>

record coalescing_key =
  key_channel :: rstr
  key_sender :: rstr
  key_conversation :: "rstr option"
  key_thread :: "rstr option"
  key_reply :: "rstr option"

definition from_message :: "channel_message \<Rightarrow> coalescing_key" where
  "from_message m = \<lparr>key_channel = channel m, key_sender = msg_sender m, key_conversation = msg_conversation m,
     key_thread = thread_id m, key_reply = reply_to m\<rparr>"

record coalescer =
  pending :: "channel_event list"
  window :: nat
  max_messages :: nat

definition coalescer_from_config :: "nat \<Rightarrow> nat \<Rightarrow> coalescer" where
  "coalescer_from_config window_ms limit = \<lparr>pending = [], window = window_ms, max_messages = max limit 1\<rparr>"

definition merge_message :: "channel_message \<Rightarrow> channel_message \<Rightarrow> channel_message" where
  "merge_message base incoming =
     base\<lparr>content :=
            (if trim (content incoming) \<noteq> []
             then (if trim (content base) \<noteq> [] then content base @ [nl] else content base) @ trim (content incoming)
             else content base),
          timestamp := max (timestamp base) (timestamp incoming),
          attachments := attachments base @ attachments incoming\<rparr>"

datatype wait = Arrives | Elapsed | Dropped

text \<open>The next candidate of the loop, \<open>None\<close> when the call was dropped while it waited.\<close>

definition next_candidate ::
    "channel_event list \<Rightarrow> channel_event list \<Rightarrow> wait list
       \<Rightarrow> channel_event option option \<times> channel_event list \<times> channel_event list \<times> wait list" where
  "next_candidate queue rx ws =
     (case queue of
        e # queue \<Rightarrow> (Some (Some e), queue, rx, ws)
      | [] \<Rightarrow>
          (case ws of
             [] \<Rightarrow> (Some None, [], rx, [])
           | Elapsed # ws \<Rightarrow> (Some None, [], rx, ws)
           | Dropped # ws \<Rightarrow> (None, [], rx, ws)
           | Arrives # ws \<Rightarrow>
               (case rx of [] \<Rightarrow> (Some None, [], [], ws) | e # rx \<Rightarrow> (Some (Some e), [], rx, ws))))"

text \<open>The loop, by the number of messages that may still be merged.\<close>

fun collect ::
    "nat \<Rightarrow> coalescing_key \<Rightarrow> channel_message \<Rightarrow> channel_event list \<Rightarrow> channel_event list \<Rightarrow> wait list
       \<Rightarrow> channel_message option \<times> channel_event list \<times> channel_event list" where
  "collect 0 key merged queue rx ws = (Some merged, queue, rx)"
| "collect (Suc n) key merged queue rx ws =
     (case next_candidate queue rx ws of
        (None, queue, rx, ws) \<Rightarrow> (None, queue, rx)
      | (Some None, queue, rx, ws) \<Rightarrow> (Some merged, queue, rx)
      | (Some (Some (Message m)), queue, rx, ws) \<Rightarrow>
          if from_message m = key then collect n key (merge_message merged m) queue rx ws
          else (Some merged, Message m # queue, rx)
      | (Some (Some other), queue, rx, ws) \<Rightarrow> (Some merged, other # queue, rx))"

definition collect_within_window ::
    "coalescer \<Rightarrow> channel_message \<Rightarrow> channel_event list \<Rightarrow> wait list
       \<Rightarrow> channel_message option \<times> coalescer \<times> channel_event list" where
  "collect_within_window c base rx ws =
     (case collect (max_messages c - 1) (from_message base) base (pending c) rx ws of
        (m, queue, rx) \<Rightarrow> (m, c\<lparr>pending := queue\<rparr>, rx))"

text \<open>The answer of \<open>next_event\<close>: the channel is closed, an event, or the call was dropped.\<close>

datatype outcome = Ended | Event channel_event | Abandoned

definition take_base :: "coalescer \<Rightarrow> channel_event list \<Rightarrow> (channel_event \<times> coalescer \<times> channel_event list) option" where
  "take_base c rx =
     (case pending c of
        e # queue \<Rightarrow> Some (e, c\<lparr>pending := queue\<rparr>, rx)
      | [] \<Rightarrow> (case rx of [] \<Rightarrow> None | e # rx \<Rightarrow> Some (e, c, rx)))"

definition next_event :: "coalescer \<Rightarrow> channel_event list \<Rightarrow> wait list \<Rightarrow> outcome \<times> coalescer \<times> channel_event list" where
  "next_event c rx ws =
     (case take_base c rx of
        None \<Rightarrow> (Ended, c, rx)
      | Some (Message base, c, rx) \<Rightarrow>
          if window c = 0 \<or> max_messages c \<le> 1 \<or> channel base = ''cli'' then (Event (Message base), c, rx)
          else (case collect_within_window c base rx ws of
                  (Some m, c, rx) \<Rightarrow> (Event (Message m), c, rx)
                | (None, c, rx) \<Rightarrow> (Abandoned, c, rx))
      | Some (other, c, rx) \<Rightarrow> (Event other, c, rx))"

subsection \<open>What a run delivers\<close>

text \<open>The calls of a run, one script of waits for each.\<close>

fun serve :: "coalescer \<Rightarrow> channel_event list \<Rightarrow> wait list list \<Rightarrow> outcome list \<times> coalescer \<times> channel_event list" where
  "serve c rx [] = ([], c, rx)"
| "serve c rx (ws # scripts) =
     (case next_event c rx ws of
        (out, c, rx) \<Rightarrow> (case serve c rx scripts of (outs, r) \<Rightarrow> (out # outs, r)))"

text \<open>A group of messages that may be delivered as one: they agree in the five fields that say where and by
  whom they were sent.\<close>

definition group_ok :: "coalescer \<Rightarrow> channel_message list \<Rightarrow> bool" where
  "group_ok c g \<longleftrightarrow> g \<noteq> [] \<and> length g \<le> max 1 (max_messages c) \<and>
     list_all (\<lambda>m. channel m = channel (hd g) \<and> msg_sender m = msg_sender (hd g) \<and>
       msg_conversation m = msg_conversation (hd g) \<and> thread_id m = thread_id (hd g) \<and> reply_to m = reply_to (hd g)) g \<and>
     (1 < length g \<longrightarrow> channel (hd g) \<noteq> ''cli'')"

text \<open>The text of such a group: the first as it is, then each of the others that is not blank, trimmed, on a
  line of its own; after a first text that is blank no line is begun.\<close>

definition joined_text :: "rstr \<Rightarrow> rstr list \<Rightarrow> rstr" where
  "joined_text first others =
     (let ts = filter (\<lambda>t. t \<noteq> []) (map trim others) in
      if trim first = [] then first @ join [nl] ts else join [nl] (first # ts))"

text \<open>What one message for the group is to say: everything as in the first one, but for the joined text, the
  latest time stamp and all attachments in order.\<close>

definition group_message :: "channel_message list \<Rightarrow> channel_message" where
  "group_message g = (hd g)
     \<lparr>content := joined_text (content (hd g)) (map content (tl g)),
      timestamp := Max (set (map timestamp g)),
      attachments := concat (map attachments g)\<rparr>"

text \<open>An answer stands for the events it was made of.\<close>

inductive delivers :: "coalescer \<Rightarrow> outcome \<Rightarrow> channel_event list \<Rightarrow> bool" for c where
  ended: "delivers c Ended []"
| one: "delivers c (Event e) [e]"
| merged: "group_ok c g \<Longrightarrow> delivers c (Event (Message (group_message g))) (map Message g)"

text \<open>The merging of one message after the other gives that message.\<close>

lemma trim_Nil_iff: "trim s = [] \<longleftrightarrow> trim_start s = []"
proof -
  have "trim_end t = [] \<longleftrightarrow> trim_start t = []" for t by (cases t) (simp_all add: trim_start_id)
  moreover have "trim_start (trim_start s) = trim_start s" by (rule trim_start_id [OF ws_len_trim_start])
  ultimately show ?thesis by (simp add: trim_def)
qed

lemma trim_start_break: "trim_start s \<noteq> [] \<Longrightarrow> trim_start (s @ nl # t) \<noteq> []"
proof (induction s rule: trim_start.induct)
  case (1 s)
  show ?case
  proof (cases "ws_len s = 0")
    case True
    then have "s \<noteq> []" using "1.prems" by (auto simp: trim_start_id)
    moreover have "ws_lead nl" by code_simp
    ultimately have "ws_len (s @ nl # t) = 0" using True by (simp add: ws_len_append_lead)
    then show ?thesis by (simp add: trim_start_id)
  next
    case False
    then have "trim_start (s @ nl # t) = trim_start (drop (ws_len s) s @ nl # t)"
      using ws_len_le [of s] by (subst trim_start.simps) (simp add: ws_len_append)
    then show ?thesis using 1 False by (simp add: trim_start.simps [of s])
  qed
qed

lemma trim_joined:
  "trim s \<noteq> [] \<Longrightarrow> trim (s @ nl # t) \<noteq> []"
  "trim s = [] \<Longrightarrow> trim (s @ trim t) = [] \<longleftrightarrow> trim t = []"
  using trim_start_break by (auto simp: trim_Nil_iff trim_start_append trim_start_id [OF ws_len_trim])

lemma join_snoc: "ws \<noteq> [] \<Longrightarrow> join sep (ws @ [w]) = join sep ws @ sep @ w"
  by (induction sep ws rule: join.induct) auto

lemma join_Cons_snoc: "join sep (v # ws @ [w]) = join sep (v # ws) @ sep @ w"
  using join_snoc [of "v # ws" sep w] by simp

lemma joined_text_blank: "trim (joined_text a ts) = [] \<longleftrightarrow> trim a = [] \<and> list_all (\<lambda>t. trim t = []) ts"
proof (induction ts rule: rev_induct)
  case (snoc t ts)
  let ?ts = "filter (\<lambda>t. t \<noteq> []) (map trim ts)"
  have empty: "?ts = [] \<longleftrightarrow> list_all (\<lambda>t. trim t = []) ts" by (auto simp: filter_empty_conv list_all_iff)
  show ?case
  proof (cases "trim t = [] \<or> trim a = [] \<and> ?ts = []")
    case True
    then show ?thesis using snoc empty by (auto simp: joined_text_def trim_joined(2))
  next
    case False
    then have "joined_text a (ts @ [t]) = joined_text a ts @ nl # trim t"
      by (auto simp: joined_text_def Let_def join_snoc join_Cons_snoc)
    moreover have "trim (joined_text a ts) \<noteq> []" using False snoc empty by auto
    ultimately show ?thesis using trim_joined(1) False by simp
  qed
qed (simp add: joined_text_def)

lemma joined_text_snoc:
  "joined_text a (ts @ [t]) =
     (if trim t \<noteq> [] then (if trim (joined_text a ts) \<noteq> [] then joined_text a ts @ [nl] else joined_text a ts) @ trim t
      else joined_text a ts)"
proof -
  have "filter (\<lambda>t. t \<noteq> []) (map trim ts) = [] \<longleftrightarrow> list_all (\<lambda>t. trim t = []) ts"
    by (auto simp: filter_empty_conv list_all_iff)
  then show ?thesis
    by (cases "filter (\<lambda>t. t \<noteq> []) (map trim ts) = []") (auto simp: joined_text_blank, auto simp: joined_text_def Let_def join_snoc join_Cons_snoc)
qed

lemma merged_is_group_message: "foldl merge_message b ms = group_message (b # ms)"
proof (induction ms rule: rev_induct)
  case Nil
  then show ?case by (simp add: group_message_def joined_text_def)
next
  case (snoc m ms)
  have "Max (insert (timestamp m) (insert (timestamp b) (timestamp ` set ms))) =
      max (Max (insert (timestamp b) (timestamp ` set ms))) (timestamp m)"
    by (subst Max_insert) (auto simp: max.commute)
  then show ?case
    using snoc by (simp add: group_message_def merge_message_def joined_text_snoc insert_commute)
qed

lemma from_message_agree:
  "from_message m = from_message b \<longleftrightarrow> channel m = channel b \<and> msg_sender m = msg_sender b \<and>
     msg_conversation m = msg_conversation b \<and> thread_id m = thread_id b \<and> reply_to m = reply_to b"
  by (simp add: from_message_def)

lemma collect_group:
  assumes "collect n key (foldl merge_message b g) queue rx ws = (r, queue', rx')" "Dropped \<notin> set ws"
    "list_all (\<lambda>m. from_message m = key) (b # g)"
  shows "\<exists>h. r = Some (foldl merge_message b (g @ h)) \<and> map Message h @ queue' @ rx' = queue @ rx \<and>
    length h \<le> n \<and> list_all (\<lambda>m. from_message m = key) h"
  using assms
proof (induction n arbitrary: g queue rx ws)
  case (Suc n)
  obtain cand queue1 rx1 ws1 where nc: "next_candidate queue rx ws = (cand, queue1, rx1, ws1)"
    by (metis prod.exhaust)
  have cand: "cand \<noteq> None" "Dropped \<notin> set ws1"
    "queue @ rx = (case cand of Some (Some e) \<Rightarrow> e # queue1 @ rx1 | _ \<Rightarrow> queue1 @ rx1)"
    using nc Suc.prems(2) by (auto simp: next_candidate_def split: list.splits wait.splits)
  show ?case
  proof (cases "\<exists>m. cand = Some (Some (Message m)) \<and> from_message m = key")
    case True
    then obtain m where m: "cand = Some (Some (Message m))" "from_message m = key" by blast
    then have "collect n key (foldl merge_message b (g @ [m])) queue1 rx1 ws1 = (r, queue', rx')"
      using Suc.prems(1) nc by simp
    then obtain h where "r = Some (foldl merge_message b ((g @ [m]) @ h))"
      "map Message h @ queue' @ rx' = queue1 @ rx1" "length h \<le> n" "list_all (\<lambda>m. from_message m = key) h"
      using Suc.IH [of "g @ [m]" queue1 rx1 ws1] Suc.prems(3) cand(2) m by auto
    then show ?thesis
      using cand(3) m by (intro exI [of _ "m # h"]) auto
  next
    case False
    then have "r = Some (foldl merge_message b g)" "queue' @ rx' = queue @ rx"
      using Suc.prems(1) nc cand by (auto split: option.splits channel_event.splits)
    then show ?thesis by (intro exI [of _ "[]"]) auto
  qed
qed auto

lemma next_event_delivers:
  assumes "next_event c rx ws = (out, c', rx')" "Dropped \<notin> set ws"
  shows "\<exists>es. delivers c out es \<and> es @ pending c' @ rx' = pending c @ rx \<and>
    window c' = window c \<and> max_messages c' = max_messages c \<and> (out = Ended \<longrightarrow> pending c @ rx = []) \<and>
    (es = [] \<longrightarrow> out = Ended)"
proof (cases "take_base c rx")
  case None
  then show ?thesis
    using assms(1) by (auto simp: next_event_def take_base_def intro!: exI [of _ "[]"] ended split: list.splits)
next
  case (Some b)
  obtain base c1 rx1 where b: "b = (base, c1, rx1)" by (cases b)
  have base: "base # pending c1 @ rx1 = pending c @ rx" "window c1 = window c" "max_messages c1 = max_messages c"
    using Some by (auto simp: b take_base_def split: list.splits)
  have one: ?thesis if "out = Event base" "c' = c1" "rx' = rx1"
    using that base by (intro exI [of _ "[base]"]) (simp add: delivers.one)
  show ?thesis
  proof (cases "\<exists>m. base = Message m \<and> \<not> (window c1 = 0 \<or> max_messages c1 \<le> 1 \<or> channel m = ''cli'')")
    case False
    then show ?thesis
      using one assms(1) Some by (auto simp: next_event_def b split: channel_event.splits)
  next
    case True
    then obtain m where m: "base = Message m" "max_messages c1 > 1" "channel m \<noteq> ''cli''" "window c1 \<noteq> 0" by auto
    obtain r queue' rx2 where col:
      "collect (max_messages c1 - 1) (from_message m) (foldl merge_message m []) (pending c1) rx1 ws = (r, queue', rx2)"
      by (metis prod.exhaust)
    from collect_group [OF col assms(2)] obtain h where h: "r = Some (foldl merge_message m h)"
      "map Message h @ queue' @ rx2 = pending c1 @ rx1" "length h \<le> max_messages c1 - 1"
      "list_all (\<lambda>x. from_message x = from_message m) h"
      by auto
    have "out = Event (Message (group_message (m # h)))" "c' = c1\<lparr>pending := queue'\<rparr>" "rx' = rx2"
      using assms(1) Some m col h(1) by (auto simp: next_event_def b collect_within_window_def merged_is_group_message)
    moreover have "group_ok c (m # h)"
      using m h(3,4) base(3) by (auto simp: group_ok_def from_message_agree)
    ultimately show ?thesis
      using h(2) m(1) base by (intro exI [of _ "map Message (m # h)"]) (auto intro: delivers.merged [of c "m # h", simplified])
  qed
qed

lemma delivers_cong: "max_messages c' = max_messages c \<Longrightarrow> delivers c' out es \<longleftrightarrow> delivers c out es"
  by (simp add: delivers.simps group_ok_def)

lemma serve_delivers:
  assumes "serve c rx scripts = (outs, c', rx')" "\<forall>ws \<in> set scripts. Dropped \<notin> set ws"
  shows "\<exists>ess. list_all2 (delivers c) outs ess \<and> concat ess @ pending c' @ rx' = pending c @ rx \<and>
    (Ended \<in> set outs \<longrightarrow> pending c' @ rx' = []) \<and> (length (pending c @ rx) < length scripts \<longrightarrow> Ended \<in> set outs)"
  using assms
proof (induction scripts arbitrary: c rx outs)
  case (Cons ws scripts)
  obtain out c1 rx1 where one: "next_event c rx ws = (out, c1, rx1)" by (metis prod.exhaust)
  obtain outs2 where rest: "serve c1 rx1 scripts = (outs2, c', rx')" and outs: "outs = out # outs2"
    using Cons.prems(1) one by (auto split: prod.splits)
  obtain es where es: "delivers c out es" "es @ pending c1 @ rx1 = pending c @ rx" "max_messages c1 = max_messages c"
    "out = Ended \<longrightarrow> pending c @ rx = []" "es = [] \<longrightarrow> out = Ended"
    using next_event_delivers [OF one] Cons.prems(2) by auto
  from Cons.IH [OF rest] Cons.prems(2) obtain ess where ess: "list_all2 (delivers c1) outs2 ess"
    "concat ess @ pending c' @ rx' = pending c1 @ rx1" "Ended \<in> set outs2 \<longrightarrow> pending c' @ rx' = []"
    "length (pending c1 @ rx1) < length scripts \<longrightarrow> Ended \<in> set outs2"
    by auto
  have "list_all2 (delivers c) outs (es # ess)"
    using es(1,3) ess(1) outs delivers_cong [OF es(3)] by (auto elim: list_all2_mono)
  moreover have "concat (es # ess) @ pending c' @ rx' = pending c @ rx"
    using es(2) ess(2) by simp
  moreover have "Ended \<in> set outs \<longrightarrow> pending c' @ rx' = []"
    using calculation(2) es(4) ess(3) outs by auto
  moreover have "Ended \<in> set outs" if "length (pending c @ rx) < length (ws # scripts)"
  proof (cases "es = []")
    case False
    then have "0 < length es" by simp
    moreover have "length es + length (pending c1 @ rx1) = length (pending c @ rx)"
      unfolding es(2) [symmetric] by simp
    ultimately have "length (pending c1 @ rx1) < length scripts" using that by (cases es) auto
    then show ?thesis using ess(4) outs by simp
  qed (use es(5) outs in auto)
  ultimately show ?case by blast
qed simp

text \<open>C34: as long as no call is dropped half way, the coalescer loses nothing, repeats nothing and keeps
  the order. However the waits end, the answers stand for consecutive groups of the events that came in,
  followed by what is still queued. An event that is not a message is delivered alone and unchanged. A
  group of messages is merged only when they agree on channel, sender, conversation, thread and reply
  target, are not of the command line, and are at most \<open>max_messages\<close>; the message that stands for
  them is the first of them with the text of all that are not blank, each on a line of its own, the
  latest time stamp, and the attachments of all in order. (Of the later messages the identifiers, the
  hints and the outer white space are not kept.) The end is answered only when nothing is left, and it is
  answered when more calls are made than there are events.\<close>

theorem coalescer_keeps_everything:
  assumes "serve c rx scripts = (outs, c', rx')" "\<forall>ws \<in> set scripts. Dropped \<notin> set ws"
  shows "\<exists>ess. list_all2 (delivers c) outs ess \<and> concat ess @ pending c' @ rx' = pending c @ rx \<and>
    (Ended \<in> set outs \<longrightarrow> pending c' @ rx' = []) \<and>
    (length (pending c @ rx) < length scripts \<longrightarrow> Ended \<in> set outs)"
  using assms by (rule serve_delivers)

definition demo_message :: "rstr \<Rightarrow> rstr \<Rightarrow> channel_message" where
  "demo_message sender body = \<lparr>msg_id = [], msg_sender = sender, content = body, channel = ''discord'', context_hint = None,
     msg_conversation = None, thread_id = None, reply_to = None, platform_id = None, timestamp = 0, attachments = []\<rparr>"

lemma demo_serve:
  "serve (coalescer_from_config 250 4)
     [Message (demo_message ''a'' ''1''), Message (demo_message ''a'' ''2''), Message (demo_message ''b'' ''3'')]
     [[Arrives, Arrives], [Arrives], []] =
   ([Event (Message (demo_message ''a'' (''1'' @ nl # ''2''))), Event (Message (demo_message ''b'' ''3'')), Ended],
    coalescer_from_config 250 4, [])"
  by code_simp

lemma coalescer_keeps_everything_witness:
  "joined_text ''1'' [''2''] = ''1'' @ nl # ''2'' \<and>
   (\<exists>ess. list_all2 (delivers (coalescer_from_config 250 4))
     [Event (Message (demo_message ''a'' (''1'' @ nl # ''2''))), Event (Message (demo_message ''b'' ''3'')), Ended] ess \<and>
   concat ess = [Message (demo_message ''a'' ''1''), Message (demo_message ''a'' ''2''), Message (demo_message ''b'' ''3'')])"
proof -
  have "joined_text ''1'' [''2''] = ''1'' @ nl # ''2''" by code_simp
  then show ?thesis using coalescer_keeps_everything [OF demo_serve] by (auto simp: coalescer_from_config_def)
qed

text \<open>
  The listener loop selects between \<open>next_event\<close> and a reload signal and goes on when the reload fails.
  A call dropped in its wait takes the messages it has already received with it.
\<close>

lemma dropped_call_loses_messages:
  "serve (coalescer_from_config 250 4) [Message (demo_message ''a'' ''1''), Message (demo_message ''a'' ''2'')]
     [[Arrives, Dropped], []] = ([Abandoned, Ended], coalescer_from_config 250 4, [])"
  by code_simp

end
