(* ===== verification/Routing_Queue.thy ===== *)
theory Routing_Queue
  imports Coalescer
begin

text \<open>
  The routing queues between the coalescer and the message handlers
  (\<open>src/src/transport/channels/startup/routing_queue.rs\<close>): one bounded queue and one worker task per
  group, a cap on the groups with one group for the overflow, and a cap on the events handled at a
  time. The tasks interleave: each step between two awaits is one action. A worker is known by the
  number of its spawn; the map from groups to senders is an association list.
\<close>

record routing_rule =
  rule_channel :: rstr
  rule_sender :: "rstr option"
  rule_conversation :: "rstr option"
  rule_group :: rstr

text \<open>The fields of the manager that do not change.\<close>

record routing_config =
  global_concurrency :: nat
  group_queue_capacity :: nat
  max_groups :: nat
  routing_rules :: "routing_rule list"

definition routing_from_config :: "nat \<Rightarrow> nat \<Rightarrow> nat \<Rightarrow> routing_rule list \<Rightarrow> routing_config" where
  "routing_from_config concurrency capacity groups rules =
     \<lparr>global_concurrency = max concurrency 1, group_queue_capacity = max capacity 1,
      max_groups = max groups 1, routing_rules = rules\<rparr>"

definition overflow_group :: rstr where
  "overflow_group = ''__routing_overflow__''"

definition routing_rule_matches :: "rstr \<Rightarrow> rstr \<Rightarrow> rstr option \<Rightarrow> routing_rule \<Rightarrow> bool" where
  "routing_rule_matches chan sender conv rule \<longleftrightarrow>
     rule_channel rule = chan \<and>
     (case rule_sender rule of Some s \<Rightarrow> s = sender | None \<Rightarrow> True) \<and>
     (case rule_conversation rule of Some c \<Rightarrow> conv = Some c | None \<Rightarrow> True)"

definition resolve_group :: "routing_config \<Rightarrow> channel_event \<Rightarrow> rstr" where
  "resolve_group cfg ev =
     (let sender = (case event_sender ev of Some s \<Rightarrow> s | None \<Rightarrow> ''unknown'') in
      case find (routing_rule_matches (channel_name ev) sender (event_conversation ev)) (routing_rules cfg) of
        Some rule \<Rightarrow> rule_group rule
      | None \<Rightarrow> channel_name ev @ ''::'' @ sender)"

text \<open>
  A worker waits for an event, holds one while it waits for a permit, handles it, has left its loop,
  or is gone with its receiver, which closes the channel.
\<close>

datatype phase = Waiting | Holding channel_event | Handling channel_event | Leaving | Gone

record worker =
  group :: rstr
  queue :: "channel_event list"
  phase :: phase

text \<open>
  \<open>sending\<close> is the event whose \<open>send\<close> is awaited by \<open>enqueue\<close>. The last two fields are history: the
  events that were accepted by a queue and those whose handler was started, with their worker.
\<close>

record router =
  group_senders :: "(rstr \<times> nat) list"
  workers :: "worker list"
  sending :: "(nat \<times> channel_event) option"
  accepted :: "(nat \<times> channel_event) list"
  started :: "(nat \<times> channel_event) list"

definition router_new :: router where
  "router_new = \<lparr>group_senders = [], workers = [], sending = None, accepted = [], started = []\<rparr>"

definition is_closed :: "router \<Rightarrow> nat \<Rightarrow> bool" where
  "is_closed r i \<longleftrightarrow> phase (workers r ! i) = Gone"

definition create_group_sender :: "routing_config \<Rightarrow> router \<Rightarrow> rstr \<Rightarrow> router \<times> nat" where
  "create_group_sender cfg r requested =
     (let bounded = (if max_groups cfg \<le> length (group_senders r) then overflow_group else requested) in
      case map_of (group_senders r) bounded of
        Some i \<Rightarrow> (r, i)
      | None \<Rightarrow>
          (r\<lparr>group_senders := (bounded, length (workers r)) # group_senders r,
             workers := workers r @ [\<lparr>group = bounded, queue = [], phase = Waiting\<rparr>]\<rparr>,
           length (workers r)))"

text \<open>\<open>enqueue\<close> up to its \<open>send\<close>.\<close>

definition enqueue :: "routing_config \<Rightarrow> router \<Rightarrow> channel_event \<Rightarrow> router" where
  "enqueue cfg r ev =
     (let r = r\<lparr>group_senders := filter (\<lambda>(_, i). \<not> is_closed r i) (group_senders r)\<rparr>;
          wanted = resolve_group cfg ev;
          (r, i) = (case map_of (group_senders r) wanted of
                      Some i \<Rightarrow> (r, i) | None \<Rightarrow> create_group_sender cfg r wanted)
      in r\<lparr>sending := Some (i, ev)\<rparr>)"

datatype action =
    Enqueue channel_event
  | Send
  | Receive nat
  | Idle nat
  | Leave nat
  | Permit nat
  | Finish nat
  | Panic nat

definition set_worker :: "nat \<Rightarrow> (worker \<Rightarrow> worker) \<Rightarrow> router \<Rightarrow> router" where
  "set_worker i f r = r\<lparr>workers := (workers r)[i := f (workers r ! i)]\<rparr>"

definition is_handling :: "worker \<Rightarrow> bool" where
  "is_handling w = (case phase w of Handling _ \<Rightarrow> True | _ \<Rightarrow> False)"

text \<open>
  One action, \<open>None\<close> when it cannot happen. A \<open>send\<close> waits for room and fails when the channel is
  closed, which drops the event. The idle time runs out only on an empty queue. The permit is held while
  the handler runs; a handler that panics takes its worker down.
\<close>

definition act :: "routing_config \<Rightarrow> router \<Rightarrow> action \<Rightarrow> router option" where
  "act cfg r a =
     (let w = \<lambda>i. workers r ! i; here = \<lambda>i. i < length (workers r) in
      case a of
        Enqueue ev \<Rightarrow> if sending r = None then Some (enqueue cfg r ev) else None
      | Send \<Rightarrow>
          (case sending r of
             None \<Rightarrow> None
           | Some (i, ev) \<Rightarrow>
               if is_closed r i then Some (r\<lparr>sending := None\<rparr>)
               else if length (queue (w i)) < group_queue_capacity cfg
               then Some ((set_worker i (\<lambda>w. w\<lparr>queue := queue w @ [ev]\<rparr>) r)
                            \<lparr>sending := None, accepted := accepted r @ [(i, ev)]\<rparr>)
               else None)
      | Receive i \<Rightarrow>
          if here i \<and> phase (w i) = Waiting
          then (case queue (w i) of
                  [] \<Rightarrow> None
                | ev # q \<Rightarrow> Some (set_worker i (\<lambda>w. w\<lparr>queue := q, phase := Holding ev\<rparr>) r))
          else None
      | Idle i \<Rightarrow>
          if here i \<and> phase (w i) = Waiting \<and> queue (w i) = []
          then Some (set_worker i (\<lambda>w. w\<lparr>phase := Leaving\<rparr>) r) else None
      | Leave i \<Rightarrow>
          if here i \<and> phase (w i) = Leaving
          then Some (set_worker i (\<lambda>w. w\<lparr>queue := [], phase := Gone\<rparr>) r) else None
      | Permit i \<Rightarrow>
          if here i \<and> length (filter is_handling (workers r)) < global_concurrency cfg
          then (case phase (w i) of
                  Holding ev \<Rightarrow>
                    Some ((set_worker i (\<lambda>w. w\<lparr>phase := Handling ev\<rparr>) r)\<lparr>started := started r @ [(i, ev)]\<rparr>)
                | _ \<Rightarrow> None)
          else None
      | Finish i \<Rightarrow>
          if here i \<and> is_handling (w i) then Some (set_worker i (\<lambda>w. w\<lparr>phase := Waiting\<rparr>) r) else None
      | Panic i \<Rightarrow>
          if here i \<and> is_handling (w i)
          then Some (set_worker i (\<lambda>w. w\<lparr>queue := [], phase := Gone\<rparr>) r) else None)"

inductive routing_reachable :: "routing_config \<Rightarrow> router \<Rightarrow> bool" for cfg where
  reach_new: "routing_reachable cfg router_new"
| reach_act: "routing_reachable cfg r \<Longrightarrow> act cfg r a = Some r' \<Longrightarrow> routing_reachable cfg r'"

fun acts :: "routing_config \<Rightarrow> router \<Rightarrow> action list \<Rightarrow> router option" where
  "acts cfg r [] = Some r"
| "acts cfg r (a # as) = (case act cfg r a of None \<Rightarrow> None | Some r \<Rightarrow> acts cfg r as)"

lemma acts_reachable: "routing_reachable cfg r \<Longrightarrow> acts cfg r as = Some r' \<Longrightarrow> routing_reachable cfg r'"
  by (induction as arbitrary: r) (auto intro: reach_act split: option.splits)

subsection \<open>Invariant\<close>

definition of_worker :: "nat \<Rightarrow> (nat \<times> channel_event) list \<Rightarrow> channel_event list" where
  "of_worker i h = map snd (filter (\<lambda>(j, _). j = i) h)"

lemma of_worker_append [simp]: "of_worker i (h @ [(j, ev)]) = of_worker i h @ (if j = i then [ev] else [])"
  by (simp add: of_worker_def)

definition holds :: "worker \<Rightarrow> channel_event list" where
  "holds w = (case phase w of Holding ev \<Rightarrow> [ev] | _ \<Rightarrow> [])"

text \<open>What a worker was sent is what it has started, what it holds and what is queued, in this order.\<close>

definition worker_ok :: "routing_config \<Rightarrow> router \<Rightarrow> nat \<Rightarrow> bool" where
  "worker_ok cfg r i \<longleftrightarrow>
     (let w = workers r ! i in
      length (queue w) \<le> group_queue_capacity cfg \<and>
      (\<exists>lost. of_worker i (accepted r) = of_worker i (started r) @ holds w @ queue w @ lost \<and>
         (phase w \<noteq> Gone \<longrightarrow> lost = [])) \<and>
      (phase w \<noteq> Gone \<longrightarrow> map_of (group_senders r) (group w) = Some i))"

definition senders_ok :: "routing_config \<Rightarrow> (rstr \<times> nat) list \<Rightarrow> bool" where
  "senders_ok cfg ss \<longleftrightarrow> distinct (map fst ss) \<and> length ss \<le> max_groups cfg + 1 \<and>
     (length ss = max_groups cfg + 1 \<longrightarrow> overflow_group \<in> fst ` set ss)"

definition owned :: "router \<Rightarrow> bool" where
  "owned r \<longleftrightarrow> (\<forall>(g, i) \<in> set (group_senders r). i < length (workers r) \<and> group (workers r ! i) = g)"

definition sending_ok :: "routing_config \<Rightarrow> router \<Rightarrow> bool" where
  "sending_ok cfg r \<longleftrightarrow>
     (case sending r of
        None \<Rightarrow> True
      | Some (i, ev) \<Rightarrow> i < length (workers r) \<and> group (workers r ! i) \<in> {resolve_group cfg ev, overflow_group})"

definition history_ok :: "router \<Rightarrow> bool" where
  "history_ok r \<longleftrightarrow> (\<forall>i \<in> fst ` set (accepted r @ started r). i < length (workers r))"

definition all_workers_ok :: "routing_config \<Rightarrow> router \<Rightarrow> bool" where
  "all_workers_ok cfg r \<longleftrightarrow> (\<forall>i < length (workers r). worker_ok cfg r i)"

definition routing_inv :: "routing_config \<Rightarrow> router \<Rightarrow> bool" where
  "routing_inv cfg r \<longleftrightarrow>
     senders_ok cfg (group_senders r) \<and> length (filter is_handling (workers r)) \<le> global_concurrency cfg \<and>
     owned r \<and> sending_ok cfg r \<and> history_ok r \<and> all_workers_ok cfg r"

lemma count_update:
  "i < length ws \<Longrightarrow> length (filter P (ws[i := w])) + of_bool (P (ws ! i)) = length (filter P ws) + of_bool (P w)"
proof (induction ws arbitrary: i)
  case (Cons x ws)
  then show ?case by (cases i) auto
qed simp

lemma is_handling_phase:
  "phase w = Handling ev \<Longrightarrow> is_handling w" "phase w = Waiting \<Longrightarrow> \<not> is_handling w" "phase w = Holding ev \<Longrightarrow> \<not> is_handling w"
  "phase w = Leaving \<Longrightarrow> \<not> is_handling w" "phase w = Gone \<Longrightarrow> \<not> is_handling w"
  by (simp_all add: is_handling_def)

lemma is_handlingD: "is_handling w \<Longrightarrow> \<exists>ev. phase w = Handling ev"
  by (auto simp: is_handling_def split: phase.splits)

text \<open>An action of one worker or of the sender: the others keep what holds for them.\<close>

lemma inv_worker:
  assumes inv: "routing_inv cfg r" and i: "i < length (workers r)"
    and r': "r' = r\<lparr>workers := (workers r)[i := w'], sending := s, accepted := accepted r @ map (Pair i) as,
               started := started r @ map (Pair i) ss\<rparr>"
    and s: "s = sending r \<or> s = None"
    and keep: "group w' = group (workers r ! i)" "length (queue w') \<le> group_queue_capacity cfg"
    and live: "phase (workers r ! i) \<noteq> Gone"
    and hist: "phase w' \<noteq> Gone \<Longrightarrow> holds (workers r ! i) @ queue (workers r ! i) @ as = ss @ holds w' @ queue w'"
    and gone: "phase w' = Gone \<Longrightarrow> ss = [] \<and> queue w' = []"
    and count: "is_handling w' \<Longrightarrow> is_handling (workers r ! i) \<or> length (filter is_handling (workers r)) < global_concurrency cfg"
  shows "routing_inv cfg r'"
proof -
  have other: "worker_ok cfg r' j" if "j < length (workers r)" "j \<noteq> i" for j
  proof -
    have "of_worker j (accepted r') = of_worker j (accepted r)" "of_worker j (started r') = of_worker j (started r)"
      using that(2) by (auto simp: r' of_worker_def filter_empty_conv)
    then show ?thesis
      using inv that by (auto simp: routing_inv_def all_workers_ok_def worker_ok_def r' Let_def)
  qed
  have own: "of_worker i (accepted r') = of_worker i (accepted r) @ as" "of_worker i (started r') = of_worker i (started r) @ ss"
    by (simp_all add: r' of_worker_def comp_def)
  have ok: "of_worker i (accepted r) = of_worker i (started r) @ holds (workers r ! i) @ queue (workers r ! i)"
    "map_of (group_senders r) (group (workers r ! i)) = Some i"
    using inv i live by (auto simp: routing_inv_def all_workers_ok_def worker_ok_def Let_def)
  have this_one: "worker_ok cfg r' i"
  proof (cases "phase w' = Gone")
    case True
    then have "holds w' = []" by (simp add: holds_def)
    then show ?thesis
      using own ok True gone i keep by (auto simp: worker_ok_def r' Let_def)
  next
    case False
    then show ?thesis
      using own ok hist i keep by (auto simp: worker_ok_def r' Let_def)
  qed
  have "length (filter is_handling (workers r')) \<le> global_concurrency cfg"
    using count_update [OF i, of is_handling w'] count inv
    by (cases "is_handling w'") (auto simp: r' routing_inv_def)
  moreover have "group ((workers r)[i := w'] ! j) = group (workers r ! j)" for j
    using keep(1) i by (cases "j = i") auto
  moreover have "all_workers_ok cfg r'"
    unfolding all_workers_ok_def using other this_one by (metis length_list_update r' router.select_convs(2) router.simps(7) router.surjective router.update_convs(2-5))
  moreover have "history_ok r'"
    using inv i by (auto simp: r' routing_inv_def history_ok_def)
  moreover have "sending_ok cfg r'"
    using inv s calculation(2) by (auto simp: r' routing_inv_def sending_ok_def split: option.splits)
  moreover have "owned r'"
    using inv calculation(2) by (auto simp: r' routing_inv_def owned_def)
  ultimately show ?thesis
    using inv by (simp add: routing_inv_def r')
qed

lemma map_of_filter_keep:
  "distinct (map fst xs) \<Longrightarrow> map_of xs g = Some i \<Longrightarrow> P (g, i) \<Longrightarrow> map_of (filter P xs) g = Some i"
  by (rule map_of_is_SomeI) (auto intro: distinct_map_filter dest: map_of_SomeD)

lemma senders_ok_filter: "senders_ok cfg ss \<Longrightarrow> senders_ok cfg (filter P ss)"
proof -
  assume ok: "senders_ok cfg ss"
  have len: "length (filter P ss) \<le> length ss" by (rule length_filter_le)
  have same: "filter P ss = ss" if "length (filter P ss) = max_groups cfg + 1"
    using that ok len length_filter_less [of _ ss P] by (intro filter_True) (fastforce simp: senders_ok_def)
  show ?thesis
  proof (cases "length (filter P ss) = max_groups cfg + 1")
    case True
    then show ?thesis using ok same by simp
  next
    case False
    then show ?thesis using ok by (auto simp: senders_ok_def distinct_map_filter intro: le_trans [OF length_filter_le])
  qed
qed

lemma inv_prune:
  assumes "routing_inv cfg r"
  shows "routing_inv cfg (r\<lparr>group_senders := filter (\<lambda>(_, i). \<not> is_closed r i) (group_senders r)\<rparr>)"
proof -
  let ?P = "\<lambda>(_, i). \<not> is_closed r i"
  let ?r = "r\<lparr>group_senders := filter ?P (group_senders r)\<rparr>"
  have d: "distinct (map fst (group_senders r))"
    using assms by (simp add: routing_inv_def senders_ok_def)
  have "worker_ok cfg ?r i" if "i < length (workers r)" for i
  proof -
    have "worker_ok cfg r i" using assms that by (simp add: routing_inv_def all_workers_ok_def)
    then show ?thesis
      using map_of_filter_keep [OF d, of "group (workers r ! i)" i ?P]
      by (simp add: worker_ok_def Let_def is_closed_def)
  qed
  then show ?thesis
    using assms by (auto simp: routing_inv_def all_workers_ok_def senders_ok_filter owned_def history_ok_def
        sending_ok_def split: option.splits)
qed

lemma inv_create:
  assumes inv: "routing_inv cfg r" and none: "sending r = None"
    and r': "create_group_sender cfg r requested = (r', i)" and new: "map_of (group_senders r) requested = None"
  shows "routing_inv cfg r' \<and> sending r' = None \<and> i < length (workers r') \<and>
    group (workers r' ! i) \<in> {requested, overflow_group}"
proof -
  define b where "b = (if max_groups cfg \<le> length (group_senders r) then overflow_group else requested)"
  show ?thesis
  proof (cases "map_of (group_senders r) b")
    case (Some j)
    then have "(b, j) \<in> set (group_senders r)" by (rule map_of_SomeD)
    then show ?thesis
      using r' inv none Some by (auto simp: create_group_sender_def b_def routing_inv_def owned_def split: if_splits)
  next
    case None
    let ?w = "\<lparr>group = b, queue = [], phase = Waiting\<rparr>"
    have eq: "r' = r\<lparr>group_senders := (b, length (workers r)) # group_senders r, workers := workers r @ [?w]\<rparr>"
      "i = length (workers r)"
      using r' None by (auto simp: create_group_sender_def b_def Let_def split: if_splits)
    have old: "worker_ok cfg r' j" if "j < length (workers r)" for j
    proof -
      have "worker_ok cfg r j" using inv that by (simp add: routing_inv_def all_workers_ok_def)
      then show ?thesis
        using that None by (auto simp: worker_ok_def Let_def eq nth_append)
    qed
    have fresh: "of_worker (length (workers r)) (accepted r) = []" "of_worker (length (workers r)) (started r) = []"
      using inv by (force simp: routing_inv_def history_ok_def of_worker_def filter_empty_conv)+
    then have "worker_ok cfg r' (length (workers r))"
      by (simp add: worker_ok_def eq holds_def)
    then have "all_workers_ok cfg r'"
      using old by (auto simp: all_workers_ok_def eq less_Suc_eq)
    moreover have "senders_ok cfg (group_senders r')"
      using inv None by (auto simp: routing_inv_def senders_ok_def eq b_def map_of_eq_None_iff split: if_splits)
    moreover have "owned r'"
      using inv by (auto simp: routing_inv_def owned_def eq nth_append)
    moreover have "history_ok r'"
      using inv by (auto simp: routing_inv_def history_ok_def eq intro: less_SucI)
    ultimately show ?thesis
      using inv none by (auto simp: routing_inv_def sending_ok_def eq is_handling_def b_def)
  qed
qed

lemma inv_enqueue:
  assumes "routing_inv cfg r" "sending r = None"
  shows "routing_inv cfg (enqueue cfg r ev)"
proof -
  let ?r = "r\<lparr>group_senders := filter (\<lambda>(_, i). \<not> is_closed r i) (group_senders r)\<rparr>"
  have inv: "routing_inv cfg ?r" by (rule inv_prune [OF assms(1)])
  obtain r2 i where pick: "(case map_of (group_senders ?r) (resolve_group cfg ev) of
      Some i \<Rightarrow> (?r, i) | None \<Rightarrow> create_group_sender cfg ?r (resolve_group cfg ev)) = (r2, i)"
    by (metis prod.exhaust)
  have "routing_inv cfg r2 \<and> i < length (workers r2) \<and> group (workers r2 ! i) \<in> {resolve_group cfg ev, overflow_group}"
  proof (cases "map_of (group_senders ?r) (resolve_group cfg ev)")
    case None
    then show ?thesis using inv_create [OF inv _ _ None, of r2 i] pick assms(2) by simp
  next
    case (Some j)
    then have "(resolve_group cfg ev, j) \<in> set (group_senders ?r)" by (rule map_of_SomeD)
    then show ?thesis using inv pick Some by (auto simp: routing_inv_def owned_def)
  qed
  moreover have "enqueue cfg r ev = r2\<lparr>sending := Some (i, ev)\<rparr>"
    using pick by (simp add: enqueue_def Let_def)
  ultimately show ?thesis
    by (simp add: routing_inv_def sending_ok_def owned_def history_ok_def all_workers_ok_def worker_ok_def)
qed

lemma is_closed_Gone: "is_closed r i \<longleftrightarrow> phase (workers r ! i) = Gone"
  by (simp add: is_closed_def)

lemma queue_bound:
  assumes "routing_inv cfg r" "i < length (workers r)"
  shows "length (queue (workers r ! i)) \<le> group_queue_capacity cfg"
  using assms by (auto simp: routing_inv_def all_workers_ok_def worker_ok_def Let_def)

lemma inv_act:
  assumes inv: "routing_inv cfg r" and act: "act cfg r a = Some r'"
  shows "routing_inv cfg r'"
proof (cases a)
  case (Enqueue ev)
  then show ?thesis using act inv_enqueue [OF inv] by (auto simp: act_def split: if_splits)
next
  case Send
  obtain i ev where s: "sending r = Some (i, ev)" using act Send by (auto simp: act_def split: option.splits)
  have i: "i < length (workers r)" using inv s by (simp add: routing_inv_def sending_ok_def)
  show ?thesis
  proof (cases "is_closed r i")
    case True
    then have "r' = r\<lparr>sending := None\<rparr>" using act Send s by (simp add: act_def Let_def)
    then show ?thesis
      using inv by (simp add: routing_inv_def sending_ok_def owned_def history_ok_def all_workers_ok_def worker_ok_def)
  next
    case False
    then show ?thesis
      using act Send s i
      by (intro inv_worker [OF inv i, where r' = r' and w' = "(workers r ! i)\<lparr>queue := queue (workers r ! i) @ [ev]\<rparr>" and s = None
        and as = "[ev]" and ss = "[]"])
        (auto simp: act_def Let_def set_worker_def is_closed_Gone is_handling_def holds_def split: if_splits)
  qed
next
  case (Receive i)
  then obtain ev q where w: "i < length (workers r)" "phase (workers r ! i) = Waiting" "queue (workers r ! i) = ev # q"
    "r' = set_worker i (\<lambda>w. w\<lparr>queue := q, phase := Holding ev\<rparr>) r"
    using act by (auto simp: act_def Let_def split: if_splits list.splits)
  show ?thesis
    using w queue_bound [OF inv w(1)]
    by (intro inv_worker [OF inv w(1), where r' = r' and w' = "(workers r ! i)\<lparr>queue := q, phase := Holding ev\<rparr>" and s = "sending r"
        and as = "[]" and ss = "[]"])
      (auto simp: set_worker_def holds_def is_handling_def)
next
  case (Idle i)
  then have w: "i < length (workers r)" "phase (workers r ! i) = Waiting" "queue (workers r ! i) = []"
    "r' = set_worker i (\<lambda>w. w\<lparr>phase := Leaving\<rparr>) r"
    using act by (auto simp: act_def Let_def split: if_splits)
  then show ?thesis
    by (intro inv_worker [OF inv w(1), where r' = r' and w' = "(workers r ! i)\<lparr>phase := Leaving\<rparr>" and s = "sending r"
        and as = "[]" and ss = "[]"])
      (auto simp: set_worker_def holds_def is_handling_def)
next
  case (Leave i)
  then have w: "i < length (workers r)" "phase (workers r ! i) = Leaving"
    "r' = set_worker i (\<lambda>w. w\<lparr>queue := [], phase := Gone\<rparr>) r"
    using act by (auto simp: act_def Let_def split: if_splits)
  then show ?thesis
    by (intro inv_worker [OF inv w(1), where r' = r' and w' = "(workers r ! i)\<lparr>queue := [], phase := Gone\<rparr>" and s = "sending r"
        and as = "[]" and ss = "[]"])
      (auto simp: set_worker_def holds_def is_handling_def)
next
  case (Permit i)
  then obtain ev where w: "i < length (workers r)" "phase (workers r ! i) = Holding ev"
    "length (filter is_handling (workers r)) < global_concurrency cfg"
    "r' = (set_worker i (\<lambda>w. w\<lparr>phase := Handling ev\<rparr>) r)\<lparr>started := started r @ [(i, ev)]\<rparr>"
    using act by (auto simp: act_def Let_def split: if_splits phase.splits)
  then show ?thesis
    using queue_bound [OF inv w(1)]
    by (intro inv_worker [OF inv w(1), where r' = r' and w' = "(workers r ! i)\<lparr>phase := Handling ev\<rparr>" and s = "sending r"
        and as = "[]" and ss = "[ev]"])
      (auto simp: set_worker_def holds_def)
next
  case (Finish i)
  then obtain ev where w: "i < length (workers r)" "phase (workers r ! i) = Handling ev"
    "r' = set_worker i (\<lambda>w. w\<lparr>phase := Waiting\<rparr>) r"
    using act by (auto simp: act_def Let_def split: if_splits dest: is_handlingD)
  then show ?thesis
    using queue_bound [OF inv w(1)]
    by (intro inv_worker [OF inv w(1), where r' = r' and w' = "(workers r ! i)\<lparr>phase := Waiting\<rparr>" and s = "sending r"
        and as = "[]" and ss = "[]"])
      (auto simp: set_worker_def holds_def is_handling_def)
next
  case (Panic i)
  then obtain ev where w: "i < length (workers r)" "phase (workers r ! i) = Handling ev"
    "r' = set_worker i (\<lambda>w. w\<lparr>queue := [], phase := Gone\<rparr>) r"
    using act by (auto simp: act_def Let_def split: if_splits dest: is_handlingD)
  then show ?thesis
    by (intro inv_worker [OF inv w(1), where r' = r' and w' = "(workers r ! i)\<lparr>queue := [], phase := Gone\<rparr>" and s = "sending r"
        and as = "[]" and ss = "[]"])
      (auto simp: set_worker_def holds_def is_handling_def)
qed

lemma routing_reachable_inv: "routing_reachable cfg r \<Longrightarrow> routing_inv cfg r"
proof (induction rule: routing_reachable.induct)
  case reach_new
  then show ?case
    by (simp add: routing_inv_def router_new_def senders_ok_def owned_def sending_ok_def history_ok_def all_workers_ok_def)
qed (rule inv_act)

subsection \<open>Properties\<close>

text \<open>C33: under every interleaving of the listener, the workers and their handlers, at most
  \<open>global_concurrency\<close> events are handled at a time and no queue is longer than its capacity; there are
  at most \<open>max_groups\<close> groups and the overflow group; no two live workers serve the same group, so
  the events of one group are never handled side by side; and the events a worker has started are those
  its queue accepted, in the order it accepted them, none twice and none skipped: for a live worker
  the rest is what it holds and what is queued.\<close>

theorem routing_queues_ordered:
  assumes "routing_reachable cfg r"
  shows "length (filter is_handling (workers r)) \<le> global_concurrency cfg \<and>
    length (group_senders r) \<le> max_groups cfg + 1 \<and>
    (\<forall>i < length (workers r). \<forall>j < length (workers r).
       phase (workers r ! i) \<noteq> Gone \<and> phase (workers r ! j) \<noteq> Gone \<and>
       group (workers r ! i) = group (workers r ! j) \<longrightarrow> i = j) \<and>
    (\<forall>i < length (workers r).
       length (queue (workers r ! i)) \<le> group_queue_capacity cfg \<and>
       prefix (of_worker i (started r)) (of_worker i (accepted r)) \<and>
       (phase (workers r ! i) \<noteq> Gone \<longrightarrow>
          of_worker i (accepted r) =
            of_worker i (started r) @ holds (workers r ! i) @ queue (workers r ! i)))"
proof -
  have inv: "routing_inv cfg r" by (rule routing_reachable_inv [OF assms])
  then have ok: "worker_ok cfg r i" if "i < length (workers r)" for i
    using that by (simp add: routing_inv_def all_workers_ok_def)
  have "i = j" if "i < length (workers r)" "j < length (workers r)" "phase (workers r ! i) \<noteq> Gone"
    "phase (workers r ! j) \<noteq> Gone" "group (workers r ! i) = group (workers r ! j)" for i j
    using ok [OF that(1)] ok [OF that(2)] that(3-5) by (simp add: worker_ok_def Let_def)
  moreover have "length (queue (workers r ! i)) \<le> group_queue_capacity cfg \<and>
       prefix (of_worker i (started r)) (of_worker i (accepted r)) \<and>
       (phase (workers r ! i) \<noteq> Gone \<longrightarrow>
          of_worker i (accepted r) = of_worker i (started r) @ holds (workers r ! i) @ queue (workers r ! i))"
    if "i < length (workers r)" for i
    using ok [OF that] by (auto simp: worker_ok_def Let_def)
  ultimately show ?thesis
    using inv by (auto simp: routing_inv_def senders_ok_def)
qed

definition demo_routing :: "nat \<Rightarrow> routing_config" where
  "demo_routing groups = routing_from_config 4 256 groups []"

definition typing :: "rstr \<Rightarrow> nat \<Rightarrow> channel_event" where
  "typing user n = MessageEdit ''d'' ''c'' ''m'' (replicate n CHR ''x'') user"

definition handle_one :: "channel_event \<Rightarrow> nat \<Rightarrow> action list" where
  "handle_one ev i = [Enqueue ev, Send, Receive i, Permit i, Finish i]"

lemma routing_queues_ordered_witness:
  "\<exists>r. acts (demo_routing 2) router_new (handle_one (typing ''u'' 1) 0 @ [Enqueue (typing ''u'' 2), Send]) = Some r \<and>
     of_worker 0 (accepted r) = of_worker 0 (started r) @ holds (workers r ! 0) @ queue (workers r ! 0) \<and>
     of_worker 0 (accepted r) = [typing ''u'' 1, typing ''u'' 2]"
proof -
  let ?as = "handle_one (typing ''u'' 1) 0 @ [Enqueue (typing ''u'' 2), Send]"
  obtain r where r: "acts (demo_routing 2) router_new ?as = Some r" "length (workers r) = 1"
    "phase (workers r ! 0) = Waiting" "of_worker 0 (accepted r) = [typing ''u'' 1, typing ''u'' 2]"
  proof -
    have "case acts (demo_routing 2) router_new ?as of
       Some r \<Rightarrow> length (workers r) = 1 \<and> phase (workers r ! 0) = Waiting \<and>
         of_worker 0 (accepted r) = [typing ''u'' 1, typing ''u'' 2]
     | None \<Rightarrow> False"
      by code_simp
    then show ?thesis using that by (auto split: option.splits)
  qed
  from routing_queues_ordered [OF acts_reachable [OF reach_new r(1)]] r show ?thesis by auto
qed

text \<open>
  An event whose \<open>send\<close> succeeds between the moment a worker gives up waiting and the moment its receiver
  is dropped is lost: no handler ever sees it, nothing failed and no one is told.
\<close>

lemma accepted_event_lost:
  "case acts (demo_routing 2) router_new
      (handle_one (typing ''u'' 1) 0 @ [Enqueue (typing ''u'' 2), Idle 0, Send, Leave 0, Enqueue (typing ''u'' 3), Send]) of
     None \<Rightarrow> False
   | Some r \<Rightarrow> accepted r = [(0, typing ''u'' 1), (0, typing ''u'' 2), (1, typing ''u'' 3)] \<and>
       started r = [(0, typing ''u'' 1)] \<and> phase (workers r ! 0) = Gone \<and> sending r = None"
  by code_simp

text \<open>
  A sender whose events were diverted to the overflow group gets a group of its own when others have gone
  idle. Its next event then no longer waits for the ones in the overflow group: here two events of
  one sender are handled at the same time.
\<close>

lemma overflow_breaks_sender_order:
  "case acts (demo_routing 2) router_new
      (handle_one (typing ''a'' 1) 0 @ handle_one (typing ''b'' 1) 1 @
       [Enqueue (typing ''u'' 1), Send, Receive 2, Permit 2, Idle 0, Leave 0, Idle 1, Leave 1,
        Enqueue (typing ''u'' 2), Send, Receive 3, Permit 3]) of
     None \<Rightarrow> False
   | Some r \<Rightarrow> phase (workers r ! 2) = Handling (typing ''u'' 1) \<and> phase (workers r ! 3) = Handling (typing ''u'' 2)"
  by code_simp

end
