(* ===== verification/Cron_Expression.thy ===== *)
theory Cron_Expression
  imports Unicode_Text
begin

text \<open>
  Schedules of the cron service (\<open>src/src/platform/cron/expression.rs\<close>): the phrases it understands and
  the expression they become. The \<open>cron\<close> crate that reads the expression and computes times is a
  parameter of \<open>next_run_for\<close>.
\<close>

datatype cron_error =
    EmptyExpression
  | BadInterval rstr
  | MinuteInterval nat
  | HourInterval nat
  | BadWeekday rstr
  | TimeFormat rstr
  | BadHour rstr
  | BadMinute rstr
  | TimeRange rstr
  | FieldCount rstr nat
  | InvalidCron rstr
  | NoFutureOccurrence rstr

definition parse_u32 :: "rstr \<Rightarrow> nat option" where
  "parse_u32 s = parse_unsigned 4294967296 s"

definition parse_hhmm_24 :: "rstr \<Rightarrow> (cron_error, nat \<times> nat) result" where
  "parse_hhmm_24 raw =
     (let value = trim raw in
      case split_once (CHR '':'') value of
        None \<Rightarrow> Err (TimeFormat value)
      | Some (hour_raw, minute_raw) \<Rightarrow>
          (case parse_u32 hour_raw of
             None \<Rightarrow> Err (BadHour hour_raw)
           | Some hour \<Rightarrow>
               (case parse_u32 minute_raw of
                  None \<Rightarrow> Err (BadMinute minute_raw)
                | Some minute \<Rightarrow> if 23 < hour \<or> 59 < minute then Err (TimeRange value) else Ok (hour, minute))))"

definition weekday_names :: "(rstr list \<times> rstr) list" where
  "weekday_names =
     [([''monday'', ''mon''], ''MON''), ([''tuesday'', ''tue'', ''tues''], ''TUE''), ([''wednesday'', ''wed''], ''WED''),
      ([''thursday'', ''thu'', ''thurs''], ''THU''), ([''friday'', ''fri''], ''FRI''), ([''saturday'', ''sat''], ''SAT''),
      ([''sunday'', ''sun''], ''SUN'')]"

definition normalize_weekday :: "rstr \<Rightarrow> rstr option" where
  "normalize_weekday raw = map_option snd (find (\<lambda>(names, _). trim raw \<in> set names) weekday_names)"

text \<open>The answer of a phrase that names a time of day, on the days given.\<close>

definition at_time :: "rstr \<Rightarrow> rstr \<Rightarrow> (cron_error, rstr option) result" where
  "at_time raw_time days =
     (case parse_hhmm_24 raw_time of
        Err e \<Rightarrow> Err e
      | Ok (hour, minute) \<Rightarrow> Ok (Some (''0 '' @ decimal minute @ '' '' @ decimal hour @ '' * * '' @ days)))"

text \<open>\<open>every N minutes\<close> and \<open>every N hours\<close>; \<open>None\<close> when the phrase is something else.\<close>

definition every_interval :: "rstr \<Rightarrow> rstr \<Rightarrow> (cron_error, rstr) result option" where
  "every_interval expression rest =
     (case split_whitespace rest of
        [n, unit] \<Rightarrow>
          (case parse_u32 n of
             None \<Rightarrow> Some (Err (BadInterval expression))
           | Some interval \<Rightarrow>
               if unit = ''minutes'' \<or> unit = ''minute''
               then Some (if interval < 1 \<or> 59 < interval then Err (MinuteInterval interval)
                          else Ok (''0 */'' @ decimal interval @ '' * * * *''))
               else if unit = ''hours'' \<or> unit = ''hour''
               then Some (if interval < 1 \<or> 23 < interval then Err (HourInterval interval)
                          else Ok (''0 0 */'' @ decimal interval @ '' * * *''))
               else None)
      | _ \<Rightarrow> None)"

definition weekly_on :: "rstr \<Rightarrow> (cron_error, rstr option) result" where
  "weekly_on rest =
     (case find_split '' at '' rest of
        None \<Rightarrow> Ok None
      | Some (weekday_raw, tail) \<Rightarrow>
          (case normalize_weekday weekday_raw of
             None \<Rightarrow> Err (BadWeekday weekday_raw)
           | Some weekday \<Rightarrow> at_time (drop (length '' at '') tail) weekday))"

definition normalize_natural_expression :: "rstr \<Rightarrow> (cron_error, rstr option) result" where
  "normalize_natural_expression expression =
     (let normalized = to_ascii_lowercase (trim expression) in
      if normalized = ''hourly'' then Ok (Some ''0 0 * * * *'')
      else if normalized = ''daily'' \<or> normalized = ''every day'' then Ok (Some ''0 0 0 * * *'')
      else case strip_prefix ''daily at '' normalized of
        Some raw_time \<Rightarrow> at_time raw_time ''*''
      | None \<Rightarrow>
      (case strip_prefix ''every day at '' normalized of
        Some raw_time \<Rightarrow> at_time raw_time ''*''
      | None \<Rightarrow>
      (case strip_prefix ''weekdays at '' normalized of
        Some raw_time \<Rightarrow> at_time raw_time ''MON-FRI''
      | None \<Rightarrow>
      (case Option.bind (strip_prefix ''every '' normalized) (every_interval expression) of
        Some (Err e) \<Rightarrow> Err e
      | Some (Ok s) \<Rightarrow> Ok (Some s)
      | None \<Rightarrow>
      (case strip_prefix ''weekly on '' normalized of
        Some rest \<Rightarrow> weekly_on rest
      | None \<Rightarrow> Ok None)))))"

definition normalize_expression :: "rstr \<Rightarrow> (cron_error, rstr) result" where
  "normalize_expression raw =
     (let expression = trim raw in
      if expression = [] then Err EmptyExpression
      else case normalize_natural_expression expression of
        Err e \<Rightarrow> Err e
      | Ok (Some natural) \<Rightarrow> Ok natural
      | Ok None \<Rightarrow>
          (let fields = length (split_whitespace expression) in
           if fields = 5 then Ok (''0 '' @ expression)
           else if fields = 6 \<or> fields = 7 then Ok expression
           else Err (FieldCount expression fields)))"

definition next_run_for ::
    "(rstr \<Rightarrow> 's option) \<Rightarrow> ('s \<Rightarrow> 't \<Rightarrow> 't option) \<Rightarrow> rstr \<Rightarrow> 't \<Rightarrow> (cron_error, 't) result" where
  "next_run_for from_str next_after expression from_time =
     (case normalize_expression expression of
        Err e \<Rightarrow> Err e
      | Ok normalized \<Rightarrow>
          (case from_str normalized of
             None \<Rightarrow> Err (InvalidCron expression)
           | Some schedule \<Rightarrow>
               (case next_after schedule from_time of
                  None \<Rightarrow> Err (NoFutureOccurrence expression) | Some t \<Rightarrow> Ok t)))"

definition parse_max_attempts :: "int \<Rightarrow> nat" where
  "parse_max_attempts raw = (if 0 < raw \<and> raw < 4294967296 then nat raw else 1)"

subsection \<open>Fields\<close>

lemma split_six:
  assumes "plain_word a" "plain_word b" "plain_word c" "plain_word d" "plain_word e" "plain_word f"
  shows "split_whitespace (a @ '' '' @ b @ '' '' @ c @ '' '' @ d @ '' '' @ e @ '' '' @ f) = [a, b, c, d, e, f]"
  using assms by (simp add: split_whitespace_word split_whitespace_last)

text \<open>A field that is a star, a number up to the limit or a step of at least one and at most the limit.\<close>

definition field_ok :: "nat \<Rightarrow> rstr \<Rightarrow> bool" where
  "field_ok hi f \<longleftrightarrow> f = ''*'' \<or> (\<exists>n \<le> hi. f = decimal n) \<or> (\<exists>n \<le> hi. 0 < n \<and> f = ''*/'' @ decimal n)"

definition day_ok :: "rstr \<Rightarrow> bool" where
  "day_ok d \<longleftrightarrow> d \<in> {''*'', ''MON-FRI''} \<union> snd ` set weekday_names"

definition natural_fields :: "rstr list \<Rightarrow> bool" where
  "natural_fields fs \<longleftrightarrow>
     (\<exists>m h d. fs = [''0'', m, h, ''*'', ''*'', d] \<and> field_ok 59 m \<and> field_ok 23 h \<and> day_ok d)"

lemma day_plain: "day_ok d \<Longrightarrow> plain_word d"
  by (auto simp: day_ok_def weekday_names_def plain_word_def ws_lead_def is_ascii_ws_def)

lemma literal_plain: "plain_word ''0''" "plain_word ''*''" "plain_word (''*/'' @ decimal n)"
  using plain_decimal [of n] by (auto simp: plain_word_def ws_lead_def is_ascii_ws_def)

lemma parse_hhmm_24_range: "parse_hhmm_24 raw = Ok (h, m) \<Longrightarrow> h \<le> 23 \<and> m \<le> 59"
  by (auto simp: parse_hhmm_24_def Let_def split: option.splits prod.splits if_splits)

lemma at_time_fields:
  assumes "at_time raw days = Ok (Some s)" "day_ok days"
  shows "natural_fields (split_whitespace s)"
proof -
  obtain h m where hm: "parse_hhmm_24 raw = Ok (h, m)"
    and s: "s = ''0 '' @ decimal m @ '' '' @ decimal h @ '' * * '' @ days"
    using assms(1) by (auto simp: at_time_def split: sum.splits)
  have "split_whitespace s = [''0'', decimal m, decimal h, ''*'', ''*'', days]"
    using split_six [of "''0''" "decimal m" "decimal h" "''*''" "''*''" days] day_plain [OF assms(2)]
    by (simp add: s plain_decimal literal_plain)
  then show ?thesis
    using parse_hhmm_24_range [OF hm] assms(2) by (auto simp: natural_fields_def field_ok_def)
qed

lemma star_day: "day_ok ''*''" "day_ok ''MON-FRI''"
  by (simp_all add: day_ok_def)

lemma decimal_0: "decimal 0 = ''0''"
  by code_simp

lemma every_interval_fields:
  assumes "every_interval e rest = Some (Ok s)"
  shows "natural_fields (split_whitespace s)"
proof -
  obtain raw unit where sp: "split_whitespace rest = [raw, unit]"
    using assms by (auto simp: every_interval_def split: list.splits)
  have "\<exists>n. 1 \<le> n \<and> n \<le> 59 \<and> s = ''0 */'' @ decimal n @ '' * * * *'' \<or>
      1 \<le> n \<and> n \<le> 23 \<and> s = ''0 0 */'' @ decimal n @ '' * * *''"
  proof (cases "parse_u32 raw")
    case (Some n)
    then show ?thesis
      using assms sp unfolding every_interval_def
      by (intro exI [of _ n]) (simp del: append.simps split: if_splits)
  qed (use assms sp in \<open>simp add: every_interval_def\<close>)
  then obtain n where "1 \<le> n \<and> n \<le> 59 \<and> s = ''0 */'' @ decimal n @ '' * * * *'' \<or>
      1 \<le> n \<and> n \<le> 23 \<and> s = ''0 0 */'' @ decimal n @ '' * * *''" by blast
  then show ?thesis
  proof
    assume *: "1 \<le> n \<and> n \<le> 59 \<and> s = ''0 */'' @ decimal n @ '' * * * *''"
    then have "split_whitespace s = [''0'', ''*/'' @ decimal n, ''*'', ''*'', ''*'', ''*'']"
      using split_six [of "''0''" "''*/'' @ decimal n" "''*''" "''*''" "''*''" "''*''"] by (simp add: literal_plain [simplified])
    then show ?thesis using * star_day by (auto simp: natural_fields_def field_ok_def)
  next
    assume *: "1 \<le> n \<and> n \<le> 23 \<and> s = ''0 0 */'' @ decimal n @ '' * * *''"
    then have "split_whitespace s = [''0'', ''0'', ''*/'' @ decimal n, ''*'', ''*'', ''*'']"
      using split_six [of "''0''" "''0''" "''*/'' @ decimal n" "''*''" "''*''" "''*''"] by (simp add: literal_plain [simplified])
    moreover note decimal_0 [symmetric]
    ultimately show ?thesis using * star_day by (auto simp: natural_fields_def field_ok_def)
  qed
qed

lemma weekday_day: "normalize_weekday raw = Some d \<Longrightarrow> day_ok d"
  by (force simp: normalize_weekday_def day_ok_def find_Some_iff dest: nth_mem)

lemma natural_expression_fields:
  assumes "normalize_natural_expression e = Ok (Some s)"
  shows "natural_fields (split_whitespace s)"
proof -
  note zero = decimal_0 [symmetric]
  have lit: "split_whitespace ''0 0 * * * *'' = [''0'', ''0'', ''*'', ''*'', ''*'', ''*'']"
    "split_whitespace ''0 0 0 * * *'' = [''0'', ''0'', ''0'', ''*'', ''*'', ''*'']"
    by code_simp+
  have lits: "natural_fields (split_whitespace ''0 0 * * * *'')" "natural_fields (split_whitespace ''0 0 0 * * *'')"
    unfolding lit natural_fields_def field_ok_def using zero star_day by auto
  have weekly: "natural_fields (split_whitespace s)" if "weekly_on rest = Ok (Some s)" for rest
    using that weekday_day at_time_fields by (auto simp: weekly_on_def split: option.splits prod.splits)
  show ?thesis
    using assms lits weekly at_time_fields star_day every_interval_fields
    unfolding normalize_natural_expression_def Let_def bind_eq_Some_conv
    by (auto split: if_splits option.splits sum.splits bind_splits)
qed

text \<open>What \<open>normalize_expression\<close> hands to the parser has six or seven fields. A phrase becomes second
  zero, a minute and an hour in range or a step that is not zero and in range, every day and month,
  and every day of the week, the working days or one named day; any other text keeps its fields, with
  second zero put before five of them.\<close>

theorem normalized_expression_fields:
  assumes "normalize_expression e = Ok s"
  shows "natural_fields (split_whitespace s) \<or>
    (length (split_whitespace e) \<in> {6, 7} \<and> split_whitespace s = split_whitespace e) \<or>
    (length (split_whitespace e) = 5 \<and> split_whitespace s = ''0'' # split_whitespace e)"
proof -
  have five: "split_whitespace (''0 '' @ trim e) = ''0'' # split_whitespace e"
    using split_whitespace_word [OF literal_plain(1), of "trim e"] by (simp add: split_whitespace_trim)
  show ?thesis
    using assms natural_expression_fields five
    by (auto simp: normalize_expression_def Let_def split_whitespace_trim split: if_splits sum.splits option.splits)
qed

lemma normalized_expression_fields_witness:
  "natural_fields (split_whitespace ''0 0 * * * *'')"
proof -
  have "normalize_expression '' Hourly'' = Ok ''0 0 * * * *''" by code_simp
  moreover have "split_whitespace '' Hourly'' = [''Hourly'']" by code_simp
  ultimately show ?thesis using normalized_expression_fields [of "'' Hourly''"] by simp
qed

text \<open>
  A number of minutes that does not divide the hour becomes a step of the minute field, which starts again
  every hour: every 45 minutes is at minute 0 and 45 of each hour.
\<close>

lemma uneven_interval_accepted: "every_interval e ''45 minutes'' = Some (Ok ''0 */45 * * * *'')"
proof -
  have "split_whitespace ''45 minutes'' = [''45'', ''minutes'']" by code_simp
  moreover have "decode_digits ''45'' = 45" "list_all is_ascii_digit ''45''" "decimal 45 = ''45''"
    by (simp add: decode_digits_def byte_def, code_simp, code_simp)
  ultimately show ?thesis by (simp add: every_interval_def parse_u32_def parse_unsigned_def)
qed

end
