(* ===== verification/Detection_Normalize.thy ===== *)
theory Detection_Normalize
  imports Unicode_Text
begin

text \<open>
  The normalisation of untrusted text before it is searched for injection patterns
  (\<open>src/src/security/external_content/normalize.rs\<close> with the tables of \<open>tables.rs\<close>), phase by phase.
\<close>

subsection \<open>Percent decoding\<close>

fun hex_pair :: "rstr \<Rightarrow> char option" where
  "hex_pair (hi # lo # _) =
     (case hex_value hi of
        None \<Rightarrow> None
      | Some h \<Rightarrow> (case hex_value lo of None \<Rightarrow> None | Some l \<Rightarrow> Some (char_of (16 * h + l))))"
| "hex_pair _ = None"

text \<open>The loop, with the bytes that wait to be decoded.\<close>

function percent_from :: "rstr \<Rightarrow> rstr \<Rightarrow> utext" where
  "percent_from held [] = chars held"
| "percent_from held (c # s) =
     (case (if c = CHR ''%'' then hex_pair s else None) of
        Some b \<Rightarrow> percent_from (held @ [b]) (drop 2 s)
      | None \<Rightarrow>
          chars held @ (if 127 < byte c then percent_from [c] s else of_char c # percent_from [] s))"
  by pat_completeness auto
termination by (relation "measure (\<lambda>(h, s). length s)") auto

definition decode_percent_encoding :: "rstr \<Rightarrow> utext" where
  "decode_percent_encoding s = (if CHR ''%'' \<notin> set s then chars s else percent_from [] s)"

subsection \<open>Single characters\<close>

definition is_invisible :: "int \<Rightarrow> bool" where
  "is_invisible c \<longleftrightarrow> 0x200B \<le> c \<and> c \<le> 0x200F \<or> 0x202A \<le> c \<and> c \<le> 0x202E \<or> 0x2060 \<le> c \<and> c \<le> 0x2064 \<or>
     c = 0xFEFF \<or> 0xFE00 \<le> c \<and> c \<le> 0xFE0F \<or> c = 0xAD"

definition is_combining_mark :: "int \<Rightarrow> bool" where
  "is_combining_mark c \<longleftrightarrow> 0x300 \<le> c \<and> c \<le> 0x36F \<or> 0x1AB0 \<le> c \<and> c \<le> 0x1AFF \<or> 0x1DC0 \<le> c \<and> c \<le> 0x1DFF \<or>
     0x20D0 \<le> c \<and> c \<le> 0x20FF \<or> 0xFE20 \<le> c \<and> c \<le> 0xFE2F"

definition is_emoji :: "int \<Rightarrow> bool" where
  "is_emoji c \<longleftrightarrow> 0x2600 \<le> c \<and> c \<le> 0x27BF \<or> 0x1F300 \<le> c \<and> c \<le> 0x1F5FF \<or> 0x1F600 \<le> c \<and> c \<le> 0x1F64F \<or>
     0x1F680 \<le> c \<and> c \<le> 0x1F6FF \<or> 0x1F900 \<le> c \<and> c \<le> 0x1F9FF \<or> 0x1FA00 \<le> c \<and> c \<le> 0x1FA6F \<or>
     0x1FA70 \<le> c \<and> c \<le> 0x1FAFF \<or> 0x1F1E0 \<le> c \<and> c \<le> 0x1F1FF"

definition is_markdown_formatting :: "int \<Rightarrow> bool" where
  "is_markdown_formatting c \<longleftrightarrow> c = of_char (CHR ''*'') \<or> c = of_char (CHR 0x60)"

definition fullwidth_to_ascii :: "int \<Rightarrow> int option" where
  "fullwidth_to_ascii c = (if 0xFF01 \<le> c \<and> c \<le> 0xFF5E then from_u32 (c - 0xFF01 + 0x21) else None)"

definition halfwidth_table :: "int list" where
  "halfwidth_table =
     [0x30FB, 0x30F2, 0x30A1, 0x30A3, 0x30A5, 0x30A7, 0x30A9, 0x30E3, 0x30E5, 0x30E7, 0x30C3, 0x30FC,
      0x30A2, 0x30A4, 0x30A6, 0x30A8, 0x30AA, 0x30AB, 0x30AD, 0x30AF, 0x30B1, 0x30B3,
      0x30B5, 0x30B7, 0x30B9, 0x30BB, 0x30BD, 0x30BF, 0x30C1, 0x30C4, 0x30C6, 0x30C8,
      0x30CA, 0x30CB, 0x30CC, 0x30CD, 0x30CE, 0x30CF, 0x30D2, 0x30D5, 0x30D8, 0x30DB,
      0x30DE, 0x30DF, 0x30E0, 0x30E1, 0x30E2, 0x30E4, 0x30E6, 0x30E8,
      0x30E9, 0x30EA, 0x30EB, 0x30EC, 0x30ED, 0x30EF, 0x30F3, 0x3099, 0x309A]"

definition halfwidth_kana_to_fullwidth :: "int \<Rightarrow> int option" where
  "halfwidth_kana_to_fullwidth c =
     (if 0xFF65 \<le> c \<and> c \<le> 0xFF9F
      then (let i = nat (c - 0xFF65) in if i < length halfwidth_table then Some (halfwidth_table ! i) else None)
      else None)"

type_synonym char_table = "(int list \<times> char) list"

definition find_char :: "char_table \<Rightarrow> int \<Rightarrow> int option" where
  "find_char table c = map_option (of_char \<circ> snd) (find (\<lambda>(cs, _). c \<in> set cs) table)"

definition confusables :: char_table where
  "confusables =
     [([0x430, 0x410, 0x3B1, 0x391], CHR ''a''), ([0x392], CHR ''b''), ([0x441, 0x421], CHR ''c''),
      ([0x435, 0x415, 0x3B5, 0x395], CHR ''e''), ([0x4BB, 0x397], CHR ''h''),
      ([0x456, 0x406, 0x3B9, 0x399], CHR ''i''), ([0x458, 0x408], CHR ''j''), ([0x39A], CHR ''k''),
      ([0x39C], CHR ''m''), ([0x39D], CHR ''n''), ([0x43E, 0x41E, 0x3BF, 0x39F], CHR ''o''),
      ([0x440, 0x420, 0x3C1, 0x3A1], CHR ''p''), ([0x455, 0x405], CHR ''s''), ([0x3A4], CHR ''t''),
      ([0x3C5], CHR ''u''), ([0x445, 0x425, 0x3A7], CHR ''x''), ([0x443, 0x423, 0x3A5], CHR ''y''),
      ([0x396], CHR ''z'')]"

definition confusable_to_latin :: "int \<Rightarrow> int option" where
  "confusable_to_latin c = find_char confusables c"

definition superscripts :: char_table where
  "superscripts =
     [([0x1D43], CHR ''a''), ([0x1D47], CHR ''b''), ([0x1D48], CHR ''d''), ([0x1D49], CHR ''e''),
      ([0x2E0, 0x1D4D], CHR ''g''), ([0x2B0], CHR ''h''), ([0x2071], CHR ''i''), ([0x2B2], CHR ''j''),
      ([0x1D4F], CHR ''k''), ([0x2E1], CHR ''l''), ([0x1D50], CHR ''m''), ([0x207F], CHR ''n''),
      ([0x1D52], CHR ''o''), ([0x1D56], CHR ''p''), ([0x2B3], CHR ''r''), ([0x2E2], CHR ''s''),
      ([0x1D57], CHR ''t''), ([0x1D58], CHR ''u''), ([0x1D5B], CHR ''v''), ([0x2B7], CHR ''w''),
      ([0x2B8], CHR ''y'')]"

definition special_unicode_to_ascii :: "int \<Rightarrow> int option" where
  "special_unicode_to_ascii c =
     (if 0x24D0 \<le> c \<and> c \<le> 0x24E9 then from_u32 (c - 0x24D0 + of_char (CHR ''a''))
      else if 0x24B6 \<le> c \<and> c \<le> 0x24CF then from_u32 (c - 0x24B6 + of_char (CHR ''a''))
      else find_char superscripts c)"

text \<open>Every block of the mathematical letters has 26 characters and starts where the one before ends.\<close>

definition math_alpha_ranges :: "(int \<times> int \<times> char) list" where
  "math_alpha_ranges = map (\<lambda>k. (0x1D400 + 26 * k, 0x1D419 + 26 * k, CHR ''a'')) [0..25]"

definition math_alphanumeric_to_ascii :: "int \<Rightarrow> int option" where
  "math_alphanumeric_to_ascii c =
     (if \<not> (0x1D400 \<le> c \<and> c \<le> 0x1D7FF) then None
      else case find (\<lambda>(first, last, _). first \<le> c \<and> c \<le> last) math_alpha_ranges of
        Some (first, _, base) \<Rightarrow> from_u32 (of_char base + (c - first) mod 26)
      | None \<Rightarrow> None)"

definition fold_char :: "int \<Rightarrow> utext" where
  "fold_char c =
     (if is_invisible c \<or> is_combining_mark c \<or> is_emoji c \<or> is_markdown_formatting c then []
      else case fullwidth_to_ascii c of Some a \<Rightarrow> [a]
      | None \<Rightarrow> (case halfwidth_kana_to_fullwidth c of Some a \<Rightarrow> [a]
      | None \<Rightarrow> (case confusable_to_latin c of Some a \<Rightarrow> [a]
      | None \<Rightarrow> (case special_unicode_to_ascii c of Some a \<Rightarrow> [a]
      | None \<Rightarrow> (case math_alphanumeric_to_ascii c of Some a \<Rightarrow> [a]
      | None \<Rightarrow>
          if c = of_char (CHR ''.'') \<or> c = of_char (CHR ''-'') \<or> c = of_char (CHR ''_'') then [32] else [c])))))"

subsection \<open>Kana, white space, entities and digits\<close>

definition dakuten_bases :: "int list" where
  "dakuten_bases = [0x30AB, 0x30AD, 0x30AF, 0x30B1, 0x30B3, 0x30B5, 0x30B7, 0x30B9, 0x30BB, 0x30BD, 0x30BF,
     0x30C1, 0x30C4, 0x30C6, 0x30C8]"

definition ha_row :: "int list" where
  "ha_row = [0x30CF, 0x30D2, 0x30D5, 0x30D8, 0x30DB]"

definition compose_voicing :: "int \<Rightarrow> int \<Rightarrow> int option" where
  "compose_voicing base mark =
     (if mark = 0x3099
      then (if base \<in> set dakuten_bases \<or> base \<in> set ha_row then from_u32 (base + 1)
            else if base = 0x30A6 then Some 0x30F4 else None)
      else if mark = 0x309A then (if base \<in> set ha_row then from_u32 (base + 2) else None)
      else None)"

fun compose_katakana_voicing :: "utext \<Rightarrow> utext" where
  "compose_katakana_voicing (a # b # s) =
     (case (if b = 0x3099 \<or> b = 0x309A then compose_voicing a b else None) of
        Some v \<Rightarrow> v # compose_katakana_voicing s
      | None \<Rightarrow> a # compose_katakana_voicing (b # s))"
| "compose_katakana_voicing s = s"

fun collapse_from :: "bool \<Rightarrow> utext \<Rightarrow> utext" where
  "collapse_from prev [] = []"
| "collapse_from prev (c # s) =
     (if is_whitespace c then (if prev then [] else [32]) @ collapse_from True s
      else c # collapse_from False s)"

definition collapse_whitespace :: "utext \<Rightarrow> utext" where
  "collapse_whitespace s = collapse_from False s"

definition digit_of :: "int \<Rightarrow> int option" where
  "digit_of c =
     (if 48 \<le> c \<and> c \<le> 57 then Some (c - 48) else if 65 \<le> c \<and> c \<le> 70 then Some (c - 55)
      else if 97 \<le> c \<and> c \<le> 102 then Some (c - 87) else None)"

text \<open>\<open>u32::from_str_radix\<close>, of which \<open>parse\<close> is the case of radix ten.\<close>

fun digits_from :: "int \<Rightarrow> int \<Rightarrow> utext \<Rightarrow> int option" where
  "digits_from radix acc [] = Some acc"
| "digits_from radix acc (c # s) =
     (case digit_of c of
        None \<Rightarrow> None
      | Some d \<Rightarrow>
          if radix \<le> d \<or> 4294967295 < acc * radix + d then None else digits_from radix (acc * radix + d) s)"

definition from_str_radix :: "int \<Rightarrow> utext \<Rightarrow> int option" where
  "from_str_radix radix s =
     (let digits = (case s of c # r \<Rightarrow> if c = of_char (CHR ''+'') then r else s | [] \<Rightarrow> [])
      in if digits = [] then None else digits_from radix 0 digits)"

definition named_entities :: "(utext \<times> char) list" where
  "named_entities = [(utf8 ''lt'', CHR ''<''), (utf8 ''gt'', CHR ''>''), (utf8 ''amp'', CHR ''&''),
     (utf8 ''quot'', CHR 0x22), (utf8 ''#39'', CHR 0x27), (utf8 ''apos'', CHR 0x27)]"

definition resolve_entity :: "utext \<Rightarrow> int option" where
  "resolve_entity name =
     (case (if prefix (utf8 ''#'') name then from_str_radix 10 (drop 1 name) else None) of
        Some code \<Rightarrow> from_u32 code
      | None \<Rightarrow>
          (case (if prefix (utf8 ''#x'') name \<or> prefix (utf8 ''#X'') name then from_str_radix 16 (drop 2 name) else None) of
             Some code \<Rightarrow> from_u32 code
           | None \<Rightarrow> map_option of_char (map_of named_entities name)))"

text \<open>What the text after an ampersand stands for: the character and the rest after the semicolon.\<close>

definition entity_at :: "utext \<Rightarrow> (int \<times> utext) option" where
  "entity_at s =
     (let entity = takeWhile (\<lambda>c. c \<noteq> of_char (CHR '';'')) (take 10 s) in
      if of_char (CHR '';'') \<in> set (take 10 s)
      then map_option (\<lambda>d. (d, drop (length entity + 1) s)) (resolve_entity entity) else None)"

lemma entity_at_shorter: "entity_at s = Some (d, r) \<Longrightarrow> length r \<le> length s"
  by (auto simp: entity_at_def Let_def split: if_splits)

function decode_entities :: "utext \<Rightarrow> utext" where
  "decode_entities [] = []"
| "decode_entities (c # s) =
     (if c \<noteq> of_char (CHR ''&'') then c # decode_entities s
      else case entity_at s of
        Some (d, r) \<Rightarrow> (if is_invisible d then [] else [d]) @ decode_entities r
      | None \<Rightarrow> of_char (CHR ''&'') # decode_entities s)"
  by pat_completeness auto
termination by (relation "measure length") (auto dest: entity_at_shorter)

definition decode_html_entities :: "utext \<Rightarrow> utext" where
  "decode_html_entities s = (if of_char (CHR ''&'') \<notin> set s then s else decode_entities s)"

definition leet :: "(char \<times> char) list" where
  "leet = [(CHR ''0'', CHR ''o''), (CHR ''1'', CHR ''i''), (CHR ''3'', CHR ''e''), (CHR ''4'', CHR ''a''),
     (CHR ''@'', CHR ''a''), (CHR ''5'', CHR ''s''), (CHR ''7'', CHR ''t'')]"

definition unleet :: "int \<Rightarrow> int" where
  "unleet c = (case map_of (map (\<lambda>(a, b). (of_char a, of_char b)) leet) c of Some d \<Rightarrow> d | None \<Rightarrow> c)"

definition normalize_leetspeak :: "utext \<Rightarrow> utext" where
  "normalize_leetspeak s = map unleet s"

subsection \<open>The pipeline\<close>

text \<open>Phases two to seven, on characters, and the whole.\<close>

definition normalize_chars :: "utext \<Rightarrow> utext" where
  "normalize_chars s =
     map lower (normalize_leetspeak (decode_html_entities (collapse_whitespace
       (compose_katakana_voicing (concat (map fold_char s))))))"

definition normalize_detection :: "rstr \<Rightarrow> utext" where
  "normalize_detection text = normalize_chars (decode_percent_encoding text)"

subsection \<open>Which texts the pipeline keeps\<close>

text \<open>
  Characters every phase keeps: lower-case ASCII letters, hiragana, full-width katakana and CJK ideographs.
  The space is kept where no other white space is next to it.
\<close>

definition steady :: "int \<Rightarrow> bool" where
  "steady c \<longleftrightarrow> 97 \<le> c \<and> c \<le> 122 \<or> 0x3041 \<le> c \<and> c \<le> 0x3096 \<or> 0x30A1 \<le> c \<and> c \<le> 0x30FC \<or> 0x4E00 \<le> c \<and> c \<le> 0x9FFF"

lemma steady_cases:
  assumes "steady c"
  obtains "97 \<le> c" "c \<le> 122" | "0x3041 \<le> c" "c \<le> 0x3096" | "0x30A1 \<le> c" "c \<le> 0x30FC" | "0x4E00 \<le> c" "c \<le> 0x9FFF"
  using assms by (auto simp: steady_def)

lemma table_none: "list_all (\<lambda>(cs, _). c \<notin> set cs) table \<Longrightarrow> find_char table c = None"
  by (induction table) (auto simp: find_char_def)

lemma ranges_none: "c < 0x1D400 \<Longrightarrow> math_alphanumeric_to_ascii c = None"
  by (simp add: math_alphanumeric_to_ascii_def)

lemma fold_char_plain:
  assumes "\<not> is_invisible c" "\<not> is_combining_mark c" "\<not> is_emoji c" "\<not> is_markdown_formatting c" "c < 0xFF01"
    "find_char confusables c = None" "find_char superscripts c = None" "c < 0x24B6 \<or> 0x24E9 < c" "c \<notin> {45, 46, 95}"
  shows "fold_char c = [c]"
  using assms ranges_none [of c]
  by (auto simp: fold_char_def fullwidth_to_ascii_def halfwidth_kana_to_fullwidth_def confusable_to_latin_def
      special_unicode_to_ascii_def)

lemma steady_not_special:
  assumes "steady c \<or> c = 32"
  shows "\<not> is_invisible c" "\<not> is_combining_mark c" "\<not> is_emoji c" "\<not> is_markdown_formatting c" "c < 0xFF01"
    "c < 0x24B6 \<or> 0x24E9 < c" "c \<notin> {45, 46, 95}" "find_char confusables c = None" "find_char superscripts c = None"
  using assms unfolding steady_def is_invisible_def is_combining_mark_def is_emoji_def is_markdown_formatting_def
  by (auto intro!: table_none simp: confusables_def superscripts_def)

lemma fold_steady: "steady c \<or> c = 32 \<Longrightarrow> fold_char c = [c]"
  using steady_not_special [of c] by (intro fold_char_plain)

lemma steady_later:
  assumes "steady c"
  shows "\<not> is_whitespace c" "c \<noteq> 38" "lower (unleet c) = c" "c \<noteq> 0x3099 \<and> c \<noteq> 0x309A"
  using assms by (auto simp: steady_def is_whitespace_def unleet_def leet_def lower_def)

fun steady_text :: "bool \<Rightarrow> utext \<Rightarrow> bool" where
  "steady_text space [] \<longleftrightarrow> True"
| "steady_text space (c # s) \<longleftrightarrow> (if c = 32 then \<not> space \<and> steady_text True s else steady c \<and> steady_text False s)"

lemma steady_text_chars: "steady_text b s \<Longrightarrow> c \<in> set s \<Longrightarrow> steady c \<or> c = 32"
  by (induction b s rule: steady_text.induct) (auto split: if_splits)

lemma compose_steady: "list_all (\<lambda>c. steady c \<or> c = 32) s \<Longrightarrow> compose_katakana_voicing s = s"
  by (induction s rule: compose_katakana_voicing.induct) (auto dest: steady_later(4))

lemma space_whitespace: "is_whitespace 32"
  by (simp add: is_whitespace_def)

lemma collapse_steady: "steady_text b s \<Longrightarrow> collapse_from b s = s"
  by (induction b s rule: steady_text.induct) (auto simp: steady_later(1) space_whitespace split: if_splits)

lemma normalize_steady:
  assumes "steady_text False s"
  shows "normalize_chars s = s"
proof -
  have all: "\<forall>c \<in> set s. steady c \<or> c = 32" using steady_text_chars [OF assms] by blast
  have "concat (map fold_char s) = concat (map (\<lambda>c. [c]) s)"
    using all fold_steady by (intro arg_cong [of _ _ concat] map_cong) auto
  then have fold: "concat (map fold_char s) = s" by simp
  have "38 \<notin> set s" using all steady_later(2) by fastforce
  then have entities: "decode_html_entities s = s" by (simp add: decode_html_entities_def)
  have "lower (unleet 32) = 32" by (simp add: lower_def unleet_def leet_def)
  then have "map lower (map unleet s) = s"
    using all steady_later(3) by (auto simp: comp_def intro!: map_idI)
  then show ?thesis
    using collapse_steady [OF assms] compose_steady [of s] all entities
    by (simp add: normalize_chars_def fold collapse_whitespace_def normalize_leetspeak_def list_all_iff)
qed

subsection \<open>What comes out\<close>

definition normal_char :: "int \<Rightarrow> bool" where
  "normal_char c \<longleftrightarrow> \<not> (65 \<le> c \<and> c \<le> 90) \<and> c \<notin> {48, 49, 51, 52, 53, 55, 64}"

lemma lower_unleet_normal: "normal_char (lower (unleet c))"
  by (simp add: normal_char_def unleet_def leet_def lower_def)

lemma normalize_normal: "c \<in> set (normalize_chars s) \<Longrightarrow> normal_char c"
  by (auto simp: normalize_chars_def normalize_leetspeak_def lower_unleet_normal)

text \<open>Characters that are dropped, and characters that look like another one, leave no trace.\<close>

lemma normalize_fold: "concat (map fold_char s) = concat (map fold_char t) \<Longrightarrow> normalize_chars s = normalize_chars t"
  by (simp add: normalize_chars_def)

subsection \<open>Percent signs\<close>

text \<open>
  A percent sign anywhere, even one that encodes nothing, makes the decoder push the literal bytes of a
  character that is not ASCII one at a time, and each becomes a replacement character.
\<close>

fun no_escape :: "rstr \<Rightarrow> bool" where
  "no_escape [] \<longleftrightarrow> True"
| "no_escape (c # s) \<longleftrightarrow> (c = CHR ''%'' \<longrightarrow> hex_pair s = None) \<and> no_escape s"

lemma chars_byte: "127 < byte c \<Longrightarrow> chars [c] = [0xFFFD]"
  by (simp add: chars.simps Let_def)

lemma percent_literals:
  assumes "no_escape s"
  shows "percent_from [] s = map (\<lambda>c. if byte c \<le> 127 then of_char c else 0xFFFD) s"
proof -
  have "percent_from held s = chars held @ map (\<lambda>c. if byte c \<le> 127 then of_char c else 0xFFFD) s" for held
    using assms by (induction s arbitrary: held) (auto simp: chars_byte)
  then show ?thesis by simp
qed

end
