(* ===== verification/Injection_Detect.thy ===== *)
theory Injection_Detect
  imports Injection_Patterns
begin

text \<open>
  The detector of injection signals (\<open>src/src/security/external_content/detect.rs\<close>, \<open>types.rs\<close>). The
  base64 decoders of the \<open>base64\<close> crate are a parameter, the list of the four in the order they are
  tried. The classifier is the answer it gives for a text, if it is there, is ready and answers: whether it
  sees an injection above the threshold.
\<close>

record injection_signals =
  has_marker_collision :: bool
  has_instruction_override :: bool
  has_privilege_escalation :: bool
  has_secret_exfiltration :: bool
  has_high_confidence_secret_exfiltration :: bool
  has_tool_jailbreak :: bool

definition has_any_injection :: "injection_signals \<Rightarrow> bool" where
  "has_any_injection g \<longleftrightarrow> has_instruction_override g \<or> has_privilege_escalation g \<or> has_secret_exfiltration g \<or>
     has_high_confidence_secret_exfiltration g \<or> has_tool_jailbreak g"

datatype external_action = AllowContent | SanitizeContent | BlockContent

definition external_action_str :: "external_action \<Rightarrow> rstr" where
  "external_action_str a = (case a of AllowContent \<Rightarrow> ''allow'' | SanitizeContent \<Rightarrow> ''sanitize'' | BlockContent \<Rightarrow> ''block'')"

definition open_marker_prefix :: rstr where
  "open_marker_prefix = ''[[external-content:''"

definition close_marker :: rstr where
  "close_marker = ''[[/external-content]]''"

definition max_detection_input_bytes :: nat where
  "max_detection_input_bytes = 256 * 1024"

subsection \<open>The bounded text\<close>

text \<open>The first character boundary at or after an index, by the bytes that are left.\<close>

fun boundary_after :: "rstr \<Rightarrow> nat \<Rightarrow> nat \<Rightarrow> nat" where
  "boundary_after s i 0 = i"
| "boundary_after s i (Suc n) = (if is_char_boundary s i then i else boundary_after s (i + 1) n)"

fun boundary_down :: "rstr \<Rightarrow> nat \<Rightarrow> nat \<Rightarrow> nat" where
  "boundary_down s lo 0 = 0"
| "boundary_down s lo (Suc i) = (if lo < Suc i \<and> \<not> is_char_boundary s (Suc i) then boundary_down s lo i else Suc i)"

definition slice :: "rstr \<Rightarrow> nat \<Rightarrow> nat \<Rightarrow> rstr" where
  "slice s a b = take (b - a) (drop a s)"

definition bounded_detection_text :: "rstr \<Rightarrow> rstr" where
  "bounded_detection_text text =
     (let window = max_detection_input_bytes div 3; len = length text;
          head_end = boundary_down text 0 (min window len);
          mid = len div 2 - window div 2;
          mid_start = boundary_after text mid (len - mid);
          mid_end = boundary_down text mid_start (min (mid_start + window) len);
          tail = len - window;
          tail_start = boundary_after text tail (len - tail)
      in take head_end text @ [nl] @ ''[[external-content-truncated-head]]'' @ [nl] @ slice text mid_start mid_end @
         [nl] @ ''[[external-content-truncated-tail]]'' @ [nl] @ drop tail_start text)"

subsection \<open>Checks\<close>

text \<open>A match of each of the five lists is added to the signals.\<close>

definition add_matches :: "(utext \<Rightarrow> bool) \<Rightarrow> injection_signals \<Rightarrow> injection_signals" where
  "add_matches found g =
     g\<lparr>has_instruction_override := has_instruction_override g \<or> list_ex found instruction_override,
       has_privilege_escalation := has_privilege_escalation g \<or> list_ex found privilege_escalation,
       has_secret_exfiltration := has_secret_exfiltration g \<or> list_ex found secret_exfiltration,
       has_high_confidence_secret_exfiltration :=
         has_high_confidence_secret_exfiltration g \<or> list_ex found high_confidence_secret_exfiltration,
       has_tool_jailbreak := has_tool_jailbreak g \<or> list_ex found tool_jailbreak\<rparr>"

definition no_signals :: injection_signals where
  "no_signals = \<lparr>has_marker_collision = False, has_instruction_override = False, has_privilege_escalation = False,
     has_secret_exfiltration = False, has_high_confidence_secret_exfiltration = False, has_tool_jailbreak = False\<rparr>"

definition check_reversed :: "utext \<Rightarrow> injection_signals \<Rightarrow> injection_signals" where
  "check_reversed normalized = add_matches (\<lambda>p. sublist p (rev normalized))"

definition spaceless :: "utext \<Rightarrow> utext" where
  "spaceless s = filter (\<lambda>c. \<not> is_whitespace c) s"

definition check_spaceless :: "utext \<Rightarrow> injection_signals \<Rightarrow> injection_signals" where
  "check_spaceless normalized = add_matches (\<lambda>p. sublist (spaceless p) (spaceless normalized))"

definition is_b64 :: "char \<Rightarrow> bool" where
  "is_b64 c \<longleftrightarrow> is_ascii_alphanumeric c \<or> c \<in> {CHR ''+'', CHR ''/'', CHR ''='', CHR ''-'', CHR ''_''}"

text \<open>The runs of such bytes that are long enough; \<open>run\<close> is the current one, reversed.\<close>

fun b64_runs :: "rstr \<Rightarrow> rstr \<Rightarrow> rstr list" where
  "b64_runs run [] = (if run \<noteq> [] \<and> 16 \<le> length run then [rev run] else [])"
| "b64_runs run (c # s) =
     (if is_b64 c then b64_runs (c # run) s
      else (if run \<noteq> [] \<and> 16 \<le> length run then [rev run] else []) @ b64_runs [] s)"

definition is_separator :: "char \<Rightarrow> bool" where
  "is_separator c \<longleftrightarrow> is_ascii_ws c \<and> c \<noteq> CHR 0x0B"

definition collapsed_segment :: "rstr \<Rightarrow> rstr list" where
  "collapsed_segment run =
     (if run \<noteq> [] \<and> 16 \<le> length (filter is_b64 run) \<and> 0 < length (filter is_separator run) then [rev run] else [])"

text \<open>The same with white space inside, which starts no run.\<close>

fun collapsed_runs :: "rstr \<Rightarrow> rstr \<Rightarrow> rstr list" where
  "collapsed_runs run [] = collapsed_segment run"
| "collapsed_runs run (c # s) =
     (if is_b64 c \<or> is_separator c \<and> run \<noteq> [] then collapsed_runs (c # run) s
      else collapsed_segment run @ collapsed_runs [] s)"

definition extract_b64_segments :: "rstr \<Rightarrow> rstr list" where
  "extract_b64_segments text = b64_runs [] text @ collapsed_runs [] text"

type_synonym decoders = "(rstr \<Rightarrow> rstr option) list"

fun try_decode :: "decoders \<Rightarrow> rstr \<Rightarrow> rstr option" where
  "try_decode [] s = None"
| "try_decode (d # ds) s = (case d s of Some b \<Rightarrow> Some b | None \<Rightarrow> try_decode ds s)"

fun check_segments :: "decoders \<Rightarrow> rstr list \<Rightarrow> injection_signals \<Rightarrow> injection_signals" where
  "check_segments ds [] g = g"
| "check_segments ds (s # ss) g =
     (case try_decode ds (filter (\<lambda>c. \<not> is_ascii_ws c) s) of
        None \<Rightarrow> check_segments ds ss g
      | Some bytes \<Rightarrow>
          if is_valid_utf8 bytes
          then (let g = add_matches (\<lambda>p. sublist p (map lower (chars bytes))) g
                in if has_any_injection g then g else check_segments ds ss g)
          else check_segments ds ss g)"

definition check_base64 :: "decoders \<Rightarrow> rstr \<Rightarrow> injection_signals \<Rightarrow> injection_signals" where
  "check_base64 ds text = check_segments ds (extract_b64_segments text)"

definition detect_injection :: "decoders \<Rightarrow> rstr \<Rightarrow> injection_signals" where
  "detect_injection ds full =
     (let text = (if max_detection_input_bytes < length full then bounded_detection_text full else full);
          normalized = normalize_detection text;
          g = (add_matches (\<lambda>p. sublist p normalized) no_signals)
                \<lparr>has_marker_collision := contains text open_marker_prefix \<or> contains text close_marker\<rparr>;
          g = (if has_any_injection g then g else check_reversed normalized g);
          g = (if has_any_injection g then g else check_spaceless normalized g)
      in if has_any_injection g then g else check_base64 ds text g)"

definition decide_action :: "injection_signals \<Rightarrow> external_action" where
  "decide_action g =
     (if has_high_confidence_secret_exfiltration g \<or> has_privilege_escalation g \<or>
         has_secret_exfiltration g \<and> has_instruction_override g \<or> has_instruction_override g \<and> has_tool_jailbreak g
      then BlockContent
      else if has_marker_collision g \<or> has_instruction_override g \<or> has_secret_exfiltration g \<or> has_tool_jailbreak g
      then SanitizeContent else AllowContent)"

definition decide_external_action_with_classifier :: "injection_signals \<Rightarrow> bool option \<Rightarrow> external_action" where
  "decide_external_action_with_classifier g classified =
     (if decide_action g \<noteq> AllowContent then decide_action g
      else if classified = Some True then SanitizeContent else AllowContent)"

end
