(* ===== verification/Detection_Disguise.thy ===== *)
theory Detection_Disguise
  imports Injection_Detect
begin

text \<open>
  What the detector sees through: a pattern of lower-case letters and single spaces is found in every
  context, also when its letters are replaced by look-alikes and characters that are dropped are put
  between them. The lemmas follow the text through the phases of the normalisation.
\<close>

subsection \<open>Disguised texts\<close>

definition letter :: "int \<Rightarrow> bool" where
  "letter c \<longleftrightarrow> 97 \<le> c \<and> c \<le> 122"

text \<open>\<open>disguise d p\<close>: the characters \<open>d\<close> are read as the pattern \<open>p\<close>.\<close>

inductive disguise :: "utext \<Rightarrow> utext \<Rightarrow> bool" where
  nothing: "disguise [] []"
| dropped: "fold_char v = [] \<Longrightarrow> disguise d p \<Longrightarrow> disguise (v # d) p"
| looks_like: "fold_char v = [x] \<Longrightarrow> lower (unleet x) = c \<Longrightarrow> letter c \<Longrightarrow> disguise d p \<Longrightarrow> disguise (v # d) (c # p)"
| blank: "fold_char v = [x] \<Longrightarrow> is_whitespace x \<Longrightarrow> disguise d p \<Longrightarrow> disguise (v # d) (32 # p)"
| more_blank: "fold_char v = [x] \<Longrightarrow> is_whitespace x \<Longrightarrow> disguise d (32 # p) \<Longrightarrow> disguise (v # d) (32 # p)"

text \<open>The same after the folding of single characters.\<close>

inductive reads :: "utext \<Rightarrow> utext \<Rightarrow> bool" where
  reads_nothing: "reads [] []"
| reads_letter: "lower (unleet x) = c \<Longrightarrow> letter c \<Longrightarrow> reads f p \<Longrightarrow> reads (x # f) (c # p)"
| reads_blank: "is_whitespace x \<Longrightarrow> reads f p \<Longrightarrow> reads (x # f) (32 # p)"
| reads_more: "is_whitespace x \<Longrightarrow> reads f (32 # p) \<Longrightarrow> reads (x # f) (32 # p)"

lemma disguise_reads: "disguise d p \<Longrightarrow> reads (concat (map fold_char d)) p"
  by (induction rule: disguise.induct) (auto intro: reads.intros)

text \<open>What may stand for a letter before the last two phases.\<close>

lemma letter_source:
  assumes "letter (lower (unleet x))"
  shows "65 \<le> x \<and> x \<le> 90 \<or> 97 \<le> x \<and> x \<le> 122 \<or> x \<in> {48, 49, 51, 52, 53, 55, 64}"
  using assms by (auto simp: letter_def lower_def unleet_def leet_def split: if_splits)

definition readable :: "int \<Rightarrow> bool" where
  "readable x \<longleftrightarrow> is_whitespace x \<or> letter (lower (unleet x))"

lemma reads_readable: "reads f p \<Longrightarrow> x \<in> set f \<Longrightarrow> readable x"
  by (induction rule: reads.induct) (auto simp: readable_def)

lemma readable_plain:
  assumes "readable x"
  shows "x \<noteq> 0x3099" "x \<noteq> 0x309A" "compose_voicing x m = None" "x \<noteq> 38" "x \<noteq> 59"
proof -
  have "x \<le> 0x3000 \<and> x \<noteq> 38 \<and> x \<noteq> 59"
    using assms letter_source [of x] by (auto simp: readable_def is_whitespace_def)
  then show "x \<noteq> 0x3099" "x \<noteq> 0x309A" "x \<noteq> 38" "x \<noteq> 59" "compose_voicing x m = None"
    by (auto simp: compose_voicing_def dakuten_bases_def ha_row_def)
qed

subsection \<open>Through the phases\<close>

lemma compose_append:
  assumes "x \<noteq> 0x3099" "x \<noteq> 0x309A"
  shows "compose_katakana_voicing (a @ x # r) = compose_katakana_voicing a @ compose_katakana_voicing (x # r)"
proof (induction a rule: compose_katakana_voicing.induct)
  case (1 a b s)
  then show ?case by (auto split: option.splits)
qed (simp_all add: assms)

lemma compose_readable:
  "list_all readable f \<Longrightarrow> compose_katakana_voicing (f @ b) = f @ compose_katakana_voicing b"
proof (induction f)
  case (Cons x f)
  have "compose_katakana_voicing (x # s) = x # compose_katakana_voicing s" for s
    using readable_plain(3) [of x] Cons.prems by (cases s) auto
  then show ?case using Cons by simp
qed simp

lemma compose_context:
  assumes "list_all readable f"
  shows "\<exists>a' b'. compose_katakana_voicing (a @ f @ b) = a' @ f @ b'"
proof (cases f)
  case (Cons x g)
  then have "compose_katakana_voicing (a @ f @ b) = compose_katakana_voicing a @ compose_katakana_voicing (f @ b)"
    using compose_append [of x a "g @ b"] readable_plain(1,2) [of x] assms by simp
  then show ?thesis using compose_readable [OF assms] by auto
qed auto

lemma collapse_append: "\<exists>prev'. \<forall>t. collapse_from prev (s @ t) = collapse_from prev s @ collapse_from prev' t"
proof (induction s arbitrary: prev)
  case (Cons c s)
  from Cons.IH [of "is_whitespace c"] obtain prev' where
    "\<forall>t. collapse_from (is_whitespace c) (s @ t) = collapse_from (is_whitespace c) s @ collapse_from prev' t" ..
  then show ?case by (intro exI [of _ prev']) (cases "is_whitespace c"; simp)
qed auto

lemma letter_not_whitespace: "letter (lower (unleet x)) \<Longrightarrow> \<not> is_whitespace x"
  using letter_source [of x] by (auto simp: is_whitespace_def)

lemma reads_blank_head: "reads f (32 # p) \<Longrightarrow> \<exists>x g. f = x # g \<and> is_whitespace x"
  by (auto simp: letter_def elim: reads.cases)

lemma space_kept: "lower (unleet 32) = 32"
  by (simp add: lower_def unleet_def leet_def)

lemma collapse_reads:
  "reads f p \<Longrightarrow> steady_text prev p \<Longrightarrow> map (lower \<circ> unleet) (collapse_from prev f) = p"
proof (induction arbitrary: prev rule: reads.induct)
  case (reads_letter x c f p)
  then have "c \<noteq> 32" "\<not> is_whitespace x" using letter_not_whitespace [of x] by (auto simp: letter_def)
  then show ?case using reads_letter by simp
next
  case (reads_blank x f p)
  then show ?case by (simp add: space_kept)
next
  case (reads_more x f p)
  then have prev: "\<not> prev" "steady_text True p" by simp_all
  from reads_blank_head [OF reads_more(2)] obtain y g where f: "f = y # g" "is_whitespace y" by blast
  have "map (lower \<circ> unleet) (collapse_from False f) = 32 # p"
    using reads_more.IH [of False] prev by (simp add: comp_def)
  then have "map (lower \<circ> unleet) (collapse_from True f) = p" using f by simp
  then show ?case using prev reads_more(1) by (simp add: space_kept comp_def)
qed simp

lemma collapse_set: "x \<in> set (collapse_from prev f) \<Longrightarrow> x \<in> set f \<or> x = 32"
  by (induction prev f rule: collapse_from.induct) (auto split: if_splits)

subsection \<open>Entities\<close>

text \<open>The characters a recognised entity consists of.\<close>

definition entity_char :: "int \<Rightarrow> bool" where
  "entity_char c \<longleftrightarrow> 48 \<le> c \<and> c \<le> 57 \<or> 65 \<le> c \<and> c \<le> 70 \<or> 97 \<le> c \<and> c \<le> 102 \<or>
     c \<in> set (utf8 ''#xX+ltgampquos'')"

lemma digits_from_chars: "digits_from r acc s = Some n \<Longrightarrow> c \<in> set s \<Longrightarrow> entity_char c"
  by (induction r acc s rule: digits_from.induct)
    (auto simp: digit_of_def entity_char_def split: option.splits if_splits)

lemma from_str_radix_chars: "from_str_radix r s = Some n \<Longrightarrow> c \<in> set s \<Longrightarrow> entity_char c"
proof -
  assume *: "from_str_radix r s = Some n" "c \<in> set s"
  define ds where "ds = (case s of c # r \<Rightarrow> if c = of_char (CHR ''+'') then r else s | [] \<Rightarrow> [])"
  then have ds: "digits_from r 0 ds = Some n" "set s \<subseteq> insert (of_char (CHR ''+'')) (set ds)"
    using * by (auto simp: from_str_radix_def Let_def simp del: digits_from.simps split: if_splits list.splits)
  have "entity_char (of_char (CHR ''+''))" by (simp add: entity_char_def)
  then show ?thesis using ds *(2) digits_from_chars [OF ds(1)] by blast
qed

lemma resolve_entity_chars:
  assumes "resolve_entity name = Some d" "c \<in> set name"
  shows "entity_char c"
proof -
  have split: "c \<in> set (take k name) \<or> c \<in> set (drop k name)" for k
    using assms(2) by (metis append_take_drop_id set_append Un_iff)
  have hash: "entity_char x" if "x \<in> set (utf8 ''#xX'')" for x
    using that by (auto simp: entity_char_def)
  consider n where "prefix (utf8 ''#'') name" "from_str_radix 10 (drop 1 name) = Some n"
    | n where "prefix (utf8 ''#x'') name \<or> prefix (utf8 ''#X'') name" "from_str_radix 16 (drop 2 name) = Some n"
    | e where "map_of named_entities name = Some e"
    using assms(1) by (auto simp: resolve_entity_def split: option.splits if_splits)
  then show ?thesis
  proof cases
    case 1
    then have "set (take 1 name) \<subseteq> set (utf8 ''#xX'')" by (auto simp: prefix_def)
    then show ?thesis using split [of 1] hash from_str_radix_chars [OF 1(2)] by blast
  next
    case 2
    then have "set (take 2 name) \<subseteq> set (utf8 ''#xX'')" by (auto simp: prefix_def)
    then show ?thesis using split [of 2] hash from_str_radix_chars [OF 2(2)] by blast
  next
    case 3
    have "list_all (\<lambda>(n, _). list_all entity_char n) named_entities" by code_simp
    then show ?thesis using map_of_SomeD [OF 3] assms(2) by (auto simp: list_all_iff)
  qed
qed

lemma takeWhile_through: "list_all P a \<Longrightarrow> takeWhile P (a @ b) = a @ takeWhile P b"
  by (induction a) auto

lemma decode_no_amp: "38 \<notin> set g \<Longrightarrow> decode_entities (g @ b) = g @ decode_entities b"
  by (induction g) auto

lemma decode_through:
  assumes "38 \<notin> set g" "59 \<notin> set g" "x \<in> set g" "\<not> entity_char x"
  shows "\<exists>a' b'. decode_entities (a @ g @ b) = a' @ g @ b'"
proof (induction a rule: length_induct)
  case (1 a)
  show ?case
  proof (cases a)
    case Nil
    then show ?thesis
      using decode_no_amp [OF assms(1), of b] by (intro exI [of _ "[]"] exI [of _ "decode_entities b"]) simp
  next
    case (Cons c r)
    then obtain a' b' where r: "decode_entities (r @ g @ b) = a' @ g @ b'" using 1 by auto
    show ?thesis
    proof (cases "c = 38")
      case False
      then show ?thesis using r Cons by (intro exI [of _ "c # a'"] exI [of _ b']) simp
    next
      case amp: True
      show ?thesis
      proof (cases "entity_at (r @ g @ b)")
        case None
        then show ?thesis using r Cons amp by (intro exI [of _ "38 # a'"] exI [of _ b']) simp
      next
        case (Some e)
        then obtain d rest where e: "e = (d, rest)" by (cases e)
        let ?s = "r @ g @ b"
        let ?name = "takeWhile (\<lambda>c. c \<noteq> 59) (take 10 ?s)"
        have semi: "59 \<in> set (take 10 ?s)" and name: "resolve_entity ?name = Some d"
          and rest: "rest = drop (length ?name + 1) ?s"
          using Some e by (auto simp: entity_at_def Let_def split: if_splits)
        have "59 \<in> set (take 10 r)"
        proof (rule ccontr)
          assume no: "59 \<notin> set (take 10 r)"
          have "length r < 10"
            using semi no by (cases "length r < 10") auto
          then have short: "take 10 ?s = r @ take (10 - length r) (g @ b)" by simp
          have long: "length g < 10 - length r"
          proof (rule ccontr)
            assume "\<not> length g < 10 - length r"
            then have "take (10 - length r) (g @ b) = take (10 - length r) g" by simp
            then show False using semi short no assms(2) \<open>length r < 10\<close> by (auto dest: in_set_takeD)
          qed
          have "list_all (\<lambda>c. c \<noteq> 59) (r @ g)"
            using no \<open>length r < 10\<close> assms(2) by (auto simp: list_all_iff)
          then have "?name = (r @ g) @ takeWhile (\<lambda>c. c \<noteq> 59) (take (10 - length r - length g) b)"
            using short long takeWhile_through [of "\<lambda>c. c \<noteq> 59" "r @ g"] by simp
          then have "x \<in> set ?name" using assms(3) by simp
          then show False using resolve_entity_chars [OF name] assms(4) by blast
        qed
        then have len: "length ?name < length r"
        proof -
          obtain u v where u: "take 10 r = u @ 59 # v" "59 \<notin> set u"
            using \<open>59 \<in> set (take 10 r)\<close> by (meson split_list_first)
          have "take 10 ?s = u @ 59 # (v @ take (10 - length r) (g @ b))" using u by simp
          moreover have "list_all (\<lambda>c. c \<noteq> 59) u" using u(2) by (auto simp: list_all_iff)
          ultimately have "?name = u" by (simp add: takeWhile_through)
          moreover have "length u < length (take 10 r)" by (simp add: u)
          ultimately show ?thesis by simp
        qed
        then have "rest = drop (length ?name + 1) r @ g @ b" using rest by simp
        moreover have "length (drop (length ?name + 1) r) < length a" using Cons by simp
        ultimately obtain a2 b2 where "decode_entities rest = a2 @ g @ b2" using 1 by metis
        then have "decode_entities (a @ g @ b) = ((if is_invisible d then [] else [d]) @ a2) @ g @ b2"
          using Cons amp Some e by simp
        then show ?thesis by blast
      qed
    qed
  qed
qed

subsection \<open>Patterns in context\<close>

text \<open>The patterns of letters and single spaces that no entity can swallow.\<close>

definition barrier :: "int \<Rightarrow> bool" where
  "barrier c \<longleftrightarrow> c = 32 \<or> c = 104 \<or> c = 107 \<or> c = 110 \<or> c = 114 \<or> c = 118 \<or> c = 119 \<or> c = 121"

definition guarded :: "utext \<Rightarrow> bool" where
  "guarded p \<longleftrightarrow> p \<noteq> [] \<and> hd p \<noteq> 32 \<and> steady_text False p \<and> list_ex barrier p"

lemma patterns_barrier: "list_all (\<lambda>p. p \<noteq> [] \<and> hd p \<noteq> 32 \<and> (list_ex barrier p \<or> list_ex (\<lambda>c. 127 < c) p)) all_patterns"
  unfolding all_patterns_def list_all_append
  by (intro conjI)
    (simp_all add: instruction_override_def privilege_escalation_def secret_exfiltration_def
      high_confidence_secret_exfiltration_def tool_jailbreak_def poison_patterns_def barrier_def)

lemma patterns_guarded:
  "p \<in> set all_patterns \<Longrightarrow> p \<noteq> rot13_pattern \<Longrightarrow> list_all (\<lambda>c. c \<le> 127) p \<Longrightarrow> guarded p"
  using patterns_barrier patterns_steady by (force simp: list_all_iff list_ex_iff guarded_def)

lemma steady_text_any: "p = [] \<or> hd p \<noteq> 32 \<Longrightarrow> steady_text False p \<Longrightarrow> steady_text b p"
  by (cases p) auto

lemma no_entity_source:
  assumes "barrier (lower (unleet x))"
  shows "\<not> entity_char x"
proof -
  have "unleet x = x \<or> unleet x \<in> {111, 105, 101, 97, 115, 116}" by (simp add: unleet_def leet_def)
  then have "barrier (lower x)" using assms by (auto simp: barrier_def lower_def)
  then have "barrier x \<or> barrier (x + 32) \<and> x \<le> 90" by (simp add: lower_def split: if_splits)
  then have "x \<in> {32, 104, 107, 110, 114, 118, 119, 121} \<or> x \<in> {0, 72, 75, 78, 82, 86, 87, 89}"
    unfolding barrier_def by (elim disjE conjE) simp_all
  then show ?thesis by (elim disjE insertE emptyE) (simp_all add: entity_char_def)
qed

lemma normalize_context:
  assumes "disguise d p" "guarded p"
  shows "sublist p (normalize_chars (a @ d @ b))"
proof -
  let ?f = "concat (map fold_char d)"
  have f: "reads ?f p" by (rule disguise_reads [OF assms(1)])
  then have readable: "list_all readable ?f" using reads_readable by (auto simp: list_all_iff)
  obtain a1 b1 where "compose_katakana_voicing (concat (map fold_char (a @ d @ b))) = a1 @ ?f @ b1"
    using compose_context [OF readable] by fastforce
  moreover obtain g b2 a2 where "collapse_whitespace (a1 @ ?f @ b1) = a2 @ g @ b2" and
    g: "map (lower \<circ> unleet) g = p" "list_all readable g"
  proof -
    from collapse_append [of False a1] obtain prev where
      1: "collapse_from False (a1 @ t) = collapse_from False a1 @ collapse_from prev t" for t by blast
    from collapse_append [of prev ?f] obtain prev' where
      2: "collapse_from prev (?f @ t) = collapse_from prev ?f @ collapse_from prev' t" for t by blast
    have "steady_text prev p" using assms(2) steady_text_any [of p prev] by (simp add: guarded_def)
    then have "map (lower \<circ> unleet) (collapse_from prev ?f) = p" by (rule collapse_reads [OF f])
    moreover have "readable 32" by (simp add: readable_def is_whitespace_def)
    then have "list_all readable (collapse_from prev ?f)"
      using readable collapse_set [of _ prev ?f] unfolding list_all_iff by blast
    ultimately show ?thesis using that 1 2 by (simp add: collapse_whitespace_def)
  qed
  moreover obtain a3 b3 where "decode_html_entities (a2 @ g @ b2) = a3 @ g @ b3"
  proof (cases "38 \<in> set (a2 @ g @ b2)")
    case False
    then show ?thesis using that [of a2 b2] by (simp add: decode_html_entities_def)
  next
    case True
    have "list_ex barrier (map (lower \<circ> unleet) g)" using assms(2) unfolding g(1) guarded_def by simp
    then obtain x where "x \<in> set g" "barrier (lower (unleet x))" by (auto simp: list_ex_iff)
    then have "x \<in> set g" "\<not> entity_char x" using no_entity_source by blast+
    moreover have "38 \<notin> set g" "59 \<notin> set g" using g(2) readable_plain(4,5) by (auto simp: list_all_iff)
    ultimately show ?thesis
      using decode_through [of g x a2 b2] True that by (auto simp: decode_html_entities_def)
  qed
  ultimately have "normalize_chars (a @ d @ b) = map (lower \<circ> unleet) (a3 @ g @ b3)"
    by (simp add: normalize_chars_def normalize_leetspeak_def comp_def)
  then have "normalize_chars (a @ d @ b) = map (lower \<circ> unleet) a3 @ p @ map (lower \<circ> unleet) b3"
    using g(1) by simp
  then show ?thesis by (metis sublist_appendI)
qed

subsection \<open>Detection\<close>

definition detector_patterns :: "utext list" where
  "detector_patterns = instruction_override @ privilege_escalation @ secret_exfiltration @
     high_confidence_secret_exfiltration @ tool_jailbreak"

lemma detector_patterns_all: "set detector_patterns \<subseteq> set all_patterns"
  by (auto simp: detector_patterns_def all_patterns_def)

lemma disguise_letters: "disguise d p \<Longrightarrow> list_all (\<lambda>c. letter c \<or> c = 32) p"
  by (induction rule: disguise.induct) auto

lemma disguise_ascii: "disguise d p \<Longrightarrow> list_all (\<lambda>c. c \<le> 127) p"
  using disguise_letters [of d p] by (auto simp: list_all_iff letter_def)

lemma rot13_not_disguised: "\<not> disguise d rot13_pattern"
  using disguise_letters [of d rot13_pattern] by (auto simp: rot13_pattern_def letter_def)

lemma detect_primary:
  assumes "length text \<le> max_detection_input_bytes" "p \<in> set detector_patterns" "sublist p (normalize_detection text)"
  shows "detect_injection ds text =
    (add_matches (\<lambda>p. sublist p (normalize_detection text)) no_signals)
      \<lparr>has_marker_collision := contains text open_marker_prefix \<or> contains text close_marker\<rparr>"
proof -
  let ?found = "\<lambda>p. sublist p (normalize_detection text)"
  have "list_ex ?found detector_patterns" using assms(2,3) by (auto simp: list_ex_iff)
  then have "has_any_injection ((add_matches ?found no_signals)
      \<lparr>has_marker_collision := contains text open_marker_prefix \<or> contains text close_marker\<rparr>)"
    by (simp add: detector_patterns_def has_any_injection_def add_matches_def no_signals_def disj_ac)
  then show ?thesis using assms(1) by (simp add: detect_injection_def)
qed

text \<open>C29: disguises of the plain patterns, those of the tables that consist of lower-case ASCII letters and
  spaces only. In a text without percent signs that is not longer than the bound, such a pattern is found
  wherever it stands and whatever is around it, also when its letters are written as capitals, full-width,
  Cyrillic, Greek, mathematical or superscript look-alikes or as digits, its spaces as dots, hyphens,
  underscores or any white space, and when invisible characters, combining marks, emoji or markdown signs
  are put between them: such a text is never let through unchanged, and it is blocked when the pattern is
  one of privilege escalation or of high-confidence exfiltration. Nothing is said of the other patterns
  of the tables, which hold a digit, a sign or a letter outside ASCII; one of them, \<open>convert to rot13\<close>,
  never matches at all (theorem \<open>patterns_that_match\<close>).\<close>

theorem disguised_pattern_detected:
  assumes "disguise d p" "p \<in> set detector_patterns"
    and "chars text = a @ d @ b" "CHR ''%'' \<notin> set text" "length text \<le> max_detection_input_bytes"
  shows "decide_action (detect_injection ds text) \<noteq> AllowContent \<and>
    (p \<in> set privilege_escalation \<union> set high_confidence_secret_exfiltration \<longrightarrow>
       decide_action (detect_injection ds text) = BlockContent)"
proof -
  have "p \<noteq> rot13_pattern" using assms(1) rot13_not_disguised by auto
  then have "guarded p"
    using patterns_guarded detector_patterns_all assms(2) disguise_ascii [OF assms(1)] by blast
  then have found: "sublist p (normalize_detection text)"
    using normalize_context [OF assms(1)] assms(3,4) by (simp add: normalize_detection_def decode_percent_encoding_def)
  let ?found = "\<lambda>p. sublist p (normalize_detection text)"
  have "list_ex ?found instruction_override \<or> list_ex ?found privilege_escalation \<or> list_ex ?found secret_exfiltration \<or>
      list_ex ?found high_confidence_secret_exfiltration \<or> list_ex ?found tool_jailbreak"
    using assms(2) found by (auto simp: list_ex_iff detector_patterns_def)
  moreover have "list_ex ?found privilege_escalation \<or> list_ex ?found high_confidence_secret_exfiltration"
    if "p \<in> set privilege_escalation \<union> set high_confidence_secret_exfiltration"
    using that found by (auto simp: list_ex_iff)
  ultimately show ?thesis
    unfolding detect_primary [OF assms(5,2) found] by (auto simp: decide_action_def add_matches_def no_signals_def)
qed

definition reads_as :: "int \<Rightarrow> int \<Rightarrow> bool" where
  "reads_as v c \<longleftrightarrow> (case fold_char v of [x] \<Rightarrow> lower (unleet x) = c \<and> letter c \<or> is_whitespace x \<and> c = 32 | _ \<Rightarrow> False)"

lemma disguise_by_chars: "list_all2 reads_as d p \<Longrightarrow> disguise d p"
  by (induction rule: list_all2_induct)
    (auto simp: reads_as_def intro: disguise.intros split: list.splits)

lemma disguised_pattern_detected_witness:
  "decide_action (detect_injection [] ''Use 5UDO-m0de!'') = BlockContent"
proof -
  have "disguise (utf8 ''5UDO-m0de'') (utf8 ''sudo mode'')"
    by (rule disguise_by_chars) code_simp
  moreover have "utf8 ''sudo mode'' \<in> set privilege_escalation" by (simp add: privilege_escalation_def)
  moreover have "chars ''Use 5UDO-m0de!'' = utf8 ''Use '' @ utf8 ''5UDO-m0de'' @ utf8 ''!''" by code_simp
  ultimately show ?thesis
    using disguised_pattern_detected [of "utf8 ''5UDO-m0de''" "utf8 ''sudo mode''" "''Use 5UDO-m0de!''"
        "utf8 ''Use ''" "utf8 ''!''" "[]"]
    by (simp add: detector_patterns_def max_detection_input_bytes_def)
qed

text \<open>
  One percent sign blinds the detector for every pattern and look-alike that is not ASCII: the text
  for lifting the restrictions is blocked, and let through when a percent sign follows it.
\<close>

definition lift_restrictions :: rstr where
  "lift_restrictions = [CHR 0xE5, CHR 0x88, CHR 0xB6, CHR 0xE9, CHR 0x99, CHR 0x90, CHR 0xE3, CHR 0x82, CHR 0x92,
     CHR 0xE8, CHR 0xA7, CHR 0xA3, CHR 0xE9, CHR 0x99, CHR 0xA4]"

lemma percent_blinds_detector:
  "chars lift_restrictions \<in> set privilege_escalation"
  "normalize_detection lift_restrictions = chars lift_restrictions"
  "normalize_detection (lift_restrictions @ ''%'') = replicate 15 0xFFFD @ [37]"
  by code_simp+

text \<open>
  Entities are decoded after single characters were folded, so that a look-alike or a delimiter written as
  an entity is kept.
\<close>

lemma entity_not_folded:
  "normalize_detection ''exfiltr&#1072;te'' = utf8 ''exfiltr'' @ [0x430] @ utf8 ''te''"
  "normalize_detection ''sudo&#45;mode'' = utf8 ''sudo-mode''"
  by code_simp+

end
