(* ===== verification/Writeback_Guard.thy ===== *)
theory Writeback_Guard
  imports Memory_Tools Scrub Detection_Disguise
begin

text \<open>
  The writeback guard (\<open>src/src/security/writeback_guard/validation.rs\<close>, \<open>field_validators.rs\<close>,
  \<open>profile_validators.rs\<close>, \<open>types.rs\<close>) with its limits (\<open>src/src/contracts/strings/limits.rs\<close>): the
  validation of what the model wants to write to its own state. An object is the list of its fields in the order of
  the map. Parameters: the RFC 3339 parser of \<open>chrono\<close>, to nanoseconds, and which characters outside
  ASCII are alphanumeric.
\<close>

subsection \<open>Limits and verdicts\<close>

definition max_current_objective_chars :: nat where "max_current_objective_chars = 280"
definition max_recent_context_summary_chars :: nat where "max_recent_context_summary_chars = 1200"
definition max_list_item_chars :: nat where "max_list_item_chars = 240"
definition max_memory_append_items :: nat where "max_memory_append_items = 8"
definition max_memory_append_item_chars :: nat where "max_memory_append_item_chars = 240"
definition max_self_tasks :: nat where "max_self_tasks = 5"
definition max_self_task_title_chars :: nat where "max_self_task_title_chars = 120"
definition max_self_task_instructions_chars :: nat where "max_self_task_instructions_chars = 240"
definition max_self_task_expiry_hours :: int where "max_self_task_expiry_hours = 72"
definition style_score_max :: nat where "style_score_max = 100"
definition max_open_loops :: nat where "max_open_loops = 7"
definition max_next_actions :: nat where "max_next_actions = 5"
definition max_commitments :: nat where "max_commitments = 5"

lemmas limits = max_current_objective_chars_def max_recent_context_summary_chars_def max_list_item_chars_def
  max_memory_append_items_def max_memory_append_item_chars_def max_self_tasks_def max_self_task_title_chars_def
  max_self_task_instructions_chars_def max_self_task_expiry_hours_def style_score_max_def max_open_loops_def
  max_next_actions_def max_commitments_def

definition allowed_top_level_fields :: "rstr list" where
  "allowed_top_level_fields =
     [''state_header'', ''memory_append'', ''self_tasks'', ''style_profile'', ''memory_inferences'', ''user_inferences'']"

definition forbidden_top_level_source_fields :: "rstr list" where
  "forbidden_top_level_source_fields = [''source_kind'', ''source_ref'']"

definition allowed_state_header_fields :: "rstr list" where
  "allowed_state_header_fields =
     [''identity_principles_hash'', ''safety_posture'', ''current_objective'', ''open_loops'', ''next_actions'',
      ''commitments'', ''recent_context_summary'', ''last_updated_at'']"

record immutable_header =
  schema_version :: u32
  identity_principles_hash :: rstr
  safety_posture :: rstr

record state_header =
  current_objective :: rstr
  open_loops :: "rstr list"
  next_actions :: "rstr list"
  commitments :: "rstr list"
  recent_context_summary :: rstr
  last_updated_at :: rstr

record self_task =
  title :: rstr
  instructions :: rstr
  expires_at :: rstr

record style_writeback =
  formality :: nat
  verbosity :: nat
  temperature :: rat

record inference_entry =
  inf_slot :: rstr
  inf_value :: rstr

record writeback_payload =
  wb_header :: state_header
  memory_append :: "rstr list"
  self_tasks :: "self_task list"
  style_profile :: "style_writeback option"
  memory_inferences :: "inference_entry list"
  user_inferences :: "inference_entry list"

datatype writeback_verdict = Accepted writeback_payload | Rejected rstr

record allowed_slot =
  slot :: rstr
  source_rationale :: rstr

type_synonym fields = "(rstr \<times> json) list"

definition and_then :: "('e, 'a) result \<Rightarrow> ('a \<Rightarrow> ('e, 'b) result) \<Rightarrow> ('e, 'b) result" where
  "and_then r f = (case r of Err e \<Rightarrow> Err e | Ok a \<Rightarrow> f a)"

lemma and_then_Ok: "and_then r f = Ok b \<longleftrightarrow> (\<exists>a. r = Ok a \<and> f a = Ok b)"
  by (auto simp: and_then_def split: sum.splits)

text \<open>A loop over numbered items that stops at the first error.\<close>

fun each_item :: "(nat \<Rightarrow> json \<Rightarrow> ('e, 'a) result) \<Rightarrow> nat \<Rightarrow> json list \<Rightarrow> ('e, 'a list) result" where
  "each_item f i [] = Ok []"
| "each_item f i (x # xs) = and_then (f i x) (\<lambda>a. and_then (each_item f (i + 1) xs) (\<lambda>as. Ok (a # as)))"

fun as_object :: "json \<Rightarrow> fields option" where
  "as_object (JObject m) = Some m"
| "as_object _ = None"

subsection \<open>Fields\<close>

definition reject :: "rstr \<Rightarrow> writeback_verdict" where
  "reject reason = Rejected (sanitize_api_error reason)"

definition contains_poison_pattern :: "rstr \<Rightarrow> bool" where
  "contains_poison_pattern input = list_ex (\<lambda>p. sublist p (normalize_detection input)) poison_patterns"

definition ensure_no_unknown_fields :: "fields \<Rightarrow> rstr list \<Rightarrow> rstr \<Rightarrow> (rstr, unit) result" where
  "ensure_no_unknown_fields obj allowed ctx =
     (case find (\<lambda>k. k \<notin> set allowed) (map fst obj) of
        Some k \<Rightarrow> Err (ctx @ '' contains unknown field: '' @ k) | None \<Rightarrow> Ok ())"

definition too_long :: "rstr \<Rightarrow> nat \<Rightarrow> bool" where
  "too_long s n \<longleftrightarrow> n < length s \<and> n < length (chars s)"

text \<open>The checks of one text, named \<open>what\<close> in the messages.\<close>

definition check_text :: "rstr \<Rightarrow> nat \<Rightarrow> rstr \<Rightarrow> (rstr, rstr) result" where
  "check_text raw max_chars what =
     (let sanitized = trim raw in
      if sanitized = [] then Err (what @ '' cannot be empty'')
      else if too_long sanitized max_chars then Err (what @ '' exceeds max length ('' @ decimal max_chars @ '')'')
      else if contains_poison_pattern sanitized then Err (what @ '' contains unsafe content pattern'')
      else Ok sanitized)"

definition numbered :: "rstr \<Rightarrow> nat \<Rightarrow> rstr" where
  "numbered what i = what @ ''['' @ decimal i @ '']''"

definition validate_str :: "fields \<Rightarrow> rstr \<Rightarrow> nat \<Rightarrow> rstr \<Rightarrow> (rstr, rstr) result" where
  "validate_str obj field max_chars ctx =
     (case map_of obj field of
        None \<Rightarrow> Err (ctx @ ''.'' @ field @ '' is required'')
      | Some v \<Rightarrow>
          (case as_str v of
             None \<Rightarrow> Err (ctx @ ''.'' @ field @ '' must be a string'')
           | Some raw \<Rightarrow> check_text raw max_chars (ctx @ ''.'' @ field)))"

definition validate_str_item :: "rstr \<Rightarrow> nat \<Rightarrow> json \<Rightarrow> (rstr, rstr) result" where
  "validate_str_item what i item =
     (case as_str item of
        None \<Rightarrow> Err (numbered what i @ '' must be a string'')
      | Some raw \<Rightarrow> check_text raw max_list_item_chars (numbered what i))"

definition validate_str_array :: "fields \<Rightarrow> rstr \<Rightarrow> nat \<Rightarrow> rstr \<Rightarrow> (rstr, rstr list) result" where
  "validate_str_array obj field max_items ctx =
     (case map_of obj field of
        None \<Rightarrow> Err (ctx @ ''.'' @ field @ '' is required'')
      | Some v \<Rightarrow>
          (case as_array v of
             None \<Rightarrow> Err (ctx @ ''.'' @ field @ '' must be an array'')
           | Some items \<Rightarrow>
               if max_items < length items
               then Err (ctx @ ''.'' @ field @ '' exceeds max items ('' @ decimal max_items @ '')'')
               else each_item (validate_str_item (ctx @ ''.'' @ field)) 0 items))"

subsection \<open>Header and style\<close>

definition style_score :: "fields \<Rightarrow> rstr \<Rightarrow> (rstr, nat) result" where
  "style_score obj field =
     (case Option.bind (map_of obj field) as_u64 of
        None \<Rightarrow> Err (''payload.style_profile.'' @ field @ '' must be an integer'')
      | Some n \<Rightarrow>
          if style_score_max < n
          then Err (''payload.style_profile.'' @ field @ '' must be in safe range [0, 100]'') else Ok n)"

definition validate_style_profile :: "fields \<Rightarrow> (rstr, style_writeback option) result" where
  "validate_style_profile obj =
     (case map_of obj ''style_profile'' of
        None \<Rightarrow> Ok None
      | Some raw \<Rightarrow>
          (case as_object raw of
             None \<Rightarrow> Err ''payload.style_profile must be an object''
           | Some style \<Rightarrow>
               and_then (ensure_no_unknown_fields style [''formality'', ''verbosity'', ''temperature''] ''payload.style_profile'')
                 (\<lambda>_. and_then (style_score style ''formality'')
                 (\<lambda>f. and_then (style_score style ''verbosity'')
                 (\<lambda>v. case Option.bind (map_of style ''temperature'') as_f64 of
                        None \<Rightarrow> Err ''payload.style_profile.temperature must be a number''
                      | Some t \<Rightarrow>
                          if t < 0 \<or> 1 < t
                          then Err ''payload.style_profile.temperature must be in safe range [0, 1]''
                          else Ok (Some \<lparr>formality = f, verbosity = v, temperature = t\<rparr>))))))"

definition immutable_field :: "fields \<Rightarrow> rstr \<Rightarrow> rstr \<Rightarrow> (rstr, unit) result" where
  "immutable_field obj field expected =
     (case Option.bind (map_of obj field) as_str of
        None \<Rightarrow> Err (''payload.state_header.'' @ field @ '' must be a string'')
      | Some s \<Rightarrow>
          if s \<noteq> expected then Err (''immutable field mismatch: payload.state_header.'' @ field) else Ok ())"

definition validate_last_updated_at :: "(rstr \<Rightarrow> int option) \<Rightarrow> rstr \<Rightarrow> (rstr, unit) result" where
  "validate_last_updated_at rfc3339 value =
     (case rfc3339 value of
        Some _ \<Rightarrow> Ok () | None \<Rightarrow> Err ''payload.state_header.last_updated_at must be RFC3339'')"

definition validate_state_header ::
    "(rstr \<Rightarrow> int option) \<Rightarrow> fields \<Rightarrow> immutable_header \<Rightarrow> (rstr, state_header) result" where
  "validate_state_header rfc3339 obj imm =
     and_then (ensure_no_unknown_fields obj allowed_state_header_fields ''payload.state_header'')
     (\<lambda>_. and_then (immutable_field obj ''identity_principles_hash'' (identity_principles_hash imm))
     (\<lambda>_. and_then (immutable_field obj ''safety_posture'' (safety_posture imm))
     (\<lambda>_. and_then (validate_str obj ''current_objective'' max_current_objective_chars ''payload.state_header'')
     (\<lambda>objective. and_then (validate_str_array obj ''open_loops'' max_open_loops ''payload.state_header'')
     (\<lambda>loops. and_then (validate_str_array obj ''next_actions'' max_next_actions ''payload.state_header'')
     (\<lambda>actions. and_then (validate_str_array obj ''commitments'' max_commitments ''payload.state_header'')
     (\<lambda>promises. and_then (validate_str obj ''recent_context_summary'' max_recent_context_summary_chars ''payload.state_header'')
     (\<lambda>summary. and_then (validate_str obj ''last_updated_at'' 64 ''payload.state_header'')
     (\<lambda>updated. and_then (validate_last_updated_at rfc3339 updated)
     (\<lambda>_. Ok \<lparr>current_objective = objective, open_loops = loops, next_actions = actions, commitments = promises,
              recent_context_summary = summary, last_updated_at = updated\<rparr>))))))))))"

subsection \<open>Sections\<close>

definition validate_top_level_fields :: "fields \<Rightarrow> (rstr, unit) result" where
  "validate_top_level_fields obj =
     (case find (\<lambda>f. map_of obj f \<noteq> None) forbidden_top_level_source_fields of
        Some f \<Rightarrow> Err (''payload.'' @ f @ '' is forbidden; writeback cannot modify source identity'')
      | None \<Rightarrow> ensure_no_unknown_fields obj allowed_top_level_fields ''payload'')"

definition validate_required_state_header ::
    "(rstr \<Rightarrow> int option) \<Rightarrow> fields \<Rightarrow> immutable_header \<Rightarrow> (rstr, state_header) result" where
  "validate_required_state_header rfc3339 obj imm =
     (case map_of obj ''state_header'' of
        None \<Rightarrow> Err ''payload.state_header is required''
      | Some v \<Rightarrow>
          (case as_object v of
             None \<Rightarrow> Err ''payload.state_header must be an object''
           | Some header \<Rightarrow> validate_state_header rfc3339 header imm))"

definition parse_memory_append_item :: "nat \<Rightarrow> json \<Rightarrow> (rstr, rstr) result" where
  "parse_memory_append_item i entry =
     (case as_str entry of
        None \<Rightarrow> Err (numbered ''payload.memory_append'' i @ '' must be a string'')
      | Some raw \<Rightarrow> check_text raw max_memory_append_item_chars (numbered ''payload.memory_append'' i))"

definition validate_mem_append :: "fields \<Rightarrow> (rstr, rstr list) result" where
  "validate_mem_append obj =
     (case map_of obj ''memory_append'' of
        None \<Rightarrow> Ok []
      | Some v \<Rightarrow>
          (case as_array v of
             None \<Rightarrow> Err ''payload.memory_append must be an array''
           | Some entries \<Rightarrow>
               if max_memory_append_items < length entries
               then Err (''payload.memory_append exceeds max items ('' @ decimal max_memory_append_items @ '')'')
               else each_item parse_memory_append_item 0 entries))"

definition hours :: "int \<Rightarrow> int" where
  "hours n = n * 3600 * 1000000000"

definition parse_self_task_time_window :: "(rstr \<Rightarrow> int option) \<Rightarrow> rstr \<Rightarrow> (rstr, int \<times> int) result" where
  "parse_self_task_time_window rfc3339 updated =
     (case rfc3339 updated of
        None \<Rightarrow> Err ''payload.state_header.last_updated_at must be RFC3339''
      | Some baseline \<Rightarrow> Ok (baseline, baseline + hours max_self_task_expiry_hours))"

definition validate_self_task_expiry :: "(rstr \<Rightarrow> int option) \<Rightarrow> nat \<Rightarrow> rstr \<Rightarrow> int \<Rightarrow> int \<Rightarrow> (rstr, unit) result" where
  "validate_self_task_expiry rfc3339 i expires baseline max_expires =
     (let what = numbered ''payload.self_tasks'' i @ ''.expires_at'' in
      case rfc3339 expires of
        None \<Rightarrow> Err (what @ '' must be RFC3339'')
      | Some t \<Rightarrow>
          if t \<le> baseline then Err (what @ '' must be after payload.state_header.last_updated_at'')
          else if max_expires < t then Err (what @ '' exceeds max horizon (72h)'')
          else Ok ())"

definition validate_self_task :: "(rstr \<Rightarrow> int option) \<Rightarrow> int \<Rightarrow> nat \<Rightarrow> json \<Rightarrow> (rstr, self_task) result" where
  "validate_self_task rfc3339 baseline i task =
     (let ctx = numbered ''payload.self_tasks'' i in
      case as_object task of
        None \<Rightarrow> Err (ctx @ '' must be an object'')
      | Some obj \<Rightarrow>
          and_then (ensure_no_unknown_fields obj [''title'', ''instructions'', ''expires_at''] ctx)
          (\<lambda>_. and_then (validate_str obj ''title'' max_self_task_title_chars ctx)
          (\<lambda>t. and_then (validate_str obj ''instructions'' max_self_task_instructions_chars ctx)
          (\<lambda>ins. and_then (validate_str obj ''expires_at'' 64 ctx)
          (\<lambda>ex. and_then (validate_self_task_expiry rfc3339 i ex baseline (baseline + hours max_self_task_expiry_hours))
          (\<lambda>_. Ok \<lparr>title = t, instructions = ins, expires_at = ex\<rparr>))))))"

definition validate_self_tasks :: "(rstr \<Rightarrow> int option) \<Rightarrow> fields \<Rightarrow> rstr \<Rightarrow> (rstr, self_task list) result" where
  "validate_self_tasks rfc3339 obj updated =
     (case map_of obj ''self_tasks'' of
        None \<Rightarrow> Ok []
      | Some v \<Rightarrow>
          (case as_array v of
             None \<Rightarrow> Err ''payload.self_tasks must be an array''
           | Some tasks \<Rightarrow>
               if max_self_tasks < length tasks
               then Err (''payload.self_tasks exceeds max items ('' @ decimal max_self_tasks @ '')'')
               else and_then (parse_self_task_time_window rfc3339 updated)
                      (\<lambda>(baseline, _). each_item (validate_self_task rfc3339 baseline) 0 tasks)))"

subsection \<open>Inferences\<close>

definition is_alphanumeric :: "(int \<Rightarrow> bool) \<Rightarrow> int \<Rightarrow> bool" where
  "is_alphanumeric alnum c \<longleftrightarrow> (if c < 128 then is_ascii_alphanumeric (char_of c) else alnum c)"

definition validate_inference_slot_key :: "(int \<Rightarrow> bool) \<Rightarrow> rstr \<Rightarrow> bool" where
  "validate_inference_slot_key alnum key \<longleftrightarrow>
     key \<noteq> [] \<and> length key \<le> 128 \<and>
     list_all (\<lambda>c. is_alphanumeric alnum c \<or> c \<in> set (utf8 ''._-'')) (chars key)"

definition parse_inference_entry :: "(int \<Rightarrow> bool) \<Rightarrow> rstr option \<Rightarrow> json \<Rightarrow> inference_entry option" where
  "parse_inference_entry alnum required_prefix item =
     (case as_object item of
        None \<Rightarrow> None
      | Some obj \<Rightarrow>
          (case Option.bind (map_of obj ''slot_key'') as_str of
             None \<Rightarrow> None
           | Some key \<Rightarrow>
               (case Option.bind (map_of obj ''value'') as_str of
                  None \<Rightarrow> None
                | Some val \<Rightarrow>
                    if (case required_prefix of Some p \<Rightarrow> starts_with key p | None \<Rightarrow> True) \<and>
                       validate_inference_slot_key alnum key \<and> \<not> contains_poison_pattern val
                    then Some \<lparr>inf_slot = key, inf_value = trim val\<rparr> else None)))"

definition extract_inferences :: "(int \<Rightarrow> bool) \<Rightarrow> fields \<Rightarrow> rstr \<Rightarrow> rstr option \<Rightarrow> inference_entry list" where
  "extract_inferences alnum obj field required_prefix =
     (case Option.bind (map_of obj field) as_array of
        None \<Rightarrow> []
      | Some items \<Rightarrow> List.map_filter (parse_inference_entry alnum required_prefix) (take 20 items))"

definition extract_memory_inferences :: "(int \<Rightarrow> bool) \<Rightarrow> fields \<Rightarrow> inference_entry list" where
  "extract_memory_inferences alnum obj =
     filter (\<lambda>e. \<not> starts_with (inf_slot e) ''inferred.'' \<and> validate_inference_slot_key alnum (inf_slot e))
       (extract_inferences alnum obj ''memory_inferences'' None)"

definition extract_user_inferences :: "(int \<Rightarrow> bool) \<Rightarrow> fields \<Rightarrow> inference_entry list" where
  "extract_user_inferences alnum obj = extract_inferences alnum obj ''user_inferences'' (Some ''user.'')"

definition slot_allowed_by_plan :: "rstr \<Rightarrow> allowed_slot list \<Rightarrow> bool" where
  "slot_allowed_by_plan key plan \<longleftrightarrow>
     plan = [] \<or>
     list_ex (\<lambda>a. case strip_suffix ''*'' (slot a) of Some p \<Rightarrow> starts_with key p | None \<Rightarrow> key = slot a) plan"

definition reject_out_of_contract_slots :: "inference_entry list \<Rightarrow> inference_entry list \<Rightarrow> allowed_slot list \<Rightarrow> rstr option" where
  "reject_out_of_contract_slots mem user plan =
     map_option (\<lambda>e. ''payload slot `'' @ inf_slot e @ ''` rejected: not declared in companion writeback contract'')
       (find (\<lambda>e. \<not> slot_allowed_by_plan (inf_slot e) plan) (mem @ user))"

subsection \<open>The guard\<close>

definition validate_writeback ::
    "(rstr \<Rightarrow> int option) \<Rightarrow> (int \<Rightarrow> bool) \<Rightarrow> json \<Rightarrow> immutable_header \<Rightarrow> allowed_slot list option \<Rightarrow> writeback_verdict" where
  "validate_writeback rfc3339 alnum payload imm plan =
     (case as_object payload of
        None \<Rightarrow> reject ''payload must be a JSON object''
      | Some obj \<Rightarrow>
          (case and_then (validate_top_level_fields obj)
             (\<lambda>_. and_then (validate_required_state_header rfc3339 obj imm)
             (\<lambda>header. and_then (validate_mem_append obj)
             (\<lambda>appended. and_then (validate_self_tasks rfc3339 obj (last_updated_at header))
             (\<lambda>tasks. and_then (validate_style_profile obj)
             (\<lambda>style. Ok (header, appended, tasks, style)))))) of
             Err reason \<Rightarrow> reject reason
           | Ok (header, appended, tasks, style) \<Rightarrow>
               (let mem = extract_memory_inferences alnum obj; user = extract_user_inferences alnum obj in
                case Option.bind plan (reject_out_of_contract_slots mem user) of
                  Some reason \<Rightarrow> reject reason
                | None \<Rightarrow>
                    Accepted \<lparr>wb_header = header, memory_append = appended, self_tasks = tasks, style_profile = style,
                      memory_inferences = mem, user_inferences = user\<rparr>)))"

subsection \<open>What an accepted payload is\<close>

definition text_ok :: "nat \<Rightarrow> rstr \<Rightarrow> bool" where
  "text_ok n s \<longleftrightarrow> s \<noteq> [] \<and> trim s = s \<and> \<not> too_long s n \<and> \<not> contains_poison_pattern s"

definition header_ok :: "(rstr \<Rightarrow> int option) \<Rightarrow> state_header \<Rightarrow> bool" where
  "header_ok rfc3339 h \<longleftrightarrow>
     text_ok 280 (current_objective h) \<and> text_ok 1200 (recent_context_summary h) \<and> text_ok 64 (last_updated_at h) \<and>
     rfc3339 (last_updated_at h) \<noteq> None \<and>
     length (open_loops h) \<le> 7 \<and> length (next_actions h) \<le> 5 \<and> length (commitments h) \<le> 5 \<and>
     list_all (text_ok 240) (open_loops h @ next_actions h @ commitments h)"

definition task_ok :: "(rstr \<Rightarrow> int option) \<Rightarrow> int \<Rightarrow> self_task \<Rightarrow> bool" where
  "task_ok rfc3339 baseline t \<longleftrightarrow>
     text_ok 120 (title t) \<and> text_ok 240 (instructions t) \<and>
     (\<exists>e. rfc3339 (expires_at t) = Some e \<and> baseline < e \<and> e \<le> baseline + hours 72)"

definition inference_ok :: "(int \<Rightarrow> bool) \<Rightarrow> allowed_slot list option \<Rightarrow> inference_entry \<Rightarrow> bool" where
  "inference_ok alnum plan e \<longleftrightarrow>
     validate_inference_slot_key alnum (inf_slot e) \<and>
     (\<exists>raw. inf_value e = trim raw \<and> \<not> contains_poison_pattern raw) \<and>
     (\<forall>ps. plan = Some ps \<longrightarrow> slot_allowed_by_plan (inf_slot e) ps)"

lemma each_item_all:
  "each_item f i xs = Ok as \<Longrightarrow> (\<And>j x a. x \<in> set xs \<Longrightarrow> f j x = Ok a \<Longrightarrow> P a) \<Longrightarrow> list_all P as \<and> length as = length xs"
proof (induction xs arbitrary: i as)
  case (Cons x xs)
  then obtain a bs where "f i x = Ok a" "each_item f (i + 1) xs = Ok bs" "as = a # bs" by (auto simp: and_then_Ok)
  then show ?case using Cons.IH [of "i + 1" bs] Cons.prems(2) by fastforce
qed simp

lemma check_text_ok: "check_text raw n what = Ok s \<Longrightarrow> text_ok n s"
  by (auto simp: check_text_def text_ok_def Let_def split: if_splits)

lemma validate_str_ok: "validate_str obj f n ctx = Ok s \<Longrightarrow> text_ok n s"
  by (auto simp: validate_str_def split: option.splits dest: check_text_ok)

lemma validate_str_array_ok:
  assumes "validate_str_array obj f n ctx = Ok ss"
  shows "length ss \<le> n \<and> list_all (text_ok 240) ss"
proof -
  obtain items where "length items \<le> n" "each_item (validate_str_item (ctx @ ''.'' @ f)) 0 items = Ok ss"
    using assms by (auto simp: validate_str_array_def not_less split: option.splits if_splits)
  moreover have "text_ok 240 a" if "validate_str_item what j x = Ok a" for what j x a
    using that by (auto simp: validate_str_item_def limits split: option.splits dest: check_text_ok)
  ultimately show ?thesis using each_item_all [of _ 0 items ss "text_ok 240"] by fastforce
qed

lemma validate_state_header_ok:
  assumes "validate_state_header rfc3339 obj imm = Ok h"
  shows "header_ok rfc3339 h \<and>
    map_of obj ''identity_principles_hash'' = Some (JString (identity_principles_hash imm)) \<and>
    map_of obj ''safety_posture'' = Some (JString (safety_posture imm))"
proof -
  have imm: "map_of obj k = Some (JString s)" if f: "immutable_field obj k s = Ok ()" for k s
  proof -
    obtain v where "map_of obj k = Some v" "as_str v = Some s"
      using f by (auto simp: immutable_field_def bind_eq_Some_conv split: option.splits if_splits)
    then show ?thesis by (cases v) auto
  qed
  have time: "rfc3339 s \<noteq> None" if "validate_last_updated_at rfc3339 s = Ok ()" for s
    using that by (simp add: validate_last_updated_at_def split: option.splits)
  show ?thesis
    using assms unfolding validate_state_header_def and_then_Ok header_ok_def
    by (auto simp: limits dest!: validate_str_ok validate_str_array_ok imm time)
qed

lemma validate_mem_append_ok: "validate_mem_append obj = Ok ss \<Longrightarrow> length ss \<le> 8 \<and> list_all (text_ok 240) ss"
proof -
  assume ok: "validate_mem_append obj = Ok ss"
  have item: "text_ok 240 a" if "parse_memory_append_item j x = Ok a" for j x a
    using that by (auto simp: parse_memory_append_item_def limits split: option.splits dest: check_text_ok)
  show ?thesis
  proof (cases "map_of obj ''memory_append''")
    case None
    then show ?thesis using ok by (simp add: validate_mem_append_def)
  next
    case (Some v)
    then obtain xs where "length xs \<le> 8" "each_item parse_memory_append_item 0 xs = Ok ss"
      using ok by (auto simp: validate_mem_append_def limits not_less split: option.splits if_splits)
    then show ?thesis using each_item_all [of _ 0 xs ss "text_ok 240"] item by fastforce
  qed
qed

lemma validate_self_task_ok:
  assumes "validate_self_task rfc3339 baseline i x = Ok t"
  shows "task_ok rfc3339 baseline t"
proof -
  have time: "\<exists>e. rfc3339 s = Some e \<and> b < e \<and> e \<le> m" if "validate_self_task_expiry rfc3339 j s b m = Ok ()" for j s b m
    using that by (simp add: validate_self_task_expiry_def Let_def not_le not_less split: option.splits if_splits)
  show ?thesis
    using assms unfolding validate_self_task_def and_then_Ok Let_def task_ok_def
    by (auto simp: and_then_Ok limits split: option.splits dest!: validate_str_ok time)
qed

lemma validate_self_tasks_ok:
  assumes "validate_self_tasks rfc3339 obj updated = Ok ts" "rfc3339 updated = Some baseline"
  shows "length ts \<le> 5 \<and> list_all (task_ok rfc3339 baseline) ts"
proof (cases "map_of obj ''self_tasks''")
  case None
  then show ?thesis using assms by (simp add: validate_self_tasks_def)
next
  case (Some v)
  then obtain xs where "length xs \<le> 5" "each_item (validate_self_task rfc3339 baseline) 0 xs = Ok ts"
    using assms by (auto simp: validate_self_tasks_def parse_self_task_time_window_def and_then_Ok limits not_less
        split: option.splits if_splits)
  then show ?thesis
    using each_item_all [of _ 0 xs ts "task_ok rfc3339 baseline"] validate_self_task_ok by fastforce
qed

lemma validate_style_profile_ok:
  "validate_style_profile obj = Ok (Some s) \<Longrightarrow> formality s \<le> 100 \<and> verbosity s \<le> 100 \<and> 0 \<le> temperature s \<and> temperature s \<le> 1"
  by (auto simp: validate_style_profile_def and_then_Ok style_score_def limits not_less split: option.splits if_splits)

lemma extract_inferences_ok:
  assumes "e \<in> set (extract_inferences alnum obj f p)"
  shows "validate_inference_slot_key alnum (inf_slot e) \<and> (\<exists>raw. inf_value e = trim raw \<and> \<not> contains_poison_pattern raw) \<and>
    (\<forall>q. p = Some q \<longrightarrow> starts_with (inf_slot e) q)"
proof -
  obtain x where "parse_inference_entry alnum p x = Some e"
    using assms by (auto simp: extract_inferences_def List.map_filter_def split: option.splits)
  then show ?thesis
    unfolding parse_inference_entry_def by (auto split: option.splits if_splits)
qed

lemma reject_out_of_contract_ok:
  "reject_out_of_contract_slots mem user plan = None \<Longrightarrow> e \<in> set (mem @ user) \<Longrightarrow> slot_allowed_by_plan (inf_slot e) plan"
  by (auto simp: reject_out_of_contract_slots_def find_None_iff)

lemma length_map_filter: "length (List.map_filter f xs) \<le> length xs"
  by (simp add: List.map_filter_def)

lemma length_inferences: "length (extract_inferences alnum obj f p) \<le> 20"
  by (auto simp: extract_inferences_def split: option.splits intro: le_trans [OF length_map_filter])

subsection \<open>Properties\<close>

definition payload_ok ::
    "(rstr \<Rightarrow> int option) \<Rightarrow> (int \<Rightarrow> bool) \<Rightarrow> allowed_slot list option \<Rightarrow> writeback_payload \<Rightarrow> bool" where
  "payload_ok rfc3339 alnum plan p \<longleftrightarrow>
     header_ok rfc3339 (wb_header p) \<and>
     length (memory_append p) \<le> 8 \<and> list_all (text_ok 240) (memory_append p) \<and>
     (\<exists>baseline. rfc3339 (last_updated_at (wb_header p)) = Some baseline \<and>
        length (self_tasks p) \<le> 5 \<and> list_all (task_ok rfc3339 baseline) (self_tasks p)) \<and>
     (case style_profile p of
        None \<Rightarrow> True
      | Some s \<Rightarrow> formality s \<le> 100 \<and> verbosity s \<le> 100 \<and> 0 \<le> temperature s \<and> temperature s \<le> 1) \<and>
     length (memory_inferences p) \<le> 20 \<and> length (user_inferences p) \<le> 20 \<and>
     list_all (inference_ok alnum plan) (memory_inferences p @ user_inferences p) \<and>
     list_all (\<lambda>e. \<not> starts_with (inf_slot e) ''inferred.'') (memory_inferences p) \<and>
     list_all (\<lambda>e. starts_with (inf_slot e) ''user.'') (user_inferences p)"

definition payload_texts :: "writeback_payload \<Rightarrow> rstr list" where
  "payload_texts p =
     (let h = wb_header p in
      [current_objective h, recent_context_summary h] @ open_loops h @ next_actions h @ commitments h @
      memory_append p @ map title (self_tasks p) @ map instructions (self_tasks p))"

definition hides_poison :: "rstr \<Rightarrow> bool" where
  "hides_poison t \<longleftrightarrow> (\<exists>a d b q. chars t = a @ d @ b \<and> disguise d q \<and> q \<in> set poison_patterns)"

lemma hides_poison_detected:
  assumes "hides_poison t" "CHR ''%'' \<notin> set t"
  shows "contains_poison_pattern t"
proof -
  obtain a d b q where q: "chars t = a @ d @ b" "disguise d q" "q \<in> set poison_patterns"
    using assms(1) by (auto simp: hides_poison_def)
  have "q \<noteq> rot13_pattern" using q(2) rot13_not_disguised by auto
  moreover have "q \<in> set all_patterns" using q(3) by (simp add: all_patterns_def)
  ultimately have "guarded q" using patterns_guarded disguise_ascii [OF q(2)] by blast
  then have "sublist q (normalize_detection t)"
    using normalize_context [OF q(2)] q(1) assms(2) by (simp add: normalize_detection_def decode_percent_encoding_def)
  then show ?thesis using q(3) by (auto simp: contains_poison_pattern_def list_ex_iff)
qed

lemma payload_texts_clean:
  assumes "payload_ok rfc3339 alnum plan p" "t \<in> set (payload_texts p)"
  shows "\<not> contains_poison_pattern t"
  using assms unfolding payload_ok_def payload_texts_def header_ok_def list_all_iff Let_def task_ok_def
  by (auto simp: text_ok_def)

text \<open>C30: a payload is accepted only when it repeats the immutable header fields byte for byte and
  names no source of its own, and then everything in it is within the limits: every text is trimmed, not
  empty, not too long and free of poison patterns, in every disguise the normalisation sees through; the
  lists are bounded; a task expires after the payload's own time stamp and at most 72 hours later; the
  style is in range; and every inference has a safe key, the prefix it needs, a value without a pattern
  and a slot the plan allows.\<close>

theorem accepted_writeback_safe:
  assumes "validate_writeback rfc3339 alnum payload imm plan = Accepted p"
  shows "payload_ok rfc3339 alnum plan p \<and>
    list_all (\<lambda>t. CHR ''%'' \<in> set t \<or> \<not> hides_poison t) (payload_texts p) \<and>
    (\<exists>obj header. payload = JObject obj \<and> map_of obj ''state_header'' = Some (JObject header) \<and>
       map_of header ''identity_principles_hash'' = Some (JString (identity_principles_hash imm)) \<and>
       map_of header ''safety_posture'' = Some (JString (safety_posture imm)) \<and>
       map_of obj ''source_kind'' = None \<and> map_of obj ''source_ref'' = None)"
proof -
  obtain obj where obj: "payload = JObject obj"
    using assms by (cases payload) (simp_all add: validate_writeback_def reject_def)
  let ?mem = "extract_memory_inferences alnum obj" and ?user = "extract_user_inferences alnum obj"
  obtain header appended tasks style where
    sections: "validate_top_level_fields obj = Ok ()" "validate_required_state_header rfc3339 obj imm = Ok header"
      "validate_mem_append obj = Ok appended" "validate_self_tasks rfc3339 obj (last_updated_at header) = Ok tasks"
      "validate_style_profile obj = Ok style"
    and slots: "Option.bind plan (reject_out_of_contract_slots ?mem ?user) = None"
    and p: "p = \<lparr>wb_header = header, memory_append = appended, self_tasks = tasks, style_profile = style,
      memory_inferences = ?mem, user_inferences = ?user\<rparr>"
    using assms unfolding validate_writeback_def obj
    by (auto simp: and_then_Ok reject_def Let_def split: sum.splits option.splits)
  obtain fields where fields: "map_of obj ''state_header'' = Some (JObject fields)"
    "validate_state_header rfc3339 fields imm = Ok header"
  proof -
    obtain v where v: "map_of obj ''state_header'' = Some v" using sections(2)
      by (cases "map_of obj ''state_header''") (auto simp: validate_required_state_header_def)
    then show ?thesis using that sections(2) by (cases v) (auto simp: validate_required_state_header_def)
  qed
  note header = validate_state_header_ok [OF fields(2)]
  then obtain baseline where baseline: "rfc3339 (last_updated_at header) = Some baseline" by (auto simp: header_ok_def)
  have mem: "inference_ok alnum plan e \<and> \<not> starts_with (inf_slot e) ''inferred.''" if e: "e \<in> set ?mem" for e
    using e extract_inferences_ok [of e alnum obj "''memory_inferences''" None] slots reject_out_of_contract_ok [of ?mem ?user _ e]
    by (auto simp: extract_memory_inferences_def inference_ok_def)
  have user: "inference_ok alnum plan e \<and> starts_with (inf_slot e) ''user.''" if e: "e \<in> set ?user" for e
    using e extract_inferences_ok [of e alnum obj "''user_inferences''" "Some ''user.''"] slots
      reject_out_of_contract_ok [of ?mem ?user _ e]
    by (auto simp: extract_user_inferences_def inference_ok_def)
  have "length ?mem \<le> 20"
    unfolding extract_memory_inferences_def by (rule le_trans [OF length_filter_le length_inferences])
  moreover have "length ?user \<le> 20"
    unfolding extract_user_inferences_def by (rule length_inferences)
  ultimately have ok: "payload_ok rfc3339 alnum plan p"
    using header validate_mem_append_ok [OF sections(3)] validate_self_tasks_ok [OF sections(4) baseline] baseline
      validate_style_profile_ok [of obj] sections(5) mem user
    by (auto simp: payload_ok_def p list_all_iff split: option.splits)
  have "map_of obj ''source_kind'' = None \<and> map_of obj ''source_ref'' = None"
    using sections(1) by (auto simp: validate_top_level_fields_def forbidden_top_level_source_fields_def split: if_splits)
  then show ?thesis
    using ok header fields(1) obj payload_texts_clean [OF ok] hides_poison_detected by (auto simp: list_all_iff)
qed

definition demo_imm :: immutable_header where
  "demo_imm = \<lparr>schema_version = 1, identity_principles_hash = ''h'', safety_posture = ''strict''\<rparr>"

definition demo_payload :: json where
  "demo_payload = JObject
     [(''memory_append'', JArray [JString '' new ''])
     ,(''state_header'', JObject
        [(''commitments'', JArray []), (''current_objective'', JString ''ship''), (''identity_principles_hash'', JString ''h''),
         (''last_updated_at'', JString ''t''), (''next_actions'', JArray []), (''open_loops'', JArray []),
         (''recent_context_summary'', JString ''s''), (''safety_posture'', JString ''strict'')])]"

definition demo_accepted :: writeback_payload where
  "demo_accepted =
     \<lparr>wb_header = \<lparr>current_objective = ''ship'', open_loops = [], next_actions = [], commitments = [],
        recent_context_summary = ''s'', last_updated_at = ''t''\<rparr>,
      memory_append = [''new''], self_tasks = [], style_profile = None, memory_inferences = [], user_inferences = []\<rparr>"

lemma demo_writeback: "validate_writeback (\<lambda>_. Some 0) (\<lambda>_. False) demo_payload demo_imm None = Accepted demo_accepted"
proof -
  have clean: "contains_poison_pattern ''ship'' = False" "contains_poison_pattern ''s'' = False"
    "contains_poison_pattern ''t'' = False" "contains_poison_pattern ''new'' = False"
    by code_simp+
  have plain: "check_text s n what = Ok s" if "s = ''ship'' \<or> s = ''s'' \<or> s = ''t'' \<or> s = ''new''" "64 \<le> n" for s n what
    using that clean trim_plain [of s] by (auto simp: check_text_def too_long_def ws_byte_def is_ascii_ws_def byte_def)
  have "trim '' new '' = ''new''" by code_simp
  then have item: "check_text '' new '' n what = Ok ''new''" if "64 \<le> n" for n what
    using plain [of "''new''" n what] that trim_plain [of "''new''"]
    by (simp add: check_text_def ws_byte_def is_ascii_ws_def byte_def)
  show ?thesis
    by (simp add: validate_writeback_def demo_payload_def validate_top_level_fields_def forbidden_top_level_source_fields_def
        ensure_no_unknown_fields_def allowed_top_level_fields_def allowed_state_header_fields_def and_then_def
        validate_required_state_header_def validate_state_header_def immutable_field_def demo_imm_def validate_str_def
        validate_str_array_def validate_mem_append_def parse_memory_append_item_def validate_self_tasks_def
        validate_style_profile_def validate_last_updated_at_def extract_memory_inferences_def extract_user_inferences_def
        extract_inferences_def demo_accepted_def plain item limits)
qed

lemma accepted_writeback_safe_witness:
  "payload_ok (\<lambda>_. Some 0) (\<lambda>_. False) None demo_accepted"
  using accepted_writeback_safe [OF demo_writeback] by simp

text \<open>
  Limits of the guard: the horizon of a task is measured from a time stamp the payload itself chooses, so
  any date is within it for a payload that names one close before it; a pattern in the value of an
  inference drops the entry and not the payload; and the value of an inference has no limit.
\<close>

lemma task_horizon_is_relative:
  "rfc3339 ex = Some t \<Longrightarrow> validate_self_task_expiry rfc3339 i ex (t - 1) (t - 1 + hours max_self_task_expiry_hours) = Ok ()"
  by (simp add: validate_self_task_expiry_def hours_def limits)

lemma poisoned_inference_dropped:
  "contains_poison_pattern v \<Longrightarrow>
   parse_inference_entry alnum p (JObject [(''slot_key'', JString k), (''value'', JString v)]) = None"
  by (simp add: parse_inference_entry_def)

end
