(* ===== verification/Tool_Guards.thy ===== *)
theory Tool_Guards
  imports Command_Policy Tool_Policy Permissions Scrub Memory_Tools Process_Spawn
begin

text \<open>
  The guards before a tool call (\<open>src/src/core/tools/middleware/security.rs\<close>, \<open>mod.rs\<close> and the shell
  guard of \<open>orchestrator.rs\<close>): the execution context, the classes of tools, the global policy, the checks
  of shell commands and file paths, and the decision whether a call needs approval. The file system is
  the record \<open>fs_env\<close> with \<open>lstat\<close>, which tells whether a path exists without following links; JSON
  printing and fresh identifiers are parameters.
\<close>

subsection \<open>Context\<close>

datatype group_isolation = SharedGroup | WorkspaceGroup | ContainerGroup

record execution_context =
  policy :: security_policy
  ctx_autonomy :: autonomy_level
  ctx_entity :: rstr
  ctx_session :: "rstr option"
  ctx_workspace :: rstr
  allowed_tools :: "rstr set option"
  ctx_tenant :: tenant_ctx
  source_channel_id :: "rstr option"
  routing_group :: "rstr option"
  process_isolation :: group_isolation
  network_isolation :: group_isolation
  granted_capabilities :: "capability_set option"
  taint_context :: "taint_set option"
  current_tool_capabilities :: "capability list"
  policy_engine :: "policy_rule list option"

definition from_security :: "security_policy \<Rightarrow> execution_context" where
  "from_security p =
     \<lparr>policy = p, ctx_autonomy = autonomy p, ctx_entity = ''default'', ctx_session = None,
      ctx_workspace = workspace_dir p, allowed_tools = None, ctx_tenant = tenant_disabled, source_channel_id = None,
      routing_group = None, process_isolation = SharedGroup, network_isolation = SharedGroup,
      granted_capabilities = None, taint_context = None, current_tool_capabilities = [], policy_engine = None\<rparr>"

record action_intent =
  intent_id :: rstr
  action_kind :: rstr
  operator :: rstr
  payload :: json
  requested_at :: rstr

definition action_intent_new :: "rstr \<times> rstr \<Rightarrow> rstr \<Rightarrow> rstr \<Rightarrow> json \<Rightarrow> action_intent" where
  "action_intent_new fresh kind op body =
     \<lparr>intent_id = fst fresh, action_kind = kind, operator = op, payload = body, requested_at = snd fresh\<rparr>"

datatype middleware_decision = Continue | BlockCall rstr | AskApproval action_intent

definition block_prefix :: rstr where
  "block_prefix = ''blocked by security policy: ''"

definition block_read_only :: rstr where
  "block_read_only = ''blocked by security policy: autonomy is read-only''"

subsection \<open>Classes of tools\<close>

definition bootstrap_targets :: "rstr list" where
  "bootstrap_targets = [''SOUL.md'', ''CHARACTER.md'', ''USER.md'', ''AGENTS.md'']"

definition file_name :: "rstr \<Rightarrow> rstr option" where
  "file_name path =
     (let cs = path_components path in
      if cs = [] then None else (case last cs of Normal s \<Rightarrow> Some s | _ \<Rightarrow> None))"

definition is_critical_bootstrap_target :: "rstr \<Rightarrow> bool" where
  "is_critical_bootstrap_target path =
     (case file_name path of
        None \<Rightarrow> False
      | Some f \<Rightarrow> list_ex (\<lambda>t. to_ascii_lowercase f = to_ascii_lowercase t) bootstrap_targets)"

definition is_external_action_tool :: "rstr \<Rightarrow> bool" where
  "is_external_action_tool tool \<longleftrightarrow>
     tool = ''composio'' \<or> starts_with tool ''mcp_'' \<or>
     tool \<in> set [''channel_create_thread'', ''channel_add_reaction'', ''channel_send_rich'', ''channel_send_embed'']"

definition is_network_boundary_tool :: "rstr \<Rightarrow> bool" where
  "is_network_boundary_tool tool \<longleftrightarrow>
     is_external_action_tool tool \<or>
     tool \<in> set [''browser'', ''browser_open'', ''web_fetch'', ''web_search'', ''web_scrape'', ''websearch'',
       ''duckduckgo_search'', ''channel_get_history'']"

subsection \<open>The global policy\<close>

definition group_name :: "execution_context \<Rightarrow> rstr" where
  "group_name ctx = (case routing_group ctx of Some g \<Rightarrow> g | None \<Rightarrow> ''default'')"

definition check_global_policy :: "rstr \<Rightarrow> execution_context \<Rightarrow> middleware_decision option" where
  "check_global_policy tool ctx =
     (if ctx_autonomy ctx = ReadOnly \<and> tool \<notin> set [''file_read'', ''memory_recall'', ''memory_lookup'']
      then Some (BlockCall block_read_only)
      else if (case allowed_tools ctx of Some allowed \<Rightarrow> tool \<notin> allowed | None \<Rightarrow> False)
      then Some (BlockCall (block_prefix @ ''tool '' @ [CHR 0x27] @ tool @ [CHR 0x27] @ '' is not allowed for this entity''))
      else if is_external_action_tool tool \<and> external_action_execution (policy ctx) = ExtDisabled
      then Some (BlockCall (block_prefix @ ''external_action_execution is disabled for tool '' @ [CHR 0x27] @ tool @ [CHR 0x27]))
      else if network_isolation ctx \<noteq> SharedGroup \<and> is_network_boundary_tool tool
      then Some (BlockCall (block_prefix @ ''network-isolated group '' @ [CHR 0x27] @ group_name ctx @ [CHR 0x27] @
             '' forbids tool '' @ [CHR 0x27] @ tool @ [CHR 0x27]))
      else (case granted_capabilities ctx of
              None \<Rightarrow> None
            | Some granted \<Rightarrow>
                (case check_capabilities (current_tool_capabilities ctx) granted of
                   Inr _ \<Rightarrow> None
                 | Inl lacking \<Rightarrow>
                     Some (BlockCall (block_prefix @ ''tool '' @ [CHR 0x27] @ tool @ [CHR 0x27] @
                       '' requires capabilities not granted: ['' @ join '', '' (map capability_display lacking) @ '']'')))))"

subsection \<open>Shell commands and file paths\<close>

definition enforce_shell_command_guardrails :: "fs_env \<Rightarrow> execution_context \<Rightarrow> rstr \<Rightarrow> rstr \<Rightarrow> (rstr, unit) result" where
  "enforce_shell_command_guardrails env ctx command route =
     (if process_isolation ctx \<noteq> SharedGroup
      then Err (block_prefix @ ''process-isolated group '' @ [CHR 0x27] @ group_name ctx @ [CHR 0x27] @
             '' forbids shell execution (route='' @ [CHR 0x27] @ route @ [CHR 0x27] @ '')'')
      else if \<not> is_command_allowed_in_workspace env (policy ctx) command (ctx_workspace ctx)
      then Err (block_prefix @ ''command not allowed: '' @ command @ '' (route='' @ [CHR 0x27] @ route @ [CHR 0x27] @ '')'')
      else Ok ())"

datatype spawn_guard_error = IsolatedGroup rstr rstr process_spawn_class | SpawnRefused spawn_refusal

definition enforce_process_spawn_guardrails ::
    "fs_env \<Rightarrow> execution_context \<Rightarrow> rstr \<Rightarrow> rstr list \<Rightarrow> rstr \<Rightarrow> process_spawn_class
       \<Rightarrow> (spawn_guard_error, unit) result" where
  "enforce_process_spawn_guardrails env ctx command args route cls =
     (if cls = ToolEquivalent \<and> process_isolation ctx \<noteq> SharedGroup then Err (IsolatedGroup (group_name ctx) route cls)
      else if cls = ExternalConnector \<and> network_isolation ctx \<noteq> SharedGroup then Err (IsolatedGroup (group_name ctx) route cls)
      else map_sum SpawnRefused id (enforce_process_spawn_policy_with_args env (policy ctx) command args route cls))"

definition str_arg :: "json \<Rightarrow> rstr \<Rightarrow> rstr" where
  "str_arg args key = (case get_str args key of Some s \<Rightarrow> s | None \<Rightarrow> [])"

definition check_shell_policy :: "fs_env \<Rightarrow> json \<Rightarrow> execution_context \<Rightarrow> middleware_decision option" where
  "check_shell_policy env args ctx =
     (case enforce_shell_command_guardrails env ctx (str_arg args ''command'') ''tool:shell'' of
        Inl e \<Rightarrow> Some (BlockCall e) | Inr _ \<Rightarrow> None)"

definition canonical_or_self :: "fs_env \<Rightarrow> rstr \<Rightarrow> rstr" where
  "canonical_or_self env p = (case canonicalize env p of Some r \<Rightarrow> r | None \<Rightarrow> p)"

definition check_resolved :: "fs_env \<Rightarrow> execution_context \<Rightarrow> rstr \<Rightarrow> middleware_decision option" where
  "check_resolved env ctx resolved =
     (let root = canonical_or_self env (ctx_workspace ctx);
          policy_root = canonical_or_self env (workspace_dir (policy ctx));
          enforce = (workspace_only (policy ctx) \<or> path_components root \<noteq> path_components policy_root) in
      if enforce \<and> \<not> path_starts_with resolved root
      then Some (BlockCall (block_prefix @ ''resolved path escapes group workspace: '' @ resolved))
      else if \<not> is_path_allowed_resolved env (policy ctx) resolved
      then Some (BlockCall (block_prefix @ ''resolved path escapes workspace: '' @ resolved))
      else None)"

definition check_existing_target :: "fs_env \<Rightarrow> (rstr \<Rightarrow> bool) \<Rightarrow> rstr \<Rightarrow> execution_context \<Rightarrow> middleware_decision option" where
  "check_existing_target env lstat path ctx =
     (let full_path = path_join (ctx_workspace ctx) path in
      case canonicalize env full_path of
        Some resolved \<Rightarrow> check_resolved env ctx resolved
      | None \<Rightarrow>
          if lstat full_path
          then Some (BlockCall (block_prefix @ ''path exists but cannot be resolved (possible symlink escape): '' @ full_path))
          else None)"

definition path_not_allowed :: "rstr \<Rightarrow> middleware_decision option" where
  "path_not_allowed path = Some (BlockCall (block_prefix @ ''path not allowed: '' @ path))"

definition check_file_read_policy :: "fs_env \<Rightarrow> (rstr \<Rightarrow> bool) \<Rightarrow> json \<Rightarrow> execution_context \<Rightarrow> middleware_decision option" where
  "check_file_read_policy env lstat args ctx =
     (let path = str_arg args ''path'' in
      if \<not> is_path_allowed env (policy ctx) path then path_not_allowed path
      else check_existing_target env lstat path ctx)"

definition check_file_delete_policy :: "fs_env \<Rightarrow> (rstr \<Rightarrow> bool) \<Rightarrow> json \<Rightarrow> execution_context \<Rightarrow> middleware_decision option" where
  "check_file_delete_policy env lstat args ctx =
     (let path = str_arg args ''path'' in
      if \<not> is_path_allowed env (policy ctx) path then path_not_allowed path
      else if is_critical_bootstrap_target path
      then Some (BlockCall (block_prefix @ ''delete target is protected bootstrap file: '' @ path))
      else check_existing_target env lstat path ctx)"

text \<open>The first directory above the target that exists.\<close>

function first_existing :: "fs_env \<Rightarrow> rstr option \<Rightarrow> rstr option" where
  "first_existing env None = None"
| "first_existing env (Some current) =
     (if path_exists env current then Some current else first_existing env (path_parent current))"
  by pat_completeness auto
termination
proof (relation "measure (\<lambda>(_, p). case p of None \<Rightarrow> 0 | Some c \<Rightarrow> Suc (length (path_components c)))")
  fix env :: fs_env and current :: rstr
  show "((env, path_parent current), env, Some current)
      \<in> measure (\<lambda>(_, p). case p of None \<Rightarrow> 0 | Some c \<Rightarrow> Suc (length (path_components c)))"
    by (cases "path_parent current") (simp_all add: path_parent_shorter)
qed simp

definition check_file_write_policy :: "fs_env \<Rightarrow> json \<Rightarrow> execution_context \<Rightarrow> middleware_decision option" where
  "check_file_write_policy env args ctx =
     (let path = str_arg args ''path'' in
      if \<not> is_path_allowed env (policy ctx) path then path_not_allowed path
      else if is_critical_bootstrap_target path
      then Some (BlockCall (block_prefix @ ''write target is protected bootstrap file: '' @ path))
      else (case first_existing env (path_parent (path_join (ctx_workspace ctx) path)) of
              None \<Rightarrow> None
            | Some dir \<Rightarrow>
                (case canonicalize env dir of
                   None \<Rightarrow> None | Some resolved \<Rightarrow> check_resolved env ctx resolved)))"

definition check_tool_specific_policy ::
    "fs_env \<Rightarrow> (rstr \<Rightarrow> bool) \<Rightarrow> rstr \<Rightarrow> json \<Rightarrow> execution_context \<Rightarrow> middleware_decision option" where
  "check_tool_specific_policy env lstat tool args ctx =
     (if tool = ''shell'' then check_shell_policy env args ctx
      else if tool = ''file_read'' then check_file_read_policy env lstat args ctx
      else if tool = ''file_write'' then check_file_write_policy env args ctx
      else if tool = ''file_delete'' then check_file_delete_policy env lstat args ctx
      else if tool = ''memory_governance''
      then (if can_act (policy ctx) then None else Some (BlockCall block_read_only))
      else None)"

subsection \<open>Approval\<close>

definition summarize_args :: "(json \<Rightarrow> rstr) \<Rightarrow> rstr \<Rightarrow> json \<Rightarrow> rstr" where
  "summarize_args print tool args =
     scrub_secrets
       (let str_or = (\<lambda>key default. case get_str args key of Some s \<Rightarrow> s | None \<Rightarrow> default) in
        if tool = ''shell'' then str_or ''command'' ''(unknown)''
        else if tool = ''file_write''
        then ''write '' @ decimal (length (str_or ''content'' [])) @ '' bytes to '' @ str_or ''path'' ''?''
        else if tool = ''file_read'' then str_or ''path'' ''?''
        else print args)"

definition approval_payload :: "rstr \<Rightarrow> rstr \<Rightarrow> rstr \<Rightarrow> json" where
  "approval_payload tool args_summary reason =
     JObject [(''tool'', JString tool), (''args_summary'', JString args_summary), (''policy_reason'', JString reason)]"

text \<open>The permission store is shared; \<open>None\<close> when the context has none.\<close>

definition lookup_grant :: "rstr \<Rightarrow> rstr \<Rightarrow> execution_context \<Rightarrow> permission_store option \<Rightarrow> permission_store option \<times> bool" where
  "lookup_grant tool args_summary ctx st =
     (case st of
        None \<Rightarrow> (None, False)
      | Some s \<Rightarrow>
          let s = set_entity_allowlist (ctx_entity ctx) (allowed_tools ctx) s
          in (Some s, is_granted tool args_summary (ctx_entity ctx) (ctx_tenant ctx) s))"

definition check_approval_requirement ::
    "(json \<Rightarrow> rstr) \<Rightarrow> rstr \<times> rstr \<Rightarrow> rstr \<Rightarrow> json \<Rightarrow> execution_context \<Rightarrow> permission_store option
       \<Rightarrow> permission_store option \<times> middleware_decision" where
  "check_approval_requirement print fresh tool args ctx st =
     (let args_summary = summarize_args print tool args;
          ask = (\<lambda>reason. AskApproval (action_intent_new fresh tool (ctx_entity ctx) (approval_payload tool args_summary reason)));
          (st, has_grant) = lookup_grant tool args_summary ctx st
      in (st,
          case policy_engine ctx of
            Some rules \<Rightarrow>
              (let ev = engine_evaluate rules tool args_summary has_grant (ctx_autonomy ctx) in
               case ev_decision ev of
                 DecAllow \<Rightarrow> Continue
               | DecDeny \<Rightarrow> BlockCall (ev_reason ev)
               | DecRequireApproval \<Rightarrow> ask (ev_reason ev))
          | None \<Rightarrow>
              if has_grant then Continue
              else if ctx_autonomy ctx = Supervised then ask supervised_fallback_approval_reason
              else Continue))"

definition security_before ::
    "fs_env \<Rightarrow> (rstr \<Rightarrow> bool) \<Rightarrow> (json \<Rightarrow> rstr) \<Rightarrow> rstr \<times> rstr \<Rightarrow> rstr \<Rightarrow> json \<Rightarrow> execution_context
       \<Rightarrow> permission_store option \<Rightarrow> permission_store option \<times> middleware_decision" where
  "security_before env lstat print fresh tool args ctx st =
     (case check_global_policy tool ctx of
        Some d \<Rightarrow> (st, d)
      | None \<Rightarrow>
          (case check_tool_specific_policy env lstat tool args ctx of
             Some d \<Rightarrow> (st, d)
           | None \<Rightarrow> check_approval_requirement print fresh tool args ctx st))"

subsection \<open>What a call that is let through satisfies\<close>

text \<open>The static conditions on a tool call, by tool, as one predicate.\<close>

definition call_allowed :: "rstr \<Rightarrow> execution_context \<Rightarrow> bool" where
  "call_allowed tool ctx \<longleftrightarrow>
     (ctx_autonomy ctx = ReadOnly \<longrightarrow> tool \<in> {''file_read'', ''memory_recall'', ''memory_lookup''}) \<and>
     (\<forall>allowed. allowed_tools ctx = Some allowed \<longrightarrow> tool \<in> allowed) \<and>
     (is_external_action_tool tool \<longrightarrow> external_action_execution (policy ctx) \<noteq> ExtDisabled) \<and>
     (is_network_boundary_tool tool \<longrightarrow> network_isolation ctx = SharedGroup) \<and>
     (\<forall>granted. granted_capabilities ctx = Some granted \<longrightarrow>
        (\<forall>cap \<in> set (current_tool_capabilities ctx). capability_contains granted cap))"

lemma check_global_policy_None: "check_global_policy tool ctx = None \<longleftrightarrow> call_allowed tool ctx"
  by (auto simp: check_global_policy_def call_allowed_def check_capabilities_Ok [symmetric]
      split: option.splits sum.splits if_splits)

text \<open>A path in its resolved form stays in the workspace of the group and outside forbidden places.\<close>

definition resolved_allowed :: "fs_env \<Rightarrow> execution_context \<Rightarrow> rstr \<Rightarrow> bool" where
  "resolved_allowed env ctx resolved \<longleftrightarrow>
     (workspace_only (policy ctx) \<longrightarrow> path_starts_with resolved (canonical_or_self env (ctx_workspace ctx))) \<and>
     is_path_allowed_resolved env (policy ctx) resolved"

lemma check_resolved_None: "check_resolved env ctx resolved = None \<Longrightarrow> resolved_allowed env ctx resolved"
  by (auto simp: check_resolved_def resolved_allowed_def Let_def split: if_splits)

definition arguments_allowed :: "fs_env \<Rightarrow> (rstr \<Rightarrow> bool) \<Rightarrow> rstr \<Rightarrow> json \<Rightarrow> execution_context \<Rightarrow> bool" where
  "arguments_allowed env lstat tool args ctx \<longleftrightarrow>
     (let path = str_arg args ''path''; full = path_join (ctx_workspace ctx) path in
      (tool = ''shell'' \<longrightarrow> process_isolation ctx = SharedGroup \<and>
         is_command_allowed_in_workspace env (policy ctx) (str_arg args ''command'') (ctx_workspace ctx)) \<and>
      (tool \<in> {''file_read'', ''file_write'', ''file_delete''} \<longrightarrow> is_path_allowed env (policy ctx) path) \<and>
      (tool \<in> {''file_write'', ''file_delete''} \<longrightarrow> \<not> is_critical_bootstrap_target path) \<and>
      (tool \<in> {''file_read'', ''file_delete''} \<longrightarrow>
         (case canonicalize env full of Some r \<Rightarrow> resolved_allowed env ctx r | None \<Rightarrow> \<not> lstat full)) \<and>
      (tool = ''file_write'' \<longrightarrow>
         (\<forall>dir r. first_existing env (path_parent full) = Some dir \<longrightarrow> canonicalize env dir = Some r \<longrightarrow>
            resolved_allowed env ctx r)) \<and>
      (tool = ''memory_governance'' \<longrightarrow> can_act (policy ctx)))"

lemma check_tool_specific_policy_None:
  "check_tool_specific_policy env lstat tool args ctx = None \<Longrightarrow> arguments_allowed env lstat tool args ctx"
  by (auto simp: check_tool_specific_policy_def arguments_allowed_def Let_def check_shell_policy_def
      enforce_shell_command_guardrails_def check_file_read_policy_def check_file_delete_policy_def
      check_file_write_policy_def check_existing_target_def path_not_allowed_def
      split: if_splits option.splits sum.splits intro: check_resolved_None)

lemma specific_blocks:
  "check_tool_specific_policy env lstat tool args ctx \<noteq> None \<Longrightarrow>
     \<exists>e. check_tool_specific_policy env lstat tool args ctx = Some (BlockCall e)"
  by (auto simp: check_tool_specific_policy_def Let_def check_shell_policy_def
      check_file_read_policy_def check_file_delete_policy_def check_resolved_def
      check_file_write_policy_def check_existing_target_def path_not_allowed_def
      split: if_splits option.splits sum.splits)

lemma connector_not_isolated:
  "enforce_process_spawn_guardrails env ctx command args route cls = Ok () \<Longrightarrow>
     (cls = ToolEquivalent \<longrightarrow> process_isolation ctx = SharedGroup) \<and>
     (cls = ExternalConnector \<longrightarrow> network_isolation ctx = SharedGroup) \<and>
     enforce_process_spawn_policy_with_args env (policy ctx) command args route cls = Ok ()"
  by (cases "enforce_process_spawn_policy_with_args env (policy ctx) command args route cls")
    (auto simp: enforce_process_spawn_guardrails_def split: if_splits)

end
