(* ===== verification/Tool_Pipeline.thy ===== *)
theory Tool_Pipeline
  imports Tool_Guards External_Content Rate_Limits
begin

text \<open>
  The execution of a tool call (\<open>src/src/core/tools/middleware/orchestrator.rs\<close>, \<open>policy.rs\<close>, \<open>hooks.rs\<close>,
  \<open>taint.rs\<close>, \<open>src/src/core/tools/registry.rs\<close>): the chain of middleware before and after the tool, the
  approval flow, the retries, and the audit trail. Tool bodies, brokers, hook processes, the meaning
  preserving compaction and the scores of the trust tracker are functions over an arbitrary outside
  world; the permission store, the rate limiter and the records written are the model's own state.
\<close>

subsection \<open>Results, requests and records\<close>

datatype attachment_source = AttachedFile rstr | AttachedUrl rstr

record output_attachment =
  mime_type :: rstr
  att_filename :: "rstr option"
  att_source :: attachment_source

record 's call_result =
  success :: bool
  "output" :: rstr
  call_error :: "rstr option"
  attachments :: "output_attachment list"
  taint_labels :: "rstr list"
  semantic :: 's

record approval_request =
  req_intent_id :: rstr
  req_tool :: rstr
  req_args_summary :: rstr
  req_risk :: risk_level
  req_entity :: rstr
  req_channel :: rstr

datatype approval_decision = Approved | DeniedBy rstr | ApprovedWithGrant permission_grant

datatype approval_resolution = ResApproved | ResDenied rstr

datatype approval_error = NoBroker rstr rstr | BrokerFailed rstr | GrantNotPersisted grant_error

record tool_execution_audit_record =
  tx_tool :: rstr
  tx_args_summary :: rstr
  tx_success :: bool
  tx_summary :: rstr

record governance_audit_record =
  ga_request_id :: rstr
  ga_decision :: governance_decision
  ga_actor :: rstr
  ga_action :: rstr
  ga_channel :: rstr

datatype audit_event = ToolAudit tool_execution_audit_record | GovernanceAudit governance_audit_record

subsection \<open>Hooks\<close>

datatype hook_event = PreToolUse | PostToolUse | PostToolUseFailure

datatype hook_decision = HookAllow | HookDeny | HookAsk

record hook_config =
  hook_command :: rstr
  hook_events :: "hook_event list"
  hook_timeout_secs :: nat
  hook_enabled :: bool

record hook_payload =
  hp_event :: hook_event
  hp_tool :: rstr
  hp_args :: json
  hp_session :: rstr
  hp_entity :: rstr

record hook_response =
  hr_decision :: "hook_decision option"
  hr_system_message :: "rstr option"
  hr_updated_input :: "json option"

definition no_override :: hook_response where
  "no_override = \<lparr>hr_decision = None, hr_system_message = None, hr_updated_input = None\<rparr>"

text \<open>How a hook process ends: it could not be run, it ran out of time, or it exited with a code (none when a
  signal ended it), what it wrote and what it wrote to its error stream.\<close>

datatype hook_exit = HookFailed rstr | HookTimedOut | HookExited "int option" rstr rstr

subsection \<open>World\<close>

record 'w pipeline_world =
  store :: "permission_store option"
  limiter :: limiter_state
  trust_signals :: "(rstr \<times> bool) list"
  audit_log :: "audit_event list"
  outside :: 'w

text \<open>
  What the pipeline relies on outside: a hook process answers, denies with \<open>None\<close> or fails; a broker
  decides or fails; readings of clocks and identifiers are functions of the world.
\<close>

record ('w, 's) surroundings =
  file_system :: "'w \<Rightarrow> fs_env"
  lstat :: "'w \<Rightarrow> rstr \<Rightarrow> bool"
  print_json :: "json \<Rightarrow> rstr"
  fresh_id :: "'w \<Rightarrow> rstr \<times> rstr"
  broker :: "(approval_request \<Rightarrow> 'w \<Rightarrow> 'w \<times> (rstr, approval_decision) result) option"
  tracked_trust :: "('w \<Rightarrow> rstr \<Rightarrow> trust_level) option"
  wall_clock :: "'w \<Rightarrow> rstr"
  persist_grants :: "'w \<Rightarrow> stored_grant list \<Rightarrow> bool"
  limits :: limiter_config
  monotonic :: "'w \<Rightarrow> instant"
  hook_process :: "hook_config \<Rightarrow> hook_payload \<Rightarrow> 'w \<Rightarrow> 'w \<times> hook_exit"
  parse_response :: "rstr \<Rightarrow> hook_response option"
  is_aborted :: "'w \<Rightarrow> bool"
  compact_semantic :: "execution_context \<Rightarrow> rstr \<Rightarrow> 's call_result \<Rightarrow> 'w \<Rightarrow> 'w \<times> 's call_result"
  base64_decoders :: decoders
  sha256 :: "rstr \<Rightarrow> rstr"
  assess_content :: "rstr \<Rightarrow> rstr \<Rightarrow> autonomy_verdict"
  audit_sink :: bool
  remember :: "execution_context \<Rightarrow> rstr \<Rightarrow> rstr \<Rightarrow> rstr \<Rightarrow> 'w \<Rightarrow> 'w"
  no_semantic :: 's

text \<open>
  The body of a tool acts on the whole world: a delegated run calls tools of its own through the same
  registry, and writes to the same audit trail, limiter and store.
\<close>

record ('w, 's) tool =
  required_capabilities :: "capability list"
  run_tool :: "json \<Rightarrow> execution_context \<Rightarrow> 'w pipeline_world \<Rightarrow> 'w pipeline_world \<times> (rstr, 's call_result) result"

subsection \<open>Approval flow\<close>

definition approval_request_from_intent :: "action_intent \<Rightarrow> approval_request" where
  "approval_request_from_intent intent =
     \<lparr>req_intent_id = intent_id intent, req_tool = action_kind intent,
      req_args_summary = str_arg (Tool_Guards.payload intent) ''args_summary'',
      req_risk = classify_risk_args (action_kind intent) (get_str (Tool_Guards.payload intent) ''path''),
      req_entity = operator intent, req_channel = hd (split_on (CHR '':'') (operator intent))\<rparr>"

definition evaluate_approval_governance :: "('w, 's) surroundings \<Rightarrow> approval_request \<Rightarrow> 'w \<Rightarrow> governance_decision" where
  "evaluate_approval_governance sr req w =
     evaluate_governance (wall_clock sr w)
       \<lparr>gs_trust_level = (case tracked_trust sr of None \<Rightarrow> FirstSeen | Some level \<Rightarrow> level w (req_tool req)),
        gs_risk_level = req_risk req, gs_taint_labels = []\<rparr>"

definition emit_governance_audit ::
    "('w, 's) surroundings \<Rightarrow> approval_request \<Rightarrow> governance_decision \<Rightarrow> 'w pipeline_world \<Rightarrow> 'w pipeline_world" where
  "emit_governance_audit sr req d w =
     (if audit_sink sr
      then w\<lparr>audit_log := audit_log w @
             [GovernanceAudit \<lparr>ga_request_id = req_intent_id req, ga_decision = d, ga_actor = req_entity req,
                ga_action = req_tool req, ga_channel = req_channel req\<rparr>]\<rparr>
      else w)"

definition approved_governance :: "governance_decision \<Rightarrow> governance_decision" where
  "approved_governance g =
     (if verdict g = Deny
      then g\<lparr>verdict := Warn,
             rationale := rationale g @ ''; explicit operator approval overrode the default deny path''\<rparr>
      else g)"

definition request_approval_with_cache ::
    "('w, 's) surroundings \<Rightarrow> execution_context \<Rightarrow> approval_request \<Rightarrow> 'w pipeline_world
       \<Rightarrow> 'w pipeline_world \<times> (approval_error, approval_resolution) result" where
  "request_approval_with_cache sr ctx req w =
     (let (st, granted) = lookup_grant (req_tool req) (req_args_summary req) ctx (store w); w = w\<lparr>store := st\<rparr> in
      if granted then (w, Ok ResApproved)
      else (case broker sr of
              None \<Rightarrow> (w, Err (NoBroker (req_tool req) (req_intent_id req)))
            | Some ask \<Rightarrow>
                (case ask req (outside w) of
                   (ow, Inl e) \<Rightarrow> (w\<lparr>outside := ow\<rparr>, Err (BrokerFailed e))
                 | (ow, Inr d) \<Rightarrow>
                     let w = w\<lparr>outside := ow\<rparr>; g = evaluate_approval_governance sr req ow in
                     (case d of
                        Approved \<Rightarrow> (emit_governance_audit sr req (approved_governance g) w, Ok ResApproved)
                      | DeniedBy reason \<Rightarrow>
                          (emit_governance_audit sr req (g\<lparr>verdict := Deny, rationale := reason\<rparr>) w, Ok (ResDenied reason))
                      | ApprovedWithGrant grant \<Rightarrow>
                          let w = emit_governance_audit sr req (approved_governance g) w in
                          (case store w of
                             None \<Rightarrow> (w, Ok ResApproved)
                           | Some s \<Rightarrow>
                               (case add_grant (wall_clock sr ow) (persist_grants sr ow) grant (ctx_entity ctx) (ctx_tenant ctx) s of
                                  (s, Inl e) \<Rightarrow> (w\<lparr>store := Some s\<rparr>, Err (GrantNotPersisted e))
                                | (s, Inr _) \<Rightarrow> (w\<lparr>store := Some s\<rparr>, Ok ResApproved)))))))"

subsection \<open>Before the tool\<close>

datatype middleware =
  SecurityMw | HookMw "hook_config list" | EntityRateLimitMw | AuditMw | SemanticCompactionMw
| ToolOutputCompactionMw | OutputSizeLimitMw | ToolResultSanitizationMw | SecretScrubMw | TaintMw

definition default_middleware_chain :: "middleware list" where
  "default_middleware_chain =
     [SecurityMw, HookMw [], EntityRateLimitMw, AuditMw, SemanticCompactionMw, ToolOutputCompactionMw,
      OutputSizeLimitMw, ToolResultSanitizationMw, SecretScrubMw, TaintMw]"

definition signed_decimal :: "int \<Rightarrow> rstr" where
  "signed_decimal k = (if k < 0 then ''-'' @ decimal (nat (- k)) else decimal (nat k))"

definition run_single_hook ::
    "('w, 's) surroundings \<Rightarrow> hook_config \<Rightarrow> hook_payload \<Rightarrow> 'w \<Rightarrow> 'w \<times> (rstr, hook_response option) result" where
  "run_single_hook sr c p w =
     (let this_hook = ''hook `'' @ hook_command c @ ''` '' in
      case hook_process sr c p w of
        (w, HookFailed e) \<Rightarrow> (w, Err e)
      | (w, HookTimedOut) \<Rightarrow> (w, Err (this_hook @ ''timed out after '' @ decimal (hook_timeout_secs c) @ ''s''))
      | (w, HookExited code out err) \<Rightarrow>
          (w, if is_aborted sr w then Err (this_hook @ ''aborted by signal'')
              else if code = Some 0
              then Ok (Some (if trim out = [] then no_override
                             else case parse_response sr (trim out) of Some r \<Rightarrow> r | None \<Rightarrow> no_override))
              else if code = Some 2 then Ok None
              else Err (this_hook @ ''exited with code '' @
                     signed_decimal (case code of Some k \<Rightarrow> k | None \<Rightarrow> - 1) @ '': '' @ err)))"

fun run_hooks ::
    "('w, 's) surroundings \<Rightarrow> hook_event \<Rightarrow> hook_payload \<Rightarrow> hook_config list \<Rightarrow> 'w
       \<Rightarrow> 'w \<times> (hook_decision \<times> json option) option" where
  "run_hooks sr ev p [] w = (w, None)"
| "run_hooks sr ev p (c # cs) w =
     (if \<not> hook_enabled c \<or> ev \<notin> set (hook_events c) then run_hooks sr ev p cs w
      else if is_aborted sr w then (w, None)
      else (case run_single_hook sr c p w of
              (w, Inr (Some r)) \<Rightarrow>
                (case hr_decision r of
                   Some d \<Rightarrow> (w, Some (d, hr_updated_input r)) | None \<Rightarrow> run_hooks sr ev p cs w)
            | (w, Inr None) \<Rightarrow> (w, Some (HookDeny, None))
            | (w, Inl e) \<Rightarrow> run_hooks sr ev p cs w))"

definition hook_payload_for :: "hook_event \<Rightarrow> rstr \<Rightarrow> json \<Rightarrow> execution_context \<Rightarrow> hook_payload" where
  "hook_payload_for ev name args ctx =
     \<lparr>hp_event = ev, hp_tool = name, hp_args = args,
      hp_session = (case ctx_session ctx of Some s \<Rightarrow> s | None \<Rightarrow> []), hp_entity = ctx_entity ctx\<rparr>"

definition hooks_before ::
    "('w, 's) surroundings \<Rightarrow> hook_config list \<Rightarrow> rstr \<Rightarrow> json \<Rightarrow> execution_context \<Rightarrow> 'w \<Rightarrow> 'w \<times> middleware_decision" where
  "hooks_before sr hooks name args ctx w =
     (case run_hooks sr PreToolUse (hook_payload_for PreToolUse name args ctx) hooks w of
        (w, Some (HookDeny, _)) \<Rightarrow> (w, BlockCall ''blocked by pre-tool-use hook'')
      | (w, Some (HookAsk, _)) \<Rightarrow>
          (w, AskApproval (action_intent_new (fresh_id sr w) name (ctx_entity ctx)
                (JObject [(''tool'', JString name), (''reason'', JString ''hook requires approval'')])))
      | (w, Some (HookAllow, _)) \<Rightarrow> (w, Continue)
      | (w, None) \<Rightarrow> (w, Continue))"

definition limit_message :: "rate_limit_error \<Rightarrow> rstr" where
  "limit_message e =
     (let q = (\<lambda>s. [CHR 0x27] @ s @ [CHR 0x27]) in
      case e of
        GlobalExhausted \<Rightarrow> ''blocked by security policy: global action limit exceeded''
      | EntityExhausted s \<Rightarrow> block_prefix @ ''entity action limit exceeded for '' @ q s
      | ConversationExhausted s \<Rightarrow> block_prefix @ ''conversation action limit exceeded for '' @ q s
      | WorkspaceExhausted s \<Rightarrow> block_prefix @ ''workspace action limit exceeded for '' @ q s
      | BurstExhausted s \<Rightarrow> block_prefix @ ''burst limit exceeded for '' @ q s)"

definition conversation_scope :: "execution_context \<Rightarrow> rstr option" where
  "conversation_scope ctx = (case ctx_session ctx of Some s \<Rightarrow> Some s | None \<Rightarrow> source_channel_id ctx)"

definition rate_limit_before ::
    "('w, 's) surroundings \<Rightarrow> execution_context \<Rightarrow> 'w pipeline_world \<Rightarrow> 'w pipeline_world \<times> middleware_decision" where
  "rate_limit_before sr ctx w =
     (case check_and_record_scoped (limits sr) (monotonic sr (outside w)) (ctx_entity ctx) (conversation_scope ctx)
             (Some (ctx_workspace ctx)) (limiter w) of
        (l, Inr _) \<Rightarrow> (w\<lparr>limiter := l\<rparr>, Continue)
      | (l, Inl e) \<Rightarrow> (w\<lparr>limiter := l\<rparr>, BlockCall (limit_message e)))"

definition middleware_before ::
    "('w, 's) surroundings \<Rightarrow> middleware \<Rightarrow> rstr \<Rightarrow> json \<Rightarrow> execution_context \<Rightarrow> 'w pipeline_world
       \<Rightarrow> 'w pipeline_world \<times> middleware_decision" where
  "middleware_before sr mw name args ctx w =
     (case mw of
        SecurityMw \<Rightarrow>
          (case security_before (file_system sr (outside w)) (lstat sr (outside w)) (print_json sr)
                  (fresh_id sr (outside w)) name args ctx (store w) of
             (st, d) \<Rightarrow> (w\<lparr>store := st\<rparr>, d))
      | HookMw hooks \<Rightarrow>
          (case hooks_before sr hooks name args ctx (outside w) of (ow, d) \<Rightarrow> (w\<lparr>outside := ow\<rparr>, d))
      | EntityRateLimitMw \<Rightarrow> rate_limit_before sr ctx w
      | _ \<Rightarrow> (w, Continue))"

text \<open>\<open>Ok None\<close> lets the call through, \<open>Ok (Some reason)\<close> answers it with the reason.\<close>

fun before_execute ::
    "('w, 's) surroundings \<Rightarrow> middleware list \<Rightarrow> rstr \<Rightarrow> json \<Rightarrow> execution_context \<Rightarrow> 'w pipeline_world
       \<Rightarrow> 'w pipeline_world \<times> (approval_error, rstr option) result" where
  "before_execute sr [] name args ctx w = (w, Ok None)"
| "before_execute sr (mw # mws) name args ctx w =
     (case middleware_before sr mw name args ctx w of
        (w, Continue) \<Rightarrow> before_execute sr mws name args ctx w
      | (w, BlockCall reason) \<Rightarrow> (w, Ok (Some reason))
      | (w, AskApproval intent) \<Rightarrow>
          (case request_approval_with_cache sr ctx (approval_request_from_intent intent) w of
             (w, Inl e) \<Rightarrow> (w, Err e)
           | (w, Inr ResApproved) \<Rightarrow> before_execute sr mws name args ctx w
           | (w, Inr (ResDenied reason)) \<Rightarrow>
               (w, Ok (Some (''tool execution denied by approval broker: '' @ reason)))))"

subsection \<open>Running the tool\<close>

definition retryable_patterns :: "rstr list" where
  "retryable_patterns =
     [''timeout'', ''timed out'', ''temporarily unavailable'', ''temporary failure'', ''try again'', ''connection reset'',
      ''connection refused'', ''broken pipe'', ''service unavailable'', ''deadline exceeded'', ''econnreset'',
      ''econnrefused'', ''429'', ''rate limit'']"

definition is_retryable_tool_error :: "rstr \<Rightarrow> bool" where
  "is_retryable_tool_error e = list_ex (contains (to_ascii_lowercase e)) retryable_patterns"

definition failed_result :: "('w, 's) surroundings \<Rightarrow> rstr \<Rightarrow> 's call_result" where
  "failed_result sr message =
     \<lparr>success = False, output = [], call_error = Some message, attachments = [], taint_labels = [],
      semantic = no_semantic sr\<rparr>"

definition max_transient_tool_attempts :: nat where "max_transient_tool_attempts = 3"

text \<open>The loop, by the attempts left after this one; the pauses are in milliseconds.\<close>

fun retry_tool ::
    "('w, 's) surroundings \<Rightarrow> ('v \<Rightarrow> 'v \<times> (rstr, 's call_result) result) \<Rightarrow> nat \<Rightarrow> nat \<Rightarrow> 'v
       \<Rightarrow> 'v \<times> nat list \<times> 's call_result" where
  "retry_tool sr call left backoff w =
     (case call w of
        (w, Inr r) \<Rightarrow> (w, [], r)
      | (w, Inl e) \<Rightarrow>
          let attempt = max_transient_tool_attempts - left in
          if is_retryable_tool_error e \<and> 0 < left
          then (case retry_tool sr call (left - 1) (min (backoff * 2) 1000) w of
                  (w, pauses, r) \<Rightarrow> (w, backoff # pauses, r))
          else (w, [],
                failed_result sr
                  (if is_retryable_tool_error e \<and> 1 < attempt
                   then ''tool execution failed after '' @ decimal attempt @ '' attempt(s): '' @ e else e)))"

declare retry_tool.simps [simp del]

definition execute_with_retry ::
    "('w, 's) surroundings \<Rightarrow> json \<Rightarrow> execution_context \<Rightarrow> ('w, 's) tool \<Rightarrow> 'w pipeline_world
       \<Rightarrow> 'w pipeline_world \<times> nat list \<times> 's call_result" where
  "execute_with_retry sr args ctx t = retry_tool sr (run_tool t args ctx) (max_transient_tool_attempts - 1) 150"

subsection \<open>After the tool\<close>

definition compaction_threshold_chars :: nat where "compaction_threshold_chars = 8000"
definition compaction_head_chars :: nat where "compaction_head_chars = 400"
definition compaction_tail_chars :: nat where "compaction_tail_chars = 2000"
definition max_tool_output_bytes :: nat where "max_tool_output_bytes = 262144"
definition max_tool_output_lines :: nat where "max_tool_output_lines = 4000"

definition compact_output :: "rstr \<Rightarrow> rstr" where
  "compact_output out =
     (if length out \<le> compaction_threshold_chars then out
      else let n = char_count out in
        if n \<le> compaction_threshold_chars then out
        else let head = fst (char_prefix compaction_head_chars out);
                 (before_tail, tail) = char_prefix (n - compaction_tail_chars) out
             in if length before_tail \<le> length head then out
                else head @ [nl, nl] @ ''[... '' @ decimal (n - compaction_head_chars - compaction_tail_chars) @
                       '' chars pruned for context efficiency ...]'' @ [nl, nl] @ tail)"

definition size_suffix :: "nat \<Rightarrow> nat \<Rightarrow> rstr" where
  "size_suffix bytes rows =
     [nl] @ ''... [output truncated: '' @ decimal bytes @ '' bytes/'' @ decimal rows @ '' lines '' @
     [CHR 0xE2, CHR 0x86, CHR 0x92] @ '' '' @ decimal max_tool_output_bytes @ '' bytes/'' @
     decimal max_tool_output_lines @ '' lines max]''"

definition limit_output :: "rstr \<Rightarrow> rstr" where
  "limit_output out =
     (let rows = lines out; too_many = max_tool_output_lines < length rows;
          cut = (if too_many then join [nl] (take max_tool_output_lines rows) else out);
          too_long = max_tool_output_bytes < length cut;
          cut = (if too_long then take (floor_char_boundary cut max_tool_output_bytes) cut else cut)
      in if too_many \<or> too_long then cut @ size_suffix (length out) (length rows) else out)"

definition sanitize_result :: "('w, 's) surroundings \<Rightarrow> rstr \<Rightarrow> 's call_result \<Rightarrow> 's call_result" where
  "sanitize_result sr name r =
     (let prepare = (\<lambda>part text. prepare_content_with_trust (base64_decoders sr) (sha256 sr) (assess_content sr)
                        (''tool:'' @ name @ '':'' @ part) text);
          r = (if output r = [] then r
               else let p = prepare ''output'' (output r); r = r\<lparr>output := model_input p\<rparr> in
                 if pc_action p = BlockContent
                 then r\<lparr>success := False, call_error := Some ''tool output blocked by external-content policy''\<rparr> else r)
      in case call_error r of
           None \<Rightarrow> r
         | Some e \<Rightarrow>
             let p = prepare ''error'' e in
             if pc_action p = BlockContent
             then r\<lparr>success := False, call_error := Some ''tool error blocked by external-content policy''\<rparr>
             else r\<lparr>call_error := Some (model_input p)\<rparr>)"

definition scrub_result :: "'s call_result \<Rightarrow> 's call_result" where
  "scrub_result r = r\<lparr>output := scrub_secrets (output r), call_error := map_option scrub_secrets (call_error r)\<rparr>"

definition taint_result :: "rstr \<Rightarrow> execution_context \<Rightarrow> 's call_result \<Rightarrow> 's call_result" where
  "taint_result name ctx r =
     (let input = (case taint_context ctx of Some t \<Rightarrow> t | None \<Rightarrow> {}); out = propagate input name in
      r\<lparr>taint_labels := fold (\<lambda>l ls. if l \<in> set ls then ls else ls @ [l]) (taint_to_string_vec out) (taint_labels r)\<rparr>)"

definition middleware_after ::
    "('w, 's) surroundings \<Rightarrow> middleware \<Rightarrow> rstr \<Rightarrow> execution_context \<Rightarrow> 'w \<times> 's call_result \<Rightarrow> 'w \<times> 's call_result" where
  "middleware_after sr mw name ctx s =
     (case s of (w, r) \<Rightarrow>
      (case mw of
         HookMw hooks \<Rightarrow> (fst (run_hooks sr PostToolUse (hook_payload_for PostToolUse name JNull ctx) hooks w), r)
       | SemanticCompactionMw \<Rightarrow> compact_semantic sr ctx name r w
       | ToolOutputCompactionMw \<Rightarrow> (w, r\<lparr>output := compact_output (output r)\<rparr>)
       | OutputSizeLimitMw \<Rightarrow> (w, r\<lparr>output := limit_output (output r)\<rparr>)
       | ToolResultSanitizationMw \<Rightarrow> (w, sanitize_result sr name r)
       | SecretScrubMw \<Rightarrow> (w, scrub_result r)
       | TaintMw \<Rightarrow> (w, taint_result name ctx r)
       | SecurityMw \<Rightarrow> (w, r) | EntityRateLimitMw \<Rightarrow> (w, r) | AuditMw \<Rightarrow> (w, r)))"

definition runs_after_pre_execution_return :: "middleware \<Rightarrow> bool" where
  "runs_after_pre_execution_return mw = (case mw of HookMw _ \<Rightarrow> False | _ \<Rightarrow> True)"

definition after_execute ::
    "('w, 's) surroundings \<Rightarrow> middleware list \<Rightarrow> rstr \<Rightarrow> execution_context \<Rightarrow> 'w \<times> 's call_result \<Rightarrow> 'w \<times> 's call_result" where
  "after_execute sr mws name ctx = fold (\<lambda>mw. middleware_after sr mw name ctx) mws"

subsection \<open>Orchestrator and registry\<close>

definition tool_execution_summary :: "'s call_result \<Rightarrow> rstr" where
  "tool_execution_summary r =
     (case call_error r of
        Some e \<Rightarrow> if trim e \<noteq> [] then trim e
                  else if trim (output r) \<noteq> [] then trim (hd (lines (output r)))
                  else if success r then ''ok'' else ''failed''
      | None \<Rightarrow> if trim (output r) \<noteq> [] then trim (hd (lines (output r)))
                else if success r then ''ok'' else ''failed'')"

definition emit_tool_execution_audit ::
    "('w, 's) surroundings \<Rightarrow> rstr \<Rightarrow> rstr \<Rightarrow> 's call_result \<Rightarrow> 'w pipeline_world \<Rightarrow> 'w pipeline_world" where
  "emit_tool_execution_audit sr name args_summary r w =
     (if audit_sink sr
      then w\<lparr>audit_log := audit_log w @
             [ToolAudit \<lparr>tx_tool = name, tx_args_summary = args_summary, tx_success = success r,
                tx_summary = truncate_ellipsis (tool_execution_summary r) 180\<rparr>]\<rparr>
      else w)"

definition orchestrate ::
    "('w, 's) surroundings \<Rightarrow> middleware list \<Rightarrow> rstr \<Rightarrow> json \<Rightarrow> execution_context \<Rightarrow> ('w, 's) tool \<Rightarrow> 'w pipeline_world
       \<Rightarrow> 'w pipeline_world \<times> (approval_error, 's call_result) result" where
  "orchestrate sr mws name args ctx t w =
     (let ctx = ctx\<lparr>current_tool_capabilities := required_capabilities t\<rparr>;
          args_summary = summarize_args (print_json sr) name args in
      case before_execute sr mws name args ctx w of
        (w, Inl e) \<Rightarrow> (w, Err e)
      | (w, Inr (Some reason)) \<Rightarrow>
          (case after_execute sr (filter runs_after_pre_execution_return mws) name ctx (outside w, failed_result sr reason) of
             (ow, r) \<Rightarrow> (emit_tool_execution_audit sr name args_summary r (w\<lparr>outside := ow\<rparr>), Ok r))
      | (w, Inr None) \<Rightarrow>
          (case execute_with_retry sr args ctx t w of
             (w, _, r) \<Rightarrow>
               let signals = (if tracked_trust sr = None then [] else [(name, success r)]) in
               (case after_execute sr mws name ctx (outside w, r) of
                  (ow, r) \<Rightarrow>
                    (emit_tool_execution_audit sr name args_summary r
                       (w\<lparr>outside := ow, trust_signals := trust_signals w @ signals\<rparr>), Ok r))))"

definition registry_register :: "rstr \<Rightarrow> ('w, 's) tool \<Rightarrow> (rstr \<rightharpoonup> ('w, 's) tool) \<Rightarrow> (rstr \<rightharpoonup> ('w, 's) tool)" where
  "registry_register name t tools = tools(name \<mapsto> t)"

definition registry_unregister :: "rstr \<Rightarrow> (rstr \<rightharpoonup> ('w, 's) tool) \<Rightarrow> (rstr \<rightharpoonup> ('w, 's) tool) \<times> bool" where
  "registry_unregister name tools = (tools(name := None), tools name \<noteq> None)"

text \<open>The tools a context is told of.\<close>

definition specs_for_context :: "execution_context \<Rightarrow> (rstr \<rightharpoonup> ('w, 's) tool) \<Rightarrow> (rstr \<rightharpoonup> ('w, 's) tool)" where
  "specs_for_context ctx tools =
     (\<lambda>name. if (case allowed_tools ctx of None \<Rightarrow> True | Some allowed \<Rightarrow> name \<in> allowed) then tools name else None)"

definition registry_execute ::
    "('w, 's) surroundings \<Rightarrow> (rstr \<rightharpoonup> ('w, 's) tool) \<Rightarrow> middleware list \<Rightarrow> rstr \<Rightarrow> json \<Rightarrow> execution_context
       \<Rightarrow> 'w pipeline_world \<Rightarrow> 'w pipeline_world \<times> (approval_error, 's call_result) result" where
  "registry_execute sr tools mws name args ctx w =
     (let args_summary = summarize_args (print_json sr) name args in
      case tools name of
        None \<Rightarrow>
          let r = failed_result sr (''Tool not found: '' @ name)
          in (emit_tool_execution_audit sr name args_summary r w, Ok r)
      | Some t \<Rightarrow>
          (case orchestrate sr mws name args ctx t w of
             (w, Inl e) \<Rightarrow> (w, Err e)
           | (w, Inr r) \<Rightarrow>
               ((if success r
                 then w\<lparr>outside := remember sr ctx name args_summary
                          (truncate_ellipsis (tool_execution_summary r) 500) (outside w)\<rparr>
                 else w), Ok r)))"

subsection \<open>Retries\<close>

text \<open>Calls of a body that fail one after the other with the errors given.\<close>

fun failing_calls ::
    "('w \<Rightarrow> 'w \<times> (rstr, 's call_result) result) \<Rightarrow> 'w \<Rightarrow> rstr list \<Rightarrow> 'w \<Rightarrow> bool" where
  "failing_calls call w [] v \<longleftrightarrow> v = w"
| "failing_calls call w (e # es) v \<longleftrightarrow> (case call w of (u, Inl e') \<Rightarrow> e' = e \<and> failing_calls call u es v | _ \<Rightarrow> False)"

text \<open>The result of the last call: what the body returned, or a failure that carries its error.\<close>

definition last_call ::
    "('w \<Rightarrow> 'w \<times> (rstr, 's call_result) result) \<Rightarrow> nat \<Rightarrow> 'w \<Rightarrow> 'w \<times> 's call_result \<Rightarrow> bool" where
  "last_call call n v out \<longleftrightarrow>
     (case call v of
        (u, Inr r) \<Rightarrow> out = (u, r)
      | (u, Inl e) \<Rightarrow> fst out = u \<and> \<not> success (snd out) \<and> output (snd out) = [] \<and>
          call_error (snd out) =
            Some (if is_retryable_tool_error e then ''tool execution failed after 3 attempt(s): '' @ e else e) \<and>
          (is_retryable_tool_error e \<longrightarrow> n = 2))"

lemma decimal_3: "decimal 3 = ''3''"
  by code_simp

lemma retry_tool_Inr: "call w = (u, Inr r) \<Longrightarrow> retry_tool sr call left backoff w = (u, [], r)"
  by (subst retry_tool.simps) simp

lemma retry_tool_again:
  "call w = (u, Inl e) \<Longrightarrow> is_retryable_tool_error e \<Longrightarrow>
   retry_tool sr call (Suc left) backoff w =
     (case retry_tool sr call left (min (backoff * 2) 1000) u of (v, pauses, r) \<Rightarrow> (v, backoff # pauses, r))"
  by (subst retry_tool.simps) simp

lemma retry_tool_stop:
  "call w = (u, Inl e) \<Longrightarrow> \<not> is_retryable_tool_error e \<Longrightarrow>
   retry_tool sr call left backoff w = (u, [], failed_result sr e)"
  by (subst retry_tool.simps) simp

lemma retry_tool_exhausted:
  "call w = (u, Inl e) \<Longrightarrow> is_retryable_tool_error e \<Longrightarrow>
   retry_tool sr call 0 backoff w = (u, [], failed_result sr (''tool execution failed after 3 attempt(s): '' @ e))"
  by (subst retry_tool.simps) (simp add: max_transient_tool_attempts_def decimal_3)

lemma failed_result_simps [simp]:
  "success (failed_result sr m) = False" "output (failed_result sr m) = []"
  "call_error (failed_result sr m) = Some m" "taint_labels (failed_result sr m) = []"
  by (simp_all add: failed_result_def)

text \<open>The loop with a number of attempts left: it stops after at most that many failures, and pauses once
  after each of them, twice as long each time.\<close>

fun pauses_from :: "nat \<Rightarrow> nat \<Rightarrow> nat list" where
  "pauses_from 0 backoff = []"
| "pauses_from (Suc n) backoff = backoff # pauses_from n (min (backoff * 2) 1000)"

definition retried ::
    "('w \<Rightarrow> 'w \<times> (rstr, 's call_result) result) \<Rightarrow> nat \<Rightarrow> nat \<Rightarrow> 'w \<Rightarrow> 'w \<times> nat list \<times> 's call_result \<Rightarrow> bool" where
  "retried call left backoff w out \<longleftrightarrow>
     (case out of (w', pauses, r) \<Rightarrow>
      \<exists>es v. failing_calls call w es v \<and> list_all is_retryable_tool_error es \<and> length es \<le> left \<and>
        pauses = pauses_from (length es) backoff \<and> last_call call (2 - left + length es) v (w', r))"

lemma retry_tool_retried: "left \<le> 2 \<Longrightarrow> retried call left backoff w (retry_tool sr call left backoff w)"
proof (induction left arbitrary: backoff w)
  case 0
  show ?case
  proof (cases "call w")
    case (Pair u res)
    then show ?thesis
      by (cases res; cases "\<exists>e. res = Inl e \<and> is_retryable_tool_error e")
        (auto simp: retried_def last_call_def retry_tool_Inr retry_tool_stop retry_tool_exhausted intro!: exI [of _ "[]"])
  qed
next
  case (Suc left)
  show ?case
  proof (cases "call w")
    case call: (Pair u res)
    show ?thesis
    proof (cases "\<exists>e. res = Inl e \<and> is_retryable_tool_error e")
      case True
      then obtain e where e: "res = Inl e" "is_retryable_tool_error e" by blast
      obtain w' ps r where rest: "retry_tool sr call left (min (backoff * 2) 1000) u = (w', ps, r)"
        using prod_cases3 by blast
      have "retried call left (min (backoff * 2) 1000) u (w', ps, r)"
        using Suc.IH [of "min (backoff * 2) 1000" u] Suc.prems rest by simp
      then obtain es v where "failing_calls call u es v" "list_all is_retryable_tool_error es" "length es \<le> left"
          "ps = pauses_from (length es) (min (backoff * 2) 1000)" "last_call call (2 - left + length es) v (w', r)"
        by (auto simp: retried_def)
      moreover have "2 - left + length es = 2 - Suc left + length (e # es)" using Suc.prems by simp
      ultimately have "failing_calls call w (e # es) v \<and> list_all is_retryable_tool_error (e # es) \<and>
          length (e # es) \<le> Suc left \<and> backoff # ps = pauses_from (length (e # es)) backoff \<and>
          last_call call (2 - Suc left + length (e # es)) v (w', r)"
        using call e by (simp del: diff_Suc_Suc)
      moreover have "retry_tool sr call (Suc left) backoff w = (w', backoff # ps, r)"
        using call e rest by (simp add: retry_tool_again)
      ultimately show ?thesis unfolding retried_def by (simp only: prod.case) blast
    next
      case False
      with call show ?thesis
        by (cases res) (auto simp: retried_def last_call_def retry_tool_Inr retry_tool_stop intro!: exI [of _ "[]"])
    qed
  qed
qed

lemma execute_with_retry_runs:
  assumes "execute_with_retry sr args ctx t w = (w', pauses, r)"
  shows "\<exists>es v. failing_calls (run_tool t args ctx) w es v \<and> list_all is_retryable_tool_error es \<and>
    length es \<le> 2 \<and> pauses = take (length es) [150, 300] \<and> last_call (run_tool t args ctx) (length es) v (w', r)"
proof -
  have "retried (run_tool t args ctx) 2 150 w (w', pauses, r)"
    using retry_tool_retried [of 2 "run_tool t args ctx" 150 w sr] assms
    by (simp add: execute_with_retry_def max_transient_tool_attempts_def)
  then obtain es v where es: "failing_calls (run_tool t args ctx) w es v" "list_all is_retryable_tool_error es"
      "length es \<le> 2" "pauses = pauses_from (length es) 150" "last_call (run_tool t args ctx) (length es) v (w', r)"
    unfolding retried_def by (simp only: prod.case diff_self_eq_0 add_0) blast
  moreover have "pauses_from (length es) 150 = take (length es) [150, 300]"
    using es(3) by (auto simp: le_Suc_eq numeral_2_eq_2)
  ultimately show ?thesis by metis
qed

text \<open>C4: a tool body is run at most three times. It is run again only after an error that may pass, first
  after 150 and then after 300 milliseconds, and never after it has returned a result; what the caller
  gets is the result of the last run, or a failure with its error: the error itself when it is not
  one to retry, and after three runs the error with the number of the runs.\<close>

theorem tool_retries_bounded:
  assumes "execute_with_retry sr args ctx t w = (w', pauses, r)"
  shows "\<exists>es v. failing_calls (run_tool t args ctx) w es v \<and> list_all is_retryable_tool_error es \<and>
    length es \<le> 2 \<and> pauses = take (length es) [150, 300] \<and> last_call (run_tool t args ctx) (length es) v (w', r)"
  using execute_with_retry_runs [OF assms] .

subsection \<open>What the model is shown\<close>

lemma scrub_result_simps [simp]:
  "output (scrub_result r) = scrub_secrets (output r)"
  "call_error (scrub_result r) = map_option scrub_secrets (call_error r)"
  "taint_labels (scrub_result r) = taint_labels r"
  by (simp_all add: scrub_result_def)

lemma taint_result_simps [simp]:
  "output (taint_result name ctx r) = output r" "call_error (taint_result name ctx r) = call_error r"
  "success (taint_result name ctx r) = success r"
  by (simp_all add: taint_result_def Let_def)

lemma set_add_labels: "set (fold (\<lambda>l ls. if l \<in> set ls then ls else ls @ [l]) new old) = set new \<union> set old"
  by (induction new arbitrary: old) auto

lemma taint_result_labels:
  "set (taint_labels (taint_result name ctx r)) =
     set (taint_to_string_vec (propagate (case taint_context ctx of Some t \<Rightarrow> t | None \<Rightarrow> {}) name)) \<union> set (taint_labels r)"
  by (simp add: taint_result_def Let_def set_add_labels)

text \<open>An output or an error in the envelope of external content.\<close>

definition enveloped :: "('w, 's) surroundings \<Rightarrow> rstr \<Rightarrow> rstr \<Rightarrow> rstr \<Rightarrow> bool" where
  "enveloped sr name part text \<longleftrightarrow>
     (\<exists>content. text = model_input (prepare_content_with_trust (base64_decoders sr) (sha256 sr) (assess_content sr)
        (''tool:'' @ name @ '':'' @ part) content))"

lemma sanitize_result_output:
  "output (sanitize_result sr name r) = [] \<or> enveloped sr name ''output'' (output (sanitize_result sr name r))"
  unfolding sanitize_result_def enveloped_def Let_def by (simp split: option.splits) blast

lemma sanitize_result_error:
  "call_error (sanitize_result sr name r) = Some e \<Longrightarrow>
     e = ''tool error blocked by external-content policy'' \<or> enveloped sr name ''error'' e"
  unfolding sanitize_result_def enveloped_def Let_def by (auto split: option.splits if_splits)

lemma after_execute_Nil [simp]: "after_execute sr [] name ctx s = s"
  by (simp add: after_execute_def)

lemma after_execute_Cons [simp]:
  "after_execute sr (mw # mws) name ctx s = after_execute sr mws name ctx (middleware_after sr mw name ctx s)"
  by (simp add: after_execute_def)

lemma after_execute_append:
  "after_execute sr (mws @ mws') name ctx s = after_execute sr mws' name ctx (after_execute sr mws name ctx s)"
  by (simp add: after_execute_def)

text \<open>The last three stages of the default chain.\<close>

definition shown :: "('w, 's) surroundings \<Rightarrow> rstr \<Rightarrow> execution_context \<Rightarrow> 's call_result \<Rightarrow> 's call_result" where
  "shown sr name ctx r = taint_result name ctx (scrub_result (sanitize_result sr name r))"

lemma after_default_shown:
  assumes "mws = default_middleware_chain \<or> mws = filter runs_after_pre_execution_return default_middleware_chain"
  shows "\<exists>r'. snd (after_execute sr mws name ctx s) = shown sr name ctx r'"
proof -
  have "\<exists>first. mws = first @ [ToolResultSanitizationMw, SecretScrubMw, TaintMw]"
    using assms by (auto simp: default_middleware_chain_def runs_after_pre_execution_return_def)
  then obtain first where mws: "mws = first @ [ToolResultSanitizationMw, SecretScrubMw, TaintMw]" by blast
  obtain u r' where "after_execute sr first name ctx s = (u, r')" by (rule prod.exhaust)
  then have "snd (after_execute sr mws name ctx s) = shown sr name ctx r'"
    by (simp add: mws after_execute_append middleware_after_def shown_def)
  then show ?thesis by blast
qed

lemma orchestrate_shown:
  assumes "orchestrate sr default_middleware_chain name args ctx t w = (w', Inr r)"
  shows "\<exists>r'. r = shown sr name (ctx\<lparr>current_tool_capabilities := required_capabilities t\<rparr>) r'"
proof -
  let ?ctx = "ctx\<lparr>current_tool_capabilities := required_capabilities t\<rparr>"
  obtain mws s where "mws = default_middleware_chain \<or> mws = filter runs_after_pre_execution_return default_middleware_chain"
      "r = snd (after_execute sr mws name ?ctx s)"
    using assms unfolding orchestrate_def Let_def
    by (auto split: prod.splits sum.splits option.splits) (metis snd_conv)+
  then show ?thesis using after_default_shown by metis
qed

lemma registry_execute_Inr:
  "tools name = Some t \<Longrightarrow> registry_execute sr tools mws name args ctx w = (w', Inr r) \<Longrightarrow>
     \<exists>v. orchestrate sr mws name args ctx t w = (v, Inr r)"
  by (auto simp: registry_execute_def Let_def split: prod.splits sum.splits)

lemma shown_output:
  "\<exists>text. output (shown sr name ctx r) = scrub_secrets text \<and> (text = [] \<or> enveloped sr name ''output'' text)"
  using sanitize_result_output [of sr name r] by (auto simp: shown_def)

lemma shown_error:
  "call_error (shown sr name ctx r) = Some e \<Longrightarrow>
     \<exists>text. e = scrub_secrets text \<and>
       (text = ''tool error blocked by external-content policy'' \<or> enveloped sr name ''error'' text)"
  using sanitize_result_error [of sr name r] by (auto simp: shown_def)

lemma shown_labels:
  "set (taint_to_string_vec (propagate (case taint_context ctx of Some t \<Rightarrow> t | None \<Rightarrow> {}) name))
     \<subseteq> set (taint_labels (shown sr name ctx r))"
  by (simp add: shown_def taint_result_labels)

text \<open>C2: what the model is shown of a call. Through the default chain, whatever the body, the hooks, the
  semantic compaction and the broker do, the output of a registered tool is empty or the scrubbed text
  of an envelope of external content, its error is the scrubbed text of an envelope or the notice of a
  block, none of the markers of secrets is followed by a character of a token in either, and the result
  carries every taint label that the taint of the context and the tool imply. Blocked and failed
  calls are included.\<close>

theorem tool_results_guarded:
  assumes "tools name = Some t"
    and "registry_execute sr tools default_middleware_chain name args ctx w = (w', Inr r)"
  shows "(\<exists>text. output r = scrub_secrets text \<and> (text = [] \<or> enveloped sr name ''output'' text)) \<and>
    (\<forall>e. call_error r = Some e \<longrightarrow>
       (\<exists>text. e = scrub_secrets text \<and>
          (text = ''tool error blocked by external-content policy'' \<or> enveloped sr name ''error'' text))) \<and>
    (\<forall>p \<in> set scrubbed_markers. \<not> exposes p (output r) \<and> (\<forall>e. call_error r = Some e \<longrightarrow> \<not> exposes p e)) \<and>
    set (taint_to_string_vec (propagate (case taint_context ctx of Some t \<Rightarrow> t | None \<Rightarrow> {}) name))
      \<subseteq> set (taint_labels r)"
proof -
  let ?ctx = "ctx\<lparr>current_tool_capabilities := required_capabilities t\<rparr>"
  obtain r' where r: "r = shown sr name ?ctx r'"
    using registry_execute_Inr [OF assms] orchestrate_shown by blast
  have "(\<exists>text. output r = scrub_secrets text \<and> (text = [] \<or> enveloped sr name ''output'' text))"
    unfolding r by (rule shown_output)
  moreover have "\<forall>e. call_error r = Some e \<longrightarrow> (\<exists>text. e = scrub_secrets text \<and>
      (text = ''tool error blocked by external-content policy'' \<or> enveloped sr name ''error'' text))"
    unfolding r using shown_error by blast
  moreover have "set (taint_to_string_vec (propagate (case taint_context ctx of Some t \<Rightarrow> t | None \<Rightarrow> {}) name))
      \<subseteq> set (taint_labels r)"
    using shown_labels [of ?ctx name sr r'] by (simp add: r)
  ultimately show ?thesis using scrub_secrets_clean by metis
qed

subsection \<open>The audit trail\<close>

fun is_tool_audit :: "audit_event \<Rightarrow> bool" where
  "is_tool_audit (ToolAudit _) = True"
| "is_tool_audit (GovernanceAudit _) = False"

abbreviation tool_audits :: "'w pipeline_world \<Rightarrow> audit_event list" where
  "tool_audits w \<equiv> filter is_tool_audit (audit_log w)"

lemma tool_audits_governance [simp]: "tool_audits (emit_governance_audit sr req d w) = tool_audits w"
  by (simp add: emit_governance_audit_def)

lemma tool_audits_approval:
  "request_approval_with_cache sr ctx req w = (w', res) \<Longrightarrow> tool_audits w' = tool_audits w"
  unfolding request_approval_with_cache_def Let_def
  by (auto split: prod.splits option.splits sum.splits approval_decision.splits if_splits)

lemma tool_audits_middleware: "middleware_before sr mw name args ctx w = (w', d) \<Longrightarrow> tool_audits w' = tool_audits w"
  by (cases mw) (auto simp: middleware_before_def rate_limit_before_def split: prod.splits sum.splits)

lemma tool_audits_before: "before_execute sr mws name args ctx w = (w', res) \<Longrightarrow> tool_audits w' = tool_audits w"
proof (induction mws arbitrary: w)
  case Nil
  then show ?case by simp
next
  case (Cons mw mws)
  obtain v d where v: "middleware_before sr mw name args ctx w = (v, d)" by (rule prod.exhaust)
  note same = tool_audits_middleware [OF v]
  show ?case
    using Cons v same
    by (auto split: middleware_decision.splits prod.splits sum.splits approval_resolution.splits dest!: tool_audits_approval)
qed

definition tool_audit_of :: "('w, 's) surroundings \<Rightarrow> rstr \<Rightarrow> json \<Rightarrow> 's call_result \<Rightarrow> audit_event" where
  "tool_audit_of sr name args r =
     ToolAudit \<lparr>tx_tool = name, tx_args_summary = summarize_args (print_json sr) name args, tx_success = success r,
       tx_summary = truncate_ellipsis (tool_execution_summary r) 180\<rparr>"

lemma tool_audits_emit:
  "tool_audits (emit_tool_execution_audit sr name (summarize_args (print_json sr) name args) r w) =
     tool_audits w @ (if audit_sink sr then [tool_audit_of sr name args r] else [])"
  by (simp add: emit_tool_execution_audit_def tool_audit_of_def)

text \<open>
  The world a body finds, when the chain lets the call through, and the world its runs leave; a call that is
  answered or fails before that leaves the world as the chain does.
\<close>

definition chain_world ::
    "('w, 's) surroundings \<Rightarrow> (rstr \<rightharpoonup> ('w, 's) tool) \<Rightarrow> middleware list \<Rightarrow> rstr \<Rightarrow> json \<Rightarrow> execution_context
       \<Rightarrow> 'w pipeline_world \<Rightarrow> 'w pipeline_world" where
  "chain_world sr tools mws name args ctx w =
     (case tools name of
        None \<Rightarrow> w
      | Some t \<Rightarrow> fst (before_execute sr mws name args (ctx\<lparr>current_tool_capabilities := required_capabilities t\<rparr>) w))"

definition body_world ::
    "('w, 's) surroundings \<Rightarrow> (rstr \<rightharpoonup> ('w, 's) tool) \<Rightarrow> middleware list \<Rightarrow> rstr \<Rightarrow> json \<Rightarrow> execution_context
       \<Rightarrow> 'w pipeline_world \<Rightarrow> 'w pipeline_world" where
  "body_world sr tools mws name args ctx w =
     (case tools name of
        None \<Rightarrow> w
      | Some t \<Rightarrow>
          let ctx = ctx\<lparr>current_tool_capabilities := required_capabilities t\<rparr> in
          (case before_execute sr mws name args ctx w of
             (v, Inr None) \<Rightarrow> fst (execute_with_retry sr args ctx t v)
           | (v, _) \<Rightarrow> v))"

lemma tool_audits_chain_world: "tool_audits (chain_world sr tools mws name args ctx w) = tool_audits w"
  by (auto simp: chain_world_def tool_audits_before [OF prod.collapse [symmetric]] split: option.split)

lemma tool_audits_orchestrate:
  "orchestrate sr mws name args ctx t w = (w', res) \<Longrightarrow> tools name = Some t \<Longrightarrow>
   tool_audits w' = tool_audits (body_world sr tools mws name args ctx w) @
     (case res of Inl _ \<Rightarrow> [] | Inr r \<Rightarrow> if audit_sink sr then [tool_audit_of sr name args r] else [])"
  unfolding orchestrate_def Let_def body_world_def
  by (auto split: prod.splits sum.splits option.splits simp: tool_audits_emit)

text \<open>C3: one record for every answered call. For every chain of middleware, every call that the registry
  answers, be it executed, blocked, denied, failed or of an unknown tool, adds exactly one tool record
  of its own to the audit trail, with the name, the scrubbed summary of the arguments, and the outcome
  and summary of the very result that is returned. It comes last: the chain adds no tool record, and
  between its end and the record of the call stand only the records that the runs of the body leave,
  which a delegated run makes with the calls of its own. A call that ends in an error of the approval
  flow adds none.\<close>

theorem tool_calls_audited:
  "tool_audits (chain_world sr tools mws name args ctx w) = tool_audits w \<and>
   (case registry_execute sr tools mws name args ctx w of (w', res) \<Rightarrow>
      (case res of
         Inl _ \<Rightarrow> w' = chain_world sr tools mws name args ctx w
       | Inr r \<Rightarrow> tool_audits w' = tool_audits (body_world sr tools mws name args ctx w) @
           (if audit_sink sr then [tool_audit_of sr name args r] else [])))"
proof (cases "tools name")
  case None
  then show ?thesis by (simp add: registry_execute_def Let_def tool_audits_emit body_world_def tool_audits_chain_world)
next
  case (Some t)
  obtain v res where v: "orchestrate sr mws name args ctx t w = (v, res)" by (rule prod.exhaust)
  have "v = chain_world sr tools mws name args ctx w" if "res = Inl e" for e
    using v Some that by (auto simp: orchestrate_def chain_world_def Let_def split: prod.splits sum.splits option.splits)
  then show ?thesis using tool_audits_orchestrate [of sr mws name args ctx t w v res tools, OF v Some] Some v
    by (cases res) (simp_all add: registry_execute_def Let_def tool_audits_chain_world)
qed

text \<open>A body that writes no tool record leaves the record of the call alone.\<close>

lemma quiet_runs:
  assumes "\<And>v. tool_audits (fst (call v)) = tool_audits v"
  shows "failing_calls call w es v \<Longrightarrow> tool_audits v = tool_audits w"
proof (induction es arbitrary: w)
  case (Cons e es)
  then show ?case using assms [of w] by (auto split: prod.splits sum.splits)
qed simp

lemma quiet_body_world:
  assumes "\<And>t v ctx. tools name = Some t \<Longrightarrow> tool_audits (fst (run_tool t args ctx v)) = tool_audits v"
  shows "tool_audits (body_world sr tools mws name args ctx w) = tool_audits w"
proof (cases "tools name")
  case (Some t)
  let ?ctx = "ctx\<lparr>current_tool_capabilities := required_capabilities t\<rparr>"
  have quiet: "tool_audits (fst (execute_with_retry sr args ?ctx t v)) = tool_audits v" for v
  proof -
    obtain w' ps r where run: "execute_with_retry sr args ?ctx t v = (w', ps, r)" using prod_cases3 by blast
    obtain es u where es: "failing_calls (run_tool t args ?ctx) v es u" and
        last: "last_call (run_tool t args ?ctx) (length es) u (w', r)"
      using execute_with_retry_runs [OF run] by blast
    have "tool_audits u = tool_audits v" by (rule quiet_runs [OF _ es]) (rule assms [OF Some])
    moreover have "w' = fst (run_tool t args ?ctx u)"
      using last by (auto simp: last_call_def split: prod.splits sum.splits)
    ultimately show ?thesis using assms [OF Some, of ?ctx u] run by simp
  qed
  obtain v res where before: "before_execute sr mws name args ?ctx w = (v, res)" by (rule prod.exhaust)
  from tool_audits_before [OF before] show ?thesis
    using before quiet by (auto simp: body_world_def Some Let_def split: sum.splits option.splits)
qed (simp add: body_world_def)

subsection \<open>When a body runs\<close>

text \<open>The approval of a call: a rule or the level lets it through, a grant covers it, or the operator, asked
  about this tool and these arguments for this entity, has agreed.\<close>

definition holds_grant :: "('w, 's) surroundings \<Rightarrow> rstr \<Rightarrow> json \<Rightarrow> execution_context \<Rightarrow> 'w pipeline_world \<Rightarrow> bool" where
  "holds_grant sr name args ctx w \<longleftrightarrow>
     (\<exists>s. store w = Some s \<and>
        is_granted name (summarize_args (print_json sr) name args) (ctx_entity ctx) (ctx_tenant ctx)
          (set_entity_allowlist (ctx_entity ctx) (allowed_tools ctx) s))"

definition approved :: "('w, 's) surroundings \<Rightarrow> rstr \<Rightarrow> json \<Rightarrow> execution_context \<Rightarrow> 'w pipeline_world \<Rightarrow> bool" where
  "approved sr name args ctx w \<longleftrightarrow>
     (let args_summary = summarize_args (print_json sr) name args; granted = holds_grant sr name args ctx w;
          decision = (case policy_engine ctx of
              Some rules \<Rightarrow> ev_decision (engine_evaluate rules name args_summary granted (ctx_autonomy ctx))
            | None \<Rightarrow> if granted \<or> ctx_autonomy ctx \<noteq> Supervised then DecAllow else DecRequireApproval)
      in decision = DecAllow \<or>
         decision = DecRequireApproval \<and>
           (granted \<or>
            (\<exists>ask req d. broker sr = Some ask \<and> req_tool req = name \<and> req_args_summary req = args_summary \<and>
               req_entity req = ctx_entity ctx \<and> snd (ask req (outside w)) = Inr d \<and> (\<forall>reason. d \<noteq> DeniedBy reason))))"

lemma request_from_intent:
  assumes "intent = action_intent_new fresh name entity (approval_payload name args_summary reason)"
  shows "req_tool (approval_request_from_intent intent) = name"
    "req_args_summary (approval_request_from_intent intent) = args_summary"
    "req_entity (approval_request_from_intent intent) = entity"
  by (simp_all add: assms approval_request_from_intent_def action_intent_new_def approval_payload_def str_arg_def get_str_def)

lemma lookup_grant_simps:
  "snd (lookup_grant tool args_summary ctx st) \<longleftrightarrow>
     (\<exists>s. st = Some s \<and> is_granted tool args_summary (ctx_entity ctx) (ctx_tenant ctx)
        (set_entity_allowlist (ctx_entity ctx) (allowed_tools ctx) s))"
  "snd (lookup_grant tool args_summary ctx (fst (lookup_grant tool args_summary ctx st))) =
     snd (lookup_grant tool args_summary ctx st)"
  by (auto simp: lookup_grant_def Let_def set_entity_allowlist_def is_granted_def split: option.splits)

lemma approval_limiter: "request_approval_with_cache sr ctx req w = (w', res) \<Longrightarrow> limiter w' = limiter w"
  unfolding request_approval_with_cache_def Let_def emit_governance_audit_def
  by (auto split: prod.splits option.splits sum.splits approval_decision.splits if_splits)

lemma approval_resolved:
  assumes "request_approval_with_cache sr ctx req w = (w', Inr ResApproved)"
  shows "snd (lookup_grant (req_tool req) (req_args_summary req) ctx (store w)) \<or>
    (\<exists>ask d. broker sr = Some ask \<and> snd (ask req (outside w)) = Inr d \<and> (\<forall>reason. d \<noteq> DeniedBy reason))"
  using assms unfolding request_approval_with_cache_def Let_def
  by (auto split: prod.splits option.splits sum.splits approval_decision.splits if_splits)

text \<open>A stage lets a call through in world \<open>v\<close>: at once, or after an approval.\<close>

definition lets_through ::
    "('w, 's) surroundings \<Rightarrow> middleware \<Rightarrow> rstr \<Rightarrow> json \<Rightarrow> execution_context \<Rightarrow> 'w pipeline_world \<Rightarrow> 'w pipeline_world \<Rightarrow> bool" where
  "lets_through sr mw name args ctx w v \<longleftrightarrow>
     (case middleware_before sr mw name args ctx w of
        (u, Continue) \<Rightarrow> v = u
      | (u, BlockCall _) \<Rightarrow> False
      | (u, AskApproval intent) \<Rightarrow>
          request_approval_with_cache sr ctx (approval_request_from_intent intent) u = (v, Inr ResApproved))"

lemma before_execute_Cons_None:
  "before_execute sr (mw # mws) name args ctx w = (w', Inr None) \<longleftrightarrow>
     (\<exists>v. lets_through sr mw name args ctx w v \<and> before_execute sr mws name args ctx v = (w', Inr None))"
  by (auto simp: lets_through_def split: prod.splits middleware_decision.splits sum.splits approval_resolution.splits)

declare before_execute.simps(2) [simp del]

lemma holds_grant_lookup:
  "lookup_grant name (summarize_args (print_json sr) name args) ctx (store w) = (st, g) \<Longrightarrow>
     g = holds_grant sr name args ctx w \<and>
     snd (lookup_grant name (summarize_args (print_json sr) name args) ctx st) = g"
  using lookup_grant_simps [of name "summarize_args (print_json sr) name args" ctx "store w"]
  by (simp add: holds_grant_def)

lemma approval_stage:
  assumes check: "check_approval_requirement (print_json sr) fresh name args ctx (store w) = (st, d)"
    and through: "d = Continue \<or> (\<exists>intent v. d = AskApproval intent \<and>
        request_approval_with_cache sr ctx (approval_request_from_intent intent) (w\<lparr>store := st\<rparr>) = (v, Inr ResApproved))"
  shows "approved sr name args ctx w"
proof -
  let ?sum = "summarize_args (print_json sr) name args"
  obtain st' g where look: "lookup_grant name ?sum ctx (store w) = (st', g)" by (rule prod.exhaust)
  note g = holds_grant_lookup [OF look]
  then have held: "holds_grant sr name args ctx w = g" by simp
  define decision where "decision = (case policy_engine ctx of
      Some rules \<Rightarrow> ev_decision (engine_evaluate rules name ?sum g (ctx_autonomy ctx))
    | None \<Rightarrow> if g \<or> ctx_autonomy ctx \<noteq> Supervised then DecAllow else DecRequireApproval)"
  have "st = st'" and d: "(d = Continue \<and> decision = DecAllow) \<or> (\<exists>r. d = BlockCall r) \<or>
      (decision = DecRequireApproval \<and> (\<exists>reason. d = AskApproval (action_intent_new fresh name (ctx_entity ctx)
          (approval_payload name ?sum reason))))"
    using check look unfolding check_approval_requirement_def Let_def decision_def
    by (auto split: option.splits policy_decision_kind.splits if_splits)
  have goal: "approved sr name args ctx w \<longleftrightarrow> decision = DecAllow \<or>
      decision = DecRequireApproval \<and> (g \<or> (\<exists>ask req d. broker sr = Some ask \<and> req_tool req = name \<and>
         req_args_summary req = ?sum \<and> req_entity req = ctx_entity ctx \<and> snd (ask req (outside w)) = Inr d \<and>
         (\<forall>reason. d \<noteq> DeniedBy reason)))"
    unfolding approved_def Let_def decision_def held ..
  show ?thesis
  proof (cases "decision = DecAllow")
    case True
    then show ?thesis using goal by blast
  next
    case False
    then obtain reason intent v where ask: "decision = DecRequireApproval"
        "intent = action_intent_new fresh name (ctx_entity ctx) (approval_payload name ?sum reason)"
        "request_approval_with_cache sr ctx (approval_request_from_intent intent) (w\<lparr>store := st\<rparr>) = (v, Inr ResApproved)"
      using d through by blast
    note req = request_from_intent [OF ask(2)]
    from approval_resolved [OF ask(3)] have "g \<or> (\<exists>ask d. broker sr = Some ask \<and>
        snd (ask (approval_request_from_intent intent) (outside w)) = Inr d \<and> (\<forall>reason. d \<noteq> DeniedBy reason))"
      using g \<open>st = st'\<close> by (simp add: req)
    then show ?thesis using goal ask(1) req by blast
  qed
qed

lemma security_stage:
  assumes "lets_through sr SecurityMw name args ctx w v"
  shows "call_allowed name ctx" "arguments_allowed (file_system sr (outside w)) (lstat sr (outside w)) name args ctx"
    "approved sr name args ctx w" "limiter v = limiter w"
proof -
  let ?env = "file_system sr (outside w)" and ?lstat = "lstat sr (outside w)"
  obtain st d where sec: "security_before ?env ?lstat (print_json sr) (fresh_id sr (outside w)) name args ctx (store w) = (st, d)"
    by (rule prod.exhaust)
  have through: "(d = Continue \<and> v = w\<lparr>store := st\<rparr>) \<or> (\<exists>intent. d = AskApproval intent \<and>
        request_approval_with_cache sr ctx (approval_request_from_intent intent) (w\<lparr>store := st\<rparr>) = (v, Inr ResApproved))"
    using assms sec by (auto simp: lets_through_def middleware_before_def split: middleware_decision.splits)
  then show "limiter v = limiter w" by (auto dest: approval_limiter)
  have global: "check_global_policy name ctx = None"
    using sec through by (auto simp: security_before_def check_global_policy_def split: option.splits if_splits sum.splits)
  then show "call_allowed name ctx" by (simp add: check_global_policy_None)
  have specific: "check_tool_specific_policy ?env ?lstat name args ctx = None"
  proof (rule ccontr)
    assume "\<not> ?thesis"
    then obtain e where "check_tool_specific_policy ?env ?lstat name args ctx = Some (BlockCall e)"
      using specific_blocks by blast
    then show False using sec through global by (auto simp: security_before_def)
  qed
  then show "arguments_allowed ?env ?lstat name args ctx" by (rule check_tool_specific_policy_None)
  have "check_approval_requirement (print_json sr) (fresh_id sr (outside w)) name args ctx (store w) = (st, d)"
    using sec global specific by (simp add: security_before_def)
  then show "approved sr name args ctx w" by (rule approval_stage) (use through in blast)
qed

text \<open>The moments at which the limiter may look at the clock: at once, or when the operator has answered.\<close>

definition moments :: "('w, 's) surroundings \<Rightarrow> 'w \<Rightarrow> 'w set" where
  "moments sr u = insert u (case broker sr of None \<Rightarrow> {} | Some ask \<Rightarrow> {fst (ask req u) |req. True})"

definition within_limits :: "('w, 's) surroundings \<Rightarrow> execution_context \<Rightarrow> 'w pipeline_world \<Rightarrow> bool" where
  "within_limits sr ctx w \<longleftrightarrow>
     (\<exists>u \<in> moments sr (outside w). snd (check_and_record_scoped (limits sr) (monotonic sr u) (ctx_entity ctx)
        (conversation_scope ctx) (Some (ctx_workspace ctx)) (limiter w)) = Inr ())"

lemma approval_moment:
  "request_approval_with_cache sr ctx req w = (w', res) \<Longrightarrow> outside w' \<in> moments sr (outside w)"
  unfolding request_approval_with_cache_def Let_def emit_governance_audit_def moments_def
  by (auto split: prod.splits option.splits sum.splits approval_decision.splits if_splits)
    (metis fst_conv)+

lemma security_moment: "lets_through sr SecurityMw name args ctx w v \<Longrightarrow> outside v \<in> moments sr (outside w)"
  by (auto simp: lets_through_def middleware_before_def moments_def
      split: prod.splits middleware_decision.splits dest!: approval_moment)

lemma lets_through_idle [simp]:
  "lets_through sr (HookMw []) name args ctx w v \<longleftrightarrow> v = w"
  "lets_through sr AuditMw name args ctx w v \<longleftrightarrow> v = w"
  "lets_through sr SemanticCompactionMw name args ctx w v \<longleftrightarrow> v = w"
  "lets_through sr ToolOutputCompactionMw name args ctx w v \<longleftrightarrow> v = w"
  "lets_through sr OutputSizeLimitMw name args ctx w v \<longleftrightarrow> v = w"
  "lets_through sr ToolResultSanitizationMw name args ctx w v \<longleftrightarrow> v = w"
  "lets_through sr SecretScrubMw name args ctx w v \<longleftrightarrow> v = w"
  "lets_through sr TaintMw name args ctx w v \<longleftrightarrow> v = w"
  by (auto simp: lets_through_def middleware_before_def hooks_before_def)

lemma limit_stage:
  "lets_through sr EntityRateLimitMw name args ctx w v \<Longrightarrow>
     snd (check_and_record_scoped (limits sr) (monotonic sr (outside w)) (ctx_entity ctx) (conversation_scope ctx)
        (Some (ctx_workspace ctx)) (limiter w)) = Inr ()"
  by (auto simp: lets_through_def middleware_before_def rate_limit_before_def split: prod.splits sum.splits)

lemma default_chain_permits:
  assumes "before_execute sr default_middleware_chain name args ctx w = (w', Inr None)"
  shows "call_allowed name ctx \<and> arguments_allowed (file_system sr (outside w)) (lstat sr (outside w)) name args ctx \<and>
    approved sr name args ctx w \<and> within_limits sr ctx w"
proof -
  obtain u v x where stages: "lets_through sr SecurityMw name args ctx w u"
      "lets_through sr (HookMw []) name args ctx u v" "lets_through sr EntityRateLimitMw name args ctx v x"
    using assms unfolding default_middleware_chain_def before_execute_Cons_None by blast
  have "v = u" "limiter u = limiter w" "outside u \<in> moments sr (outside w)"
    using stages(2) security_stage(4) [OF stages(1)] security_moment [OF stages(1)] by simp_all
  then have "within_limits sr ctx w" using limit_stage [OF stages(3)] by (auto simp: within_limits_def)
  then show ?thesis using security_stage(1-3) [OF stages(1)] by blast
qed

text \<open>The capabilities a call carries matter for the check of capabilities only.\<close>

lemma static_capabilities [simp]:
  "arguments_allowed env l name args (ctx\<lparr>current_tool_capabilities := caps\<rparr>) = arguments_allowed env l name args ctx"
  "approved sr name args (ctx\<lparr>current_tool_capabilities := caps\<rparr>) w = approved sr name args ctx w"
  "within_limits sr (ctx\<lparr>current_tool_capabilities := caps\<rparr>) w = within_limits sr ctx w"
  by (simp_all add: arguments_allowed_def resolved_allowed_def Let_def approved_def holds_grant_def within_limits_def
      conversation_scope_def cong: option.case_cong)

lemma body_unused:
  assumes "snd (before_execute sr mws name args (ctx\<lparr>current_tool_capabilities := required_capabilities t\<rparr>) w) \<noteq> Inr None"
  shows "orchestrate sr mws name args ctx (t\<lparr>run_tool := body\<rparr>) w = orchestrate sr mws name args ctx t w"
  using assms by (auto simp: orchestrate_def Let_def split: prod.splits sum.splits option.splits)

text \<open>C1: a tool body runs only when everything permits it. If what a body does has any influence on a call
  through the default chain, on its result or on the world after it, then the tool is allowed for the
  entity, its level, its group and its capabilities; the arguments of a shell or file call pass the
  command and path policies, resolved targets included; the call is approved by a rule, the level, a
  grant or the operator; and the rate limits accept it.\<close>

theorem tool_body_permitted:
  assumes "registry_execute sr (tools(name \<mapsto> t)) default_middleware_chain name args ctx w \<noteq>
    registry_execute sr (tools(name \<mapsto> t\<lparr>run_tool := body\<rparr>)) default_middleware_chain name args ctx w"
  shows "call_allowed name (ctx\<lparr>current_tool_capabilities := required_capabilities t\<rparr>) \<and>
    arguments_allowed (file_system sr (outside w)) (lstat sr (outside w)) name args ctx \<and>
    approved sr name args ctx w \<and> within_limits sr ctx w"
proof -
  let ?ctx = "ctx\<lparr>current_tool_capabilities := required_capabilities t\<rparr>"
  have "orchestrate sr default_middleware_chain name args ctx (t\<lparr>run_tool := body\<rparr>) w \<noteq>
      orchestrate sr default_middleware_chain name args ctx t w"
    using assms by (auto simp: registry_execute_def Let_def)
  then have "snd (before_execute sr default_middleware_chain name args ?ctx w) = Inr None"
    using body_unused by metis
  then obtain w' where "before_execute sr default_middleware_chain name args ?ctx w = (w', Inr None)"
    by (cases "before_execute sr default_middleware_chain name args ?ctx w") simp
  from default_chain_permits [OF this] show ?thesis by simp
qed

subsection \<open>A call that goes through\<close>

definition demo_surroundings :: "(nat, unit) surroundings" where
  "demo_surroundings =
     \<lparr>file_system = (\<lambda>_. demo_fs), lstat = (\<lambda>_ _. False), print_json = (\<lambda>_. []), fresh_id = (\<lambda>_. ([], [])),
      broker = None, tracked_trust = None, wall_clock = (\<lambda>_. []), persist_grants = (\<lambda>_ _. True),
      limits = demo_limits, monotonic = (\<lambda>_. 7), hook_process = (\<lambda>_ _ u. (u, HookTimedOut)), parse_response = (\<lambda>_. None), is_aborted = (\<lambda>_. False),
      compact_semantic = (\<lambda>_ _ r u. (u, r)), base64_decoders = [], sha256 = (\<lambda>_. []),
      assess_content = (\<lambda>_ _. Allow), audit_sink = True, remember = (\<lambda>_ _ _ _ u. u), no_semantic = ()\<rparr>"

definition demo_body ::
    "json \<Rightarrow> execution_context \<Rightarrow> nat pipeline_world \<Rightarrow> nat pipeline_world \<times> (rstr, unit call_result) result" where
  "demo_body args ctx w =
     (if outside w = 0 then (w\<lparr>outside := 1\<rparr>, Inl ''timeout'')
      else (w\<lparr>outside := Suc (outside w)\<rparr>, Inr \<lparr>success = True, output = [], call_error = None, attachments = [], taint_labels = [],
              semantic = ()\<rparr>))"

definition demo_tool :: "(nat, unit) tool" where
  "demo_tool = \<lparr>required_capabilities = [], run_tool = demo_body\<rparr>"

definition demo_context :: execution_context where
  "demo_context = (from_security (security_policy_default None))\<lparr>ctx_autonomy := Full\<rparr>"

definition demo_pipeline :: "nat pipeline_world" where
  "demo_pipeline =
     \<lparr>store = None, limiter = \<lparr>global_actions = [], per_entity = Map.empty, per_conversation = Map.empty,
        per_workspace = Map.empty\<rparr>, trust_signals = [], audit_log = [], outside = 1\<rparr>"

lemma demo_limited:
  "snd (check_and_record_scoped demo_limits 7 ''default'' None (Some ''.'') (limiter demo_pipeline)) = Inr ()"
  by (simp add: demo_pipeline_def limiter_eval Let_def)

lemma demo_surroundings_sel [simp]:
  "limits demo_surroundings = demo_limits" "monotonic demo_surroundings u = 7" "broker demo_surroundings = None"
  "audit_sink demo_surroundings" "tracked_trust demo_surroundings = None"
  "remember demo_surroundings ctx n a s u = u" "compact_semantic demo_surroundings ctx n r u = (u, r)"
  by (simp_all add: demo_surroundings_def)

lemma demo_context_sel [simp]:
  "ctx_autonomy demo_context = Full" "allowed_tools demo_context = None" "granted_capabilities demo_context = None"
  "network_isolation demo_context = SharedGroup" "policy_engine demo_context = None"
  "ctx_entity demo_context = ''default''" "ctx_session demo_context = None" "source_channel_id demo_context = None"
  "ctx_workspace demo_context = ''.''" "taint_context demo_context = None"
  by (simp_all add: demo_context_def from_security_def security_policy_default_sel)

lemma demo_before:
  "\<exists>l. before_execute demo_surroundings default_middleware_chain ''memory_recall'' JNull demo_context demo_pipeline =
     (demo_pipeline\<lparr>limiter := l\<rparr>, Inr None)"
proof -
  let ?sr = demo_surroundings and ?name = "''memory_recall''"
  have "security_before env l p f ?name JNull demo_context None = (None, Continue)" for env l p f
    by (simp add: security_before_def check_global_policy_def is_external_action_tool_def is_network_boundary_tool_def
        check_tool_specific_policy_def check_approval_requirement_def lookup_grant_def Let_def)
  then have first: "lets_through ?sr SecurityMw ?name JNull demo_context demo_pipeline demo_pipeline"
    by (simp add: lets_through_def middleware_before_def demo_pipeline_def)
  obtain l where l: "check_and_record_scoped demo_limits 7 ''default'' None (Some ''.'') (limiter demo_pipeline) = (l, Inr ())"
    using demo_limited by (cases "check_and_record_scoped demo_limits 7 ''default'' None (Some ''.'') (limiter demo_pipeline)") auto
  then have limit: "lets_through ?sr EntityRateLimitMw ?name JNull demo_context demo_pipeline (demo_pipeline\<lparr>limiter := l\<rparr>)"
    by (simp add: lets_through_def middleware_before_def rate_limit_before_def conversation_scope_def)
  have "before_execute ?sr default_middleware_chain ?name JNull demo_context demo_pipeline =
      (demo_pipeline\<lparr>limiter := l\<rparr>, Inr None)"
    unfolding default_middleware_chain_def before_execute_Cons_None lets_through_idle
    by (intro exI conjI, rule first, rule refl, rule limit) simp_all
  then show ?thesis by blast
qed

lemma demo_context_caps: "demo_context\<lparr>current_tool_capabilities := []\<rparr> = demo_context"
  by (simp add: demo_context_def from_security_def)

text \<open>The outside world after a call, of a tool that needs no capability.\<close>

lemma demo_call:
  assumes "tools ''memory_recall'' = Some t" "required_capabilities t = []"
    and "\<And>w. outside w = 1 \<Longrightarrow>
      execute_with_retry demo_surroundings JNull demo_context t w = (w\<lparr>outside := u\<rparr>, ps, r)"
  shows "\<exists>w' r. registry_execute demo_surroundings tools default_middleware_chain ''memory_recall'' JNull demo_context
      demo_pipeline = (w', Inr r) \<and> outside w' = u"
proof -
  obtain l where l: "before_execute demo_surroundings default_middleware_chain ''memory_recall'' JNull demo_context demo_pipeline =
      (demo_pipeline\<lparr>limiter := l\<rparr>, Inr None)" using demo_before by blast
  have one: "outside (demo_pipeline\<lparr>limiter := l\<rparr>) = 1" by (simp add: demo_pipeline_def)
  obtain r' where "after_execute demo_surroundings default_middleware_chain ''memory_recall'' demo_context (u, r) = (u, r')"
    by (simp add: default_middleware_chain_def middleware_after_def)
  then show ?thesis
    using assms(1,2) assms(3) [OF one] l
    by (simp add: registry_execute_def orchestrate_def demo_context_caps Let_def emit_tool_execution_audit_def)
qed

definition demo_result :: "unit call_result" where
  "demo_result = \<lparr>success = True, output = [], call_error = None, attachments = [], taint_labels = [], semantic = ()\<rparr>"

lemma demo_result_sel [simp]: "output demo_result = []" "call_error demo_result = None"
  by (simp_all add: demo_result_def)

definition idle_body ::
    "json \<Rightarrow> execution_context \<Rightarrow> nat pipeline_world \<Rightarrow> nat pipeline_world \<times> (rstr, unit call_result) result" where
  "idle_body args ctx w = (w, Inr demo_result)"

lemma demo_retry:
  "outside w = 0 \<Longrightarrow>
     execute_with_retry demo_surroundings JNull demo_context demo_tool w = (w\<lparr>outside := 2\<rparr>, [150], demo_result)"
  "outside w = 1 \<Longrightarrow>
     execute_with_retry demo_surroundings JNull demo_context demo_tool w = (w\<lparr>outside := 2\<rparr>, [], demo_result)"
  "outside w = 1 \<Longrightarrow>
     execute_with_retry demo_surroundings JNull demo_context (demo_tool\<lparr>run_tool := idle_body\<rparr>) w =
       (w\<lparr>outside := 1\<rparr>, [], demo_result)"
proof -
  have retryable: "is_retryable_tool_error ''timeout''" by code_simp
  have fails: "demo_body JNull demo_context w = (w\<lparr>outside := 1\<rparr>, Inl ''timeout'')" if "outside w = 0" for w
    using that by (simp add: demo_body_def)
  have works: "demo_body JNull demo_context w = (w\<lparr>outside := 2\<rparr>, Inr demo_result)" if "outside w = 1" for w
    using that by (simp add: demo_body_def demo_result_def numeral_2_eq_2)
  note once = retry_tool_Inr [of "demo_body JNull demo_context", OF works, of _ demo_surroundings]
  show "execute_with_retry demo_surroundings JNull demo_context demo_tool w = (w\<lparr>outside := 2\<rparr>, [150], demo_result)"
    if "outside w = 0"
    using retry_tool_again [of "demo_body JNull demo_context", OF fails [OF that] retryable, of demo_surroundings 1 150]
      once [of "w\<lparr>outside := 1\<rparr>"]
    by (simp add: execute_with_retry_def demo_tool_def max_transient_tool_attempts_def numeral_2_eq_2)
  show "execute_with_retry demo_surroundings JNull demo_context demo_tool w = (w\<lparr>outside := 2\<rparr>, [], demo_result)"
    if "outside w = 1"
    using once [OF that] by (simp add: execute_with_retry_def demo_tool_def)
  show "execute_with_retry demo_surroundings JNull demo_context (demo_tool\<lparr>run_tool := idle_body\<rparr>) w =
      (w\<lparr>outside := 1\<rparr>, [], demo_result)"
    if "outside w = 1"
  proof -
    have "w\<lparr>outside := 1\<rparr> = w" using that by (cases w) simp
    then show ?thesis by (simp add: execute_with_retry_def idle_body_def retry_tool_Inr)
  qed
qed

lemma demo_capabilities:
  "required_capabilities demo_tool = []" "required_capabilities (demo_tool\<lparr>run_tool := body\<rparr>) = []"
  by (simp_all add: demo_tool_def)

lemma demo_calls:
  "\<exists>w' r. registry_execute demo_surroundings [''memory_recall'' \<mapsto> demo_tool] default_middleware_chain ''memory_recall'' JNull
     demo_context demo_pipeline = (w', Inr r) \<and> outside w' = 2"
  "\<exists>w' r. registry_execute demo_surroundings [''memory_recall'' \<mapsto> demo_tool\<lparr>run_tool := idle_body\<rparr>]
     default_middleware_chain ''memory_recall'' JNull demo_context demo_pipeline = (w', Inr r) \<and> outside w' = 1"
  by (rule demo_call [OF _ _ demo_retry(2)] demo_call [OF _ _ demo_retry(3)]; simp add: demo_capabilities)+

lemma tool_retries_bounded_witness:
  "\<exists>es v. failing_calls (run_tool demo_tool JNull demo_context) (demo_pipeline\<lparr>outside := 0\<rparr>) es v \<and>
     [150] = take (length es) [150, 300 :: nat]"
proof -
  have "outside (demo_pipeline\<lparr>outside := 0\<rparr>) = 0" by simp
  from tool_retries_bounded [OF demo_retry(1) [OF this]] show ?thesis by blast
qed

lemma tool_results_guarded_witness:
  "\<exists>w' r. registry_execute demo_surroundings [''memory_recall'' \<mapsto> demo_tool] default_middleware_chain ''memory_recall'' JNull
     demo_context demo_pipeline = (w', Inr r) \<and> (\<forall>p \<in> set scrubbed_markers. \<not> exposes p (output r))"
proof -
  obtain w' r where run: "registry_execute demo_surroundings [''memory_recall'' \<mapsto> demo_tool] default_middleware_chain
      ''memory_recall'' JNull demo_context demo_pipeline = (w', Inr r)"
    using demo_calls(1) by blast
  have "[''memory_recall'' \<mapsto> demo_tool] ''memory_recall'' = Some demo_tool" by simp
  from tool_results_guarded [OF this run] run show ?thesis by blast
qed

lemma tool_body_permitted_witness:
  "call_allowed ''memory_recall'' demo_context \<and> approved demo_surroundings ''memory_recall'' JNull demo_context demo_pipeline \<and>
   within_limits demo_surroundings demo_context demo_pipeline"
proof -
  have "registry_execute demo_surroundings [''memory_recall'' \<mapsto> demo_tool] default_middleware_chain ''memory_recall'' JNull
      demo_context demo_pipeline \<noteq>
    registry_execute demo_surroundings [''memory_recall'' \<mapsto> demo_tool\<lparr>run_tool := idle_body\<rparr>]
      default_middleware_chain ''memory_recall'' JNull demo_context demo_pipeline"
    using demo_calls by auto
  from tool_body_permitted [OF this] show ?thesis by (simp add: demo_capabilities(1) demo_context_caps)
qed

subsection \<open>Gaps\<close>

text \<open>A grant satisfies a rule that asks: although the engine puts the rule before the grant, the approval
  flow looks the grant up again before it asks the operator.\<close>

lemma grant_satisfies_ask_rule:
  assumes "store w = Some s"
    and "is_granted (req_tool req) (req_args_summary req) (ctx_entity ctx) (ctx_tenant ctx)
      (set_entity_allowlist (ctx_entity ctx) (allowed_tools ctx) s)"
  shows "snd (request_approval_with_cache sr ctx req w) = Inr ResApproved"
  using assms by (simp add: request_approval_with_cache_def lookup_grant_def Let_def)

text \<open>What a hook asks shows the operator no arguments, and the risk of a request never sees the path.\<close>

lemma hook_request_blind:
  "run_hooks sr PreToolUse (hook_payload_for PreToolUse name args ctx) hooks w = (w', Some (HookAsk, upd)) \<Longrightarrow>
   \<exists>intent. hooks_before sr hooks name args ctx w = (w', AskApproval intent) \<and>
     req_args_summary (approval_request_from_intent intent) = []"
  by (simp add: hooks_before_def approval_request_from_intent_def action_intent_new_def str_arg_def get_str_def)

lemma request_risk_blind:
  "req_risk (approval_request_from_intent (action_intent_new fresh name entity (approval_payload name s reason))) =
     classify_risk_args name None"
  by (simp add: approval_request_from_intent_def action_intent_new_def approval_payload_def get_str_def)

text \<open>The replacement of the arguments by a hook has no effect.\<close>

lemma hook_update_ignored:
  "run_hooks sr PreToolUse (hook_payload_for PreToolUse name args ctx) hooks w = (w', Some (HookAllow, upd)) \<Longrightarrow>
   hooks_before sr hooks name args ctx w = (w', Continue)"
  by (simp add: hooks_before_def)

text \<open>A hook that fails, in whatever way, or answers with something else than a decision, lets the call go on.\<close>

lemma hooks_fail_open:
  assumes "\<forall>c \<in> set cs. \<forall>u. case snd (run_single_hook sr c p u) of Inl _ \<Rightarrow> True | Inr None \<Rightarrow> False | Inr (Some r) \<Rightarrow> hr_decision r = None"
  shows "snd (run_hooks sr ev p cs w) = None"
  using assms
proof (induction cs arbitrary: w)
  case (Cons c cs)
  obtain u res where u: "run_single_hook sr c p w = (u, res)" by (rule prod.exhaust)
  have "case res of Inl _ \<Rightarrow> True | Inr None \<Rightarrow> False | Inr (Some r) \<Rightarrow> hr_decision r = None"
    using Cons.prems u by (metis list.set_intros(1) snd_conv)
  then show ?case using Cons u by (auto split: sum.splits option.splits)
qed simp

end
