(* ===== verification/Delegation.thy ===== *)
theory Delegation
  imports Tool_Guards Text_Utils
begin

text \<open>
  Delegation to subagents (\<open>src/src/core/tools/subagent/handoff.rs\<close>, the delegation budget of
  \<open>src/src/core/tools/middleware/mod.rs\<close> and the context of a subagent in
  \<open>src/src/core/subagents/runtime.rs\<close>). The budget is an atomic counter that all clones of a context
  share: a context holds the address of its counter, and the counters are a store. The loop that takes
  a slot is a step relation over any number of threads; loads are relaxed and may return a value the
  counter had earlier.
\<close>

subsection \<open>Contexts with a budget\<close>

record agent_context = execution_context +
  turn_number :: u32
  delegation_prompt :: "rstr option"
  delegation_depth :: u8
  max_delegation_depth :: u8
  child_delegation_quota :: u32
  slot_counter :: nat

type_synonym counters = "nat \<Rightarrow> u32"

definition default_root_child_delegation_quota :: u32 where "default_root_child_delegation_quota = 4"
definition default_subagent_child_delegation_quota :: u32 where "default_subagent_child_delegation_quota = 2"
definition default_max_delegation_depth :: u8 where "default_max_delegation_depth = 2"

text \<open>A context of its own, with a new counter at the address given.\<close>

definition root_context :: "security_policy \<Rightarrow> nat \<Rightarrow> counters \<Rightarrow> agent_context \<times> counters" where
  "root_context p fresh cs =
     (execution_context.extend (from_security p)
        (agent_context.fields 0 None 0 default_max_delegation_depth default_subagent_child_delegation_quota fresh),
      cs(fresh := default_root_child_delegation_quota))"

definition remaining_child_delegations :: "agent_context \<Rightarrow> counters \<Rightarrow> u32" where
  "remaining_child_delegations ctx cs = cs (slot_counter ctx)"

text \<open>What taking a slot does when no other thread interferes.\<close>

definition consume_slot :: "u32 \<Rightarrow> u32 \<times> bool" where
  "consume_slot v = (if v = 0 then (v, False) else (v - 1, True))"

definition try_consume_child_delegation_slot :: "agent_context \<Rightarrow> counters \<Rightarrow> counters \<times> bool" where
  "try_consume_child_delegation_slot ctx cs =
     (case consume_slot (cs (slot_counter ctx)) of (v, ok) \<Rightarrow> (cs(slot_counter ctx := v), ok))"

subsection \<open>The loop of compare and exchange\<close>

datatype slot_thread = Loaded u32 | Returned bool

record slot_system =
  counter :: u32
  threads :: "nat \<rightharpoonup> slot_thread"

text \<open>
  A thread loads a value that the counter has or had; it returns false on zero, takes a slot when the
  counter still has the value it knows, and goes on with another value otherwise. Since the counter is
  only ever decremented, earlier values are not smaller.
\<close>

inductive slot_step :: "slot_system \<Rightarrow> slot_system \<Rightarrow> bool" where
  load: "threads s t = None \<Longrightarrow> counter s \<le> v \<Longrightarrow> slot_step s (s\<lparr>threads := (threads s)(t \<mapsto> Loaded v)\<rparr>)"
| exhausted: "threads s t = Some (Loaded 0) \<Longrightarrow> slot_step s (s\<lparr>threads := (threads s)(t \<mapsto> Returned False)\<rparr>)"
| exchange: "threads s t = Some (Loaded v) \<Longrightarrow> v \<noteq> 0 \<Longrightarrow> counter s = v \<Longrightarrow>
    slot_step s (s\<lparr>counter := v - 1, threads := (threads s)(t \<mapsto> Returned True)\<rparr>)"
| retry: "threads s t = Some (Loaded v) \<Longrightarrow> v \<noteq> 0 \<Longrightarrow> counter s \<le> v' \<Longrightarrow> v' \<noteq> v \<Longrightarrow>
    slot_step s (s\<lparr>threads := (threads s)(t \<mapsto> Loaded v')\<rparr>)"

definition slot_init :: "u32 \<Rightarrow> slot_system" where
  "slot_init n = \<lparr>counter = n, threads = Map.empty\<rparr>"

definition finished :: "slot_system \<Rightarrow> bool \<Rightarrow> nat set" where
  "finished s ok = {t. threads s t = Some (Returned ok)}"

subsection \<open>Handoff\<close>

record handoff_envelope =
  objective :: "rstr option"
  done_when :: "rstr option"
  handoff_context :: "rstr option"
  constraints :: "rstr list"

definition envelope_is_empty :: "handoff_envelope \<Rightarrow> bool" where
  "envelope_is_empty h \<longleftrightarrow>
     objective h = None \<and> done_when h = None \<and> handoff_context h = None \<and> constraints h = []"

definition optional_string_field :: "json \<Rightarrow> rstr \<Rightarrow> rstr option" where
  "optional_string_field args key =
     (case get_str args key of None \<Rightarrow> None | Some s \<Rightarrow> if trim s = [] then None else Some (trim s))"

text \<open>The first item that is no string ends the list with an error; blank items are left out.\<close>

fun collect_constraints :: "rstr \<Rightarrow> json list \<Rightarrow> (rstr, rstr list) result" where
  "collect_constraints key [] = Ok []"
| "collect_constraints key (item # items) =
     (case as_str item of
        None \<Rightarrow> Err ([CHR 0x27] @ key @ [CHR 0x27] @ '' must contain only strings'')
      | Some s \<Rightarrow>
          (case collect_constraints key items of
             Inl e \<Rightarrow> Err e
           | Inr rest \<Rightarrow> Ok (if trim s = [] then rest else trim s # rest)))"

definition optional_string_list_field :: "json \<Rightarrow> rstr \<Rightarrow> (rstr, rstr list) result" where
  "optional_string_list_field args key =
     (case json_get args key of
        None \<Rightarrow> Ok []
      | Some raw \<Rightarrow>
          (case as_array raw of
             None \<Rightarrow> Err ([CHR 0x27] @ key @ [CHR 0x27] @ '' must be an array of strings'')
           | Some items \<Rightarrow> collect_constraints key items))"

definition parse_handoff_envelope :: "json \<Rightarrow> (rstr, handoff_envelope option) result" where
  "parse_handoff_envelope args =
     (case optional_string_list_field args ''constraints'' of
        Inl e \<Rightarrow> Err e
      | Inr items \<Rightarrow>
          let h = \<lparr>objective = optional_string_field args ''objective'',
                   done_when = optional_string_field args ''done_when'',
                   handoff_context = optional_string_field args ''context'', constraints = items\<rparr>
          in Ok (if envelope_is_empty h then None else Some h))"

subsection \<open>Options and contexts of a run\<close>

record delegation_config =
  dc_depth :: u8
  dc_max_depth :: u8
  dc_child_quota :: u32

record run_options =
  run_label :: "rstr option"
  system_prompt_override :: "rstr option"
  model_override :: "rstr option"
  temperature_override :: "rat option"
  handoff :: "handoff_envelope option"
  delegation :: "delegation_config option"
  parent_context :: "agent_context option"

definition run_options_default :: run_options where
  "run_options_default =
     \<lparr>run_label = None, system_prompt_override = None, model_override = None, temperature_override = None,
      handoff = None, delegation = None,
      parent_context = None\<rparr>"

text \<open>\<open>configured\<close>: a manager is in the context or the global one is configured.\<close>

definition build_delegation_options ::
    "bool \<Rightarrow> agent_context \<Rightarrow> rstr option \<Rightarrow> rstr option \<Rightarrow> handoff_envelope option \<Rightarrow> counters
       \<Rightarrow> counters \<times> (rstr, run_options) result" where
  "build_delegation_options configured ctx label model h cs =
     (if \<not> configured then (cs, Err ''subagent runtime is not configured'')
      else if max_delegation_depth ctx \<le> delegation_depth ctx
      then (cs, Err (''delegation depth limit reached ('' @ decimal (unat (delegation_depth ctx)) @ ''/'' @
             decimal (unat (max_delegation_depth ctx)) @ '')''))
      else (case try_consume_child_delegation_slot ctx cs of
              (cs, False) \<Rightarrow> (cs, Err (''child delegation quota exhausted for '' @ ctx_entity ctx))
            | (cs, True) \<Rightarrow>
                (cs, Ok (run_options_default
                   \<lparr>run_label := label, system_prompt_override := delegation_prompt ctx, model_override := model,
                    handoff := h, parent_context := Some ctx,
                    delegation := Some \<lparr>dc_depth = saturating_add (delegation_depth ctx) 1,
                      dc_max_depth = max_delegation_depth ctx, dc_child_quota = child_delegation_quota ctx\<rparr>\<rparr>))))"

record runtime_limits =
  runtime_workspace :: rstr
  rt_max_depth :: u8
  rt_child_quota :: u32

text \<open>The context of a subagent, with an identifier and a counter of its own.\<close>

definition build_subagent_execution_context ::
    "unix_secs option \<Rightarrow> runtime_limits \<Rightarrow> run_options \<Rightarrow> rstr \<Rightarrow> nat \<Rightarrow> counters \<Rightarrow> agent_context \<times> counters" where
  "build_subagent_execution_context clock rt opts uuid fresh cs =
     (let (ctx, cs) =
            (case parent_context opts of
               Some parent \<Rightarrow>
                 (parent\<lparr>policy := (policy parent)\<lparr>autonomy := Supervised, workspace_dir := ctx_workspace parent\<rparr>,
                    ctx_autonomy := Supervised, turn_number := 0, current_tool_capabilities := []\<rparr>, cs)
             | None \<Rightarrow>
                 root_context ((security_policy_default clock)\<lparr>workspace_dir := runtime_workspace rt,
                    autonomy := Supervised\<rparr>) fresh cs);
          d = (case delegation opts of
                 Some d \<Rightarrow> d
               | None \<Rightarrow> \<lparr>dc_depth = 1, dc_max_depth = rt_max_depth rt, dc_child_quota = rt_child_quota rt\<rparr>)
      in (ctx\<lparr>ctx_entity := ''subagent:'' @ uuid, delegation_depth := dc_depth d,
            max_delegation_depth := dc_max_depth d, child_delegation_quota := dc_child_quota d,
            slot_counter := fresh\<rparr>,
          cs(fresh := dc_child_quota d)))"

subsection \<open>The budget under any interleaving\<close>

text \<open>Threads know values that are not below the counter, a thread that returned false saw zero, and every slot
  taken is accounted for.\<close>

definition slot_inv :: "u32 \<Rightarrow> slot_system \<Rightarrow> bool" where
  "slot_inv n s \<longleftrightarrow>
     (\<forall>t v. threads s t = Some (Loaded v) \<longrightarrow> counter s \<le> v) \<and>
     (\<forall>t. threads s t = Some (Returned False) \<longrightarrow> counter s = 0) \<and>
     finite (finished s True) \<and> card (finished s True) + unat (counter s) = unat n"

lemma finished_other:
  "threads s t \<noteq> Some (Returned ok) \<Longrightarrow> x \<noteq> Returned ok \<Longrightarrow>
   finished (s\<lparr>threads := (threads s)(t \<mapsto> x)\<rparr>) ok = finished s ok"
  by (auto simp: finished_def)

lemma slot_inv_init: "slot_inv n (slot_init n)"
  by (simp add: slot_inv_def slot_init_def finished_def)

lemma slot_inv_step: "slot_step s s' \<Longrightarrow> slot_inv n s \<Longrightarrow> slot_inv n s'"
proof (induction rule: slot_step.induct)
  case (exchange s t v)
  have "finished (s\<lparr>counter := v - 1, threads := (threads s)(t \<mapsto> Returned True)\<rparr>) True = insert t (finished s True)"
    by (auto simp: finished_def)
  moreover have "t \<notin> finished s True" using exchange by (simp add: finished_def)
  moreover have v: "unat (v - 1) = unat v - 1" "0 < unat v"
    using exchange by (auto simp: unat_minus_one unat_gt_0)
  then have "v - 1 \<le> v" by (simp add: word_le_nat_alt)
  ultimately show ?case
    using exchange v by (auto simp: slot_inv_def split: if_splits intro: order_trans)
next
  case (exhausted s t)
  then have "counter s \<le> 0" unfolding slot_inv_def by blast
  then have zero: "counter s = 0" by simp
  show ?case using exhausted by (simp add: slot_inv_def finished_other zero)
qed (auto simp: slot_inv_def finished_other split: if_splits)

lemma slot_inv_reachable: "slot_step\<^sup>*\<^sup>* (slot_init n) s \<Longrightarrow> slot_inv n s"
  by (induction rule: rtranclp_induct) (auto intro: slot_inv_init slot_inv_step)

text \<open>C12: the budget is shared exactly, under any interleaving and any number of threads. With \<open>n\<close> slots at the
  start, the number of calls that took a slot and the counter always add up to \<open>n\<close>, a call returns false
  only when the counter has come to zero, and once all calls have returned, the smaller of \<open>n\<close> and the
  number of the calls have succeeded, as if they had run one after the other.\<close>

theorem slots_shared_exactly:
  assumes "slot_step\<^sup>*\<^sup>* (slot_init n) s"
  shows "card (finished s True) + unat (counter s) = unat n \<and>
    (finished s False \<noteq> {} \<longrightarrow> counter s = 0) \<and>
    (dom (threads s) = finished s True \<union> finished s False \<and> finite (dom (threads s)) \<longrightarrow>
       card (finished s True) = min (unat n) (card (dom (threads s))))"
proof -
  have inv: "slot_inv n s" using assms by (rule slot_inv_reachable)
  then have sum: "card (finished s True) + unat (counter s) = unat n"
    and zero: "finished s False \<noteq> {} \<longrightarrow> counter s = 0"
    by (auto simp: slot_inv_def finished_def)
  have "card (finished s True) = min (unat n) (card (dom (threads s)))"
    if all: "dom (threads s) = finished s True \<union> finished s False" "finite (dom (threads s))"
  proof (cases "finished s False = {}")
    case True
    then show ?thesis using all sum by simp
  next
    case False
    moreover have "card (finished s True) \<le> card (dom (threads s))" using all by (intro card_mono) auto
    ultimately show ?thesis using zero sum by simp
  qed
  then show ?thesis using sum zero by blast
qed

text \<open>Two threads and one slot: the second to exchange fails, loads zero and returns false.\<close>

lemma slots_shared_exactly_witness:
  "\<exists>s. slot_step\<^sup>*\<^sup>* (slot_init 1) s \<and> finished s False = {1} \<and> counter s = 0 \<and> card (finished s True) = 1"
proof -
  let ?s = "\<lambda>c th. \<lparr>counter = c, threads = th\<rparr> :: slot_system"
  have one: "slot_step (slot_init 1) (?s 1 [0 \<mapsto> Loaded 1])"
    using slot_step.load [of "slot_init 1" 0 1] by (simp add: slot_init_def)
  have two: "slot_step (?s 1 [0 \<mapsto> Loaded 1]) (?s 1 [0 \<mapsto> Loaded 1, 1 \<mapsto> Loaded 1])"
    using slot_step.load [of "?s 1 [0 \<mapsto> Loaded 1]" 1 1] by simp
  have three: "slot_step (?s 1 [0 \<mapsto> Loaded 1, 1 \<mapsto> Loaded 1]) (?s 0 [1 \<mapsto> Loaded 1, 0 \<mapsto> Returned True])"
    using slot_step.exchange [of "?s 1 [0 \<mapsto> Loaded 1, 1 \<mapsto> Loaded 1]" 0 1] by (simp add: fun_upd_twist)
  have four: "slot_step (?s 0 [1 \<mapsto> Loaded 1, 0 \<mapsto> Returned True]) (?s 0 [0 \<mapsto> Returned True, 1 \<mapsto> Loaded 0])"
    using slot_step.retry [of "?s 0 [1 \<mapsto> Loaded 1, 0 \<mapsto> Returned True]" 1 1 0] by (simp add: fun_upd_twist)
  have five: "slot_step (?s 0 [0 \<mapsto> Returned True, 1 \<mapsto> Loaded 0]) (?s 0 [0 \<mapsto> Returned True, 1 \<mapsto> Returned False])"
    using slot_step.exhausted [of "?s 0 [0 \<mapsto> Returned True, 1 \<mapsto> Loaded 0]" 1] by simp
  have run: "slot_step\<^sup>*\<^sup>* (slot_init 1) (?s 0 [0 \<mapsto> Returned True, 1 \<mapsto> Returned False])"
    by (rule one two three four five rtranclp.rtrancl_refl converse_rtranclp_into_rtranclp)+
  have "finished (?s 0 [0 \<mapsto> Returned True, 1 \<mapsto> Returned False]) False = {1}"
    by (auto simp: finished_def split: if_splits)
  then show ?thesis using slots_shared_exactly [OF run] run by auto
qed

subsection \<open>The tree of agents\<close>

text \<open>All agents that come from one, each at the index that is the address of its counter. Any agent may try to
  delegate at any time, with any options.\<close>

inductive delegation_step ::
    "unix_secs option \<Rightarrow> runtime_limits \<Rightarrow> agent_context list \<times> counters \<Rightarrow> agent_context list \<times> counters \<Rightarrow> bool"
    for clock rt where
  delegated: "i < length agents \<Longrightarrow>
     build_delegation_options configured (agents ! i) label model h cs = (cs', Inr opts) \<Longrightarrow>
     build_subagent_execution_context clock rt opts uuid (length agents) cs' = (child, cs'') \<Longrightarrow>
     delegation_step clock rt (agents, cs) (agents @ [child], cs'')"
| refused: "i < length agents \<Longrightarrow>
     build_delegation_options configured (agents ! i) label model h cs = (cs', Inl e) \<Longrightarrow>
     delegation_step clock rt (agents, cs) (agents, cs')"

lemma delegation_accepted:
  "build_delegation_options configured ctx label model h cs = (cs', Inr opts) \<Longrightarrow>
     configured \<and> delegation_depth ctx < max_delegation_depth ctx \<and> cs (slot_counter ctx) \<noteq> 0 \<and>
     cs' = cs(slot_counter ctx := cs (slot_counter ctx) - 1) \<and> parent_context opts = Some ctx \<and>
     delegation opts = Some \<lparr>dc_depth = saturating_add (delegation_depth ctx) 1,
       dc_max_depth = max_delegation_depth ctx, dc_child_quota = child_delegation_quota ctx\<rparr>"
  by (auto simp: build_delegation_options_def try_consume_child_delegation_slot_def consume_slot_def
      run_options_default_def split: if_splits)

lemma delegation_refused:
  "build_delegation_options configured ctx label model h cs = (cs', Inl e) \<Longrightarrow> cs' = cs"
  by (auto simp: build_delegation_options_def try_consume_child_delegation_slot_def consume_slot_def split: if_splits)

lemma subagent_context:
  assumes "build_delegation_options configured parent label model h cs = (cs', Inr opts)"
    and "build_subagent_execution_context clock rt opts uuid fresh cs' = (child, cs'')"
  shows "delegation_depth child = saturating_add (delegation_depth parent) 1"
    "max_delegation_depth child = max_delegation_depth parent"
    "child_delegation_quota child = child_delegation_quota parent" "slot_counter child = fresh"
    "cs'' = cs'(fresh := child_delegation_quota parent)"
    "execution_context.truncate child =
       (execution_context.truncate parent)\<lparr>policy := (policy parent)\<lparr>autonomy := Supervised, workspace_dir := ctx_workspace parent\<rparr>,
          ctx_autonomy := Supervised, current_tool_capabilities := [], ctx_entity := ''subagent:'' @ uuid\<rparr>"
  using delegation_accepted [OF assms(1)] assms(2)
  by (auto simp: build_subagent_execution_context_def Let_def execution_context.defs)

text \<open>The most agents below one with a number of levels left, all with the quota \<open>q\<close>, for each of its slots.\<close>

fun tree_size :: "nat \<Rightarrow> nat \<Rightarrow> nat" where
  "tree_size q 0 = 0"
| "tree_size q (Suc levels) = 1 + q * tree_size q levels"

definition levels_left :: "agent_context \<Rightarrow> nat" where
  "levels_left a = unat (max_delegation_depth a) - unat (delegation_depth a)"

text \<open>An agent and all that may still come from it.\<close>

definition worth :: "counters \<Rightarrow> agent_context \<Rightarrow> nat" where
  "worth cs a = 1 + unat (cs (slot_counter a)) * tree_size (unat (child_delegation_quota a)) (levels_left a)"

definition tree_worth :: "agent_context list \<times> counters \<Rightarrow> nat" where
  "tree_worth s = (\<Sum>i < length (fst s). worth (snd s) (fst s ! i))"

definition tree_inv :: "u8 \<Rightarrow> u32 \<Rightarrow> nat \<Rightarrow> agent_context list \<times> counters \<Rightarrow> bool" where
  "tree_inv deepest q n s \<longleftrightarrow>
     (\<forall>i < length (fst s). slot_counter (fst s ! i) = i \<and> max_delegation_depth (fst s ! i) = deepest \<and>
        child_delegation_quota (fst s ! i) = q \<and> delegation_depth (fst s ! i) \<le> deepest) \<and>
     tree_worth s = n"

lemma next_depth:
  "d < deepest \<Longrightarrow> unat (saturating_add d 1) = Suc (unat d) \<and> saturating_add d 1 \<le> deepest" for d deepest :: u8
proof -
  assume "d < deepest"
  then have "unat d < unat deepest" "unat deepest < 256"
    using unsigned_less [of deepest] by (simp_all add: word_less_nat_alt)
  then show ?thesis by (simp add: unat_saturating_add word_le_nat_alt)
qed

lemma tree_inv_step: "delegation_step clock rt s s' \<Longrightarrow> tree_inv deepest q n s \<Longrightarrow> tree_inv deepest q n s'"
proof (induction rule: delegation_step.induct)
  case (delegated i agents configured label model h cs cs' opts uuid child cs'')
  let ?a = "agents ! i" and ?n = "length agents"
  from delegated.prems have inv: "\<And>j. j < ?n \<Longrightarrow> slot_counter (agents ! j) = j"
      "\<And>j. j < ?n \<Longrightarrow> max_delegation_depth (agents ! j) = deepest"
      "\<And>j. j < ?n \<Longrightarrow> child_delegation_quota (agents ! j) = q" "\<And>j. j < ?n \<Longrightarrow> delegation_depth (agents ! j) \<le> deepest"
    and total: "(\<Sum>j < ?n. worth cs (agents ! j)) = n"
    by (simp_all add: tree_inv_def tree_worth_def)
  note i = delegated.hyps(1)
  from delegation_accepted [OF delegated.hyps(2)] inv i
  have accepted: "delegation_depth ?a < deepest" "cs i \<noteq> 0" "cs' = cs(i := cs i - 1)" by simp_all
  note child = subagent_context [OF delegated.hyps(2,3)]
  note deeper = next_depth [OF accepted(1)]
  have cs'': "cs'' = cs(i := cs i - 1, ?n := q)" using child(5) accepted(3) inv i by simp
  have slots: "unat (cs i) = Suc (unat (cs i - 1))"
    using accepted(2) by (simp add: unat_minus_one unat_gt_0)
  have left: "levels_left ?a = Suc (levels_left child)"
    using deeper accepted(1) inv(2) [OF i] child(1,2) by (simp add: levels_left_def word_less_nat_alt)
  have other: "worth cs'' (agents ! j) = worth cs (agents ! j)" if "j < ?n" "j \<noteq> i" for j
    using that inv(1) [of j] by (simp add: worth_def cs'')
  have "worth cs ?a = worth cs'' ?a + worth cs'' child"
    using slots left inv i child(3,4) by (simp add: worth_def cs'' algebra_simps)
  moreover have "n = worth cs ?a + (\<Sum>j \<in> {..<?n} - {i}. worth cs (agents ! j))"
    using total i by (simp add: sum.remove)
  moreover have "(\<Sum>j < ?n. worth cs'' (agents ! j)) =
      worth cs'' ?a + (\<Sum>j \<in> {..<?n} - {i}. worth cs (agents ! j))"
    using i other by (simp add: sum.remove [of _ i])
  ultimately have "(\<Sum>j < ?n. worth cs'' (agents ! j)) + worth cs'' child = n" by simp
  then have "tree_worth (agents @ [child], cs'') = n"
    by (simp add: tree_worth_def nth_append)
  then show ?case
    using inv child(1-4) deeper i by (auto simp: tree_inv_def nth_append less_Suc_eq)
next
  case (refused i agents configured label model h cs cs' e)
  then show ?case using delegation_refused [OF refused.hyps(2)] by simp
qed

text \<open>C11: the tree of agents is bounded. Whatever agents delegate what to whom and in which order, an agent with
  \<open>r\<close> slots, \<open>k\<close> levels below it and the quota \<open>q\<close> for its subagents never has more than \<open>r\<close> times \<open>1 + q +
  q\<^sup>2 + \<dots>\<close> (\<open>k\<close> terms) agents below it, no agent is deeper than the limit, and the limits of all are those of the
  root. The depth is computed in eight bits and does not overflow.\<close>

theorem delegation_tree_bounded:
  assumes "(delegation_step clock rt)\<^sup>*\<^sup>* ([boss], cs) (agents, cs')"
    and "slot_counter boss = 0" "delegation_depth boss \<le> max_delegation_depth boss"
  shows "length agents \<le> 1 + unat (remaining_child_delegations boss cs) *
      tree_size (unat (child_delegation_quota boss)) (unat (max_delegation_depth boss) - unat (delegation_depth boss)) \<and>
    list_all (\<lambda>a. delegation_depth a \<le> max_delegation_depth boss \<and>
      max_delegation_depth a = max_delegation_depth boss \<and> child_delegation_quota a = child_delegation_quota boss) agents"
proof -
  let ?inv = "tree_inv (max_delegation_depth boss) (child_delegation_quota boss) (worth cs boss)"
  have "?inv ([boss], cs)" using assms(2,3) by (simp add: tree_inv_def tree_worth_def)
  with assms(1) have inv: "?inv (agents, cs')"
    by (induction rule: rtranclp_induct) (auto intro: tree_inv_step)
  have "(\<Sum>i < length agents. 1) \<le> tree_worth (agents, cs')"
    unfolding tree_worth_def fst_conv snd_conv by (intro sum_mono) (simp add: worth_def)
  with inv have "length agents \<le> worth cs boss" by (simp add: tree_inv_def)
  with inv show ?thesis
    by (simp add: worth_def remaining_child_delegations_def levels_left_def tree_inv_def list_all_length)
qed

definition demo_runtime :: runtime_limits where
  "demo_runtime = \<lparr>runtime_workspace = ''.'', rt_max_depth = 2, rt_child_quota = 2\<rparr>"

definition demo_agent :: agent_context where
  "demo_agent = fst (root_context (security_policy_default None) 0 (\<lambda>_. 0))"

lemma demo_agent_sel [simp]:
  "slot_counter demo_agent = 0" "delegation_depth demo_agent = 0" "max_delegation_depth demo_agent = 2"
  "child_delegation_quota demo_agent = 2"
  by (simp_all add: demo_agent_def root_context_def execution_context.defs agent_context.defs
      default_max_delegation_depth_def default_subagent_child_delegation_quota_def)

text \<open>The root context of the runtime: four slots, two levels, two slots for each subagent.\<close>

lemma delegation_tree_bounded_witness:
  "\<exists>agents cs'. (delegation_step None demo_runtime)\<^sup>*\<^sup>* ([demo_agent], \<lambda>_. 4) (agents, cs') \<and> length agents = 2 \<and>
     length agents \<le> 13"
proof -
  obtain cs' opts where opts: "build_delegation_options True demo_agent None None None (\<lambda>_. 4) = (cs', Inr opts)"
    by (simp add: build_delegation_options_def try_consume_child_delegation_slot_def consume_slot_def)
  obtain child cs'' where "build_subagent_execution_context None demo_runtime opts [] 1 cs' = (child, cs'')"
    by (rule prod.exhaust)
  then have "delegation_step None demo_runtime ([demo_agent], \<lambda>_. 4) ([demo_agent] @ [child], cs'')"
    using opts by (intro delegation_step.delegated [where i = 0]) simp_all
  then have run: "(delegation_step None demo_runtime)\<^sup>*\<^sup>* ([demo_agent], \<lambda>_. 4) ([demo_agent, child], cs'')" by simp
  have "tree_size 2 2 = 3" by (simp add: numeral_2_eq_2)
  then have "length [demo_agent, child] \<le> 13"
    using delegation_tree_bounded [OF run] by (simp add: remaining_child_delegations_def)
  then show ?thesis using run by auto
qed

subsection \<open>What a subagent may do\<close>

text \<open>The part of a context the guards look at, for a call that needs some capabilities.\<close>

definition guarded :: "agent_context \<Rightarrow> capability list \<Rightarrow> execution_context" where
  "guarded a caps = (execution_context.truncate a)\<lparr>current_tool_capabilities := caps\<rparr>"

text \<open>C8: what a subagent inherits. Its execution context is its parent's with four changes: the supervised
  level, an entity of its own, no tool in progress, and a policy whose level is supervised and whose
  workspace is the one its parent works in; so its tools, granted capabilities, both isolations, tenant,
  session, rules, taint and the rest of its policy are those of its parent, and it stands one level
  deeper, within the bound. A tool that the global policy allows to the subagent it allows to its
  parent, unless the parent is read-only, and then the tools that delegate are refused to the parent.
  The checks of resolved paths are the same for both when the parent works in the workspace of its
  policy; where it works in the workspace of a group, the subagent loses a boundary (lemma
  \<open>group_boundary_lost\<close>).\<close>

theorem subagent_inherits_limits:
  assumes "build_delegation_options configured parent label model h cs = (cs', Inr opts)"
    and "build_subagent_execution_context clock rt opts uuid fresh cs' = (child, cs'')"
  shows "execution_context.truncate child = (execution_context.truncate parent)
      \<lparr>policy := (policy parent)\<lparr>autonomy := Supervised, workspace_dir := ctx_workspace parent\<rparr>,
       ctx_autonomy := Supervised, current_tool_capabilities := [], ctx_entity := ''subagent:'' @ uuid\<rparr> \<and>
    ctx_autonomy child = Supervised \<and> autonomy (policy child) = Supervised \<and>
    allowed_tools child = allowed_tools parent \<and> granted_capabilities child = granted_capabilities parent \<and>
    process_isolation child = process_isolation parent \<and> network_isolation child = network_isolation parent \<and>
    ctx_tenant child = ctx_tenant parent \<and> ctx_session child = ctx_session parent \<and>
    policy_engine child = policy_engine parent \<and> taint_context child = taint_context parent \<and>
    unat (delegation_depth child) = Suc (unat (delegation_depth parent)) \<and>
    delegation_depth child \<le> max_delegation_depth parent \<and>
    (if ctx_autonomy parent = ReadOnly
     then \<not> call_allowed ''subagent_spawn'' (guarded parent caps) \<and> \<not> call_allowed ''delegate'' (guarded parent caps)
     else call_allowed tool (guarded child caps) \<longrightarrow> call_allowed tool (guarded parent caps)) \<and>
    (workspace_dir (policy parent) = ctx_workspace parent \<longrightarrow>
       check_resolved env (guarded child caps) resolved = check_resolved env (guarded parent caps) resolved)"
proof -
  note child = subagent_context [OF assms(1,2)]
  have fields: "ctx_autonomy child = Supervised" "autonomy (policy child) = Supervised"
      "allowed_tools child = allowed_tools parent" "granted_capabilities child = granted_capabilities parent"
      "process_isolation child = process_isolation parent" "network_isolation child = network_isolation parent"
      "ctx_tenant child = ctx_tenant parent" "ctx_session child = ctx_session parent"
      "policy_engine child = policy_engine parent" "taint_context child = taint_context parent"
    and more_fields: "external_action_execution (policy child) = external_action_execution (policy parent)"
      "ctx_workspace child = ctx_workspace parent" "workspace_dir (policy child) = ctx_workspace parent"
      "workspace_only (policy child) = workspace_only (policy parent)"
      "forbidden_paths (policy child) = forbidden_paths (policy parent)"
    using child(6) by (simp_all add: execution_context.defs)
  have "call_allowed tool (guarded child caps) \<longrightarrow> call_allowed tool (guarded parent caps)"
    if "ctx_autonomy parent \<noteq> ReadOnly"
    using that by (simp add: guarded_def call_allowed_def execution_context.defs fields more_fields)
  moreover have "\<not> call_allowed ''subagent_spawn'' (guarded parent caps) \<and> \<not> call_allowed ''delegate'' (guarded parent caps)"
    if "ctx_autonomy parent = ReadOnly"
    using that by (simp add: guarded_def call_allowed_def execution_context.defs)
  moreover have "check_resolved env (guarded child caps) resolved = check_resolved env (guarded parent caps) resolved"
    if "workspace_dir (policy parent) = ctx_workspace parent"
    using that by (simp add: guarded_def check_resolved_def Let_def execution_context.defs is_path_allowed_resolved_iff
        more_fields)
  moreover have "delegation_depth parent < max_delegation_depth parent" using delegation_accepted [OF assms(1)] by simp
  then have "unat (delegation_depth child) = Suc (unat (delegation_depth parent)) \<and>
      delegation_depth child \<le> max_delegation_depth parent"
    using next_depth child(1) by auto
  ultimately show ?thesis using fields child(6) by simp
qed

lemma subagent_inherits_limits_witness:
  "\<exists>cs' opts child cs''. build_delegation_options True demo_agent None None None (\<lambda>_. 4) = (cs', Inr opts) \<and>
     build_subagent_execution_context None demo_runtime opts [] 1 cs' = (child, cs'') \<and> ctx_autonomy child = Supervised \<and>
     check_resolved demo_fs (guarded child []) ''/etc'' = check_resolved demo_fs (guarded demo_agent []) ''/etc''"
proof -
  obtain cs' opts where opts: "build_delegation_options True demo_agent None None None (\<lambda>_. 4) = (cs', Inr opts)"
    by (simp add: build_delegation_options_def try_consume_child_delegation_slot_def consume_slot_def)
  obtain child cs'' where child: "build_subagent_execution_context None demo_runtime opts [] 1 cs' = (child, cs'')"
    by (rule prod.exhaust)
  have "workspace_dir (policy demo_agent) = ctx_workspace demo_agent"
    by (simp add: demo_agent_def root_context_def from_security_def security_policy_default_sel execution_context.defs)
  then show ?thesis using subagent_inherits_limits [OF opts child, of "[]" _ demo_fs "''/etc''"] opts child by blast
qed

text \<open>What is lost: the boundary of a group workspace. The policy of the subagent names the workspace of the
  group, so it no longer differs from it, and without \<open>workspace_only\<close> a path outside that is refused to
  the parent is not refused to its subagent.\<close>

lemma group_boundary_lost:
  assumes "\<not> workspace_only (policy parent)"
    and "path_components (canonical_or_self env (ctx_workspace parent)) \<noteq>
      path_components (canonical_or_self env (workspace_dir (policy parent)))"
    and "\<not> path_starts_with resolved (canonical_or_self env (ctx_workspace parent))"
    and "list_all (\<lambda>f. \<not> path_starts_with resolved (expand_tilde f (home_dir env))) (forbidden_paths (policy parent))"
    and "ctx_workspace child = ctx_workspace parent"
    and "policy child = (policy parent)\<lparr>autonomy := Supervised, workspace_dir := ctx_workspace parent\<rparr>"
  shows "check_resolved env (guarded parent caps) resolved =
      Some (BlockCall (block_prefix @ ''resolved path escapes group workspace: '' @ resolved)) \<and>
    check_resolved env (guarded child caps) resolved = None"
  using assms
  by (simp add: check_resolved_def Let_def guarded_def execution_context.defs is_path_allowed_resolved_iff list_all_iff)

end
