(* ===== verification/Subagent_Runtime.thy ===== *)
theory Subagent_Runtime
  imports Delegation Spawn_Limits Tool_Pipeline "HOL-Library.Char_ord" "HOL-Library.List_Lexorder"
begin

text \<open>
  The runs of subagents (\<open>src/src/core/subagents/runtime.rs\<close>) and the tools that start, query and cancel them
  (\<open>src/src/core/tools/delegate.rs\<close>, \<open>src/src/core/tools/subagent/\<close>). The map of runs is a list of pairs in
  some order; every critical section of its lock is a function of its own, and the interleavings of the
  sections are a step relation. Model calls, skill hints and clocks are parameters.
\<close>

subsection \<open>Runs\<close>

datatype run_status = Running | Completed | Failed | Cancelled

record run_snapshot =
  run_id :: rstr
  snap_label :: "rstr option"
  snap_task :: rstr
  snap_model :: rstr
  parent_entity :: "rstr option"
  snap_handoff :: "handoff_envelope option"
  snap_delegation :: "delegation_config option"
  run_state :: run_status
  run_output :: "rstr option"
  run_error :: "rstr option"
  started_at :: rstr
  finished_at :: "rstr option"

record run_entry =
  snapshot :: run_snapshot
  has_handle :: bool

record agent_extension =
  ext_id :: rstr
  ext_role :: "rstr option"
  ext_prompt :: rstr
  ext_model :: "rstr option"
  ext_temperature :: "rat option"

record subagent_config =
  base_prompt :: rstr
  default_model :: rstr
  default_temperature :: rat
  has_registry :: bool
  rt_limits :: runtime_limits
  skill_policy :: security_policy
  turn_hint_limit :: nat
  agent_extensions :: "agent_extension list"
  extension_loader :: "(rstr \<Rightarrow> agent_extension list) option"

record orchestrator =
  runtime :: "subagent_config option"
  runs :: "(rstr \<times> run_entry) list"

definition orchestrator_new :: orchestrator where
  "orchestrator_new = \<lparr>runtime = None, runs = []\<rparr>"

definition is_configured :: "orchestrator \<Rightarrow> bool" where
  "is_configured o1 \<longleftrightarrow> runtime o1 \<noteq> None"

definition get_runtime :: "orchestrator \<Rightarrow> (rstr, subagent_config) result" where
  "get_runtime o1 = (case runtime o1 of None \<Rightarrow> Err ''subagent runtime is not configured'' | Some rt \<Rightarrow> Ok rt)"

definition configure_runtime :: "subagent_config \<Rightarrow> orchestrator \<Rightarrow> orchestrator" where
  "configure_runtime rt o1 = o1\<lparr>runtime := Some rt\<rparr>"

definition update_entry :: "rstr \<Rightarrow> (run_entry \<Rightarrow> run_entry) \<Rightarrow> orchestrator \<Rightarrow> orchestrator" where
  "update_entry r f o1 = o1\<lparr>runs := map (\<lambda>(k, e). (k, if k = r then f e else e)) (runs o1)\<rparr>"

definition insert_entry :: "rstr \<Rightarrow> run_entry \<Rightarrow> orchestrator \<Rightarrow> orchestrator" where
  "insert_entry r e o1 = o1\<lparr>runs := filter (\<lambda>(k, _). k \<noteq> r) (runs o1) @ [(r, e)]\<rparr>"

subsection \<open>Prompt, model and task of a run\<close>

definition resolve_agent_extension :: "subagent_config \<Rightarrow> run_options \<Rightarrow> agent_extension option" where
  "resolve_agent_extension rt opts =
     (case run_label opts of
        None \<Rightarrow> None
      | Some raw \<Rightarrow>
          let label = trim raw in
          if label = [] then None
          else let loaded = (case (parent_context opts, extension_loader rt) of
                               (Some ctx, Some load) \<Rightarrow> load (ctx_workspace ctx) | _ \<Rightarrow> []);
                   exts = (if loaded = [] then agent_extensions rt else loaded)
            in (case List.find (\<lambda>e. ext_id e = label) exts of
                  Some e \<Rightarrow> Some e
                | None \<Rightarrow> List.find (\<lambda>e. ext_role e = Some label) exts))"

definition effective_system_prompt :: "subagent_config \<Rightarrow> run_options \<Rightarrow> agent_extension option \<Rightarrow> rstr" where
  "effective_system_prompt rt opts ext =
     (let prompt =
            (case ext of
               None \<Rightarrow> base_prompt rt
             | Some e \<Rightarrow>
                 if trim (ext_prompt e) = [] then base_prompt rt
                 else if trim (base_prompt rt) = [] then ext_prompt e
                 else base_prompt rt @ [nl, nl] @ ''## Agent Extension: '' @ ext_id e @ [nl] @ ext_prompt e)
      in case map_option trim (system_prompt_override opts) of
           None \<Rightarrow> prompt
         | Some extra \<Rightarrow>
             if extra = [] then prompt
             else if trim prompt = [] then extra
             else prompt @ [nl, nl] @ ''## Subagent Runtime Override'' @ [nl] @ extra)"

definition effective_model :: "subagent_config \<Rightarrow> run_options \<Rightarrow> agent_extension option \<Rightarrow> rstr" where
  "effective_model rt opts ext =
     (case model_override opts of
        Some m \<Rightarrow> m
      | None \<Rightarrow> (case Option.bind ext ext_model of Some m \<Rightarrow> m | None \<Rightarrow> default_model rt))"

definition effective_temperature :: "subagent_config \<Rightarrow> run_options \<Rightarrow> agent_extension option \<Rightarrow> rat" where
  "effective_temperature rt opts ext =
     (case temperature_override opts of
        Some t \<Rightarrow> t
      | None \<Rightarrow> (case Option.bind ext ext_temperature of Some t \<Rightarrow> t | None \<Rightarrow> default_temperature rt))"

text \<open>One line of prompt text: the loop of \<open>sanitize_prompt_line\<close> always ends.\<close>

definition prompt_line :: "rstr \<Rightarrow> rstr" where
  "prompt_line v = (case sanitize_prompt_line v of Some s \<Rightarrow> s | None \<Rightarrow> [])"

definition sanitize_subagent_handoff_line :: "rstr \<Rightarrow> rstr" where
  "sanitize_subagent_handoff_line v = truncate_ellipsis (prompt_line v) 600"

definition sanitize_subagent_handoff_block :: "rstr \<Rightarrow> rstr" where
  "sanitize_subagent_handoff_block v =
     truncate_ellipsis
       (join [nl] (filter (\<lambda>l. l \<noteq> []) (map sanitize_subagent_handoff_line (lines (strip_internal_prompt_blocks v))))) 3000"

definition handoff_line :: "rstr \<Rightarrow> rstr option \<Rightarrow> rstr" where
  "handoff_line title v =
     (case map_option sanitize_subagent_handoff_line v of
        None \<Rightarrow> [] | Some l \<Rightarrow> if l = [] then [] else title @ l @ [nl])"

definition compose_subagent_task :: "rstr \<Rightarrow> run_options \<Rightarrow> rstr" where
  "compose_subagent_task task opts =
     (case handoff opts of
        None \<Rightarrow> task
      | Some h \<Rightarrow>
          if envelope_is_empty h then task
          else ''[Delegation Handoff]'' @ [nl] @
            handoff_line ''Objective: '' (objective h) @
            handoff_line ''Done When: '' (done_when h) @
            (if constraints h = [] then []
             else ''Constraints:'' @ [nl] @ concat (map (\<lambda>c. handoff_line ''- '' (Some c)) (constraints h))) @
            (case map_option sanitize_subagent_handoff_block (handoff_context h) of
               None \<Rightarrow> []
             | Some b \<Rightarrow> if b = [] then [] else ''Context (sanitized untrusted handoff):'' @ [nl] @ b @ [nl]) @
            ''Task:'' @ [nl] @ trim task)"

text \<open>The hints of relevant skills, rendered by the provider of skills.\<close>

definition enrich_subagent_task_with_relevant_skills ::
    "(rstr \<Rightarrow> security_policy \<Rightarrow> rstr \<Rightarrow> rstr) \<Rightarrow> subagent_config \<Rightarrow> run_options \<Rightarrow> rstr \<Rightarrow> rstr" where
  "enrich_subagent_task_with_relevant_skills render rt opts task =
     (if turn_hint_limit rt = 0 then task
      else (case parent_context opts of
              Some ctx \<Rightarrow> render (ctx_workspace ctx) (policy ctx) task
            | None \<Rightarrow> render (runtime_workspace (rt_limits rt)) (skill_policy rt) task) @ task)"

subsection \<open>Starting a run\<close>

definition subagent_root_parent_id :: rstr where "subagent_root_parent_id = ''subagent-root''"

definition lineage_of :: "rstr \<Rightarrow> run_entry \<Rightarrow> lineage_node" where
  "lineage_of parent e =
     \<lparr>agent_id = run_id (snapshot e),
      parent_id = (case parent_entity (snapshot e) of
          Some p \<Rightarrow> Some p
        | None \<Rightarrow> if parent = subagent_root_parent_id then Some subagent_root_parent_id else None),
      depth = (case snap_delegation (snapshot e) of None \<Rightarrow> 0 | Some d \<Rightarrow> unat (dc_depth d))\<rparr>"

definition build_lineage_for_parent :: "orchestrator \<Rightarrow> rstr \<Rightarrow> lineage_node list" where
  "build_lineage_for_parent o1 parent =
     (let lineage = map (lineage_of parent \<circ> snd) (runs o1) in
      if list_ex (\<lambda>n. agent_id n = parent) lineage then lineage
      else lineage @ [\<lparr>agent_id = parent, parent_id = None, depth = 0\<rparr>])"

definition parent_key :: "run_options \<Rightarrow> rstr" where
  "parent_key opts = (case parent_context opts of None \<Rightarrow> subagent_root_parent_id | Some ctx \<Rightarrow> ctx_entity ctx)"

definition spawn_check :: "run_options \<Rightarrow> orchestrator \<Rightarrow> (spawn_error, unit) result" where
  "spawn_check opts o1 =
     map_sum id (\<lambda>_. ())
       (check_spawn_allowed (parent_key opts) (build_lineage_for_parent o1 (parent_key opts)) spawn_limits_default)"

definition new_snapshot :: "subagent_config \<Rightarrow> rstr \<Rightarrow> rstr \<Rightarrow> rstr \<Rightarrow> run_options \<Rightarrow> run_snapshot" where
  "new_snapshot rt uuid now task opts =
     \<lparr>run_id = ''subagent_'' @ uuid, snap_label = run_label opts, snap_task = task,
      snap_model = effective_model rt opts (resolve_agent_extension rt opts),
      parent_entity = map_option ctx_entity (parent_context opts), snap_handoff = handoff opts,
      snap_delegation = delegation opts, run_state = Running, run_output = None, run_error = None,
      started_at = now, finished_at = None\<rparr>"

text \<open>The run is entered without a handle; the task is started; the handle is attached if the run still goes on.\<close>

definition spawn_register ::
    "rstr \<Rightarrow> rstr \<Rightarrow> rstr \<Rightarrow> run_options \<Rightarrow> orchestrator \<Rightarrow> orchestrator \<times> (rstr, run_snapshot) result" where
  "spawn_register uuid now task opts o1 =
     (case get_runtime o1 of
        Inl e \<Rightarrow> (o1, Err e)
      | Inr rt \<Rightarrow>
          let s = new_snapshot rt uuid now task opts in
          (insert_entry (run_id s) \<lparr>snapshot = s, has_handle = False\<rparr> o1, Ok s))"

definition spawn_attach :: "rstr \<Rightarrow> orchestrator \<Rightarrow> orchestrator" where
  "spawn_attach r = update_entry r (\<lambda>e. if run_state (snapshot e) = Running then e\<lparr>has_handle := True\<rparr> else e)"

definition spawn_error_text :: "spawn_error \<Rightarrow> rstr" where
  "spawn_error_text e = ''subagent spawn blocked: '' @
     (case e of
        ParentNotFound \<Rightarrow> ''parent agent not found in lineage (fail-safe: spawn blocked)''
      | CycleDetected \<Rightarrow> ''spawn blocked: cycle detected in agent lineage''
      | DepthExceeded d m \<Rightarrow> ''spawn blocked: depth '' @ decimal d @ '' exceeds max_depth '' @ decimal m
      | DescendantsExceeded n m \<Rightarrow> ''spawn blocked: '' @ decimal n @ '' descendants reaches max_descendants '' @ decimal m)"

definition spawn_with_options ::
    "rstr \<Rightarrow> rstr \<Rightarrow> rstr \<Rightarrow> run_options \<Rightarrow> orchestrator \<Rightarrow> orchestrator \<times> (rstr, run_snapshot) result" where
  "spawn_with_options uuid now task opts o1 =
     (case spawn_check opts o1 of
        Inl e \<Rightarrow> (o1, Err (spawn_error_text e))
      | Inr _ \<Rightarrow>
          (case spawn_register uuid now task opts o1 of
             (o2, Inl e) \<Rightarrow> (o2, Err e)
           | (o2, Inr s) \<Rightarrow> (spawn_attach (run_id s) o2, Ok s)))"

subsection \<open>The end of a run\<close>

definition complete_run :: "rstr \<Rightarrow> rstr \<Rightarrow> (rstr, rstr) result \<Rightarrow> orchestrator \<Rightarrow> orchestrator" where
  "complete_run now r res =
     update_entry r (\<lambda>e.
       if run_state (snapshot e) = Cancelled then e
       else \<lparr>snapshot = (snapshot e)\<lparr>finished_at := Some now,
               run_state := (case res of Inl _ \<Rightarrow> Failed | Inr _ \<Rightarrow> Completed),
               run_output := (case res of Inl _ \<Rightarrow> None | Inr out \<Rightarrow> Some out),
               run_error := (case res of Inl err \<Rightarrow> Some err | Inr _ \<Rightarrow> None)\<rparr>,
             has_handle = False\<rparr>)"

definition cancel_entry :: "rstr \<Rightarrow> run_entry \<Rightarrow> run_entry" where
  "cancel_entry now e =
     (if run_state (snapshot e) \<noteq> Running then e
      else \<lparr>snapshot = (snapshot e)\<lparr>run_state := Cancelled, finished_at := Some now, run_output := None,
              run_error := Some ''cancelled''\<rparr>,
            has_handle = False\<rparr>)"

definition cancel :: "rstr \<Rightarrow> rstr \<Rightarrow> orchestrator \<Rightarrow> orchestrator \<times> (rstr, unit) result" where
  "cancel now r o1 =
     (case map_of (runs o1) r of
        None \<Rightarrow> (o1, Err (''subagent run not found: '' @ r))
      | Some _ \<Rightarrow> (update_entry r (cancel_entry now) o1, Ok ()))"

definition cancel_scoped :: "rstr \<Rightarrow> rstr \<Rightarrow> rstr \<Rightarrow> orchestrator \<Rightarrow> orchestrator \<times> (rstr, unit) result" where
  "cancel_scoped now r entity o1 =
     (case map_of (runs o1) r of
        None \<Rightarrow> (o1, Err (''subagent run not found: '' @ r))
      | Some e \<Rightarrow>
          if parent_entity (snapshot e) \<noteq> Some entity then (o1, Err (''subagent run not found: '' @ r))
          else (update_entry r (cancel_entry now) o1, Ok ()))"

subsection \<open>Queries\<close>

definition get_run :: "rstr \<Rightarrow> orchestrator \<Rightarrow> run_snapshot option" where
  "get_run r o1 = map_option snapshot (map_of (runs o1) r)"

definition get_scoped :: "rstr \<Rightarrow> rstr \<Rightarrow> orchestrator \<Rightarrow> run_snapshot option" where
  "get_scoped r entity o1 =
     (case get_run r o1 of
        None \<Rightarrow> None | Some s \<Rightarrow> if parent_entity s = Some entity then Some s else None)"

text \<open>Latest start first; runs with the same start keep their order.\<close>

definition list_runs :: "orchestrator \<Rightarrow> run_snapshot list" where
  "list_runs o1 = rev (sort_key started_at (rev (map (snapshot \<circ> snd) (runs o1))))"

definition list_scoped :: "rstr \<Rightarrow> orchestrator \<Rightarrow> run_snapshot list" where
  "list_scoped entity o1 = filter (\<lambda>s. parent_entity s = Some entity) (list_runs o1)"

subsection \<open>Running a task\<close>

text \<open>
  The tool loop and the plain model call are parameters over an outside world; the tool loop gets the
  context of the subagent. \<open>w_fresh\<close> is the address of the next counter.
\<close>

record 'w agents_world =
  manager :: "orchestrator option"
  global_manager :: orchestrator
  w_counters :: counters
  w_fresh :: nat
  w_outside :: 'w

record 'w agents_env =
  render_skills :: "rstr \<Rightarrow> security_policy \<Rightarrow> rstr \<Rightarrow> rstr"
  tool_loop :: "rstr \<Rightarrow> rstr \<Rightarrow> rstr \<Rightarrow> rat \<Rightarrow> agent_context \<Rightarrow> 'w \<Rightarrow> 'w \<times> (rstr, rstr) result"
  chat :: "rstr \<Rightarrow> rstr \<Rightarrow> rstr \<Rightarrow> rat \<Rightarrow> 'w \<Rightarrow> 'w \<times> (rstr, rstr) result"
  new_uuid :: "'w \<Rightarrow> rstr"
  now_text :: "'w \<Rightarrow> rstr"
  unix_clock :: "'w \<Rightarrow> unix_secs option"
  to_text :: "json \<Rightarrow> rstr"

definition execute_subagent_task ::
    "'w agents_env \<Rightarrow> subagent_config \<Rightarrow> rstr \<Rightarrow> run_options \<Rightarrow> 'w agents_world \<Rightarrow> 'w agents_world \<times> (rstr, rstr) result" where
  "execute_subagent_task env rt task opts w =
     (let ext = resolve_agent_extension rt opts;
          prompt = effective_system_prompt rt opts ext;
          model = effective_model rt opts ext;
          temperature = effective_temperature rt opts ext;
          full_task = enrich_subagent_task_with_relevant_skills (render_skills env) rt opts (compose_subagent_task task opts)
      in if has_registry rt
         then (case build_subagent_execution_context (unix_clock env (w_outside w)) (rt_limits rt) opts
                      (new_uuid env (w_outside w)) (w_fresh w) (w_counters w) of
                 (ctx, cs) \<Rightarrow>
                   (case tool_loop env prompt full_task model temperature ctx (w_outside w) of
                      (u, res) \<Rightarrow> (w\<lparr>w_counters := cs, w_fresh := Suc (w_fresh w), w_outside := u\<rparr>, res)))
         else (case chat env prompt full_task model temperature (w_outside w) of
                 (u, res) \<Rightarrow> (w\<lparr>w_outside := u\<rparr>, res)))"

definition run_inline_with_options ::
    "'w agents_env \<Rightarrow> orchestrator \<Rightarrow> rstr \<Rightarrow> run_options \<Rightarrow> 'w agents_world \<Rightarrow> 'w agents_world \<times> (rstr, rstr) result" where
  "run_inline_with_options env o1 task opts w =
     (case get_runtime o1 of Inl e \<Rightarrow> (w, Err e) | Inr rt \<Rightarrow> execute_subagent_task env rt task opts w)"

subsection \<open>Tools\<close>

definition subagent_output_taint_labels :: "rstr list" where
  "subagent_output_taint_labels = [''subagent_output'']"

definition agent_result :: "rstr \<Rightarrow> rstr list \<Rightarrow> unit call_result" where
  "agent_result text labels =
     \<lparr>success = True, output = text, call_error = None, attachments = [], taint_labels = labels, semantic = ()\<rparr>"

definition run_not_found :: "rstr \<Rightarrow> unit call_result" where
  "run_not_found r =
     \<lparr>success = False, output = [], call_error = Some (''subagent run not found: '' @ r), attachments = [],
      taint_labels = [], semantic = ()\<rparr>"

definition opt_json :: "rstr option \<Rightarrow> json" where
  "opt_json v = (case v of None \<Rightarrow> JNull | Some s \<Rightarrow> JString s)"

definition handoff_json :: "handoff_envelope \<Rightarrow> json" where
  "handoff_json h =
     JObject [(''objective'', opt_json (objective h)), (''done_when'', opt_json (done_when h)),
       (''context'', opt_json (handoff_context h)), (''constraints'', JArray (map JString (constraints h)))]"

definition delegation_json :: "delegation_config \<Rightarrow> json" where
  "delegation_json d =
     JObject [(''depth'', JInt (uint (dc_depth d))), (''max_depth'', JInt (uint (dc_max_depth d))),
       (''child_quota'', JInt (uint (dc_child_quota d)))]"

definition run_state_json :: "run_status \<Rightarrow> json" where
  "run_state_json s =
     JString (case s of Running \<Rightarrow> ''running'' | Completed \<Rightarrow> ''completed'' | Failed \<Rightarrow> ''failed'' | Cancelled \<Rightarrow> ''cancelled'')"

definition json_field :: "rstr \<Rightarrow> ('a \<Rightarrow> json) \<Rightarrow> 'a option \<Rightarrow> (rstr \<times> json) list" where
  "json_field k f v = (case v of None \<Rightarrow> [] | Some x \<Rightarrow> [(k, f x)])"

definition snapshot_json :: "run_snapshot \<Rightarrow> json" where
  "snapshot_json s =
     JObject ([(''run_id'', JString (run_id s)), (''label'', opt_json (snap_label s)),
        (''task'', JString (snap_task s)), (''model'', JString (snap_model s))] @
        json_field ''parent_entity_id'' JString (parent_entity s) @
        json_field ''handoff'' handoff_json (snap_handoff s) @
        json_field ''delegation'' delegation_json (snap_delegation s) @
        [(''status'', run_state_json (run_state s)), (''output'', opt_json (run_output s)),
         (''error'', opt_json (run_error s)), (''started_at'', JString (started_at s)),
         (''finished_at'', opt_json (finished_at s))])"

definition nonblank_arg :: "json \<Rightarrow> rstr \<Rightarrow> rstr option" where
  "nonblank_arg args key =
     (case get_str args key of None \<Rightarrow> None | Some s \<Rightarrow> if trim s = [] then None else Some (trim s))"

definition bool_arg :: "json \<Rightarrow> rstr \<Rightarrow> bool \<Rightarrow> bool" where
  "bool_arg args key absent = (case Option.bind (json_get args key) as_bool of Some b \<Rightarrow> b | None \<Rightarrow> absent)"

text \<open>The manager that \<open>delegate\<close>, \<open>subagent_output\<close> and \<open>subagent_cancel\<close> use.\<close>

definition effective_manager :: "'w agents_world \<Rightarrow> orchestrator" where
  "effective_manager w = (case manager w of Some o1 \<Rightarrow> o1 | None \<Rightarrow> global_manager w)"

definition set_effective :: "orchestrator \<Rightarrow> 'w agents_world \<Rightarrow> 'w agents_world" where
  "set_effective o1 w = (case manager w of Some _ \<Rightarrow> w\<lparr>manager := Some o1\<rparr> | None \<Rightarrow> w\<lparr>global_manager := o1\<rparr>)"

definition start_run ::
    "'w agents_env \<Rightarrow> bool \<Rightarrow> bool \<Rightarrow> rstr \<Rightarrow> run_options \<Rightarrow> 'w agents_world
       \<Rightarrow> 'w agents_world \<times> (rstr, unit call_result) result" where
  "start_run env global background task opts w =
     (let o1 = (if global then global_manager w else effective_manager w) in
      if background
      then (case spawn_with_options (new_uuid env (w_outside w)) (now_text env (w_outside w)) task opts o1 of
              (o2, res) \<Rightarrow>
                (if global then w\<lparr>global_manager := o2\<rparr> else set_effective o2 w,
                 map_sum id (\<lambda>s. agent_result (to_text env (JObject [(''run_id'', JString (run_id s)),
                     (''started_at'', JString (started_at s)), (''status'', JString ''accepted'')])) []) res))
      else (case run_inline_with_options env o1 task opts w of
              (w, res) \<Rightarrow>
                (w, map_sum id (\<lambda>out. agent_result (to_text env (JObject [(''output'', JString out),
                     (''status'', JString ''completed'')])) subagent_output_taint_labels) res)))"

text \<open>The common body of \<open>delegate\<close> with \<open>action=run\<close> and of \<open>subagent_spawn\<close>, which differ in the wording, in the
  default of \<open>run_in_background\<close> and in the manager.\<close>

definition run_request ::
    "'w agents_env \<Rightarrow> bool \<Rightarrow> bool \<Rightarrow> rstr \<Rightarrow> rstr \<Rightarrow> json \<Rightarrow> agent_context \<Rightarrow> 'w agents_world
       \<Rightarrow> 'w agents_world \<times> (rstr, unit call_result) result" where
  "run_request env global default_background missing_text read_only_text args ctx w =
     (case get_str args ''task'' of
        None \<Rightarrow> (w, Err missing_text)
      | Some raw \<Rightarrow>
          let task = trim raw in
          if task = [] then (w, Err ([CHR 0x27] @ ''task'' @ [CHR 0x27] @ '' must not be empty''))
          else (case parse_handoff_envelope args of
            Inl e \<Rightarrow> (w, Err e)
          | Inr h \<Rightarrow>
              if ctx_autonomy ctx = ReadOnly then (w, Err (block_prefix @ read_only_text))
              else (case build_delegation_options (manager w \<noteq> None \<or> is_configured (global_manager w)) ctx
                           (nonblank_arg args ''label'') (nonblank_arg args ''model'') h (w_counters w) of
                  (cs, Inl e) \<Rightarrow> (w\<lparr>w_counters := cs\<rparr>, Err e)
                | (cs, Inr opts) \<Rightarrow>
                    start_run env global (bool_arg args ''run_in_background'' default_background) task opts
                      (w\<lparr>w_counters := cs\<rparr>))))"

definition missing_parameter :: "rstr \<Rightarrow> rstr \<Rightarrow> rstr" where
  "missing_parameter key tail_text = ''Missing '' @ [CHR 0x27] @ key @ [CHR 0x27] @ '' parameter'' @ tail_text"

definition subagent_spawn_execute ::
    "'w agents_env \<Rightarrow> json \<Rightarrow> agent_context \<Rightarrow> 'w agents_world \<Rightarrow> 'w agents_world \<times> (rstr, unit call_result) result" where
  "subagent_spawn_execute env =
     run_request env True True (missing_parameter ''task'' []) ''subagent_spawn is not allowed in read-only mode''"

definition output_request ::
    "'w agents_env \<Rightarrow> rstr \<Rightarrow> json \<Rightarrow> agent_context \<Rightarrow> 'w agents_world \<Rightarrow> 'w agents_world \<times> (rstr, unit call_result) result" where
  "output_request env tail_text args ctx w =
     (case get_str args ''run_id'' of
        None \<Rightarrow> (w, Err (missing_parameter ''run_id'' tail_text))
      | Some r \<Rightarrow>
          (w, Ok (case get_scoped r (ctx_entity ctx) (effective_manager w) of
                    None \<Rightarrow> run_not_found r
                  | Some s \<Rightarrow> agent_result (to_text env (snapshot_json s)) subagent_output_taint_labels)))"

definition cancel_request ::
    "'w agents_env \<Rightarrow> rstr \<Rightarrow> json \<Rightarrow> agent_context \<Rightarrow> 'w agents_world \<Rightarrow> 'w agents_world \<times> (rstr, unit call_result) result" where
  "cancel_request env tail_text args ctx w =
     (case get_str args ''run_id'' of
        None \<Rightarrow> (w, Err (missing_parameter ''run_id'' tail_text))
      | Some r \<Rightarrow>
          (case cancel_scoped (now_text env (w_outside w)) r (ctx_entity ctx) (effective_manager w) of
             (o2, res) \<Rightarrow>
               (set_effective o2 w,
                map_sum id (\<lambda>_. agent_result (to_text env (JObject [(''run_id'', JString r),
                  (''status'', JString ''cancelled'')])) []) res)))"

definition subagent_output_execute ::
    "'w agents_env \<Rightarrow> json \<Rightarrow> agent_context \<Rightarrow> 'w agents_world \<Rightarrow> 'w agents_world \<times> (rstr, unit call_result) result" where
  "subagent_output_execute env = output_request env []"

definition subagent_cancel_execute ::
    "'w agents_env \<Rightarrow> json \<Rightarrow> agent_context \<Rightarrow> 'w agents_world \<Rightarrow> 'w agents_world \<times> (rstr, unit call_result) result" where
  "subagent_cancel_execute env = cancel_request env []"

definition delegate_execute ::
    "'w agents_env \<Rightarrow> json \<Rightarrow> agent_context \<Rightarrow> 'w agents_world \<Rightarrow> 'w agents_world \<times> (rstr, unit call_result) result" where
  "delegate_execute env args ctx w =
     (case get_str args ''action'' of
        None \<Rightarrow> (w, Err (missing_parameter ''action'' []))
      | Some action \<Rightarrow>
          if action = ''run''
          then run_request env False False (missing_parameter ''task'' '' for action=run'')
                 ''delegate is not allowed in read-only mode'' args ctx w
          else if action = ''status'' then output_request env '' for action=status'' args ctx w
          else if action = ''list''
          then (w, Ok (agent_result (to_text env (JArray (map snapshot_json (list_scoped (ctx_entity ctx) (effective_manager w)))))
                  subagent_output_taint_labels))
          else if action = ''cancel'' then cancel_request env '' for action=cancel'' args ctx w
          else (w, Err (''unsupported action: '' @ action)))"

subsection \<open>Interleavings\<close>

text \<open>
  The manager, the runs whose task has not ended, and the spawns that have passed the check and not yet
  entered their run. The critical sections of any number of callers interleave; at most \<open>m\<close> spawns of one
  parent are between check and entry at a time. A cancelled task may or may not still complete.
\<close>

record run_system =
  orch :: orchestrator
  pending :: "rstr set"
  checked :: "run_options list"

definition in_flight :: "rstr \<Rightarrow> run_system \<Rightarrow> nat" where
  "in_flight k s = length (filter (\<lambda>opts. parent_key opts = k) (checked s))"

inductive runs_step :: "nat \<Rightarrow> run_system \<Rightarrow> run_system \<Rightarrow> bool" for m where
  configured: "runs_step m s (s\<lparr>orch := configure_runtime rt (orch s)\<rparr>)"
| check: "spawn_check opts (orch s) = Inr () \<Longrightarrow> in_flight (parent_key opts) s < m \<Longrightarrow>
    runs_step m s (s\<lparr>checked := checked s @ [opts]\<rparr>)"
| register: "checked s = xs @ opts # ys \<Longrightarrow> map_of (runs (orch s)) (''subagent_'' @ uuid) = None \<Longrightarrow>
    spawn_register uuid now task opts (orch s) = (o2, Inr snap) \<Longrightarrow>
    runs_step m s (s\<lparr>orch := o2, checked := xs @ ys, pending := insert (run_id snap) (pending s)\<rparr>)"
| unregistered: "checked s = xs @ opts # ys \<Longrightarrow> spawn_register uuid now task opts (orch s) = (o2, Inl e) \<Longrightarrow>
    runs_step m s (s\<lparr>orch := o2, checked := xs @ ys\<rparr>)"
| attach: "runs_step m s (s\<lparr>orch := spawn_attach r (orch s)\<rparr>)"
| complete: "r \<in> pending s \<Longrightarrow>
    runs_step m s (s\<lparr>orch := complete_run now r res (orch s), pending := pending s - {r}\<rparr>)"
| cancel_any: "runs_step m s (s\<lparr>orch := fst (cancel now r (orch s))\<rparr>)"
| cancel_own: "runs_step m s (s\<lparr>orch := fst (cancel_scoped now r entity (orch s))\<rparr>)"
| aborted: "get_run r (orch s) = Some snap \<Longrightarrow> run_state snap = Cancelled \<Longrightarrow>
    runs_step m s (s\<lparr>pending := pending s - {r}\<rparr>)"

definition run_system_init :: run_system where
  "run_system_init = \<lparr>orch = orchestrator_new, pending = {}, checked = []\<rparr>"

text \<open>The fields of a run tell one state; a handle is attached only while it goes on.\<close>

definition entry_ok :: "run_entry \<Rightarrow> bool" where
  "entry_ok e \<longleftrightarrow>
     (let s = snapshot e in
      (has_handle e \<longrightarrow> run_state s = Running) \<and> (run_state s = Running \<longleftrightarrow> finished_at s = None) \<and>
      (case run_state s of
         Running \<Rightarrow> run_output s = None \<and> run_error s = None
       | Completed \<Rightarrow> run_output s \<noteq> None \<and> run_error s = None
       | Failed \<Rightarrow> run_output s = None \<and> run_error s \<noteq> None
       | Cancelled \<Rightarrow> run_output s = None \<and> run_error s = Some ''cancelled''))"

definition entry_inv :: "rstr set \<Rightarrow> rstr \<Rightarrow> run_entry \<Rightarrow> bool" where
  "entry_inv going r e \<longleftrightarrow>
     entry_ok e \<and> run_id (snapshot e) = r \<and> (run_state (snapshot e) \<in> {Completed, Failed} \<longrightarrow> r \<notin> going) \<and>
     (run_state (snapshot e) = Running \<longrightarrow> r \<in> going)"

definition runs_inv :: "run_system \<Rightarrow> bool" where
  "runs_inv s \<longleftrightarrow>
     distinct (map fst (runs (orch s))) \<and> (\<forall>r e. (r, e) \<in> set (runs (orch s)) \<longrightarrow> entry_inv (pending s) r e)"

lemma runs_update_entry [simp]:
  "runs (update_entry r f o1) = map (\<lambda>(k, e). (k, if k = r then f e else e)) (runs o1)"
  by (simp add: update_entry_def)

lemma map_of_entry_update:
  "map_of (map (\<lambda>(k, e). (k, if k = r then f e else e)) xs) k =
     map_option (\<lambda>e. if k = r then f e else e) (map_of xs k)"
  by (induction xs) auto

lemma keys_update [simp]: "map fst (map (\<lambda>(k, e). (k, if k = r then f e else e)) xs) = map fst xs"
  by (induction xs) auto

lemma insert_fresh: "map_of (runs o1) r = None \<Longrightarrow> runs (insert_entry r e o1) = runs o1 @ [(r, e)]"
  by (auto simp: insert_entry_def map_of_eq_None_iff filter_id_conv image_iff)

lemma runs_configure [simp]: "runs (configure_runtime rt o1) = runs o1"
  by (simp add: configure_runtime_def)

lemma spawn_register_Inr:
  "spawn_register uuid now task opts o1 = (o2, Inr snap) \<Longrightarrow>
     \<exists>rt. snap = new_snapshot rt uuid now task opts \<and>
       o2 = insert_entry (''subagent_'' @ uuid) \<lparr>snapshot = snap, has_handle = False\<rparr> o1"
  by (auto simp: spawn_register_def Let_def new_snapshot_def split: sum.splits)

lemma spawn_register_Inl: "spawn_register uuid now task opts o1 = (o2, Inl e) \<Longrightarrow> o2 = o1"
  by (auto simp: spawn_register_def Let_def split: sum.splits)

text \<open>Cancelling, in both forms, leaves the manager as it is or cancels the entry.\<close>

lemma cancel_cases:
  "fst (cancel now r o1) = o1 \<or> fst (cancel now r o1) = update_entry r (cancel_entry now) o1"
  "fst (cancel_scoped now r entity o1) = o1 \<or> fst (cancel_scoped now r entity o1) = update_entry r (cancel_entry now) o1"
  by (auto simp: cancel_def cancel_scoped_def split: option.splits)

lemma entry_ok_cancel: "entry_ok e \<Longrightarrow> entry_ok (cancel_entry now e)"
  by (auto simp: entry_ok_def cancel_entry_def Let_def)

lemma cancel_entry_state:
  "run_id (snapshot (cancel_entry now e)) = run_id (snapshot e)"
  "run_state (snapshot (cancel_entry now e)) =
     (if run_state (snapshot e) = Running then Cancelled else run_state (snapshot e))"
  by (simp_all add: cancel_entry_def)

subsection \<open>The life of a run\<close>

lemma runs_inv_entry: "runs_inv s \<Longrightarrow> (r, e) \<in> set (runs (orch s)) \<Longrightarrow> entry_inv (pending s) r e"
  unfolding runs_inv_def by blast

lemma entry_inv_other: "entry_inv P r e \<Longrightarrow> (r \<in> Q \<longleftrightarrow> r \<in> P) \<Longrightarrow> entry_inv Q r e"
  by (auto simp: entry_inv_def)

lemma runs_inv_update:
  assumes inv: "runs_inv s"
    and entry: "\<And>e. entry_inv (pending s) r e \<Longrightarrow> entry_inv P r (f e)"
    and others: "\<And>k. k \<noteq> r \<Longrightarrow> k \<in> P \<longleftrightarrow> k \<in> pending s"
  shows "runs_inv (s\<lparr>orch := update_entry r f (orch s), pending := P\<rparr>)"
proof -
  have "entry_inv P k e'" if "(k, e') \<in> set (runs (update_entry r f (orch s)))" for k e'
  proof -
    from that have "(k, e') \<in> (\<lambda>(k, e). (k, if k = r then f e else e)) ` set (runs (orch s))" by simp
    then obtain e where e: "(k, e) \<in> set (runs (orch s))" "e' = (if k = r then f e else e)" by (rule imageE) auto
    then have "entry_inv (pending s) k e" using inv runs_inv_entry by blast
    then show ?thesis using e(2) entry others entry_inv_other by (cases "k = r") auto
  qed
  moreover have "distinct (map fst (runs (update_entry r f (orch s))))"
    using inv by (simp only: runs_update_entry keys_update runs_inv_def)
  ultimately show ?thesis unfolding runs_inv_def by simp
qed

lemma runs_inv_update_same:
  assumes "runs_inv s" "\<And>e. entry_inv (pending s) r e \<Longrightarrow> entry_inv (pending s) r (f e)"
  shows "runs_inv (s\<lparr>orch := update_entry r f (orch s)\<rparr>)"
  using runs_inv_update [OF assms(1), of r "pending s" f] assms(2) by simp

lemma runs_inv_cancel: "runs_inv s \<Longrightarrow> runs_inv (s\<lparr>orch := update_entry r (cancel_entry now) (orch s)\<rparr>)"
  by (rule runs_inv_update_same) (auto simp: entry_inv_def entry_ok_cancel cancel_entry_state split: if_splits)

lemma entry_inv_attach:
  "entry_inv P r e \<Longrightarrow> entry_inv P r (if run_state (snapshot e) = Running then e\<lparr>has_handle := True\<rparr> else e)"
  by (auto simp: entry_inv_def entry_ok_def Let_def)

definition completed_entry :: "rstr \<Rightarrow> (rstr, rstr) result \<Rightarrow> run_entry \<Rightarrow> run_entry" where
  "completed_entry now res e =
     (if run_state (snapshot e) = Cancelled then e
      else \<lparr>snapshot = (snapshot e)\<lparr>finished_at := Some now,
              run_state := (case res of Inl _ \<Rightarrow> Failed | Inr _ \<Rightarrow> Completed),
              run_output := (case res of Inl _ \<Rightarrow> None | Inr out \<Rightarrow> Some out),
              run_error := (case res of Inl err \<Rightarrow> Some err | Inr _ \<Rightarrow> None)\<rparr>,
            has_handle = False\<rparr>)"

lemma complete_run_eq: "complete_run now r res o1 = update_entry r (completed_entry now res) o1"
  unfolding complete_run_def completed_entry_def ..

lemma entry_inv_completed: "entry_inv P r e \<Longrightarrow> entry_inv (P - {r}) r (completed_entry now res e)"
  by (cases res) (auto simp: entry_inv_def completed_entry_def entry_ok_def Let_def)

lemma runs_inv_step: "runs_step m s s' \<Longrightarrow> runs_inv s \<Longrightarrow> runs_inv s'"
proof (induction rule: runs_step.induct)
  case (register s xs opts ys uuid now task o2 snap)
  let ?e = "\<lparr>snapshot = snap, has_handle = False\<rparr>" and ?s = "s\<lparr>orch := o2, checked := xs @ ys, pending := insert (run_id snap) (pending s)\<rparr>"
  obtain rt where new: "snap = new_snapshot rt uuid now task opts" "o2 = insert_entry (''subagent_'' @ uuid) ?e (orch s)"
    using spawn_register_Inr [OF register.hyps(3)] by blast
  have runs: "runs o2 = runs (orch s) @ [(run_id snap, ?e)]"
    using insert_fresh [OF register.hyps(2)] new by (simp add: new_snapshot_def)
  have fresh: "run_id snap \<notin> fst ` set (runs (orch s))"
    using register.hyps(2) new(1) by (simp add: new_snapshot_def map_of_eq_None_iff)
  have "entry_inv (pending ?s) k e" if "(k, e) \<in> set (runs (orch ?s))" for k e
  proof (cases "(k, e) \<in> set (runs (orch s))")
    case True
    then have "k \<noteq> run_id snap" using fresh by force
    then show ?thesis using entry_inv_other [OF runs_inv_entry [OF register.prems True]] by simp
  next
    case False
    then show ?thesis using that runs new(1) by (auto simp: new_snapshot_def entry_inv_def entry_ok_def)
  qed
  moreover have "distinct (map fst (runs (orch ?s)))"
    using register.prems fresh runs by (auto simp: runs_inv_def)
  ultimately show ?case unfolding runs_inv_def by blast
next
  case (unregistered s xs opts ys uuid now task o2 e)
  then show ?case using spawn_register_Inl [OF unregistered.hyps(2)] by (simp add: runs_inv_def)
next
  case (attach s r)
  then show ?case unfolding spawn_attach_def by (rule runs_inv_update_same) (rule entry_inv_attach)
next
  case (complete r s now res)
  then show ?case unfolding complete_run_eq by (intro runs_inv_update entry_inv_completed) auto
next
  case (cancel_any s now r)
  then show ?case using cancel_cases(1) [of now r "orch s"] runs_inv_cancel by auto
next
  case (cancel_own s now r entity)
  then show ?case using cancel_cases(2) [of now r entity "orch s"] runs_inv_cancel by auto
next
  case (aborted r s snap)
  have "entry_inv (pending s - {r}) k e" if "(k, e) \<in> set (runs (orch s))" for k e
  proof (cases "k = r")
    case True
    then have "snapshot e = snap"
      using that aborted by (auto simp: runs_inv_def get_run_def dest!: map_of_is_SomeI)
    then show ?thesis using runs_inv_entry [OF aborted.prems that] aborted.hyps(2) by (simp add: entry_inv_def)
  next
    case False
    then show ?thesis using entry_inv_other [OF runs_inv_entry [OF aborted.prems that]] by simp
  qed
  then show ?case using aborted.prems by (simp add: runs_inv_def)
qed (simp_all add: runs_inv_def)

lemma runs_inv_reachable: "(runs_step m)\<^sup>*\<^sup>* run_system_init s \<Longrightarrow> runs_inv s"
proof (induction rule: rtranclp_induct)
  case base
  then show ?case by (simp add: runs_inv_def run_system_init_def orchestrator_new_def)
qed (rule runs_inv_step)

lemma runs_inv_run: "(runs_step m)\<^sup>*\<^sup>* s s' \<Longrightarrow> runs_inv s \<Longrightarrow> runs_inv s'"
  by (induction rule: rtranclp_induct) (auto intro: runs_inv_step)

text \<open>How a run may go on: its origin never changes, and an end is final.\<close>

definition continues :: "run_snapshot \<Rightarrow> run_snapshot \<Rightarrow> bool" where
  "continues a b \<longleftrightarrow>
     (run_state a \<noteq> Running \<longrightarrow> b = a) \<and> run_id b = run_id a \<and> parent_entity b = parent_entity a \<and>
     snap_task b = snap_task a \<and> snap_model b = snap_model a \<and> snap_delegation b = snap_delegation a \<and>
     started_at b = started_at a"

lemma continues_refl: "continues a a"
  by (simp add: continues_def)

lemma continues_trans: "continues a b \<Longrightarrow> continues b c \<Longrightarrow> continues a c"
  by (auto simp: continues_def)

lemma get_run_update:
  "get_run k (update_entry r f o1) =
     (case map_of (runs o1) k of None \<Rightarrow> None | Some e \<Rightarrow> Some (snapshot (if k = r then f e else e)))"
  by (simp add: get_run_def map_of_entry_update split: option.splits)

lemma continues_update:
  assumes "get_run k o1 = Some a" "\<And>e. map_of (runs o1) r = Some e \<Longrightarrow> continues (snapshot e) (snapshot (f e))"
  shows "\<exists>b. get_run k (update_entry r f o1) = Some b \<and> continues a b"
proof -
  obtain e where e: "map_of (runs o1) k = Some e" "a = snapshot e" using assms(1) by (auto simp: get_run_def)
  then have "continues a (snapshot (if k = r then f e else e))"
    using assms(2) [of e] by (cases "k = r") (simp_all add: continues_refl)
  then show ?thesis using e(1) by (simp add: get_run_update)
qed

lemma continues_cancel: "continues (snapshot e) (snapshot (cancel_entry now e))"
  by (simp add: continues_def cancel_entry_def)

lemma continues_step:
  "runs_step m s s' \<Longrightarrow> runs_inv s \<Longrightarrow> get_run k (orch s) = Some a \<Longrightarrow>
     \<exists>b. get_run k (orch s') = Some b \<and> continues a b"
proof (induction rule: runs_step.induct)
  case (register s xs opts ys uuid now task o2 snap)
  have "runs o2 = runs (orch s) @ [(''subagent_'' @ uuid, \<lparr>snapshot = snap, has_handle = False\<rparr>)]"
    using spawn_register_Inr [OF register.hyps(3)] insert_fresh [OF register.hyps(2)] by auto
  then show ?case using register.prems(2) by (auto simp: get_run_def map_add_Some_iff intro: continues_refl)
next
  case (unregistered s xs opts ys uuid now task o2 e)
  then show ?case using spawn_register_Inl [OF unregistered.hyps(2)] by (auto intro: continues_refl)
next
  case (attach s r)
  let ?f = "\<lambda>e. if run_state (snapshot e) = Running then e\<lparr>has_handle := True\<rparr> else e"
  have "continues (snapshot e) (snapshot (?f e))" for e
    by (simp add: continues_def)
  then have "\<exists>b. get_run k (update_entry r ?f (orch s)) = Some b \<and> continues a b"
    by (intro continues_update [OF attach.prems(2)])
  then show ?case unfolding spawn_attach_def by simp
next
  case (complete r s now res)
  have "continues (snapshot e) (snapshot (completed_entry now res e))" if "map_of (runs (orch s)) r = Some e" for e
    using runs_inv_entry [OF complete.prems(1) map_of_SomeD [OF that]] complete.hyps
    by (cases "run_state (snapshot e)") (auto simp: continues_def completed_entry_def entry_inv_def)
  then show ?case using complete.prems(2) unfolding complete_run_eq by (simp add: continues_update)
next
  case (cancel_any s now r)
  have "\<exists>b. get_run k (update_entry r (cancel_entry now) (orch s)) = Some b \<and> continues a b"
    by (intro continues_update [OF cancel_any.prems(2)] continues_cancel)
  then show ?case
    using cancel_cases(1) [of now r "orch s"] cancel_any.prems(2) continues_refl by (elim disjE) auto
next
  case (cancel_own s now r entity)
  have "\<exists>b. get_run k (update_entry r (cancel_entry now) (orch s)) = Some b \<and> continues a b"
    by (intro continues_update [OF cancel_own.prems(2)] continues_cancel)
  then show ?case
    using cancel_cases(2) [of now r entity "orch s"] cancel_own.prems(2) continues_refl by (elim disjE) auto
qed (auto simp: get_run_def intro: continues_refl)

text \<open>A run that is cancelled while its task still goes on, and whose task then ends.\<close>

definition demo_config :: subagent_config where
  "demo_config =
     \<lparr>base_prompt = [], default_model = ''m'', default_temperature = 0, has_registry = False, rt_limits = demo_runtime,
      skill_policy = security_policy_default None, turn_hint_limit = 0, agent_extensions = [], extension_loader = None\<rparr>"

lemma first_spawn_allowed: "spawn_check run_options_default (configure_runtime rt orchestrator_new) = Inr ()"
proof -
  have "check_spawn_allowed ''subagent-root'' [\<lparr>agent_id = ''subagent-root'', parent_id = None, depth = 0\<rparr>]
      spawn_limits_default = Inr 1"
    by code_simp
  then show ?thesis
    by (auto simp: spawn_check_def parent_key_def run_options_default_def subagent_root_parent_id_def
        build_lineage_for_parent_def orchestrator_new_def)
qed

lemma demo_run:
  "\<exists>s s' a. (runs_step 1)\<^sup>*\<^sup>* run_system_init s \<and> (runs_step 1)\<^sup>*\<^sup>* s s' \<and>
     get_run ''subagent_1'' (orch s) = Some a \<and> run_state a = Cancelled \<and>
     s' = s\<lparr>orch := complete_run ''t2'' ''subagent_1'' (Inr ''late'') (orch s), pending := {}\<rparr> \<and> length (runs (orch s)) = 1"
proof -
  let ?o1 = "configure_runtime demo_config orchestrator_new"
  let ?snap = "new_snapshot demo_config ''1'' ''t0'' ''task'' run_options_default"
  let ?o2 = "insert_entry ''subagent_1'' \<lparr>snapshot = ?snap, has_handle = False\<rparr> ?o1"
  let ?o3 = "fst (cancel ''t1'' ''subagent_1'' ?o2)"
  let ?s3 = "\<lparr>orch = ?o3, pending = {''subagent_1''}, checked = []\<rparr>"
  have one: "runs_step 1 run_system_init \<lparr>orch = ?o1, pending = {}, checked = []\<rparr>"
    using runs_step.configured [of 1 run_system_init demo_config] by (simp add: run_system_init_def)
  have two: "runs_step 1 \<lparr>orch = ?o1, pending = {}, checked = []\<rparr> \<lparr>orch = ?o1, pending = {}, checked = [run_options_default]\<rparr>"
    using runs_step.check [of run_options_default "\<lparr>orch = ?o1, pending = {}, checked = []\<rparr>" 1] first_spawn_allowed
    by (simp add: in_flight_def)
  have "spawn_register ''1'' ''t0'' ''task'' run_options_default ?o1 = (?o2, Inr ?snap)"
    by (simp add: spawn_register_def get_runtime_def configure_runtime_def new_snapshot_def Let_def)
  then have three: "runs_step 1 \<lparr>orch = ?o1, pending = {}, checked = [run_options_default]\<rparr>
      \<lparr>orch = ?o2, pending = {''subagent_1''}, checked = []\<rparr>"
    using runs_step.register [of "\<lparr>orch = ?o1, pending = {}, checked = [run_options_default]\<rparr>" "[]" run_options_default "[]"
        "''1''" "''t0''" "''task''" ?o2 ?snap 1]
    by (simp add: orchestrator_new_def new_snapshot_def)
  have four: "runs_step 1 \<lparr>orch = ?o2, pending = {''subagent_1''}, checked = []\<rparr> ?s3"
    using runs_step.cancel_any [of 1 "\<lparr>orch = ?o2, pending = {''subagent_1''}, checked = []\<rparr>" "''t1''" "''subagent_1''"] by simp
  have run: "(runs_step 1)\<^sup>*\<^sup>* run_system_init ?s3"
    by (rule one two three four rtranclp.rtrancl_refl converse_rtranclp_into_rtranclp)+
  have late: "(runs_step 1)\<^sup>*\<^sup>* ?s3
      (?s3\<lparr>orch := complete_run ''t2'' ''subagent_1'' (Inr ''late'') ?o3, pending := {}\<rparr>)"
    using runs_step.complete [of "''subagent_1''" ?s3 1 "''t2''" "Inr ''late''"] by (auto intro: r_into_rtranclp)
  have entries: "runs ?o3 = [(''subagent_1'', cancel_entry ''t1'' \<lparr>snapshot = ?snap, has_handle = False\<rparr>)]"
    by (simp add: insert_fresh cancel_def orchestrator_new_def)
  have "get_run ''subagent_1'' ?o3 = Some (snapshot (cancel_entry ''t1'' \<lparr>snapshot = ?snap, has_handle = False\<rparr>))"
    by (simp add: get_run_def entries)
  moreover have "run_state (snapshot (cancel_entry ''t1'' \<lparr>snapshot = ?snap, has_handle = False\<rparr>)) = Cancelled"
    by (simp add: cancel_entry_def new_snapshot_def)
  ultimately show ?thesis using run late entries by (intro exI [of _ ?s3] exI conjI) auto
qed

text \<open>C9: the life of a run. However the critical sections of starting, attaching, completing and cancelling
  interleave, and whatever callers there are, a run that was entered stays in the map, its origin never
  changes, and once it has completed, failed or been cancelled it never changes again: a task that ends
  after the cancellation does not undo it. In each state output, error and end belong to the state of
  the run, and a run that goes on has a task that has not ended.\<close>

theorem run_end_is_final:
  assumes "(runs_step m)\<^sup>*\<^sup>* run_system_init s" "(runs_step m)\<^sup>*\<^sup>* s s'"
    and "get_run r (orch s) = Some a"
  shows "(\<exists>b. get_run r (orch s') = Some b \<and> continues a b) \<and>
    (run_state a = Running \<longrightarrow> r \<in> pending s) \<and> entry_ok \<lparr>snapshot = a, has_handle = False\<rparr>"
proof -
  have inv: "runs_inv s" using assms(1) by (rule runs_inv_reachable)
  have "\<exists>b. get_run r (orch s') = Some b \<and> continues a b"
    using assms(2)
  proof (induction rule: rtranclp_induct)
    case base
    then show ?case using assms(3) continues_refl by blast
  next
    case (step u v)
    have "runs_inv u" using runs_inv_run [OF step.hyps(1) inv] .
    then show ?case using step continues_step continues_trans by meson
  qed
  moreover obtain e where "map_of (runs (orch s)) r = Some e" "a = snapshot e"
    using assms(3) by (auto simp: get_run_def)
  then have "(run_state a = Running \<longrightarrow> r \<in> pending s) \<and> entry_ok e \<and> a = snapshot e"
    using runs_inv_entry [OF inv map_of_SomeD] by (auto simp: entry_inv_def)
  ultimately show ?thesis by (auto simp: entry_ok_def Let_def)
qed

lemma run_end_is_final_witness:
  "\<exists>s a. (runs_step 1)\<^sup>*\<^sup>* run_system_init s \<and> get_run ''subagent_1'' (orch s) = Some a \<and> run_state a = Cancelled \<and>
     get_run ''subagent_1'' (complete_run ''t2'' ''subagent_1'' (Inr ''late'') (orch s)) = Some a"
proof -
  obtain s s' a where run: "(runs_step 1)\<^sup>*\<^sup>* run_system_init s" "(runs_step 1)\<^sup>*\<^sup>* s s'"
      "get_run ''subagent_1'' (orch s) = Some a" "run_state a = Cancelled"
      "orch s' = complete_run ''t2'' ''subagent_1'' (Inr ''late'') (orch s)"
    using demo_run by force
  obtain b where "get_run ''subagent_1'' (orch s') = Some b" "continues a b"
    using run_end_is_final [OF run(1,2,3)] by blast
  then have "get_run ''subagent_1'' (orch s') = Some a" using run(4) by (simp add: continues_def)
  then show ?thesis using run by auto
qed

subsection \<open>How many runs\<close>

definition owner_key :: "run_entry \<Rightarrow> rstr" where
  "owner_key e = (case parent_entity (snapshot e) of None \<Rightarrow> subagent_root_parent_id | Some p \<Rightarrow> p)"

definition runs_of :: "rstr \<Rightarrow> orchestrator \<Rightarrow> nat" where
  "runs_of k o1 = length (filter (\<lambda>(_, e). owner_key e = k) (runs o1))"

lemma lineage_child: "parent_id (lineage_of k e) = Some k \<longleftrightarrow> owner_key e = k"
  by (auto simp: lineage_of_def owner_key_def split: option.splits)

text \<open>The runs of an owner are among its descendants in the lineage.\<close>

lemma runs_of_descendants:
  assumes "distinct (map fst (runs o1))" "\<And>r e. (r, e) \<in> set (runs o1) \<Longrightarrow> run_id (snapshot e) = r"
  shows "runs_of k o1 \<le> count_descendants k (build_lineage_for_parent o1 k)"
proof -
  let ?mine = "filter (\<lambda>(_, e). owner_key e = k) (runs o1)" and ?lin = "build_lineage_for_parent o1 k"
  have "distinct (map fst ?mine)" using assms(1) by (rule distinct_map_filter)
  then have "runs_of k o1 = card (fst ` set ?mine)"
    unfolding runs_of_def by (metis distinct_card length_map list.set_map)
  also have "\<dots> \<le> card (descendants ?lin k)"
  proof (rule card_mono)
    have "descendants ?lin k \<subseteq> ids ?lin"
      unfolding descendants_def by (auto simp: child_of_def ids_def elim: tranclE)
    then show "finite (descendants ?lin k)" by (rule finite_subset) (simp add: ids_def)
    show "fst ` set ?mine \<subseteq> descendants ?lin k"
    proof
      fix r assume "r \<in> fst ` set ?mine"
      then obtain e where e: "(r, e) \<in> set (runs o1)" "owner_key e = k" by auto
      then have "lineage_of k e \<in> set ?lin" "agent_id (lineage_of k e) = r"
        using assms(2) by (force simp: build_lineage_for_parent_def Let_def lineage_of_def)+
      then show "r \<in> descendants ?lin k"
        using e(2) lineage_child by (auto simp: descendants_def child_of_def)
    qed
  qed
  also have "\<dots> = count_descendants k ?lin" by (simp add: count_descendants_card)
  finally show ?thesis .
qed

lemma spawn_check_few:
  assumes "spawn_check opts (orch s) = Inr ()" "runs_inv s"
  shows "runs_of (parent_key opts) (orch s) \<le> 9"
proof -
  let ?k = "parent_key opts"
  have "count_descendants ?k (build_lineage_for_parent (orch s) ?k) < 10"
    using assms(1) by (auto simp: spawn_check_def check_spawn_allowed_def Let_def spawn_limits_default_def
        split: option.splits if_splits)
  moreover have "runs_of ?k (orch s) \<le> count_descendants ?k (build_lineage_for_parent (orch s) ?k)"
    using assms(2) by (intro runs_of_descendants) (auto simp: runs_inv_def entry_inv_def)
  ultimately show ?thesis by simp
qed

lemma runs_of_update:
  "(\<And>e. owner_key (f e) = owner_key e) \<Longrightarrow> runs_of k (update_entry r f o1) = runs_of k o1"
proof -
  assume f: "\<And>e. owner_key (f e) = owner_key e"
  have g: "owner_key (if a = r then f e else e) = owner_key e" for a e by (simp add: f)
  have "length (filter (\<lambda>(_, e). owner_key e = k) (map (\<lambda>(k, e). (k, if k = r then f e else e)) xs)) =
      length (filter (\<lambda>(_, e). owner_key e = k) xs)" for xs :: "(rstr \<times> run_entry) list"
    by (induction xs) (simp_all add: g split: prod.splits)
  then show ?thesis by (simp add: runs_of_def)
qed

definition few_runs :: "nat \<Rightarrow> run_system \<Rightarrow> bool" where
  "few_runs m s \<longleftrightarrow> (\<forall>k. runs_of k (orch s) + in_flight k s \<le> 9 + m)"

lemma few_runs_same:
  "few_runs m s \<Longrightarrow> (\<And>k. runs_of k o2 = runs_of k (orch s)) \<Longrightarrow> few_runs m (s\<lparr>orch := o2\<rparr>)"
  by (simp add: few_runs_def in_flight_def)

lemma owner_key_entries:
  "owner_key (cancel_entry now e) = owner_key e" "owner_key (completed_entry now res e) = owner_key e"
  "owner_key (if run_state (snapshot e) = Running then e\<lparr>has_handle := True\<rparr> else e) = owner_key e"
  by (simp_all add: owner_key_def cancel_entry_def completed_entry_def)

lemma few_runs_step: "runs_step m s s' \<Longrightarrow> runs_inv s \<Longrightarrow> few_runs m s \<Longrightarrow> few_runs m s'"
proof (induction rule: runs_step.induct)
  case (configured s rt)
  then show ?case by (simp add: few_runs_def in_flight_def runs_of_def)
next
  case (check opts s)
  have "runs_of (parent_key opts) (orch s) \<le> 9" using check by (intro spawn_check_few)
  then show ?case using check.hyps(2) check.prems(2) by (auto simp: few_runs_def in_flight_def)
next
  case (register s xs opts ys uuid now task o2 snap)
  obtain rt where new: "snap = new_snapshot rt uuid now task opts"
      "o2 = insert_entry (''subagent_'' @ uuid) \<lparr>snapshot = snap, has_handle = False\<rparr> (orch s)"
    using spawn_register_Inr [OF register.hyps(3)] by blast
  have "owner_key \<lparr>snapshot = snap, has_handle = False\<rparr> = parent_key opts"
    by (simp add: new new_snapshot_def owner_key_def parent_key_def split: option.splits)
  then have "runs_of k o2 + in_flight k (s\<lparr>checked := xs @ ys\<rparr>) = runs_of k (orch s) + in_flight k s" for k
    using insert_fresh [OF register.hyps(2)] new(2) register.hyps(1) by (simp add: runs_of_def in_flight_def)
  then show ?case using register.prems(2) by (simp add: few_runs_def in_flight_def)
next
  case (unregistered s xs opts ys uuid now task o2 e)
  have "in_flight k (s\<lparr>checked := xs @ ys\<rparr>) \<le> in_flight k s" for k
    using unregistered.hyps(1) by (simp add: in_flight_def)
  then show ?case
    using spawn_register_Inl [OF unregistered.hyps(2)] unregistered.prems(2)
    by (simp add: few_runs_def in_flight_def) (meson add_le_mono le_refl order_trans)
next
  case (attach s r)
  then show ?case unfolding spawn_attach_def by (intro few_runs_same runs_of_update owner_key_entries)
next
  case (complete r s now res)
  then have "few_runs m (s\<lparr>orch := complete_run now r res (orch s)\<rparr>)"
    unfolding complete_run_eq by (intro few_runs_same runs_of_update owner_key_entries)
  then show ?case by (simp add: few_runs_def in_flight_def)
next
  case (cancel_any s now r)
  then show ?case
    using cancel_cases(1) [of now r "orch s"] runs_of_update [of "cancel_entry now"] owner_key_entries(1)
    by (intro few_runs_same) metis+
next
  case (cancel_own s now r entity)
  then show ?case
    using cancel_cases(2) [of now r entity "orch s"] runs_of_update [of "cancel_entry now"] owner_key_entries(1)
    by (intro few_runs_same) metis+
qed (simp_all add: few_runs_def in_flight_def)

text \<open>At most ten background runs for each parent, for the life of the manager, when no two spawns of the
  parent overlap, and one more for each further spawn that overlaps with another: the check and the
  entry of a run are two critical sections. Runs that have ended count.\<close>

theorem runs_per_parent_bounded:
  assumes "(runs_step m)\<^sup>*\<^sup>* run_system_init s"
  shows "runs_of k (orch s) \<le> 9 + m"
proof -
  have "runs_inv s \<and> few_runs m s"
    using assms
  proof (induction rule: rtranclp_induct)
    case base
    then show ?case
      by (simp add: runs_inv_def few_runs_def run_system_init_def orchestrator_new_def runs_of_def in_flight_def)
  next
    case (step u v)
    then show ?case using runs_inv_step few_runs_step by blast
  qed
  then show ?thesis by (auto simp: few_runs_def dest: spec [of _ k])
qed

lemma runs_per_parent_bounded_witness:
  "\<exists>s. (runs_step 1)\<^sup>*\<^sup>* run_system_init s \<and> length (runs (orch s)) = 1 \<and> runs_of subagent_root_parent_id (orch s) \<le> 10"
proof -
  obtain s where run: "(runs_step 1)\<^sup>*\<^sup>* run_system_init s" "length (runs (orch s)) = 1"
    using demo_run by blast
  then show ?thesis using runs_per_parent_bounded [OF run(1), of subagent_root_parent_id] by auto
qed

text \<open>The limit on the depth never applies: runs are listed by their id, while a parent is an entity, whose name no
  run has, so every spawner is entered as a root of depth 0.\<close>

lemma depth_limit_never_applies:
  assumes "\<And>r e. (r, e) \<in> set (runs o1) \<Longrightarrow> run_id (snapshot e) \<noteq> parent_key opts"
  shows "spawn_check opts o1 = Err e \<Longrightarrow> \<exists>n. e = DescendantsExceeded n 10"
proof -
  let ?p = "parent_key opts" and ?old = "map (lineage_of (parent_key opts) \<circ> snd) (runs o1)"
  let ?boss = "\<lparr>agent_id = ?p, parent_id = None, depth = 0\<rparr>"
  assume err: "spawn_check opts o1 = Err e"
  have none: "n \<in> set ?old \<Longrightarrow> agent_id n \<noteq> ?p" for n
    using assms by (auto simp: lineage_of_def)
  then have lin: "build_lineage_for_parent o1 ?p = ?old @ [?boss]"
    by (auto simp: build_lineage_for_parent_def list_ex_iff)
  have "find_node ?p ?old = None"
    using none unfolding find_node_def find_None_iff by blast
  moreover have "List.find P xs = None \<Longrightarrow> List.find P (xs @ ys) = List.find P ys"
    for P and xs ys :: "lineage_node list"
    by (induction xs) (auto split: if_splits)
  ultimately have found: "find_node ?p (?old @ [?boss]) = Some ?boss"
    by (simp add: find_node_def)
  have "ancestor (?old @ [?boss]) (Some ?p) 1 = None"
    using found by (simp add: parent_of_def)
  then have "\<not> has_cycle ?p (?old @ [?boss])" using has_cycle_iff by blast
  then show ?thesis
    using err found lin
    by (auto simp: spawn_check_def check_spawn_allowed_def spawn_limits_default_def Let_def split: if_splits)
qed

text \<open>Two spawns that overlap pass the check together although one slot is left.\<close>

lemma check_and_entry_apart:
  assumes "spawn_check opts (orch s) = Inr ()" "in_flight (parent_key opts) s = 0"
  shows "\<exists>s'. (runs_step 2)\<^sup>*\<^sup>* s s' \<and> in_flight (parent_key opts) s' = 2 \<and> orch s' = orch s"
proof -
  let ?s1 = "s\<lparr>checked := checked s @ [opts]\<rparr>"
  let ?s2 = "?s1\<lparr>checked := checked ?s1 @ [opts]\<rparr>"
  have "runs_step 2 s ?s1" using runs_step.check [OF assms(1), of 2] assms(2) by simp
  moreover have "runs_step 2 ?s1 ?s2"
    using runs_step.check [of opts ?s1 2] assms by (simp add: in_flight_def)
  ultimately have "(runs_step 2)\<^sup>*\<^sup>* s ?s2" by (meson r_into_rtranclp rtranclp_trans)
  moreover have "in_flight (parent_key opts) ?s2 = 2" using assms(2) by (simp add: in_flight_def)
  ultimately show ?thesis by (intro exI [of _ ?s2]) simp
qed

subsection \<open>Whose runs a caller sees\<close>

definition runs_view :: "rstr \<Rightarrow> orchestrator \<Rightarrow> (rstr \<times> run_entry) list" where
  "runs_view entity o1 = filter (\<lambda>(_, e). parent_entity (snapshot e) = Some entity) (runs o1)"

lemma map_of_view:
  "distinct (map fst xs) \<Longrightarrow>
     map_of (filter (\<lambda>(_, e). P e) xs) k = (case map_of xs k of None \<Rightarrow> None | Some e \<Rightarrow> if P e then Some e else None)"
proof (induction xs)
  case (Cons x xs)
  then have "k = fst x \<Longrightarrow> map_of xs k = None" by (simp add: map_of_eq_None_iff)
  then show ?case using Cons by (cases x) auto
qed simp

lemma get_scoped_view:
  "distinct (map fst (runs o1)) \<Longrightarrow> get_scoped r entity o1 = map_option snapshot (map_of (runs_view entity o1) r)"
  by (auto simp: get_scoped_def get_run_def runs_view_def map_of_view split: option.splits)

lemma list_scoped_view:
  "list_scoped entity o1 = rev (sort_key started_at (rev (map (snapshot \<circ> snd) (runs_view entity o1))))"
proof -
  have "filter (\<lambda>s. parent_entity s = Some entity) (map (snapshot \<circ> snd) xs) =
      map (snapshot \<circ> snd) (filter (\<lambda>(_, e). parent_entity (snapshot e) = Some entity) xs)"
    for xs :: "(rstr \<times> run_entry) list"
    by (induction xs) auto
  then show ?thesis
    by (simp add: list_scoped_def list_runs_def runs_view_def rev_filter filter_sort)
       (simp add: rev_filter [symmetric] filter_sort)
qed

lemma cancel_scoped_view:
  "distinct (map fst (runs o1)) \<Longrightarrow>
     snd (cancel_scoped now r entity o1) =
       (if map_of (runs_view entity o1) r = None then Err (''subagent run not found: '' @ r) else Ok ())"
  by (auto simp: cancel_scoped_def runs_view_def map_of_view split: option.splits)

lemma cancel_scoped_others:
  assumes "distinct (map fst (runs o1))" "other \<noteq> entity"
  shows "runs_view other (fst (cancel_scoped now r entity o1)) = runs_view other o1"
proof (cases "map_of (runs o1) r")
  case (Some e)
  show ?thesis
  proof (cases "parent_entity (snapshot e) = Some entity")
    case True
    let ?f = "\<lambda>(k, e). (k, if k = r then cancel_entry now e else e)"
    have same: "k = r \<Longrightarrow> a = e" if "(k, a) \<in> set (runs o1)" for k a
      using map_of_is_SomeI [OF assms(1) that] Some by simp
    have kept: "parent_entity (snapshot (cancel_entry now e)) = parent_entity (snapshot e)" for e
      by (simp add: cancel_entry_def)
    have "filter (\<lambda>(_, e). parent_entity (snapshot e) = Some other) (map ?f xs) =
        filter (\<lambda>(_, e). parent_entity (snapshot e) = Some other) xs"
      if "set xs \<subseteq> set (runs o1)" for xs
      using that
    proof (induction xs)
      case (Cons x xs)
      then show ?case using same [of "fst x" "snd x"] True assms(2) kept by (cases x) auto
    qed simp
    then show ?thesis using Some True by (simp add: cancel_scoped_def runs_view_def)
  qed (simp add: cancel_scoped_def Some)
qed (simp add: cancel_scoped_def)

lemma effective_set [simp]: "effective_manager (set_effective o1 w) = o1"
  by (simp add: effective_manager_def set_effective_def split: option.splits)

text \<open>C10: the runs of other entities are out of reach. What \<open>delegate\<close> with an action other than \<open>run\<close> answers
  depends only on the runs the caller's own entity started: two managers that agree on these give the
  same answer, whatever other runs they hold, so a foreign run is reported exactly like one that does
  not exist; and no such call changes a run of another entity.\<close>

theorem foreign_runs_out_of_reach:
  assumes "distinct (map fst (runs (effective_manager w1)))" "distinct (map fst (runs (effective_manager w2)))"
    and "runs_view (ctx_entity ctx) (effective_manager w1) = runs_view (ctx_entity ctx) (effective_manager w2)"
    and "w_outside w1 = w_outside w2" "get_str args ''action'' \<noteq> Some ''run''"
  shows "snd (delegate_execute env args ctx w1) = snd (delegate_execute env args ctx w2) \<and>
    (\<forall>entity. entity \<noteq> ctx_entity ctx \<longrightarrow>
      runs_view entity (effective_manager (fst (delegate_execute env args ctx w1))) =
      runs_view entity (effective_manager w1))"
proof -
  let ?c = "\<lambda>w r. cancel_scoped (now_text env (w_outside w)) r (ctx_entity ctx) (effective_manager w)"
  have "snd (output_request env t args ctx w1) = snd (output_request env t args ctx w2)" for t
    using assms by (simp add: output_request_def get_scoped_view split: option.splits)
  moreover have "snd (cancel_request env t args ctx w1) = snd (cancel_request env t args ctx w2)" for t
  proof -
    have "snd (?c w1 r) = snd (?c w2 r)" for r using assms by (simp add: cancel_scoped_view)
    then show ?thesis by (simp add: cancel_request_def split_beta split: option.splits)
  qed
  moreover have "list_scoped (ctx_entity ctx) (effective_manager w1) = list_scoped (ctx_entity ctx) (effective_manager w2)"
    using assms(3) by (simp add: list_scoped_view)
  moreover have "fst (output_request env t args ctx w1) = w1" for t
    by (simp add: output_request_def split: option.splits)
  moreover have "runs_view e (effective_manager (fst (cancel_request env t args ctx w1))) =
      runs_view e (effective_manager w1)" if "e \<noteq> ctx_entity ctx" for t e
    using cancel_scoped_others [OF assms(1) that]
    by (simp add: cancel_request_def split_beta split: option.splits)
  ultimately show ?thesis using assms(5) by (simp add: delegate_execute_def split: option.splits)
qed

lemma foreign_runs_out_of_reach_witness:
  "\<exists>(env :: unit agents_env) args ctx w1 w2 r. runs (effective_manager w1) \<noteq> [] \<and> runs (effective_manager w2) = [] \<and>
     snd (delegate_execute env args ctx w1) = snd (delegate_execute env args ctx w2) \<and>
     snd (delegate_execute env args ctx w1) = (Ok (run_not_found r) :: (rstr, unit call_result) result)"
proof -
  let ?e = "\<lparr>snapshot = new_snapshot demo_config ''1'' ''t0'' ''task'' run_options_default, has_handle = False\<rparr>"
  let ?w1 = "\<lparr>manager = None, global_manager = orchestrator_new\<lparr>runs := [(''subagent_1'', ?e)]\<rparr>, w_counters = \<lambda>_. 0, w_fresh = 0, w_outside = ()\<rparr>"
  let ?w2 = "?w1\<lparr>global_manager := orchestrator_new\<rparr>"
  let ?args = "JObject [(''action'', JString ''status''), (''run_id'', JString ''subagent_1'')]"
  fix env :: "unit agents_env"
  have views: "runs_view (ctx_entity demo_agent) (effective_manager ?w1) = runs_view (ctx_entity demo_agent) (effective_manager ?w2)"
    by (simp add: effective_manager_def runs_view_def orchestrator_new_def new_snapshot_def run_options_default_def)
  have strs: "get_str ?args ''action'' = Some ''status''" "get_str ?args ''run_id'' = Some ''subagent_1''"
    by code_simp+
  have same: "snd (delegate_execute env ?args demo_agent ?w1) = snd (delegate_execute env ?args demo_agent ?w2)"
  proof (rule foreign_runs_out_of_reach [OF _ _ views, THEN conjunct1])
    show "distinct (map fst (runs (effective_manager ?w1)))" "distinct (map fst (runs (effective_manager ?w2)))"
      by (simp_all add: effective_manager_def orchestrator_new_def)
    show "w_outside ?w1 = w_outside ?w2" by simp
    show "get_str ?args ''action'' \<noteq> Some ''run''" unfolding strs by simp
  qed
  have ok: "snd (delegate_execute env ?args demo_agent ?w2) = Ok (run_not_found ''subagent_1'')"
    using strs by (simp add: delegate_execute_def output_request_def get_scoped_def get_run_def effective_manager_def orchestrator_new_def)
  have one: "runs (effective_manager ?w1) \<noteq> []" and none: "runs (effective_manager ?w2) = []"
    by (simp_all add: effective_manager_def orchestrator_new_def)
  show ?thesis
    by (intro exI [of _ env] exI [of _ ?args] exI [of _ demo_agent] exI [of _ ?w1] exI [of _ ?w2]
        exI [of _ "''subagent_1''"] conjI) (rule one none same trans [OF same ok])+
qed

text \<open>A run started by \<open>subagent_spawn\<close> never reaches a manager that the context brings along, which is the one
  that \<open>subagent_output\<close> and \<open>subagent_cancel\<close> ask.\<close>

lemma spawn_misses_manager: "manager (fst (subagent_spawn_execute env args ctx w)) = manager w"
proof -
  have inline: "manager (fst (run_inline_with_options env o1 task opts w)) = manager w" for o1 task opts w
    by (simp add: run_inline_with_options_def execute_subagent_task_def Let_def split: sum.splits prod.splits)
  have "manager (fst (start_run env True b task opts w)) = manager w" for b task opts w
    using inline by (cases b) (simp_all add: start_run_def split_beta Let_def)
  then show ?thesis
    by (simp add: subagent_spawn_execute_def run_request_def Let_def split: option.splits sum.splits prod.splits)
qed

end
