(* ===== verification/Net_Guard.thy ===== *)
theory Net_Guard
  imports External_Content Text_Utils
begin

text \<open>
  Which network addresses a request may reach (\<open>src/src/contracts/network.rs\<close>,
  \<open>src/src/security/url_validation.rs\<close>, the client factory of \<open>src/src/utils/http.rs\<close>, the host checks of
  \<open>src/src/core/tools/browser/domain.rs\<close>). The address type of the standard library with its parser and
  printer is modelled; parsed URLs are what the accessors of the \<open>url\<close> crate return, and the parser, the
  resolver and the client are parameters. The requests sent are recorded in the world.
\<close>

unbundle bit_operations_syntax

type_synonym u16 = "16 word"

subsection \<open>Addresses\<close>

datatype ip_addr = V4 u8 u8 u8 u8 | V6 "u16 list"

type_synonym socket_addr = "ip_addr \<times> u16"

definition is_private_v4 :: "u8 \<Rightarrow> u8 \<Rightarrow> u8 \<Rightarrow> u8 \<Rightarrow> bool" where
  "is_private_v4 a b c d \<longleftrightarrow>
     a = 127 \<or>
     (a = 10 \<or> a = 172 \<and> 16 \<le> b \<and> b \<le> 31 \<or> a = 192 \<and> b = 168) \<or>
     a = 169 \<and> b = 254 \<or>
     (a, b, c, d) = (0, 0, 0, 0) \<or>
     (a, b, c, d) = (255, 255, 255, 255) \<or>
     (a, b, c, d) = (169, 254, 169, 254)"

definition high_byte :: "u16 \<Rightarrow> u8" where "high_byte g = ucast (drop_bit 8 g)"
definition low_byte :: "u16 \<Rightarrow> u8" where "low_byte g = ucast g"

definition to_ipv4_mapped :: "u16 list \<Rightarrow> (u8 \<times> u8 \<times> u8 \<times> u8) option" where
  "to_ipv4_mapped g =
     (if take 6 g = [0, 0, 0, 0, 0, 0xFFFF]
      then Some (high_byte (g ! 6), low_byte (g ! 6), high_byte (g ! 7), low_byte (g ! 7)) else None)"

fun is_private_ip :: "ip_addr \<Rightarrow> bool" where
  "is_private_ip (V4 a b c d) = is_private_v4 a b c d"
| "is_private_ip (V6 g) \<longleftrightarrow>
     g = [0, 0, 0, 0, 0, 0, 0, 1] \<or> g = replicate 8 0 \<or>
     hd g AND 0xFE00 = 0xFC00 \<or> hd g AND 0xFFC0 = 0xFE80 \<or>
     (case to_ipv4_mapped g of None \<Rightarrow> False | Some (a, b, c, d) \<Rightarrow> is_private_v4 a b c d)"

subsection \<open>Parsing\<close>

text \<open>The parser of the standard library: a reader returns the value and the rest, or reads nothing.\<close>

definition digit_value :: "nat \<Rightarrow> char \<Rightarrow> nat option" where
  "digit_value radix c =
     (case hex_value c of None \<Rightarrow> None | Some v \<Rightarrow> if v < radix then Some v else None)"

definition digits_value :: "nat \<Rightarrow> rstr \<Rightarrow> nat" where
  "digits_value radix ds = foldl (\<lambda>n c. radix * n + the (digit_value radix c)) 0 ds"

definition read_number :: "nat \<Rightarrow> nat \<Rightarrow> bool \<Rightarrow> nat \<Rightarrow> rstr \<Rightarrow> (nat \<times> rstr) option" where
  "read_number radix max_digits allow_zero_prefix bound s =
     (let ds = takeWhile (\<lambda>c. digit_value radix c \<noteq> None) s; n = digits_value radix ds in
      if max_digits < length ds \<or> ds = [] then None
      else if \<not> allow_zero_prefix \<and> hd ds = CHR ''0'' \<and> 1 < length ds then None
      else if bound \<le> n then None
      else Some (n, drop (length ds) s))"

fun read_char :: "char \<Rightarrow> rstr \<Rightarrow> rstr option" where
  "read_char c [] = None"
| "read_char c (x # s) = (if x = c then Some s else None)"

definition read_separator :: "char \<Rightarrow> nat \<Rightarrow> (rstr \<Rightarrow> ('a \<times> rstr) option) \<Rightarrow> rstr \<Rightarrow> ('a \<times> rstr) option" where
  "read_separator c i inner s = (if 0 < i then Option.bind (read_char c s) inner else inner s)"

definition read_octet :: "nat \<Rightarrow> rstr \<Rightarrow> (u8 \<times> rstr) option" where
  "read_octet i = read_separator (CHR ''.'') i
     (\<lambda>s. map_option (\<lambda>(n, r). (of_nat n, r)) (read_number 10 3 False 256 s))"

definition read_ipv4 :: "rstr \<Rightarrow> ((u8 \<times> u8 \<times> u8 \<times> u8) \<times> rstr) option" where
  "read_ipv4 s =
     Option.bind (read_octet 0 s) (\<lambda>(a, s).
     Option.bind (read_octet 1 s) (\<lambda>(b, s).
     Option.bind (read_octet 2 s) (\<lambda>(c, s).
     Option.bind (read_octet 3 s) (\<lambda>(d, s). Some ((a, b, c, d), s)))))"

text \<open>Groups of an IPv6 address, at most as many as asked for, with whether a trailing IPv4 address was read.\<close>

fun read_groups :: "nat \<Rightarrow> nat \<Rightarrow> rstr \<Rightarrow> u16 list \<times> bool \<times> rstr" where
  "read_groups i 0 s = ([], False, s)"
| "read_groups i (Suc n) s =
     (case (if n = 0 then None else read_separator (CHR '':'') i read_ipv4 s) of
        Some ((a, b, c, d), r) \<Rightarrow> ([of_nat (unat a * 256 + unat b), of_nat (unat c * 256 + unat d)], True, r)
      | None \<Rightarrow>
          (case read_separator (CHR '':'') i (read_number 16 4 True 65536) s of
             None \<Rightarrow> ([], False, s)
           | Some (g, r) \<Rightarrow> (case read_groups (Suc i) n r of (gs, v4, t) \<Rightarrow> (of_nat g # gs, v4, t))))"

definition read_ipv6 :: "rstr \<Rightarrow> (u16 list \<times> rstr) option" where
  "read_ipv6 s =
     (case read_groups 0 8 s of (head, v4, r) \<Rightarrow>
        if length head = 8 then Some (head, r)
        else if v4 then None
        else Option.bind (Option.bind (read_char (CHR '':'') r) (read_char (CHR '':''))) (\<lambda>r.
          case read_groups 0 (8 - (length head + 1)) r of (tail, _, t) \<Rightarrow>
            Some (head @ replicate (8 - length head - length tail) 0 @ tail, t)))"

definition parse_ip :: "rstr \<Rightarrow> ip_addr option" where
  "parse_ip s =
     (case (case read_ipv4 s of
              Some ((a, b, c, d), r) \<Rightarrow> Some (V4 a b c d, r)
            | None \<Rightarrow> map_option (\<lambda>(g, r). (V6 g, r)) (read_ipv6 s)) of
        Some (ip, []) \<Rightarrow> Some ip
      | _ \<Rightarrow> None)"

subsection \<open>Printing\<close>

definition show_ipv4 :: "u8 \<Rightarrow> u8 \<Rightarrow> u8 \<Rightarrow> u8 \<Rightarrow> rstr" where
  "show_ipv4 a b c d =
     decimal (unat a) @ ''.'' @ decimal (unat b) @ ''.'' @ decimal (unat c) @ ''.'' @ decimal (unat d)"

definition hex_digit :: "nat \<Rightarrow> char" where
  "hex_digit n = (if n < 10 then char_of (48 + n) else char_of (87 + n))"

fun hexadecimal :: "nat \<Rightarrow> rstr" where
  "hexadecimal n = (if n < 16 then [hex_digit n] else hexadecimal (n div 16) @ [hex_digit (n mod 16)])"

declare hexadecimal.simps [simp del]

definition show_groups :: "u16 list \<Rightarrow> rstr" where
  "show_groups g = join '':'' (map (\<lambda>x. hexadecimal (unat x)) g)"

text \<open>The first of the longest runs of zeros: its start and length.\<close>

fun longest_zeros :: "nat \<Rightarrow> nat \<times> nat \<Rightarrow> nat \<times> nat \<Rightarrow> u16 list \<Rightarrow> nat \<times> nat" where
  "longest_zeros i current best [] = best"
| "longest_zeros i current best (x # g) =
     (if x = 0
      then let now = (if snd current = 0 then (i, 1) else (fst current, snd current + 1))
           in longest_zeros (Suc i) now (if snd best < snd now then now else best) g
      else longest_zeros (Suc i) (0, 0) best g)"

fun show_ip :: "ip_addr \<Rightarrow> rstr" where
  "show_ip (V4 a b c d) = show_ipv4 a b c d"
| "show_ip (V6 g) =
     (case to_ipv4_mapped g of
        Some (a, b, c, d) \<Rightarrow> ''::ffff:'' @ show_ipv4 a b c d
      | None \<Rightarrow>
          (case longest_zeros 0 (0, 0) (0, 0) g of (start, len) \<Rightarrow>
             if 1 < len then show_groups (take start g) @ ''::'' @ show_groups (drop (start + len) g)
             else show_groups g))"

subsection \<open>Hosts\<close>

definition strip_brackets :: "rstr \<Rightarrow> rstr" where
  "strip_brackets host =
     (case Option.bind (strip_prefix ''['' host) (strip_suffix '']'') of None \<Rightarrow> host | Some h \<Rightarrow> h)"

definition is_private_host :: "rstr \<Rightarrow> bool" where
  "is_private_host host =
     (let bare = strip_brackets host in
      if bare = ''localhost'' then True
      else (case parse_ip bare of Some ip \<Rightarrow> is_private_ip ip | None \<Rightarrow> False))"

text \<open>\<open>Ipv4Addr::from(u32)\<close> and \<open>u32::from_str_radix(_, 16)\<close>.\<close>

definition ipv4_from_number :: "nat \<Rightarrow> ip_addr" where
  "ipv4_from_number n = V4 (of_nat (n div 16777216)) (of_nat (n div 65536)) (of_nat (n div 256)) (of_nat n)"

definition parse_hex :: "rstr \<Rightarrow> nat option" where
  "parse_hex s =
     (let ds = (case s of c # r \<Rightarrow> if c = CHR ''+'' then r else s | [] \<Rightarrow> [])
      in if ds \<noteq> [] \<and> list_all (\<lambda>c. digit_value 16 c \<noteq> None) ds \<and> digits_value 16 ds < 2 ^ 32
         then Some (digits_value 16 ds) else None)"

definition quoted :: "rstr \<Rightarrow> rstr" where
  "quoted s = [CHR 0x27] @ s @ [CHR 0x27]"

definition ssrf_block_prefix :: rstr where "ssrf_block_prefix = ''SSRF blocked:''"
definition url_has_no_host :: rstr where "url_has_no_host = ''URL has no host''"
definition url_requires_https :: rstr where "url_requires_https = ''only https:// URLs are allowed''"
definition url_requires_http :: rstr where
  "url_requires_http = ''only http:// and https:// URLs are allowed''"
definition url_userinfo_not_allowed :: rstr where "url_userinfo_not_allowed = ''URL userinfo is not allowed''"

text \<open>The refusal of a host that spells a private address as one number, if there is one.\<close>

definition alternate_encoding :: "rstr \<Rightarrow> rstr option" where
  "alternate_encoding host =
     (if list_all (\<lambda>c. is_ascii_digit c \<or> c \<in> set ''.xX'') host
      then (case map_option ipv4_from_number (parse_unsigned (2 ^ 32) host) of
              Some ip \<Rightarrow>
                if is_private_ip ip
                then Some (ssrf_block_prefix @ '' numeric host '' @ quoted host @ '' decodes to private address '' @ show_ip ip)
                else None
            | None \<Rightarrow>
                (case Option.bind (case strip_prefix ''0x'' host of Some h \<Rightarrow> Some h | None \<Rightarrow> strip_prefix ''0X'' host) parse_hex of
                   Some n \<Rightarrow>
                     if is_private_ip (ipv4_from_number n)
                     then Some (ssrf_block_prefix @ '' hex host '' @ quoted host @ '' decodes to private address '' @
                            show_ip (ipv4_from_number n))
                     else None
                 | None \<Rightarrow> None))
      else None)"

subsection \<open>URLs, requests and the network\<close>

text \<open>What the accessors of a parsed URL return; the port is the one given or known for the scheme.\<close>

record parsed_url =
  url_text :: rstr
  url_scheme :: rstr
  url_username :: rstr
  url_password :: "rstr option"
  url_host :: "rstr option"
  url_port :: "u16 option"

datatype http_route = Direct | Proxy rstr

record net_request =
  req_url :: parsed_url
  req_pins :: "socket_addr list"
  req_route :: http_route
  req_bearer :: "rstr option"

record http_response =
  resp_status :: nat
  resp_url :: parsed_url
  resp_location :: "rstr option option"
  resp_content_type :: "rstr option option"
  resp_content_length :: "nat option"
  resp_chunks :: "(rstr, u8 list) result list"
  resp_text :: "(rstr, rstr) result"

record 'w net_world =
  net_outside :: 'w
  sent_requests :: "net_request list"

record 'w net_env =
  parse_url :: "rstr \<Rightarrow> (rstr, parsed_url) result"
  join_url :: "parsed_url \<Rightarrow> rstr \<Rightarrow> (rstr, parsed_url) result"
  lookup_host :: "rstr \<Rightarrow> 'w \<Rightarrow> 'w \<times> (rstr, socket_addr list) result"
  build_client :: "rstr \<Rightarrow> socket_addr list \<Rightarrow> (rstr, unit) result"
  send_over :: "net_request \<Rightarrow> 'w \<Rightarrow> 'w \<times> (rstr, http_response) result"

definition send_request :: "'w net_env \<Rightarrow> net_request \<Rightarrow> 'w net_world \<Rightarrow> 'w net_world \<times> (rstr, http_response) result" where
  "send_request env r w =
     (case send_over env r (net_outside w) of
        (u, res) \<Rightarrow> (w\<lparr>net_outside := u, sent_requests := sent_requests w @ [r]\<rparr>, res))"

subsection \<open>Validation\<close>

definition resolve_public_fetch_addrs ::
    "'w net_env \<Rightarrow> parsed_url \<Rightarrow> 'w net_world \<Rightarrow> 'w net_world \<times> (rstr, socket_addr list) result" where
  "resolve_public_fetch_addrs env u w =
     (case url_host u of
        None \<Rightarrow> (w, Err url_has_no_host)
      | Some h \<Rightarrow>
          let port = (case url_port u of Some p \<Rightarrow> p | None \<Rightarrow> 443) in
          (case (case parse_ip h of
                   Some ip \<Rightarrow> (w, Ok [(ip, port)])
                 | None \<Rightarrow>
                     (case lookup_host env (h @ '':'' @ decimal (unat port)) (net_outside w) of
                        (x, res) \<Rightarrow>
                          (w\<lparr>net_outside := x\<rparr>,
                           map_sum (\<lambda>e. ssrf_block_prefix @ '' DNS lookup failed for '' @ quoted h @ '': '' @ e) id res))) of
             (w, Inl e) \<Rightarrow> (w, Err e)
           | (w, Inr addrs) \<Rightarrow>
               if addrs = []
               then (w, Err (ssrf_block_prefix @ '' DNS lookup returned no addresses for '' @ quoted h))
               else (case List.find (\<lambda>(ip, _). is_private_ip ip) addrs of
                       Some (ip, _) \<Rightarrow>
                         (w, Err (ssrf_block_prefix @ '' host '' @ quoted h @ '' resolves to private address '' @ show_ip ip))
                     | None \<Rightarrow> (w, Ok addrs))))"

definition validate_no_ssrf :: "'w net_env \<Rightarrow> rstr \<Rightarrow> 'w net_world \<Rightarrow> 'w net_world \<times> (rstr, unit) result" where
  "validate_no_ssrf env url_str w =
     (case parse_url env url_str of
        Inl e \<Rightarrow> (w, Err (''invalid URL: '' @ e))
      | Inr u \<Rightarrow>
          (case url_host u of
             None \<Rightarrow> (w, Err url_has_no_host)
           | Some h \<Rightarrow>
               if is_private_host h
               then (w, Err (ssrf_block_prefix @ '' host '' @ quoted h @ '' resolves to private/internal address''))
               else (case alternate_encoding h of
                       Some e \<Rightarrow> (w, Err e)
                     | None \<Rightarrow>
                         (case resolve_public_fetch_addrs env u w of (w, res) \<Rightarrow> (w, map_sum id (\<lambda>_. ()) res)))))"

definition validate_fetch_url ::
    "'w net_env \<Rightarrow> rstr \<Rightarrow> bool \<Rightarrow> 'w net_world \<Rightarrow> 'w net_world \<times> (rstr, parsed_url) result" where
  "validate_fetch_url env url_str require_https w =
     (case parse_url env url_str of
        Inl e \<Rightarrow> (w, Err (''invalid URL: '' @ e))
      | Inr u \<Rightarrow>
          if url_scheme u \<noteq> ''https'' \<and> \<not> (url_scheme u = ''http'' \<and> \<not> require_https)
          then (w, Err (if require_https then url_requires_https else url_requires_http))
          else if url_username u \<noteq> [] \<or> url_password u \<noteq> None then (w, Err url_userinfo_not_allowed)
          else if url_host u = None then (w, Err url_has_no_host)
          else (case validate_no_ssrf env url_str w of (w, res) \<Rightarrow> (w, map_sum id (\<lambda>_. u) res)))"

text \<open>The direct client whose lookups are answered by the validated addresses.\<close>

definition pinned_public_fetch_client ::
    "'w net_env \<Rightarrow> parsed_url \<Rightarrow> 'w net_world \<Rightarrow> 'w net_world \<times> (rstr, socket_addr list) result" where
  "pinned_public_fetch_client env u w =
     (case url_host u of
        None \<Rightarrow> (w, Err ''fetch URL has no host'')
      | Some h \<Rightarrow>
          (case resolve_public_fetch_addrs env u w of
             (w, Inl e) \<Rightarrow> (w, Err e)
           | (w, Inr addrs) \<Rightarrow> (w, map_sum id (\<lambda>_. addrs) (build_client env h addrs))))"

subsection \<open>The proxy of the other clients\<close>

definition runtime_http_route_from_proxy ::
    "'w net_env \<Rightarrow> (rstr \<Rightarrow> (rstr, unit) result) \<Rightarrow> rstr option \<Rightarrow> (rstr, http_route) result" where
  "runtime_http_route_from_proxy env proxy_all proxy =
     (case map_option trim proxy of
        None \<Rightarrow> Ok Direct
      | Some url \<Rightarrow>
          if url = [] then Ok Direct
          else (case parse_url env url of
                  Inl e \<Rightarrow> Err e
                | Inr u \<Rightarrow>
                    if url_scheme u \<noteq> ''http'' \<and> url_scheme u \<noteq> ''https''
                    then Err ''runtime http proxy must use http:// or https://''
                    else if url_host u = None then Err ''runtime http proxy must include a host''
                    else map_sum id (\<lambda>_. Proxy url) (proxy_all url)))"

definition sync_runtime_http_proxy ::
    "'w net_env \<Rightarrow> (rstr \<Rightarrow> (rstr, unit) result) \<Rightarrow> rstr option \<Rightarrow> http_route \<Rightarrow> http_route \<times> (rstr, bool) result" where
  "sync_runtime_http_proxy env proxy_all proxy current =
     (case runtime_http_route_from_proxy env proxy_all proxy of
        Inl e \<Rightarrow> (current, Err e)
      | Inr next_route \<Rightarrow> if current = next_route then (current, Ok False) else (next_route, Ok True))"

subsection \<open>Hosts of the browser tool\<close>

definition normalize_domains :: "rstr list \<Rightarrow> rstr list" where
  "normalize_domains ds = filter (\<lambda>d. d \<noteq> []) (map (\<lambda>d. to_lowercase (trim d)) ds)"

definition extract_host :: "rstr \<Rightarrow> rstr option" where
  "extract_host url_str =
     (let url = trim url_str;
          without_scheme =
            (case strip_prefix ''https://'' url of Some r \<Rightarrow> r | None \<Rightarrow>
               (case strip_prefix ''http://'' url of Some r \<Rightarrow> r | None \<Rightarrow>
                  (case strip_prefix ''file://'' url of Some r \<Rightarrow> r | None \<Rightarrow> url)));
          authority = hd (split_on (CHR ''/'') without_scheme);
          host = (if starts_with authority ''[''
                  then (case split_once (CHR '']'') authority of Some (a, _) \<Rightarrow> a @ '']'' | None \<Rightarrow> authority)
                  else hd (split_on (CHR '':'') authority))
      in if host = [] then None else Some (to_lowercase host))"

definition host_in_allowlist :: "rstr \<Rightarrow> rstr list \<Rightarrow> bool" where
  "host_in_allowlist host allowed =
     list_ex (\<lambda>p.
       if p = ''*'' then True
       else if starts_with p ''*.'' then ends_with host (drop 1 p) \<or> host = drop 2 p
       else host = p \<or> ends_with host (''.'' @ p)) allowed"

definition browser_validate_url ::
    "'w net_env \<Rightarrow> rstr list \<Rightarrow> rstr \<Rightarrow> 'w net_world \<Rightarrow> 'w net_world \<times> (rstr, unit) result" where
  "browser_validate_url env allowed raw w =
     (let url = trim raw in
      if url = [] then (w, Err ''URL cannot be empty: provide a fully-qualified URL starting with http:// or https://'')
      else if starts_with url ''file://'' then (w, Err ''file:// URLs are blocked by default'')
      else if \<not> starts_with url ''https://'' \<and> \<not> starts_with url ''http://''
      then (w, Err ''Only http:// and https:// URLs are allowed'')
      else if allowed = []
      then (w, Err ''Browser tool enabled but no allowed_domains configured. Add [browser].allowed_domains in config.toml'')
      else (case extract_host url of
              None \<Rightarrow> (w, Err (''invalid URL '' @ quoted url @
                '': no host found '' @ [CHR 0xE2, CHR 0x80, CHR 0x94] @
                '' expected a fully-qualified URL such as https://example.com''))
            | Some h \<Rightarrow>
                if is_private_host h then (w, Err (''Blocked local/private host: '' @ h))
                else if \<not> host_in_allowlist h allowed
                then (w, Err (''Host '' @ quoted h @ '' not in browser.allowed_domains''))
                else validate_no_ssrf env url w))"

subsection \<open>How an IPv4 address is written\<close>

lemma digit_value_10: "digit_value 10 c = (if is_ascii_digit c then Some (byte c - 48) else None)"
  by (auto simp: digit_value_def hex_value_def is_ascii_digit_def Let_def)

lemma digits_value_10: "list_all is_ascii_digit ds \<Longrightarrow> digits_value 10 ds = decode_digits ds"
proof (induction ds rule: rev_induct)
  case (snoc c ds)
  then show ?case by (simp add: digits_value_def decode_digits_def digit_value_10)
qed (simp add: digits_value_def decode_digits_def)

lemma decimal_leading_zero: "hd (decimal n) = CHR ''0'' \<longleftrightarrow> n = 0"
proof (induction n rule: decimal.induct)
  case (1 n)
  show ?case
  proof (cases "n < 10")
    case True
    have "CHR ''0'' = char_of (48 + (0 :: nat))" by code_simp
    then have "char_of (48 + n) = CHR ''0'' \<longleftrightarrow> n = 0" using True by (metis byte_digit add_left_cancel zero_less_numeral)
    then show ?thesis using True by (simp add: decimal.simps [of n])
  next
    case False
    then show ?thesis using 1 decimal_digits [of "n div 10"] by (simp add: decimal.simps [of n])
  qed
qed

lemma decimal_of_digits:
  "list_all is_ascii_digit ds \<Longrightarrow> ds \<noteq> [] \<Longrightarrow> hd ds \<noteq> CHR ''0'' \<or> length ds = 1 \<Longrightarrow>
     decimal (decode_digits ds) = ds"
proof (induction ds rule: rev_induct)
  case (snoc c ds)
  obtain d where d: "d < 10" "byte c = 48 + d"
    using snoc.prems(1) by (intro that [of "byte c - 48"]) (auto simp: is_ascii_digit_def)
  then have c: "c = char_of (48 + d)" by (metis byte_def char_of_char)
  show ?case
  proof (cases "ds = []")
    case True
    then show ?thesis using d c by (simp add: decode_digits_def decimal.simps [of d])
  next
    case False
    then have hd: "hd ds \<noteq> CHR ''0''" using snoc.prems(3) by simp
    then have IH: "decimal (decode_digits ds) = ds" using snoc.IH snoc.prems(1) False by simp
    then have "decode_digits ds \<noteq> 0" using decimal_leading_zero hd by metis
    then have "\<not> 10 * decode_digits ds + d < 10" "(10 * decode_digits ds + d) div 10 = decode_digits ds"
        "(10 * decode_digits ds + d) mod 10 = d"
      using d(1) by auto
    then show ?thesis using IH d c by (simp add: decode_digits_snoc decimal.simps [of "10 * decode_digits ds + d"])
  qed
qed simp

definition no_digit :: "rstr \<Rightarrow> bool" where
  "no_digit r \<longleftrightarrow> (case r of [] \<Rightarrow> True | c # _ \<Rightarrow> \<not> is_ascii_digit c)"

lemma length_decimal_octet: "n < 256 \<Longrightarrow> length (decimal n) \<le> 3"
  by (simp add: decimal.simps [of n] decimal.simps [of "n div 10"] decimal.simps [of "n div 10 div 10"])

lemma take_digits:
  assumes "list_all is_ascii_digit ds" "no_digit r"
  shows "takeWhile is_ascii_digit (ds @ r) = ds"
proof -
  have "takeWhile is_ascii_digit r = []" using assms(2) by (cases r) (simp_all add: no_digit_def)
  then show ?thesis using assms(1) by (simp add: list_all_iff)
qed

lemma read_number_octet:
  "read_number 10 3 False 256 s = Some (n, r) \<longleftrightarrow> n < 256 \<and> s = decimal n @ r \<and> no_digit r"
proof
  let ?ds = "takeWhile is_ascii_digit s"
  assume read: "read_number 10 3 False 256 s = Some (n, r)"
  have digits: "list_all is_ascii_digit ?ds" by (auto simp: list_all_iff dest: set_takeWhileD)
  have eq: "(\<lambda>c. digit_value 10 c \<noteq> None) = is_ascii_digit" by (simp add: digit_value_10 fun_eq_iff)
  from read have n: "?ds \<noteq> []" "hd ?ds \<noteq> CHR ''0'' \<or> length ?ds = 1" "n = decode_digits ?ds" "n < 256"
      "r = drop (length ?ds) s"
    unfolding read_number_def eq Let_def digits_value_10 [OF digits]
    by (simp_all split: if_splits) (metis One_nat_def Suc_lessI length_greater_0_conv)
  then have dec: "decimal n = ?ds" using decimal_of_digits [OF digits] by simp
  have "r = dropWhile is_ascii_digit s" using n(5) by (simp add: dropWhile_eq_drop)
  then have "no_digit r"
  proof (cases r)
    case (Cons c t)
    then have "dropWhile is_ascii_digit s = c # t" using \<open>r = dropWhile is_ascii_digit s\<close> by simp
    then have "\<not> is_ascii_digit c" by (simp add: dropWhile_eq_Cons_conv)
    then show ?thesis using Cons by (simp add: no_digit_def)
  qed (simp add: no_digit_def)
  moreover have "s = decimal n @ r" using n(5) dec by (metis takeWhile_eq_take append_take_drop_id)
  ultimately show "n < 256 \<and> s = decimal n @ r \<and> no_digit r" using n(4) by blast
next
  assume a: "n < 256 \<and> s = decimal n @ r \<and> no_digit r"
  have eq: "(\<lambda>c. digit_value 10 c \<noteq> None) = is_ascii_digit" by (simp add: digit_value_10 fun_eq_iff)
  have "takeWhile is_ascii_digit s = decimal n" using a take_digits decimal_digits by blast
  moreover have "n = 0 \<Longrightarrow> length (decimal n) = 1" by (simp add: decimal.simps)
  ultimately show "read_number 10 3 False 256 s = Some (n, r)"
    using a digits_value_10 [of "decimal n"] decimal_digits [of n] length_decimal_octet [of n] decimal_leading_zero [of n]
    unfolding read_number_def eq Let_def by (cases "n = 0") (simp_all add: decode_decimal)
qed

lemma read_octet_iff:
  "read_octet i s = Some (v, r) \<longleftrightarrow> s = (if 0 < i then ''.'' else []) @ decimal (unat v) @ r \<and> no_digit r"
proof -
  let ?f = "\<lambda>s. map_option (\<lambda>(n, r). (of_nat n :: u8, r)) (read_number 10 3 False 256 s)"
  have f: "?f s = Some (v, r) \<longleftrightarrow> s = decimal (unat v) @ r \<and> no_digit r" for s
  proof
    assume "?f s = Some (v, r)"
    then obtain n where n: "read_number 10 3 False 256 s = Some (n, r)" "v = of_nat n" by auto
    then have "n < 256" using read_number_octet by blast
    then have "unat v = n" using n(2) by (simp add: unat_of_nat)
    then show "s = decimal (unat v) @ r \<and> no_digit r" using n(1) read_number_octet by blast
  next
    assume "s = decimal (unat v) @ r \<and> no_digit r"
    moreover have "unat v < 256" using unsigned_less [of v] by simp
    ultimately have "read_number 10 3 False 256 s = Some (unat v, r)" using read_number_octet by blast
    then show "?f s = Some (v, r)" by simp
  qed
  show ?thesis
  proof (cases "0 < i")
    case True
    then show ?thesis using f by (cases s) (simp_all add: read_octet_def read_separator_def)
  next
    case False
    then show ?thesis using f by (simp add: read_octet_def read_separator_def)
  qed
qed

lemma no_digit_dot [simp]: "no_digit (CHR ''.'' # s)"
  by (simp add: no_digit_def is_ascii_digit_def byte_def)

lemma read_ipv4_iff: "read_ipv4 s = Some ((a, b, c, d), r) \<longleftrightarrow> s = show_ipv4 a b c d @ r \<and> no_digit r"
proof -
  have "read_ipv4 s = Some ((a, b, c, d), r) \<longleftrightarrow>
      (\<exists>s1 s2 s3. read_octet 0 s = Some (a, s1) \<and> read_octet 1 s1 = Some (b, s2) \<and>
        read_octet 2 s2 = Some (c, s3) \<and> read_octet 3 s3 = Some (d, r))"
    unfolding read_ipv4_def by (auto simp: bind_eq_Some_conv)
  then show ?thesis by (auto simp: read_octet_iff show_ipv4_def)
qed

text \<open>An IPv4 address has exactly one spelling. The dotted decimal text without leading zeros is read as the
  address it shows, and no other text is: octal, hexadecimal, shortened and one-number forms are not
  taken for an address, so the classification of literals never disagrees with what they spell.\<close>

theorem ipv4_spelling: "parse_ip s = Some (V4 a b c d) \<longleftrightarrow> s = show_ipv4 a b c d"
proof -
  have "parse_ip s = Some (V4 a b c d) \<longleftrightarrow> read_ipv4 s = Some ((a, b, c, d), [])"
    by (auto simp: parse_ip_def split: option.splits list.splits prod.splits)
  then show ?thesis by (simp add: read_ipv4_iff no_digit_def)
qed

subsection \<open>Which addresses are private\<close>

definition v4_number :: "u8 \<Rightarrow> u8 \<Rightarrow> u8 \<Rightarrow> u8 \<Rightarrow> nat" where
  "v4_number a b c d = ((unat a * 256 + unat b) * 256 + unat c) * 256 + unat d"

text \<open>A block of the documentation: the addresses that agree with the given one on a prefix of so many bits.\<close>

definition v4_block :: "u8 \<Rightarrow> u8 \<Rightarrow> u8 \<Rightarrow> u8 \<Rightarrow> nat \<Rightarrow> nat \<Rightarrow> bool" where
  "v4_block a b c d bits n \<longleftrightarrow> n div 2 ^ (32 - bits) = v4_number a b c d div 2 ^ (32 - bits)"

definition documented_v4 :: "nat \<Rightarrow> bool" where
  "documented_v4 n \<longleftrightarrow>
     v4_block 127 0 0 0 8 n \<or> v4_block 10 0 0 0 8 n \<or> v4_block 172 16 0 0 12 n \<or> v4_block 192 168 0 0 16 n \<or>
     v4_block 169 254 0 0 16 n \<or> v4_block 0 0 0 0 32 n \<or> v4_block 255 255 255 255 32 n"

lemma unat_octet: "unat (a :: u8) < 256"
  using unsigned_less [of a] by simp

lemma octet_eq: "a = b \<longleftrightarrow> unat a = unat b" for a b :: u8
  by (rule word_unat_eq_iff)

lemma two_digits:
  fixes a b c d k :: nat
  assumes "b < k" "d < k"
  shows "a * k + b = c * k + d \<longleftrightarrow> a = c \<and> b = d"
proof
  assume eq: "a * k + b = c * k + d"
  have "(a * k + b) div k = a" "(c * k + d) div k = c" using assms by simp_all
  with eq show "a = c \<and> b = d" by simp
qed simp

lemma private_v4_documented: "is_private_v4 a b c d \<longleftrightarrow> documented_v4 (v4_number a b c d)"
proof -
  obtain a' b' c' d' where n: "unat a = a'" "unat b = b'" "unat c = c'" "unat d = d'"
      "a' < 256" "b' < 256" "c' < 256" "d' < 256"
    using unat_octet by blast
  have top: "v4_number a b c d div 16777216 = a'" "v4_number a b c d div 65536 = a' * 256 + b'"
      "v4_number a b c d div 1048576 = a' * 16 + b' div 16"
    using n by (simp_all add: v4_number_def)
  have doc: "documented_v4 (v4_number a b c d) \<longleftrightarrow>
      a' = 127 \<or> a' = 10 \<or> a' * 16 + b' div 16 = 2753 \<or> a' * 256 + b' = 49320 \<or> a' * 256 + b' = 43518 \<or>
      v4_number a b c d = 0 \<or> v4_number a b c d = 4294967295"
    by (simp add: documented_v4_def v4_block_def top v4_number_def [of 127] v4_number_def [of 10] v4_number_def [of 172]
        v4_number_def [of 192] v4_number_def [of 169] v4_number_def [of 0] v4_number_def [of 255])
  have priv: "is_private_v4 a b c d \<longleftrightarrow>
      a' = 127 \<or> (a' = 10 \<or> a' = 172 \<and> 16 \<le> b' \<and> b' \<le> 31 \<or> a' = 192 \<and> b' = 168) \<or> a' = 169 \<and> b' = 254 \<or>
      a' = 0 \<and> b' = 0 \<and> c' = 0 \<and> d' = 0 \<or> a' = 255 \<and> b' = 255 \<and> c' = 255 \<and> d' = 255"
    using n(1-4) by (auto simp: is_private_v4_def octet_eq word_le_nat_alt)
  have zero: "v4_number a b c d = 0 \<longleftrightarrow> a' = 0 \<and> b' = 0 \<and> c' = 0 \<and> d' = 0"
    using n(1-4) by (auto simp: v4_number_def)
  have "((a' * 256 + b') * 256 + c') * 256 + d' = 4294967295 \<longleftrightarrow> (a' * 256 + b') * 256 + c' = 16777215 \<and> d' = 255"
    using two_digits [OF n(8), of 255 "(a' * 256 + b') * 256 + c'" 16777215] by simp
  moreover have "(a' * 256 + b') * 256 + c' = 16777215 \<longleftrightarrow> a' * 256 + b' = 65535 \<and> c' = 255"
    using two_digits [OF n(7), of 255 "a' * 256 + b'" 65535] by simp
  moreover have "a' * 256 + b' = 65535 \<longleftrightarrow> a' = 255 \<and> b' = 255"
    using two_digits [OF n(6), of 255 a' 255] by simp
  ultimately have full: "v4_number a b c d = 4294967295 \<longleftrightarrow> a' = 255 \<and> b' = 255 \<and> c' = 255 \<and> d' = 255"
    unfolding v4_number_def n(1-4) by (simp only: conj_assoc)
  have "b' div 16 < 16" using n(6) by linarith
  then have "a' * 16 + b' div 16 = 2753 \<longleftrightarrow> a' = 172 \<and> b' div 16 = 1"
    using two_digits [of "b' div 16" 16 1 a' 172] by simp
  moreover have "b' div 16 = 1 \<longleftrightarrow> 16 \<le> b' \<and> b' \<le> 31" by linarith
  ultimately have block: "a' * 16 + b' div 16 = 2753 \<longleftrightarrow> a' = 172 \<and> 16 \<le> b' \<and> b' \<le> 31" by (simp only:)
  have pairs: "a' * 256 + b' = 49320 \<longleftrightarrow> a' = 192 \<and> b' = 168" "a' * 256 + b' = 43518 \<longleftrightarrow> a' = 169 \<and> b' = 254"
    using two_digits [OF n(6), of 168 a' 192] two_digits [OF n(6), of 254 a' 169] by simp_all
  show ?thesis unfolding doc priv zero full block pairs by (simp only: disj_assoc)
qed

text \<open>The masks of the two IPv6 blocks are comparisons of the leading bits.\<close>

lemma unat_mask_high:
  fixes g :: u16
  assumes "k \<le> 16"
  shows "unat (g AND push_bit k (mask (16 - k))) = unat g div 2 ^ k * 2 ^ k"
proof -
  have "g AND push_bit k (mask (16 - k)) = push_bit k (drop_bit k g)"
    using assms by (intro bit_word_eqI) (auto simp: bit_simps)
  moreover have "unat g div 2 ^ k * 2 ^ k < 65536"
    using unsigned_less [of g] by (intro le_less_trans [OF div_times_less_eq_dividend]) simp
  moreover have "unat (push_bit k (drop_bit k g)) = take_bit 16 (push_bit k (drop_bit k (take_bit 16 (unat g))))"
    by (simp only: unsigned_push_bit_eq unsigned_drop_bit_eq len_of_numeral_defs) simp
  moreover have "unat g < 65536" using unsigned_less [of g] by simp
  ultimately show ?thesis
    by (simp add: take_bit_eq_mod push_bit_eq_mult [where 'a = nat] drop_bit_eq_div [where 'a = nat])
qed

lemma unique_local: "g AND 0xFE00 = 0xFC00 \<longleftrightarrow> unat g div 2 ^ 9 = 126" for g :: u16
proof -
  have "(0xFE00 :: u16) = push_bit 9 (mask (16 - 9))"
    by (simp add: mask_eq_exp_minus_1 push_bit_eq_mult)
  then have "unat (g AND 0xFE00) = unat g div 2 ^ 9 * 2 ^ 9" using unat_mask_high [of 9 g] by simp
  moreover have "g AND 0xFE00 = 0xFC00 \<longleftrightarrow> unat (g AND 0xFE00) = 126 * 2 ^ 9"
    by (simp add: word_unat_eq_iff)
  ultimately show ?thesis by simp
qed

lemma link_local: "g AND 0xFFC0 = 0xFE80 \<longleftrightarrow> unat g div 2 ^ 6 = 1018" for g :: u16
proof -
  have "(0xFFC0 :: u16) = push_bit 6 (mask (16 - 6))"
    by (simp add: mask_eq_exp_minus_1 push_bit_eq_mult)
  then have "unat (g AND 0xFFC0) = unat g div 2 ^ 6 * 2 ^ 6" using unat_mask_high [of 6 g] by simp
  moreover have "g AND 0xFFC0 = 0xFE80 \<longleftrightarrow> unat (g AND 0xFFC0) = 1018 * 2 ^ 6"
    by (simp add: word_unat_eq_iff)
  ultimately show ?thesis by simp
qed

lemma word_bytes: "unat (high_byte z) * 256 + unat (low_byte z) = unat z" for z :: u16
proof -
  have "unat z < 65536" using unsigned_less [of z] by simp
  then show ?thesis
    by (simp add: high_byte_def low_byte_def unsigned_ucast_eq take_bit_eq_mod unsigned_drop_bit_eq
        drop_bit_eq_div [where 'a = nat])
qed

lemma mapped_number:
  "v4_number (high_byte x) (low_byte x) (high_byte y) (low_byte y) = unat x * 65536 + unat y"
proof -
  have arith: "(n * 256 + p) * 256 + q = n * 65536 + (p * 256 + q)" for n p q :: nat by simp
  have "v4_number (high_byte x) (low_byte x) (high_byte y) (low_byte y) =
      (unat x * 256 + unat (high_byte y)) * 256 + unat (low_byte y)"
    unfolding v4_number_def word_bytes by (rule refl)
  then show ?thesis by (simp only: arith word_bytes)
qed

lemma private_v6_documented:
  "is_private_ip (V6 (g0 # g)) \<longleftrightarrow>
     g0 # g = replicate 7 0 @ [1] \<or> g0 # g = replicate 8 0 \<or> unat g0 div 2 ^ 9 = 126 \<or> unat g0 div 2 ^ 6 = 1018 \<or>
     take 6 (g0 # g) = [0, 0, 0, 0, 0, 0xFFFF] \<and> documented_v4 (unat (g ! 5) * 65536 + unat (g ! 6))"
proof -
  have "replicate 7 (0 :: u16) @ [1] = [0, 0, 0, 0, 0, 0, 0, 1]" by (simp add: numeral_eq_Suc)
  moreover have "(g0 # g) ! 6 = g ! 5" "(g0 # g) ! 7 = g ! 6" by simp_all
  ultimately show ?thesis
    unfolding is_private_ip.simps to_ipv4_mapped_def list.sel unique_local link_local
    by (simp only: private_v4_documented mapped_number if_split option.simps prod.case) blast
qed

text \<open>C15: the private addresses are those of the documentation. For every text that spells an IPv4 address the
  host check refuses exactly the documented blocks (127/8, 10/8, 172.16/12, 192.168/16, 169.254/16 and the
  two single addresses); an IPv6 address is refused exactly when it is the loopback or unspecified one,
  lies in fc00::/7 or fe80::/10, or is an IPv4-mapped address of a documented IPv4 block.\<close>

theorem private_addresses_documented:
  "(is_private_host (show_ipv4 a b c d) \<longleftrightarrow> documented_v4 (v4_number a b c d)) \<and>
   (is_private_ip (V6 (g0 # g)) \<longleftrightarrow>
     g0 # g = replicate 7 0 @ [1] \<or> g0 # g = replicate 8 0 \<or> unat g0 div 2 ^ 9 = 0xFC00 div 2 ^ 9 \<or>
     unat g0 div 2 ^ 6 = 0xFE80 div 2 ^ 6 \<or>
     take 6 (g0 # g) = [0, 0, 0, 0, 0, 0xFFFF] \<and> documented_v4 (unat (g ! 5) * 65536 + unat (g ! 6)))"
proof (rule conjI)
  have first: "hd (show_ipv4 a b c d) \<noteq> c'" if "\<not> is_ascii_digit c'" for c'
    using that decimal_digits [of "unat a"] by (cases "decimal (unat a)") (auto simp: show_ipv4_def)
  have nonempty: "show_ipv4 a b c d \<noteq> []" using decimal_digits by (simp add: show_ipv4_def)
  have "strip_prefix ''['' (show_ipv4 a b c d) = None"
    using first [of "CHR ''[''"] nonempty
    by (cases "show_ipv4 a b c d") (auto simp: is_ascii_digit_def byte_def)
  then have "strip_brackets (show_ipv4 a b c d) = show_ipv4 a b c d" by (simp add: strip_brackets_def)
  moreover have "show_ipv4 a b c d \<noteq> ''localhost''"
    using first [of "CHR ''l''"] by (auto simp: is_ascii_digit_def byte_def)
  ultimately show "is_private_host (show_ipv4 a b c d) \<longleftrightarrow> documented_v4 (v4_number a b c d)"
    using ipv4_spelling [of "show_ipv4 a b c d" a b c d] private_v4_documented
    by (simp add: is_private_host_def Let_def)
next
  have "(0xFC00 :: nat) div 2 ^ 9 = 126" "(0xFE80 :: nat) div 2 ^ 6 = 1018" by simp_all
  then show "is_private_ip (V6 (g0 # g)) \<longleftrightarrow>
     g0 # g = replicate 7 0 @ [1] \<or> g0 # g = replicate 8 0 \<or> unat g0 div 2 ^ 9 = 0xFC00 div 2 ^ 9 \<or>
     unat g0 div 2 ^ 6 = 0xFE80 div 2 ^ 6 \<or>
     take 6 (g0 # g) = [0, 0, 0, 0, 0, 0xFFFF] \<and> documented_v4 (unat (g ! 5) * 65536 + unat (g ! 6))"
    by (simp only: private_v6_documented)
qed

subsection \<open>What validation gives\<close>

text \<open>Where a client connects to: an address given as the host is used as it is, otherwise one of the pinned
  addresses is taken.\<close>

definition connect_targets :: "parsed_url \<Rightarrow> socket_addr list \<Rightarrow> ip_addr list" where
  "connect_targets u pins =
     (case url_host u of
        None \<Rightarrow> []
      | Some h \<Rightarrow> (case parse_ip (strip_brackets h) of Some ip \<Rightarrow> [ip] | None \<Rightarrow> map fst pins))"

definition fetch_url_ok :: "bool \<Rightarrow> parsed_url \<Rightarrow> bool" where
  "fetch_url_ok require_https u \<longleftrightarrow>
     (url_scheme u = ''https'' \<or> url_scheme u = ''http'' \<and> \<not> require_https) \<and>
     url_username u = [] \<and> url_password u = None \<and> (\<exists>h. url_host u = Some h \<and> \<not> is_private_host h)"

definition request_public :: "bool \<Rightarrow> net_request \<Rightarrow> bool" where
  "request_public require_https r \<longleftrightarrow>
     fetch_url_ok require_https (req_url r) \<and> req_route r = Direct \<and> connect_targets (req_url r) (req_pins r) \<noteq> [] \<and>
     list_all (\<lambda>ip. \<not> is_private_ip ip) (connect_targets (req_url r) (req_pins r))"

lemma map_sum_Inr_iff: "map_sum f g x = Inr y \<longleftrightarrow> (\<exists>z. x = Inr z \<and> y = g z)"
  by (cases x) auto

lemma resolve_sends_nothing [simp]:
  "sent_requests (fst (resolve_public_fetch_addrs env u w)) = sent_requests w"
  by (auto simp: resolve_public_fetch_addrs_def Let_def split: option.splits sum.splits prod.splits)

lemma validate_sends_nothing [simp]:
  "sent_requests (fst (validate_no_ssrf env s w)) = sent_requests w"
  "sent_requests (fst (validate_fetch_url env s https w)) = sent_requests w"
proof -
  show one: "sent_requests (fst (validate_no_ssrf env s w)) = sent_requests w"
    by (simp add: validate_no_ssrf_def case_prod_beta split: option.splits sum.splits)
  show "sent_requests (fst (validate_fetch_url env s https w)) = sent_requests w"
    using one by (simp add: validate_fetch_url_def case_prod_beta split: sum.splits)
qed

lemma client_sends_nothing [simp]:
  "sent_requests (fst (pinned_public_fetch_client env u w)) = sent_requests w"
proof -
  obtain w1 res where r: "resolve_public_fetch_addrs env u w = (w1, res)" by (rule prod.exhaust)
  then have "sent_requests w1 = sent_requests w" using resolve_sends_nothing [of env u w] by simp
  then show ?thesis using r by (simp add: pinned_public_fetch_client_def split: option.splits sum.splits)
qed

lemma resolved_addresses:
  assumes "resolve_public_fetch_addrs env u w = (w', Inr addrs)"
  shows "addrs \<noteq> [] \<and> list_all (\<lambda>(ip, _). \<not> is_private_ip ip) addrs"
  using assms
  by (auto simp: resolve_public_fetch_addrs_def Let_def find_None_iff list_all_iff split: option.splits sum.splits prod.splits if_splits)

lemma validated_url:
  assumes "validate_fetch_url env s https w = (w', Inr u)"
  shows "fetch_url_ok https u"
  using assms
  by (auto simp: validate_fetch_url_def validate_no_ssrf_def fetch_url_ok_def case_prod_beta map_sum_Inr_iff
      split: sum.splits option.splits if_splits)

lemma pinned_request_public:
  assumes "fetch_url_ok https u" "pinned_public_fetch_client env u w = (w', Inr addrs)"
  shows "request_public https \<lparr>req_url = u, req_pins = addrs, req_route = Direct, req_bearer = b\<rparr>"
proof -
  obtain h where h: "url_host u = Some h" "\<not> is_private_host h" using assms(1) by (auto simp: fetch_url_ok_def)
  obtain w1 where "resolve_public_fetch_addrs env u w = (w1, Inr addrs)"
    using assms(2) h(1)
    by (auto simp: pinned_public_fetch_client_def map_sum_Inr_iff split: sum.splits prod.splits)
  then have addrs: "addrs \<noteq> []" "list_all (\<lambda>(ip, _). \<not> is_private_ip ip) addrs" using resolved_addresses by blast+
  have "\<not> is_private_ip ip" if "parse_ip (strip_brackets h) = Some ip" for ip
    using h(2) that by (auto simp: is_private_host_def Let_def split: if_splits)
  then show ?thesis
    using addrs h(1) assms(1)
    by (auto simp: request_public_def connect_targets_def list_all_iff split: option.splits)
qed

text \<open>Finding: the hexadecimal spelling is only looked at when all its digits are decimal ones, so the
  documented example is not recognised.\<close>

lemma hex_host_not_decoded: "alternate_encoding ''0x7f000001'' = None"
  by (simp add: alternate_encoding_def is_ascii_digit_def byte_def)

text \<open>Finding: the browser cuts the host off the URL by hand. User information and a fragment or query without a
  slash are taken for part of the host, so a host that is not in the list is accepted.\<close>

lemma browser_host_confused:
  "extract_host ''https://example.com:x@attacker.test/'' = Some ''example.com''"
  "extract_host ''https://attacker.test#.example.com'' = Some ''attacker.test#.example.com''"
  "host_in_allowlist ''attacker.test#.example.com'' [''example.com'']"
  by code_simp+

end
