(* ===== verification/Redirects.thy ===== *)
theory Redirects
  imports Net_Guard
begin

text \<open>
  Requests that follow redirects by hand (\<open>src/src/core/tools/web/redirects.rs\<close>, and the loop of the same
  form in \<open>src/src/transport/channels/slack.rs\<close>). The loop is shared; its contract is a locale: one request
  for each hop, to a URL that the step before admitted.
\<close>

definition is_redirection :: "http_response \<Rightarrow> bool" where
  "is_redirection r \<longleftrightarrow> 300 \<le> resp_status r \<and> resp_status r < 400"

text \<open>\<open>error_for_status\<close>, with the text of the failure.\<close>

definition error_for_status :: "(http_response \<Rightarrow> rstr) \<Rightarrow> http_response \<Rightarrow> (rstr, http_response) result" where
  "error_for_status failure r = (if 400 \<le> resp_status r \<and> resp_status r < 600 then Err (failure r) else Ok r)"

type_synonym 'w fetcher = "parsed_url \<Rightarrow> 'w net_world \<Rightarrow> 'w net_world \<times> (rstr, http_response) result"
type_synonym 'w redirector =
  "parsed_url \<Rightarrow> http_response \<Rightarrow> 'w net_world \<Rightarrow> 'w net_world \<times> (rstr, parsed_url) result"

text \<open>\<open>for redirect_count in 0..=max_redirects\<close>, by the number of redirects left.\<close>

primrec chase ::
    "'w fetcher \<Rightarrow> 'w redirector \<Rightarrow> (parsed_url \<Rightarrow> rstr) \<Rightarrow> (http_response \<Rightarrow> rstr) \<Rightarrow> nat \<Rightarrow> parsed_url \<Rightarrow> 'w net_world
       \<Rightarrow> 'w net_world \<times> (rstr, http_response) result" where
  "chase fetch target limit failure 0 u w =
     (case fetch u w of
        (w, Inl e) \<Rightarrow> (w, Err e)
      | (w, Inr r) \<Rightarrow> (w, if is_redirection r then Err (limit u) else error_for_status failure r))"
| "chase fetch target limit failure (Suc n) u w =
     (case fetch u w of
        (w, Inl e) \<Rightarrow> (w, Err e)
      | (w, Inr r) \<Rightarrow>
          if is_redirection r
          then (case target u r w of
                  (w, Inl e) \<Rightarrow> (w, Err e)
                | (w, Inr v) \<Rightarrow> chase fetch target limit failure n v w)
          else (w, error_for_status failure r))"

subsection \<open>The loop of the web tools\<close>

definition web_fetch_client_for_url ::
    "'w net_env \<Rightarrow> parsed_url \<Rightarrow> 'w net_world \<Rightarrow> 'w net_world \<times> (rstr, socket_addr list) result" where
  "web_fetch_client_for_url = pinned_public_fetch_client"

definition fetch_once :: "'w net_env \<Rightarrow> 'w fetcher" where
  "fetch_once env u w =
     (case web_fetch_client_for_url env u w of
        (w, Inl e) \<Rightarrow> (w, Err e)
      | (w, Inr pins) \<Rightarrow>
          (case send_request env \<lparr>req_url = u, req_pins = pins, req_route = Direct, req_bearer = None\<rparr> w of
             (w, res) \<Rightarrow> (w, map_sum (\<lambda>_. ''request failed for '' @ url_text u) id res)))"

definition resolve_redirect_url :: "'w net_env \<Rightarrow> parsed_url \<Rightarrow> rstr \<Rightarrow> (rstr, parsed_url) result" where
  "resolve_redirect_url env base location =
     (case parse_url env location of Inr u \<Rightarrow> Ok u | Inl _ \<Rightarrow> join_url env base location)"

definition redirect_target :: "'w net_env \<Rightarrow> bool \<Rightarrow> 'w redirector" where
  "redirect_target env require_https u r w =
     (case resp_location r of
        None \<Rightarrow> (w, Err ''redirect response missing Location header'')
      | Some None \<Rightarrow> (w, Err ''invalid redirect Location header'')
      | Some (Some location) \<Rightarrow>
          (case resolve_redirect_url env (resp_url r) location of
             Inl e \<Rightarrow> (w, Err e)
           | Inr next_url \<Rightarrow>
               (case validate_fetch_url env (url_text next_url) require_https w of
                  (w, res) \<Rightarrow> (w, map_sum (\<lambda>_. ''redirect target rejected'') id res))))"

definition get_with_validated_redirects ::
    "'w net_env \<Rightarrow> (http_response \<Rightarrow> rstr) \<Rightarrow> parsed_url \<Rightarrow> nat \<Rightarrow> bool \<Rightarrow> 'w net_world
       \<Rightarrow> 'w net_world \<times> (rstr, http_response) result" where
  "get_with_validated_redirects env failure start max_redirects require_https =
     chase (fetch_once env) (redirect_target env require_https)
       (\<lambda>u. ''URL fetch aborted after '' @ decimal max_redirects @
          '' redirects (possible redirect loop): last URL was '' @ url_text u)
       failure max_redirects start"

subsection \<open>The contract of the loop\<close>

locale guarded_fetch =
  fixes fetch :: "'w fetcher" and target :: "'w redirector" and admitted :: "parsed_url \<Rightarrow> bool"
    and good :: "net_request \<Rightarrow> bool"
  assumes fetch_one: "admitted u \<Longrightarrow>
      \<exists>rs. sent_requests (fst (fetch u w)) = sent_requests w @ rs \<and> length rs \<le> 1 \<and> list_all good rs"
    and target_silent: "sent_requests (fst (target u r w)) = sent_requests w"
    and target_admitted: "target u r w = (w', Inr v) \<Longrightarrow> admitted v"
begin

lemma chase_requests:
  "admitted u \<Longrightarrow>
     \<exists>rs. sent_requests (fst (chase fetch target limit failure n u w)) = sent_requests w @ rs \<and>
       length rs \<le> Suc n \<and> list_all good rs"
proof (induction n arbitrary: u w)
  case 0
  obtain w1 res where f: "fetch u w = (w1, res)" by (rule prod.exhaust)
  then have "fst (chase fetch target limit failure 0 u w) = w1" by (cases res) simp_all
  then show ?case using fetch_one [OF 0, of w] f by auto
next
  case (Suc n)
  obtain w1 res where f: "fetch u w = (w1, res)" by (rule prod.exhaust)
  obtain rs1 where rs1: "sent_requests w1 = sent_requests w @ rs1" "length rs1 \<le> 1" "list_all good rs1"
    using fetch_one [OF Suc.prems, of w] f by auto
  let ?goal = "\<exists>rs. sent_requests (fst (chase fetch target limit failure (Suc n) u w)) = sent_requests w @ rs \<and>
      length rs \<le> Suc (Suc n) \<and> list_all good rs"
  have here: ?goal if "sent_requests (fst (chase fetch target limit failure (Suc n) u w)) = sent_requests w1"
    using rs1 that by auto
  show ?case
  proof (cases "\<exists>r. res = Inr r \<and> is_redirection r")
    case False
    then show ?thesis using f by (intro here) (auto split: sum.splits)
  next
    case True
    then obtain r where r: "res = Inr r" "is_redirection r" by blast
    obtain w2 res2 where t: "target u r w1 = (w2, res2)" by (rule prod.exhaust)
    have silent: "sent_requests w2 = sent_requests w1" using target_silent [of u r w1] t by simp
    show ?thesis
    proof (cases res2)
      case (Inl e)
      then show ?thesis using f r t silent by (intro here) simp
    next
      case (Inr v)
      then have "admitted v" using target_admitted t by blast
      from Suc.IH [OF this, of w2] obtain rs2 where
        "sent_requests (fst (chase fetch target limit failure n v w2)) = sent_requests w2 @ rs2"
        "length rs2 \<le> Suc n" "list_all good rs2"
        by blast
      then show ?thesis using f r t Inr silent rs1 by (intro exI [of _ "rs1 @ rs2"]) simp
    qed
  qed
qed

end

lemma fetch_once_request:
  assumes "fetch_url_ok https u"
  shows "\<exists>rs. sent_requests (fst (fetch_once env u w)) = sent_requests w @ rs \<and> length rs \<le> 1 \<and>
    list_all (request_public https) rs"
proof -
  obtain w1 res where c: "pinned_public_fetch_client env u w = (w1, res)" by (rule prod.exhaust)
  have same: "sent_requests w1 = sent_requests w" using client_sends_nothing [of env u w] c by simp
  show ?thesis
  proof (cases res)
    case (Inl e)
    then show ?thesis using c same by (simp add: fetch_once_def web_fetch_client_for_url_def)
  next
    case (Inr pins)
    let ?r = "\<lparr>req_url = u, req_pins = pins, req_route = Direct, req_bearer = None\<rparr>"
    have "request_public https ?r" using pinned_request_public [OF assms] c Inr by blast
    then show ?thesis
      using c same Inr
      by (intro exI [of _ "[?r]"]) (simp add: fetch_once_def web_fetch_client_for_url_def send_request_def case_prod_beta)
  qed
qed

lemma redirect_target_silent: "sent_requests (fst (redirect_target env https u r w)) = sent_requests w"
  by (simp add: redirect_target_def case_prod_beta split: option.splits sum.splits)

lemma redirect_target_ok: "redirect_target env https u r w = (w', Inr v) \<Longrightarrow> fetch_url_ok https v"
  by (auto simp: redirect_target_def map_sum_Inr_iff split: option.splits sum.splits prod.splits intro: validated_url)

interpretation web: guarded_fetch "fetch_once env" "redirect_target env https" "fetch_url_ok https" "request_public https"
  for env https
  by unfold_locales (rule fetch_once_request redirect_target_silent redirect_target_ok, assumption?)+

lemma redirected_requests_public:
  "fetch_url_ok https u \<Longrightarrow>
     \<exists>rs. sent_requests (fst (get_with_validated_redirects env failure u n https w)) = sent_requests w @ rs \<and>
       length rs \<le> Suc n \<and> list_all (request_public https) rs"
  unfolding get_with_validated_redirects_def by (rule web.chase_requests)

end
