(* ===== verification/Web_Fetch.thy ===== *)
theory Web_Fetch
  imports Redirects Tool_Pipeline
begin

text \<open>
  The tools \<open>web_fetch\<close> and \<open>web_scrape\<close> (\<open>src/src/core/tools/web/fetch.rs\<close>, \<open>scrape.rs\<close>) with the extraction of
  readable text (\<open>extract.rs\<close>). The parser of HTML, the CSS selectors and the JSON library are parameters; a
  panic is the value None.
\<close>

subsection \<open>Readable text\<close>

datatype html_node = HText rstr | HElement rstr "html_node list" | HOther

definition skipped_tags :: "rstr list" where
  "skipped_tags = [''script'', ''style'', ''nav'', ''footer'', ''header'', ''aside'', ''noscript'', ''svg'', ''iframe'']"

definition block_tags :: "rstr list" where
  "block_tags = [''p'', ''div'', ''h1'', ''h2'', ''h3'', ''h4'', ''h5'', ''h6'', ''li'', ''br'', ''tr'', ''blockquote'',
     ''article'', ''section'']"

definition ends_in :: "char list \<Rightarrow> rstr \<Rightarrow> bool" where
  "ends_in cs s \<longleftrightarrow> s \<noteq> [] \<and> last s \<in> set cs"

fun collect_nodes :: "nat \<Rightarrow> html_node list \<Rightarrow> rstr \<Rightarrow> rstr"
and collect_node :: "nat \<Rightarrow> html_node \<Rightarrow> rstr \<Rightarrow> rstr" where
  "collect_nodes max_len [] buf = buf"
| "collect_nodes max_len (x # xs) buf =
     (if max_len \<le> length buf then buf else collect_nodes max_len xs (collect_node max_len x buf))"
| "collect_node max_len (HText t) buf =
     (let t = trim t in
      if t = [] then buf
      else (if buf \<noteq> [] \<and> \<not> ends_in [nl, CHR '' ''] buf then buf @ '' '' else buf) @ t)"
| "collect_node max_len (HElement tag xs) buf =
     (if tag \<in> set skipped_tags then buf
      else let block = tag \<in> set block_tags;
               opened = (if block \<and> buf \<noteq> [] \<and> \<not> ends_in [nl] buf then buf @ [nl] else buf);
               filled = collect_nodes max_len xs opened
           in if block \<and> \<not> ends_in [nl] filled then filled @ [nl] else filled)"
| "collect_node max_len HOther buf = buf"

text \<open>\<open>String::truncate\<close> panics inside a character.\<close>

definition truncate_string :: "nat \<Rightarrow> rstr \<Rightarrow> rstr option" where
  "truncate_string n s =
     (if length s < n then Some s else if is_char_boundary s n then Some (take n s) else None)"

fun normalize_lines :: "nat \<Rightarrow> rstr list \<Rightarrow> rstr \<Rightarrow> bool \<Rightarrow> rstr option" where
  "normalize_lines max_chars [] acc prev_blank = Some acc"
| "normalize_lines max_chars (l # ls) acc prev_blank =
     (let t = trim l in
      if t = []
      then (if \<not> prev_blank \<and> acc \<noteq> [] then normalize_lines max_chars ls (acc @ [nl]) True
            else normalize_lines max_chars ls acc prev_blank)
      else let acc = acc @ t @ [nl] in
           if max_chars \<le> length acc then truncate_string max_chars acc
           else normalize_lines max_chars ls acc False)"

definition normalize_whitespace :: "rstr \<Rightarrow> nat \<Rightarrow> rstr option" where
  "normalize_whitespace s max_chars = map_option trim (normalize_lines max_chars (lines s) [] False)"

text \<open>Elements in the order of the document, and the text below one.\<close>

fun elements :: "html_node \<Rightarrow> html_node list" where
  "elements (HElement tag xs) = HElement tag xs # concat (map elements xs)"
| "elements _ = []"

fun text_below :: "html_node \<Rightarrow> rstr" where
  "text_below (HText t) = t"
| "text_below (HElement tag xs) = concat (map text_below xs)"
| "text_below HOther = []"

fun node_children :: "html_node \<Rightarrow> html_node list" where
  "node_children (HElement tag xs) = xs"
| "node_children _ = []"

fun has_tag :: "rstr \<Rightarrow> html_node \<Rightarrow> bool" where
  "has_tag t (HElement tag xs) \<longleftrightarrow> tag = t"
| "has_tag t _ \<longleftrightarrow> False"

definition html_to_readable_text :: "(rstr \<Rightarrow> html_node) \<Rightarrow> rstr \<Rightarrow> nat \<Rightarrow> rstr option" where
  "html_to_readable_text parse_html html max_chars =
     (let document = parse_html html;
          source = (case List.find (has_tag ''body'') (elements document) of Some b \<Rightarrow> b | None \<Rightarrow> document)
      in normalize_whitespace (collect_nodes max_chars (node_children source) []) max_chars)"

definition extract_title :: "(rstr \<Rightarrow> html_node) \<Rightarrow> rstr \<Rightarrow> rstr option" where
  "extract_title parse_html html =
     (case List.find (has_tag ''title'') (elements (parse_html html)) of
        None \<Rightarrow> None
      | Some e \<Rightarrow> (let t = trim (text_below e) in if t = [] then None else Some t))"

subsection \<open>The tools\<close>

record 'w web_env =
  net :: "'w net_env"
  status_failure :: "http_response \<Rightarrow> rstr"
  html_parser :: "rstr \<Rightarrow> html_node"
  css_select :: "rstr \<Rightarrow> html_node \<Rightarrow> (rstr, rstr list list) result"
  json_pretty :: "json \<Rightarrow> rstr"
  json_parse :: "rstr \<Rightarrow> json option"

definition max_response_bytes :: nat where "max_response_bytes = 2 * 1024 * 1024"
definition default_max_chars :: nat where "default_max_chars = 4000"
definition max_max_chars :: nat where "max_max_chars = 8000"

definition bounded_usize_arg :: "json \<Rightarrow> rstr \<Rightarrow> nat \<Rightarrow> nat \<Rightarrow> nat" where
  "bounded_usize_arg args key absent max_value =
     (case Option.bind (json_get args key) as_u64 of
        None \<Rightarrow> absent | Some v \<Rightarrow> if v < 1 then 1 else if max_value < v then max_value else v)"

definition is_html_content_type :: "rstr \<Rightarrow> bool" where
  "is_html_content_type t \<longleftrightarrow> contains t ''text/html'' \<or> contains t ''application/xhtml+xml''"

definition is_json_content_type :: "rstr \<Rightarrow> bool" where
  "is_json_content_type t \<longleftrightarrow> contains t ''application/json'' \<or> contains t ''+json''"

definition truncate_chars :: "rstr \<Rightarrow> nat \<Rightarrow> rstr" where
  "truncate_chars s max_chars = (if length s \<le> max_chars then s else fst (char_prefix max_chars s))"

definition format_json_body :: "'w web_env \<Rightarrow> rstr \<Rightarrow> nat \<Rightarrow> rstr" where
  "format_json_body env body max_chars =
     (case json_parse env body of
        None \<Rightarrow> truncate_chars body max_chars | Some v \<Rightarrow> truncate_chars (json_pretty env v) max_chars)"

definition failed_tool_result :: "rstr \<Rightarrow> unit call_result" where
  "failed_tool_result m =
     \<lparr>success = False, output = [], call_error = Some m, attachments = [], taint_labels = [], semantic = ()\<rparr>"

definition web_result :: "'w web_env \<Rightarrow> json \<Rightarrow> unit call_result" where
  "web_result env v =
     \<lparr>success = True, output = json_pretty env v, call_error = None, attachments = [], taint_labels = [], semantic = ()\<rparr>"

text \<open>The body of a response, or why there is none.\<close>

definition limited_body :: "http_response \<Rightarrow> bool \<Rightarrow> (rstr, rstr) result" where
  "limited_body r oversized =
     (if oversized then Err ''Response too large''
      else (case resp_text r of
              Inl e \<Rightarrow> Err e
            | Inr body \<Rightarrow>
                if max_response_bytes < length body
                then Err (''Response body too large: '' @ decimal (length body) @ '' bytes (max '' @ decimal max_response_bytes @ '')'')
                else Ok body))"

definition declared_too_large :: "http_response \<Rightarrow> bool" where
  "declared_too_large r = (case resp_content_length r of None \<Rightarrow> False | Some n \<Rightarrow> max_response_bytes < n)"

text \<open>The validated download both tools begin with.\<close>

definition download ::
    "'w web_env \<Rightarrow> rstr \<Rightarrow> 'w net_world \<Rightarrow> 'w net_world \<times> (rstr, parsed_url \<times> http_response) result" where
  "download env url w =
     (case validate_fetch_url (net env) url True w of
        (w, Inl e) \<Rightarrow> (w, Err e)
      | (w, Inr u) \<Rightarrow>
          (case get_with_validated_redirects (net env) (status_failure env) u 5 True w of
             (w, res) \<Rightarrow> (w, map_sum id (\<lambda>r. (u, r)) res)))"

definition fetched_text :: "'w web_env \<Rightarrow> rstr \<Rightarrow> rstr \<Rightarrow> nat \<Rightarrow> (rstr option \<times> rstr) option" where
  "fetched_text env content_type body max_chars =
     (if is_html_content_type content_type
      then map_option (\<lambda>t. (extract_title (html_parser env) body, t)) (html_to_readable_text (html_parser env) body max_chars)
      else if is_json_content_type content_type then Some (None, format_json_body env body max_chars)
      else Some (None, truncate_chars body max_chars))"

definition web_fetch_execute ::
    "'w web_env \<Rightarrow> json \<Rightarrow> 'w net_world \<Rightarrow> 'w net_world \<times> (rstr, unit call_result) result option" where
  "web_fetch_execute env args w =
     (case get_str args ''url'' of
        None \<Rightarrow> (w, Some (Err (''Missing '' @ quoted ''url'' @ '' parameter'')))
      | Some raw \<Rightarrow>
          let url = trim raw in
          if \<not> starts_with url ''https://'' then (w, Some (Ok (failed_tool_result ''Only https:// URLs are allowed'')))
          else let max_chars = bounded_usize_arg args ''max_chars'' default_max_chars max_max_chars in
            (case download env url w of
               (w, Inl e) \<Rightarrow> (w, Some (Ok (failed_tool_result e)))
             | (w, Inr (u, r)) \<Rightarrow>
                 let content_type = (case resp_content_type r of Some (Some t) \<Rightarrow> t | _ \<Rightarrow> ''application/octet-stream'') in
                 (w, (case limited_body r (declared_too_large r) of
                        Inl e \<Rightarrow> Some (Ok (failed_tool_result e))
                      | Inr body \<Rightarrow>
                          map_option (\<lambda>(title, t). Ok (web_result env (JObject
                             [(''chars'', JInt (int (length (chars t)))), (''content_type'', JString content_type),
                              (''text'', JString t),
                              (''title'', (case title of None \<Rightarrow> JNull | Some x \<Rightarrow> JString x)),
                              (''url'', JString (url_text u))])))
                            (fetched_text env content_type body max_chars)))))"

definition normalize_element_text :: "rstr list \<Rightarrow> rstr" where
  "normalize_element_text fragments = join '' '' (concat (map split_whitespace fragments))"

definition web_scrape_execute ::
    "'w web_env \<Rightarrow> json \<Rightarrow> 'w net_world \<Rightarrow> 'w net_world \<times> (rstr, unit call_result) result" where
  "web_scrape_execute env args w =
     (case (get_str args ''url'', get_str args ''selector'') of
        (None, _) \<Rightarrow> (w, Err (''Missing '' @ quoted ''url'' @ '' parameter''))
      | (_, None) \<Rightarrow> (w, Err (''Missing '' @ quoted ''selector'' @ '' parameter''))
      | (Some raw, Some raw_selector) \<Rightarrow>
          let url = trim raw; selector = trim raw_selector in
          if \<not> starts_with url ''https://'' then (w, Ok (failed_tool_result ''Only https:// URLs are allowed''))
          else if selector = [] then (w, Ok (failed_tool_result ''Selector cannot be empty''))
          else let max_results = bounded_usize_arg args ''max_results'' 10 50 in
            (case download env url w of
               (w, Inl e) \<Rightarrow> (w, Ok (failed_tool_result e))
             | (w, Inr (u, r)) \<Rightarrow>
                 (w, Ok (case limited_body r (declared_too_large r) of
                    Inl e \<Rightarrow> failed_tool_result e
                  | Inr body \<Rightarrow>
                      (case css_select env selector (html_parser env body) of
                         Inl e \<Rightarrow> failed_tool_result (''Invalid CSS selector: '' @ e)
                       | Inr found \<Rightarrow>
                           web_result env (JObject
                             [(''matches'', JArray (map (\<lambda>(i, fragments). JObject
                                 [(''index'', JInt (int i)), (''text'', JString (normalize_element_text fragments))])
                                (enumerate 0 (take max_results found)))),
                              (''selector'', JString selector), (''total_found'', JInt (int (length found))),
                              (''url'', JString (url_text u))]))))))"

subsection \<open>Where the tools connect to\<close>

lemma download_requests:
  "\<exists>rs. sent_requests (fst (download env url w)) = sent_requests w @ rs \<and> length rs \<le> 6 \<and>
     list_all (request_public True) rs"
proof -
  obtain w1 res where v: "validate_fetch_url (net env) url True w = (w1, res)" by (rule prod.exhaust)
  have same: "sent_requests w1 = sent_requests w" using validate_sends_nothing(2) [of "net env" url True w] v by simp
  show ?thesis
  proof (cases res)
    case (Inl e)
    then show ?thesis using v same by (simp add: download_def)
  next
    case (Inr u)
    then have "fetch_url_ok True u" using v validated_url by blast
    from redirected_requests_public [OF this, of "net env" "status_failure env" 5 w1] show ?thesis
      using v Inr same by (auto simp: download_def case_prod_beta)
  qed
qed

text \<open>C13: the web tools only reach public addresses. Whatever a model asks for, and whatever name servers and web
  servers answer, each call of \<open>web_fetch\<close> and of \<open>web_scrape\<close> sends at most six requests, each over https,
  without user information and without a proxy, and the addresses the client may connect to are all
  public: those that were checked are those that are used, also after a redirect and when a name
  changes its address between check and use.\<close>

theorem web_tools_reach_public_addresses:
  "(\<exists>rs. sent_requests (fst (web_fetch_execute env args w)) = sent_requests w @ rs \<and> length rs \<le> 6 \<and>
     list_all (request_public True) rs) \<and>
   (\<exists>rs. sent_requests (fst (web_scrape_execute env args w)) = sent_requests w @ rs \<and> length rs \<le> 6 \<and>
     list_all (request_public True) rs)"
proof -
  let ?sent = "\<lambda>w'. \<exists>rs. sent_requests w' = sent_requests w @ rs \<and> length rs \<le> 6 \<and> list_all (request_public True) rs"
  have none: "?sent w" by simp
  have some: "?sent (fst (download env url w))" for url by (rule download_requests)
  have "?sent (fst (web_fetch_execute env args w))"
    using none some
    by (simp add: web_fetch_execute_def Let_def case_prod_beta split: option.split sum.split)
  moreover have "?sent (fst (web_scrape_execute env args w))"
    using none some
    by (simp add: web_scrape_execute_def Let_def case_prod_beta split: option.split sum.split)
  ultimately show ?thesis by (rule conjI)
qed

subsection \<open>How much text there is\<close>

lemma normalize_lines_bounded:
  "normalize_lines n ls acc prev_blank = Some r \<Longrightarrow> length acc \<le> n \<Longrightarrow>
     prev_blank \<or> acc = [] \<or> length acc < n \<Longrightarrow> length r \<le> n"
proof (induction ls arbitrary: acc prev_blank)
  case (Cons l ls)
  show ?case
  proof (cases "trim l = []")
    case True
    then show ?thesis
      using Cons.IH [of "acc @ [nl]" True] Cons.IH [of acc prev_blank] Cons.prems by (auto split: if_splits)
  next
    case False
    let ?acc = "acc @ trim l @ [nl]"
    show ?thesis
    proof (cases "n \<le> length ?acc")
      case True
      then show ?thesis using Cons.prems(1) False by (auto simp: truncate_string_def Let_def split: if_splits)
    next
      case small: False
      then have "normalize_lines n ls ?acc False = Some r" using Cons.prems(1) False by (simp add: Let_def)
      then show ?thesis using Cons.IH [of ?acc False] small by simp
    qed
  qed
qed simp

lemma normalize_whitespace_bounded: "normalize_whitespace s n = Some r \<Longrightarrow> length r \<le> n"
proof -
  assume "normalize_whitespace s n = Some r"
  then obtain x where x: "normalize_lines n (lines s) [] False = Some x" "r = trim x"
    by (auto simp only: normalize_whitespace_def map_option_eq_Some)
  have "length x \<le> n" by (rule normalize_lines_bounded [OF x(1)]) simp_all
  then show ?thesis using x(2) length_trim [of x] by simp
qed

lemma ascii_boundary: "list_all (\<lambda>c. byte c < 128) s \<Longrightarrow> n \<le> length s \<Longrightarrow> is_char_boundary s n"
  by (auto simp: is_char_boundary_def list_all_length)

text \<open>Finding: a page whose text has a character of several bytes at the limit stops the tool by a panic.\<close>

lemma readable_text_panics:
  "bounded_usize_arg (JObject [(''max_chars'', JInt 1)]) ''max_chars'' default_max_chars max_max_chars = 1"
  "html_to_readable_text (\<lambda>_. HElement ''html'' [HElement ''body'' [HElement ''p'' [HText [CHR 0xC3, CHR 0xA9]]]]) page 1 = None"
proof -
  show "bounded_usize_arg (JObject [(''max_chars'', JInt 1)]) ''max_chars'' default_max_chars max_max_chars = 1"
    by (simp add: bounded_usize_arg_def max_max_chars_def)
  let ?e = "[CHR 0xC3, CHR 0xA9]" and ?p = "HElement ''p'' [HText [CHR 0xC3, CHR 0xA9]]"
  have e: "trim ?e = ?e" by code_simp
  have p: "''p'' \<notin> set skipped_tags" "''p'' \<in> set block_tags" by code_simp+
  have c: "collect_nodes 1 [?p] [] = ?e @ [nl]" using p by (simp add: e ends_in_def Let_def)
  have l: "lines (?e @ [nl]) = [?e]" by code_simp
  have "\<not> is_char_boundary (?e @ [nl]) 1" by code_simp
  then have n: "normalize_lines 1 [?e] [] False = None"
    unfolding normalize_lines.simps Let_def e by (simp add: truncate_string_def)
  have none: "normalize_whitespace (collect_nodes 1 [?p] []) 1 = None"
    unfolding normalize_whitespace_def c l n by (rule option.map)
  have "List.find (has_tag ''body'') (elements (HElement ''html'' [HElement ''body'' [?p]])) = Some (HElement ''body'' [?p])"
    by simp
  then show "html_to_readable_text (\<lambda>_. HElement ''html'' [HElement ''body'' [?p]]) page 1 = None"
    unfolding html_to_readable_text_def Let_def by (simp only: option.case node_children.simps none)
qed

text \<open>On ASCII text there is no panic.\<close>

lemma normalize_lines_ascii:
  "list_all (\<lambda>c. byte c < 128) acc \<Longrightarrow> list_all (list_all (\<lambda>c. byte c < 128) \<circ> trim) ls \<Longrightarrow>
     normalize_lines n ls acc prev_blank \<noteq> None"
proof (induction ls arbitrary: acc prev_blank)
  case (Cons l ls)
  have "byte nl < 128" by code_simp
  then show ?case
    using Cons ascii_boundary [of "acc @ trim l @ [nl]" n] by (simp add: Let_def truncate_string_def)
qed simp

end
