(* ===== verification/Media_Fetch.thy ===== *)
theory Media_Fetch
  imports Redirects Channel_Events
begin

text \<open>
  Media that channels download: attachments (\<open>src/src/transport/channels/attachments/load.rs\<close>) and the files of
  Slack with the token of the bot (\<open>src/src/transport/channels/slack.rs\<close>).
\<close>

definition max_attachment_bytes :: nat where "max_attachment_bytes = 25 * 1024 * 1024"
definition slack_media_max_bytes :: nat where "slack_media_max_bytes = 10 * 1024 * 1024"
definition slack_media_max_redirects :: nat where "slack_media_max_redirects = 5"

subsection \<open>Attachments\<close>

fun collect_attachment_body :: "u8 list \<Rightarrow> (rstr, u8 list) result list \<Rightarrow> (rstr, u8 list) result" where
  "collect_attachment_body body [] = Ok body"
| "collect_attachment_body body (Inl e # cs) = Err e"
| "collect_attachment_body body (Inr c # cs) =
     (if max_attachment_bytes < length body + length c
      then Err (''attachment too large: '' @ decimal (length body + length c) @ '' bytes exceeds limit of '' @
             decimal max_attachment_bytes @ '' bytes'')
      else collect_attachment_body (body @ c) cs)"

definition attachment_body :: "(http_response \<Rightarrow> rstr) \<Rightarrow> http_response \<Rightarrow> (rstr, u8 list) result" where
  "attachment_body failure r =
     (if is_redirection r
      then Err ''attachment redirects are not followed; redirect targets must be validated explicitly''
      else (case error_for_status failure r of
              Inl e \<Rightarrow> Err e
            | Inr r \<Rightarrow>
                (case resp_content_length r of
                   Some n \<Rightarrow>
                     if max_attachment_bytes < n
                     then Err (''attachment too large: Content-Length '' @ decimal n @ '' exceeds limit of '' @
                            decimal max_attachment_bytes @ '' bytes'')
                     else collect_attachment_body [] (resp_chunks r)
                 | None \<Rightarrow> collect_attachment_body [] (resp_chunks r))))"

definition load_attachment_bytes ::
    "'w net_env \<Rightarrow> (http_response \<Rightarrow> rstr) \<Rightarrow> media_content \<Rightarrow> 'w net_world \<Rightarrow> 'w net_world \<times> (rstr, u8 list) result" where
  "load_attachment_bytes env failure m w =
     (case m of
        Bytes bytes \<Rightarrow> (w, Ok bytes)
      | Url url \<Rightarrow>
          (case validate_fetch_url env url False w of
             (w, Inl e) \<Rightarrow> (w, Err e)
           | (w, Inr u) \<Rightarrow>
               (case pinned_public_fetch_client env u w of
                  (w, Inl e) \<Rightarrow> (w, Err e)
                | (w, Inr pins) \<Rightarrow>
                    (case send_request env \<lparr>req_url = u, req_pins = pins, req_route = Direct, req_bearer = None\<rparr> w of
                       (w, Inl e) \<Rightarrow> (w, Err e)
                     | (w, Inr r) \<Rightarrow> (w, attachment_body failure r)))))"

subsection \<open>Slack\<close>

definition is_trusted_slack_media_url :: "'w net_env \<Rightarrow> rstr \<Rightarrow> bool" where
  "is_trusted_slack_media_url env url =
     (case parse_url env url of
        Inl _ \<Rightarrow> False
      | Inr u \<Rightarrow>
          url_scheme u = ''https'' \<and>
          (case url_host u of
             None \<Rightarrow> False
           | Some h \<Rightarrow> h = ''slack.com'' \<or> h = ''files.slack.com'' \<or> ends_with h ''.slack.com''))"

definition slack_media_too_large :: "rstr \<Rightarrow> rstr" where
  "slack_media_too_large what = ''Slack media response exceeds size limit: '' @ what"

fun read_chunks :: "u8 list \<Rightarrow> (rstr, u8 list) result list \<Rightarrow> (rstr, u8 list) result" where
  "read_chunks bytes [] = Ok bytes"
| "read_chunks bytes (Inl e # cs) = Err ''read Slack media chunk''"
| "read_chunks bytes (Inr c # cs) =
     (if slack_media_max_bytes < length bytes + length c
      then Err (slack_media_too_large (''> '' @ decimal slack_media_max_bytes @ '' bytes''))
      else read_chunks (bytes @ c) cs)"

definition read_limited_media_response :: "http_response \<Rightarrow> (rstr, u8 list) result" where
  "read_limited_media_response r =
     (case resp_content_length r of
        Some n \<Rightarrow>
          if slack_media_max_bytes < n
          then Err (slack_media_too_large (decimal n @ '' bytes > '' @ decimal slack_media_max_bytes))
          else read_chunks [] (resp_chunks r)
      | None \<Rightarrow> read_chunks [] (resp_chunks r))"

definition slack_fetch :: "'w net_env \<Rightarrow> rstr \<Rightarrow> 'w fetcher" where
  "slack_fetch env token u w =
     (case url_host u of
        None \<Rightarrow> (w, Err ''Slack media URL has no host'')
      | Some h \<Rightarrow>
          (case resolve_public_fetch_addrs env u w of
             (w, Inl e) \<Rightarrow> (w, Err e)
           | (w, Inr pins) \<Rightarrow>
               (case build_client env h pins of
                  Inl e \<Rightarrow> (w, Err ''build pinned Slack media client'')
                | Inr _ \<Rightarrow>
                    (case send_request env
                            \<lparr>req_url = u, req_pins = pins, req_route = Direct,
                             req_bearer = (if is_trusted_slack_media_url env (url_text u) then Some token else None)\<rparr> w of
                       (w, res) \<Rightarrow> (w, map_sum (\<lambda>_. ''download Slack media before upload'') id res)))))"

definition validated_slack_media_redirect_target :: "'w net_env \<Rightarrow> 'w redirector" where
  "validated_slack_media_redirect_target env u r w =
     (case resp_location r of
        None \<Rightarrow> (w, Err ''Slack media redirect missing Location header'')
      | Some None \<Rightarrow> (w, Err ''Slack media redirect Location is not valid UTF-8'')
      | Some (Some location) \<Rightarrow>
          (case join_url env u location of
             Inl e \<Rightarrow> (w, Err ''Slack media redirect Location is not a valid URL'')
           | Inr next_url \<Rightarrow>
               (case validate_fetch_url env (url_text next_url) False w of
                  (w, res) \<Rightarrow> (w, map_sum (\<lambda>_. ''validate Slack media redirect URL'') id res))))"

definition download_media_url ::
    "'w net_env \<Rightarrow> rstr \<Rightarrow> rstr \<Rightarrow> 'w net_world \<Rightarrow> 'w net_world \<times> (rstr, u8 list) result" where
  "download_media_url env token url w =
     (case validate_fetch_url env url False w of
        (w, Inl e) \<Rightarrow> (w, Err ''validate Slack media URL'')
      | (w, Inr u) \<Rightarrow>
          (case chase (slack_fetch env token) (validated_slack_media_redirect_target env)
                  (\<lambda>_. ''Slack media redirect limit exceeded'') (\<lambda>_. ''download Slack media before upload'')
                  slack_media_max_redirects u w of
             (w, Inl e) \<Rightarrow> (w, Err e)
           | (w, Inr r) \<Rightarrow> (w, read_limited_media_response r)))"

subsection \<open>What is reached and how much is read\<close>

text \<open>A request of the Slack channel: to a public address, with the token only for Slack's own hosts.\<close>

definition slack_request_ok :: "'w net_env \<Rightarrow> rstr \<Rightarrow> net_request \<Rightarrow> bool" where
  "slack_request_ok env token r \<longleftrightarrow>
     request_public False r \<and>
     (req_bearer r = None \<or> req_bearer r = Some token \<and> is_trusted_slack_media_url env (url_text (req_url r)))"

lemma slack_fetch_request:
  assumes "fetch_url_ok False u"
  shows "\<exists>rs. sent_requests (fst (slack_fetch env token u w)) = sent_requests w @ rs \<and> length rs \<le> 1 \<and>
    list_all (slack_request_ok env token) rs"
proof -
  obtain h where h: "url_host u = Some h" using assms by (auto simp: fetch_url_ok_def)
  obtain w1 res where c: "resolve_public_fetch_addrs env u w = (w1, res)" by (rule prod.exhaust)
  have same: "sent_requests w1 = sent_requests w" using resolve_sends_nothing [of env u w] c by simp
  show ?thesis
  proof (cases res)
    case (Inl e)
    then show ?thesis using c same h by (simp add: slack_fetch_def)
  next
    case (Inr pins)
    let ?r = "\<lparr>req_url = u, req_pins = pins, req_route = Direct,
        req_bearer = (if is_trusted_slack_media_url env (url_text u) then Some token else None)\<rparr>"
    show ?thesis
    proof (cases "build_client env h pins")
      case (Inl e)
      then show ?thesis using c same h Inr by (simp add: slack_fetch_def)
    next
      case built: (Inr x)
      have "pinned_public_fetch_client env u w = (w1, Inr pins)"
        using c h Inr built by (simp add: pinned_public_fetch_client_def)
      then have "request_public False ?r" by (rule pinned_request_public [OF assms])
      then have "slack_request_ok env token ?r" by (simp add: slack_request_ok_def)
      then show ?thesis
        using c same h Inr built
        by (intro exI [of _ "[?r]"]) (simp add: slack_fetch_def send_request_def case_prod_beta)
    qed
  qed
qed

lemma slack_target_silent:
  "sent_requests (fst (validated_slack_media_redirect_target env u r w)) = sent_requests w"
  by (simp add: validated_slack_media_redirect_target_def case_prod_beta split: option.splits sum.splits)

lemma slack_target_ok:
  "validated_slack_media_redirect_target env u r w = (w', Inr v) \<Longrightarrow> fetch_url_ok False v"
  by (auto simp: validated_slack_media_redirect_target_def map_sum_Inr_iff
      split: option.splits sum.splits prod.splits intro: validated_url)

interpretation slack: guarded_fetch "slack_fetch env token" "validated_slack_media_redirect_target env"
    "fetch_url_ok False" "slack_request_ok env token"
  for env token
  by unfold_locales (rule slack_fetch_request slack_target_silent slack_target_ok, assumption?)+

lemma collect_attachment_bounded:
  "collect_attachment_body body cs = Inr bytes \<Longrightarrow> length body \<le> max_attachment_bytes \<Longrightarrow>
     length bytes \<le> max_attachment_bytes"
  by (induction body cs rule: collect_attachment_body.induct) (auto split: if_splits)

lemma read_chunks_bounded:
  "read_chunks body cs = Inr bytes \<Longrightarrow> length body \<le> slack_media_max_bytes \<Longrightarrow> length bytes \<le> slack_media_max_bytes"
  by (induction body cs rule: read_chunks.induct) (auto split: if_splits)

text \<open>C14: the token of the bot stays with Slack. A download of a Slack file sends at most six requests, each to a
  public address and without a proxy; only those whose URL is an https URL of slack.com or of a host below
  it carry the token, so neither a link in a message nor a redirect takes it elsewhere. What is returned
  has at most ten mebibytes, whatever length the server declares.\<close>

theorem slack_token_stays_with_slack:
  "(\<exists>rs. sent_requests (fst (download_media_url env token url w)) = sent_requests w @ rs \<and> length rs \<le> 6 \<and>
     list_all (slack_request_ok env token) rs) \<and>
   (case snd (download_media_url env token url w) of Inl _ \<Rightarrow> True | Inr bytes \<Rightarrow> length bytes \<le> 10 * 1024 * 1024)"
proof (rule conjI)
  obtain w1 res where v: "validate_fetch_url env url False w = (w1, res)" by (rule prod.exhaust)
  have same: "sent_requests w1 = sent_requests w" using validate_sends_nothing(2) [of env url False w] v by simp
  show "\<exists>rs. sent_requests (fst (download_media_url env token url w)) = sent_requests w @ rs \<and> length rs \<le> 6 \<and>
     list_all (slack_request_ok env token) rs"
  proof (cases res)
    case (Inl e)
    then show ?thesis using v same by (simp add: download_media_url_def)
  next
    case (Inr u)
    then have "fetch_url_ok False u" using v validated_url by blast
    from slack.chase_requests [OF this, of env token "\<lambda>_. ''Slack media redirect limit exceeded''"
        "\<lambda>_. ''download Slack media before upload''" 5 w1]
    show ?thesis
      using v Inr same
      by (auto simp: download_media_url_def slack_media_max_redirects_def case_prod_beta split: sum.splits)
  qed
next
  show "case snd (download_media_url env token url w) of Inl _ \<Rightarrow> True | Inr bytes \<Rightarrow> length bytes \<le> 10 * 1024 * 1024"
  proof (cases "snd (download_media_url env token url w)")
    case (Inr bytes)
    then obtain r where "read_limited_media_response r = Inr bytes"
      by (auto simp: download_media_url_def case_prod_beta split: sum.splits)
    then obtain cs where "read_chunks [] cs = Inr bytes"
      by (auto simp: read_limited_media_response_def split: option.splits if_splits)
    then show ?thesis using Inr read_chunks_bounded [of "[]" cs bytes] by (simp add: slack_media_max_bytes_def)
  qed simp
qed

text \<open>Attachments: one request at most, none after a redirect, and at most 25 mebibytes from the network.\<close>

lemma attachment_download:
  "\<exists>rs. sent_requests (fst (load_attachment_bytes env failure m w)) = sent_requests w @ rs \<and> length rs \<le> 1 \<and>
     list_all (request_public False) rs"
  "snd (load_attachment_bytes env failure (Url url) w) = Inr bytes \<Longrightarrow> length bytes \<le> max_attachment_bytes"
proof -
  show "\<exists>rs. sent_requests (fst (load_attachment_bytes env failure m w)) = sent_requests w @ rs \<and> length rs \<le> 1 \<and>
     list_all (request_public False) rs"
  proof (cases m)
    case (Url url)
    obtain w1 res where v: "validate_fetch_url env url False w = (w1, res)" by (rule prod.exhaust)
    have same: "sent_requests w1 = sent_requests w" using validate_sends_nothing(2) [of env url False w] v by simp
    show ?thesis
    proof (cases res)
      case (Inl e)
      then show ?thesis using Url v same by (simp add: load_attachment_bytes_def)
    next
      case (Inr u)
      then have ok: "fetch_url_ok False u" using v validated_url by blast
      obtain w2 res2 where c: "pinned_public_fetch_client env u w1 = (w2, res2)" by (rule prod.exhaust)
      have same2: "sent_requests w2 = sent_requests w1" using client_sends_nothing [of env u w1] c by simp
      show ?thesis
      proof (cases res2)
        case (Inl e)
        then show ?thesis using Url v Inr c same same2 by (simp add: load_attachment_bytes_def)
      next
        case pins: (Inr pins)
        let ?r = "\<lparr>req_url = u, req_pins = pins, req_route = Direct, req_bearer = None\<rparr>"
        have "request_public False ?r" using pinned_request_public [OF ok] c pins by blast
        then show ?thesis
          using Url v Inr c pins same same2
          by (intro exI [of _ "[?r]"]) (simp add: load_attachment_bytes_def send_request_def case_prod_beta split: sum.splits)
      qed
    qed
  qed (simp add: load_attachment_bytes_def)
  assume "snd (load_attachment_bytes env failure (Url url) w) = Inr bytes"
  then obtain r where "attachment_body failure r = Inr bytes"
    by (auto simp: load_attachment_bytes_def case_prod_beta split: sum.splits)
  then obtain cs where "collect_attachment_body [] cs = Inr bytes"
    by (auto simp: attachment_body_def split: sum.splits option.splits if_splits)
  then show "length bytes \<le> max_attachment_bytes" using collect_attachment_bounded [of "[]" cs bytes] by simp
qed

end
