(* ===== verification/Provider_Messages.thy ===== *)
theory Provider_Messages
  imports Memory_Tools Tool_Policy Text_Utils
begin

text \<open>
  What the model of a provider is sent and answers (\<open>src/src/core/providers/response.rs\<close>), the collector
  that assembles a streamed answer under byte caps (\<open>src/src/core/providers/streaming.rs\<close>), and the text a
  conversation becomes for a provider without tool calling (\<open>src/src/core/agent/tool_protocol.rs\<close>). The
  JSON reader and printer are parameters, log probabilities an arbitrary type.
\<close>

subsection \<open>Messages and responses\<close>

datatype image_source = Base64Image rstr rstr | UrlImage rstr

datatype content_block =
  TextBlock rstr | ToolUseBlock rstr rstr json | ToolResultBlock rstr rstr bool | ImageBlock image_source

datatype message_role = UserRole | AssistantRole | SystemRole

record provider_message =
  msg_role :: message_role
  msg_content :: "content_block list"

datatype stop_reason = EndTurn | StopForTools | MaxTokens | StopError

record 'l provider_response =
  resp_text :: rstr
  input_tokens :: "64 word option"
  output_tokens :: "64 word option"
  resp_model :: "rstr option"
  content_blocks :: "content_block list"
  resp_stop :: "stop_reason option"
  logprobs :: "'l list option"

text \<open>The sum wraps in the release profile, which has no overflow checks.\<close>

definition total_tokens :: "'l provider_response \<Rightarrow> 64 word option" where
  "total_tokens r =
     (case (input_tokens r, output_tokens r) of (Some i, Some out) \<Rightarrow> Some (i + out) | _ \<Rightarrow> None)"

fun is_tool_use :: "content_block \<Rightarrow> bool" where
  "is_tool_use (ToolUseBlock _ _ _) = True"
| "is_tool_use _ = False"

definition iter_tool_use_blocks :: "'l provider_response \<Rightarrow> content_block list" where
  "iter_tool_use_blocks r = filter is_tool_use (content_blocks r)"

definition has_tool_use :: "'l provider_response \<Rightarrow> bool" where
  "has_tool_use r = list_ex is_tool_use (content_blocks r)"

definition into_assistant_message :: "'l provider_response \<Rightarrow> provider_message" where
  "into_assistant_message r =
     \<lparr>msg_role = AssistantRole,
      msg_content = (if content_blocks r = [] then [TextBlock (resp_text r)] else content_blocks r)\<rparr>"

definition user_text :: "rstr \<Rightarrow> provider_message" where
  "user_text t = \<lparr>msg_role = UserRole, msg_content = [TextBlock t]\<rparr>"

definition tool_result_message :: "rstr \<Rightarrow> rstr \<Rightarrow> bool \<Rightarrow> provider_message" where
  "tool_result_message i content failed = \<lparr>msg_role = UserRole, msg_content = [ToolResultBlock i content failed]\<rparr>"

subsection \<open>Streams\<close>

datatype stream_event =
  ResponseStart "rstr option" | TextDelta rstr | ToolCallDelta u32 "rstr option" "rstr option" rstr
| ToolCallComplete rstr rstr json | StreamDone "stop_reason option" "64 word option" "64 word option"

definition max_tool_call_builders :: nat where "max_tool_call_builders = 128"
definition max_stream_text_bytes :: nat where "max_stream_text_bytes = 1048576"
definition max_tool_call_input_json_bytes :: nat where "max_tool_call_input_json_bytes = 262144"
definition max_total_tool_call_input_json_bytes :: nat where "max_total_tool_call_input_json_bytes = 1048576"

record tool_call_builder =
  tb_id :: rstr
  tb_name :: rstr
  tb_json :: rstr

record stream_collector =
  sc_text :: rstr
  sc_blocks :: "content_block list"
  sc_builders :: "tool_call_builder list"
  sc_json_bytes :: nat
  sc_stop :: "stop_reason option"
  sc_input_tokens :: "64 word option"
  sc_output_tokens :: "64 word option"
  sc_model :: "rstr option"

definition collector_new :: stream_collector where
  "collector_new =
     \<lparr>sc_text = [], sc_blocks = [], sc_builders = [], sc_json_bytes = 0, sc_stop = None, sc_input_tokens = None,
      sc_output_tokens = None, sc_model = None\<rparr>"

text \<open>The target with the part of the input that fits, and how many bytes of it.\<close>

definition append_capped_utf8 :: "rstr \<Rightarrow> rstr \<Rightarrow> nat \<Rightarrow> rstr \<times> nat" where
  "append_capped_utf8 target input max_bytes =
     (let remaining = max_bytes - length target in
      if remaining = 0 then (target, 0)
      else if length input \<le> remaining then (target @ input, length input)
      else let split = floor_char_boundary input remaining in (target @ take split input, split))"

definition empty_builder :: tool_call_builder where
  "empty_builder = \<lparr>tb_id = [], tb_name = [], tb_json = []\<rparr>"

definition builder_index :: "u32 \<Rightarrow> nat option" where
  "builder_index i = (if max_tool_call_builders \<le> unat i then None else Some (unat i))"

definition ensure_builder_slot :: "nat \<Rightarrow> tool_call_builder list \<Rightarrow> tool_call_builder list" where
  "ensure_builder_slot k bs = bs @ replicate (Suc k - length bs) empty_builder"

definition feed_tool_call_delta ::
    "u32 \<Rightarrow> rstr option \<Rightarrow> rstr option \<Rightarrow> rstr \<Rightarrow> stream_collector \<Rightarrow> stream_collector" where
  "feed_tool_call_delta i call_id call_name delta c =
     (case builder_index i of
        None \<Rightarrow> c
      | Some k \<Rightarrow>
          let bs = ensure_builder_slot k (sc_builders c); b = bs ! k;
              b = b\<lparr>tb_id := (case call_id of Some x \<Rightarrow> x | None \<Rightarrow> tb_id b),
                    tb_name := (case call_name of Some x \<Rightarrow> x | None \<Rightarrow> tb_name b)\<rparr>;
              remaining_total = max_total_tool_call_input_json_bytes - sc_json_bytes c;
              remaining_builder = max_tool_call_input_json_bytes - length (tb_json b);
              max_append = min remaining_total remaining_builder;
              max_len = length (tb_json b) + max_append
          in case append_capped_utf8 (tb_json b) delta max_len of
               (js, appended) \<Rightarrow>
                 c\<lparr>sc_builders := bs[k := b\<lparr>tb_json := js\<rparr>], sc_json_bytes := sc_json_bytes c + appended\<rparr>)"

fun feed :: "stream_event \<Rightarrow> stream_collector \<Rightarrow> stream_collector" where
  "feed (ResponseStart m) c = c\<lparr>sc_model := m\<rparr>"
| "feed (TextDelta t) c = c\<lparr>sc_text := fst (append_capped_utf8 (sc_text c) t max_stream_text_bytes)\<rparr>"
| "feed (ToolCallDelta i call_id call_name delta) c = feed_tool_call_delta i call_id call_name delta c"
| "feed (ToolCallComplete i name input) c = c\<lparr>sc_blocks := sc_blocks c @ [ToolUseBlock i name input]\<rparr>"
| "feed (StreamDone stop in_tok out_tok) c =
     c\<lparr>sc_stop := stop, sc_input_tokens := in_tok, sc_output_tokens := out_tok\<rparr>"

definition into_content_block :: "(rstr \<Rightarrow> json option) \<Rightarrow> tool_call_builder \<Rightarrow> content_block option" where
  "into_content_block parse_json b =
     (if tb_id b = [] \<or> tb_name b = [] then None
      else map_option (ToolUseBlock (tb_id b) (tb_name b)) (parse_json (tb_json b)))"

definition finish :: "(rstr \<Rightarrow> json option) \<Rightarrow> stream_collector \<Rightarrow> 'l provider_response" where
  "finish parse_json c =
     \<lparr>resp_text = sc_text c, input_tokens = sc_input_tokens c, output_tokens = sc_output_tokens c,
      resp_model = sc_model c,
      content_blocks =
        (if sc_text c = [] then [] else [TextBlock (sc_text c)]) @ sc_blocks c @
        List.map_filter (into_content_block parse_json) (sc_builders c),
      resp_stop = sc_stop c, logprobs = None\<rparr>"

definition collect_stream :: "(rstr \<Rightarrow> json option) \<Rightarrow> stream_event list \<Rightarrow> 'l provider_response" where
  "collect_stream parse_json events = finish parse_json (fold feed events collector_new)"

fun block_event :: "content_block \<Rightarrow> stream_event list" where
  "block_event (ToolUseBlock i name input) = [ToolCallComplete i name input]"
| "block_event (TextBlock _) = []"
| "block_event (ToolResultBlock _ _ _) = []"
| "block_event (ImageBlock _) = []"

definition resp_to_events :: "'l provider_response \<Rightarrow> stream_event list" where
  "resp_to_events r =
     [ResponseStart (resp_model r)] @ (if resp_text r = [] then [] else [TextDelta (resp_text r)]) @
     concat (map block_event (content_blocks r)) @ [StreamDone (resp_stop r) (input_tokens r) (output_tokens r)]"

subsection \<open>Conversations as text\<close>

record tool_spec =
  spec_name :: rstr
  spec_description :: rstr
  spec_parameters :: json
  spec_capabilities :: "capability list"
  spec_effect :: tool_effect

fun xml_escape :: "rstr \<Rightarrow> rstr" where
  "xml_escape [] = []"
| "xml_escape (c # s) =
     (if c = CHR ''&'' then ''&amp;'' else if c = CHR ''<'' then ''&lt;'' else if c = CHR ''>'' then ''&gt;''
      else if c = CHR 0x22 then ''&quot;'' else if c = CHR 0x27 then ''&#39;'' else [c]) @ xml_escape s"

definition role_label :: "message_role \<Rightarrow> rstr" where
  "role_label r = (case r of UserRole \<Rightarrow> ''User'' | AssistantRole \<Rightarrow> ''Assistant'' | SystemRole \<Rightarrow> ''System'')"

fun render_block :: "(json \<Rightarrow> rstr) \<Rightarrow> content_block \<Rightarrow> rstr" where
  "render_block print (TextBlock t) = t"
| "render_block print (ToolUseBlock _ name input) =
     ''<tool_call>'' @ [CHR 0x0A] @ print (JObject [(''arguments'', input), (''name'', JString name)]) @
     [CHR 0x0A] @ ''</tool_call>''"
| "render_block print (ToolResultBlock i content failed) =
     ''<tool_result id='' @ [CHR 0x22] @ xml_escape i @ [CHR 0x22] @ '' status='' @ [CHR 0x22] @
     (if failed then ''error'' else ''success'') @ [CHR 0x22] @ ''>'' @ [CHR 0x0A] @ xml_escape content @
     [CHR 0x0A] @ ''</tool_result>''"
| "render_block print (ImageBlock _) = ''[image]''"

definition render_message :: "(json \<Rightarrow> rstr) \<Rightarrow> provider_message \<Rightarrow> rstr" where
  "render_message print m =
     role_label (msg_role m) @ '': '' @ join [CHR 0x0A] (map (render_block print) (msg_content m))"

definition render_messages_for_fallback :: "(json \<Rightarrow> rstr) \<Rightarrow> provider_message list \<Rightarrow> rstr" where
  "render_messages_for_fallback print ms = join [CHR 0x0A, CHR 0x0A] (map (render_message print) ms)"

definition tool_line :: "(json \<Rightarrow> rstr) \<Rightarrow> tool_spec \<Rightarrow> rstr" where
  "tool_line print t =
     ''- '' @ spec_name t @ '': '' @ spec_description t @ '' Parameters: '' @ print (spec_parameters t) @ [CHR 0x0A]"

definition render_tool_instructions :: "(json \<Rightarrow> rstr) \<Rightarrow> tool_spec list \<Rightarrow> rstr" where
  "render_tool_instructions print tools =
     (let n = [CHR 0x0A]; q = (\<lambda>s. [CHR 0x22] @ s @ [CHR 0x22]) in
      ''## Available Tools (MANDATORY)'' @ n @ n @
      ''When a task requires action, you MUST respond with tool calls using this EXACT format:'' @ n @ n @
      ''```'' @ n @ ''<tool_call>'' @ n @
      ''{'' @ q ''name'' @ '': '' @ q ''tool_name'' @ '', '' @ q ''arguments'' @ '': {'' @ q ''param'' @ '': '' @
      q ''value'' @ ''}}'' @ n @ ''</tool_call>'' @ n @ ''```'' @ n @ n @
      ''You may use multiple <tool_call> blocks in a single response.'' @ n @
      ''After receiving tool results, continue your response.'' @ n @
      ''NEVER describe what you would do '' @ [CHR 0xE2, CHR 0x80, CHR 0x94] @
      '' just emit the <tool_call> block.'' @ n @ n @
      ''Available tools:'' @ n @
      (if tools = [] then ''- (none)'' @ n else concat (map (tool_line print) tools)))"

subsection \<open>Caps of the collector\<close>

definition collector_ok :: "stream_collector \<Rightarrow> bool" where
  "collector_ok c \<longleftrightarrow>
     length (sc_text c) \<le> max_stream_text_bytes \<and> length (sc_builders c) \<le> max_tool_call_builders \<and>
     list_all (\<lambda>b. length (tb_json b) \<le> max_tool_call_input_json_bytes) (sc_builders c) \<and>
     sc_json_bytes c = sum_list (map (\<lambda>b. length (tb_json b)) (sc_builders c)) \<and>
     sc_json_bytes c \<le> max_total_tool_call_input_json_bytes"

lemma floor_char_boundary_le: "floor_char_boundary s i \<le> length s" "floor_char_boundary s i \<le> i"
proof -
  have "boundary_before s k \<le> k" for k by (induction k) (auto simp: le_SucI)
  from this [of "min i (length s)"] show "floor_char_boundary s i \<le> length s" "floor_char_boundary s i \<le> i"
    by (auto simp: floor_char_boundary_def Let_def)
qed

lemma append_capped_length:
  assumes "append_capped_utf8 target input max_bytes = (t, n)"
  shows "length t = length target + n" "n \<le> max_bytes - length target"
  using assms floor_char_boundary_le [of input "max_bytes - length target"]
  by (auto simp: append_capped_utf8_def Let_def split: if_splits)

lemma append_capped_fits:
  "length target + length input \<le> max_bytes \<Longrightarrow> append_capped_utf8 target input max_bytes = (target @ input, length input)"
  by (auto simp: append_capped_utf8_def Let_def)

lemma sum_list_update_one:
  "k < length xs \<Longrightarrow> sum_list (map f (xs[k := y])) + f (xs ! k) = sum_list (map f xs) + (f y :: nat)"
  by (induction xs arbitrary: k) (auto split: nat.splits)

lemma ensure_builder_slot_facts:
  "k < length (ensure_builder_slot k bs)"
  "length (ensure_builder_slot k bs) = max (length bs) (Suc k)"
  "sum_list (map (\<lambda>b. length (tb_json b)) (ensure_builder_slot k bs)) = sum_list (map (\<lambda>b. length (tb_json b)) bs)"
  "list_all P bs \<Longrightarrow> P empty_builder \<Longrightarrow> list_all P (ensure_builder_slot k bs)"
  by (auto simp: ensure_builder_slot_def list_all_iff map_replicate sum_list_replicate empty_builder_def)

lemma feed_tool_call_delta_ok: "collector_ok c \<Longrightarrow> collector_ok (feed_tool_call_delta i x y d c)"
proof (cases "builder_index i")
  case None
  assume "collector_ok c"
  with None show ?thesis by (simp add: feed_tool_call_delta_def)
next
  case (Some k)
  assume ok: "collector_ok c"
  define bs where "bs = ensure_builder_slot k (sc_builders c)"
  define b where "b = (bs ! k)\<lparr>tb_id := (case x of Some x \<Rightarrow> x | None \<Rightarrow> tb_id (bs ! k)),
                    tb_name := (case y of Some x \<Rightarrow> x | None \<Rightarrow> tb_name (bs ! k))\<rparr>"
  define cap where "cap = length (tb_json b) + min (max_total_tool_call_input_json_bytes - sc_json_bytes c)
                            (max_tool_call_input_json_bytes - length (tb_json b))"
  obtain js n where app: "append_capped_utf8 (tb_json b) d cap = (js, n)" by fastforce
  have k: "k < length bs" and len: "length bs \<le> max_tool_call_builders"
    using Some ok by (auto simp: bs_def ensure_builder_slot_facts collector_ok_def builder_index_def split: if_splits)
  have each: "list_all (\<lambda>b. length (tb_json b) \<le> max_tool_call_input_json_bytes) bs"
    unfolding bs_def by (rule ensure_builder_slot_facts) (use ok in \<open>auto simp: collector_ok_def empty_builder_def\<close>)
  have js: "length js = length (tb_json b) + n"
      "n \<le> min (max_total_tool_call_input_json_bytes - sc_json_bytes c) (max_tool_call_input_json_bytes - length (tb_json b))"
    using append_capped_length [OF app] by (auto simp: cap_def)
  have b: "tb_json b = tb_json (bs ! k)" by (simp add: b_def)
  have "length (tb_json b) \<le> max_tool_call_input_json_bytes" using each k by (simp add: b list_all_length)
  then have "list_all (\<lambda>b. length (tb_json b) \<le> max_tool_call_input_json_bytes) (bs[k := b\<lparr>tb_json := js\<rparr>])"
    using each js by (auto simp: list_all_iff dest!: set_update_subset_insert [THEN subsetD])
  moreover have "sum_list (map (\<lambda>b. length (tb_json b)) (bs[k := b\<lparr>tb_json := js\<rparr>])) = sc_json_bytes c + n"
    using sum_list_update_one [OF k, of "\<lambda>b. length (tb_json b)" "b\<lparr>tb_json := js\<rparr>"] js(1) b ok
    by (simp add: collector_ok_def bs_def ensure_builder_slot_facts)
  moreover have "feed_tool_call_delta i x y d c = c\<lparr>sc_builders := bs[k := b\<lparr>tb_json := js\<rparr>], sc_json_bytes := sc_json_bytes c + n\<rparr>"
    using Some app by (simp add: feed_tool_call_delta_def Let_def flip: bs_def b_def cap_def)
      (simp add: bs_def b_def cap_def)
  ultimately show ?thesis using ok len js(2) by (auto simp: collector_ok_def)
qed

lemma feed_ok: "collector_ok c \<Longrightarrow> collector_ok (feed e c)"
proof (cases e)
  case (TextDelta t)
  assume "collector_ok c"
  moreover obtain s n where s: "append_capped_utf8 (sc_text c) t max_stream_text_bytes = (s, n)" by fastforce
  ultimately show ?thesis using append_capped_length [OF s] TextDelta by (auto simp: collector_ok_def)
next
  case (ToolCallDelta i x y d)
  assume "collector_ok c"
  then show ?thesis using ToolCallDelta by (simp add: feed_tool_call_delta_ok)
qed (auto simp: collector_ok_def)

lemma fold_feed_ok: "collector_ok c \<Longrightarrow> collector_ok (fold feed es c)"
  by (induction es arbitrary: c) (auto simp: feed_ok)

lemma collector_new_ok: "collector_ok collector_new"
  by (simp add: collector_ok_def collector_new_def)

text \<open>Whatever events a stream delivers, what the collector keeps of it stays under its caps: at most one
  mebibyte of text, at most 128 tool calls under construction, at most a quarter of a mebibyte of
  arguments in each and one mebibyte in all of them, and the running count is the true sum.\<close>

theorem stream_memory_bounded:
  "case fold feed events collector_new of c \<Rightarrow>
     length (sc_text c) \<le> 2 ^ 20 \<and> length (sc_builders c) \<le> 128 \<and>
     list_all (\<lambda>b. length (tb_json b) \<le> 2 ^ 18) (sc_builders c) \<and>
     sc_json_bytes c = sum_list (map (\<lambda>b. length (tb_json b)) (sc_builders c)) \<and> sc_json_bytes c \<le> 2 ^ 20"
  using fold_feed_ok [OF collector_new_ok, of events]
  by (simp add: collector_ok_def max_stream_text_bytes_def max_tool_call_builders_def
      max_tool_call_input_json_bytes_def max_total_tool_call_input_json_bytes_def)

subsection \<open>Responses through a stream\<close>

lemma fold_block_events:
  "fold feed (concat (map block_event bs)) c = c\<lparr>sc_blocks := sc_blocks c @ filter is_tool_use bs\<rparr>"
proof (induction bs arbitrary: c)
  case (Cons b bs)
  then show ?case by (cases b) simp_all
qed simp

text \<open>What the collector makes of the events of a response.\<close>

definition through_stream :: "'l provider_response \<Rightarrow> 'l provider_response" where
  "through_stream r =
     r\<lparr>content_blocks := (if resp_text r = [] then [] else [TextBlock (resp_text r)]) @ iter_tool_use_blocks r,
       logprobs := None\<rparr>"

lemma collect_resp_to_events:
  "length (resp_text r) \<le> max_stream_text_bytes \<Longrightarrow> collect_stream parse_json (resp_to_events r) = through_stream r"
  by (simp add: collect_stream_def resp_to_events_def fold_block_events finish_def through_stream_def
      collector_new_def append_capped_fits iter_tool_use_blocks_def map_filter_simps)

text \<open>A streamed call whose arguments never came is dropped: the empty text is not JSON, so the call of a tool
  without parameters is not in the response, while the reason to stop still asks for tools.\<close>

lemma streamed_call_without_arguments_lost:
  assumes "parse_json [] = None"
  shows "content_blocks (collect_stream parse_json
           [ResponseStart None, ToolCallDelta 0 (Some ''toolu_1'') (Some ''list_subagents'') [],
            StreamDone (Some StopForTools) None None] :: 'l provider_response) = []"
  using assms
  by (simp add: collect_stream_def collector_new_def feed_tool_call_delta_def builder_index_def
      max_tool_call_builders_def ensure_builder_slot_def empty_builder_def append_capped_utf8_def finish_def
      into_content_block_def map_filter_simps Let_def max_tool_call_input_json_bytes_def
      max_total_tool_call_input_json_bytes_def)

end
