(* ===== verification/Spec2Isabelle.thy ===== *)
theory Spec2Isabelle
  imports Path_Policy Command_Policy Process_Spawn Governance Tool_Policy Permissions Pairing
    Replay_Guard Audit_Chain Spawn_Limits Circuit_Breaker Write_Policy Memory_Tools Rate_Limits
    Security_Policy Secrets Auth_Store Auth_Persistence Memory_Ingress Markdown_Format
    Forget_Contract Markdown_Memory Markdown_Tools Chunker Text_Utils Scrub Stream_Redactor
    Reliable_Provider Coalescer Routing_Queue Cron_Expression External_Content Writeback_Guard
    Tool_Pipeline Subagent_Runtime Web_Fetch Media_Fetch Tool_Loop
begin

text \<open>
  Verification of the Asterel companion runtime (Rust, \<open>src/src\<close>): the decisions that protect its user
  and the memory it keeps.

  \<^bold>\<open>The program.\<close> Asterel answers chat messages with a language model that may call tools. What a model
  or a remote peer may cause is decided by small sequential components, and those are modelled here: a
  security policy built from the configuration (autonomy level, workspace, budgets) decides on paths,
  commands and child processes; a tool policy and a permission store decide on tool calls; a governance
  matrix combines trust, risk and taint. Every tool call runs through one pipeline that asks all of
  these, called by the loop of a turn, and a call may delegate to a subagent with a budget of its own.
  What a tool fetches goes through a guard on network addresses. The gateway guards (pairing, replay)
  decide on peers; write policies and tenant scopes decide on memory events; the memory tools turn a
  JSON argument into calls of a memory backend; the markdown backend keeps those events as text files.
  What comes from outside is normalised, searched for injections and put into an envelope before the
  model sees it, and what the model wants to keep of itself passes the writeback guard. Channel events
  reach the agent through a coalescer and a set of queues; provider calls go through a breaker and a
  chain of retries and fallbacks, and the reply goes back through a streaming filter. The model
  providers and the chat front ends sit around these parts.

  \<^bold>\<open>Conventions.\<close> A Rust string is the list of its UTF-8 bytes (\<open>rstr\<close> in \<open>Rust_Strings\<close>), so that
  lengths, prefixes and splits mean what they mean in the code. A fallible function returns a \<open>result\<close>
  (\<open>Err\<close> or \<open>Ok\<close>, a sum) with an error datatype; a \<open>&mut self\<close> method returns the changed state beside
  its result. Integers are words where overflow can matter (the \<open>u32\<close> budgets, the pairing draw),
  naturals for time stamps and lengths, rationals for scores, whose checks need order and bounds only.
  Clock readings, random bytes, file contents and failures of the operating system are arguments. Hash
  maps are association lists or maps; their iteration order is the order of the list. Third-party
  functions (JSON, TOML, hex and AEAD codecs, SHA-256, Unicode lower-casing) are parameters; a theorem
  that needs a law of one names it as a hypothesis (\<open>crypto_ok\<close>, \<open>codec_ok\<close>, injectivity of the hash)
  and has a witness with a concrete instance.

  \<^bold>\<open>Shared theories.\<close> \<open>Rust_Prelude\<close> has results, integers, clocks, the collections \<open>policy_defs\<close> and
  \<open>rstr_simps\<close>, and two interfaces as locales: \<open>guarded_machine\<close> (a step function with an invariant
  under a guard on its inputs; interpreted on the action tracker, the limiter, pairing, the replay guard
  and the permission store, whose invariants over whole runs are its facts) and \<open>expiring_table\<close>
  (interpreted in \<open>Timed_Entries\<close> on the tables pairing and replay guard use). \<open>Write_Policy\<close> adds
  \<open>traceable_writes\<close>, interpreted on the ten write policies. \<open>Rust_Strings\<close> and \<open>Text_Lines\<close> model the
  operations of \<open>str\<close> the program uses; \<open>Unicode_Text\<close> decodes UTF-8, with replacement of what is not,
  into code points for the components that work on characters.

  \<^bold>\<open>Components.\<close> Each theory names its source file in its first lines.
  \<^item> \<open>Contracts\<close>, \<open>Security_Policy\<close>, \<open>Rate_Limits\<close> (\<open>contracts/tenant.rs\<close>, \<open>security/policy/mod.rs\<close>,
    \<open>trackers.rs\<close>, \<open>config/schema/autonomy.rs\<close>): tenant scopes, the policy object, sliding windows and
    the cost budget. Lemmas: a rollout never raises autonomy, windows and budgets hold under every
    schedule with a monotonic clock, and what happens in the first hour of that clock.
  \<^item> \<open>Path_Policy\<close>, \<open>Command_Policy\<close>, \<open>Process_Spawn\<close> (\<open>security/policy/path.rs\<close>, \<open>command.rs\<close>,
    \<open>security/process_spawn.rs\<close>): accepted paths have ordinary components only and stay below the
    workspace. \<open>shell_lines\<close> says what a shell runs of a command without quotes, redirections and the
    like (\<open>plain_command\<close>): each of these lines, and each payload of \<open>find -exec\<close> at any depth, was
    checked itself; lemmas list what the policy misses in other commands. A child process went through
    both.
  \<^item> \<open>Tool_Guards\<close>, \<open>Tool_Pipeline\<close> (\<open>core/tools/middleware\<close>, \<open>core/tools/registry.rs\<close>): the checks on a
    call and the pipeline from the registry through middleware, hooks, approval, retries and output
    stages to the audit record. A tool body may change the whole world of the pipeline, as one that
    delegates does. It runs only when every guard let the call pass, results leave scrubbed and
    labelled, every answered call ends with its one record, retries are bounded; hooks and grants are
    shown to be weaker than documented.
  \<^item> \<open>Provider_Messages\<close>, \<open>Tool_Loop\<close> (\<open>core/providers/response.rs\<close>, \<open>streaming.rs\<close>,
    \<open>core/agent/tool_loop.rs\<close>, \<open>tool_execution.rs\<close>, \<open>checkpoint.rs\<close>, \<open>result_filter.rs\<close>): messages and
    streamed answers, and the loop of a turn over an arbitrary provider, with a trace of what is sent
    and answered. A turn ends within its bound, every conversation sent has its tool calls answered, and
    a model that repeats itself is stopped; checkpoints and the filter of results have gaps.
  \<^item> \<open>Delegation\<close>, \<open>Subagent_Runtime\<close> (\<open>core/tools/subagent\<close>, \<open>core/tools/delegate.rs\<close>,
    \<open>core/subagents/runtime.rs\<close>): the slot counter under any interleaving, the size of the tree of
    agents, what a subagent inherits, and the one boundary it loses in a group; the life of a run under
    interleaved critical sections, how many runs a parent has, and that no caller sees or changes the
    runs of another.
  \<^item> \<open>Net_Guard\<close>, \<open>Redirects\<close>, \<open>Web_Fetch\<close>, \<open>Media_Fetch\<close> (\<open>contracts/network.rs\<close>,
    \<open>security/url_validation.rs\<close>, \<open>utils/http.rs\<close>, \<open>core/tools/web\<close>, \<open>transport/channels\<close>): private
    addresses are the documented blocks, and whatever resolvers and servers answer, the requests of the
    web tools and of the media downloads reach public addresses only. \<open>Redirects\<close> states the contract of
    the redirect loop as the locale \<open>guarded_fetch\<close>, interpreted on the web tools and on Slack.
  \<^item> \<open>Tool_Policy\<close>, \<open>Permissions\<close>, \<open>Governance\<close> (\<open>security/tool_policy\<close>, \<open>permissions.rs\<close>,
    \<open>governance.rs\<close>, \<open>taint\<close>): the engine refines the documented precedence, every granted call has a
    grantor, the matrix is monotone, taint is never laundered.
  \<^item> \<open>Pairing\<close>, \<open>Replay_Guard\<close>, \<open>Audit_Chain\<close> (\<open>security/pairing.rs\<close>,
    \<open>transport/gateway/replay_guard.rs\<close>, \<open>security/merkle.rs\<close>): bounds on guessing, no request twice
    within its time to live, also over a restart, tamper evidence of the chain under an injective hash.
  \<^item> \<open>Spawn_Limits\<close>, \<open>Circuit_Breaker\<close> (\<open>core/subagents/spawn_limits.rs\<close>,
    \<open>core/providers/circuit_breaker.rs\<close>): the graph searches equal their specification by reachability,
    and the breaker's state is consistent under interleaved calls.
  \<^item> \<open>Secrets\<close>, \<open>Auth_Store\<close>, \<open>Auth_Persistence\<close> (\<open>security/secrets.rs\<close>, \<open>security/auth\<close>): round trips of
    stored secrets, selection of the active profile, the invariant of the store after normalisation, no
    secret in the clear after a start, nothing lost between save and start.
  \<^item> \<open>Write_Policy\<close>, \<open>Memory_Tools\<close> (\<open>security/writeback_guard/policy.rs\<close>, \<open>core/tools/memory\<close>): which
    writes pass, tenant isolation of every memory tool over an arbitrary backend, redaction and audit.
  \<^item> \<open>Memory_Ingress\<close>, \<open>Markdown_Format\<close>, \<open>Forget_Contract\<close>, \<open>Markdown_Memory\<close>, \<open>Markdown_Tools\<close>
    (\<open>core/memory\<close>, \<open>contracts/memory_forget.rs\<close>): normalisation of events, the line format and its
    round trip, the backend on a record of files, and the memory tools run on that backend. An event
    keeps everything but its identifiers, which are spelled out, and its scores; an appended value is
    what a lookup answers, where value and provenance are single lines; forgetting is answered without
    being done.
  \<^item> \<open>Chunker\<close>, \<open>Text_Utils\<close> (\<open>core/memory/chunker.rs\<close>, \<open>utils/text.rs\<close>): chunks keep the words of the
    document and obey an exact bound; cleaning functions terminate and remove what they promise.
  \<^item> \<open>Detection_Normalize\<close>, \<open>Injection_Patterns\<close>, \<open>Injection_Detect\<close>, \<open>Detection_Disguise\<close>,
    \<open>External_Content\<close> (\<open>security/external_content\<close>): the normal form of a text, which patterns can
    match at all, that a pattern of plain letters is found in every disguise the normal form undoes,
    that the envelope of a text has one opening and one closing marker, and that stored summaries are
    recognised.
  \<^item> \<open>Writeback_Guard\<close> (\<open>security/writeback_guard\<close>): what an accepted payload satisfies.
  \<^item> \<open>Scrub\<close>, \<open>Stream_Redactor\<close> (\<open>security/scrub.rs\<close>, \<open>core/providers/streaming\<close>): scrubbing replaces the
    token behind each marker and nothing else, and leaves no marker with a token behind it; what a sink
    streams of the replies of a turn is their text filtered as a whole (\<open>scan\<close> and \<open>blocks_removed\<close>),
    however it is cut into deltas, with what one reply leaves to the next.
  \<^item> \<open>Reliable_Provider\<close> (\<open>core/providers/reliable.rs\<close>, \<open>error.rs\<close>): the providers are called in their
    order, each within its bound on attempts and pauses, and all of them before an error is answered.
  \<^item> \<open>Channel_Events\<close>, \<open>Coalescer\<close>, \<open>Routing_Queue\<close> (\<open>transport/channels\<close>): a merged message is the one
    its group spells out, and merging keeps every event in order; the queues keep the order of each
    group under every interleaving of listener and workers.
  \<^item> \<open>Cron_Expression\<close> (\<open>platform/cron/expression.rs\<close>): the fields of a normalised schedule.

  \<^bold>\<open>Loops, bounds and fuel.\<close> Loops over lists are folds or structural recursions; loops on a cursor are
  \<open>function\<close>s with a measure. The one loop whose end is not visible from its shape (\<open>collapse_spaces\<close>)
  is a partial function, and that it returns is a theorem. The graph searches of \<open>Spawn_Limits\<close> recurse
  on the number of unvisited nodes. There is no fuel except the draws given to the pairing code
  generator, whose rejection probability is a theorem. The waits of the coalescer are a script of how
  each one ends, and the routing queues are a step relation with one step per atomic section of the
  code, like the slot counter and the map of runs; all are quantified over in their theorems. The
  redirect loop recurses on the redirects left, the loop of a turn on the iterations left, at most 25.

  \<^bold>\<open>Not modelled.\<close> Asynchronous orchestration (the session around the tool loop, the parser of tool
  calls in free text, coordination of several agents, gateways, channel adapters, the cron daemon), the
  clients of model providers, database backends and embeddings, the persona, affect and world models
  (prompt construction and floating point heuristics), the configuration wizards, plugins, media and
  service files. Temperature bands, trust scores and keyword overlap scores are floating point. File
  locks, directory syncing and access rights of files are below the level of the file records.
  Concurrency is modelled where the code relies on it: as interleavings of whole critical sections.
\<close>

end
